(* ===== verification/Rmux_Prelude.thy ===== *)
theory Rmux_Prelude
  imports Main "HOL-Library.Word"
begin

text \<open>
  Shared vocabulary of the development: the machine integers of the Rust sources read as
  bounded naturals and integers with their wrap-around and saturation written out, the result
  type of fallible code, and the lemmas on bounded arithmetic that the component theories use.
\<close>

section \<open>Machine integers\<close>

text \<open>
  A \<open>u16\<close>, \<open>u32\<close> or \<open>usize\<close> value is a natural number. The release profile of the
  workspace leaves overflow checks off, so \<open>+\<close> and \<open>*\<close> on \<open>u32\<close> wrap; the
  \<open>saturating_*\<close> methods of the standard library stop at the bounds instead. A
  \<open>saturating_sub\<close> on an unsigned type is subtraction on \<open>nat\<close>.
\<close>

type_synonym u16 = nat
type_synonym u32 = nat
type_synonym usize = nat
type_synonym u64 = nat
type_synonym i32 = int
type_synonym i64 = int

definition u16_max :: nat where
  "u16_max = 65535"

definition u32_max :: nat where
  "u32_max = 4294967295"

definition u64_max :: nat where
  "u64_max = 18446744073709551615"

definition i32_max :: nat where
  "i32_max = 2147483647"

definition u32_wrap :: "nat \<Rightarrow> u32" where
  "u32_wrap n = n mod 4294967296"

definition u64_wrap :: "nat \<Rightarrow> u64" where
  "u64_wrap n = n mod 18446744073709551616"

definition u32_add :: "u32 \<Rightarrow> u32 \<Rightarrow> u32" where
  "u32_add a b = u32_wrap (a + b)"

definition u32_mul :: "u32 \<Rightarrow> u32 \<Rightarrow> u32" where
  "u32_mul a b = u32_wrap (a * b)"

definition u32_sat_add :: "u32 \<Rightarrow> u32 \<Rightarrow> u32" where
  "u32_sat_add a b = min (a + b) u32_max"

definition u32_sat_mul :: "u32 \<Rightarrow> u32 \<Rightarrow> u32" where
  "u32_sat_mul a b = min (a * b) u32_max"

definition i32_wrap :: "int \<Rightarrow> i32" where
  "i32_wrap z = (z + 2147483648) mod 4294967296 - 2147483648"

text \<open>The casts \<open>n as i32\<close> of a \<open>u32\<close> and \<open>z as u32\<close> of an \<open>i32\<close>.\<close>

definition u32_as_i32 :: "u32 \<Rightarrow> i32" where
  "u32_as_i32 n = i32_wrap (int n)"

definition i32_as_u32 :: "i32 \<Rightarrow> u32" where
  "i32_as_u32 z = nat (z mod 4294967296)"

definition u32_sat_add_signed :: "u32 \<Rightarrow> i32 \<Rightarrow> u32" where
  "u32_sat_add_signed n z = nat (min (int u32_max) (max 0 (int n + z)))"

named_theorems machine_defs \<open>definitions of the machine integer operations\<close>

declare u16_max_def [machine_defs] u32_max_def [machine_defs] i32_max_def [machine_defs]
  u64_max_def [machine_defs] u64_wrap_def [machine_defs]
  u32_wrap_def [machine_defs] u32_add_def [machine_defs] u32_mul_def [machine_defs]
  u32_sat_add_def [machine_defs] u32_sat_mul_def [machine_defs] i32_wrap_def [machine_defs]
  u32_as_i32_def [machine_defs] i32_as_u32_def [machine_defs]
  u32_sat_add_signed_def [machine_defs]

named_theorems in_range \<open>machine operations that stay in range are exact\<close>

lemma u32_wrap_id [in_range]: "n \<le> u32_max \<Longrightarrow> u32_wrap n = n"
  by (simp add: machine_defs)

lemma u64_wrap_id [in_range]: "n \<le> u64_max \<Longrightarrow> u64_wrap n = n"
  by (simp add: machine_defs)

lemma u32_add_exact [in_range]: "a + b \<le> u32_max \<Longrightarrow> u32_add a b = a + b"
  by (simp add: machine_defs)

lemma u32_mul_exact [in_range]: "a * b \<le> u32_max \<Longrightarrow> u32_mul a b = a * b"
  by (simp add: machine_defs)

lemma u32_sat_add_exact [in_range]: "a + b \<le> u32_max \<Longrightarrow> u32_sat_add a b = a + b"
  by (simp add: machine_defs)

lemma u32_as_i32_exact [in_range]: "n \<le> i32_max \<Longrightarrow> u32_as_i32 n = int n"
  by (simp add: machine_defs)

lemma i32_wrap_exact [in_range]:
  "- 2147483648 \<le> z \<Longrightarrow> z \<le> 2147483647 \<Longrightarrow> i32_wrap z = z"
  by (simp add: machine_defs)

lemma i32_as_u32_exact [in_range]: "0 \<le> z \<Longrightarrow> z \<le> 2147483647 \<Longrightarrow> i32_as_u32 z = nat z"
  by (simp add: machine_defs)

lemma u32_sat_add_signed_exact [in_range]:
  "0 \<le> int n + z \<Longrightarrow> int n + z \<le> int u32_max \<Longrightarrow> u32_sat_add_signed n z = nat (int n + z)"
  by (simp add: machine_defs)

lemma i32_max_le_u32_max [simp]: "i32_max \<le> u32_max"
  by (simp add: machine_defs)

lemma i32_max_lt_u32_max [simp]: "i32_max < u32_max"
  by (simp add: machine_defs)

lemma u32_wrap_le [simp]: "u32_wrap n \<le> u32_max"
proof -
  have "n mod 4294967296 < 4294967296" by (rule mod_less_divisor) simp
  then show ?thesis by (simp add: machine_defs)
qed

section \<open>Results\<close>

text \<open>
  Fallible code returns \<open>'e + 'a\<close>, the error on the left. \<open>res_bind\<close> is the \<open>?\<close>
  operator: it stops at the first error.
\<close>

type_synonym ('e, 'a) res = "'e + 'a"

fun res_bind :: "('e, 'a) res \<Rightarrow> ('a \<Rightarrow> ('e, 'b) res) \<Rightarrow> ('e, 'b) res" where
  "res_bind (Inl e) f = Inl e"
| "res_bind (Inr a) f = f a"

lemma res_bind_Inr_iff: "res_bind r f = Inr b \<longleftrightarrow> (\<exists>a. r = Inr a \<and> f a = Inr b)"
  by (cases r) auto

lemma res_bind_Inl_iff: "res_bind r f = Inl e \<longleftrightarrow> r = Inl e \<or> (\<exists>a. r = Inr a \<and> f a = Inl e)"
  by (cases r) auto

end
