(* ===== verification/Layout_Shape.thy ===== *)
theory Layout_Shape
  imports Layout_Cell
begin

text \<open>
  Resizing and the offset pass change geometries only. The shape of a cell (its tree of splits and
  panes) determines the number of leaves, their paths and the depth, so all of these survive every
  resize; with that, the depth bound of \<open>resize_adjust\<close> disappears and the recursion
  equation of the source holds without it.
\<close>

section \<open>Axes\<close>

lemma cross_cross [simp]: "cross (cross d) = d"
  by (cases d) auto

lemma cross_neq [simp]: "cross d \<noteq> d" "d \<noteq> cross d"
  by (cases d; simp)+

lemma neq_cross: "d' \<noteq> d \<longleftrightarrow> d' = cross d"
  by (cases d; cases d') auto

lemma axis_of_set_axis [simp]:
  "axis_of (set_axis g d n) d' = (if d' = d then n else axis_of g d')"
  by (cases d; cases d') auto

lemma offsets_set_axis [simp]: "lg_x (set_axis g d n) = lg_x g" "lg_y (set_axis g d n) = lg_y g"
  by (cases d; simp)+

lemma axis_of_offset_update [simp]:
  "axis_of (g\<lparr>lg_x := x, lg_y := y\<rparr>) d = axis_of g d"
  by (cases d) auto

lemma geometry_with_geometry [simp]: "geometry (with_geometry c g) = g"
  by (cases c) auto

lemma geometry_eqI:
  fixes g g' :: layout_geometry
  assumes "axis_of g LeftRight = axis_of g' LeftRight" "axis_of g TopBottom = axis_of g' TopBottom"
    and "lg_x g = lg_x g'" "lg_y g = lg_y g'"
  shows "g = g'"
  using assms by simp

lemma axis_size_simps [simp]:
  "axis_size (Pane g) d = axis_of g d"
  "axis_size (Split g sd cs) d = axis_of g d"
  by (simp_all add: axis_size_def)

lemma axis_size_with_geometry [simp]: "axis_size (with_geometry c g) d = axis_of g d"
  by (simp add: axis_size_def)

section \<open>The shape of a cell\<close>

fun shape :: "layout_cell \<Rightarrow> layout_cell" where
  "shape (Pane _) = Pane (new_geometry 0 0 0 0)"
| "shape (Split _ d cs) = Split (new_geometry 0 0 0 0) d (map shape cs)"

named_theorems shape_lemmas \<open>what a shape determines\<close>

lemma map_eq_imp_sum_list:
  "map f xs = map g ys \<Longrightarrow> sum_list (map f xs) = sum_list (map g ys)"
  by simp

lemma leaf_count_shape [shape_lemmas]: "leaf_count (shape c) = leaf_count c"
proof (induction c)
  case (Split g d cs)
  then show ?case by (simp add: comp_def cong: map_cong)
qed simp

lemma cell_depth_shape [shape_lemmas]: "cell_depth (shape c) = cell_depth c"
proof (induction c)
  case (Split g d cs)
  then show ?case by (simp add: comp_def cong: map_cong)
qed simp

lemma same_shape_leaf_count: "shape c = shape c' \<Longrightarrow> leaf_count c = leaf_count c'"
  by (metis leaf_count_shape)

lemma same_shape_depth: "shape c = shape c' \<Longrightarrow> cell_depth c = cell_depth c'"
  by (metis cell_depth_shape)

lemma shape_with_geometry [simp]: "shape (with_geometry c g) = shape c"
  by (cases c) auto

lemma minimum_size_shape [shape_lemmas]: "minimum_size (shape c) = minimum_size c"
proof (induction c)
  case (Split g d cs)
  then show ?case by (simp add: comp_def cong: map_cong)
qed simp

lemma shape_fix_offsets [simp]:
  "shape (fix_offsets c x y) = shape c"
  "map shape (fix_child_offsets d cs x y k) = map shape cs"
  by (induction c x y and d cs x y k rule: fix_offsets_fix_child_offsets.induct)
    (auto split: layout_direction.splits)

lemma leaf_paths_shape:
  "collect_leaf_paths (shape c) p = collect_leaf_paths c p"
  "collect_child_paths (map shape cs) i p = collect_child_paths cs i p"
  by (induction c p and cs i p rule: collect_leaf_paths_collect_child_paths.induct) auto

lemma same_shape_leaf_paths:
  "shape c = shape c' \<Longrightarrow> collect_leaf_paths c p = collect_leaf_paths c' p"
  by (metis leaf_paths_shape(1))

lemma length_leaf_paths:
  "length (collect_leaf_paths c p) = leaf_count c"
  "length (collect_child_paths cs i p) = sum_list (map leaf_count cs)"
  by (induction c p and cs i p rule: collect_leaf_paths_collect_child_paths.induct) auto

lemma length_leaf_geometries: "length (collect_leaf_geometries c) = leaf_count c"
proof (induction c)
  case (Split g d cs)
  then show ?case by (simp add: length_concat comp_def cong: map_cong)
qed simp

section \<open>Resizing keeps the shape\<close>

lemma adjust_pass_shape:
  assumes "\<And>c z. shape (adj c z) = shape c"
  shows "adjust_pass adj d r cs = (cs', r', p) \<Longrightarrow> map shape cs' = map shape cs"
proof (induction cs arbitrary: r cs' r' p)
  case (Cons c cs)
  then show ?case by (auto simp: assms split: if_splits prod.splits)
qed simp

lemma adjust_loop_shape:
  assumes "\<And>c z. shape (adj c z) = shape c"
  shows "map shape (adjust_loop adj d r cs) = map shape cs"
  using assms
proof (induction adj d r cs rule: adjust_loop.induct)
  case (1 adj d r cs)
  obtain cs' r' p where pass: "adjust_pass adj d r cs = (cs', r', p)"
    using prod_cases3 by blast
  show ?case
    using "1.IH" [OF _ pass [symmetric]] pass adjust_pass_shape [OF "1.prems" pass] "1.prems"
    by (auto simp: adjust_loop.simps [of adj d r cs])
qed

lemma shape_resize_adjust_at [simp]: "shape (resize_adjust_at n c d z) = shape c"
proof (induction n arbitrary: c d z)
  case (Suc n)
  then show ?case
    by (cases c) (simp_all add: Let_def comp_def adjust_loop_shape)
qed simp

lemma shape_resize_adjust [simp]: "shape (resize_adjust c d z) = shape c"
  by (simp add: resize_adjust_def)

lemma leaf_count_resize_adjust [simp]: "leaf_count (resize_adjust c d z) = leaf_count c"
  by (rule same_shape_leaf_count) simp

section \<open>The recursion equation of resizing\<close>

lemma adjust_pass_cong:
  assumes "\<And>c z. c \<in> set cs \<Longrightarrow> adj c z = adj' c z"
  shows "adjust_pass adj d r cs = adjust_pass adj' d r cs"
  using assms by (induction cs arbitrary: r) simp_all

lemma adjust_pass_closed:
  assumes "\<And>c z. P c \<Longrightarrow> P (adj c z)"
  shows "adjust_pass adj d r cs = (cs', r', p) \<Longrightarrow> \<forall>c \<in> set cs. P c \<Longrightarrow> \<forall>c \<in> set cs'. P c"
proof (induction cs arbitrary: r cs' r' p)
  case (Cons c cs)
  then show ?case by (auto simp: assms split: if_splits prod.splits)
qed simp

lemma adjust_loop_cong:
  assumes "\<And>c z. P c \<Longrightarrow> adj c z = adj' c z" "\<And>c z. P c \<Longrightarrow> P (adj c z)" "\<forall>c \<in> set cs. P c"
  shows "adjust_loop adj d r cs = adjust_loop adj' d r cs"
  using assms
proof (induction adj d r cs rule: adjust_loop.induct)
  case (1 adj d r cs)
  obtain cs' r' p where pass: "adjust_pass adj d r cs = (cs', r', p)"
    using prod_cases3 by blast
  moreover have "adjust_pass adj' d r cs = (cs', r', p)"
    using pass adjust_pass_cong [of cs adj adj' d r] "1.prems" by metis
  moreover have "\<forall>c \<in> set cs'. P c"
    using adjust_pass_closed [of P adj, OF "1.prems"(2) pass] "1.prems"(3) by blast
  ultimately show ?case
    using "1.IH" [OF _ pass [symmetric]] "1.prems"
    by (auto simp: adjust_loop.simps [of adj d r cs] adjust_loop.simps [of adj' d r cs])
qed

lemma fold_max_ge: "n \<le> fold max ns n" "m \<in> set ns \<Longrightarrow> m \<le> fold max ns (n :: nat)"
proof (induction ns arbitrary: n)
  case (Cons k ns)
  { case 1 show ?case using Cons(1) [of "max k n"] by simp }
  { case 2 then show ?case using Cons(1) [of "max k n"] Cons(2) [of "max k n"] by auto }
qed simp_all

lemma cell_depth_child: "c \<in> set cs \<Longrightarrow> cell_depth c < cell_depth (Split g d cs)"
  using fold_max_ge(2) [of "cell_depth c" "map cell_depth cs" 0] by simp

lemma resize_adjust_at_enough:
  "cell_depth c \<le> n \<Longrightarrow> cell_depth c \<le> m \<Longrightarrow> resize_adjust_at n c d z = resize_adjust_at m c d z"
proof (induction n arbitrary: c d z m)
  case 0
  then show ?case by (cases c; cases m) simp_all
next
  case (Suc n)
  show ?case
  proof (cases c)
    case (Pane g)
    then show ?thesis by (cases m) simp_all
  next
    case (Split g sd cs)
    then obtain k where m: "m = Suc k" using Suc.prems by (cases m) auto
    let ?P = "\<lambda>c. cell_depth c \<le> n \<and> cell_depth c \<le> k"
    have kids: "\<forall>c \<in> set cs. ?P c"
      using cell_depth_child [of _ cs g sd] Suc.prems Split m by fastforce
    have "adjust_loop (\<lambda>c. resize_adjust_at n c d) d z cs =
        adjust_loop (\<lambda>c. resize_adjust_at k c d) d z cs"
    proof (rule adjust_loop_cong [where P = ?P])
      show "\<And>c z. ?P c \<Longrightarrow> resize_adjust_at n c d z = resize_adjust_at k c d z"
        using Suc.IH by blast
      show "\<And>c z. ?P c \<Longrightarrow> ?P (resize_adjust_at n c d z)"
        using same_shape_depth [OF shape_resize_adjust_at] by simp
    qed (fact kids)
    moreover have "map (\<lambda>c. resize_adjust_at n c d z) cs = map (\<lambda>c. resize_adjust_at k c d z) cs"
      using Suc.IH kids by (intro map_cong) auto
    ultimately show ?thesis by (simp add: m Split Let_def)
  qed
qed

text \<open>\<open>resize_adjust\<close> satisfies the recursion of the source, with no depth bound left.\<close>

theorem resize_adjust_unfold:
  "resize_adjust (Pane g) d z =
     Pane (if z = 0 then g else set_axis g d (u32_sat_add_signed (axis_of g d) z))"
  "resize_adjust (Split g sd cs) d z =
     (if z = 0 then Split g sd cs
      else Split (set_axis g d (u32_sat_add_signed (axis_of g d) z)) sd
        (if sd \<noteq> d then map (\<lambda>c. resize_adjust c d z) cs
         else adjust_loop (\<lambda>c step. resize_adjust c d step) d z cs))"
proof -
  show "resize_adjust (Pane g) d z =
      Pane (if z = 0 then g else set_axis g d (u32_sat_add_signed (axis_of g d) z))"
    by (simp add: resize_adjust_def)
  let ?n = "fold max (map cell_depth cs) 0"
  let ?P = "\<lambda>c. cell_depth c \<le> ?n"
  have kids: "\<forall>c \<in> set cs. ?P c"
    using fold_max_ge(2) [of _ "map cell_depth cs" 0] by auto
  have same: "\<And>c z. ?P c \<Longrightarrow> resize_adjust_at ?n c d z = resize_adjust c d z"
    unfolding resize_adjust_def by (rule resize_adjust_at_enough) auto
  have "adjust_loop (\<lambda>c. resize_adjust_at ?n c d) d z cs = adjust_loop (\<lambda>c. resize_adjust c d) d z cs"
    using same kids same_shape_depth [OF shape_resize_adjust]
    by (intro adjust_loop_cong [where P = ?P]) auto
  moreover have "map (\<lambda>c. resize_adjust_at ?n c d z) cs = map (\<lambda>c. resize_adjust c d z) cs"
    using same kids by simp
  ultimately show "resize_adjust (Split g sd cs) d z =
     (if z = 0 then Split g sd cs
      else Split (set_axis g d (u32_sat_add_signed (axis_of g d) z)) sd
        (if sd \<noteq> d then map (\<lambda>c. resize_adjust c d z) cs
         else adjust_loop (\<lambda>c step. resize_adjust c d step) d z cs))"
    by (simp add: resize_adjust_def [of "Split g sd cs"] Let_def)
qed

end
