(* ===== verification/Layout_Tiling.thy ===== *)
theory Layout_Tiling
  imports Layout_Shape
begin

text \<open>
  The tiling invariant of a layout: every pane has at least one column and one row, the children
  of a split agree with it across the split and fill it exactly, with one border cell between
  neighbours, along the split. It is stated on unbounded numbers; \<open>tiles_imp_check\<close> and
  \<open>check_imp_tiles\<close> relate it to the \<open>check\<close> function of the source, and the main lemma
  \<open>resize_adjust_resized\<close> shows that resizing a subtree keeps it.
\<close>

section \<open>Tilings\<close>

definition extent :: "layout_direction \<Rightarrow> layout_cell list \<Rightarrow> nat" where
  "extent d cs = sum_list (map (\<lambda>c. axis_size c d + 1) cs)"

fun tiles :: "layout_cell \<Rightarrow> bool" where
  "tiles (Pane g) = (1 \<le> lg_width g \<and> 1 \<le> lg_height g)"
| "tiles (Split g d cs) =
     (cs \<noteq> [] \<and> list_all tiles cs
      \<and> list_all (\<lambda>c. axis_size c (cross d) = axis_of g (cross d)) cs
      \<and> extent d cs = axis_of g d + 1)"

text \<open>Every split has at least two children: the shape that the mutating operations keep.\<close>

fun proper :: "layout_cell \<Rightarrow> bool" where
  "proper (Pane _) = True"
| "proper (Split _ _ cs) = (2 \<le> length cs \<and> list_all proper cs)"

lemma extent_simps [simp]:
  "extent d [] = 0"
  "extent d (c # cs) = axis_size c d + 1 + extent d cs"
  by (simp_all add: extent_def)

lemma extent_append [simp]: "extent d (as @ bs) = extent d as + extent d bs"
  by (simp add: extent_def)

lemma extent_length: "length cs \<le> extent d cs"
  by (induction cs) auto

lemma extent_member: "c \<in> set cs \<Longrightarrow> axis_size c d + 1 \<le> extent d cs"
  by (induction cs) auto

lemma extent_sizes: "extent d cs = sum_list (map Suc (map (\<lambda>c. axis_size c d) cs))"
  by (simp add: extent_def comp_def)

lemma extent_cong:
  "map (\<lambda>c. axis_size c d) cs = map (\<lambda>c. axis_size c d) cs' \<Longrightarrow> extent d cs = extent d cs'"
  by (simp only: extent_sizes)

lemma tiles_axis_pos: "tiles c \<Longrightarrow> 1 \<le> axis_size c d"
proof (induction c arbitrary: d)
  case (Pane g)
  then show ?case by (cases d) auto
next
  case (Split g sd cs)
  then obtain c cs' where cs: "cs = c # cs'" by (cases cs) auto
  have "tiles c" using Split.prems cs by simp
  then have c: "1 \<le> axis_size c sd" "1 \<le> axis_size c (cross sd)"
    using Split.IH [of c] cs by simp_all
  show ?case
  proof (cases "d = sd")
    case True
    with Split.prems cs c(1) show ?thesis by simp
  next
    case False
    then have "d = cross sd" by (simp add: neq_cross)
    moreover have "axis_size c (cross sd) = axis_of g (cross sd)" using Split.prems cs by simp
    ultimately show ?thesis using c(2) by (metis axis_size_simps(2))
  qed
qed

lemma tiles_child:
  assumes "tiles (Split g sd cs)" "c \<in> set cs"
  shows "tiles c" "axis_size c (cross sd) = axis_of g (cross sd)" "axis_size c sd \<le> axis_of g sd"
proof -
  show "tiles c" "axis_size c (cross sd) = axis_of g (cross sd)"
    using assms by (simp_all add: list_all_iff)
  show "axis_size c sd \<le> axis_of g sd"
    using assms(1) extent_member [OF assms(2), of sd] by simp
qed

lemma tiles_child_le:
  assumes "tiles (Split g sd cs)" "c \<in> set cs"
  shows "axis_size c d \<le> axis_of g d"
proof (cases "d = sd")
  case True
  then show ?thesis using tiles_child(3) [OF assms] by simp
next
  case False
  then have "d = cross sd" by (simp add: neq_cross)
  then show ?thesis using tiles_child(2) [OF assms] by simp
qed

lemma proper_shape: "proper (shape c) = proper c"
  by (induction c) (auto simp: list_all_iff)

lemma same_shape_proper: "shape c = shape c' \<Longrightarrow> proper c = proper c'"
  by (metis proper_shape)

section \<open>Tilings and the validity test of the source\<close>

lemma fold_check_total:
  assumes "\<forall>c \<in> set cs. axis_size c d < u32_max" "t \<le> u32_max"
  shows "fold (\<lambda>c total. u32_sat_add total (u32_add (axis_size c d) PANE_BORDER_CELLS)) cs t
    = min (t + extent d cs) u32_max"
  using assms
proof (induction cs arbitrary: t)
  case (Cons c cs)
  then have "u32_add (axis_size c d) PANE_BORDER_CELLS = axis_size c d + 1"
    by (simp add: PANE_BORDER_CELLS_def in_range)
  with Cons show ?case by (auto simp: u32_sat_add_def min_def)
qed simp

lemma check_total_eq:
  "\<forall>c \<in> set cs. axis_size c d < u32_max \<Longrightarrow> check_total d cs = min (extent d cs) u32_max"
  unfolding check_total_def by (subst fold_check_total) auto

lemma tiles_imp_check:
  "tiles c \<Longrightarrow> axis_size c LeftRight < u32_max \<Longrightarrow> axis_size c TopBottom < u32_max \<Longrightarrow> check c"
proof (induction c)
  case (Split g sd cs)
  have small: "axis_of g d < u32_max" for d using Split.prems by (cases d) auto
  have kids: "axis_size c d < u32_max" if "c \<in> set cs" for c d
    using tiles_child_le [OF Split.prems(1) that, of d] small [of d] by simp
  have "check_total sd cs = min (extent sd cs) u32_max"
    by (rule check_total_eq) (simp add: kids)
  moreover have "extent sd cs = axis_of g sd + 1" using Split.prems(1) by simp
  ultimately have "check_total sd cs - PANE_BORDER_CELLS = axis_of g sd"
    using small [of sd] by (simp add: PANE_BORDER_CELLS_def)
  moreover have "list_all check cs"
    using Split.IH kids Split.prems(1) by (auto simp: list_all_iff)
  ultimately show ?case using Split.prems(1) by simp
qed simp

fun positive_leaves :: "layout_cell \<Rightarrow> bool" where
  "positive_leaves (Pane g) = (1 \<le> lg_width g \<and> 1 \<le> lg_height g)"
| "positive_leaves (Split _ _ cs) = list_all positive_leaves cs"

fun all_cells_below :: "nat \<Rightarrow> layout_cell \<Rightarrow> bool" where
  "all_cells_below n (Pane g) = (lg_width g < n \<and> lg_height g < n)"
| "all_cells_below n (Split g _ cs) =
     (lg_width g < n \<and> lg_height g < n \<and> list_all (all_cells_below n) cs)"

lemma all_cells_below_axis: "all_cells_below n c \<Longrightarrow> axis_size c d < n"
  by (cases c; cases d) auto

lemma check_imp_tiles:
  "check c \<Longrightarrow> positive_leaves c \<Longrightarrow> all_cells_below (u32_max - 1) c \<Longrightarrow> tiles c"
proof (induction c)
  case (Split g sd cs)
  have "axis_size c d < u32_max" if "c \<in> set cs" for c d
    using Split.prems(3) that all_cells_below_axis [of "u32_max - 1" c d]
    by (auto simp: list_all_iff)
  then have total: "check_total sd cs = min (extent sd cs) u32_max"
    by (intro check_total_eq) simp
  have "axis_of g sd < u32_max - 1"
    using Split.prems(3) all_cells_below_axis [of "u32_max - 1" "Split g sd cs" sd] by simp
  moreover have "check_total sd cs - 1 = axis_of g sd"
    using Split.prems(1) by (simp add: PANE_BORDER_CELLS_def)
  moreover have "1 \<le> extent sd cs"
    using Split.prems(1) extent_length [of cs sd] by (cases cs) auto
  ultimately have "extent sd cs = axis_of g sd + 1"
    using total by (auto simp: min_def split: if_splits)
  then show ?case
    using Split.prems Split.IH by (auto simp: list_all_iff)
qed simp

lemma tiles_positive_leaves: "tiles c \<Longrightarrow> positive_leaves c"
  by (induction c) (auto simp: list_all_iff)

section \<open>How far a tiling can shrink\<close>

lemma fold_min_eq: "fold min ns n = Min (insert n (set ns))" for n :: nat
  using Min.set_eq_fold [of n ns] by simp

lemma min_or_zero_eq: "ns \<noteq> [] \<Longrightarrow> min_or_zero ns = Min (set ns)"
  by (cases ns) (simp_all add: min_or_zero_def fold_min_eq)

lemma fold_u32_add:
  "t + sum_list ns \<le> u32_max \<Longrightarrow> fold (\<lambda>n total. u32_add total n) ns t = t + sum_list ns"
  by (induction ns arbitrary: t) (auto simp: in_range)

lemma u32_sum_exact [in_range]: "sum_list ns \<le> u32_max \<Longrightarrow> u32_sum ns = sum_list ns"
  by (simp add: u32_sum_def fold_u32_add)

definition slack_sum :: "layout_direction \<Rightarrow> layout_cell list \<Rightarrow> nat" where
  "slack_sum d cs = sum_list (map (\<lambda>c. resize_check c d) cs)"

lemma slack_sum_simps [simp]:
  "slack_sum d [] = 0"
  "slack_sum d (c # cs) = resize_check c d + slack_sum d cs"
  by (simp_all add: slack_sum_def)

lemma slack_sum_extent:
  "\<forall>c \<in> set cs. resize_check c d < axis_size c d \<Longrightarrow> slack_sum d cs + 2 * length cs \<le> extent d cs"
  by (induction cs) (auto simp: Suc_le_eq)

lemma resize_check_lt:
  "tiles c \<Longrightarrow> axis_size c d \<le> u32_max \<Longrightarrow> resize_check c d < axis_size c d"
proof (induction c)
  case (Pane g)
  then show ?case by (cases d) (auto simp: PANE_MINIMUM_def)
next
  case (Split g sd cs)
  have kid: "resize_check c d < axis_size c d" if "c \<in> set cs" for c
    using Split.IH [OF that] tiles_child(1) [OF Split.prems(1) that]
      tiles_child_le [OF Split.prems(1) that, of d] Split.prems(2) by simp
  have ne: "cs \<noteq> []" using Split.prems(1) by simp
  show ?case
  proof (cases "sd = d")
    case True
    have "slack_sum d cs + 2 * length cs \<le> axis_of g d + 1"
      using slack_sum_extent [of cs d] kid Split.prems(1) True by simp
    moreover have "1 \<le> length cs" using ne by (cases cs) auto
    ultimately have "slack_sum d cs < axis_of g d" by linarith
    then show ?thesis
      using True Split.prems(2) by (simp add: slack_sum_def in_range)
  next
    case False
    then have "d = cross sd" by (simp add: neq_cross)
    moreover obtain c where "c \<in> set cs" using ne by (cases cs) auto
    ultimately have "resize_check c d < axis_of g d"
      using kid tiles_child(2) [OF Split.prems(1)] by metis
    moreover have "Min (set (map (\<lambda>c. resize_check c d) cs)) \<le> resize_check c d"
      using \<open>c \<in> set cs\<close> by simp
    ultimately show ?thesis using False ne by (simp add: min_or_zero_eq)
  qed
qed

lemma resize_check_same:
  assumes "tiles (Split g d cs)" "axis_of g d \<le> u32_max"
  shows "resize_check (Split g d cs) d = slack_sum d cs"
proof -
  have "resize_check c d < axis_size c d" if "c \<in> set cs" for c
    using tiles_child [OF assms(1) that] assms(2) resize_check_lt [of c d] by simp
  then have "slack_sum d cs + 2 * length cs \<le> axis_of g d + 1"
    using slack_sum_extent [of cs d] assms(1) by simp
  moreover have "1 \<le> length cs" using assms(1) by (cases cs) auto
  ultimately have "slack_sum d cs \<le> u32_max" using assms(2) by linarith
  then show ?thesis by (simp add: slack_sum_def in_range)
qed

lemma resize_check_cross:
  "cs \<noteq> [] \<Longrightarrow> resize_check (Split g d cs) (cross d) = Min ((\<lambda>c. resize_check c (cross d)) ` set cs)"
  by (simp add: min_or_zero_eq)

end
