(* ===== verification/Layout_Resize_Cell.thy ===== *)
theory Layout_Resize_Cell
  imports Layout_Tiling
begin

text \<open>
  Resizing a subtree by \<open>resize_adjust\<close> keeps the tiling: a tiled cell that has the room
  (\<open>can_resize\<close>) changes by exactly the requested amount along the axis, keeps its other
  axis, stays tiled, and its remaining slack changes by the same amount (\<open>resized\<close>). The loop
  lemma shows that handing out cells one at a time always uses up the whole change, so the
  \<open>progressed\<close> exit of the source is never taken with a remainder.
\<close>

definition can_resize :: "layout_direction \<Rightarrow> int \<Rightarrow> layout_cell \<Rightarrow> bool" where
  "can_resize d z c \<longleftrightarrow>
     tiles c \<and> - z \<le> int (resize_check c d) \<and> axis_size c d \<le> u32_max
     \<and> int (axis_size c d) + z \<le> int u32_max"

definition resized :: "layout_direction \<Rightarrow> int \<Rightarrow> layout_cell \<Rightarrow> layout_cell \<Rightarrow> bool" where
  "resized d z c c' \<longleftrightarrow>
     tiles c' \<and> int (axis_size c' d) = int (axis_size c d) + z
     \<and> axis_size c' (cross d) = axis_size c (cross d)
     \<and> int (resize_check c' d) = int (resize_check c d) + z"

lemma resized_refl: "tiles c \<Longrightarrow> resized d 0 c c"
  by (simp add: resized_def)

section \<open>The loops over the children\<close>

definition resizes_by_one ::
  "(layout_cell \<Rightarrow> bool) \<Rightarrow> layout_direction \<Rightarrow> (layout_cell \<Rightarrow> int \<Rightarrow> layout_cell) \<Rightarrow> bool" where
  "resizes_by_one P d adj \<longleftrightarrow>
     (\<forall>c z. P c \<longrightarrow> can_resize d z c \<longrightarrow> P (adj c z) \<and> resized d z c (adj c z))"

definition children_resized ::
  "(layout_cell \<Rightarrow> bool) \<Rightarrow> layout_direction \<Rightarrow> int \<Rightarrow> layout_cell list \<Rightarrow> layout_cell list \<Rightarrow> bool" where
  "children_resized P d z cs cs' \<longleftrightarrow>
     list_all P cs' \<and> list_all tiles cs'
     \<and> int (extent d cs') = int (extent d cs) + z
     \<and> int (slack_sum d cs') = int (slack_sum d cs) + z
     \<and> map (\<lambda>c. axis_size c (cross d)) cs' = map (\<lambda>c. axis_size c (cross d)) cs"

lemma children_resized_refl:
  "list_all P cs \<Longrightarrow> list_all tiles cs \<Longrightarrow> children_resized P d 0 cs cs"
  by (simp add: children_resized_def)

lemma children_resized_Cons:
  "P c' \<Longrightarrow> resized d y c c' \<Longrightarrow> children_resized P d z cs cs' \<Longrightarrow>
     children_resized P d (y + z) (c # cs) (c' # cs')"
  by (simp add: children_resized_def resized_def)

lemma children_resized_trans:
  "children_resized P d y cs cs' \<Longrightarrow> children_resized P d z cs' cs'' \<Longrightarrow>
     children_resized P d (y + z) cs cs''"
  by (simp add: children_resized_def)

lemma adjust_pass_resized:
  assumes "resizes_by_one P d adj"
  shows "adjust_pass adj d r cs = (cs', r', p) \<Longrightarrow> list_all P cs \<Longrightarrow> list_all tiles cs \<Longrightarrow>
    int (extent d cs) + max 0 r \<le> int u32_max + 1 \<Longrightarrow> children_resized P d (r - r') cs cs'"
proof (induction cs arbitrary: r cs' r' p)
  case Nil
  then show ?case by (simp add: children_resized_refl)
next
  case (Cons c cs)
  obtain cs1 r1 p1 where 1: "adjust_pass adj d (r - 1) cs = (cs1, r1, p1)"
    using prod_cases3 by blast
  obtain cs2 r2 p2 where 2: "adjust_pass adj d (r + 1) cs = (cs2, r2, p2)"
    using prod_cases3 by blast
  obtain cs3 r3 p3 where 3: "adjust_pass adj d r cs = (cs3, r3, p3)"
    using prod_cases3 by blast
  have c: "P c" "tiles c" and cs: "list_all P cs" "list_all tiles cs" using Cons.prems by auto
  have step: "P (adj c z) \<and> resized d z c (adj c z)" if "can_resize d z c" for z
    using assms c that by (auto simp: resizes_by_one_def)
  consider "r = 0" | "0 < r" | "r < 0" "0 < resize_check c d" | "r < 0" "resize_check c d = 0"
    by linarith
  then show ?case
  proof cases
    case 1
    then show ?thesis using Cons.prems by (auto intro: children_resized_refl)
  next
    case 2
    have "children_resized P d (r - 1 - r1) cs cs1"
      using Cons.IH [OF \<open>adjust_pass adj d (r - 1) cs = _\<close> cs] Cons.prems(4) 2 by simp
    moreover have "can_resize d 1 c"
      using Cons.prems(4) 2 c by (simp add: can_resize_def)
    ultimately have "children_resized P d (1 + (r - 1 - r1)) (c # cs) (adj c 1 # cs1)"
      using step by (blast intro: children_resized_Cons)
    then show ?thesis using Cons.prems(1) 2 by (auto simp: 1)
  next
    case 3
    have "children_resized P d (r + 1 - r2) cs cs2"
      using Cons.IH [OF \<open>adjust_pass adj d (r + 1) cs = _\<close> cs] Cons.prems(4) 3 by simp
    moreover have "can_resize d (- 1) c"
      using Cons.prems(4) 3 c by (simp add: can_resize_def)
    ultimately have "children_resized P d (- 1 + (r + 1 - r2)) (c # cs) (adj c (- 1) # cs2)"
      using step by (blast intro: children_resized_Cons)
    then show ?thesis using Cons.prems(1) 3 by (auto simp: 2)
  next
    case 4
    have "children_resized P d (r - r3) cs cs3"
      using Cons.IH [OF \<open>adjust_pass adj d r cs = _\<close> cs] Cons.prems(4) 4 by simp
    then have "children_resized P d (0 + (r - r3)) (c # cs) (c # cs3)"
      using c resized_refl by (blast intro: children_resized_Cons)
    then show ?thesis using Cons.prems(1) 4 by (auto simp: 3)
  qed
qed

lemma adjust_pass_progress:
  "adjust_pass adj d r cs = (cs', r', p) \<Longrightarrow> cs \<noteq> [] \<Longrightarrow> r \<noteq> 0 \<Longrightarrow>
     - r \<le> int (slack_sum d cs) \<Longrightarrow> p"
proof (induction cs arbitrary: cs' r' p)
  case (Cons c cs)
  show ?case
  proof (cases "r < 0 \<and> resize_check c d = 0")
    case True
    obtain cs3 r3 p3 where 3: "adjust_pass adj d r cs = (cs3, r3, p3)"
      using prod_cases3 by blast
    have "cs \<noteq> []" using True Cons.prems(4) by auto
    then have "p3" using Cons.IH [OF 3] Cons.prems(4) True by simp
    then show ?thesis using Cons.prems(1) True 3 by simp
  next
    case False
    then show ?thesis using Cons.prems by (auto split: if_splits prod.splits)
  qed
qed simp

lemma adjust_loop_resized:
  assumes "resizes_by_one P d adj"
  shows "list_all P cs \<Longrightarrow> list_all tiles cs \<Longrightarrow> cs \<noteq> [] \<Longrightarrow> - r \<le> int (slack_sum d cs) \<Longrightarrow>
    int (extent d cs) + max 0 r \<le> int u32_max + 1 \<Longrightarrow>
    children_resized P d r cs (adjust_loop adj d r cs)"
  using assms
proof (induction adj d r cs rule: adjust_loop.induct)
  case (1 adj d r cs)
  show ?case
  proof (cases "r = 0")
    case True
    then show ?thesis using 1 by (simp add: adjust_loop.simps children_resized_refl)
  next
    case False
    obtain cs' r' p where pass: "adjust_pass adj d r cs = (cs', r', p)"
      using prod_cases3 by blast
    have p: "p" using adjust_pass_progress [OF pass] 1(4,5) False by simp
    have first: "children_resized P d (r - r') cs cs'"
      using adjust_pass_resized [OF 1(7) pass] 1(2,3,6) by simp
    have sign: "max 0 r' \<le> max 0 r" "r - r' + max 0 r' \<le> max 0 r"
      using adjust_pass_remaining [OF pass] by linarith+
    have "cs' \<noteq> []" using first 1(4) by (auto simp: children_resized_def)
    moreover have "- r' \<le> int (slack_sum d cs')" using first 1(5) by (simp add: children_resized_def)
    moreover have "int (extent d cs') + max 0 r' \<le> int u32_max + 1"
      using first sign(2) 1(6) by (simp add: children_resized_def)
    ultimately have "children_resized P d r' cs' (adjust_loop adj d r' cs')"
      using "1.IH" [OF False pass [symmetric] refl p] first 1(7) by (simp add: children_resized_def)
    from children_resized_trans [OF first this]
    show ?thesis using pass p False by (simp add: adjust_loop.simps [of adj d r cs])
  qed
qed

section \<open>Resizing a cell\<close>

lemma Min_shift:
  fixes f g :: "'a \<Rightarrow> nat"
  assumes "finite S" "S \<noteq> {}" "\<And>c. c \<in> S \<Longrightarrow> int (g c) = int (f c) + z"
  shows "int (Min (g ` S)) = int (Min (f ` S)) + z"
proof -
  have "Min (f ` S) \<in> f ` S" using assms(1,2) by (intro Min_in) auto
  then obtain a where a: "a \<in> S" "Min (f ` S) = f a" by blast
  have "g a \<le> g b" if "b \<in> S" for b
    using assms(3) [OF a(1)] assms(3) [OF that] Min_le [of "f ` S" "f b"] assms(1) a that by simp
  then have "Min (g ` S) = g a"
    using assms(1) a(1) by (intro Min_eqI) auto
  then show ?thesis using a assms(3) [OF a(1)] by simp
qed

lemma set_axis_resized:
  assumes "can_resize d z c"
  shows "int (u32_sat_add_signed (axis_size c d) z) = int (axis_size c d) + z"
proof -
  have "resize_check c d < axis_size c d" using assms resize_check_lt by (simp add: can_resize_def)
  then show ?thesis using assms by (simp add: can_resize_def u32_sat_add_signed_exact)
qed

lemma pane_resized:
  assumes "can_resize d z (Pane g)"
  shows "resized d z (Pane g) (resize_adjust (Pane g) d z)"
proof -
  have "int (u32_sat_add_signed (axis_of g d) z) = int (axis_of g d) + z" "1 \<le> axis_of g d"
    "- z \<le> int (axis_of g d - 1)"
    using assms set_axis_resized [OF assms] tiles_axis_pos [of "Pane g" d]
    by (auto simp: can_resize_def PANE_MINIMUM_def)
  then show ?thesis
    using assms
    by (cases d) (auto simp: resized_def can_resize_def resize_adjust_unfold PANE_MINIMUM_def)
qed

lemma split_resized_along:
  assumes "can_resize d z (Split g d cs)" "z \<noteq> 0"
    and IH: "resizes_by_one (\<lambda>c. cell_depth c < cell_depth (Split g d cs)) d (\<lambda>c. resize_adjust c d)"
  shows "resized d z (Split g d cs) (resize_adjust (Split g d cs) d z)"
proof -
  let ?P = "\<lambda>c. cell_depth c < cell_depth (Split g d cs)"
  let ?cs = "adjust_loop (\<lambda>c. resize_adjust c d) d z cs"
  let ?g = "set_axis g d (u32_sat_add_signed (axis_of g d) z)"
  have tiled: "tiles (Split g d cs)" and room: "axis_of g d \<le> u32_max"
    using assms(1) by (simp_all add: can_resize_def)
  have size: "int (axis_of ?g d) = int (axis_of g d) + z"
    using set_axis_resized [OF assms(1)] by simp
  have slack: "resize_check (Split g d cs) d = slack_sum d cs"
    using tiled room by (rule resize_check_same)
  have kids: "children_resized ?P d z cs ?cs"
  proof (rule adjust_loop_resized [OF IH])
    show "list_all ?P cs" using cell_depth_child by (simp only: list_all_iff) blast
    show "- z \<le> int (slack_sum d cs)" using assms(1) slack by (simp add: can_resize_def)
    show "int (extent d cs) + max 0 z \<le> int u32_max + 1"
      using assms(1) tiled by (auto simp: can_resize_def max_def)
  qed (use tiled in auto)
  have cross: "list_all (\<lambda>c. axis_size c (cross d) = axis_of g (cross d)) ?cs"
  proof -
    have "set (map (\<lambda>c. axis_size c (cross d)) ?cs) = set (map (\<lambda>c. axis_size c (cross d)) cs)"
      using kids by (simp only: children_resized_def)
    then show ?thesis using tiled by (fastforce simp: list_all_iff)
  qed
  have "length ?cs = length cs" using kids by (metis children_resized_def length_map)
  then have "?cs \<noteq> []" using tiled by auto
  then have tiled': "tiles (Split ?g d ?cs)"
    using kids size tiled cross by (simp add: children_resized_def)
  moreover have "resize_check (Split ?g d ?cs) d = slack_sum d ?cs"
    using assms(1) size by (intro resize_check_same [OF tiled']) (simp add: can_resize_def)
  ultimately show ?thesis
    using kids size slack assms(2)
    by (simp add: resized_def resize_adjust_unfold children_resized_def del: resize_check.simps)
qed

lemma split_resized_across:
  assumes "can_resize d z (Split g (cross d) cs)" "z \<noteq> 0"
    and IH: "\<And>c. c \<in> set cs \<Longrightarrow> can_resize d z c \<Longrightarrow> resized d z c (resize_adjust c d z)"
  shows "resized d z (Split g (cross d) cs) (resize_adjust (Split g (cross d) cs) d z)"
proof -
  let ?cs = "map (\<lambda>c. resize_adjust c d z) cs"
  let ?g = "set_axis g d (u32_sat_add_signed (axis_of g d) z)"
  have tiled: "tiles (Split g (cross d) cs)" and ne: "cs \<noteq> []"
    using assms(1) by (simp_all add: can_resize_def)
  have size: "int (axis_of ?g d) = int (axis_of g d) + z"
    using set_axis_resized [OF assms(1)] by simp
  have least: "resize_check (Split g' (cross d) cs') d = Min ((\<lambda>c. resize_check c d) ` set cs')"
    if "cs' \<noteq> []" for g' cs'
    using resize_check_cross [OF that, of g' "cross d"] by simp
  have kid: "resized d z c (resize_adjust c d z)" and same: "axis_size c d = axis_of g d"
    if c: "c \<in> set cs" for c
  proof -
    have "resize_check (Split g (cross d) cs) d \<le> resize_check c d"
      using least [OF ne] c by simp
    moreover have "axis_size c d = axis_of g d" using tiles_child(2) [OF tiled c] by simp
    ultimately show "resized d z c (resize_adjust c d z)" "axis_size c d = axis_of g d"
      using IH [OF c] assms(1) tiles_child(1) [OF tiled c]
      by (simp_all add: can_resize_def del: resize_check.simps)
  qed
  have "map (\<lambda>c. axis_size c (cross d)) ?cs = map (\<lambda>c. axis_size c (cross d)) cs"
    using kid by (simp add: resized_def)
  note extent = extent_cong [OF this]
  have "axis_size (resize_adjust c d z) d = axis_of ?g d" if "c \<in> set cs" for c
    using kid [OF that] same [OF that] size by (simp add: resized_def)
  then have "tiles (Split ?g (cross d) ?cs)"
    using extent tiled ne kid by (simp add: list_all_iff resized_def)
  moreover have "int (resize_check (Split ?g (cross d) ?cs) d)
      = int (resize_check (Split g (cross d) cs) d) + z"
    using Min_shift [of "set cs" "\<lambda>c. resize_check (resize_adjust c d z) d" "\<lambda>c. resize_check c d" z]
      kid ne least [of ?cs ?g] least [OF ne, of g] by (simp add: resized_def image_image del: resize_check.simps)
  ultimately show ?thesis
    using size assms(2) by (simp add: resized_def resize_adjust_unfold del: resize_check.simps)
qed

theorem resize_adjust_resized:
  "can_resize d z c \<Longrightarrow> resized d z c (resize_adjust c d z)"
proof (induction "cell_depth c" arbitrary: c z rule: less_induct)
  case less
  show ?case
  proof (cases "z = 0")
    case True
    then have "resize_adjust c d z = c" by (cases c) (simp_all add: resize_adjust_unfold)
    then show ?thesis using less.prems True by (simp add: resized_refl can_resize_def)
  next
    case False
    show ?thesis
    proof (cases c)
      case (Pane g)
      then show ?thesis using less.prems pane_resized by simp
    next
      case (Split g sd cs)
      show ?thesis
      proof (cases "sd = d")
        case True
        have "resizes_by_one (\<lambda>c'. cell_depth c' < cell_depth c) d (\<lambda>c. resize_adjust c d)"
          using less.hyps same_shape_depth [OF shape_resize_adjust] by (simp add: resizes_by_one_def)
        then show ?thesis using split_resized_along less.prems False True Split by blast
      next
        case cross: False
        then have "sd = cross d" by (simp add: neq_cross)
        moreover have "resized d z c' (resize_adjust c' d z)"
          if "c' \<in> set cs" "can_resize d z c'" for c'
          using less.hyps [OF _ that(2)] cell_depth_child [OF that(1)] Split by blast
        ultimately show ?thesis using split_resized_across less.prems False Split by blast
      qed
    qed
  qed
qed

end
