(* ===== verification/Layout_Offsets.thy ===== *)
theory Layout_Offsets
  imports Layout_Resize_Cell
begin

text \<open>
  The offset pass \<open>fix_offsets\<close> writes positions only, so it keeps sizes, tiling and slack.
  For a tiled cell whose far edges fit in a \<open>u32\<close> it places every pane inside the rectangle of
  the cell, and any two panes have at least one border column or row between them: panes never
  overlap.
\<close>

section \<open>The offset pass keeps sizes\<close>

lemma axis_size_fix_offsets [simp]: "axis_size (fix_offsets c x y) d = axis_size c d"
  by (cases c) simp_all

lemma axis_sizes_fix_child_offsets [simp]:
  "map (\<lambda>c. axis_size c d') (fix_child_offsets d cs x y k) = map (\<lambda>c. axis_size c d') cs"
  by (induction cs arbitrary: k) (simp_all split: layout_direction.split)

lemma length_fix_child_offsets [simp]: "length (fix_child_offsets d cs x y k) = length cs"
  by (induction cs arbitrary: k) simp_all

lemma extent_fix_child_offsets [simp]:
  "extent d' (fix_child_offsets d cs x y k) = extent d' cs"
  by (rule extent_cong) simp

lemma cross_fix_child_offsets [simp]:
  "list_all (\<lambda>c. axis_size c d' = n) (fix_child_offsets d cs x y k) =
   list_all (\<lambda>c. axis_size c d' = n) cs"
  by (induction cs arbitrary: k) (simp_all split: layout_direction.split)

lemma tiles_fix_offsets [simp]:
  "tiles (fix_offsets c x y) = tiles c"
  "list_all tiles (fix_child_offsets d cs x y k) = list_all tiles cs"
proof (induction c x y and d cs x y k rule: fix_offsets_fix_child_offsets.induct)
  case (2 g d cs x y)
  have "fix_child_offsets d cs x y 0 = [] \<longleftrightarrow> cs = []"
    by (metis length_0_conv length_fix_child_offsets)
  with 2 show ?case by simp
qed (simp_all split: layout_direction.split)

lemma resize_check_fix_offsets [simp]:
  "resize_check (fix_offsets c x y) d' = resize_check c d'"
  "map (\<lambda>c. resize_check c d') (fix_child_offsets d cs x y k) = map (\<lambda>c. resize_check c d') cs"
  by (induction c x y and d cs x y k rule: fix_offsets_fix_child_offsets.induct)
    (auto split: layout_direction.split)

section \<open>Placement\<close>

fun pos_of :: "layout_geometry \<Rightarrow> layout_direction \<Rightarrow> u32" where
  "pos_of g LeftRight = lg_x g"
| "pos_of g TopBottom = lg_y g"

fun point_of :: "u32 \<Rightarrow> u32 \<Rightarrow> layout_direction \<Rightarrow> u32" where
  "point_of x y LeftRight = x"
| "point_of x y TopBottom = y"

text \<open>\<open>within\<close>: the interval of a pane lies in the given interval on one axis.\<close>

definition within :: "layout_geometry \<Rightarrow> layout_direction \<Rightarrow> nat \<Rightarrow> nat \<Rightarrow> bool" where
  "within g d lo hi \<longleftrightarrow> lo \<le> pos_of g d \<and> pos_of g d + axis_of g d \<le> hi"

text \<open>\<open>before\<close>: one pane ends before the other starts, with a border cell between them.\<close>

definition before :: "layout_direction \<Rightarrow> layout_geometry \<Rightarrow> layout_geometry \<Rightarrow> bool" where
  "before d g g' \<longleftrightarrow> pos_of g d + axis_of g d < pos_of g' d"

definition separated :: "layout_geometry \<Rightarrow> layout_geometry \<Rightarrow> bool" where
  "separated g g' \<longleftrightarrow> before LeftRight g g' \<or> before TopBottom g g'"

definition child_leaves :: "layout_cell list \<Rightarrow> layout_geometry list" where
  "child_leaves cs = concat (map collect_leaf_geometries cs)"

lemma child_leaves_simps [simp]:
  "child_leaves [] = []"
  "child_leaves (c # cs) = collect_leaf_geometries c @ child_leaves cs"
  by (simp_all add: child_leaves_def)

definition placed :: "layout_cell \<Rightarrow> u32 \<Rightarrow> u32 \<Rightarrow> bool" where
  "placed c x y \<longleftrightarrow>
     (\<forall>g \<in> set (collect_leaf_geometries (fix_offsets c x y)). \<forall>d.
        within g d (point_of x y d) (point_of x y d + axis_size c d))
     \<and> sorted_wrt separated (collect_leaf_geometries (fix_offsets c x y))"

definition children_placed ::
  "layout_direction \<Rightarrow> layout_cell list \<Rightarrow> u32 \<Rightarrow> u32 \<Rightarrow> u32 \<Rightarrow> nat \<Rightarrow> bool" where
  "children_placed d cs x y k n \<longleftrightarrow>
     (\<forall>g \<in> set (child_leaves (fix_child_offsets d cs x y k)).
        within g d (point_of x y d + k) (point_of x y d + k + extent d cs - 1)
        \<and> within g (cross d) (point_of x y (cross d)) (point_of x y (cross d) + n))
     \<and> sorted_wrt separated (child_leaves (fix_child_offsets d cs x y k))"

lemma within_mono: "within g d lo hi \<Longrightarrow> lo' \<le> lo \<Longrightarrow> hi \<le> hi' \<Longrightarrow> within g d lo' hi'"
  by (auto simp: within_def)

lemma within_before: "within g d lo hi \<Longrightarrow> within g' d lo' hi' \<Longrightarrow> hi < lo' \<Longrightarrow> before d g g'"
  by (auto simp: within_def before_def)

lemma before_separated: "before d g g' \<Longrightarrow> separated g g'"
  by (cases d) (auto simp: separated_def)

definition child_x :: "layout_direction \<Rightarrow> u32 \<Rightarrow> u32 \<Rightarrow> u32" where
  "child_x d x k = (case d of LeftRight \<Rightarrow> u32_add x k | TopBottom \<Rightarrow> x)"

definition child_y :: "layout_direction \<Rightarrow> u32 \<Rightarrow> u32 \<Rightarrow> u32" where
  "child_y d y k = (case d of LeftRight \<Rightarrow> y | TopBottom \<Rightarrow> u32_add y k)"

lemma fix_child_offsets_Cons:
  "fix_child_offsets d (c # cs) x y k =
     fix_offsets c (child_x d x k) (child_y d y k)
     # fix_child_offsets d cs x y (u32_sat_add (u32_sat_add k (axis_size c d)) PANE_BORDER_CELLS)"
  by (simp add: child_x_def child_y_def split: layout_direction.split)

lemma child_point:
  "point_of x y d + k \<le> u32_max \<Longrightarrow> point_of (child_x d x k) (child_y d y k) d = point_of x y d + k"
  "point_of (child_x d x k) (child_y d y k) (cross d) = point_of x y (cross d)"
  by (cases d; simp add: child_x_def child_y_def in_range)+

lemma children_placed_Cons:
  assumes c: "placed c (child_x d x k) (child_y d y k)"
    and size: "axis_size c (cross d) = n"
    and start: "point_of x y d + k \<le> u32_max"
    and cs: "children_placed d cs x y k' n"
    and k': "cs \<noteq> [] \<Longrightarrow> k' = k + axis_size c d + 1"
      "u32_sat_add (u32_sat_add k (axis_size c d)) PANE_BORDER_CELLS = k'"
  shows "children_placed d (c # cs) x y k n"
proof -
  let ?first = "collect_leaf_geometries (fix_offsets c (child_x d x k) (child_y d y k))"
  let ?rest = "child_leaves (fix_child_offsets d cs x y k')"
  have leaves: "child_leaves (fix_child_offsets d (c # cs) x y k) = ?first @ ?rest"
    by (simp only: fix_child_offsets_Cons k'(2) child_leaves_simps)
  have first: "within g d (point_of x y d + k) (point_of x y d + k + axis_size c d)"
      "within g (cross d) (point_of x y (cross d)) (point_of x y (cross d) + n)"
    if "g \<in> set ?first" for g
    using c that size child_point(1) [OF start] child_point(2) [of d x k y]
    unfolding placed_def by metis+
  have rest: "within g d (point_of x y d + k + axis_size c d + 1)
        (point_of x y d + k + axis_size c d + 1 + extent d cs - 1)"
      "within g (cross d) (point_of x y (cross d)) (point_of x y (cross d) + n)"
    if "g \<in> set ?rest" for g
  proof -
    have "cs \<noteq> []" using that by auto
    then have "point_of x y d + k' = point_of x y d + k + axis_size c d + 1" using k'(1) by simp
    then show "within g d (point_of x y d + k + axis_size c d + 1)
        (point_of x y d + k + axis_size c d + 1 + extent d cs - 1)"
      "within g (cross d) (point_of x y (cross d)) (point_of x y (cross d) + n)"
      using cs that unfolding children_placed_def by metis+
  qed
  have "separated g g'" if "g \<in> set ?first" "g' \<in> set ?rest" for g g'
    using within_before [OF first(1) [OF that(1)] rest(1) [OF that(2)]] before_separated by simp
  then have "sorted_wrt separated (?first @ ?rest)"
    using c cs by (auto simp: sorted_wrt_append placed_def children_placed_def)
  moreover have "within g d (point_of x y d + k) (point_of x y d + k + extent d (c # cs) - 1)"
    if "g \<in> set (?first @ ?rest)" for g
    using that first(1) [of g] rest(1) [of g] by (fastforce simp: within_def)
  ultimately show ?thesis
    unfolding children_placed_def leaves using first(2) rest(2) by auto
qed

lemma fix_offsets_placed_aux:
  "tiles c \<Longrightarrow> (\<And>d. point_of x y d + axis_size c d \<le> u32_max) \<Longrightarrow> placed c x y"
  "list_all tiles cs \<Longrightarrow> list_all (\<lambda>c. axis_size c (cross d) = n) cs \<Longrightarrow>
     point_of x y d + k + extent d cs \<le> u32_max + 1 \<Longrightarrow> point_of x y (cross d) + n \<le> u32_max \<Longrightarrow>
     children_placed d cs x y k n"
proof (induction c x y and d cs x y k arbitrary: and n rule: fix_offsets_fix_child_offsets.induct)
  case (1 g x y)
  have "pos_of (g\<lparr>lg_x := x, lg_y := y\<rparr>) d = point_of x y d" for d by (cases d) simp_all
  then show ?case by (simp add: placed_def within_def)
next
  case (2 g d cs x y)
  have "children_placed d cs x y 0 (axis_of g (cross d))"
    using 2(1) 2(2) 2(3) [of d] 2(3) [of "cross d"] by simp
  moreover have "extent d cs - 1 = axis_of g d" using 2(2) by simp
  ultimately have "within g' d' (point_of x y d') (point_of x y d' + axis_of g d')"
    if "g' \<in> set (child_leaves (fix_child_offsets d cs x y 0))" for g' d'
    using that 2(2) by (cases "d' = d") (auto simp: children_placed_def neq_cross [of d' d])
  with \<open>children_placed d cs x y 0 (axis_of g (cross d))\<close> show ?case
    by (simp add: placed_def children_placed_def child_leaves_def)
next
  case (3 d x y k)
  then show ?case by (simp add: children_placed_def)
next
  case (4 d c cs x y k)
  let ?k' = "u32_sat_add (u32_sat_add k (axis_size c d)) PANE_BORDER_CELLS"
  have sizes: "point_of x y d + k + axis_size c d + extent d cs \<le> u32_max"
    "axis_size c (cross d) = n" using 4(4-7) by auto
  have "placed c (child_x d x k) (child_y d y k)"
  proof -
    have "point_of (child_x d x k) (child_y d y k) d' + axis_size c d' \<le> u32_max" for d'
      using sizes 4(7) child_point(1) [of x y d k] child_point(2) [of d x k y]
      by (cases "d' = d") (auto simp: neq_cross [of d' d])
    then show ?thesis using 4(1,2,4) by (cases d) (simp_all add: child_x_def child_y_def)
  qed
  moreover have k': "cs \<noteq> [] \<Longrightarrow> ?k' = k + axis_size c d + 1"
    using sizes(1) extent_length [of cs d]
    by (cases cs) (simp_all add: PANE_BORDER_CELLS_def in_range)
  moreover have "children_placed d cs x y ?k' n"
  proof (cases "cs = []")
    case False
    then show ?thesis using 4(3) [of n] 4(4,5,7) k' sizes(1) by simp
  qed (simp add: children_placed_def)
  ultimately show ?case using sizes by (intro children_placed_Cons) simp_all
qed

theorem fix_offsets_placed:
  assumes "tiles c" "x + axis_size c LeftRight \<le> u32_max" "y + axis_size c TopBottom \<le> u32_max"
  shows "placed c x y"
proof (rule fix_offsets_placed_aux(1) [OF assms(1)])
  show "point_of x y d + axis_size c d \<le> u32_max" for d
    using assms(2,3) by (cases d) simp_all
qed

end
