(* ===== verification/Layout_Tree.thy ===== *)
theory Layout_Tree
  imports Layout_Offsets
begin

text \<open>
  The layout tree of a window and the operations on its leaves, after
  \<open>crates/rmux-core/src/layout.rs\<close>, \<open>layout/mutation.rs\<close> and \<open>layout/resize.rs\<close>.
  An operation that mutates the tree and returns a \<open>bool\<close> is a function to the new tree and
  the flag. Definitions only; the properties are in \<open>Layout_Tree_Props\<close> and
  \<open>Layout_Resize_Props\<close>.
\<close>

record terminal_size =
  cols :: u16
  rows :: u16

record layout_tree =
  lt_root :: layout_cell
  lt_leaf_map :: "usize list option"

definition single :: "terminal_size \<Rightarrow> layout_tree" where
  "single sz = \<lparr>lt_root = Pane (new_geometry (cols sz) (rows sz) 0 0), lt_leaf_map = None\<rparr>"

definition tree_leaf_count :: "layout_tree \<Rightarrow> usize" where
  "tree_leaf_count t = leaf_count (lt_root t)"

definition u32_to_u16 :: "u32 \<Rightarrow> u16" where
  "u32_to_u16 n = min n u16_max"

definition tree_size :: "layout_tree \<Rightarrow> terminal_size" where
  "tree_size t = \<lparr>cols = u32_to_u16 (lg_width (geometry (lt_root t))),
                  rows = u32_to_u16 (lg_height (geometry (lt_root t)))\<rparr>"

section \<open>Paths\<close>

definition leaf_paths :: "layout_tree \<Rightarrow> usize list list" where
  "leaf_paths t = collect_leaf_paths (lt_root t) []"

definition list_get :: "'a list \<Rightarrow> usize \<Rightarrow> 'a option" where
  "list_get xs i = (if i < length xs then Some (xs ! i) else None)"

fun cell_at_path :: "layout_cell \<Rightarrow> usize list \<Rightarrow> layout_cell option" where
  "cell_at_path c [] = Some c"
| "cell_at_path (Pane _) (i # p) = None"
| "cell_at_path (Split _ _ cs) (i # p) =
     (case list_get cs i of None \<Rightarrow> None | Some c \<Rightarrow> cell_at_path c p)"

text \<open>
  \<open>cell_mut_at_path\<close> hands out a mutable reference to the cell at a path. Its two uses, reading
  the cell and writing it back, are \<open>cell_at_path\<close> and \<open>write_at_path\<close>.
\<close>

fun write_at_path :: "layout_cell \<Rightarrow> usize list \<Rightarrow> layout_cell \<Rightarrow> layout_cell" where
  "write_at_path c [] new = new"
| "write_at_path (Pane g) (i # p) new = Pane g"
| "write_at_path (Split g d cs) (i # p) new =
     (case list_get cs i of
        None \<Rightarrow> Split g d cs
      | Some c \<Rightarrow> Split g d (cs[i := write_at_path c p new]))"

section \<open>Splitting\<close>

definition clamp :: "u32 \<Rightarrow> u32 \<Rightarrow> u32 \<Rightarrow> u32" where
  "clamp n lo hi = (if n < lo then lo else if n > hi then hi else n)"

definition split_second_size :: "u32 \<Rightarrow> u32" where
  "split_second_size saved =
     clamp (u32_add saved PANE_BORDER_CELLS div 2 - PANE_BORDER_CELLS)
       PANE_MINIMUM (saved - (PANE_MINIMUM + PANE_BORDER_CELLS))"

definition split_first_size :: "u32 \<Rightarrow> u32" where
  "split_first_size saved = saved - PANE_BORDER_CELLS - split_second_size saved"

definition splittable :: "u32 \<Rightarrow> bool" where
  "splittable saved \<longleftrightarrow> \<not> saved < PANE_MINIMUM * 2 + PANE_BORDER_CELLS"

definition split_leaf_into_children ::
  "layout_geometry \<Rightarrow> layout_direction \<Rightarrow> bool \<Rightarrow> (layout_cell \<times> layout_cell) option" where
  "split_leaf_into_children g d insert_before_target =
     (let saved = axis_of g d in
      if \<not> splittable saved then None
      else let second = split_second_size saved; first = split_first_size saved
      in case d of
           LeftRight \<Rightarrow> Some
             (Pane (new_geometry first (lg_height g) (lg_x g) (lg_y g)),
              Pane (new_geometry second (lg_height g)
                (u32_add (u32_add (lg_x g) first) PANE_BORDER_CELLS) (lg_y g)))
         | TopBottom \<Rightarrow> Some
             (Pane (new_geometry (lg_width g) first (lg_x g) (lg_y g)),
              Pane (new_geometry (lg_width g) second (lg_x g)
                (u32_add (u32_add (lg_y g) first) PANE_BORDER_CELLS))))"

definition split_leaf_cell :: "layout_cell \<Rightarrow> layout_direction \<Rightarrow> bool \<Rightarrow> layout_cell option" where
  "split_leaf_cell original d insert_before_target =
     (case split_leaf_into_children (geometry original) d insert_before_target of
        None \<Rightarrow> None
      | Some (first, second) \<Rightarrow> Some (Split (geometry original) d [first, second]))"

definition list_remove :: "'a list \<Rightarrow> usize \<Rightarrow> 'a list" where
  "list_remove xs i = take i xs @ drop (Suc i) xs"

definition list_insert :: "'a list \<Rightarrow> usize \<Rightarrow> 'a \<Rightarrow> 'a list" where
  "list_insert xs i x = take i xs @ x # drop i xs"

definition fixed :: "layout_cell \<Rightarrow> layout_tree" where
  "fixed root = \<lparr>lt_root = fix_offsets root 0 0, lt_leaf_map = None\<rparr>"

definition split_leaf ::
  "layout_tree \<Rightarrow> usize \<Rightarrow> layout_direction \<Rightarrow> bool \<Rightarrow> layout_tree \<times> bool" where
  "split_leaf t leaf_index d insert_before_target =
     (case list_get (leaf_paths t) leaf_index of
        None \<Rightarrow> (t, False)
      | Some path \<Rightarrow>
          if path = [] then
            (case split_leaf_cell (lt_root t) d insert_before_target of
               None \<Rightarrow> (t, False)
             | Some split_root \<Rightarrow> (t\<lparr>lt_root := fix_offsets split_root 0 0\<rparr>, True))
          else
            (case cell_at_path (lt_root t) (butlast path) of
               None \<Rightarrow> (t, False)
             | Some parent \<Rightarrow>
                 (case parent of
                    Split g pd children \<Rightarrow>
                      if pd = d then
                        (case list_get children (last path) of
                           None \<Rightarrow> (t, False)
                         | Some original \<Rightarrow>
                             (case split_leaf_into_children (geometry original) d insert_before_target of
                                None \<Rightarrow> (t, False)
                              | Some (first, second) \<Rightarrow>
                                  let i = last path; rest = list_remove children i;
                                      children' = (if insert_before_target
                                        then list_insert (list_insert rest i second) i first
                                        else list_insert (list_insert rest i first) (i + 1) second)
                                  in (fixed (write_at_path (lt_root t) (butlast path)
                                        (Split g pd children')), True)))
                      else
                        (case cell_at_path (lt_root t) path of
                           None \<Rightarrow> (t, False)
                         | Some original \<Rightarrow>
                             (case split_leaf_cell original d insert_before_target of
                                None \<Rightarrow> (t, False)
                              | Some split_cell \<Rightarrow>
                                  (fixed (write_at_path (lt_root t) path split_cell), True)))
                  | Pane _ \<Rightarrow> (t, False))))"

text \<open>
  Under a parent that is a pane the source looks the full path up again, finds nothing and returns
  \<open>false\<close>: the last case of \<open>split_leaf\<close>.
\<close>

definition split_root :: "layout_tree \<Rightarrow> layout_direction \<Rightarrow> bool \<Rightarrow> layout_tree \<times> bool" where
  "split_root t d insert_before_target =
     (let g = geometry (lt_root t); saved = axis_of g d in
      if \<not> splittable saved then (t, False)
      else
        let second_size = split_second_size saved;
            first_size = split_first_size saved;
            existing_size = (if insert_before_target then second_size else first_size);
            change = i32_wrap (u32_as_i32 existing_size - u32_as_i32 (axis_size (lt_root t) d));
            existing = resize_adjust (lt_root t) d change;
            far = u32_add first_size PANE_BORDER_CELLS;
            new_geo =
              (case d of
                 LeftRight \<Rightarrow> if insert_before_target
                   then new_geometry first_size (lg_height g) 0 0
                   else new_geometry second_size (lg_height g) far 0
               | TopBottom \<Rightarrow> if insert_before_target
                   then new_geometry (lg_width g) first_size 0 0
                   else new_geometry (lg_width g) second_size 0 far);
            existing' =
              (if insert_before_target
               then (case d of LeftRight \<Rightarrow> fix_offsets existing far 0
                     | TopBottom \<Rightarrow> fix_offsets existing 0 far)
               else fix_offsets existing 0 0);
            new_leaf = Pane new_geo;
            root = (if insert_before_target then Split g d [new_leaf, existing']
                    else Split g d [existing', new_leaf])
        in (fixed root, True))"

section \<open>Removing\<close>

fun collapse_single_child :: "layout_cell \<Rightarrow> layout_cell" where
  "collapse_single_child (Pane g) = Pane g"
| "collapse_single_child (Split g d cs) =
     (let cs' = map collapse_single_child cs
      in if length cs' = 1
         then fix_offsets (with_geometry (hd cs') g) (lg_x g) (lg_y g)
         else Split g d cs')"

definition remove_child :: "layout_direction \<Rightarrow> layout_cell list \<Rightarrow> usize \<Rightarrow> layout_cell list" where
  "remove_child d children i =
     (let removed = children ! i; rest = list_remove children i;
          j = (if i = 0 then 0 else i - 1);
          growth = u32_as_i32 (u32_add (axis_size removed d) PANE_BORDER_CELLS)
      in if j < length rest then rest[j := resize_adjust (rest ! j) d growth] else rest)"

definition remove_leaf :: "layout_tree \<Rightarrow> usize \<Rightarrow> layout_tree \<times> bool" where
  "remove_leaf t leaf_index =
     (case list_get (leaf_paths t) leaf_index of
        None \<Rightarrow> (t, False)
      | Some path \<Rightarrow>
          if path = [] then (t, False)
          else
            (case cell_at_path (lt_root t) (butlast path) of
               Some (Split g d children) \<Rightarrow>
                 if last path \<ge> length children then (t, False)
                 else (fixed (collapse_single_child
                         (write_at_path (lt_root t) (butlast path)
                           (Split g d (remove_child d children (last path))))), True)
             | _ \<Rightarrow> (t, False)))"

section \<open>Spreading\<close>

text \<open>The loop over \<open>(0..path.len()).rev()\<close>: the parent of the leaf first, the root last.\<close>

fun spread_upwards :: "layout_tree \<Rightarrow> usize list \<Rightarrow> nat \<Rightarrow> layout_tree \<times> bool" where
  "spread_upwards t path 0 = (t, False)"
| "spread_upwards t path (Suc depth) =
     (case cell_at_path (lt_root t) (take depth path) of
        None \<Rightarrow> spread_upwards t path depth
      | Some cell \<Rightarrow>
          (case spread cell of
             (cell', True) \<Rightarrow>
               (t\<lparr>lt_root := fix_offsets (write_at_path (lt_root t) (take depth path) cell') 0 0\<rparr>, True)
           | (_, False) \<Rightarrow> spread_upwards t path depth))"

definition spread_from_leaf :: "layout_tree \<Rightarrow> usize \<Rightarrow> layout_tree \<times> bool" where
  "spread_from_leaf t leaf_index =
     (case list_get (leaf_paths t) leaf_index of
        None \<Rightarrow> (t, False)
      | Some path \<Rightarrow> spread_upwards t path (length path))"

end
