(* ===== verification/Layout_Paths.thy ===== *)
theory Layout_Paths
  imports Layout_Tree
begin

text \<open>
  Paths into a layout cell. The path of the \<open>i\<close>-th leaf leads to the pane with the
  \<open>i\<close>-th leaf geometry, every proper prefix of it leads to a split, and writing a cell at a
  valid path replaces exactly the leaves below it and keeps tilings when the sizes agree.
\<close>

lemma list_get_Some [simp]: "list_get xs i = Some x \<longleftrightarrow> i < length xs \<and> x = xs ! i"
  by (auto simp: list_get_def)

lemma list_get_None [simp]: "list_get xs i = None \<longleftrightarrow> length xs \<le> i"
  by (auto simp: list_get_def)

lemma list_get_lt [simp]: "i < length xs \<Longrightarrow> list_get xs i = Some (xs ! i)"
  by simp

lemma list_get_ge [simp]: "length xs \<le> i \<Longrightarrow> list_get xs i = None"
  by simp

lemma cell_at_path_append:
  "cell_at_path c (p @ q) = (case cell_at_path c p of None \<Rightarrow> None | Some c' \<Rightarrow> cell_at_path c' q)"
  by (induction c p rule: cell_at_path.induct) (auto split: option.splits)

lemma cell_at_path_snoc:
  "cell_at_path c (p @ [i]) = Some c' \<longleftrightarrow>
     (\<exists>g d cs. cell_at_path c p = Some (Split g d cs) \<and> i < length cs \<and> c' = cs ! i)"
proof (cases "cell_at_path c p")
  case (Some a)
  then show ?thesis by (cases a) (auto simp: cell_at_path_append split: option.splits)
qed (simp add: cell_at_path_append)

section \<open>Leaf paths\<close>

lemma leaf_paths_prefix:
  "collect_leaf_paths c (p @ q) = map (\<lambda>r. p @ r) (collect_leaf_paths c q)"
  "collect_child_paths cs i (p @ q) = map (\<lambda>r. p @ r) (collect_child_paths cs i q)"
  by (induction c q and cs i q rule: collect_leaf_paths_collect_child_paths.induct) simp_all

lemma leaf_paths_Cons: "collect_leaf_paths c [i] = map (\<lambda>r. i # r) (collect_leaf_paths c [])"
  using leaf_paths_prefix(1) [of c "[i]" "[]"] by simp

lemma leaf_paths_lead_to_leaves:
  "list_all2 (\<lambda>p g. cell_at_path c p = Some (Pane g)) (collect_leaf_paths c []) (collect_leaf_geometries c)"
proof (induction c)
  case (Split g d cs)
  have "list_all2 (\<lambda>p g'. cell_at_path (Split g d (as @ bs)) p = Some (Pane g'))
      (collect_child_paths bs (length as) []) (child_leaves bs)" if "cs = as @ bs" for as bs
    using that
  proof (induction bs arbitrary: as)
    case (Cons b bs)
    have "list_all2 (\<lambda>p g. cell_at_path b p = Some (Pane g)) (collect_leaf_paths b []) (collect_leaf_geometries b)"
      using Split Cons.prems by simp
    then have "list_all2 (\<lambda>p g'. cell_at_path (Split g d (as @ b # bs)) p = Some (Pane g'))
        (collect_leaf_paths b [length as]) (collect_leaf_geometries b)"
      by (simp add: leaf_paths_Cons list_all2_map1)
    moreover have "list_all2 (\<lambda>p g'. cell_at_path (Split g d (as @ b # bs)) p = Some (Pane g'))
        (collect_child_paths bs (Suc (length as)) []) (child_leaves bs)"
      using Cons.IH [of "as @ [b]"] Cons.prems by simp
    ultimately show ?case by (simp add: list_all2_appendI)
  qed simp
  from this [of "[]" cs] show ?case by (simp add: child_leaves_def)
qed simp

lemma leaf_path_nth:
  assumes "i < leaf_count c"
  shows "cell_at_path c (collect_leaf_paths c [] ! i) = Some (Pane (collect_leaf_geometries c ! i))"
  using list_all2_nthD [OF leaf_paths_lead_to_leaves [of c], of i] assms
  by (simp add: length_leaf_paths)

lemma leaf_parent:
  assumes "i < leaf_count c" "p = collect_leaf_paths c [] ! i" "p \<noteq> []"
  obtains g d cs where "cell_at_path c (butlast p) = Some (Split g d cs)" "last p < length cs"
    "cs ! last p = Pane (collect_leaf_geometries c ! i)"
proof -
  have "cell_at_path c (butlast p @ [last p]) = Some (Pane (collect_leaf_geometries c ! i))"
    using leaf_path_nth [OF assms(1)] assms(2,3) by simp
  then show ?thesis using that by (auto simp: cell_at_path_snoc)
qed

section \<open>Counting leaves before a path\<close>

fun leaf_offset :: "layout_cell \<Rightarrow> usize list \<Rightarrow> nat" where
  "leaf_offset (Split g d cs) (i # p) = sum_list (map leaf_count (take i cs)) + leaf_offset (cs ! i) p"
| "leaf_offset _ _ = 0"

lemma leaf_offset_Nil [simp]: "leaf_offset c [] = 0"
  by (cases c) simp_all

lemma leaf_offset_append:
  "cell_at_path c p = Some c' \<Longrightarrow> leaf_offset c (p @ q) = leaf_offset c p + leaf_offset c' q"
  by (induction c p rule: cell_at_path.induct) (auto split: option.splits)

lemma leaf_offset_paths: "map (leaf_offset c) (collect_leaf_paths c []) = [0..<leaf_count c]"
proof (induction c)
  case (Split g d cs)
  let ?n = "\<lambda>cs. sum_list (map leaf_count cs)"
  have "map (leaf_offset (Split g d (as @ bs))) (collect_child_paths bs (length as) [])
      = [?n as..<?n as + ?n bs]" if "cs = as @ bs" for as bs
    using that
  proof (induction bs arbitrary: as)
    case (Cons b bs)
    have "map (leaf_offset (Split g d (as @ b # bs))) (collect_leaf_paths b [length as])
        = map (\<lambda>k. ?n as + k) (map (leaf_offset b) (collect_leaf_paths b []))"
      by (simp add: leaf_paths_Cons comp_def)
    also have "\<dots> = [?n as..<?n as + leaf_count b]"
      using Split Cons.prems by (simp add: map_add_upt add.commute)
    finally show ?case
      using Cons.IH [of "as @ [b]"] Cons.prems
      by (simp add: upt_add_eq_append [symmetric] add.assoc [symmetric])
  qed simp
  from this [of "[]" cs] show ?case by simp
qed simp

lemma leaf_offset_nth: "i < leaf_count c \<Longrightarrow> leaf_offset c (collect_leaf_paths c [] ! i) = i"
  using arg_cong [OF leaf_offset_paths [of c], of "\<lambda>xs. xs ! i"] by (simp add: length_leaf_paths)

section \<open>Writing at a path\<close>

lemma child_leaves_length: "length (child_leaves cs) = sum_list (map leaf_count cs)"
  by (induction cs) (simp_all add: length_leaf_geometries)

lemma child_leaves_append [simp]: "child_leaves (as @ bs) = child_leaves as @ child_leaves bs"
  by (simp add: child_leaves_def)

lemma Split_leaves [simp]: "collect_leaf_geometries (Split g d cs) = child_leaves cs"
  by (simp add: child_leaves_def)

declare collect_leaf_geometries.simps(2) [simp del]

lemma leaf_offset_fits:
  "cell_at_path c p = Some c' \<Longrightarrow> leaf_offset c p + leaf_count c' \<le> leaf_count c"
proof (induction c p rule: cell_at_path.induct)
  case (3 g d cs i p)
  then have i: "i < length cs" and sub: "cell_at_path (cs ! i) p = Some c'"
    by (auto split: option.splits)
  have "sum_list (map leaf_count cs) =
      sum_list (map leaf_count (take i cs)) + leaf_count (cs ! i) + sum_list (map leaf_count (drop (Suc i) cs))"
    using i by (subst id_take_nth_drop [of i cs]) simp_all
  with 3(1) [of "cs ! i"] i sub show ?case by simp
qed simp_all

lemma write_at_path_leaves:
  "cell_at_path c p = Some old \<Longrightarrow>
     collect_leaf_geometries (write_at_path c p new) =
       take (leaf_offset c p) (collect_leaf_geometries c) @ collect_leaf_geometries new
       @ drop (leaf_offset c p + leaf_count old) (collect_leaf_geometries c)"
proof (induction c p new rule: write_at_path.induct)
  case (1 c new)
  then show ?case by (simp add: length_leaf_geometries)
next
  case (3 g d cs i p new)
  then have i: "i < length cs" and sub: "cell_at_path (cs ! i) p = Some old"
    by (auto split: option.splits)
  have split: "cs = take i cs @ cs ! i # drop (Suc i) cs" using i by (simp add: id_take_nth_drop)
  have leaves: "child_leaves cs =
      child_leaves (take i cs) @ collect_leaf_geometries (cs ! i) @ child_leaves (drop (Suc i) cs)"
    by (subst split) simp
  have fits: "leaf_offset (cs ! i) p + leaf_count old \<le> leaf_count (cs ! i)"
    using sub leaf_offset_fits by blast
  show ?case
    using 3(1) [of "cs ! i"] i sub fits
    by (simp add: leaves upd_conv_take_nth_drop child_leaves_length length_leaf_geometries)
qed simp

definition same_sizes :: "layout_cell \<Rightarrow> layout_cell \<Rightarrow> bool" where
  "same_sizes c c' \<longleftrightarrow> (\<forall>d. axis_size c d = axis_size c' d)"

lemma same_sizes_refl [simp]: "same_sizes c c"
  by (simp add: same_sizes_def)

lemma same_sizes_axis: "same_sizes c c' \<Longrightarrow> axis_size c d = axis_size c' d"
  by (simp add: same_sizes_def)

lemma extent_update:
  "i < length cs \<Longrightarrow> axis_size new d = axis_size (cs ! i) d \<Longrightarrow> extent d (cs[i := new]) = extent d cs"
  by (rule extent_cong) (simp add: map_update list_update_same_conv)

lemma tiles_update:
  assumes "tiles (Split g d cs)" "i < length cs" "tiles new" "same_sizes new (cs ! i)"
  shows "tiles (Split g d (cs[i := new]))"
proof -
  have "cs ! i \<in> set cs" using assms(2) by simp
  with assms(1) have "axis_size (cs ! i) (cross d) = axis_of g (cross d)"
    by (simp add: list_all_iff)
  moreover have "axis_size new d' = axis_size (cs ! i) d'" for d'
    using assms(4) by (simp add: same_sizes_def)
  ultimately show ?thesis
    using assms(1-3) extent_update [OF assms(2), of new d] set_update_subset_insert [of cs i new]
    by (auto simp: list_all_iff)
qed

lemma write_at_path_tiles:
  "cell_at_path c p = Some old \<Longrightarrow> tiles c \<Longrightarrow> tiles new \<Longrightarrow> same_sizes new old \<Longrightarrow>
     tiles (write_at_path c p new) \<and> same_sizes (write_at_path c p new) c"
proof (induction c p new rule: write_at_path.induct)
  case (3 g d cs i p new)
  then have i: "i < length cs" and sub: "cell_at_path (cs ! i) p = Some old"
    by (auto split: option.splits)
  have "tiles (cs ! i)" using 3 i by (simp add: list_all_length)
  then have "tiles (write_at_path (cs ! i) p new)" "same_sizes (write_at_path (cs ! i) p new) (cs ! i)"
    using 3(1) [of "cs ! i"] 3(4,5) i sub by simp_all
  with tiles_update [OF 3(3) i] i show ?case by (simp add: same_sizes_def)
qed simp_all

lemma write_at_path_proper:
  "cell_at_path c p = Some old \<Longrightarrow> proper c \<Longrightarrow> proper new \<Longrightarrow> proper (write_at_path c p new)"
proof (induction c p new rule: write_at_path.induct)
  case (3 g d cs i p new)
  then have i: "i < length cs" and sub: "cell_at_path (cs ! i) p = Some old"
    by (auto split: option.splits)
  have "proper (cs ! i)" using 3 i by (simp add: list_all_length)
  then have "proper (write_at_path (cs ! i) p new)" using 3(1) [of "cs ! i"] 3(4) i sub by simp
  with 3(3) i set_update_subset_insert [of cs i] show ?case
    by (fastforce simp: list_all_iff)
qed simp_all

lemma cell_at_path_tiles:
  "cell_at_path c p = Some c' \<Longrightarrow> tiles c \<Longrightarrow> tiles c'"
proof (induction c p rule: cell_at_path.induct)
  case (3 g d cs i p)
  then show ?case by (auto simp: list_all_length split: option.splits)
qed simp_all

lemma cell_at_path_proper:
  "cell_at_path c p = Some c' \<Longrightarrow> proper c \<Longrightarrow> proper c'"
proof (induction c p rule: cell_at_path.induct)
  case (3 g d cs i p)
  then show ?case by (auto simp: list_all_length split: option.splits)
qed simp_all

lemma cell_at_path_size:
  "cell_at_path c p = Some c' \<Longrightarrow> tiles c \<Longrightarrow> axis_size c' d \<le> axis_size c d"
proof (induction c p rule: cell_at_path.induct)
  case (3 g sd cs i p)
  then have i: "i < length cs" and sub: "cell_at_path (cs ! i) p = Some c'"
    by (auto split: option.splits)
  then have "cs ! i \<in> set cs" by simp
  with 3(1) [of "cs ! i"] i sub tiles_child(1) [OF 3(3)] tiles_child_le [OF 3(3), of "cs ! i" d]
  show ?case by simp
qed simp_all

lemma fix_offsets_idem [simp]:
  "fix_offsets (fix_offsets c x y) x' y' = fix_offsets c x' y'"
  "fix_child_offsets d (fix_child_offsets d cs x y k) x' y' k' = fix_child_offsets d cs x' y' k'"
proof (induction c x y and d cs x y k arbitrary: x' y' and x' y' k' rule: fix_offsets_fix_child_offsets.induct)
  case (4 d c cs x y k)
  then show ?case by (cases d) simp_all
qed simp_all

lemma leaf_count_fix_offsets [simp]: "leaf_count (fix_offsets c x y) = leaf_count c"
  by (rule same_shape_leaf_count) simp

lemma proper_fix_offsets [simp]: "proper (fix_offsets c x y) = proper c"
  by (rule same_shape_proper) simp

text \<open>The widths and heights of the leaves, which the offset pass does not touch.\<close>

definition dims :: "layout_geometry \<Rightarrow> nat \<times> nat" where
  "dims g = (lg_width g, lg_height g)"

definition leaf_dims :: "layout_cell \<Rightarrow> (nat \<times> nat) list" where
  "leaf_dims c = map dims (collect_leaf_geometries c)"

lemma leaf_dims_fix_offsets [simp]:
  "leaf_dims (fix_offsets c x y) = leaf_dims c"
proof -
  have "map dims (collect_leaf_geometries (fix_offsets c x y)) = map dims (collect_leaf_geometries c)"
    "map dims (child_leaves (fix_child_offsets d cs x y k)) = map dims (child_leaves cs)" for d cs k
    by (induction c x y and d cs x y k rule: fix_offsets_fix_child_offsets.induct)
      (auto simp: dims_def split: layout_direction.split)
  then show ?thesis by (simp add: leaf_dims_def)
qed

end
