(* ===== verification/Layout_Tree_Props.thy ===== *)
theory Layout_Tree_Props
  imports Layout_Paths
begin

text \<open>
  Correctness of the operations on the leaves of a layout tree: the well-formedness invariant
  \<open>wf_tree\<close> (tiled, no one-child splits, offsets up to date, sizes within \<open>i32\<close>), what it
  means for the panes, and that splitting, removing and spreading leaves keep it.
\<close>

definition leaf_map_ok :: "layout_tree \<Rightarrow> bool" where
  "leaf_map_ok t \<longleftrightarrow>
     (case lt_leaf_map t of None \<Rightarrow> True
      | Some m \<Rightarrow> 2 \<le> leaf_count (lt_root t) \<and> distinct m \<and> set m = {..<leaf_count (lt_root t)})"

definition wf_tree :: "layout_tree \<Rightarrow> bool" where
  "wf_tree t \<longleftrightarrow>
     tiles (lt_root t) \<and> proper (lt_root t)
     \<and> axis_size (lt_root t) LeftRight \<le> i32_max \<and> axis_size (lt_root t) TopBottom \<le> i32_max
     \<and> fix_offsets (lt_root t) 0 0 = lt_root t \<and> leaf_map_ok t"

lemma wf_tree_bound: "wf_tree t \<Longrightarrow> axis_size (lt_root t) d \<le> i32_max"
  by (cases d) (auto simp: wf_tree_def)

lemma wf_tree_fixed:
  assumes "tiles c" "proper c" "axis_size c LeftRight \<le> i32_max" "axis_size c TopBottom \<le> i32_max"
  shows "wf_tree (fixed c)"
  using assms by (simp add: wf_tree_def fixed_def leaf_map_ok_def)

text \<open>Every pane lies inside the window, and panes are pairwise separated by a border.\<close>

theorem wf_tree_panes_disjoint:
  assumes "wf_tree t"
  shows "sorted_wrt separated (collect_leaf_geometries (lt_root t))"
    and "g \<in> set (collect_leaf_geometries (lt_root t)) \<Longrightarrow> within g d 0 (axis_size (lt_root t) d)"
proof -
  have "placed (lt_root t) 0 0"
  proof (rule fix_offsets_placed)
    show "tiles (lt_root t)" using assms by (simp add: wf_tree_def)
    show "0 + axis_size (lt_root t) LeftRight \<le> u32_max" "0 + axis_size (lt_root t) TopBottom \<le> u32_max"
      using wf_tree_bound [OF assms] i32_max_le_u32_max by (metis add_0 le_trans)+
  qed
  moreover have "point_of 0 0 d = 0" for d by (cases d) simp_all
  moreover have "fix_offsets (lt_root t) 0 0 = lt_root t" using assms by (simp add: wf_tree_def)
  ultimately show "sorted_wrt separated (collect_leaf_geometries (lt_root t))"
    "g \<in> set (collect_leaf_geometries (lt_root t)) \<Longrightarrow> within g d 0 (axis_size (lt_root t) d)"
    by (auto simp: placed_def)
qed

section \<open>Splitting a leaf\<close>

lemma split_sizes:
  assumes "splittable n" "n \<le> i32_max"
  shows "split_second_size n = (n - 1) div 2" "split_first_size n = n div 2"
    "split_first_size n + split_second_size n + 1 = n"
    "1 \<le> split_first_size n" "1 \<le> split_second_size n"
proof -
  have n: "3 \<le> n" using assms(1) by (simp add: splittable_def PANE_MINIMUM_def PANE_BORDER_CELLS_def)
  have "n + 1 \<le> u32_max" using assms(2) by (simp add: machine_defs)
  then have "u32_add n 1 = n + 1" by (rule u32_add_exact)
  then show second: "split_second_size n = (n - 1) div 2"
    using n by (simp add: split_second_size_def clamp_def PANE_MINIMUM_def PANE_BORDER_CELLS_def)
      linarith
  show first: "split_first_size n = n div 2"
    using n unfolding split_first_size_def second PANE_BORDER_CELLS_def by linarith
  show "split_first_size n + split_second_size n + 1 = n"
    "1 \<le> split_first_size n" "1 \<le> split_second_size n"
    using n unfolding first second by linarith+
qed

fun halves :: "layout_direction \<Rightarrow> nat \<times> nat \<Rightarrow> (nat \<times> nat) list" where
  "halves LeftRight (w, h) = [(w div 2, h), ((w - 1) div 2, h)]"
| "halves TopBottom (w, h) = [(w, h div 2), (w, (h - 1) div 2)]"

lemma split_leaf_into_children_cases:
  assumes "tiles (Pane g)" "axis_of g d \<le> i32_max"
  shows "\<not> splittable (axis_of g d) \<Longrightarrow> split_leaf_into_children g d b = None"
    and "splittable (axis_of g d) \<Longrightarrow> \<exists>g1 g2. split_leaf_into_children g d b = Some (Pane g1, Pane g2)
      \<and> tiles (Pane g1) \<and> tiles (Pane g2)
      \<and> axis_of g1 (cross d) = axis_of g (cross d) \<and> axis_of g2 (cross d) = axis_of g (cross d)
      \<and> axis_of g1 d + axis_of g2 d + 1 = axis_of g d
      \<and> [dims g1, dims g2] = halves d (dims g)"
proof -
  show "\<not> splittable (axis_of g d) \<Longrightarrow> split_leaf_into_children g d b = None"
    by (simp add: split_leaf_into_children_def)
  assume s: "splittable (axis_of g d)"
  note sz = split_sizes [OF s assms(2)]
  show "\<exists>g1 g2. split_leaf_into_children g d b = Some (Pane g1, Pane g2)
      \<and> tiles (Pane g1) \<and> tiles (Pane g2)
      \<and> axis_of g1 (cross d) = axis_of g (cross d) \<and> axis_of g2 (cross d) = axis_of g (cross d)
      \<and> axis_of g1 d + axis_of g2 d + 1 = axis_of g d
      \<and> [dims g1, dims g2] = halves d (dims g)"
    using assms s sz
    by (cases d) (auto simp: split_leaf_into_children_def Let_def new_geometry_def dims_def)
qed

lemma insert_both:
  assumes "i < length cs"
  shows "list_insert (list_insert (list_remove cs i) i b) i a = take i cs @ a # b # drop (Suc i) cs"
    and "list_insert (list_insert (list_remove cs i) i a) (i + 1) b = take i cs @ a # b # drop (Suc i) cs"
  using assms by (simp_all add: list_insert_def list_remove_def)

lemma tiles_replace_two:
  assumes "tiles (Split g d cs)" "i < length cs" "tiles a" "tiles b"
    and "axis_size a (cross d) = axis_of g (cross d)" "axis_size b (cross d) = axis_of g (cross d)"
    and "axis_size a d + axis_size b d + 1 = axis_size (cs ! i) d"
  shows "tiles (Split g d (take i cs @ a # b # drop (Suc i) cs))"
proof -
  have cs: "cs = take i cs @ cs ! i # drop (Suc i) cs" using assms(2) by (simp add: id_take_nth_drop)
  have "extent d cs = extent d (take i cs) + (axis_size (cs ! i) d + 1 + extent d (drop (Suc i) cs))"
    by (subst cs) simp
  moreover have "set (take i cs) \<subseteq> set cs" "set (drop (Suc i) cs) \<subseteq> set cs"
    by (simp_all add: set_take_subset set_drop_subset)
  ultimately show ?thesis using assms by (auto simp: list_all_iff)
qed

text \<open>
  The outcome of a split: it succeeds exactly when the leaf exists and has three cells along the
  axis; then the tree stays well-formed, keeps its size, and the leaf is replaced by two that
  share its cells evenly, every other leaf keeping its size.
\<close>

definition split_outcome ::
  "layout_tree \<Rightarrow> usize \<Rightarrow> layout_direction \<Rightarrow> layout_tree \<times> bool \<Rightarrow> bool" where
  "split_outcome t i d r \<longleftrightarrow>
     (case r of (t', ok) \<Rightarrow>
        (ok \<longleftrightarrow> i < leaf_count (lt_root t) \<and> 3 \<le> axis_of (collect_leaf_geometries (lt_root t) ! i) d)
        \<and> (\<not> ok \<longrightarrow> t' = t)
        \<and> (ok \<longrightarrow> wf_tree t' \<and> same_sizes (lt_root t') (lt_root t)
             \<and> leaf_dims (lt_root t') = take i (leaf_dims (lt_root t))
                 @ halves d (leaf_dims (lt_root t) ! i) @ drop (Suc i) (leaf_dims (lt_root t))))"

lemma splittable_iff: "splittable n \<longleftrightarrow> 3 \<le> n"
  by (auto simp: splittable_def PANE_MINIMUM_def PANE_BORDER_CELLS_def)

lemma write_at_path_id: "cell_at_path c p = Some old \<Longrightarrow> write_at_path c p old = c"
proof (induction c p old rule: write_at_path.induct)
  case (3 g d cs i p new)
  then show ?case by (auto simp: list_update_same_conv split: option.splits)
qed simp_all

lemma replace_child_leaves:
  assumes "cell_at_path c q = Some (Split g d cs)" "j < length cs" "cs ! j = Pane gi"
    and i: "i = leaf_offset c q + sum_list (map leaf_count (take j cs))"
  shows "collect_leaf_geometries (write_at_path c q (Split g d (take j cs @ new @ drop (Suc j) cs)))
    = take i (collect_leaf_geometries c) @ child_leaves new @ drop (Suc i) (collect_leaf_geometries c)"
proof -
  let ?L = "collect_leaf_geometries c"
  define A where "A = take (leaf_offset c q) ?L"
  define B where "B = drop (leaf_offset c q + leaf_count (Split g d cs)) ?L"
  have written: "collect_leaf_geometries (write_at_path c q (Split g d cs')) = A @ child_leaves cs' @ B" for cs'
    using write_at_path_leaves [OF assms(1), of "Split g d cs'"] by (simp add: A_def B_def)
  have "leaf_offset c q \<le> length ?L"
    using leaf_offset_fits [OF assms(1)] by (simp add: length_leaf_geometries)
  then have A: "length A = leaf_offset c q" by (simp add: A_def)
  have cs: "cs = take j cs @ Pane gi # drop (Suc j) cs"
    using assms(2,3) by (metis id_take_nth_drop)
  have kids: "child_leaves cs = child_leaves (take j cs) @ gi # child_leaves (drop (Suc j) cs)"
    by (subst cs) (simp only: child_leaves_append child_leaves_simps collect_leaf_geometries.simps(1)
        append_Cons append_Nil)
  have i': "i = length (A @ child_leaves (take j cs))"
    using A i by (simp only: length_append child_leaves_length)
  have L: "?L = (A @ child_leaves (take j cs)) @ gi # (child_leaves (drop (Suc j) cs) @ B)"
    using written [of cs] write_at_path_id [OF assms(1)] kids by (metis append.assoc append_Cons)
  have "take i ?L = A @ child_leaves (take j cs)" "drop (Suc i) ?L = child_leaves (drop (Suc j) cs) @ B"
    unfolding L i' by simp_all
  then show ?thesis by (simp add: written)
qed

lemma leaf_parent_offset:
  assumes "i < leaf_count c" "p = collect_leaf_paths c [] ! i" "p \<noteq> []"
    and "cell_at_path c (butlast p) = Some (Split g d cs)"
  shows "i = leaf_offset c (butlast p) + sum_list (map leaf_count (take (last p) cs))"
proof -
  have "i = leaf_offset c (butlast p @ [last p])"
    using leaf_offset_nth [OF assms(1)] assms(2,3) by simp
  also have "\<dots> = leaf_offset c (butlast p) + leaf_offset (Split g d cs) [last p]"
    using assms(4) by (rule leaf_offset_append)
  finally show ?thesis by simp
qed

lemma wf_tree_leaf:
  assumes "wf_tree t" "i < leaf_count (lt_root t)" "gi = collect_leaf_geometries (lt_root t) ! i"
  shows "tiles (Pane gi)" "axis_of gi d \<le> i32_max"
proof -
  have at: "cell_at_path (lt_root t) (collect_leaf_paths (lt_root t) [] ! i) = Some (Pane gi)"
    using leaf_path_nth [OF assms(2)] assms(3) by simp
  show "tiles (Pane gi)" using cell_at_path_tiles [OF at] assms(1) by (simp add: wf_tree_def)
  have "axis_size (Pane gi) d \<le> axis_size (lt_root t) d"
    using cell_at_path_size [OF at] assms(1) by (simp add: wf_tree_def)
  also have "\<dots> \<le> i32_max" using assms(1) by (rule wf_tree_bound)
  finally show "axis_of gi d \<le> i32_max" by simp
qed

text \<open>Rewriting a subtree of a well-formed tree and refreshing the offsets.\<close>

lemma wf_tree_write:
  assumes "wf_tree t" "cell_at_path (lt_root t) p = Some old" "tiles new" "proper new" "same_sizes new old"
  shows "wf_tree (fixed (write_at_path (lt_root t) p new))"
    "same_sizes (lt_root (fixed (write_at_path (lt_root t) p new))) (lt_root t)"
proof -
  have w: "tiles (write_at_path (lt_root t) p new)" "same_sizes (write_at_path (lt_root t) p new) (lt_root t)"
    using write_at_path_tiles [OF assms(2) _ assms(3,5)] assms(1) by (simp_all add: wf_tree_def)
  moreover have "proper (write_at_path (lt_root t) p new)"
    using write_at_path_proper [OF assms(2) _ assms(4)] assms(1) by (simp add: wf_tree_def)
  ultimately show "wf_tree (fixed (write_at_path (lt_root t) p new))"
    using wf_tree_bound [OF assms(1)] same_sizes_axis [OF w(2)] by (intro wf_tree_fixed) simp_all
  show "same_sizes (lt_root (fixed (write_at_path (lt_root t) p new))) (lt_root t)"
    using w(2) by (simp add: fixed_def same_sizes_def)
qed

lemma split_fails:
  "\<not> (i < leaf_count (lt_root t) \<and> 3 \<le> axis_of (collect_leaf_geometries (lt_root t) ! i) d) \<Longrightarrow>
     split_outcome t i d (t, False)"
  by (simp add: split_outcome_def)

lemma split_leaf_nested:
  assumes wf: "wf_tree t" and i: "i < leaf_count (lt_root t)" and p: "p = leaf_paths t ! i" "p \<noteq> []"
    and par: "cell_at_path (lt_root t) (butlast p) = Some (Split g pd cs)" "last p < length cs"
      "cs ! last p = Pane gi" "gi = collect_leaf_geometries (lt_root t) ! i"
    and fits: "splittable (axis_of gi d)"
  shows "split_outcome t i d (split_leaf t i d b)"
proof -
  let ?c = "lt_root t"
  have at: "cell_at_path ?c p = Some (Pane gi)"
    using leaf_path_nth [OF i] p(1) par(4) by (simp add: leaf_paths_def)
  obtain g1 g2 where kids: "split_leaf_into_children gi d b = Some (Pane g1, Pane g2)"
    and new: "tiles (Pane g1)" "tiles (Pane g2)" "axis_of g1 (cross d) = axis_of gi (cross d)"
      "axis_of g2 (cross d) = axis_of gi (cross d)" "axis_of g1 d + axis_of g2 d + 1 = axis_of gi d"
      "[dims g1, dims g2] = halves d (dims gi)"
    using split_leaf_into_children_cases(2) [OF wf_tree_leaf [OF wf i par(4)] fits] by blast
  have get: "list_get (leaf_paths t) i = Some p"
    using i p(1) by (simp add: leaf_paths_def length_leaf_paths)
  have dims: "leaf_dims ?c ! i = dims gi"
    using i par(4) by (simp add: leaf_dims_def length_leaf_geometries)
  have ok: "split_outcome t i d (fixed w, True)"
    if "wf_tree (fixed w)" "same_sizes (lt_root (fixed w)) ?c"
      "collect_leaf_geometries w = take i (collect_leaf_geometries ?c) @ [g1, g2]
         @ drop (Suc i) (collect_leaf_geometries ?c)" for w
  proof -
    have "leaf_dims w = take i (leaf_dims ?c) @ [dims g1, dims g2] @ drop (Suc i) (leaf_dims ?c)"
      unfolding leaf_dims_def that(3) by (simp add: take_map drop_map)
    then show ?thesis
      using that(1,2) i fits par(4) unfolding new(6) dims [symmetric]
      by (simp add: split_outcome_def splittable_iff fixed_def)
  qed
  show ?thesis
  proof (cases "pd = d")
    case True
    let ?cs = "take (last p) cs @ [Pane g1, Pane g2] @ drop (Suc (last p)) cs"
    have eq: "split_leaf t i d b = (fixed (write_at_path ?c (butlast p) (Split g pd ?cs)), True)"
      using get p(2) par True kids insert_both(1) [OF par(2), of "Pane g2" "Pane g1"]
        insert_both(2) [OF par(2), of "Pane g1" "Pane g2"]
      by (simp add: split_leaf_def Let_def)
    have tiled: "tiles (Split g pd cs)" and props: "proper (Split g pd cs)"
      using cell_at_path_tiles [OF par(1)] cell_at_path_proper [OF par(1)] wf
      by (simp_all only: wf_tree_def)
    have "axis_of gi (cross d) = axis_of g (cross d)"
      using tiles_child(2) [OF tiled, of "Pane gi"] par True by (metis axis_size_simps(1) nth_mem)
    then have "tiles (Split g pd ?cs)"
      using tiles_replace_two [OF tiled par(2), of "Pane g1" "Pane g2"] new par(3) True by simp
    moreover have "proper (Split g pd ?cs)"
      using props set_take_subset [of "last p" cs] set_drop_subset [of "Suc (last p)" cs]
      by (auto simp: list_all_iff)
    moreover have "same_sizes (Split g pd ?cs) (Split g pd cs)" by (simp add: same_sizes_def)
    ultimately have "wf_tree (fixed (write_at_path ?c (butlast p) (Split g pd ?cs)))"
      "same_sizes (lt_root (fixed (write_at_path ?c (butlast p) (Split g pd ?cs)))) ?c"
      by (rule wf_tree_write [OF wf par(1)])+
    moreover have "i = leaf_offset ?c (butlast p) + sum_list (map leaf_count (take (last p) cs))"
      using i p par(1) by (intro leaf_parent_offset) (simp_all add: leaf_paths_def)
    ultimately show ?thesis
      unfolding eq using replace_child_leaves [OF par(1-3), of i "[Pane g1, Pane g2]"]
      by (intro ok) simp_all
  next
    case False
    let ?new = "Split gi d [Pane g1, Pane g2]"
    have eq: "split_leaf t i d b = (fixed (write_at_path ?c p ?new), True)"
      using get p(2) par(1) False at kids by (simp add: split_leaf_def split_leaf_cell_def)
    have "tiles ?new" using new by simp
    moreover have "same_sizes ?new (Pane gi)" by (simp add: same_sizes_def)
    moreover have "leaf_offset ?c p = i" using leaf_offset_nth [OF i] p(1) by (simp add: leaf_paths_def)
    moreover have "proper ?new" by simp
    ultimately show ?thesis
      unfolding eq using write_at_path_leaves [OF at, of ?new] wf_tree_write [OF wf at, of ?new]
      by (intro ok) simp_all
  qed
qed

lemma split_leaf_small:
  assumes wf: "wf_tree t" and i: "i < leaf_count (lt_root t)"
    and small: "\<not> splittable (axis_of (collect_leaf_geometries (lt_root t) ! i) d)"
  shows "split_leaf t i d b = (t, False)"
proof -
  let ?c = "lt_root t" and ?p = "leaf_paths t ! i"
  let ?g = "collect_leaf_geometries ?c ! i"
  have none: "split_leaf_into_children ?g d b = None"
    using split_leaf_into_children_cases(1) [OF wf_tree_leaf [OF wf i refl] small] .
  have at: "cell_at_path ?c ?p = Some (Pane ?g)"
    using leaf_path_nth [OF i] by (simp add: leaf_paths_def)
  have get: "list_get (leaf_paths t) i = Some ?p"
    using i by (simp add: leaf_paths_def length_leaf_paths)
  show ?thesis
  proof (cases "?p = []")
    case True
    then have "geometry ?c = ?g" using at by (metis cell_at_path.simps(1) layout_cell.sel(1) option.inject)
    then show ?thesis using get True none by (simp add: split_leaf_def split_leaf_cell_def)
  next
    case False
    obtain g pd cs where "cell_at_path ?c (butlast ?p) = Some (Split g pd cs)" "last ?p < length cs"
      "cs ! last ?p = Pane ?g"
      using leaf_parent [OF i _ False] by (auto simp: leaf_paths_def)
    then show ?thesis using get False none at by (simp add: split_leaf_def split_leaf_cell_def)
  qed
qed

lemma split_leaf_root:
  assumes wf: "wf_tree t" and root: "lt_root t = Pane g" and fits: "splittable (axis_of g d)"
  shows "split_outcome t 0 d (split_leaf t 0 d b)"
proof -
  have "0 < leaf_count (lt_root t)" "g = collect_leaf_geometries (lt_root t) ! 0"
    by (simp_all add: root)
  from wf_tree_leaf [OF wf this] have g: "tiles (Pane g)" "axis_of g d \<le> i32_max" .
  from split_leaf_into_children_cases(2) [OF this fits] obtain g1 g2 where
    kids: "split_leaf_into_children g d b = Some (Pane g1, Pane g2)"
    and new: "tiles (Pane g1)" "tiles (Pane g2)" "axis_of g1 (cross d) = axis_of g (cross d)"
      "axis_of g2 (cross d) = axis_of g (cross d)" "axis_of g1 d + axis_of g2 d + 1 = axis_of g d"
      "[dims g1, dims g2] = halves d (dims g)"
    by blast
  let ?new = "Split g d [Pane g1, Pane g2]"
  have "lt_leaf_map t = None"
    using wf root by (auto simp: wf_tree_def leaf_map_ok_def split: option.splits)
  then have eq: "split_leaf t 0 d b = (fixed ?new, True)"
    using kids root by (simp add: split_leaf_def leaf_paths_def split_leaf_cell_def fixed_def)
  have "wf_tree (fixed ?new)"
    using new wf_tree_bound [OF wf, of LeftRight] wf_tree_bound [OF wf, of TopBottom] root
    by (intro wf_tree_fixed) simp_all
  moreover have "leaf_dims ?new = halves d (dims g)" using new(6) by (simp add: leaf_dims_def)
  ultimately show ?thesis
    unfolding eq using root fits
    by (simp add: split_outcome_def splittable_iff fixed_def same_sizes_def leaf_dims_def [of "Pane g"]
        del: fix_offsets.simps)
qed

theorem split_leaf_outcome:
  assumes "wf_tree t"
  shows "split_outcome t i d (split_leaf t i d b)"
proof (cases "i < leaf_count (lt_root t)")
  case False
  then have "split_leaf t i d b = (t, False)"
    by (simp add: split_leaf_def leaf_paths_def length_leaf_paths)
  with False show ?thesis by (simp add: split_outcome_def)
next
  case i: True
  let ?g = "collect_leaf_geometries (lt_root t) ! i"
  show ?thesis
  proof (cases "splittable (axis_of ?g d)")
    case False
    then show ?thesis
      using split_leaf_small [OF assms i False] by (simp add: split_outcome_def splittable_iff)
  next
    case True
    show ?thesis
    proof (cases "leaf_paths t ! i = []")
      case root: True
      then have "lt_root t = Pane ?g" using leaf_path_nth [OF i] by (simp add: leaf_paths_def)
      moreover from this i have "i = 0" by (metis leaf_count.simps(1) less_one)
      ultimately show ?thesis using split_leaf_root [OF assms _ True] by simp
    next
      case False
      obtain g pd cs where "cell_at_path (lt_root t) (butlast (leaf_paths t ! i)) = Some (Split g pd cs)"
        "last (leaf_paths t ! i) < length cs" "cs ! last (leaf_paths t ! i) = Pane ?g"
        using leaf_parent [OF i _ False] by (auto simp: leaf_paths_def)
      from split_leaf_nested [OF assms i refl False this refl True] show ?thesis .
    qed
  qed
qed

section \<open>Removing a leaf\<close>

lemma with_geometry_same:
  "axis_of g LeftRight = axis_size c LeftRight \<Longrightarrow> axis_of g TopBottom = axis_size c TopBottom \<Longrightarrow>
     tiles (with_geometry c g) = tiles c \<and> proper (with_geometry c g) = proper c
     \<and> leaf_count (with_geometry c g) = leaf_count c"
proof (cases c)
  case (Split g' d cs)
  assume "axis_of g LeftRight = axis_size c LeftRight" "axis_of g TopBottom = axis_size c TopBottom"
  then have "axis_of g d' = axis_of g' d'" for d' using Split by (cases d') simp_all
  then show ?thesis using Split by simp
qed simp

lemma collapse_single_child_tiles:
  "tiles c \<Longrightarrow> tiles (collapse_single_child c) \<and> proper (collapse_single_child c)
     \<and> same_sizes (collapse_single_child c) c \<and> leaf_count (collapse_single_child c) = leaf_count c"
proof (induction c)
  case (Split g d cs)
  let ?cs = "map collapse_single_child cs"
  have kid: "tiles (collapse_single_child c) \<and> proper (collapse_single_child c)
      \<and> same_sizes (collapse_single_child c) c \<and> leaf_count (collapse_single_child c) = leaf_count c"
    if "c \<in> set cs" for c
    using Split.IH [OF that] tiles_child(1) [OF Split.prems that] by blast
  have same: "axis_size (collapse_single_child c) d' = axis_size c d'" if "c \<in> set cs" for c d'
    using kid [OF that] same_sizes_axis by blast
  then have "map (\<lambda>c. axis_size c d) ?cs = map (\<lambda>c. axis_size c d) cs" by simp
  from extent_cong [OF this] have tiled: "tiles (Split g d ?cs)"
    using Split.prems kid same by (simp add: list_all_iff)
  have count: "map leaf_count ?cs = map leaf_count cs" using kid by simp
  show ?case
  proof (cases "length cs = 1")
    case False
    then have "2 \<le> length cs" using Split.prems by (cases cs; cases "tl cs") auto
    with False tiled kid count show ?thesis by (simp add: list_all_iff same_sizes_def del: map_map)
  next
    case True
    then obtain c where cs: "cs = [c]" by (cases cs) auto
    let ?c = "collapse_single_child c"
    have "axis_of g d' = axis_size ?c d'" for d'
      using tiled cs by (cases "d' = d") (auto simp: neq_cross [of d' d])
    then have "tiles (with_geometry ?c g) = tiles ?c \<and> proper (with_geometry ?c g) = proper ?c
        \<and> leaf_count (with_geometry ?c g) = leaf_count ?c"
      by (intro with_geometry_same)
    with kid [of c] cs show ?thesis by (simp add: same_sizes_def)
  qed
qed (simp add: same_sizes_def)

lemma extent_update_add:
  "j < length cs \<Longrightarrow> extent d (cs[j := new]) + axis_size (cs ! j) d = extent d cs + axis_size new d"
  by (induction cs arbitrary: j) (auto split: nat.split)

lemma extent_remove:
  "i < length cs \<Longrightarrow> extent d (list_remove cs i) + axis_size (cs ! i) d + 1 = extent d cs"
  by (subst (3) id_take_nth_drop [of i cs]) (simp_all add: list_remove_def)

lemma leaf_count_remove:
  "i < length cs \<Longrightarrow>
     sum_list (map leaf_count (list_remove cs i)) + leaf_count (cs ! i) = sum_list (map leaf_count cs)"
  by (subst (3) id_take_nth_drop [of i cs]) (simp_all add: list_remove_def)

lemma set_list_remove: "set (list_remove cs i) \<subseteq> set cs"
  using set_take_subset [of i cs] set_drop_subset [of "Suc i" cs] by (auto simp: list_remove_def)

lemma length_list_remove [simp]: "i < length cs \<Longrightarrow> length (list_remove cs i) = length cs - 1"
  by (simp add: list_remove_def)

lemma remove_child_tiles:
  assumes tiled: "tiles (Split g d cs)" and len: "2 \<le> length cs" "i < length cs"
    and bound: "axis_of g d \<le> i32_max"
  shows "tiles (Split g d (remove_child d cs i))"
    "sum_list (map leaf_count (remove_child d cs i)) + leaf_count (cs ! i) = sum_list (map leaf_count cs)"
proof -
  define rest where "rest = list_remove cs i"
  define j where "j = (if i = 0 then 0 else i - 1)"
  define growth where "growth = axis_size (cs ! i) d + 1"
  have j: "j < length rest" using len by (auto simp: rest_def j_def)
  have kids: "tiles c" "axis_size c (cross d) = axis_of g (cross d)" if "c \<in> set rest" for c
    using that set_list_remove [of cs i] tiles_child [OF tiled, of c] by (auto simp: rest_def)
  have ext: "extent d rest + growth = axis_of g d + 1"
    using extent_remove [OF len(2), of d] tiled by (simp add: rest_def growth_def)
  have neighbour: "axis_size (rest ! j) d + 1 \<le> extent d rest" "1 \<le> axis_size (rest ! j) d"
    using extent_member tiles_axis_pos kids(1) j by simp_all
  have small: "growth \<le> i32_max" "axis_size (rest ! j) d + growth \<le> i32_max"
    using ext neighbour bound by simp_all
  have growth: "u32_as_i32 (u32_add (axis_size (cs ! i) d) PANE_BORDER_CELLS) = int growth"
  proof -
    have "axis_size (cs ! i) d + 1 \<le> u32_max"
      using small(1) i32_max_le_u32_max unfolding growth_def by (rule le_trans)
    then show ?thesis using small(1) by (simp add: PANE_BORDER_CELLS_def growth_def in_range)
  qed
  let ?new = "resize_adjust (rest ! j) d (int growth)"
  have eq: "remove_child d cs i = rest[j := ?new]"
    using j growth by (simp add: remove_child_def Let_def flip: rest_def j_def)
  have "axis_size (rest ! j) d + growth \<le> u32_max"
    using small(2) i32_max_le_u32_max by (rule le_trans)
  then have "can_resize d (int growth) (rest ! j)"
    using kids(1) j by (simp add: can_resize_def)
  then have new: "resized d (int growth) (rest ! j) ?new" by (rule resize_adjust_resized)
  have "axis_size ?new d = axis_size (rest ! j) d + growth"
    using new by (simp add: resized_def)
  with extent_update_add [OF j, of d ?new] have "extent d (rest[j := ?new]) = axis_of g d + 1"
    using ext by simp
  moreover have "set (rest[j := ?new]) \<subseteq> insert ?new (set rest)" by (rule set_update_subset_insert)
  moreover have "rest[j := ?new] \<noteq> []" using j by auto
  ultimately show "tiles (Split g d (remove_child d cs i))"
    unfolding eq using new kids j nth_mem [OF j] by (fastforce simp: list_all_iff resized_def)
  have "map leaf_count (rest[j := ?new]) = map leaf_count rest"
    using j by (simp add: map_update list_update_same_conv)
  then show "sum_list (map leaf_count (remove_child d cs i)) + leaf_count (cs ! i)
      = sum_list (map leaf_count cs)"
    unfolding eq using leaf_count_remove [OF len(2)] by (simp add: rest_def)
qed

text \<open>
  Removing a leaf succeeds exactly when it exists and is not the only one; the tree then stays
  well-formed, keeps its size and loses one leaf.
\<close>

definition remove_outcome :: "layout_tree \<Rightarrow> usize \<Rightarrow> layout_tree \<times> bool \<Rightarrow> bool" where
  "remove_outcome t i r \<longleftrightarrow>
     (case r of (t', ok) \<Rightarrow>
        (ok \<longleftrightarrow> i < leaf_count (lt_root t) \<and> 2 \<le> leaf_count (lt_root t))
        \<and> (\<not> ok \<longrightarrow> t' = t)
        \<and> (ok \<longrightarrow> wf_tree t' \<and> same_sizes (lt_root t') (lt_root t)
             \<and> leaf_count (lt_root t') + 1 = leaf_count (lt_root t)))"

lemma write_at_path_leaf_count:
  assumes "cell_at_path c p = Some old"
  shows "leaf_count (write_at_path c p new) + leaf_count old = leaf_count c + leaf_count new"
  using arg_cong [OF write_at_path_leaves [OF assms, of new], of length] leaf_offset_fits [OF assms]
  by (simp add: length_leaf_geometries)

lemma proper_leaf_count: "proper c \<Longrightarrow> 1 \<le> leaf_count c"
proof (induction c)
  case (Split g d cs)
  then obtain c cs' where "cs = c # cs'" by (cases cs) auto
  with Split show ?case by (simp add: trans_le_add1)
qed simp

lemma proper_split_leaves: "proper (Split g d cs) \<Longrightarrow> 2 \<le> leaf_count (Split g d cs)"
proof -
  assume "proper (Split g d cs)"
  moreover from this obtain a b cs' where "cs = a # b # cs'" by (cases cs; cases "tl cs") auto
  ultimately show ?thesis using proper_leaf_count [of a] proper_leaf_count [of b] by simp
qed

theorem remove_leaf_outcome:
  assumes wf: "wf_tree t"
  shows "remove_outcome t i (remove_leaf t i)"
proof (cases "i < leaf_count (lt_root t)")
  case False
  then show ?thesis by (simp add: remove_outcome_def remove_leaf_def leaf_paths_def length_leaf_paths)
next
  case i: True
  let ?c = "lt_root t" and ?p = "leaf_paths t ! i"
  have get: "list_get (leaf_paths t) i = Some ?p"
    using i by (simp add: leaf_paths_def length_leaf_paths)
  show ?thesis
  proof (cases "?p = []")
    case True
    then have "leaf_count ?c = 1"
      using leaf_path_nth [OF i] by (metis cell_at_path.simps(1) leaf_count.simps(1) leaf_paths_def option.inject)
    with get True show ?thesis by (simp add: remove_leaf_def remove_outcome_def)
  next
    case False
    obtain g d cs where par: "cell_at_path ?c (butlast ?p) = Some (Split g d cs)" "last ?p < length cs"
      "cs ! last ?p = Pane (collect_leaf_geometries ?c ! i)"
      using leaf_parent [OF i _ False] by (auto simp: leaf_paths_def)
    let ?new = "Split g d (remove_child d cs (last ?p))"
    let ?w = "write_at_path ?c (butlast ?p) ?new"
    have eq: "remove_leaf t i = (fixed (collapse_single_child ?w), True)"
      using get False par by (simp add: remove_leaf_def)
    have parent: "tiles (Split g d cs)" "proper (Split g d cs)" "axis_of g d \<le> i32_max"
      using cell_at_path_tiles [OF par(1)] cell_at_path_proper [OF par(1)]
        cell_at_path_size [OF par(1), of d] wf_tree_bound [OF wf, of d] wf
      by (simp_all add: wf_tree_def del: tiles.simps proper.simps)
    have new: "tiles ?new" "leaf_count ?new + 1 = leaf_count (Split g d cs)"
      using remove_child_tiles [OF parent(1) _ par(2) parent(3)] parent(2) par(3) by simp_all
    have w: "tiles ?w" "same_sizes ?w ?c"
      using write_at_path_tiles [OF par(1) _ new(1)] wf by (simp_all add: wf_tree_def same_sizes_def)
    note col = collapse_single_child_tiles [OF w(1)]
    have same: "same_sizes (collapse_single_child ?w) ?c"
      using col w(2) by (simp add: same_sizes_def)
    have "wf_tree (fixed (collapse_single_child ?w))"
      using col same_sizes_axis [OF same] wf_tree_bound [OF wf] by (intro wf_tree_fixed) simp_all
    moreover have "leaf_count (collapse_single_child ?w) + 1 = leaf_count ?c"
      using col write_at_path_leaf_count [OF par(1), of ?new] new(2) by simp
    moreover have "2 \<le> leaf_count ?c"
      using proper_split_leaves [OF parent(2)] leaf_offset_fits [OF par(1)] by simp
    ultimately show ?thesis
      unfolding eq using i same by (simp add: remove_outcome_def fixed_def same_sizes_def)
  qed
qed

end
