(* ===== verification/Layout_Resize.thy ===== *)
theory Layout_Resize
  imports Layout_Tree
begin

text \<open>
  Resizing a whole layout tree and moving the border next to one pane, after
  \<open>crates/rmux-core/src/layout/resize.rs\<close>.
\<close>

definition resize_axis :: "layout_cell \<Rightarrow> layout_direction \<Rightarrow> i32 \<Rightarrow> layout_cell" where
  "resize_axis root d change =
     (let limit = u32_as_i32 (resize_check root d);
          change1 = (if change < 0 \<and> change < - limit then - limit else change);
          change2 = (if limit = 0 \<and> change1 < 0 then 0 else change1)
      in if change2 \<noteq> 0 then resize_adjust root d change2 else root)"

definition resize :: "layout_tree \<Rightarrow> terminal_size \<Rightarrow> layout_tree" where
  "resize t sz =
     (let root1 = resize_axis (lt_root t) LeftRight
            (i32_wrap (int (cols sz) - u32_as_i32 (lg_width (geometry (lt_root t)))));
          root2 = resize_axis root1 TopBottom
            (i32_wrap (int (rows sz) - u32_as_i32 (lg_height (geometry root1))))
      in t\<lparr>lt_root := fix_offsets root2 0 0\<rparr>)"

section \<open>Moving a border between two children\<close>

definition resize_children ::
  "layout_cell list \<Rightarrow> usize \<Rightarrow> usize \<Rightarrow> layout_direction \<Rightarrow> u32 \<Rightarrow> layout_cell list" where
  "resize_children children add_index remove_index d amount =
     (if add_index = remove_index \<or> amount = 0 then children
      else children[add_index := resize_adjust (children ! add_index) d (u32_as_i32 amount),
                    remove_index := resize_adjust (children ! remove_index) d (- u32_as_i32 amount)])"

text \<open>
  The searches for a child that can give up cells: positions are tried in the given order, the
  first with slack is taken with its slack.
\<close>

fun find_slack :: "layout_cell list \<Rightarrow> layout_direction \<Rightarrow> usize list \<Rightarrow> (usize \<times> u32) option" where
  "find_slack children d [] = None"
| "find_slack children d (i # is) =
     (if resize_check (children ! i) d > 0 then Some (i, resize_check (children ! i) d)
      else find_slack children d is)"

definition resize_pane_grow ::
  "layout_cell \<Rightarrow> usize list \<Rightarrow> usize \<Rightarrow> layout_direction \<Rightarrow> u32 \<Rightarrow> bool \<Rightarrow> layout_cell \<times> u32" where
  "resize_pane_grow root parent_path child_index d needed opposite =
     (case cell_at_path root parent_path of
        Some (Split g pd children) \<Rightarrow>
          if pd \<noteq> d \<or> child_index \<ge> length children then (root, 0)
          else
            let after = find_slack children d [child_index + 1..<length children];
                found = (if opposite \<and> after = None
                         then find_slack children d (rev [0..<child_index]) else after)
            in (case found of
                  None \<Rightarrow> (root, 0)
                | Some (remove_index, available) \<Rightarrow>
                    let amount = min available needed
                    in (write_at_path root parent_path
                          (Split g pd (resize_children children child_index remove_index d amount)), amount))
      | _ \<Rightarrow> (root, 0))"

definition resize_pane_shrink ::
  "layout_cell \<Rightarrow> usize list \<Rightarrow> usize \<Rightarrow> layout_direction \<Rightarrow> u32 \<Rightarrow> layout_cell \<times> u32" where
  "resize_pane_shrink root parent_path child_index d needed =
     (case cell_at_path root parent_path of
        Some (Split g pd children) \<Rightarrow>
          if pd \<noteq> d \<or> child_index + 1 \<ge> length children then (root, 0)
          else
            (case find_slack children d (rev [0..<child_index + 1]) of
               None \<Rightarrow> (root, 0)
             | Some (remove_index, available) \<Rightarrow>
                 let amount = min available needed
                 in (write_at_path root parent_path
                       (Split g pd (resize_children children (child_index + 1) remove_index d amount)), amount))
      | _ \<Rightarrow> (root, 0))"

lemma resize_pane_grow_le: "resize_pane_grow root p i d needed opp = (root', amount) \<Longrightarrow> amount \<le> needed"
  by (auto simp: resize_pane_grow_def Let_def
      split: option.splits layout_cell.splits if_splits prod.splits)

lemma resize_pane_shrink_le: "resize_pane_shrink root p i d needed = (root', amount) \<Longrightarrow> amount \<le> needed"
  by (auto simp: resize_pane_shrink_def Let_def
      split: option.splits layout_cell.splits if_splits prod.splits)

text \<open>
  The \<open>while needed != 0\<close> loop of \<open>resize_layout\<close>. The sizes it takes are at most the
  magnitude of \<open>needed\<close>, so the update of \<open>needed\<close> cannot overflow and is written on
  integers.
\<close>

definition resize_step ::
  "layout_cell \<Rightarrow> usize list \<Rightarrow> usize \<Rightarrow> layout_direction \<Rightarrow> i32 \<Rightarrow> i32 \<Rightarrow> bool \<Rightarrow> layout_cell \<times> u32" where
  "resize_step root parent_path child_index d change needed opposite =
     (if change > 0 then resize_pane_grow root parent_path child_index d (i32_as_u32 needed) opposite
      else resize_pane_shrink root parent_path child_index d (i32_as_u32 (- needed)))"

lemma i32_as_u32_le: "0 \<le> z \<Longrightarrow> int (i32_as_u32 z) \<le> z"
  by (simp add: i32_as_u32_def zmod_le_nonneg_dividend)

lemma resize_step_le:
  assumes "resize_step root p i d change needed opp = (root', amount)"
    and "if change > 0 then 0 \<le> needed else needed \<le> 0"
  shows "int amount \<le> \<bar>needed\<bar>"
proof (cases "change > 0")
  case True
  with assms have "amount \<le> i32_as_u32 needed"
    by (auto simp: resize_step_def dest: resize_pane_grow_le)
  with True assms(2) i32_as_u32_le [of needed] show ?thesis by simp
next
  case False
  with assms have "amount \<le> i32_as_u32 (- needed)"
    by (auto simp: resize_step_def dest: resize_pane_shrink_le)
  with False assms(2) i32_as_u32_le [of "- needed"] show ?thesis by simp
qed

function resize_loop ::
  "layout_cell \<Rightarrow> usize list \<Rightarrow> usize \<Rightarrow> layout_direction \<Rightarrow> i32 \<Rightarrow> i32 \<Rightarrow> bool \<Rightarrow> bool \<Rightarrow>
     layout_cell \<times> bool" where
  "resize_loop root parent_path child_index d change needed opposite changed =
     (if needed = 0 \<or> (needed > 0) \<noteq> (change > 0) then (root, changed)
      else case resize_step root parent_path child_index d change needed opposite of
        (root', amount) \<Rightarrow>
          if amount = 0 then (root', changed)
          else resize_loop root' parent_path child_index d change
                 (if change > 0 then needed - int amount else needed + int amount) opposite True)"
  by pat_completeness auto
termination
  by (relation "measure (\<lambda>(root, p, i, d, change, needed, opp, changed). nat \<bar>needed\<bar>)")
    (auto dest!: sym [of _ "resize_step _ _ _ _ _ _ _"] resize_step_le split: if_splits)

declare resize_loop.simps [simp del]

text \<open>
  The guard \<open>(needed > 0) \<noteq> (change > 0)\<close> never fires: \<open>needed\<close> starts at \<open>change\<close>
  and moves towards zero without passing it (\<open>resize_step_le\<close>).
\<close>

definition resize_layout ::
  "layout_tree \<Rightarrow> usize list \<Rightarrow> usize \<Rightarrow> layout_direction \<Rightarrow> i32 \<Rightarrow> bool \<Rightarrow> layout_tree \<times> bool" where
  "resize_layout t parent_path child_index d change opposite =
     (case resize_loop (lt_root t) parent_path child_index d change change opposite False of
        (root, changed) \<Rightarrow>
          if changed then (t\<lparr>lt_root := fix_offsets root 0 0\<rparr>, True)
          else (t\<lparr>lt_root := root\<rparr>, False))"

section \<open>Finding the border of a pane\<close>

definition clamp_i32 :: "u32 \<Rightarrow> i32" where
  "clamp_i32 n = u32_as_i32 (min n i32_max)"

text \<open>
  The walk from a leaf towards the root of \<open>resize_leaf_to\<close>: it stops at the first ancestor
  split along the axis, and fails there when the child is the only one.
\<close>

function resize_leaf_to_from ::
  "layout_tree \<Rightarrow> usize list \<Rightarrow> layout_direction \<Rightarrow> u32 \<Rightarrow> layout_tree \<times> bool" where
  "resize_leaf_to_from t cell_path d new_size =
     (if cell_path = [] then (t, False)
      else
        let child_index = last cell_path; parent_path = butlast cell_path
        in case cell_at_path (lt_root t) parent_path of
             Some (Split g pd children) \<Rightarrow>
               if pd = d then
                 let current = u32_as_i32 (axis_size (children ! child_index) d)
                 in if child_index + 1 = length children then
                      if child_index = 0 then (t, False)
                      else resize_layout t parent_path (child_index - 1) d
                             (i32_wrap (current - clamp_i32 new_size)) True
                    else resize_layout t parent_path child_index d
                           (i32_wrap (clamp_i32 new_size - current)) True
               else resize_leaf_to_from t parent_path d new_size
           | _ \<Rightarrow> (t, False))"
  by pat_completeness auto
termination
  by (relation "measure (\<lambda>(t, p, d, n). length p)") auto

declare resize_leaf_to_from.simps [simp del]

definition resize_leaf_to :: "layout_tree \<Rightarrow> usize \<Rightarrow> layout_direction \<Rightarrow> u32 \<Rightarrow> layout_tree \<times> bool" where
  "resize_leaf_to t leaf_index d new_size =
     (case list_get (leaf_paths t) leaf_index of
        None \<Rightarrow> (t, False)
      | Some path \<Rightarrow> resize_leaf_to_from t path d new_size)"

function find_resize_handle_from ::
  "layout_tree \<Rightarrow> usize list \<Rightarrow> layout_direction \<Rightarrow> (usize list \<times> usize) option" where
  "find_resize_handle_from t cell_path d =
     (if cell_path = [] then None
      else
        let child_index = last cell_path; parent_path = butlast cell_path;
            continue = find_resize_handle_from t parent_path d
        in case cell_at_path (lt_root t) parent_path of
             None \<Rightarrow> None
           | Some (Split g pd children) \<Rightarrow>
               if pd = d then
                 if child_index + 1 = length children then
                   if child_index = 0 then continue else Some (parent_path, child_index - 1)
                 else Some (parent_path, child_index)
               else continue
           | Some (Pane _) \<Rightarrow> continue)"
  by pat_completeness auto
termination
  by (relation "measure (\<lambda>(t, p, d). length p)") auto

declare find_resize_handle_from.simps [simp del]

definition find_resize_handle ::
  "layout_tree \<Rightarrow> usize \<Rightarrow> layout_direction \<Rightarrow> (usize list \<times> usize) option" where
  "find_resize_handle t leaf_index d =
     (case list_get (leaf_paths t) leaf_index of
        None \<Rightarrow> None
      | Some path \<Rightarrow> find_resize_handle_from t path d)"

definition resize_leaf_by :: "layout_tree \<Rightarrow> usize \<Rightarrow> layout_direction \<Rightarrow> i32 \<Rightarrow> layout_tree \<times> bool" where
  "resize_leaf_by t leaf_index d change =
     (case find_resize_handle t leaf_index d of
        None \<Rightarrow> (t, False)
      | Some (parent_path, handle_index) \<Rightarrow> resize_layout t parent_path handle_index d change True)"

definition pane_leaf :: "layout_tree \<Rightarrow> usize \<Rightarrow> usize option" where
  "pane_leaf t pane_position =
     (case lt_leaf_map t of None \<Rightarrow> Some pane_position | Some m \<Rightarrow> list_get m pane_position)"

definition tree_resize_pane_to ::
  "layout_tree \<Rightarrow> usize \<Rightarrow> layout_direction \<Rightarrow> u32 \<Rightarrow> layout_tree \<times> bool" where
  "tree_resize_pane_to t pane_position d new_size =
     (case pane_leaf t pane_position of
        None \<Rightarrow> (t, False)
      | Some leaf_index \<Rightarrow> resize_leaf_to t leaf_index d new_size)"

definition tree_resize_pane_by ::
  "layout_tree \<Rightarrow> usize \<Rightarrow> layout_direction \<Rightarrow> i32 \<Rightarrow> layout_tree \<times> bool" where
  "tree_resize_pane_by t pane_position d change =
     (if change = 0 then (t, True)
      else case pane_leaf t pane_position of
        None \<Rightarrow> (t, False)
      | Some leaf_index \<Rightarrow> resize_leaf_by t leaf_index d change)"

end
