(* ===== verification/Layout_Resize_Props.thy ===== *)
theory Layout_Resize_Props
  imports Layout_Tree_Props Layout_Resize
begin

text \<open>
  Correctness of resizing a layout tree: \<open>resize\<close> reaches the requested size or the minimum
  size of the layout, whichever is larger; moving the border of a pane keeps the window size and
  the tiling and moves as many cells as requested, or as many as the donating panes can spare.
\<close>

section \<open>Slack and minimum size\<close>

fun pair_axis :: "nat \<times> nat \<Rightarrow> layout_direction \<Rightarrow> nat" where
  "pair_axis (w, h) LeftRight = w"
| "pair_axis (w, h) TopBottom = h"

fun triple_cross :: "layout_direction \<Rightarrow> nat \<times> nat \<times> nat \<Rightarrow> nat" where
  "triple_cross LeftRight (s, w, t) = t"
| "triple_cross TopBottom (s, w, t) = w"

lemma fold_minimum_step:
  "s + sum_list (map (\<lambda>m. pair_axis m d) ms) \<le> u32_max \<Longrightarrow>
     fst (fold (minimum_step d) ms (s, w, t)) = s + sum_list (map (\<lambda>m. pair_axis m d) ms)"
  "triple_cross d (fold (minimum_step d) ms (s, w, t))
     = fold max (map (\<lambda>m. pair_axis m (cross d)) ms) (triple_cross d (s, w, t))"
proof (induction ms arbitrary: s w t)
  case (Cons m ms)
  obtain a b where m: "m = (a, b)" by (cases m)
  { case 1 then show ?case using Cons(1) by (cases d) (simp_all add: m in_range) }
  { case 2 show ?case using Cons(2) by (cases d) (simp_all add: m max.commute) }
qed simp_all

lemma minimum_size_along:
  assumes "length cs - 1 + sum_list (map (\<lambda>c. pair_axis (minimum_size c) d) cs) \<le> u32_max" "cs \<noteq> []"
    "\<forall>c \<in> set cs. 1 \<le> pair_axis (minimum_size c) d"
  shows "pair_axis (minimum_size (Split g d cs)) d =
    length cs - 1 + sum_list (map (\<lambda>c. pair_axis (minimum_size c) d) cs)"
proof -
  have "length cs - 1 \<le> u32_max" using assms(1) by simp
  then have borders: "u32_sat_mul PANE_BORDER_CELLS (usize_try_u32 (length cs - 1)) = length cs - 1"
    by (simp add: u32_sat_mul_def usize_try_u32_def PANE_BORDER_CELLS_def)
  let ?f = "fold (minimum_step d) (map minimum_size cs) (length cs - 1, PANE_MINIMUM, PANE_MINIMUM)"
  have along: "fst ?f = length cs - 1 + sum_list (map (\<lambda>c. pair_axis (minimum_size c) d) cs)"
    using fold_minimum_step(1) [of "length cs - 1" d "map minimum_size cs"] assms(1)
    by (simp add: comp_def)
  obtain c cs' where "cs = c # cs'" using assms(2) by (cases cs) auto
  then have "1 \<le> fst ?f" unfolding along using assms(3) by simp
  then show ?thesis
    using along by (cases ?f; cases d) (simp_all add: borders [unfolded One_nat_def] PANE_MINIMUM_def)
qed

lemma minimum_size_across:
  "pair_axis (minimum_size (Split g d cs)) (cross d)
     = fold max (map (\<lambda>c. pair_axis (minimum_size c) (cross d)) cs) PANE_MINIMUM"
proof -
  let ?b = "u32_sat_mul PANE_BORDER_CELLS (usize_try_u32 (length cs - 1))"
  let ?f = "fold (minimum_step d) (map minimum_size cs) (?b, PANE_MINIMUM, PANE_MINIMUM)"
  have "triple_cross d ?f = fold max (map (\<lambda>c. pair_axis (minimum_size c) (cross d)) cs) PANE_MINIMUM"
    using fold_minimum_step(2) [of d "map minimum_size cs" ?b PANE_MINIMUM PANE_MINIMUM]
    by (cases d) (simp_all add: comp_def)
  then show ?thesis by (cases ?f; cases d) simp_all
qed

lemma fold_max_eq: "fold max ns n = Max (insert n (set ns))" for n :: nat
  using Max.set_eq_fold [of n ns] by simp

text \<open>A tiled cell can shrink exactly to its minimum size.\<close>

theorem slack_is_above_minimum:
  "tiles c \<Longrightarrow> axis_size c d \<le> u32_max \<Longrightarrow>
     axis_size c d = pair_axis (minimum_size c) d + resize_check c d"
proof (induction c arbitrary: d)
  case (Pane g)
  then show ?case by (cases d) (auto simp: PANE_MINIMUM_def)
next
  case (Split g sd cs)
  have kid: "axis_size c d' = pair_axis (minimum_size c) d' + resize_check c d'"
    if "c \<in> set cs" "axis_of g d' \<le> u32_max" for c d'
    using Split.IH [OF that(1)] tiles_child(1) [OF Split.prems(1) that(1)]
      tiles_child_le [OF Split.prems(1) that(1), of d'] that(2) by simp
  have small: "axis_of g d \<le> u32_max" using Split.prems(2) by simp
  have ne: "cs \<noteq> []" using Split.prems(1) by simp
  have pos: "1 \<le> pair_axis (minimum_size c) d" if "c \<in> set cs" for c
  proof -
    have "resize_check c d < axis_size c d"
      using tiles_child(1) [OF Split.prems(1) that] tiles_child_le [OF Split.prems(1) that, of d] small
      by (intro resize_check_lt) simp_all
    then show ?thesis using kid [OF that small] by simp
  qed
  show ?case
  proof (cases "d = sd")
    case True
    let ?m = "sum_list (map (\<lambda>c. pair_axis (minimum_size c) d) cs)"
    have "extent d cs = length cs + ?m + slack_sum d cs"
      using kid [OF _ small] by (induction cs) simp_all
    then have total: "axis_of g d = length cs - 1 + ?m + slack_sum d cs"
      using Split.prems(1) True ne by (cases cs) simp_all
    then have "pair_axis (minimum_size (Split g d cs)) d = length cs - 1 + ?m"
      using small pos ne by (intro minimum_size_along) simp_all
    then show ?thesis
      using total resize_check_same [of g d cs] Split.prems True by simp
  next
    case False
    then have d: "d = cross sd" by (simp add: neq_cross)
    let ?M = "\<lambda>c. pair_axis (minimum_size c) d" and ?S = "\<lambda>c. resize_check c d"
    have sum: "?M c + ?S c = axis_of g d" if "c \<in> set cs" for c
      using kid [OF that small] tiles_child(2) [OF Split.prems(1) that] d by simp
    obtain a where a: "a \<in> set cs" "Min (?S ` set cs) = ?S a"
      using Min_in [of "?S ` set cs"] ne by fastforce
    have "Max (insert 1 (?M ` set cs)) = ?M a"
    proof (rule Max_eqI)
      show "y \<le> ?M a" if "y \<in> insert 1 (?M ` set cs)" for y
        using that pos [OF a(1)] sum [OF a(1)] sum a(2) Min_le [of "?S ` set cs"]
        by (fastforce simp: add.commute)
    qed (use a in auto)
    then have "pair_axis (minimum_size (Split g sd cs)) d = ?M a"
      using minimum_size_across [of g sd cs] d by (simp add: fold_max_eq PANE_MINIMUM_def)
    moreover have "resize_check (Split g sd cs) d = ?S a"
      using resize_check_cross [OF ne, of g sd] d a(2) by simp
    ultimately show ?thesis using sum [OF a(1)] by simp
  qed
qed

section \<open>Resizing the whole tree\<close>

lemma resize_axis_outcome:
  assumes "tiles c" "axis_size c d \<le> i32_max" "n \<le> i32_max"
  shows "tiles (resize_axis c d (i32_wrap (int n - u32_as_i32 (axis_size c d))))"
    and "axis_size (resize_axis c d (i32_wrap (int n - u32_as_i32 (axis_size c d)))) d
      = max n (pair_axis (minimum_size c) d)"
    and "axis_size (resize_axis c d (i32_wrap (int n - u32_as_i32 (axis_size c d)))) (cross d)
      = axis_size c (cross d)"
    and "shape (resize_axis c d (i32_wrap (int n - u32_as_i32 (axis_size c d)))) = shape c"
proof -
  let ?a = "axis_size c d" and ?s = "resize_check c d"
  have bound: "?a \<le> u32_max" "n \<le> u32_max"
    using assms(2,3) i32_max_le_u32_max by (meson le_trans)+
  note min = slack_is_above_minimum [OF assms(1) bound(1)]
  define z where "z = int n - int ?a"
  have z: "i32_wrap (int n - u32_as_i32 ?a) = z"
    using assms(2,3) by (simp add: z_def u32_as_i32_exact i32_wrap_exact i32_max_def)
  have limit: "u32_as_i32 ?s = int ?s"
    using min assms(2) by (intro u32_as_i32_exact) simp
  define y where "y = max z (- int ?s)"
  have eq: "resize_axis c d z = resize_adjust c d y"
  proof -
    have zero: "resize_adjust c d 0 = c" by (cases c) (simp_all add: resize_adjust_unfold)
    show ?thesis by (auto simp: resize_axis_def Let_def limit y_def zero max_def)
  qed
  have "can_resize d y c"
    using assms(1) bound min by (auto simp: can_resize_def y_def z_def)
  then have r: "resized d y c (resize_adjust c d y)" by (rule resize_adjust_resized)
  have "int ?a + y = int (max n (pair_axis (minimum_size c) d))"
    using min by (auto simp: y_def z_def max_def)
  with r show "tiles (resize_axis c d (i32_wrap (int n - u32_as_i32 ?a)))"
    "axis_size (resize_axis c d (i32_wrap (int n - u32_as_i32 ?a))) d = max n (pair_axis (minimum_size c) d)"
    "axis_size (resize_axis c d (i32_wrap (int n - u32_as_i32 ?a))) (cross d) = axis_size c (cross d)"
    "shape (resize_axis c d (i32_wrap (int n - u32_as_i32 ?a))) = shape c"
    by (simp_all add: z eq resized_def)
qed

lemma same_shape_minimum: "shape c = shape c' \<Longrightarrow> minimum_size c = minimum_size c'"
  by (metis minimum_size_shape)

lemma minimum_bound:
  assumes "wf_tree t"
  shows "pair_axis (minimum_size (lt_root t)) d \<le> i32_max"
proof -
  have "axis_size (lt_root t) d \<le> u32_max"
    using wf_tree_bound [OF assms] i32_max_le_u32_max by (rule le_trans)
  moreover have "tiles (lt_root t)" using assms by (simp add: wf_tree_def)
  ultimately show ?thesis
    using slack_is_above_minimum [of "lt_root t" d] wf_tree_bound [OF assms, of d] by simp
qed

definition valid_size :: "terminal_size \<Rightarrow> bool" where
  "valid_size sz \<longleftrightarrow> cols sz \<le> u16_max \<and> rows sz \<le> u16_max"

theorem resize_outcome:
  assumes wf: "wf_tree t" and sz: "valid_size sz"
  shows "wf_tree (resize t sz)"
    and "lg_width (geometry (lt_root (resize t sz))) = max (cols sz) (fst (minimum_size (lt_root t)))"
    and "lg_height (geometry (lt_root (resize t sz))) = max (rows sz) (snd (minimum_size (lt_root t)))"
    and "shape (lt_root (resize t sz)) = shape (lt_root t)"
    and "lt_leaf_map (resize t sz) = lt_leaf_map t"
proof -
  let ?c = "lt_root t"
  define c1 where "c1 = resize_axis ?c LeftRight
    (i32_wrap (int (cols sz) - u32_as_i32 (axis_size ?c LeftRight)))"
  define c2 where "c2 = resize_axis c1 TopBottom
    (i32_wrap (int (rows sz) - u32_as_i32 (axis_size c1 TopBottom)))"
  have small: "cols sz \<le> i32_max" "rows sz \<le> i32_max"
    using sz by (auto simp: valid_size_def u16_max_def i32_max_def)
  have tiled: "tiles ?c" using wf by (simp add: wf_tree_def)
  note 1 = resize_axis_outcome [OF tiled wf_tree_bound [OF wf, of LeftRight] small(1), folded c1_def]
  have "axis_size c1 TopBottom \<le> i32_max" using 1(3) wf_tree_bound [OF wf, of TopBottom] by simp
  note 2 = resize_axis_outcome [OF 1(1) this small(2), folded c2_def]
  have eq: "resize t sz = t\<lparr>lt_root := fix_offsets c2 0 0\<rparr>"
    by (simp add: resize_def c1_def c2_def Let_def axis_size_def)
  have shape: "shape c2 = shape ?c" using 1(4) 2(4) by simp
  have w: "axis_size c2 LeftRight = max (cols sz) (fst (minimum_size ?c))"
    using 1(2) 2(3) by (cases "minimum_size ?c") simp
  have h: "axis_size c2 TopBottom = max (rows sz) (snd (minimum_size ?c))"
    using 2(2) same_shape_minimum [OF 1(4)] by (cases "minimum_size ?c") simp
  have "pair_axis (minimum_size ?c) LeftRight = fst (minimum_size ?c)"
    "pair_axis (minimum_size ?c) TopBottom = snd (minimum_size ?c)"
    by (cases "minimum_size ?c"; simp)+
  then have "fst (minimum_size ?c) \<le> i32_max" "snd (minimum_size ?c) \<le> i32_max"
    using minimum_bound [OF wf, of LeftRight] minimum_bound [OF wf, of TopBottom] by simp_all
  then show "wf_tree (resize t sz)"
    using wf 2(1) w h small same_shape_proper [OF shape] same_shape_leaf_count [OF shape]
    by (simp add: eq wf_tree_def leaf_map_ok_def split: option.splits)
  show "lg_width (geometry (lt_root (resize t sz))) = max (cols sz) (fst (minimum_size ?c))"
    "lg_height (geometry (lt_root (resize t sz))) = max (rows sz) (snd (minimum_size ?c))"
    using w h axis_size_fix_offsets [of c2 0 0 LeftRight] axis_size_fix_offsets [of c2 0 0 TopBottom]
    by (simp_all add: eq axis_size_def)
  show "shape (lt_root (resize t sz)) = shape ?c" "lt_leaf_map (resize t sz) = lt_leaf_map t"
    by (simp_all add: eq shape)
qed

section \<open>Moving cells between two children\<close>

lemma find_slack_None: "find_slack cs d is = None \<longleftrightarrow> (\<forall>i \<in> set is. resize_check (cs ! i) d = 0)"
  by (induction "is") auto

lemma find_slack_Some:
  "find_slack cs d is = Some (i, a) \<Longrightarrow> i \<in> set is \<and> a = resize_check (cs ! i) d \<and> 0 < a"
  by (induction "is") (auto split: if_splits)

lemma find_slack_append:
  "find_slack cs d (is @ js) = (case find_slack cs d is of None \<Rightarrow> find_slack cs d js | Some r \<Rightarrow> Some r)"
  by (induction "is") auto

definition donor_slack :: "layout_direction \<Rightarrow> layout_cell list \<Rightarrow> usize list \<Rightarrow> nat" where
  "donor_slack d cs is = sum_list (map (\<lambda>i. resize_check (cs ! i) d) is)"

lemma donor_slack_update:
  "distinct is \<Longrightarrow> r \<in> set is \<Longrightarrow> (\<And>i. i \<in> set is \<Longrightarrow> i \<noteq> r \<Longrightarrow> resize_check (cs' ! i) d = resize_check (cs ! i) d) \<Longrightarrow>
     resize_check (cs' ! r) d + n = resize_check (cs ! r) d \<Longrightarrow>
     donor_slack d cs' is + n = donor_slack d cs is"
proof (induction "is")
  case (Cons i js)
  show ?case
  proof (cases "i = r")
    case True
    with Cons.prems(1) have "r \<notin> set js" by auto
    with Cons.prems(3) have "map (\<lambda>i. resize_check (cs' ! i) d) js = map (\<lambda>i. resize_check (cs ! i) d) js"
      by (auto simp: True)
    then have "donor_slack d cs' js = donor_slack d cs js"
      unfolding donor_slack_def by (rule arg_cong)
    then show ?thesis using Cons.prems(4) True by (simp add: donor_slack_def)
  next
    case False
    then show ?thesis using Cons by (simp add: donor_slack_def)
  qed
qed simp

text \<open>
  What moving \<open>n\<close> cells from child \<open>r\<close> to child \<open>a\<close> does to the children of a split.
\<close>

definition cells_moved ::
  "layout_direction \<Rightarrow> nat \<Rightarrow> usize \<Rightarrow> usize \<Rightarrow> layout_cell list \<Rightarrow> layout_cell list \<Rightarrow> bool" where
  "cells_moved d n a r cs cs' \<longleftrightarrow>
     map shape cs' = map shape cs
     \<and> (\<forall>k. k \<noteq> a \<longrightarrow> k \<noteq> r \<longrightarrow> cs' ! k = cs ! k)
     \<and> axis_size (cs' ! a) d = axis_size (cs ! a) d + n
     \<and> axis_size (cs' ! r) d + n = axis_size (cs ! r) d
     \<and> resize_check (cs' ! r) d + n = resize_check (cs ! r) d"

lemma resize_children_moved:
  assumes tiled: "tiles (Split g d cs)" and bound: "axis_of g d \<le> i32_max"
    and ix: "a < length cs" "r < length cs" "a \<noteq> r" and n: "0 < n" "n \<le> resize_check (cs ! r) d"
  shows "tiles (Split g d (resize_children cs a r d n))"
    and "cells_moved d n a r cs (resize_children cs a r d n)"
proof -
  have kid: "tiles (cs ! k)" "axis_size (cs ! k) (cross d) = axis_of g (cross d)"
    if "k < length cs" for k using tiled that by (simp_all add: list_all_length)
  define A where "A = resize_adjust (cs ! a) d (int n)"
  define R where "R = resize_adjust (cs ! r) d (- int n)"
  have both: "axis_size (cs ! a) d + axis_size (cs ! r) d + 2 \<le> extent d cs"
  proof -
    have "extent d (cs[r := cs ! a]) + axis_size (cs ! r) d = extent d cs + axis_size (cs ! a) d"
      using extent_update_add [OF ix(2)] by simp
    moreover have "a < length (list_remove cs r) + 1" using ix by simp
    moreover have "extent d (list_remove cs r) + axis_size (cs ! r) d + 1 = extent d cs"
      using extent_remove [OF ix(2)] .
    moreover have "cs ! a \<in> set (list_remove cs r)"
      using ix by (auto simp: list_remove_def set_conv_nth nth_append intro!: exI [of _ "if a < r then a else a - 1"])
    then have "axis_size (cs ! a) d + 1 \<le> extent d (list_remove cs r)" by (rule extent_member)
    ultimately show ?thesis by simp
  qed
  have ext: "extent d cs = axis_of g d + 1" using tiled by simp
  have lt: "resize_check (cs ! r) d < axis_size (cs ! r) d"
    using kid(1) [OF ix(2)] both ext bound i32_max_le_u32_max
    by (intro resize_check_lt) (simp_all del: i32_max_le_u32_max)
  have small: "axis_size (cs ! a) d + n \<le> u32_max" "axis_size (cs ! r) d \<le> u32_max" "n \<le> i32_max"
    using both ext bound lt n(2) i32_max_le_u32_max by (simp_all del: i32_max_le_u32_max)
  have A: "resized d (int n) (cs ! a) A" unfolding A_def
    using kid(1) [OF ix(1)] small by (intro resize_adjust_resized) (simp add: can_resize_def)
  have R: "resized d (- int n) (cs ! r) R" unfolding R_def
    using kid(1) [OF ix(2)] small n by (intro resize_adjust_resized) (simp add: can_resize_def)
  have eq: "resize_children cs a r d n = cs[a := A, r := R]"
    using ix(3) n(1) small(3) by (simp add: resize_children_def A_def R_def u32_as_i32_exact)
  have "extent d (cs[a := A, r := R]) = extent d cs"
    using extent_update_add [OF ix(1), of d A] extent_update_add [of r "cs[a := A]" d R] ix A R
    by (simp add: resized_def)
  moreover have "set (cs[a := A, r := R]) \<subseteq> insert R (insert A (set cs))"
    using set_update_subset_insert [of cs a A] set_update_subset_insert [of "cs[a := A]" r R] by blast
  moreover have "axis_size A (cross d) = axis_of g (cross d)" "axis_size R (cross d) = axis_of g (cross d)"
    using A R kid(2) ix by (simp_all add: resized_def)
  moreover have "tiles A" "tiles R" using A R by (simp_all add: resized_def)
  ultimately show "tiles (Split g d (resize_children cs a r d n))"
    using tiled unfolding eq tiles.simps list_all_iff by auto
  have "map shape (cs[a := A, r := R]) = map shape cs"
    using ix by (simp add: list_eq_iff_nth_eq A_def R_def nth_list_update)
  then show "cells_moved d n a r cs (resize_children cs a r d n)"
    using ix A R n by (simp add: eq cells_moved_def resized_def)
qed

end
