(* ===== verification/Layout_Border.thy ===== *)
theory Layout_Border
  imports Layout_Resize_Props
begin

text \<open>
  Moving the border next to a pane (\<open>resize_layout\<close> of \<open>layout/resize.rs\<close>): the loop
  moves cells to one child from the children that can spare them, nearest first, until it has moved
  what was asked for or nothing is left to take. The split keeps its size and stays tiled.
\<close>

section \<open>Writing back at a path\<close>

lemma cell_at_path_write:
  "cell_at_path c p = Some old \<Longrightarrow> cell_at_path (write_at_path c p new) p = Some new"
  by (induction c p new rule: write_at_path.induct) (auto split: option.splits)

lemma write_at_path_twice:
  "write_at_path (write_at_path c p new) p new' = write_at_path c p new'"
  by (induction c p new rule: write_at_path.induct) (auto split: option.splits)

lemma shape_write:
  "cell_at_path c p = Some old \<Longrightarrow> shape new = shape old \<Longrightarrow> shape (write_at_path c p new) = shape c"
proof (induction c p new rule: write_at_path.induct)
  case (3 g d cs i p new)
  then have "i < length cs" "shape (write_at_path (cs ! i) p new) = shape (cs ! i)"
    by (auto split: option.splits)
  then show ?case by (simp add: map_update list_update_same_conv)
qed simp_all

lemma find_slack_hd:
  "find_slack cs d is = Some (r, a) \<Longrightarrow> resize_check (cs ! hd is) d = 0 \<or> r = hd is"
  by (cases "is") (auto split: if_splits)

section \<open>One step\<close>

text \<open>The child that grows, and the children that give cells in the order they are asked.\<close>

definition border_receiver :: "usize \<Rightarrow> i32 \<Rightarrow> usize" where
  "border_receiver i change = (if change > 0 then i else i + 1)"

definition border_donors :: "usize \<Rightarrow> usize \<Rightarrow> i32 \<Rightarrow> usize list" where
  "border_donors i n change =
     (if change > 0 then [i + 1..<n] @ rev [0..<i] else rev [0..<i + 1])"

lemma border_donors:
  assumes "border_receiver i change < n"
  shows "distinct (border_donors i n change)" "set (border_donors i n change) \<subseteq> {..<n}"
    "border_receiver i change \<notin> set (border_donors i n change)"
  using assms by (auto simp: border_donors_def border_receiver_def)

lemma i32_as_u32_abs: "0 \<le> z \<Longrightarrow> z \<le> int i32_max \<Longrightarrow> i32_as_u32 z = nat z"
  by (simp add: i32_as_u32_def machine_defs)

lemma resize_step_eq:
  assumes "cell_at_path root p = Some (Split g d cs)" "border_receiver i change < length cs"
    and "if change > 0 then 0 \<le> needed else needed \<le> 0" "\<bar>needed\<bar> \<le> int i32_max"
  shows "resize_step root p i d change needed True =
    (case find_slack cs d (border_donors i (length cs) change) of
       None \<Rightarrow> (root, 0)
     | Some (r, a) \<Rightarrow>
         (write_at_path root p (Split g d (resize_children cs (border_receiver i change) r d
            (min a (nat \<bar>needed\<bar>)))), min a (nat \<bar>needed\<bar>)))"
proof (cases "change > 0")
  case True
  with assms show ?thesis
    by (auto simp: resize_step_def resize_pane_grow_def Let_def border_receiver_def border_donors_def
        find_slack_append i32_as_u32_abs split: option.splits)
next
  case False
  with assms show ?thesis
    by (auto simp: resize_step_def resize_pane_shrink_def Let_def border_receiver_def border_donors_def
        i32_as_u32_abs simp del: upt_Suc split: option.splits)
qed

section \<open>The loop\<close>

text \<open>The children \<open>cs'\<close> are \<open>cs\<close> with \<open>n\<close> cells moved to child \<open>a\<close> from the children \<open>is\<close>.\<close>

definition border_moved ::
  "layout_direction \<Rightarrow> nat \<Rightarrow> usize \<Rightarrow> usize list \<Rightarrow> layout_cell list \<Rightarrow> layout_cell list \<Rightarrow> bool" where
  "border_moved d n a is cs cs' \<longleftrightarrow>
     map shape cs' = map shape cs
     \<and> axis_size (cs' ! a) d = axis_size (cs ! a) d + n
     \<and> (\<forall>k \<in> set is. axis_size (cs' ! k) d \<le> axis_size (cs ! k) d)
     \<and> (\<forall>k. k \<noteq> a \<longrightarrow> k \<notin> set is \<longrightarrow> cs' ! k = cs ! k)
     \<and> donor_slack d cs' is + n = donor_slack d cs is
     \<and> (n = 0 \<longrightarrow> cs' = cs)
     \<and> axis_size (cs' ! hd is) d + min n (resize_check (cs ! hd is) d) = axis_size (cs ! hd is) d"

lemma cells_moved_slack:
  assumes "cells_moved d n a r cs cs'" "r \<in> set is" "a \<notin> set is" "distinct is"
  shows "donor_slack d cs' is + n = donor_slack d cs is"
proof (rule donor_slack_update [OF assms(4,2)])
  fix k assume "k \<in> set is" "k \<noteq> r"
  then have "cs' ! k = cs ! k" using assms(1,3) by (auto simp: cells_moved_def)
  then show "resize_check (cs' ! k) d = resize_check (cs ! k) d" by simp
qed (use assms(1) in \<open>simp add: cells_moved_def\<close>)

lemma border_moved_step:
  assumes "cells_moved d n a r cs cs'" "r \<in> set is" "a \<notin> set is" "distinct is"
    and "border_moved d m a is cs' cs''" "0 < n" "resize_check (cs ! hd is) d = 0 \<or> r = hd is"
  shows "border_moved d (n + m) a is cs cs''"
proof -
  have "donor_slack d cs' is + n = donor_slack d cs is"
    using assms(1-4) by (rule cells_moved_slack)
  moreover have "axis_size (cs'' ! k) d \<le> axis_size (cs ! k) d" if "k \<in> set is" for k
  proof -
    have "axis_size (cs' ! k) d \<le> axis_size (cs ! k) d"
      using that assms(1,3) by (cases "k = r") (auto simp: cells_moved_def)
    with assms(5) that show ?thesis unfolding border_moved_def by (meson le_trans)
  qed
  moreover have "cs'' ! k = cs ! k" if "k \<noteq> a" "k \<notin> set is" for k
  proof -
    have "cs'' ! k = cs' ! k" using assms(5) that by (simp add: border_moved_def)
    moreover have "k \<noteq> r" using that assms(2) by auto
    with assms(1) that have "cs' ! k = cs ! k" by (simp add: cells_moved_def)
    ultimately show ?thesis by simp
  qed
  moreover have "axis_size (cs'' ! hd is) d + min (n + m) (resize_check (cs ! hd is) d) = axis_size (cs ! hd is) d"
  proof (cases "r = hd is")
    case True
    then have "axis_size (cs' ! hd is) d + n = axis_size (cs ! hd is) d"
      "resize_check (cs' ! hd is) d + n = resize_check (cs ! hd is) d"
      using assms(1) by (simp_all add: cells_moved_def)
    moreover have "axis_size (cs'' ! hd is) d + min m (resize_check (cs' ! hd is) d) = axis_size (cs' ! hd is) d"
      using assms(5) by (simp add: border_moved_def)
    ultimately show ?thesis by linarith
  next
    case False
    have "hd is \<in> set is" using assms(2) by (cases "is") auto
    then have "hd is \<noteq> a" using assms(3) by blast
    then have "cs' ! hd is = cs ! hd is" using assms(1) False by (simp add: cells_moved_def)
    moreover have "axis_size (cs'' ! hd is) d + min m (resize_check (cs' ! hd is) d) = axis_size (cs' ! hd is) d"
      using assms(5) by (simp add: border_moved_def)
    ultimately show ?thesis using False assms(7) by simp
  qed
  ultimately show ?thesis using assms(1,5,6) by (simp add: border_moved_def cells_moved_def)
qed

lemma border_moved_refl: "border_moved d 0 a is cs cs"
  by (simp add: border_moved_def)

text \<open>One turn of the loop that finds a child with slack.\<close>

lemma resize_loop_turn:
  assumes cell: "cell_at_path root p = Some (Split g d cs)" "tiles (Split g d cs)" "axis_of g d \<le> i32_max"
    and ix: "border_receiver i change < length cs"
    and needed: "needed \<noteq> 0" "(needed > 0) = (change > 0)" "\<bar>needed\<bar> \<le> int i32_max"
    and fs: "find_slack cs d (border_donors i (length cs) change) = Some (r, a)"
  defines "k \<equiv> min a (nat \<bar>needed\<bar>)"
  defines "needed' \<equiv> if change > 0 then needed - int k else needed + int k"
  obtains cs' where "resize_loop root p i d change needed True changed
      = resize_loop (write_at_path root p (Split g d cs')) p i d change needed' True True"
    "0 < k" "nat \<bar>needed'\<bar> = nat \<bar>needed\<bar> - k" "k \<le> nat \<bar>needed\<bar>"
    "needed' = 0 \<or> (needed' > 0) = (change > 0)"
    "tiles (Split g d cs')" "cells_moved d k (border_receiver i change) r cs cs'"
proof
  let ?a = "border_receiver i change"
  let ?cs' = "resize_children cs ?a r d k"
  have sign: "if change > 0 then 0 \<le> needed else needed \<le> 0" using needed by auto
  have r: "r \<in> set (border_donors i (length cs) change)" "a = resize_check (cs ! r) d" "0 < a"
    using find_slack_Some [OF fs] by blast+
  show k: "0 < k" using r needed(1) by (simp add: k_def)
  have "k \<le> resize_check (cs ! r) d" "r < length cs" "?a \<noteq> r"
    using r border_donors [OF ix] by (auto simp: k_def)
  then show "tiles (Split g d ?cs')" "cells_moved d k ?a r cs ?cs'"
    using resize_children_moved [OF cell(2,3) ix, of r k] k by blast+
  show "nat \<bar>needed'\<bar> = nat \<bar>needed\<bar> - k" "k \<le> nat \<bar>needed\<bar>"
    "needed' = 0 \<or> (needed' > 0) = (change > 0)"
    using needed sign by (auto simp: needed'_def k_def)
  show "resize_loop root p i d change needed True changed
      = resize_loop (write_at_path root p (Split g d ?cs')) p i d change needed' True True"
    using needed k resize_step_eq [OF cell(1) ix sign needed(3)] fs
    by (subst resize_loop.simps) (simp add: k_def [symmetric] needed'_def)
qed

lemma resize_loop_moves:
  assumes "cell_at_path root p = Some (Split g d cs)" "tiles (Split g d cs)" "axis_of g d \<le> i32_max"
    and "border_receiver i change < length cs"
    and "needed = 0 \<or> (needed > 0) = (change > 0)" "\<bar>needed\<bar> \<le> int i32_max"
  defines "is \<equiv> border_donors i (length cs) change"
  defines "n \<equiv> min (nat \<bar>needed\<bar>) (donor_slack d cs is)"
  shows "\<exists>cs'. resize_loop root p i d change needed True changed
       = (write_at_path root p (Split g d cs'), changed \<or> 0 < n)
     \<and> tiles (Split g d cs') \<and> border_moved d n (border_receiver i change) is cs cs'"
  using assms(1-6) unfolding n_def is_def
proof (induction "nat \<bar>needed\<bar>" arbitrary: root cs needed changed rule: less_induct)
  case less
  let ?a = "border_receiver i change" and ?is = "border_donors i (length cs) change"
  let ?n = "min (nat \<bar>needed\<bar>) (donor_slack d cs ?is)"
  note donors = border_donors [OF less.prems(4)]
  have stop: ?case if "resize_loop root p i d change needed True changed = (root, changed)" "?n = 0"
    using that less.prems(2) write_at_path_id [OF less.prems(1)] border_moved_refl
    by (metis less_numeral_extra(3))
  consider "needed = 0" | "needed \<noteq> 0" "find_slack cs d ?is = None"
    | r a where "needed \<noteq> 0" "find_slack cs d ?is = Some (r, a)" by fastforce
  then show ?case
  proof cases
    case 1
    then show ?thesis by (intro stop) (simp_all add: resize_loop.simps)
  next
    case 2
    then have "donor_slack d cs ?is = 0" by (simp add: find_slack_None donor_slack_def)
    moreover have "resize_step root p i d change needed True = (root, 0)"
      using 2(2) less.prems(5) by (subst resize_step_eq [OF less.prems(1,4) _ less.prems(6)]) auto
    ultimately show ?thesis using 2(1) less.prems(5) by (intro stop) (simp_all add: resize_loop.simps)
  next
    case (3 r a)
    define k where "k = min a (nat \<bar>needed\<bar>)"
    define needed' where "needed' = (if change > 0 then needed - int k else needed + int k)"
    have sign: "(needed > 0) = (change > 0)" using less.prems(5) 3(1) by simp
    obtain cs1 where run: "resize_loop root p i d change needed True changed
        = resize_loop (write_at_path root p (Split g d cs1)) p i d change needed' True True"
      and k: "0 < k" "nat \<bar>needed'\<bar> = nat \<bar>needed\<bar> - k" "k \<le> nat \<bar>needed\<bar>"
        "needed' = 0 \<or> (needed' > 0) = (change > 0)"
      and moved: "tiles (Split g d cs1)" "cells_moved d k ?a r cs cs1"
      using resize_loop_turn [OF less.prems(1-4) 3(1) sign less.prems(6) 3(2), folded k_def, folded needed'_def]
      by metis
    have len: "length cs1 = length cs" using moved(2) by (metis cells_moved_def length_map)
    have r: "r \<in> set ?is" using find_slack_Some [OF 3(2)] by blast
    let ?m = "min (nat \<bar>needed'\<bar>) (donor_slack d cs1 ?is)"
    have small: "nat \<bar>needed'\<bar> < nat \<bar>needed\<bar>" "\<bar>needed'\<bar> \<le> int i32_max"
      using k less.prems(6) by linarith+
    obtain cs' where cs': "resize_loop (write_at_path root p (Split g d cs1)) p i d change needed' True True
        = (write_at_path root p (Split g d cs'), True)" "tiles (Split g d cs')"
      "border_moved d ?m ?a ?is cs1 cs'"
      using less.hyps [OF small(1) cell_at_path_write [OF less.prems(1)] moved(1) less.prems(3) _ k(4) small(2), of True]
        less.prems(4) len by (auto simp: write_at_path_twice)
    have total: "k + ?m = ?n"
      using cells_moved_slack [OF moved(2) r donors(3,1)] k(2,3) by linarith
    then have "border_moved d ?n ?a ?is cs cs'"
      using border_moved_step [OF moved(2) r donors(3,1) cs'(3) k(1) find_slack_hd [OF 3(2)]] by simp
    moreover have "0 < ?n" using total k(1) by linarith
    ultimately show ?thesis using run cs' by auto
  qed
qed

section \<open>The border of a tree\<close>

text \<open>
  The outcome of \<open>resize_layout\<close> on a split of a well-formed tree.
\<close>

theorem resize_layout_outcome:
  assumes wf: "wf_tree t" and cell: "cell_at_path (lt_root t) p = Some (Split g d cs)"
    and ix: "border_receiver i change < length cs" and change: "\<bar>change\<bar> \<le> int i32_max"
  defines "is \<equiv> border_donors i (length cs) change"
  defines "n \<equiv> min (nat \<bar>change\<bar>) (donor_slack d cs is)"
  obtains cs' where "resize_layout t p i d change True
       = (t\<lparr>lt_root := fix_offsets (write_at_path (lt_root t) p (Split g d cs')) 0 0\<rparr>, 0 < n)"
    "border_moved d n (border_receiver i change) is cs cs'"
    "wf_tree (fst (resize_layout t p i d change True))"
    "shape (lt_root (fst (resize_layout t p i d change True))) = shape (lt_root t)"
    "same_sizes (lt_root (fst (resize_layout t p i d change True))) (lt_root t)"
proof -
  have t: "tiles (lt_root t)" "proper (lt_root t)" "fix_offsets (lt_root t) 0 0 = lt_root t"
    using wf by (simp_all add: wf_tree_def)
  note sub = cell_at_path_tiles [OF cell t(1)]
  have "axis_of g d \<le> i32_max"
    using cell_at_path_size [OF cell t(1), of d] wf_tree_bound [OF wf, of d] by (simp add: axis_size_def)
  from resize_loop_moves [OF cell sub this ix _ change, of False, folded is_def, folded n_def]
  obtain cs' where cs': "resize_loop (lt_root t) p i d change change True False
      = (write_at_path (lt_root t) p (Split g d cs'), 0 < n)"
    "tiles (Split g d cs')" "border_moved d n (border_receiver i change) is cs cs'" by auto
  let ?c = "write_at_path (lt_root t) p (Split g d cs')"
  have "?c = lt_root t" if "n = 0"
    using that cs'(3) write_at_path_id [OF cell] by (simp add: border_moved_def)
  then have eq: "resize_layout t p i d change True = (t\<lparr>lt_root := fix_offsets ?c 0 0\<rparr>, 0 < n)"
    using cs'(1) t(3) by (cases "n = 0") (simp_all add: resize_layout_def)
  have kids: "shape (Split g d cs') = shape (Split g d cs)"
    using cs'(3) by (simp add: border_moved_def)
  then have shape: "shape ?c = shape (lt_root t)" by (rule shape_write [OF cell])
  have tc: "tiles ?c" "same_sizes ?c (lt_root t)"
    using write_at_path_tiles [OF cell t(1) cs'(2)] by (simp_all add: same_sizes_def axis_size_def)
  then have "wf_tree (t\<lparr>lt_root := fix_offsets ?c 0 0\<rparr>)"
    using wf same_shape_proper [OF shape] same_shape_leaf_count [OF shape] same_sizes_axis [OF tc(2)]
    by (simp add: wf_tree_def leaf_map_ok_def split: option.splits)
  then show ?thesis
    using that [OF eq cs'(3)] tc(2) by (simp add: eq shape same_sizes_def)
qed

end
