(* ===== verification/Layout_Border_Pane.thy ===== *)
theory Layout_Border_Pane
  imports Layout_Border
begin

text \<open>
  Resizing one pane (\<open>resize_pane_to\<close> and \<open>resize_pane_by\<close> of \<open>layout/resize.rs\<close>): the
  walk up from the pane finds the nearest split along the axis, and the border moves there.
\<close>

section \<open>The nearest split along an axis\<close>

fun enclosing :: "layout_direction \<Rightarrow> layout_cell \<Rightarrow> usize list \<Rightarrow> (usize list \<times> usize) option" where
  "enclosing d (Split g sd cs) (i # p) =
     (case enclosing d (cs ! i) p of
        Some (q, j) \<Rightarrow> Some (i # q, j)
      | None \<Rightarrow> if sd = d then Some ([], i) else None)"
| "enclosing d _ _ = None"

lemma cell_at_path_Pane [simp]: "cell_at_path (Pane g) p = Some c \<longleftrightarrow> p = [] \<and> c = Pane g"
  by (cases p) auto

lemma enclosing_Nil [simp]: "enclosing d c [] = None"
  by (cases c) simp_all

lemma enclosing_snoc:
  "cell_at_path c p = Some (Split g sd cs) \<Longrightarrow>
     enclosing d c (p @ [i]) = (if sd = d then Some (p, i) else enclosing d c p)"
  by (induction d c p rule: enclosing.induct) (auto split: option.splits)

lemma enclosing_cell:
  "enclosing d c p = Some (q, j) \<Longrightarrow> cell_at_path c p = Some c' \<Longrightarrow>
     \<exists>g cs. cell_at_path c q = Some (Split g d cs) \<and> j < length cs"
  by (induction d c p arbitrary: q rule: enclosing.induct) (auto split: option.splits if_splits)

lemma enclosing_None_size:
  "enclosing d c p = None \<Longrightarrow> cell_at_path c p = Some c' \<Longrightarrow> tiles c \<Longrightarrow> axis_size c' d = axis_size c d"
proof (induction d c p rule: enclosing.induct)
  case (1 d g sd cs i p)
  then have "sd = cross d" by (cases sd; cases d) (auto split: option.splits)
  with 1 show ?case by (auto simp: list_all_length axis_size_def split: option.splits)
qed auto

lemma enclosing_size:
  "enclosing d c p = Some (q, j) \<Longrightarrow> cell_at_path c p = Some c' \<Longrightarrow> tiles c \<Longrightarrow>
     cell_at_path c q = Some (Split g d cs) \<Longrightarrow> axis_size c' d = axis_size (cs ! j) d"
proof (induction d c p arbitrary: q rule: enclosing.induct)
  case (1 d g' sd ks i p)
  then have i: "i < length ks" "tiles (ks ! i)" "cell_at_path (ks ! i) p = Some c'"
    by (auto simp: list_all_length split: option.splits)
  show ?case
  proof (cases "enclosing d (ks ! i) p")
    case None
    then show ?thesis using 1 i enclosing_None_size by (auto split: if_splits)
  next
    case (Some r)
    then show ?thesis using 1 i by (cases r) auto
  qed
qed auto

lemma enclosing_shape:
  "shape c = shape c' \<Longrightarrow> cell_at_path c p = Some x \<Longrightarrow> enclosing d c' p = enclosing d c p"
proof (induction d c p arbitrary: c' rule: enclosing.induct)
  case (1 d g sd cs i p)
  then obtain g' cs' where c': "c' = Split g' sd cs'" "map shape cs' = map shape cs"
    by (cases c') auto
  have i: "i < length cs" "cell_at_path (cs ! i) p = Some x"
    using 1(3) by (auto split: option.splits)
  then have "shape (cs ! i) = shape (cs' ! i)"
    using c'(2) by (metis length_map nth_map)
  with 1(1) i(2) have "enclosing d (cs' ! i) p = enclosing d (cs ! i) p" by blast
  then show ?case by (simp add: c'(1))
qed auto

lemma cell_at_path_shape:
  "shape c = shape c' \<Longrightarrow> (cell_at_path c p = None) = (cell_at_path c' p = None)"
proof (induction c p arbitrary: c' rule: cell_at_path.induct)
  case (2 g i p)
  then show ?case by (cases c') auto
next
  case (3 g d cs i p)
  then obtain g' cs' where c': "c' = Split g' d cs'" "map shape cs' = map shape cs"
    by (cases c') auto
  then have len: "length cs' = length cs" by (metis length_map)
  show ?case
  proof (cases "i < length cs")
    case True
    then have "shape (cs ! i) = shape (cs' ! i)" using c'(2) len by (metis nth_map)
    with 3 True len c' show ?thesis by simp
  qed (use c' len in simp)
qed simp

section \<open>What the walk finds\<close>

lemma resize_leaf_to_from_enclosing:
  assumes "cell_at_path (lt_root t) p = Some c" "proper (lt_root t)"
  shows "resize_leaf_to_from t p d n =
    (case enclosing d (lt_root t) p of
       None \<Rightarrow> (t, False)
     | Some (q, j) \<Rightarrow>
         (case cell_at_path (lt_root t) q of
            Some (Split g pd cs) \<Rightarrow>
              let current = u32_as_i32 (axis_size (cs ! j) d)
              in if j + 1 = length cs
                 then resize_layout t q (j - 1) d (i32_wrap (current - clamp_i32 n)) True
                 else resize_layout t q j d (i32_wrap (clamp_i32 n - current)) True
          | _ \<Rightarrow> (t, False)))"
  using assms
proof (induction p arbitrary: c rule: rev_induct)
  case Nil
  then show ?case by (simp add: resize_leaf_to_from.simps)
next
  case (snoc i p)
  then obtain g sd cs where p: "cell_at_path (lt_root t) p = Some (Split g sd cs)" "i < length cs"
    by (auto simp: cell_at_path_snoc)
  have "2 \<le> length cs" using cell_at_path_proper [OF p(1) snoc.prems(2)] by simp
  then show ?case
    using p snoc.IH [OF p(1) snoc.prems(2)]
    by (subst resize_leaf_to_from.simps) (auto simp: enclosing_snoc [OF p(1)] Let_def)
qed

lemma find_resize_handle_from_enclosing:
  assumes "cell_at_path (lt_root t) p = Some c" "proper (lt_root t)"
  shows "find_resize_handle_from t p d =
    (case enclosing d (lt_root t) p of
       None \<Rightarrow> None
     | Some (q, j) \<Rightarrow>
         (case cell_at_path (lt_root t) q of
            Some (Split g pd cs) \<Rightarrow> Some (q, if j + 1 = length cs then j - 1 else j)
          | _ \<Rightarrow> None))"
  using assms
proof (induction p arbitrary: c rule: rev_induct)
  case Nil
  then show ?case by (simp add: find_resize_handle_from.simps)
next
  case (snoc i p)
  then obtain g sd cs where p: "cell_at_path (lt_root t) p = Some (Split g sd cs)" "i < length cs"
    by (auto simp: cell_at_path_snoc)
  have "2 \<le> length cs" using cell_at_path_proper [OF p(1) snoc.prems(2)] by simp
  then show ?case
    using p snoc.IH [OF p(1) snoc.prems(2)]
    by (subst find_resize_handle_from.simps) (auto simp: enclosing_snoc [OF p(1)] Let_def)
qed

section \<open>Resizing a pane to a size\<close>

definition sibling_slack :: "layout_direction \<Rightarrow> layout_cell list \<Rightarrow> usize \<Rightarrow> nat" where
  "sibling_slack d cs j = donor_slack d cs ([0..<j] @ [j + 1..<length cs])"

text \<open>
  The size a cell of size \<open>current\<close> ends up with when size \<open>n\<close> is asked for: at least
  \<open>current - own\<close>, at most \<open>current + others\<close>.
\<close>

definition reached_size :: "nat \<Rightarrow> nat \<Rightarrow> nat \<Rightarrow> nat \<Rightarrow> nat" where
  "reached_size current n own others =
     (if current \<le> n then min n (current + others) else max n (current - own))"

lemma donor_slack_simps [simp]:
  "donor_slack d cs (is @ js) = donor_slack d cs is + donor_slack d cs js"
  "donor_slack d cs (rev is) = donor_slack d cs is"
  "donor_slack d cs (i # is) = resize_check (cs ! i) d + donor_slack d cs is"
  "donor_slack d cs [] = 0"
  by (simp_all add: donor_slack_def rev_map [symmetric])

definition resize_child_to ::
  "layout_tree \<Rightarrow> usize list \<Rightarrow> usize \<Rightarrow> layout_direction \<Rightarrow> u32 \<Rightarrow> layout_cell list \<Rightarrow> layout_tree \<times> bool" where
  "resize_child_to t q j d n cs =
     (let current = u32_as_i32 (axis_size (cs ! j) d)
      in if j + 1 = length cs
         then resize_layout t q (j - 1) d (i32_wrap (current - clamp_i32 n)) True
         else resize_layout t q j d (i32_wrap (clamp_i32 n - current)) True)"

text \<open>The tree \<open>t'\<close> is \<open>t\<close> with the children of the split at \<open>q\<close> resized, child \<open>j\<close> to \<open>n\<close>.\<close>

definition child_resized_to ::
  "layout_tree \<Rightarrow> usize list \<Rightarrow> usize \<Rightarrow> layout_direction \<Rightarrow> nat \<Rightarrow> layout_tree \<Rightarrow> bool" where
  "child_resized_to t q j d n t' \<longleftrightarrow>
     wf_tree t' \<and> shape (lt_root t') = shape (lt_root t) \<and> same_sizes (lt_root t') (lt_root t)
     \<and> lt_leaf_map t' = lt_leaf_map t
     \<and> (\<exists>g cs. let c = write_at_path (lt_root t) q (Split g d cs)
          in lt_root t' = fix_offsets c 0 0 \<and> axis_size (cs ! j) d = n)"

lemma resize_layout_child:
  assumes "wf_tree t" "cell_at_path (lt_root t) p = Some (Split g d cs)"
    and "border_receiver i change < length cs" "\<bar>change\<bar> \<le> int i32_max"
    and "\<And>cs'. border_moved d (min (nat \<bar>change\<bar>) (donor_slack d cs (border_donors i (length cs) change)))
           (border_receiver i change) (border_donors i (length cs) change) cs cs' \<Longrightarrow>
           axis_size (cs' ! j) d = m"
  shows "child_resized_to t p j d m (fst (resize_layout t p i d change True))"
proof (rule resize_layout_outcome [OF assms(1-4)])
  fix cs'
  assume *: "resize_layout t p i d change True
      = (t\<lparr>lt_root := fix_offsets (write_at_path (lt_root t) p (Split g d cs')) 0 0\<rparr>,
         0 < min (nat \<bar>change\<bar>) (donor_slack d cs (border_donors i (length cs) change)))"
    and moved: "border_moved d (min (nat \<bar>change\<bar>) (donor_slack d cs (border_donors i (length cs) change)))
      (border_receiver i change) (border_donors i (length cs) change) cs cs'"
    and rest: "wf_tree (fst (resize_layout t p i d change True))"
      "shape (lt_root (fst (resize_layout t p i d change True))) = shape (lt_root t)"
      "same_sizes (lt_root (fst (resize_layout t p i d change True))) (lt_root t)"
  have "lt_root (fst (resize_layout t p i d change True))
      = fix_offsets (write_at_path (lt_root t) p (Split g d cs')) 0 0"
    "lt_leaf_map (fst (resize_layout t p i d change True)) = lt_leaf_map t"
    by (simp_all add: *)
  with rest assms(5) [OF moved] show ?thesis unfolding child_resized_to_def Let_def by blast
qed

lemma border_moved_receiver:
  "border_moved d (min k (donor_slack d cs is)) j is cs cs' \<Longrightarrow> donor_slack d cs is = sibling_slack d cs j \<Longrightarrow>
     axis_size (cs' ! j) d = reached_size (axis_size (cs ! j) d) (axis_size (cs ! j) d + k) own (sibling_slack d cs j)"
  by (auto simp: border_moved_def reached_size_def)

lemma border_moved_first:
  assumes "border_moved d (min k (donor_slack d cs (j # js))) a (j # js) cs cs'"
    and "k \<le> axis_size (cs ! j) d"
  shows "axis_size (cs' ! j) d
    = reached_size (axis_size (cs ! j) d) (axis_size (cs ! j) d - k) (resize_check (cs ! j) d) others"
proof -
  have "axis_size (cs' ! j) d + min k (resize_check (cs ! j) d) = axis_size (cs ! j) d"
    using assms(1) by (simp add: border_moved_def min_def split: if_splits)
  then show ?thesis
    using assms(2) unfolding reached_size_def by (cases "k = 0"; simp; linarith)
qed

lemma border_donors_siblings:
  "j < n \<Longrightarrow> 0 < c \<Longrightarrow> n = length cs \<Longrightarrow> donor_slack d cs (border_donors j n c) = sibling_slack d cs j"
  "j + 1 = length cs \<Longrightarrow> 0 < j \<Longrightarrow> c \<le> 0 \<Longrightarrow> n = length cs \<Longrightarrow>
     donor_slack d cs (border_donors (j - 1) n c) = sibling_slack d cs j"
  by (simp_all add: border_donors_def sibling_slack_def)

lemma border_donors_first:
  "c \<le> 0 \<Longrightarrow> border_donors j n c = j # rev [0..<j]"
  "j + 1 = n \<Longrightarrow> 0 < j \<Longrightarrow> 0 < c \<Longrightarrow> border_donors (j - 1) n c = j # rev [0..<j - 1]"
  by (auto simp: border_donors_def upt_conv_Cons)

lemma resize_child_to_outcome:
  assumes wf: "wf_tree t" and cell: "cell_at_path (lt_root t) q = Some (Split g d cs)"
    and j: "j < length cs" and n: "n \<le> i32_max"
  shows "child_resized_to t q j d
    (reached_size (axis_size (cs ! j) d) n (resize_check (cs ! j) d) (sibling_slack d cs j))
    (fst (resize_child_to t q j d n cs))"
proof -
  let ?cur = "axis_size (cs ! j) d"
  have "proper (Split g d cs)"
    using wf cell_at_path_proper [OF cell] by (simp add: wf_tree_def)
  then have two: "2 \<le> length cs" by simp
  have "cell_at_path (lt_root t) (q @ [j]) = Some (cs ! j)"
    using cell j by (auto simp: cell_at_path_snoc)
  then have "?cur \<le> i32_max"
    using cell_at_path_size [of "lt_root t" "q @ [j]" "cs ! j" d] wf wf_tree_bound [OF wf, of d]
    by (auto simp: wf_tree_def)
  then have exact: "u32_as_i32 ?cur = int ?cur" "clamp_i32 n = int n"
    "i32_wrap (int ?cur - int n) = int ?cur - int n" "i32_wrap (int n - int ?cur) = int n - int ?cur"
    using n by (simp_all add: clamp_i32_def u32_as_i32_exact i32_wrap_exact i32_max_def)
  show ?thesis
  proof (cases "j + 1 = length cs")
    case True
    have "child_resized_to t q j d (reached_size ?cur n (resize_check (cs ! j) d) (sibling_slack d cs j))
        (fst (resize_layout t q (j - 1) d (int ?cur - int n) True))"
    proof (rule resize_layout_child [OF wf cell])
      show "border_receiver (j - 1) (int ?cur - int n) < length cs"
        using True two unfolding border_receiver_def by auto
      show "\<bar>int ?cur - int n\<bar> \<le> int i32_max" using \<open>?cur \<le> i32_max\<close> n by linarith
      fix cs' assume m: "border_moved d (min (nat \<bar>int ?cur - int n\<bar>)
            (donor_slack d cs (border_donors (j - 1) (length cs) (int ?cur - int n))))
          (border_receiver (j - 1) (int ?cur - int n)) (border_donors (j - 1) (length cs) (int ?cur - int n)) cs cs'"
      show "axis_size (cs' ! j) d = reached_size ?cur n (resize_check (cs ! j) d) (sibling_slack d cs j)"
      proof (cases "?cur \<le> n")
        case up: True
        then have "border_receiver (j - 1) (int ?cur - int n) = j" "nat \<bar>int ?cur - int n\<bar> = n - ?cur"
          using True two by (auto simp: border_receiver_def)
        with m show ?thesis
          using border_moved_receiver [of d "n - ?cur" cs _ j cs'] border_donors_siblings(2) [of j cs] True two up
          by simp
      next
        case down: False
        then have "nat \<bar>int ?cur - int n\<bar> = ?cur - n" by simp
        moreover have "border_donors (j - 1) (length cs) (int ?cur - int n) = j # rev [0..<j - 1]"
          using True two down by (intro border_donors_first(2)) auto
        ultimately show ?thesis
          using m border_moved_first [of d "?cur - n" cs j "rev [0..<j - 1]" _ cs'] down by simp
      qed
    qed
    then show ?thesis using True by (simp add: resize_child_to_def exact)
  next
    case False
    have "child_resized_to t q j d (reached_size ?cur n (resize_check (cs ! j) d) (sibling_slack d cs j))
        (fst (resize_layout t q j d (int n - int ?cur) True))"
    proof (rule resize_layout_child [OF wf cell])
      show "border_receiver j (int n - int ?cur) < length cs"
        using False j by (simp add: border_receiver_def)
      show "\<bar>int n - int ?cur\<bar> \<le> int i32_max" using \<open>?cur \<le> i32_max\<close> n by linarith
      fix cs' assume m: "border_moved d (min (nat \<bar>int n - int ?cur\<bar>)
            (donor_slack d cs (border_donors j (length cs) (int n - int ?cur))))
          (border_receiver j (int n - int ?cur)) (border_donors j (length cs) (int n - int ?cur)) cs cs'"
      show "axis_size (cs' ! j) d = reached_size ?cur n (resize_check (cs ! j) d) (sibling_slack d cs j)"
      proof (cases "?cur < n")
        case up: True
        then have "border_receiver j (int n - int ?cur) = j" "nat \<bar>int n - int ?cur\<bar> = n - ?cur"
          by (auto simp: border_receiver_def)
        with m show ?thesis
          using border_moved_receiver [of d "n - ?cur" cs _ j cs'] border_donors_siblings(1) [OF j] up
          by simp
      next
        case down: False
        then have "nat \<bar>int n - int ?cur\<bar> = ?cur - n" by simp
        with m show ?thesis
          using border_moved_first [of d "?cur - n" cs j "rev [0..<j]" _ cs'] down
          by (simp add: border_donors_first(1))
      qed
    qed
    then show ?thesis using False by (simp add: resize_child_to_def exact)
  qed
qed

text \<open>
  The leaf-level statement: a pane that lies in a split along the axis gets the size asked for,
  within what it can give up and what its neighbours there can spare.
\<close>

lemma leaf_size_after:
  assumes wf: "wf_tree t" and i: "i < leaf_count (lt_root t)"
    and enc: "enclosing d (lt_root t) (leaf_paths t ! i) = Some (q, j)"
    and t': "child_resized_to t q j d n t'"
  shows "axis_of (collect_leaf_geometries (lt_root t') ! i) d = n"
proof -
  let ?p = "leaf_paths t ! i"
  obtain g cs where c: "lt_root t' = fix_offsets (write_at_path (lt_root t) q (Split g d cs)) 0 0"
    and n: "axis_size (cs ! j) d = n"
    using t' by (auto simp: child_resized_to_def Let_def)
  let ?c = "write_at_path (lt_root t) q (Split g d cs)"
  have shape: "shape ?c = shape (lt_root t)" using t' c by (simp add: child_resized_to_def)
  have tiled: "tiles ?c" using t' c by (simp add: child_resized_to_def wf_tree_def)
  have leaf: "cell_at_path (lt_root t) ?p = Some (Pane (collect_leaf_geometries (lt_root t) ! i))"
    using i by (simp add: leaf_paths_def leaf_path_nth)
  have i': "i < leaf_count ?c" using i same_shape_leaf_count [OF shape] by simp
  have path: "collect_leaf_paths ?c [] ! i = ?p"
    using same_shape_leaf_paths [OF shape] by (simp add: leaf_paths_def)
  have leaf': "cell_at_path ?c ?p = Some (Pane (collect_leaf_geometries ?c ! i))"
    using leaf_path_nth [OF i'] path by simp
  obtain g0 cs0 where "cell_at_path (lt_root t) q = Some (Split g0 d cs0)"
    using enclosing_cell [OF enc leaf] by blast
  then have "cell_at_path ?c q = Some (Split g d cs)" by (rule cell_at_path_write)
  then have "axis_of (collect_leaf_geometries ?c ! i) d = n"
    using enclosing_size [OF _ leaf' tiled] enclosing_shape [OF shape [symmetric] leaf, of d] enc n
    by (simp add: axis_size_def)
  moreover have "map dims (collect_leaf_geometries (lt_root t')) ! i = map dims (collect_leaf_geometries ?c) ! i"
    using leaf_dims_fix_offsets [of ?c 0 0] c by (simp add: leaf_dims_def)
  then have "dims (collect_leaf_geometries (lt_root t') ! i) = dims (collect_leaf_geometries ?c ! i)"
    using i' c by (simp add: length_leaf_geometries)
  ultimately show ?thesis by (cases d) (simp_all add: dims_def)
qed

theorem resize_leaf_to_outcome:
  assumes wf: "wf_tree t" and i: "i < leaf_count (lt_root t)" and n: "n \<le> i32_max"
  shows "enclosing d (lt_root t) (leaf_paths t ! i) = None \<Longrightarrow> resize_leaf_to t i d n = (t, False)"
    and "enclosing d (lt_root t) (leaf_paths t ! i) = Some (q, j) \<Longrightarrow>
      cell_at_path (lt_root t) q = Some (Split g d cs) \<Longrightarrow>
      child_resized_to t q j d
        (reached_size (axis_size (cs ! j) d) n (resize_check (cs ! j) d) (sibling_slack d cs j))
        (fst (resize_leaf_to t i d n))"
proof -
  have leaf: "cell_at_path (lt_root t) (leaf_paths t ! i) = Some (Pane (collect_leaf_geometries (lt_root t) ! i))"
    using i by (simp add: leaf_paths_def leaf_path_nth)
  have len: "i < length (leaf_paths t)" using i by (simp add: leaf_paths_def length_leaf_paths)
  have "proper (lt_root t)" using wf by (simp add: wf_tree_def)
  note walk = resize_leaf_to_from_enclosing [OF leaf this, of d n]
  show "enclosing d (lt_root t) (leaf_paths t ! i) = None \<Longrightarrow> resize_leaf_to t i d n = (t, False)"
    using walk len by (simp add: resize_leaf_to_def)
  assume *: "enclosing d (lt_root t) (leaf_paths t ! i) = Some (q, j)"
    "cell_at_path (lt_root t) q = Some (Split g d cs)"
  then have "j < length cs" using enclosing_cell [OF *(1) leaf] by auto
  moreover have "resize_leaf_to t i d n = resize_child_to t q j d n cs"
    using walk len * by (simp add: resize_leaf_to_def resize_child_to_def)
  ultimately show "child_resized_to t q j d
        (reached_size (axis_size (cs ! j) d) n (resize_check (cs ! j) d) (sibling_slack d cs j))
        (fst (resize_leaf_to t i d n))"
    using resize_child_to_outcome [OF wf *(2) _ n] by simp
qed

section \<open>Resizing a pane by an amount\<close>

theorem resize_leaf_by_keeps:
  assumes wf: "wf_tree t" and i: "i < leaf_count (lt_root t)" and change: "\<bar>change\<bar> \<le> int i32_max"
  shows "wf_tree (fst (resize_leaf_by t i d change))"
    and "shape (lt_root (fst (resize_leaf_by t i d change))) = shape (lt_root t)"
    and "same_sizes (lt_root (fst (resize_leaf_by t i d change))) (lt_root t)"
    and "lt_leaf_map (fst (resize_leaf_by t i d change)) = lt_leaf_map t"
proof -
  have leaf: "cell_at_path (lt_root t) (leaf_paths t ! i) = Some (Pane (collect_leaf_geometries (lt_root t) ! i))"
    using i by (simp add: leaf_paths_def leaf_path_nth)
  have len: "i < length (leaf_paths t)" using i by (simp add: leaf_paths_def length_leaf_paths)
  have proper: "proper (lt_root t)" using wf by (simp add: wf_tree_def)
  note walk = find_resize_handle_from_enclosing [OF leaf proper, of d]
  have "wf_tree (fst (resize_leaf_by t i d change))
    \<and> shape (lt_root (fst (resize_leaf_by t i d change))) = shape (lt_root t)
    \<and> same_sizes (lt_root (fst (resize_leaf_by t i d change))) (lt_root t)
    \<and> lt_leaf_map (fst (resize_leaf_by t i d change)) = lt_leaf_map t"
  proof (cases "enclosing d (lt_root t) (leaf_paths t ! i)")
    case None
    then show ?thesis using walk len wf by (simp add: resize_leaf_by_def find_resize_handle_def)
  next
    case (Some qj)
    then obtain q j where enc: "enclosing d (lt_root t) (leaf_paths t ! i) = Some (q, j)"
      by (cases qj) auto
    obtain g cs where cell: "cell_at_path (lt_root t) q = Some (Split g d cs)" and j: "j < length cs"
      using enclosing_cell [OF enc leaf] by blast
    have two: "2 \<le> length cs" using cell_at_path_proper [OF cell proper] by simp
    let ?h = "if j + 1 = length cs then j - 1 else j"
    have run: "resize_leaf_by t i d change = resize_layout t q ?h d change True"
      using walk len enc cell by (simp add: resize_leaf_by_def find_resize_handle_def)
    have "border_receiver ?h change < length cs" using j two by (auto simp: border_receiver_def)
    from resize_layout_outcome [OF wf cell this change] show ?thesis unfolding run by fastforce
  qed
  then show "wf_tree (fst (resize_leaf_by t i d change))"
    "shape (lt_root (fst (resize_leaf_by t i d change))) = shape (lt_root t)"
    "same_sizes (lt_root (fst (resize_leaf_by t i d change))) (lt_root t)"
    "lt_leaf_map (fst (resize_leaf_by t i d change)) = lt_leaf_map t" by blast+
qed

end
