(* ===== verification/Layout_Named.thy ===== *)
theory Layout_Named
  imports Layout_Tree
begin

text \<open>
  The preset layouts (\<open>select-layout even-horizontal\<close>, \<open>main-vertical\<close>, \<open>tiled\<close> and the
  others), after \<open>crates/rmux-core/src/layout/named.rs\<close> and \<open>split_axis\<close> of
  \<open>layout.rs\<close>. Definitions only; the properties are in \<open>Layout_Named_Props\<close>.
\<close>

datatype layout_name =
    EvenHorizontal | EvenVertical | MainHorizontal | MainHorizontalMirrored
  | MainVertical | MainVerticalMirrored | Tiled

record layout_options =
  requested_main_width :: "u16 option"
  requested_main_height :: "u16 option"
  tiled_max_columns :: "u16 option"

definition default_layout_options :: layout_options where
  "default_layout_options =
     \<lparr>requested_main_width = None, requested_main_height = None, tiled_max_columns = None\<rparr>"

definition DEFAULT_MAIN_PANE_WIDTH :: u32 where
  "DEFAULT_MAIN_PANE_WIDTH = 80"

definition DEFAULT_MAIN_PANE_HEIGHT :: u32 where
  "DEFAULT_MAIN_PANE_HEIGHT = 24"

definition minimum_axis_size_for_panes :: "usize \<Rightarrow> u32" where
  "minimum_axis_size_for_panes pane_count =
     (if pane_count = 0 then 0
      else u32_add (u32_mul PANE_MINIMUM (u32_wrap pane_count))
             (u32_mul PANE_BORDER_CELLS (u32_wrap (pane_count - 1))))"

definition split_axis :: "u32 \<Rightarrow> usize \<Rightarrow> u32 list" where
  "split_axis total_cells count =
     (if count = 0 then []
      else
        let n = u32_wrap count;
            usable = total_cells - u32_mul (n - 1) PANE_BORDER_CELLS;
            each = usable div n;
            remainder = usable - u32_mul each n;
            can_satisfy_minimums = (usable \<ge> n)
        in map (\<lambda>index.
             if can_satisfy_minimums \<and> u32_wrap index < remainder then u32_add each 1
             else if \<not> can_satisfy_minimums \<and> index + 1 = count then u32_add each remainder
             else each) [0..<count])"

text \<open>The \<open>scan\<close> over the sizes of one axis: each pane starts one border after the previous one.\<close>

fun scan_panes :: "(u32 \<Rightarrow> u32 \<Rightarrow> layout_geometry) \<Rightarrow> u32 \<Rightarrow> u32 list \<Rightarrow> layout_cell list" where
  "scan_panes mk offset [] = []"
| "scan_panes mk offset (s # ss) =
     Pane (mk s offset) # scan_panes mk (u32_sat_add (u32_sat_add offset s) PANE_BORDER_CELLS) ss"

definition build_even :: "layout_direction \<Rightarrow> usize \<Rightarrow> layout_geometry \<Rightarrow> layout_tree" where
  "build_even d pane_count g =
     \<lparr>lt_root = Split g d
        (case d of
           LeftRight \<Rightarrow> scan_panes (\<lambda>w x. new_geometry w (lg_height g) x (lg_y g)) 0
                          (split_axis (lg_width g) pane_count)
         | TopBottom \<Rightarrow> scan_panes (\<lambda>h y. new_geometry (lg_width g) h (lg_x g) y) 0
                          (split_axis (lg_height g) pane_count)),
      lt_leaf_map = None\<rparr>"

definition mirrored_leaf_map :: "usize \<Rightarrow> usize list" where
  "mirrored_leaf_map pane_count =
     (if pane_count \<ge> 2
      then (pane_count - 1) # map (\<lambda>pane_pos. pane_pos - 1) [1..<pane_count]
      else [0..<pane_count])"

definition resolve_main_pane_size :: "u32 \<Rightarrow> u32 option \<Rightarrow> u32 \<Rightarrow> u32" where
  "resolve_main_pane_size total_cells requested default_size =
     (let available = total_cells - PANE_BORDER_CELLS;
          candidate = min (case requested of None \<Rightarrow> default_size | Some r \<Rightarrow> r) available
      in if u32_sat_add candidate PANE_MINIMUM \<ge> available then
           if available \<le> u32_sat_mul PANE_MINIMUM 2 then min PANE_MINIMUM available
           else available - PANE_MINIMUM
         else candidate)"

definition shift_cell :: "layout_cell \<Rightarrow> u32 \<Rightarrow> u32 \<Rightarrow> layout_cell" where
  "shift_cell c x y = fix_offsets c x y"

text \<open>
  \<open>pane_count - 1\<close> on \<open>usize\<close>, which wraps around at zero. \<open>named\<close> calls the builders of the main
  layouts with two panes at least.
\<close>

definition usize_sub :: "usize \<Rightarrow> usize \<Rightarrow> usize" where
  "usize_sub a b = (if b \<le> a then a - b else 2 ^ 64 + a - b)"

lemma usize_sub_exact [simp]: "b \<le> a \<Longrightarrow> usize_sub a b = a - b"
  by (simp add: usize_sub_def)

definition build_main_vertical ::
  "usize \<Rightarrow> layout_geometry \<Rightarrow> layout_options \<Rightarrow> bool \<Rightarrow> layout_tree" where
  "build_main_vertical pane_count g options mirrored =
     (let main_width = resolve_main_pane_size (lg_width g) (requested_main_width options)
                         DEFAULT_MAIN_PANE_WIDTH;
          secondary_width = lg_width g - main_width - PANE_BORDER_CELLS;
          main = Pane (new_geometry main_width (lg_height g) 0 0);
          secondary_geometry = new_geometry secondary_width (lg_height g)
                                 (u32_add main_width PANE_BORDER_CELLS) 0;
          secondary =
            (if pane_count = 2 then Pane secondary_geometry
             else Split secondary_geometry TopBottom
                    (scan_panes (\<lambda>h y. new_geometry secondary_width h (lg_x secondary_geometry) y) 0
                       (split_axis (lg_height g) (usize_sub pane_count 1))));
          (children, leaf_map) =
            (if mirrored
             then ([shift_cell secondary 0 0,
                    shift_cell main (u32_add secondary_width PANE_BORDER_CELLS) 0],
                   Some (mirrored_leaf_map pane_count))
             else ([main, secondary], None))
      in \<lparr>lt_root = fix_offsets (Split g LeftRight children) 0 0, lt_leaf_map = leaf_map\<rparr>)"

definition build_main_horizontal ::
  "usize \<Rightarrow> layout_geometry \<Rightarrow> layout_options \<Rightarrow> bool \<Rightarrow> layout_tree" where
  "build_main_horizontal pane_count g options mirrored =
     (let main_height = resolve_main_pane_size (lg_height g) (requested_main_height options)
                          DEFAULT_MAIN_PANE_HEIGHT;
          secondary_height = lg_height g - main_height - PANE_BORDER_CELLS;
          main = Pane (new_geometry (lg_width g) main_height 0 0);
          secondary_geometry = new_geometry (lg_width g) secondary_height 0
                                 (u32_add main_height PANE_BORDER_CELLS);
          secondary =
            (if pane_count = 2 then Pane secondary_geometry
             else Split secondary_geometry LeftRight
                    (scan_panes (\<lambda>w x. new_geometry w secondary_height x (lg_y secondary_geometry)) 0
                       (split_axis (lg_width g) (usize_sub pane_count 1))));
          (children, leaf_map) =
            (if mirrored
             then ([shift_cell secondary 0 0,
                    shift_cell main 0 (u32_add secondary_height PANE_BORDER_CELLS)],
                   Some (mirrored_leaf_map pane_count))
             else ([main, secondary], None))
      in \<lparr>lt_root = fix_offsets (Split g TopBottom children) 0 0, lt_leaf_map = leaf_map\<rparr>)"

section \<open>The tiled layout\<close>

text \<open>
  The loop that grows the grid. The saturating products of the source compare with
  \<open>pane_count\<close> as the exact ones do, and \<open>columns\<close> starts at one, so the guard
  \<open>0 < columns\<close> is always true.
\<close>

function grow_grid :: "usize \<Rightarrow> usize option \<Rightarrow> usize \<Rightarrow> usize \<Rightarrow> usize \<times> usize" where
  "grow_grid pane_count max_columns r c =
     (if r * c < pane_count \<and> 0 < c then
        let r' = r + 1;
            c' = (if r' * c < pane_count
                     \<and> (case max_columns of None \<Rightarrow> True | Some limit \<Rightarrow> c < limit)
                  then c + 1 else c)
        in grow_grid pane_count max_columns r' c'
      else (r, c))"
  by pat_completeness auto
termination
proof (relation "measure (\<lambda>(n, m, r, c). n - r)", goal_cases)
  case (2 n m r c r' c')
  then have "r \<le> r * c" by simp
  also have "\<dots> < n" using 2 by simp
  finally show ?case using 2 by simp
qed simp

declare grow_grid.simps [simp del]

definition div_ceil :: "usize \<Rightarrow> usize \<Rightarrow> usize" where
  "div_ceil a b = (if a mod b > 0 then a div b + 1 else a div b)"

definition tiled_grid_size :: "usize \<Rightarrow> usize option \<Rightarrow> usize \<times> usize" where
  "tiled_grid_size pane_count max_columns =
     (let (r, c) = grow_grid pane_count max_columns 1 1;
          (r', c') = (case max_columns of
             None \<Rightarrow> (r, c)
           | Some limit \<Rightarrow> let c' = min c (max limit 1) in (div_ceil pane_count (max c' 1), c'))
      in (max r' 1, max c' 1))"

definition update_last :: "('a \<Rightarrow> 'a) \<Rightarrow> 'a list \<Rightarrow> 'a list" where
  "update_last f xs = (if xs = [] then [] else butlast xs @ [f (last xs)])"

fun tiled_columns :: "nat \<Rightarrow> u32 \<Rightarrow> u32 \<Rightarrow> u32 \<Rightarrow> u32 \<Rightarrow> layout_cell list" where
  "tiled_columns 0 w h x y = []"
| "tiled_columns (Suc n) w h x y =
     Pane (new_geometry w h x y)
     # tiled_columns n w h (u32_sat_add (u32_sat_add x w) PANE_BORDER_CELLS) y"

definition tiled_row ::
  "layout_geometry \<Rightarrow> u32 \<Rightarrow> usize \<Rightarrow> usize \<Rightarrow> u32 \<Rightarrow> u32 \<Rightarrow> u32 \<Rightarrow> layout_cell" where
  "tiled_row g root_width columns panes_in_row w h row_y =
     (let row =
        (if panes_in_row = 1 \<or> columns = 1 then Pane (new_geometry (lg_width g) h 0 row_y)
         else
           let children = tiled_columns panes_in_row w h 0 row_y;
               used = min (u32_mul (u32_wrap panes_in_row) (u32_add w PANE_BORDER_CELLS)
                           - PANE_BORDER_CELLS) root_width;
               extra = lg_width g - used;
               children' = (if extra > 0
                 then update_last (\<lambda>c. resize_adjust c LeftRight (u32_as_i32 extra)) children
                 else children)
           in Split (new_geometry (lg_width g) h 0 row_y) LeftRight children')
      in if lg_width (geometry row) \<noteq> lg_width g
         then with_geometry row ((geometry row)\<lparr>lg_width := lg_width g\<rparr>) else row)"

fun tiled_rows ::
  "nat \<Rightarrow> usize \<Rightarrow> layout_geometry \<Rightarrow> u32 \<Rightarrow> usize \<Rightarrow> u32 \<Rightarrow> u32 \<Rightarrow> u32 \<Rightarrow> layout_cell list" where
  "tiled_rows 0 remaining g root_width columns w h row_y = []"
| "tiled_rows (Suc n) remaining g root_width columns w h row_y =
     (if remaining = 0 then []
      else let panes_in_row = min remaining columns
           in tiled_row g root_width columns panes_in_row w h row_y
              # tiled_rows n (remaining - panes_in_row) g root_width columns w h
                  (u32_sat_add (u32_sat_add row_y h) PANE_BORDER_CELLS))"

definition build_tiled :: "usize \<Rightarrow> layout_geometry \<Rightarrow> layout_options \<Rightarrow> layout_tree" where
  "build_tiled pane_count g options =
     (let max_columns = (case tiled_max_columns options of
            None \<Rightarrow> None | Some c \<Rightarrow> if c > 0 then Some c else None);
          (r, c) = tiled_grid_size pane_count max_columns;
          r32 = u32_wrap r; c32 = u32_wrap c;
          w = max ((lg_width g - (c32 - 1)) div c32) PANE_MINIMUM;
          h = max ((lg_height g - (r32 - 1)) div r32) PANE_MINIMUM;
          root_width = max (u32_mul (u32_add w PANE_BORDER_CELLS) c32 - PANE_BORDER_CELLS) (lg_width g);
          root_height = max (u32_mul (u32_add h PANE_BORDER_CELLS) r32 - PANE_BORDER_CELLS) (lg_height g);
          rows_cells = tiled_rows r pane_count g root_width c w h 0;
          used = min (u32_sat_add (u32_mul r32 h) (r32 - 1)) root_height;
          extra = lg_height g - used;
          rows_cells' = (if extra > 0
            then update_last (\<lambda>row. resize_adjust row TopBottom (u32_as_i32 extra)) rows_cells
            else rows_cells)
      in \<lparr>lt_root = fix_offsets (Split g TopBottom rows_cells') 0 0, lt_leaf_map = None\<rparr>)"

section \<open>Named layouts\<close>

definition build_named ::
  "layout_name \<Rightarrow> usize \<Rightarrow> layout_geometry \<Rightarrow> layout_options \<Rightarrow> layout_tree" where
  "build_named layout pane_count g options =
     (case layout of
        EvenHorizontal \<Rightarrow> build_even LeftRight pane_count g
      | EvenVertical \<Rightarrow> build_even TopBottom pane_count g
      | MainHorizontal \<Rightarrow> build_main_horizontal pane_count g options False
      | MainHorizontalMirrored \<Rightarrow> build_main_horizontal pane_count g options True
      | MainVertical \<Rightarrow> build_main_vertical pane_count g options False
      | MainVerticalMirrored \<Rightarrow> build_main_vertical pane_count g options True
      | Tiled \<Rightarrow> build_tiled pane_count g options)"

definition named :: "layout_name \<Rightarrow> usize \<Rightarrow> terminal_size \<Rightarrow> layout_options \<Rightarrow> layout_tree" where
  "named layout pane_count sz options =
     (if pane_count \<le> 1 then single sz
      else
        let g = new_geometry (cols sz) (rows sz) 0 0;
            t = build_named layout pane_count g options;
            (minimum_width, minimum_height) = minimum_size (lt_root t);
            t' = (if lg_width g < minimum_width \<or> lg_height g < minimum_height
                  then build_named layout pane_count
                         (new_geometry (max (lg_width g) minimum_width) (max (lg_height g) minimum_height) 0 0)
                         options
                  else t)
        in t'\<lparr>lt_root := fix_offsets (lt_root t') 0 0\<rparr>)"

end
