(* ===== verification/Layout_Spread.thy ===== *)
theory Layout_Spread
  imports Layout_Resize_Props
begin

text \<open>
  Splitting the whole window (\<open>split_root\<close> of \<open>layout/mutation.rs\<close>) and evening out a
  split (\<open>spread\<close> of \<open>layout/cell.rs\<close>). Neither checks that the cells it shrinks have the
  room, and the remainder of \<open>spread\<close> is one too large when the split divides evenly: the
  theorems give the exact conditions under which the result is still tiled.
\<close>

lemma resize_adjust_to:
  assumes "tiles c" "axis_size c d \<le> i32_max" "n \<le> i32_max" "pair_axis (minimum_size c) d \<le> n"
  shows "tiles (resize_adjust c d (int n - int (axis_size c d)))"
    and "axis_size (resize_adjust c d (int n - int (axis_size c d))) d = n"
    and "axis_size (resize_adjust c d (int n - int (axis_size c d))) (cross d) = axis_size c (cross d)"
proof -
  have bound: "axis_size c d \<le> u32_max" "n \<le> u32_max"
    using assms(2,3) i32_max_le_u32_max by (meson le_trans)+
  have "can_resize d (int n - int (axis_size c d)) c"
    using assms(1,4) bound slack_is_above_minimum [OF assms(1) bound(1)] by (auto simp: can_resize_def)
  then have "resized d (int n - int (axis_size c d)) c (resize_adjust c d (int n - int (axis_size c d)))"
    by (rule resize_adjust_resized)
  then show "tiles (resize_adjust c d (int n - int (axis_size c d)))"
    "axis_size (resize_adjust c d (int n - int (axis_size c d))) d = n"
    "axis_size (resize_adjust c d (int n - int (axis_size c d))) (cross d) = axis_size c (cross d)"
    by (simp_all add: resized_def)
qed

section \<open>Splitting the root\<close>

definition existing_share :: "nat \<Rightarrow> bool \<Rightarrow> nat" where
  "existing_share n ahead = (if ahead then (n - 1) div 2 else n div 2)"

lemma resize_adjust_size:
  "axis_size c d \<le> u32_max \<Longrightarrow> n \<le> u32_max \<Longrightarrow>
     axis_size (resize_adjust c d (int n - int (axis_size c d))) d = n"
  by (cases c; cases "int n = int (axis_size c d)")
    (auto simp: resize_adjust_unfold axis_size_def Let_def u32_sat_add_signed_def)

text \<open>The root that \<open>split_root\<close> builds: the existing layout and the new pane, side by side.\<close>

lemma split_root_eq:
  assumes wf: "wf_tree t" and n: "splittable (axis_size (lt_root t) d)"
  defines "a \<equiv> axis_size (lt_root t) d"
  obtains e p where "split_root t d ahead
      = (fixed (Split (geometry (lt_root t)) d (if ahead then [p, e] else [e, p])), True)"
    "same_sizes e (resize_adjust (lt_root t) d (int (existing_share a ahead) - int a))"
    "shape e = shape (lt_root t)"
    "tiles e \<longleftrightarrow> tiles (resize_adjust (lt_root t) d (int (existing_share a ahead) - int a))"
    "tiles p" "shape p = shape (Pane undefined)"
    "axis_size p d = existing_share a (\<not> ahead)" "axis_size p (cross d) = axis_size (lt_root t) (cross d)"
proof -
  let ?g = "geometry (lt_root t)"
  have bound: "a \<le> i32_max" unfolding a_def by (rule wf_tree_bound [OF wf])
  have g: "axis_of ?g d = a" by (simp add: a_def axis_size_def)
  note sizes = split_sizes [OF n wf_tree_bound [OF wf], folded a_def]
  have share: "(if ahead then split_second_size a else split_first_size a) = existing_share a ahead"
    using sizes by (simp add: existing_share_def)
  have small: "existing_share a ahead \<le> i32_max" using bound by (auto simp: existing_share_def)
  have change: "i32_wrap (u32_as_i32 (existing_share a ahead) - u32_as_i32 a) = int (existing_share a ahead) - int a"
    using bound small by (simp add: u32_as_i32_exact i32_wrap_exact i32_max_def)
  let ?e = "resize_adjust (lt_root t) d (int (existing_share a ahead) - int a)"
  have pos: "1 \<le> axis_size (lt_root t) d'" for d'
    using wf tiles_axis_pos by (auto simp: wf_tree_def)
  let ?far = "u32_add (split_first_size a) PANE_BORDER_CELLS"
  define p where "p = Pane (case d of
      LeftRight \<Rightarrow> if ahead then new_geometry (split_first_size a) (lg_height ?g) 0 0
        else new_geometry (split_second_size a) (lg_height ?g) ?far 0
    | TopBottom \<Rightarrow> if ahead then new_geometry (lg_width ?g) (split_first_size a) 0 0
        else new_geometry (lg_width ?g) (split_second_size a) 0 ?far)"
  define e where "e = (if ahead then (case d of LeftRight \<Rightarrow> fix_offsets ?e ?far 0
      | TopBottom \<Rightarrow> fix_offsets ?e 0 ?far) else fix_offsets ?e 0 0)"
  have "split_root t d ahead = (fixed (Split ?g d (if ahead then [p, e] else [e, p])), True)"
    unfolding split_root_def Let_def g a_def [symmetric] share change p_def e_def
    using n [folded a_def] by (cases ahead) simp_all
  moreover have "same_sizes e ?e" "shape e = shape (lt_root t)" "tiles e \<longleftrightarrow> tiles ?e"
    by (cases d; simp add: e_def same_sizes_def)+
  moreover have "tiles p" "axis_size p d = existing_share a (\<not> ahead)"
    "axis_size p (cross d) = axis_size (lt_root t) (cross d)"
    using sizes pos [of LeftRight] pos [of TopBottom]
    by (cases d; simp add: p_def new_geometry_def existing_share_def axis_size_def)+
  ultimately show ?thesis using that by (simp add: p_def)
qed

theorem split_root_wf_iff:
  assumes wf: "wf_tree t" and n: "splittable (axis_size (lt_root t) d)"
  shows "wf_tree (fst (split_root t d ahead)) \<longleftrightarrow>
    pair_axis (minimum_size (lt_root t)) d \<le> existing_share (axis_size (lt_root t) d) ahead"
    and "snd (split_root t d ahead)"
    and "same_sizes (lt_root (fst (split_root t d ahead))) (lt_root t)"
    and "leaf_count (lt_root (fst (split_root t d ahead))) = Suc (leaf_count (lt_root t))"
proof -
  let ?c = "lt_root t" and ?a = "axis_size (lt_root t) d"
  let ?r = "resize_adjust ?c d (int (existing_share ?a ahead) - int ?a)"
  obtain e p where eq: "split_root t d ahead
      = (fixed (Split (geometry ?c) d (if ahead then [p, e] else [e, p])), True)"
    and e: "same_sizes e ?r" "shape e = shape ?c" "tiles e \<longleftrightarrow> tiles ?r"
    and p: "tiles p" "shape p = shape (Pane undefined)"
      "axis_size p d = existing_share ?a (\<not> ahead)" "axis_size p (cross d) = axis_size ?c (cross d)"
    by (rule split_root_eq [OF assms])
  let ?s = "Split (geometry ?c) d (if ahead then [p, e] else [e, p])"
  have wf': "tiles ?c" "proper ?c" "?a \<le> i32_max" using wf wf_tree_bound [OF wf, of d] by (auto simp: wf_tree_def)
  have u32: "?a \<le> u32_max" using wf'(3) i32_max_le_u32_max by (rule le_trans)
  have share: "existing_share ?a ahead \<le> ?a" "existing_share ?a ahead + existing_share ?a (\<not> ahead) + 1 = ?a"
    using split_sizes(1-3) [OF n wf'(3)] by (auto simp: existing_share_def)
  have size: "axis_size e d = existing_share ?a ahead"
    using same_sizes_axis [OF e(1), of d] resize_adjust_size [OF u32] share(1) u32 by simp
  have p': "proper p" "leaf_count p = 1"
    using same_shape_proper [OF p(2)] same_shape_leaf_count [OF p(2)] by simp_all
  show "wf_tree (fst (split_root t d ahead)) \<longleftrightarrow> pair_axis (minimum_size ?c) d \<le> existing_share ?a ahead"
  proof
    assume "wf_tree (fst (split_root t d ahead))"
    then have "tiles ?s" unfolding eq by (simp only: wf_tree_def fixed_def fst_conv
      layout_tree.select_convs tiles_fix_offsets)
    then have "tiles e" by (cases ahead) simp_all
    then show "pair_axis (minimum_size ?c) d \<le> existing_share ?a ahead"
      using slack_is_above_minimum [of e d] size share(1) u32 same_shape_minimum [OF e(2)] by simp
  next
    assume room: "pair_axis (minimum_size ?c) d \<le> existing_share ?a ahead"
    have "existing_share ?a ahead \<le> i32_max" using share(1) wf'(3) by simp
    note r = resize_adjust_to [OF wf'(1,3) this room]
    have "axis_size e (cross d) = axis_size ?c (cross d)"
      using same_sizes_axis [OF e(1), of "cross d"] r(3) by simp
    moreover have "tiles e" using e(3) r(1) by simp
    ultimately have "tiles ?s" "proper ?s"
      using p p' size share(2) wf'(2) same_shape_proper [OF e(2)]
      by (cases ahead; simp add: axis_size_def)+
    moreover have "axis_size ?s d' \<le> i32_max" for d'
      using wf_tree_bound [OF wf, of d'] by (simp add: axis_size_def)
    ultimately have "wf_tree (fixed ?s)" by (intro wf_tree_fixed)
    then show "wf_tree (fst (split_root t d ahead))" by (simp only: eq fst_conv)
  qed
  show "snd (split_root t d ahead)" by (simp add: eq)
  show "same_sizes (lt_root (fst (split_root t d ahead))) ?c"
    by (simp add: eq fixed_def same_sizes_def axis_size_def)
  show "leaf_count (lt_root (fst (split_root t d ahead))) = Suc (leaf_count ?c)"
    using p'(2) same_shape_leaf_count [OF e(2)] by (simp add: eq fixed_def del: fix_offsets.simps)
qed

section \<open>Spreading the children of a split\<close>

fun spread_targets :: "nat \<Rightarrow> nat \<Rightarrow> nat \<Rightarrow> nat list" where
  "spread_targets each rem 0 = []"
| "spread_targets each rem (Suc n) = (if rem > 0 then each + 1 else each) # spread_targets each (rem - 1) n"

lemma spread_targets_sum: "sum_list (spread_targets each rem n) = n * each + min rem n"
  by (induction n arbitrary: rem) auto

lemma spread_targets_Suc:
  "sum_list (map Suc (spread_targets each rem n)) = sum_list (spread_targets each rem n) + n"
  by (induction n arbitrary: rem) auto

lemma spread_targets_set: "set (spread_targets each rem n) \<subseteq> {each, each + 1}"
  by (induction n arbitrary: rem) auto

lemma spread_children_outcome:
  assumes "\<And>c. c \<in> set cs \<Longrightarrow> tiles c \<and> axis_size c d \<le> i32_max \<and> pair_axis (minimum_size c) d \<le> each"
    and "each + 1 \<le> i32_max" and "spread_children d each rem cs = (cs', changed)"
  shows "list_all tiles cs' \<and> map (\<lambda>c. axis_size c d) cs' = spread_targets each rem (length cs)
    \<and> map (\<lambda>c. axis_size c (cross d)) cs' = map (\<lambda>c. axis_size c (cross d)) cs
    \<and> map shape cs' = map shape cs
    \<and> changed = (map (\<lambda>c. axis_size c d) cs \<noteq> spread_targets each rem (length cs))"
  using assms
proof (induction cs arbitrary: rem cs' changed)
  case (Cons c cs)
  define n where "n = (if rem > 0 then each + 1 else each)"
  obtain cs1 ch1 where rest: "spread_children d each (rem - 1) cs = (cs1, ch1)" by fastforce
  have c: "tiles c" "axis_size c d \<le> i32_max" "pair_axis (minimum_size c) d \<le> n" "n \<le> i32_max"
    using Cons.prems(1) [of c] Cons.prems(2) by (auto simp: n_def)
  have "u32_add each 1 = each + 1"
    using Cons.prems(2) i32_max_le_u32_max by (intro u32_add_exact) (meson le_trans)
  then have n': "(if rem > 0 then u32_add each 1 else each) = n" by (simp add: n_def)
  have delta: "i32_wrap (u32_as_i32 n - u32_as_i32 (axis_size c d)) = int n - int (axis_size c d)"
    using c(2,4) by (simp add: u32_as_i32_exact i32_wrap_exact i32_max_def)
  have "(if rem > 0 then rem - 1 else rem) = rem - 1" by simp
  then have "(if int n - int (axis_size c d) \<noteq> 0
      then (resize_adjust c d (int n - int (axis_size c d)) # cs1, True) else (c # cs1, ch1)) = (cs', changed)"
    using Cons.prems(3) by (simp only: spread_children.simps Let_def n' delta rest prod.case)
  then have eq: "cs' = (if n = axis_size c d then c else resize_adjust c d (int n - int (axis_size c d))) # cs1"
    "changed = (n \<noteq> axis_size c d \<or> ch1)"
    by (auto split: if_splits)
  have "list_all tiles cs1 \<and> map (\<lambda>c. axis_size c d) cs1 = spread_targets each (rem - 1) (length cs)
    \<and> map (\<lambda>c. axis_size c (cross d)) cs1 = map (\<lambda>c. axis_size c (cross d)) cs
    \<and> map shape cs1 = map shape cs
    \<and> ch1 = (map (\<lambda>c. axis_size c d) cs \<noteq> spread_targets each (rem - 1) (length cs))"
    by (rule Cons.IH [OF _ Cons.prems(2) rest]) (simp add: Cons.prems(1))
  then show ?case
    using resize_adjust_to [OF c(1,2,4,3)] c(1) unfolding eq by (auto simp: n_def)
qed simp

text \<open>The numbers \<open>spread\<close> computes for \<open>n\<close> children in \<open>s\<close> cells.\<close>

lemma spread_arith:
  assumes n: "2 \<le> n" and big: "2 * n \<le> s + 1" and bound: "s \<le> i32_max"
  defines "each \<equiv> (s + 1) div n - 1" and "rem \<equiv> max 1 ((s + 1) mod n)"
  shows "u32_wrap n = n" "(s - (n - 1)) div n = each" "0 < each" "each + 1 \<le> i32_max"
    and "u32_sat_add (s - u32_mul n (u32_add each PANE_BORDER_CELLS)) PANE_BORDER_CELLS = rem"
    and "n * (each + 1) + min rem n = s + 1 \<longleftrightarrow> \<not> n dvd s + 1"
proof -
  define q where "q = (s + 1) div n"
  define r where "r = (s + 1) mod n"
  define m where "m = n * q"
  have s: "s + 1 = m + r" by (simp add: m_def q_def r_def)
  have "0 < n" using n by linarith
  then have r: "r < n" unfolding r_def by (rule mod_less_divisor)
  have q: "2 \<le> q"
  proof (rule ccontr)
    assume "\<not> 2 \<le> q"
    then have "m \<le> n * 1" unfolding m_def by (intro mult_le_mono2) simp
    then show False using s r big by linarith
  qed
  have each: "each + 1 = q" and rem: "rem = max 1 r"
    using q by (simp_all add: each_def rem_def q_def r_def)
  have mq: "2 * q \<le> m" unfolding m_def using n by (rule mult_le_mono1)
  show "u32_wrap n = n" using big bound by (simp add: machine_defs)
  show "0 < each" "each + 1 \<le> i32_max" using each q mq s r bound n by linarith+
  have "(s + 1) div n = Suc ((s + 1 - n) div n)"
    using n big by (intro le_div_geq) linarith+
  moreover have "s + 1 - n = s - (n - 1)" using n by linarith
  ultimately have "q = Suc ((s - (n - 1)) div n)" by (simp only: q_def)
  with each show "(s - (n - 1)) div n = each" by linarith
  have small: "q \<le> u32_max" "m \<le> u32_max" "rem \<le> u32_max"
  proof -
    have "i32_max + 1 \<le> u32_max" by (simp add: machine_defs)
    then show "q \<le> u32_max" "m \<le> u32_max" "rem \<le> u32_max"
      unfolding rem using mq s r bound n big by linarith+
  qed
  have "u32_add each PANE_BORDER_CELLS = q"
    using u32_add_exact [of each 1] small(1) each by (simp add: PANE_BORDER_CELLS_def)
  then have "u32_mul n (u32_add each PANE_BORDER_CELLS) = m"
    using u32_mul_exact small(2) by (simp add: m_def)
  moreover have "s - m + 1 = rem" using s by (cases "r = 0") (simp_all add: rem)
  ultimately show "u32_sat_add (s - u32_mul n (u32_add each PANE_BORDER_CELLS)) PANE_BORDER_CELLS = rem"
    using small(3) by (simp add: u32_sat_add_def PANE_BORDER_CELLS_def)
  have "min rem n = rem" using r n by (simp add: rem)
  then have "n * (each + 1) + min rem n = m + rem" by (simp only: each m_def)
  moreover have "n dvd s + 1 \<longleftrightarrow> r = 0" by (simp add: dvd_eq_mod_eq_0 r_def)
  ultimately show "n * (each + 1) + min rem n = s + 1 \<longleftrightarrow> \<not> n dvd s + 1"
    using s by (cases "r = 0") (simp_all add: rem)
qed

theorem spread_outcome:
  assumes tiled: "tiles (Split g d cs)" and n: "2 \<le> length cs" and bound: "axis_of g d \<le> i32_max"
    and room: "\<And>c. c \<in> set cs \<Longrightarrow> pair_axis (minimum_size c) d \<le> (axis_of g d + 1) div length cs - 1"
  defines "each \<equiv> (axis_of g d + 1) div length cs - 1"
  defines "rem \<equiv> max 1 ((axis_of g d + 1) mod length cs)"
  obtains cs' where "spread (Split g d cs)
      = (Split g d cs', map (\<lambda>c. axis_size c d) cs \<noteq> spread_targets each rem (length cs))"
    "map (\<lambda>c. axis_size c d) cs' = spread_targets each rem (length cs)"
    "shape (Split g d cs') = shape (Split g d cs)"
    "tiles (Split g d cs') \<longleftrightarrow> \<not> length cs dvd axis_of g d + 1"
proof -
  let ?n = "length cs" and ?s = "axis_of g d"
  have kid: "tiles c" "axis_size c d \<le> i32_max" "1 \<le> axis_size c d" if "c \<in> set cs" for c
    using tiled that bound tiles_child_le [OF tiled that, of d] tiles_axis_pos
    by (auto simp: list_all_iff axis_size_def)
  have ext: "extent d cs = ?s + 1" using tiled by simp
  have "2 * ?n \<le> extent d cs"
  proof -
    have "sum_list (map (\<lambda>c. 2) cs) \<le> sum_list (map (\<lambda>c. axis_size c d + 1) cs)"
      using kid(3) by (intro sum_list_mono) auto
    then show ?thesis by (simp add: extent_def sum_list_triv)
  qed
  then have big: "2 * ?n \<le> ?s + 1" using ext by simp
  note arith = spread_arith [OF n big bound, folded each_def rem_def]
  obtain cs' changed where run: "spread_children d each rem cs = (cs', changed)" by fastforce
  have room': "tiles c \<and> axis_size c d \<le> i32_max \<and> pair_axis (minimum_size c) d \<le> each" if "c \<in> set cs" for c
    using kid(1,2) [OF that] room [OF that] by (simp add: each_def)
  note out = spread_children_outcome [OF room' arith(4) run]
  have eq: "spread (Split g d cs) = (Split g d cs', changed)"
  proof -
    have "\<not> ?n \<le> 1" "\<not> ?s < ?n - 1" "each \<noteq> 0" using n big arith(3) by linarith+
    then show ?thesis
      by (simp only: spread.simps Let_def arith(1,2,5) run if_False prod.case)
  qed
  have "extent d cs' = sum_list (map Suc (spread_targets each rem ?n))"
    using out by (simp only: extent_sizes)
  also have "\<dots> = ?n * (each + 1) + min rem ?n" by (simp add: spread_targets_Suc spread_targets_sum)
  finally have "extent d cs' = ?s + 1 \<longleftrightarrow> \<not> ?n dvd ?s + 1" using arith(6) by (simp only:)
  moreover have "length cs' = ?n" using out by (metis length_map)
  moreover have "list_all (\<lambda>c. axis_size c (cross d) = axis_of g (cross d)) cs'"
  proof -
    have "set (map (\<lambda>c. axis_size c (cross d)) cs') = set (map (\<lambda>c. axis_size c (cross d)) cs)"
      using out by (simp only:)
    moreover have "set (map (\<lambda>c. axis_size c (cross d)) cs) \<subseteq> {axis_of g (cross d)}"
      using tiled by (auto simp: list_all_iff)
    ultimately show ?thesis by (auto simp: list_all_iff)
  qed
  moreover have "cs' \<noteq> []" using calculation(2) n by auto
  ultimately have "tiles (Split g d cs') \<longleftrightarrow> \<not> ?n dvd ?s + 1"
    using out by simp
  then show ?thesis using that [of cs'] out eq by simp
qed

end
