(* ===== verification/Layout_Named_Props.thy ===== *)
theory Layout_Named_Props
  imports Layout_Named Layout_Spread
begin

text \<open>
  Correctness of the preset layouts: every one of them yields a well-formed tree with one leaf per
  pane, of the size asked for or of the minimum size of the layout where that is larger.
\<close>

section \<open>Rows of panes\<close>

abbreviation leaf_shape :: layout_cell where
  "leaf_shape \<equiv> Pane (new_geometry 0 0 0 0)"

lemma shape_scan_panes [simp]: "map shape (scan_panes mk o1 ss) = replicate (length ss) leaf_shape"
  by (induction ss arbitrary: o1) simp_all

lemma length_scan_panes [simp]: "length (scan_panes mk o1 ss) = length ss"
  by (induction ss arbitrary: o1) simp_all

lemma length_split_axis [simp]: "length (split_axis s n) = n"
  by (simp add: split_axis_def Let_def)

lemma spread_targets_conv:
  "map (\<lambda>i. if i < r then e + 1 else e) [0..<n] = spread_targets e r n"
proof (induction n arbitrary: r)
  case (Suc n)
  have "[0..<Suc n] = 0 # map Suc [0..<n]" by (simp add: map_Suc_upt upt_conv_Cons del: upt_Suc)
  moreover have "map ((\<lambda>i. if i < r then e + 1 else e) \<circ> Suc) [0..<n]
      = map (\<lambda>i. if i < r - 1 then e + 1 else e) [0..<n]"
    by (auto simp: less_diff_conv)
  ultimately show ?case using Suc by simp
qed simp

lemma split_axis_targets:
  assumes n: "1 \<le> n" and s: "2 * n \<le> s + 1" and bound: "s \<le> i32_max"
  shows "split_axis s n = spread_targets ((s + 1) div n - 1) ((s + 1) mod n) n"
proof -
  have wrap: "u32_wrap n = n" "\<And>i. i < n \<Longrightarrow> u32_wrap i = i"
    using s bound by (simp_all add: machine_defs)
  have prod: "u32_mul (n - 1) PANE_BORDER_CELLS = n - 1"
    using s bound by (simp add: PANE_BORDER_CELLS_def machine_defs)
  have usable: "s - (n - 1) = s + 1 - n" using n by linarith
  have div: "(s + 1) div n = Suc ((s + 1 - n) div n)"
    using n s by (intro le_div_geq) linarith+
  define e where "e = (s + 1 - n) div n"
  have e: "e = (s + 1) div n - 1" using div by (simp add: e_def)
  have "e * n \<le> s + 1 - n" by (simp add: e_def)
  then have mul: "u32_mul e n = e * n" using bound n by (simp add: machine_defs)
  have rem: "s + 1 - n - e * n = (s + 1) mod n"
    using n s by (simp add: e_def minus_div_mult_eq_mod mod_if [of "Suc s"])
  have can: "n \<le> s + 1 - n" using s by linarith
  have "e \<le> s + 1 - n" by (simp add: e_def)
  then have plus: "u32_add e 1 = e + 1" using n bound by (simp add: machine_defs)
  have "split_axis s n = map (\<lambda>i. if i < (s + 1) mod n then e + 1 else e) [0..<n]"
    using n can wrap by (auto simp: split_axis_def Let_def prod usable mul rem [unfolded diff_diff_left] plus e_def [symmetric]
        simp del: One_nat_def)
  then show ?thesis by (simp only: spread_targets_conv e)
qed

lemma split_axis_fills:
  assumes "1 \<le> n" "2 * n \<le> s + 1" "s \<le> i32_max"
  shows "sum_list (map Suc (split_axis s n)) = s + 1" "\<forall>a \<in> set (split_axis s n). 1 \<le> a"
proof -
  let ?q = "(s + 1) div n" and ?r = "(s + 1) mod n"
  have "2 * n div n \<le> ?q" using assms(2) by (rule div_le_mono)
  then have q: "2 \<le> ?q" using assms(1) by simp
  have "n * (?q - 1) + n = n * ?q" using q by (simp add: diff_mult_distrib2)
  moreover have "?r < n" using assms(1) by simp
  ultimately show "sum_list (map Suc (split_axis s n)) = s + 1"
    using assms mult_div_mod_eq [of n "s + 1"]
    by (simp only: split_axis_targets spread_targets_Suc spread_targets_sum)
  show "\<forall>a \<in> set (split_axis s n). 1 \<le> a"
    using spread_targets_set [of "?q - 1" ?r n] q by (auto simp: split_axis_targets [OF assms])
qed

lemma scan_panes_sizes:
  assumes "\<And>s o1. axis_of (mk s o1) d = s" "\<And>s o1. axis_of (mk s o1) (cross d) = k" "1 \<le> k"
    and "\<forall>s \<in> set ss. 1 \<le> s"
  shows "extent d (scan_panes mk o1 ss) = sum_list (map Suc ss)"
    and "list_all tiles (scan_panes mk o1 ss)"
    and "list_all (\<lambda>c. axis_size c (cross d) = k) (scan_panes mk o1 ss)"
proof -
  have "1 \<le> lg_width (mk s o1) \<and> 1 \<le> lg_height (mk s o1)" if "1 \<le> s" for s o1
    using assms(1) [of s o1] assms(2) [of s o1] assms(3) that by (cases d) simp_all
  then show "extent d (scan_panes mk o1 ss) = sum_list (map Suc ss)"
    "list_all tiles (scan_panes mk o1 ss)"
    "list_all (\<lambda>c. axis_size c (cross d) = k) (scan_panes mk o1 ss)"
    using assms by (induction ss arbitrary: o1) (simp_all add: axis_size_def)
qed

lemma scan_panes_tiles:
  assumes "\<And>s o1. axis_of (mk s o1) d = s" "\<And>s o1. axis_of (mk s o1) (cross d) = axis_of g (cross d)"
    and "1 \<le> axis_of g (cross d)" "1 \<le> n" "2 * n \<le> axis_of g d + 1" "axis_of g d \<le> i32_max"
  shows "tiles (Split g d (scan_panes mk o1 (split_axis (axis_of g d) n)))"
proof -
  note fills = split_axis_fills [OF assms(4-6)]
  have "scan_panes mk o1 (split_axis (axis_of g d) n) \<noteq> []"
    using assms(4) length_scan_panes [of mk o1 "split_axis (axis_of g d) n"] by fastforce
  then show ?thesis
    using scan_panes_sizes [OF assms(1-3) fills(2)] fills(1) by simp
qed

section \<open>Minimum sizes\<close>

lemma minimum_pos: "1 \<le> pair_axis (minimum_size c) d"
proof (cases c)
  case (Split g sd cs)
  obtain s w t where f: "fold (minimum_step sd) (map minimum_size cs)
      (u32_sat_mul PANE_BORDER_CELLS (usize_try_u32 (length cs - 1)), PANE_MINIMUM, PANE_MINIMUM) = (s, w, t)"
    using prod_cases3 by blast
  have across: "1 \<le> pair_axis (minimum_size (Split g sd cs)) (cross sd)"
    unfolding minimum_size_across fold_max_eq by (intro Max_ge) (simp_all add: PANE_MINIMUM_def)
  show ?thesis
  proof (cases "d = sd")
    case True
    then show ?thesis using Split f by (cases sd) (simp_all add: PANE_MINIMUM_def)
  next
    case False
    then have "d = cross sd" by (cases d; cases sd) simp_all
    then show ?thesis using across Split by simp
  qed
qed (cases d; simp add: PANE_MINIMUM_def)

declare minimum_size.simps(2) [simp del]

lemma minimum_along_ones:
  assumes "cs \<noteq> []" "2 * length cs \<le> u32_max" "\<forall>c \<in> set cs. pair_axis (minimum_size c) d = 1"
  shows "pair_axis (minimum_size (Split g d cs)) d = 2 * length cs - 1"
proof -
  have "map (\<lambda>c. pair_axis (minimum_size c) d) cs = map (\<lambda>_. 1) cs" using assms(3) by simp
  then have sum: "sum_list (map (\<lambda>c. pair_axis (minimum_size c) d) cs) = length cs"
    by (simp only: sum_list_triv) simp
  show ?thesis
    using assms sum by (subst minimum_size_along) simp_all
qed

lemma minimum_across_ge:
  "c \<in> set cs \<Longrightarrow> pair_axis (minimum_size c) (cross d) \<le> pair_axis (minimum_size (Split g d cs)) (cross d)"
  unfolding minimum_size_across fold_max_eq by (intro Max_ge) simp_all

lemma minimum_across_ones:
  "\<forall>c \<in> set cs. pair_axis (minimum_size c) (cross d) = 1 \<Longrightarrow>
     pair_axis (minimum_size (Split g d cs)) (cross d) = 1"
  unfolding minimum_size_across fold_max_eq
  by (intro Max_eqI) (auto simp: PANE_MINIMUM_def)

lemma leaves_shape:
  assumes "map shape cs = replicate n leaf_shape"
  shows "length cs = n" "sum_list (map leaf_count cs) = n" "list_all proper cs"
    and "c \<in> set cs \<Longrightarrow> pair_axis (minimum_size c) d = 1"
proof -
  show "length cs = n" using assms by (metis length_map length_replicate)
  have leaf: "shape c = leaf_shape" if "c \<in> set cs" for c
    using assms that by (metis image_eqI in_set_replicate list.set_map)
  then have "leaf_count c = 1" "proper c" if "c \<in> set cs" for c
    using same_shape_leaf_count [of c leaf_shape] same_shape_proper [of c leaf_shape] that by simp_all
  then have "map leaf_count cs = map (\<lambda>_. 1) cs" "list_all proper cs" by (simp_all add: list_all_iff)
  then show "sum_list (map leaf_count cs) = n" "list_all proper cs"
    using \<open>length cs = n\<close> by (simp_all only: sum_list_triv) simp
  show "pair_axis (minimum_size c) d = 1" if "c \<in> set cs"
    using same_shape_minimum [of c leaf_shape] leaf [OF that] by (cases d) (simp_all add: PANE_MINIMUM_def)
qed

section \<open>The builders\<close>

definition built :: "usize \<Rightarrow> layout_geometry \<Rightarrow> layout_tree \<Rightarrow> bool" where
  "built n g t \<longleftrightarrow>
     tiles (lt_root t) \<and> proper (lt_root t) \<and> leaf_count (lt_root t) = n
     \<and> (\<forall>d. axis_size (lt_root t) d = axis_of g d) \<and> leaf_map_ok t"

definition fits :: "layout_cell \<Rightarrow> layout_geometry \<Rightarrow> bool" where
  "fits c g \<longleftrightarrow> (\<forall>d. pair_axis (minimum_size c) d \<le> axis_of g d \<and> axis_of g d \<le> i32_max)"

lemma fitsD: "fits c g \<Longrightarrow> pair_axis (minimum_size c) d \<le> axis_of g d" "fits c g \<Longrightarrow> axis_of g d \<le> i32_max"
  by (simp_all add: fits_def)

lemma fits_pos: "fits c g \<Longrightarrow> 1 \<le> axis_of g d"
  using minimum_pos [of c d] by (auto simp: fits_def intro: le_trans)

lemma build_even_root:
  "\<exists>mk. lt_root (build_even d n g) = Split g d (scan_panes mk 0 (split_axis (axis_of g d) n))
     \<and> (\<forall>s o1. axis_of (mk s o1) d = s \<and> axis_of (mk s o1) (cross d) = axis_of g (cross d))"
  by (cases d) (auto simp: build_even_def new_geometry_def)

lemma build_even_built:
  assumes n: "2 \<le> n" "2 * n \<le> i32_max" and fits: "fits (lt_root (build_even d n g)) g"
  shows "built n g (build_even d n g)"
proof -
  obtain mk where root: "lt_root (build_even d n g) = Split g d (scan_panes mk 0 (split_axis (axis_of g d) n))"
    and mk: "\<And>s o1. axis_of (mk s o1) d = s" "\<And>s o1. axis_of (mk s o1) (cross d) = axis_of g (cross d)"
    using build_even_root by blast
  let ?cs = "scan_panes mk 0 (split_axis (axis_of g d) n)"
  have shape: "map shape ?cs = replicate n leaf_shape" by simp
  note leaves = leaves_shape [OF shape]
  have u32: "2 * n \<le> u32_max" using n(2) i32_max_le_u32_max by (rule le_trans)
  have "pair_axis (minimum_size (Split g d ?cs)) d = 2 * length ?cs - 1"
    using n(1) u32 leaves by (intro minimum_along_ones) (auto simp del: length_scan_panes)
  then have "2 * n \<le> axis_of g d + 1" "axis_of g d \<le> i32_max"
    using fitsD [OF fits, of d] root leaves(1) n(1) by simp_all
  then have "tiles (Split g d ?cs)"
    using scan_panes_tiles [OF mk] fits_pos [OF fits] n(1) by simp
  moreover have "lt_leaf_map (build_even d n g) = None" by (simp add: build_even_def)
  ultimately show ?thesis
    using leaves n(1) by (simp add: built_def root axis_size_def leaf_map_ok_def)
qed

lemma resolve_main_pane_size_bounds:
  assumes "3 \<le> s" "s \<le> i32_max" "requested \<noteq> Some 0" "1 \<le> default_size"
  shows "1 \<le> resolve_main_pane_size s requested default_size"
    and "resolve_main_pane_size s requested default_size + 2 \<le> s"
proof -
  define m where "m = min (case requested of None \<Rightarrow> default_size | Some r \<Rightarrow> r) (s - 1)"
  have m: "1 \<le> m" "m \<le> s - 1" using assms by (auto simp: m_def split: option.splits)
  have "u32_sat_add m 1 = m + 1"
  proof -
    have "i32_max + 1 \<le> u32_max" by (simp add: machine_defs)
    then have "m + 1 \<le> u32_max" using m assms(1,2) by linarith
    then show ?thesis by (simp add: u32_sat_add_def)
  qed
  then have "resolve_main_pane_size s requested default_size
      = (if m + 1 \<ge> s - 1 then if s - 1 \<le> 2 then 1 else s - 2 else m)"
    using assms(1) unfolding resolve_main_pane_size_def PANE_BORDER_CELLS_def PANE_MINIMUM_def Let_def
      m_def [symmetric] by (auto simp: u32_sat_mul_def u32_max_def)
  then show "1 \<le> resolve_main_pane_size s requested default_size"
    "resolve_main_pane_size s requested default_size + 2 \<le> s"
    using m assms(1) by (auto split: if_splits)
qed

text \<open>The two main layouts, along the axis \<open>d\<close> that separates the main pane from the others.\<close>

definition main_layout ::
  "layout_direction \<Rightarrow> usize \<Rightarrow> layout_geometry \<Rightarrow> nat \<Rightarrow> bool \<Rightarrow> layout_tree \<Rightarrow> bool" where
  "main_layout d n g m mirrored t \<longleftrightarrow>
     (\<exists>gm gs mk x y x' y'.
        axis_of gm d = m \<and> axis_of gm (cross d) = axis_of g (cross d)
        \<and> axis_of gs d = axis_of g d - m - 1 \<and> axis_of gs (cross d) = axis_of g (cross d)
        \<and> (\<forall>s o1. axis_of (mk s o1) (cross d) = s \<and> axis_of (mk s o1) d = axis_of gs d)
        \<and> (let main = Pane gm;
               secondary = (if n = 2 then Pane gs
                 else Split gs (cross d) (scan_panes mk 0 (split_axis (axis_of gs (cross d)) (n - 1))))
           in lt_root t = fix_offsets (Split g d
                (if mirrored then [fix_offsets secondary x y, fix_offsets main x' y'] else [main, secondary])) 0 0)
        \<and> lt_leaf_map t = (if mirrored then Some (mirrored_leaf_map n) else None))"

lemma build_main_vertical_layout:
  "2 \<le> n \<Longrightarrow> main_layout LeftRight n g (resolve_main_pane_size (lg_width g) (requested_main_width options)
     DEFAULT_MAIN_PANE_WIDTH) mirrored (build_main_vertical n g options mirrored)"
  (is "_ \<Longrightarrow> main_layout _ _ _ ?m _ _")
proof -
  assume n: "2 \<le> n"
  let ?gm = "new_geometry ?m (lg_height g) 0 0"
  let ?gs = "new_geometry (lg_width g - ?m - 1) (lg_height g) (u32_add ?m 1) 0"
  let ?mk = "\<lambda>h y. new_geometry (lg_width g - ?m - 1) h (u32_add ?m 1) y"
  show ?thesis
    unfolding main_layout_def
    by (rule exI [of _ ?gm], rule exI [of _ ?gs], rule exI [of _ ?mk])
      (use n in \<open>auto simp: build_main_vertical_def Let_def shift_cell_def PANE_BORDER_CELLS_def new_geometry_def
        simp del: fix_offsets.simps\<close>)
qed

lemma build_main_horizontal_layout:
  "2 \<le> n \<Longrightarrow> main_layout TopBottom n g (resolve_main_pane_size (lg_height g) (requested_main_height options)
     DEFAULT_MAIN_PANE_HEIGHT) mirrored (build_main_horizontal n g options mirrored)"
  (is "_ \<Longrightarrow> main_layout _ _ _ ?m _ _")
proof -
  assume n: "2 \<le> n"
  let ?gm = "new_geometry (lg_width g) ?m 0 0"
  let ?gs = "new_geometry (lg_width g) (lg_height g - ?m - 1) 0 (u32_add ?m 1)"
  let ?mk = "\<lambda>w x. new_geometry w (lg_height g - ?m - 1) x (u32_add ?m 1)"
  show ?thesis
    unfolding main_layout_def
    by (rule exI [of _ ?gm], rule exI [of _ ?gs], rule exI [of _ ?mk])
      (use n in \<open>auto simp: build_main_horizontal_def Let_def shift_cell_def PANE_BORDER_CELLS_def new_geometry_def
        simp del: fix_offsets.simps\<close>)
qed

lemma mirrored_leaf_map_ok:
  "2 \<le> n \<Longrightarrow> distinct (mirrored_leaf_map n)" "2 \<le> n \<Longrightarrow> set (mirrored_leaf_map n) = {..<n}"
proof -
  assume n: "2 \<le> n"
  have eq: "map (\<lambda>i. i - 1) [1..<n] = [0..<n - 1]" by (rule nth_equalityI) auto
  then show "distinct (mirrored_leaf_map n)" using n by (simp add: mirrored_leaf_map_def)
  show "set (mirrored_leaf_map n) = {..<n}" using n eq by (auto simp: mirrored_leaf_map_def)
qed

lemma pair_tiles:
  assumes "tiles a" "tiles b" "axis_size a d + axis_size b d + 1 = axis_of g d"
    and "axis_size a (cross d) = axis_of g (cross d)" "axis_size b (cross d) = axis_of g (cross d)"
  shows "tiles (Split g d [a, b])" "tiles (Split g d [b, a])"
  using assms by simp_all

lemma secondary_ok:
  assumes n: "2 \<le> n" "2 * n \<le> i32_max"
    and mk: "\<And>s o1. axis_of (mk s o1) (cross d) = s" "\<And>s o1. axis_of (mk s o1) d = axis_of gs d"
    and S: "S = (if n = 2 then Pane gs
      else Split gs (cross d) (scan_panes mk 0 (split_axis (axis_of gs (cross d)) (n - 1))))"
  shows "proper S" "leaf_count S = n - 1" "pair_axis (minimum_size S) d = 1"
    and "1 \<le> axis_of gs d \<Longrightarrow> pair_axis (minimum_size S) (cross d) \<le> axis_of gs (cross d) \<Longrightarrow>
      axis_of gs (cross d) \<le> i32_max \<Longrightarrow> tiles S"
proof -
  let ?cs = "scan_panes mk 0 (split_axis (axis_of gs (cross d)) (n - 1))"
  have "map shape ?cs = replicate (n - 1) leaf_shape" by simp
  note leaves = leaves_shape [OF this]
  have u32: "2 * n \<le> u32_max" using n(2) i32_max_le_u32_max by (rule le_trans)
  show "proper S" "leaf_count S = n - 1" using n leaves S by auto
  have "pair_axis (minimum_size (Split gs (cross d) ?cs)) (cross (cross d)) = 1"
    using leaves(4) by (intro minimum_across_ones) blast
  moreover have "pair_axis (minimum_size (Pane gs)) d = 1" by (cases d) (simp_all add: PANE_MINIMUM_def)
  ultimately show "pair_axis (minimum_size S) d = 1" by (simp add: S)
  have along: "pair_axis (minimum_size (Split gs (cross d) ?cs)) (cross d) = 2 * length ?cs - 1"
    using n u32 leaves by (intro minimum_along_ones) (auto simp del: length_scan_panes)
  assume a: "1 \<le> axis_of gs d" "pair_axis (minimum_size S) (cross d) \<le> axis_of gs (cross d)"
    "axis_of gs (cross d) \<le> i32_max"
  show "tiles S"
  proof (cases "n = 2")
    case True
    then have "1 \<le> axis_of gs (cross d)" using a(2) minimum_pos [of S "cross d"] by simp
    then show ?thesis using a(1) True S by (cases d) simp_all
  next
    case False
    then have "2 * (n - 1) \<le> axis_of gs (cross d) + 1" using a(2) along leaves(1) n S by simp
    then show ?thesis
      using scan_panes_tiles [of mk "cross d" gs "n - 1" 0] mk a n False S by simp
  qed
qed

lemma main_layout_built:
  assumes t: "main_layout d n g m mirrored t" and n: "2 \<le> n" "2 * n \<le> i32_max"
    and fits: "fits (lt_root t) g"
    and m: "3 \<le> axis_of g d \<Longrightarrow> 1 \<le> m \<and> m + 2 \<le> axis_of g d"
  shows "built n g t"
proof -
  from t obtain gm gs mk x y x' y' M S where
    gm: "axis_of gm d = m" "axis_of gm (cross d) = axis_of g (cross d)" and
    gs: "axis_of gs d = axis_of g d - m - 1" "axis_of gs (cross d) = axis_of g (cross d)" and
    mk: "\<And>s o1. axis_of (mk s o1) (cross d) = s" "\<And>s o1. axis_of (mk s o1) d = axis_of gs d" and
    M: "M = Pane gm" and
    S: "S = (if n = 2 then Pane gs
      else Split gs (cross d) (scan_panes mk 0 (split_axis (axis_of gs (cross d)) (n - 1))))" and
    root: "lt_root t = fix_offsets (Split g d (if mirrored then [fix_offsets S x y, fix_offsets M x' y'] else [M, S])) 0 0" and
    leaf_map: "lt_leaf_map t = (if mirrored then Some (mirrored_leaf_map n) else None)"
    unfolding main_layout_def Let_def by blast
  note sec = secondary_ok [OF n mk S]
  let ?K = "if mirrored then [fix_offsets S x y, fix_offsets M x' y'] else [M, S]"
  have min: "minimum_size (lt_root t) = minimum_size (Split g d ?K)"
    unfolding root by (rule same_shape_minimum) simp
  have minM: "pair_axis (minimum_size M) d = 1" by (cases d) (simp_all add: M PANE_MINIMUM_def)
  have off: "minimum_size (fix_offsets c x y) = minimum_size c" for c x y
    by (rule same_shape_minimum) simp
  have "pair_axis (minimum_size (Split g d ?K)) d = 2 * length ?K - 1"
    using sec(3) minM by (intro minimum_along_ones) (auto simp: off u32_max_def simp del: fix_offsets.simps)
  then have three: "3 \<le> axis_of g d" using fitsD(1) [OF fits, of d] min by (auto split: if_splits)
  note m = m [OF three]
  have "pair_axis (minimum_size S) (cross d) \<le> pair_axis (minimum_size (Split g d ?K)) (cross d)"
    using minimum_across_ge [of S "[M, S]" d g] minimum_across_ge [of "fix_offsets S x y" ?K d g] off
    by auto
  then have "tiles S"
    using sec(4) gs m fitsD [OF fits, of "cross d"] min by (auto intro: le_trans)
  moreover have "tiles M"
    using gm m fits_pos [OF fits, of "cross d"] by (cases d) (simp_all add: M)
  moreover have "axis_size M d + axis_size S d + 1 = axis_of g d" "axis_size M (cross d) = axis_of g (cross d)"
    "axis_size S (cross d) = axis_of g (cross d)"
    using gm gs m by (simp_all add: M S axis_size_def)
  ultimately have "tiles (Split g d ?K)" by (cases mirrored) (auto simp: simp del: fix_offsets.simps)
  moreover have "leaf_map_ok t"
    using n(1) leaf_map mirrored_leaf_map_ok sec(2) by (simp add: leaf_map_ok_def root M del: fix_offsets.simps)
  moreover have "axis_size (lt_root t) d' = axis_of g d'" for d'
    by (simp only: root axis_size_fix_offsets) (simp add: axis_size_def)
  ultimately show ?thesis
    using n(1) sec(1,2) by (simp add: built_def root M del: fix_offsets.simps)
qed

end
