(* ===== verification/Layout_Tiled_Props.thy ===== *)
theory Layout_Tiled_Props
  imports Layout_Named_Props
begin

text \<open>
  The tiled layout: the grid has just enough rows for the panes, every row but the last is full,
  and the remainders of both axes go to the last column and the last row, so the rows fill the
  window. With it, the theorem on all preset layouts.
\<close>

section \<open>The grid\<close>

lemma grow_grid_bounds:
  "grow_grid n m r c = (r', c') \<Longrightarrow> 1 \<le> r \<Longrightarrow> 1 \<le> c \<Longrightarrow> c < n \<Longrightarrow> 1 \<le> c' \<and> c' < n"
proof (induction n m r c rule: grow_grid.induct)
  case (1 n m r c)
  define c1 where "c1 = (if (r + 1) * c < n \<and> (case m of None \<Rightarrow> True | Some limit \<Rightarrow> c < limit)
    then c + 1 else c)"
  have "c1 < n"
  proof (cases "(r + 1) * c < n")
    case True
    have "c + 1 \<le> 2 * c" "2 * c \<le> (r + 1) * c" using 1(3,4) by auto
    then have "c + 1 < n" using True by linarith
    then show ?thesis by (simp add: c1_def)
  qed (use 1(5) in \<open>auto simp: c1_def\<close>)
  moreover have "1 \<le> c1" using 1(4) by (simp add: c1_def)
  moreover have "grow_grid n m r c = (if r * c < n \<and> 0 < c then grow_grid n m (r + 1) c1 else (r, c))"
    unfolding grow_grid.simps [of n m r c] Let_def c1_def by (rule refl)
  ultimately show ?case
    using 1(1) [of "r + 1" c1] 1(2-5) c1_def by (auto split: if_splits)
qed

lemma grow_grid_square:
  "grow_grid n None k k' = (r, c) \<Longrightarrow> k' = k \<Longrightarrow> 1 \<le> k \<Longrightarrow> (k - 1) * k < n \<Longrightarrow>
     n \<le> r * c \<and> (r - 1) * c < n"
proof (induction n "None :: usize option" k k' rule: grow_grid.induct)
  case (1 n k k')
  show ?case
  proof (cases "k * k < n")
    case small: True
    show ?thesis
    proof (cases "(k + 1) * k < n")
      case True
      then have "grow_grid n None k k = grow_grid n None (k + 1) (k + 1)"
        using small 1(4) by (subst grow_grid.simps) simp
      then show ?thesis using 1(1) [of "k + 1" "k + 1"] 1(2-4) True small by (simp add: mult.commute)
    next
      case False
      then have "grow_grid n None k k = (k + 1, k)"
        using small 1(4) by (subst grow_grid.simps) (simp add: grow_grid.simps [of n None "Suc k" k])
      then have "r = k + 1" "c = k" using 1(2,3) by auto
      then show ?thesis using False small by simp
    qed
  next
    case False
    then have "grow_grid n None k k = (k, k)" by (subst grow_grid.simps) simp
    then have "r = k" "c = k" using 1(2,3) by auto
    then show ?thesis using 1(5) False by simp
  qed
qed

lemma div_ceil_bounds:
  assumes "1 \<le> c" "1 \<le> n"
  shows "n \<le> div_ceil n c * c" "(div_ceil n c - 1) * c < n"
proof -
  have n: "n div c * c + n mod c = n" by simp
  moreover have "n mod c < c" using assms(1) by simp
  ultimately have "n \<le> n div c * c + c" "n mod c = 0 \<Longrightarrow> n \<le> n div c * c" by linarith+
  then show "n \<le> div_ceil n c * c" by (simp add: div_ceil_def)
  show "(div_ceil n c - 1) * c < n"
  proof (cases "n mod c = 0")
    case True
    then have "n div c * c = n" using n by simp
    then show ?thesis using assms by (auto simp: div_ceil_def True diff_mult_distrib)
  next
    case False
    then have "n div c * c < n" using n by linarith
    then show ?thesis using False by (simp add: div_ceil_def)
  qed
qed

lemma tiled_grid_size_ok:
  assumes "tiled_grid_size n m = (r, c)" "2 \<le> n" "m \<noteq> Some 0"
  shows "2 \<le> r" "1 \<le> c" "c < n" "n \<le> r * c" "(r - 1) * c < n"
proof -
  obtain r0 c0 where g: "grow_grid n m 1 1 = (r0, c0)" by fastforce
  have c0: "1 \<le> c0" "c0 < n" using grow_grid_bounds [OF g] assms(2) by auto
  have "1 \<le> c \<and> c < n \<and> n \<le> r * c \<and> (r - 1) * c < n"
  proof (cases m)
    case None
    then have "n \<le> r0 * c0 \<and> (r0 - 1) * c0 < n"
      using grow_grid_square [of n 1 1 r0 c0] g assms(2) by simp
    moreover from this have "r = r0" "c = c0"
      using None assms(1,2) c0 g by (cases r0; auto simp: tiled_grid_size_def)+
    ultimately show ?thesis using c0 by simp
  next
    case (Some l)
    define c1 where "c1 = min c0 (max l 1)"
    have c1: "1 \<le> c1" "c1 < n" using c0 by (auto simp: c1_def)
    note ceil = div_ceil_bounds [of c1 n]
    have "div_ceil n c1 \<noteq> 0" using ceil(1) c1 assms(2) by (intro notI) simp
    moreover have "tiled_grid_size n m = (max (div_ceil n (max c1 1)) 1, max c1 1)"
      using g Some by (simp add: tiled_grid_size_def Let_def c1_def)
    moreover have "max c1 1 = c1" using c1 by simp
    ultimately have "r = div_ceil n c1" "c = c1" using assms(1) by simp_all
    then show ?thesis using ceil c1 assms(2) by simp
  qed
  moreover have "2 \<le> r"
  proof (rule ccontr)
    assume "\<not> 2 \<le> r"
    then have "r * c \<le> 1 * c" by (intro mult_le_mono1) simp
    then show False using calculation by linarith
  qed
  ultimately show "2 \<le> r" "1 \<le> c" "c < n" "n \<le> r * c" "(r - 1) * c < n" by auto
qed

section \<open>Giving the rest to the last child\<close>

lemma last_takes_rest:
  assumes xs: "xs \<noteq> []" "list_all tiles xs" "list_all (\<lambda>c. axis_size c (cross d) = k) xs"
    and z: "extent d xs + z = a + 1" "a \<le> i32_max"
  defines "ys \<equiv> (if z > 0 then update_last (\<lambda>c. resize_adjust c d (u32_as_i32 z)) xs else xs)"
  shows "ys \<noteq> []" "list_all tiles ys" "list_all (\<lambda>c. axis_size c (cross d) = k) ys"
    "extent d ys = a + 1" "map shape ys = map shape xs"
proof -
  obtain bs b where split: "xs = bs @ [b]" using xs(1) by (meson rev_exhaust)
  have small: "axis_size b d + z \<le> a" using z(1) by (simp add: split)
  have "z \<le> i32_max" "axis_size b d + z \<le> u32_max" "axis_size b d \<le> u32_max"
    using small z(2) i32_max_le_u32_max by linarith+
  then have i32: "u32_as_i32 z = int z" and "can_resize d (int z) b"
    using xs(2) by (simp_all add: u32_as_i32_exact can_resize_def split)
  then have r: "resized d (int z) b (resize_adjust b d (int z))" by (intro resize_adjust_resized)
  have ys: "ys = (if z > 0 then bs @ [resize_adjust b d (int z)] else bs @ [b])"
    by (simp add: ys_def update_last_def split i32)
  show "ys \<noteq> []" by (simp add: ys)
  show "list_all tiles ys" "list_all (\<lambda>c. axis_size c (cross d) = k) ys"
    using xs(2,3) r by (simp_all add: ys split resized_def)
  show "extent d ys = a + 1" using z(1) r by (simp add: ys split resized_def)
  show "map shape ys = map shape xs" by (simp add: ys split)
qed

section \<open>Rows\<close>

lemma tiled_columns_ok:
  "map shape (tiled_columns p w h x y) = replicate p leaf_shape"
  "extent LeftRight (tiled_columns p w h x y) = p * (w + 1)"
  "list_all (\<lambda>c. axis_size c TopBottom = h) (tiled_columns p w h x y)"
  "1 \<le> w \<Longrightarrow> 1 \<le> h \<Longrightarrow> list_all tiles (tiled_columns p w h x y)"
  by (induction p arbitrary: x) (simp_all add: new_geometry_def axis_size_def)

lemma shape_update_last [simp]:
  "map shape (update_last (\<lambda>c. resize_adjust c d z) xs) = map shape xs"
proof (cases xs rule: rev_cases)
  case (snoc ys y)
  then show ?thesis by (simp add: update_last_def)
qed (simp add: update_last_def)

lemma shape_tiled_row:
  "shape (tiled_row g rw c p w h y) =
     (if p = 1 \<or> c = 1 then leaf_shape
      else Split (new_geometry 0 0 0 0) LeftRight (replicate p leaf_shape))"
  by (simp add: tiled_row_def Let_def tiled_columns_ok(1) del: One_nat_def)

text \<open>A row of \<open>p\<close> panes of width \<open>w\<close> or more fills the width of the window.\<close>

lemma tiled_row_ok:
  assumes p: "1 \<le> p" "p \<le> c" and w: "1 \<le> w" "c * (w + 1) \<le> lg_width g + 1"
    and h: "1 \<le> h" and bound: "lg_width g \<le> i32_max"
    and row_def: "row = tiled_row g (lg_width g) c p w h y"
  shows "tiles row" "axis_size row LeftRight = lg_width g" "axis_size row TopBottom = h"
    "proper row" "leaf_count row = p"
proof -
  have pw: "p * (w + 1) \<le> lg_width g + 1" "p \<le> p * (w + 1)" "w + 1 \<le> p * (w + 1)"
    using w(2) mult_le_mono1 [OF p(2), of "w + 1"] mult_le_mono1 [OF p(1), of "w + 1"] by simp_all
  have max: "i32_max + 1 \<le> u32_max" by (simp add: machine_defs)
  have exact: "u32_wrap p = p" "u32_add w 1 = w + 1" "u32_mul p (w + 1) = p * (w + 1)"
    using pw bound max by (simp_all add: PANE_BORDER_CELLS_def u32_wrap_id u32_add_exact u32_mul_exact)
  let ?cs = "tiled_columns p w h 0 y"
  define z where "z = lg_width g + 1 - p * (w + 1)"
  define ys where "ys = (if z > 0 then update_last (\<lambda>c. resize_adjust c LeftRight (u32_as_i32 z)) ?cs else ?cs)"
  have extra: "lg_width g - min (p * (w + 1) - 1) (lg_width g) = z"
    using pw p(1) by (simp add: z_def)
  have row: "row = (if p = 1 \<or> c = 1 then Pane (new_geometry (lg_width g) h 0 y)
      else Split (new_geometry (lg_width g) h 0 y) LeftRight ys)"
    unfolding row_def tiled_row_def Let_def PANE_BORDER_CELLS_def exact extra ys_def
    by (simp add: new_geometry_def del: One_nat_def)
  have ne: "?cs \<noteq> []" using p(1) by (cases p) simp_all
  have ext: "extent LeftRight ?cs + z = lg_width g + 1"
    using pw(1) by (simp add: tiled_columns_ok(2) z_def)
  have cr: "list_all (\<lambda>c. axis_size c (cross LeftRight) = h) ?cs" using tiled_columns_ok(3) by simp
  note rest = last_takes_rest [OF ne tiled_columns_ok(4) [OF w(1) h] cr ext bound, folded ys_def]
  have leaves: "map shape ys = replicate p leaf_shape" using rest(5) tiled_columns_ok(1) by simp
  note leaves = leaves_shape [OF leaves]
  have wide: "1 \<le> lg_width g" using pw w(1) by linarith
  show "tiles row" "axis_size row LeftRight = lg_width g" "axis_size row TopBottom = h"
    using rest wide h by (simp_all add: row new_geometry_def axis_size_def)
  show "proper row" "leaf_count row = p"
    using leaves p by (auto simp: row)
qed

definition row_shape :: "usize \<Rightarrow> usize \<Rightarrow> layout_cell" where
  "row_shape c p = (if p = 1 \<or> c = 1 then leaf_shape
     else Split (new_geometry 0 0 0 0) LeftRight (replicate p leaf_shape))"

fun row_shapes :: "nat \<Rightarrow> usize \<Rightarrow> usize \<Rightarrow> layout_cell list" where
  "row_shapes 0 n c = []"
| "row_shapes (Suc k) n c = (if n = 0 then [] else row_shape c (min n c) # row_shapes k (n - min n c) c)"

lemma tiled_rows_shape [simp]: "map shape (tiled_rows k n g rw c w h y) = row_shapes k n c"
  by (induction k arbitrary: n y) (simp_all add: Let_def shape_tiled_row row_shape_def)

lemma rows_step:
  assumes "k * c < n" "n \<le> Suc k * c"
  shows "k = 0 \<and> n - min n c = 0 \<or> 0 < k \<and> (k - 1) * c < n - min n c \<and> n - min n c \<le> k * c"
proof (cases k)
  case (Suc j)
  then have "c \<le> k * c" by simp
  then have "c \<le> n" using assms(1) by linarith
  then show ?thesis using assms Suc by simp linarith
qed (use assms in simp)

lemma tiled_rows_ok:
  assumes w: "1 \<le> w" "c * (w + 1) \<le> lg_width g + 1" and h: "1 \<le> h" and c: "1 \<le> c"
    and bound: "lg_width g \<le> i32_max"
  shows "k = 0 \<and> n = 0 \<or> 0 < k \<and> (k - 1) * c < n \<and> n \<le> k * c \<Longrightarrow>
    (let rs = tiled_rows k n g (lg_width g) c w h y
     in length rs = k \<and> list_all tiles rs \<and> list_all (\<lambda>r. axis_size r LeftRight = lg_width g) rs
        \<and> extent TopBottom rs = k * (h + 1) \<and> list_all proper rs \<and> sum_list (map leaf_count rs) = n)"
proof (induction k arbitrary: n y)
  case (Suc k)
  define p where "p = min n c"
  have n: "k * c < n" "n \<le> Suc k * c" using Suc.prems by auto
  have p: "1 \<le> p" "p \<le> c" "p \<le> n" using n c by (auto simp: p_def)
  note rest = rows_step [OF n, folded p_def]
  note row = tiled_row_ok [OF p(1,2) w h bound refl]
  show ?case
    using Suc.IH [OF rest] row n p(3) by (simp add: Let_def p_def [symmetric])
qed simp

section \<open>The tree\<close>

definition max_columns :: "layout_options \<Rightarrow> usize option" where
  "max_columns options = (case tiled_max_columns options of
     None \<Rightarrow> None | Some c \<Rightarrow> if c > 0 then Some c else None)"

lemma tiled_axis_size:
  assumes n: "1 \<le> n" and s: "2 * n \<le> s + 1" and bound: "s \<le> i32_max"
  defines "e \<equiv> max ((s - (n - 1)) div n) PANE_MINIMUM"
  shows "u32_wrap n = n" "1 \<le> e" "n * (e + 1) \<le> s + 1" "u32_add e PANE_BORDER_CELLS = e + 1"
    "max (u32_mul (e + 1) n - PANE_BORDER_CELLS) s = s"
    "u32_sat_add (u32_mul n e) (n - 1) = n * (e + 1) - 1"
proof -
  have max: "i32_max + 1 \<le> u32_max" by (simp add: machine_defs)
  show "u32_wrap n = n" using s bound max by (intro u32_wrap_id) linarith
  define q where "q = (s - (n - 1)) div n"
  have "n div n \<le> q" unfolding q_def by (rule div_le_mono) (use s n in linarith)
  then have q: "1 \<le> q" using n by simp
  then have e: "e = q" by (simp add: e_def q_def PANE_MINIMUM_def)
  show "1 \<le> e" using q e by simp
  have "n * q \<le> s - (n - 1)" by (simp add: q_def)
  then show nq: "n * (e + 1) \<le> s + 1" using n s by (simp add: e)
  moreover have "1 * (e + 1) \<le> n * (e + 1)" using n by (rule mult_le_mono1)
  ultimately show "u32_add e PANE_BORDER_CELLS = e + 1"
    using bound max by (simp add: PANE_BORDER_CELLS_def u32_add_exact)
  show "max (u32_mul (e + 1) n - PANE_BORDER_CELLS) s = s"
    using nq bound max by (simp add: PANE_BORDER_CELLS_def u32_mul_exact mult.commute)
  have "n * e \<le> n * (e + 1)" by simp
  then show "u32_sat_add (u32_mul n e) (n - 1) = n * (e + 1) - 1"
    using nq n bound max by (simp add: u32_mul_exact u32_sat_add_def)
qed

lemma build_tiled_shape:
  assumes "tiled_grid_size n (max_columns o1) = (r, c)"
  shows "shape (lt_root (build_tiled n g o1)) = Split (new_geometry 0 0 0 0) TopBottom (row_shapes r n c)"
proof -
  have "shape (fix_offsets (Split g TopBottom
      (if b then update_last (\<lambda>row. resize_adjust row TopBottom z) rs else rs)) 0 0)
      = Split (new_geometry 0 0 0 0) TopBottom (map shape rs)" for b z rs
    by (cases b) (simp_all del: fix_offsets.simps)
  then show ?thesis
    unfolding build_tiled_def max_columns_def [symmetric] assms Let_def prod.case
    by (simp only: layout_tree.select_convs tiled_rows_shape)
qed

lemma same_shapes:
  assumes "map shape ys = map shape xs"
  shows "length ys = length xs" "map leaf_count ys = map leaf_count xs" "list_all proper ys = list_all proper xs"
proof -
  show "length ys = length xs" using assms by (metis length_map)
  have "map leaf_count (map shape ys) = map leaf_count (map shape xs)"
    "map proper (map shape ys) = map proper (map shape xs)" by (simp_all only: assms)
  then have kept: "map leaf_count ys = map leaf_count xs" "map proper ys = map proper xs"
    by (simp_all add: comp_def leaf_count_shape proper_shape)
  have "list_all proper zs \<longleftrightarrow> False \<notin> set (map proper zs)" for zs by (induction zs) auto
  with kept show "map leaf_count ys = map leaf_count xs" "list_all proper ys = list_all proper xs"
    by (simp_all only:)
qed

lemma row_shape_minimum:
  assumes "1 \<le> p" "p \<le> c" "2 * p \<le> u32_max"
  shows "pair_axis (minimum_size (row_shape c p)) LeftRight = 2 * p - 1"
    and "pair_axis (minimum_size (row_shape c p)) TopBottom = 1"
proof -
  have "map shape (replicate p leaf_shape) = replicate p leaf_shape" by simp
  note leaves = leaves_shape [OF this]
  have "pair_axis (minimum_size (Split (new_geometry 0 0 0 0) LeftRight (replicate p leaf_shape))) LeftRight
      = 2 * length (replicate p leaf_shape) - 1"
    using assms leaves(4) by (intro minimum_along_ones) (auto simp: PANE_MINIMUM_def)
  moreover have "pair_axis (minimum_size (Split (new_geometry 0 0 0 0) LeftRight (replicate p leaf_shape))) (cross LeftRight) = 1"
    using leaves(4) by (intro minimum_across_ones) blast
  ultimately show "pair_axis (minimum_size (row_shape c p)) LeftRight = 2 * p - 1"
    "pair_axis (minimum_size (row_shape c p)) TopBottom = 1"
    using assms(1,2) by (auto simp: row_shape_def PANE_MINIMUM_def)
qed

lemma row_shapes_ok:
  "k = 0 \<and> n = 0 \<or> 0 < k \<and> (k - 1) * c < n \<and> n \<le> k * c \<Longrightarrow> length (row_shapes k n c) = k"
  "1 \<le> c \<Longrightarrow> 2 * n \<le> u32_max \<Longrightarrow> x \<in> set (row_shapes k n c) \<Longrightarrow> pair_axis (minimum_size x) TopBottom = 1"
proof (induction k arbitrary: n)
  case (Suc k)
  { case 1
    then have n: "k * c < n" "n \<le> Suc k * c" by auto
    show ?case using Suc(1) [OF rows_step [OF n]] n by simp
  next
    case 2
    then show ?case
      using row_shape_minimum(2) [of "min n c" c] Suc(2) [of "n - min n c"] by (auto split: if_splits)
  }
qed simp_all

lemma tiled_room:
  assumes fits: "fits t g" and shape: "shape t = Split (new_geometry 0 0 0 0) TopBottom (row_shapes r n c)"
    and grid: "2 \<le> r" "1 \<le> c" "c < n" "n \<le> r * c" "(r - 1) * c < n" and n: "2 * n \<le> i32_max"
  shows "2 * c \<le> lg_width g + 1" "2 * r \<le> lg_height g + 1"
proof -
  let ?rs = "row_shapes r n c"
  have u32: "2 * n \<le> u32_max" using n i32_max_le_u32_max by (rule le_trans)
  have len: "length ?rs = r" using row_shapes_ok(1) grid by simp
  have min: "minimum_size t = minimum_size (Split (new_geometry 0 0 0 0) TopBottom ?rs)"
    using minimum_size_shape [of t] by (simp only: shape)
  have "(r - 1) * 1 \<le> (r - 1) * c" using grid(2) by (rule mult_le_mono2)
  then have "r \<le> n" using grid(5) by linarith
  then have "pair_axis (minimum_size (Split (new_geometry 0 0 0 0) TopBottom ?rs)) TopBottom = 2 * length ?rs - 1"
    using len grid(1,2) u32 row_shapes_ok(2) [OF grid(2) u32] by (intro minimum_along_ones) auto
  then show "2 * r \<le> lg_height g + 1"
    using fitsD(1) [OF fits, of TopBottom] grid(1) by (simp add: min len)
  have "row_shape c c \<in> set ?rs" using grid by (cases r) simp_all
  then have "pair_axis (minimum_size (row_shape c c)) (cross TopBottom)
      \<le> pair_axis (minimum_size (Split (new_geometry 0 0 0 0) TopBottom ?rs)) (cross TopBottom)"
    by (rule minimum_across_ge)
  moreover have "pair_axis (minimum_size (row_shape c c)) LeftRight = 2 * c - 1"
    using row_shape_minimum grid(2,3) u32 by simp
  ultimately show "2 * c \<le> lg_width g + 1"
    using fitsD(1) [OF fits, of LeftRight] by (simp add: min)
qed

lemma build_tiled_built:
  assumes n: "2 \<le> n" "2 * n \<le> i32_max" and fits: "fits (lt_root (build_tiled n g o1)) g"
  shows "built n g (build_tiled n g o1)"
proof -
  obtain r c where rc: "tiled_grid_size n (max_columns o1) = (r, c)" by fastforce
  have "max_columns o1 \<noteq> Some 0" by (auto simp: max_columns_def split: option.splits)
  note grid = tiled_grid_size_ok [OF rc n(1) this]
  let ?W = "lg_width g" and ?H = "lg_height g"
  let ?w = "max ((?W - (c - 1)) div c) PANE_MINIMUM"
  let ?h = "max ((?H - (r - 1)) div r) PANE_MINIMUM"
  note room = tiled_room [OF fits build_tiled_shape [OF rc] grid n(2)]
  note W = tiled_axis_size [OF grid(2) room(1) fitsD(2) [OF fits, of LeftRight, simplified]]
  note H = tiled_axis_size [OF _ room(2) fitsD(2) [OF fits, of TopBottom, simplified]]
  have r: "1 \<le> r" using grid(1) by simp
  let ?rs = "tiled_rows r n g ?W c ?w ?h 0"
  have rows: "length ?rs = r" "list_all tiles ?rs" "list_all (\<lambda>c. axis_size c (cross TopBottom) = ?W) ?rs"
    "extent TopBottom ?rs = r * (?h + 1)" "list_all proper ?rs" "sum_list (map leaf_count ?rs) = n"
    using tiled_rows_ok [OF W(2,3) H(2) [OF r] grid(2), of r n 0] grid fitsD(2) [OF fits, of LeftRight]
    by (simp_all add: Let_def)
  have ne: "?rs \<noteq> []" using rows(1) r by auto
  define z where "z = ?H + 1 - r * (?h + 1)"
  define ys where "ys = (if z > 0
    then update_last (\<lambda>row. resize_adjust row TopBottom (u32_as_i32 z)) ?rs else ?rs)"
  have ext: "extent TopBottom ?rs + z = ?H + 1" using rows(4) H(3) [OF r] by (simp add: z_def)
  have extra: "?H - min (r * (?h + 1) - 1) ?H = z" using H(3) [OF r] r by (simp add: z_def)
  have root: "lt_root (build_tiled n g o1) = fix_offsets (Split g TopBottom ys) 0 0"
    unfolding build_tiled_def max_columns_def [symmetric] rc Let_def prod.case ys_def
    by (simp only: layout_tree.select_convs W(1) W(4,5) H(1) [OF r] H(4,5,6) [OF r] extra)
  note rest = last_takes_rest [OF ne rows(2,3) ext fitsD(2) [OF fits, of TopBottom, simplified], folded ys_def]
  note same = same_shapes [OF rest(5)]
  have "leaf_count (Split g TopBottom ys) = n" "proper (Split g TopBottom ys)"
    using rows(5) grid(1) by (simp_all only: leaf_count.simps proper.simps same rows(1,6))
  moreover have "tiles (Split g TopBottom ys)" using rest(1-4) by simp
  moreover have "axis_size (lt_root (build_tiled n g o1)) d = axis_of g d" for d
    by (simp only: root axis_size_fix_offsets) (simp add: axis_size_def)
  moreover have "lt_leaf_map (build_tiled n g o1) = None"
    unfolding build_tiled_def max_columns_def [symmetric] rc Let_def prod.case by simp
  ultimately show ?thesis
    by (simp only: built_def root tiles_fix_offsets proper_fix_offsets leaf_count_fix_offsets leaf_map_ok_def option.case) simp
qed

section \<open>All preset layouts\<close>

definition valid_options :: "layout_options \<Rightarrow> bool" where
  "valid_options o1 \<longleftrightarrow> requested_main_width o1 \<noteq> Some 0 \<and> requested_main_height o1 \<noteq> Some 0"

lemma build_named_built:
  assumes n: "2 \<le> n" "2 * n \<le> i32_max" and fits: "fits (lt_root (build_named l n g o1)) g"
    and o1: "valid_options o1"
  shows "built n g (build_named l n g o1)"
proof -
  have v: "3 \<le> axis_of g LeftRight \<Longrightarrow>
      1 \<le> resolve_main_pane_size (lg_width g) (requested_main_width o1) DEFAULT_MAIN_PANE_WIDTH \<and>
      resolve_main_pane_size (lg_width g) (requested_main_width o1) DEFAULT_MAIN_PANE_WIDTH + 2 \<le> axis_of g LeftRight"
    using resolve_main_pane_size_bounds [of "lg_width g" "requested_main_width o1" DEFAULT_MAIN_PANE_WIDTH]
      fitsD(2) [OF fits, of LeftRight] o1 by (simp add: valid_options_def DEFAULT_MAIN_PANE_WIDTH_def)
  have h: "3 \<le> axis_of g TopBottom \<Longrightarrow>
      1 \<le> resolve_main_pane_size (lg_height g) (requested_main_height o1) DEFAULT_MAIN_PANE_HEIGHT \<and>
      resolve_main_pane_size (lg_height g) (requested_main_height o1) DEFAULT_MAIN_PANE_HEIGHT + 2 \<le> axis_of g TopBottom"
    using resolve_main_pane_size_bounds [of "lg_height g" "requested_main_height o1" DEFAULT_MAIN_PANE_HEIGHT]
      fitsD(2) [OF fits, of TopBottom] o1 by (simp add: valid_options_def DEFAULT_MAIN_PANE_HEIGHT_def)
  show ?thesis
    using fits build_even_built [OF n, of _ g] build_tiled_built [OF n]
      main_layout_built [OF build_main_vertical_layout [OF n(1)] n _ v] main_layout_built [OF build_main_horizontal_layout [OF n(1)] n _ h]
    by (cases l) (simp_all add: build_named_def)
qed

text \<open>The shape of a preset layout does not depend on the geometry it is built for.\<close>

lemma main_layout_shape:
  "main_layout d n g m mirrored t \<Longrightarrow> shape (lt_root t) =
     (let z = new_geometry 0 0 0 0;
          secondary = (if n = 2 then leaf_shape else Split z (cross d) (replicate (n - 1) leaf_shape))
      in Split z d (if mirrored then [secondary, leaf_shape] else [leaf_shape, secondary]))"
  unfolding main_layout_def Let_def by (elim exE conjE) (simp del: fix_offsets.simps)

lemma build_named_shape:
  assumes n: "2 \<le> n"
  shows "shape (lt_root (build_named l n g o1)) = shape (lt_root (build_named l n g' o1))"
proof -
  have even: "shape (lt_root (build_even d n g)) = Split (new_geometry 0 0 0 0) d (replicate n leaf_shape)" for d g
    by (cases d) (simp_all add: build_even_def)
  obtain r c where "tiled_grid_size n (max_columns o1) = (r, c)" by fastforce
  note tiled = build_tiled_shape [OF this]
  show ?thesis
    by (cases l) (simp_all add: build_named_def even tiled
        main_layout_shape [OF build_main_vertical_layout [OF n]] main_layout_shape [OF build_main_horizontal_layout [OF n]])
qed

lemma row_shapes_leaves:
  "1 \<le> c \<Longrightarrow> n \<le> k * c \<Longrightarrow> sum_list (map leaf_count (row_shapes k n c)) = n"
  "1 \<le> c \<Longrightarrow> list_all proper (row_shapes k n c)"
proof (induction k arbitrary: n)
  case (Suc k)
  have row: "leaf_count (row_shape c p) = p \<and> proper (row_shape c p)" if "1 \<le> p" "p \<le> c" for p
    using that by (auto simp: row_shape_def sum_list_replicate list_all_iff)
  { case 1
    then show ?case using Suc(1) [of "n - min n c"] row [of "min n c"] by auto
  next
    case 2
    then show ?case using Suc(2) row [of "min n c"] by auto
  }
qed simp_all

lemma build_named_leaves:
  assumes n: "2 \<le> n"
  shows "leaf_count (lt_root (build_named l n g o1)) = n" "proper (lt_root (build_named l n g o1))"
proof -
  let ?t = "lt_root (build_named l n g o1)"
  have even: "shape (lt_root (build_even d n g)) = Split (new_geometry 0 0 0 0) d (replicate n leaf_shape)" for d
    by (cases d) (simp_all add: build_even_def)
  obtain r c where rc: "tiled_grid_size n (max_columns o1) = (r, c)" by fastforce
  have "max_columns o1 \<noteq> Some 0" by (auto simp: max_columns_def split: option.splits)
  note grid = tiled_grid_size_ok [OF rc n this]
  have tiled: "leaf_count (shape (lt_root (build_tiled n g o1))) = n" "proper (shape (lt_root (build_tiled n g o1)))"
    using grid row_shapes_leaves(1) [of c n r] row_shapes_leaves(2) [of c r n] row_shapes_ok(1) [of r n c] by (simp_all add: build_tiled_shape [OF rc])
  have "leaf_count (shape ?t) = n \<and> proper (shape ?t)"
    using n tiled by (cases l) (auto simp: build_named_def even sum_list_replicate list_all_iff Let_def
        main_layout_shape [OF build_main_vertical_layout [OF n]] main_layout_shape [OF build_main_horizontal_layout [OF n]])
  then show "leaf_count ?t = n" "proper ?t" by (simp_all add: leaf_count_shape proper_shape)
qed

lemma fold_minimum_step_le:
  "fst (fold (minimum_step d) ms (s, w, t)) \<le> s + sum_list (map (\<lambda>m. pair_axis m d) ms)"
proof (induction ms arbitrary: s w t)
  case (Cons m ms)
  obtain a b where m: "m = (a, b)" by (cases m)
  have le: "u32_sat_add s x \<le> s + x" for x by (simp add: u32_sat_add_def)
  show ?case
    using Cons.IH [of "u32_sat_add s a" w "max t b"] Cons.IH [of "u32_sat_add s b" "max w a" t] le [of a] le [of b]
    by (cases d) (simp_all add: m)
qed simp

lemma sum_le_leaves:
  assumes "cs \<noteq> []" "\<forall>c \<in> set cs. f c + 1 \<le> 2 * leaf_count c"
  shows "length cs - 1 + sum_list (map f cs) + 1 \<le> 2 * sum_list (map leaf_count cs)"
  using assms by (induction cs rule: list_nonempty_induct) auto

lemma minimum_le_leaves: "proper c \<Longrightarrow> pair_axis (minimum_size c) d + 1 \<le> 2 * leaf_count c"
proof (induction c arbitrary: d)
  case (Pane g)
  then show ?case by (cases d) (simp_all add: PANE_MINIMUM_def)
next
  case (Split g sd cs)
  have kids: "pair_axis (minimum_size c) d + 1 \<le> 2 * leaf_count c" if "c \<in> set cs" for c d
    using Split that by (simp add: list_all_iff)
  have ne: "cs \<noteq> []" using Split.prems by auto
  then obtain c where c: "c \<in> set cs" by (cases cs) auto
  have part: "leaf_count c \<le> sum_list (map leaf_count cs)" if "c \<in> set cs" for c
    using that by (simp add: member_le_sum_list)
  have pos: "1 \<le> sum_list (map leaf_count cs)" using kids [OF c, of d] part [OF c] by simp
  show ?case
  proof (cases "d = sd")
    case True
    let ?b = "u32_sat_mul PANE_BORDER_CELLS (usize_try_u32 (length cs - 1))"
    let ?f = "fold (minimum_step sd) (map minimum_size cs) (?b, PANE_MINIMUM, PANE_MINIMUM)"
    have "?b \<le> length cs - 1" by (simp add: u32_sat_mul_def usize_try_u32_def PANE_BORDER_CELLS_def)
    then have "fst ?f \<le> length cs - 1 + sum_list (map (\<lambda>c. pair_axis (minimum_size c) sd) cs)"
      using fold_minimum_step_le [of sd "map minimum_size cs" ?b] by (simp add: comp_def) (meson add_le_cancel_right le_trans)
    also have "\<dots> + 1 \<le> 2 * sum_list (map leaf_count cs)"
      using sum_le_leaves [OF ne, of "\<lambda>c. pair_axis (minimum_size c) sd"] kids by blast
    finally have "fst ?f + 1 \<le> 2 * sum_list (map leaf_count cs)" by simp
    then have "max (fst ?f) PANE_MINIMUM + 1 \<le> 2 * sum_list (map leaf_count cs)"
      using pos unfolding PANE_MINIMUM_def by linarith
    then show ?thesis using True by (cases ?f; cases sd) (simp_all add: minimum_size.simps)
  next
    case False
    then have d: "d = cross sd" by (cases d; cases sd) simp_all
    have "x + 1 \<le> 2 * sum_list (map leaf_count cs)"
      if "x \<in> insert PANE_MINIMUM (set (map (\<lambda>c. pair_axis (minimum_size c) (cross sd)) cs))" for x
      using that pos kids part by (fastforce simp: PANE_MINIMUM_def intro: le_trans)
    then show ?thesis unfolding d minimum_size_across fold_max_eq leaf_count.simps
      by (metis (no_types, lifting) Max_in List.finite_set finite_insert insert_not_empty)
  qed
qed

lemma built_wf:
  assumes "built n g t" "\<And>d. axis_of g d \<le> i32_max"
  shows "wf_tree (t\<lparr>lt_root := fix_offsets (lt_root t) 0 0\<rparr>)"
  using assms(1) assms(2) [of LeftRight] assms(2) [of TopBottom]
  by (auto simp: built_def wf_tree_def leaf_map_ok_def split: option.splits)

theorem named_outcome:
  assumes n: "2 * n \<le> i32_max" and sz: "valid_size sz" "1 \<le> cols sz" "1 \<le> rows sz" and o1: "valid_options o1"
  shows "wf_tree (named l n sz o1)" "tree_leaf_count (named l n sz o1) = max 1 n"
    and "2 \<le> n \<Longrightarrow> axis_size (lt_root (named l n sz o1)) LeftRight
      = max (cols sz) (fst (minimum_size (lt_root (named l n sz o1))))"
    and "2 \<le> n \<Longrightarrow> axis_size (lt_root (named l n sz o1)) TopBottom
      = max (rows sz) (snd (minimum_size (lt_root (named l n sz o1))))"
proof -
  have small: "cols sz \<le> i32_max" "rows sz \<le> i32_max"
    using sz(1) by (auto simp: valid_size_def u16_max_def i32_max_def)
  have one: "wf_tree (named l n sz o1) \<and> tree_leaf_count (named l n sz o1) = max 1 n" if "n \<le> 1"
    using that sz(2,3) small
    by (simp add: named_def single_def wf_tree_def leaf_map_ok_def tree_leaf_count_def new_geometry_def axis_size_def)
  let ?g = "new_geometry (cols sz) (rows sz) 0 0"
  let ?m = "minimum_size (lt_root (build_named l n ?g o1))"
  let ?g2 = "new_geometry (max (cols sz) (fst ?m)) (max (rows sz) (snd ?m)) 0 0"
  let ?t = "build_named l n ?g2 o1"
  have eq: "named l n sz o1 = ?t\<lparr>lt_root := fix_offsets (lt_root ?t) 0 0\<rparr>" if "2 \<le> n"
    using that by (cases ?m) (auto simp: named_def Let_def new_geometry_def max_def)
  have fits: "fits (lt_root ?t) ?g2" if "2 \<le> n"
  proof -
    have min: "minimum_size (lt_root ?t) = ?m"
      by (rule same_shape_minimum) (rule build_named_shape [OF that])
    have "pair_axis ?m d + 1 \<le> 2 * n" for d
      using minimum_le_leaves build_named_leaves [OF that] by metis
    then have "pair_axis ?m d \<le> i32_max" for d using n by (meson Suc_leD add_leD1 le_trans)
    from this [of LeftRight] this [of TopBottom] have "fst ?m \<le> i32_max" "snd ?m \<le> i32_max"
      by (cases ?m; simp)+
    then have "pair_axis ?m d \<le> axis_of ?g2 d \<and> axis_of ?g2 d \<le> i32_max" for d
      using small by (cases ?m; cases d) (simp_all add: new_geometry_def)
    then show ?thesis by (simp add: fits_def min)
  qed
  have many: "built n ?g2 ?t" if "2 \<le> n"
    by (rule build_named_built [OF that n fits [OF that] o1])
  have size: "axis_size (lt_root (named l n sz o1)) LeftRight = max (cols sz) (fst ?m)"
    "axis_size (lt_root (named l n sz o1)) TopBottom = max (rows sz) (snd ?m)"
    "minimum_size (lt_root (named l n sz o1)) = ?m" if "2 \<le> n"
  proof -
    show "axis_size (lt_root (named l n sz o1)) LeftRight = max (cols sz) (fst ?m)"
      "axis_size (lt_root (named l n sz o1)) TopBottom = max (rows sz) (snd ?m)"
      using many [OF that] by (simp_all add: eq [OF that] built_def new_geometry_def)
    show "minimum_size (lt_root (named l n sz o1)) = ?m"
      by (rule same_shape_minimum) (simp add: eq [OF that] build_named_shape [OF that, of l ?g2 o1 ?g])
  qed
  show "wf_tree (named l n sz o1)"
  proof (cases "n \<le> 1")
    case False
    then have n2: "2 \<le> n" by simp
    show ?thesis
      unfolding eq [OF n2] by (rule built_wf [OF many [OF n2] fitsD(2) [OF fits [OF n2]]])
  qed (simp add: one)
  show "tree_leaf_count (named l n sz o1) = max 1 n"
    using one many eq by (cases "n \<le> 1") (simp_all add: built_def tree_leaf_count_def)
  show "2 \<le> n \<Longrightarrow> axis_size (lt_root (named l n sz o1)) LeftRight
      = max (cols sz) (fst (minimum_size (lt_root (named l n sz o1))))"
    "2 \<le> n \<Longrightarrow> axis_size (lt_root (named l n sz o1)) TopBottom
      = max (rows sz) (snd (minimum_size (lt_root (named l n sz o1))))"
    using size by simp_all
qed

text \<open>A preset layout is built for the size of the window, or for a larger one.\<close>

lemma named_geometry:
  assumes "2 \<le> n"
  obtains g where "cols sz \<le> lg_width g" "rows sz \<le> lg_height g"
    "named l n sz o1 = (build_named l n g o1)\<lparr>lt_root := fix_offsets (lt_root (build_named l n g o1)) 0 0\<rparr>"
proof -
  let ?g = "new_geometry (cols sz) (rows sz) 0 0"
  let ?m = "minimum_size (lt_root (build_named l n ?g o1))"
  let ?g2 = "new_geometry (max (cols sz) (fst ?m)) (max (rows sz) (snd ?m)) 0 0"
  let ?t = "build_named l n ?g2 o1"
  have "named l n sz o1 = ?t\<lparr>lt_root := fix_offsets (lt_root ?t) 0 0\<rparr>"
    using assms by (cases ?m) (auto simp: named_def Let_def new_geometry_def max_def)
  then show ?thesis using that [of ?g2] by (simp add: new_geometry_def)
qed

end
