(* ===== verification/Rmux_Text.thy ===== *)
theory Rmux_Text
  imports Rmux_Prelude
begin

text \<open>
  Text shared by the components: the error enumeration of \<open>crates/rmux-proto/src/error.rs\<close>,
  the decimal and hexadecimal text of numbers as Rust's formatting writes it, and its parsing by
  \<open>str::parse\<close> and \<open>from_str_radix\<close>. A string is its list of bytes.
\<close>

section \<open>Errors\<close>

datatype rmux_error =
    EmptySessionName
  | InvalidSessionNameCharacter
  | InvalidTarget (target_value: string) (target_reason: string)
  | UnknownCommand string
  | DuplicateSession string
  | SessionNotFound string
  | Server string
  | Message string
  | InvalidSetOption string
  | FrameTooLarge (frame_length_claimed: usize) (frame_maximum: usize)
  | EmptyFrame
  | BadFrameMagic nat
  | UnsupportedWireVersion (version_got: u32) (version_minimum: u32) (version_maximum: u32)
  | UnsupportedCapability string "string list"
  | IncompleteFrame (bytes_expected: usize) (bytes_received: usize)
  | Encode string
  | Decode string
  | PaneNotFound string u32
  | ProcessStillRunning
  | SpawnFailed string
  | OwnedSessionLeaseLost string

type_synonym 'a result = "(rmux_error, 'a) res"

section \<open>Decimal numbers\<close>

definition digit :: "nat \<Rightarrow> char" where
  "digit n = char_of (48 + n)"

definition is_digit :: "char \<Rightarrow> bool" where
  "is_digit c \<longleftrightarrow> 48 \<le> (of_char c :: nat) \<and> (of_char c :: nat) \<le> 57"

definition digit_value :: "char \<Rightarrow> nat" where
  "digit_value c = of_char c - 48"

fun decimal :: "nat \<Rightarrow> string" where
  "decimal n = (if n < 10 then [digit n] else decimal (n div 10) @ [digit (n mod 10)])"

declare decimal.simps [simp del]

definition digits_value :: "string \<Rightarrow> nat" where
  "digits_value s = foldl (\<lambda>v c. 10 * v + digit_value c) 0 s"

text \<open>\<open>parse::<u32>()\<close> on a non-empty run of digits: it fails when the value does not fit.\<close>

definition u32_of_digits :: "string \<Rightarrow> u32 option" where
  "u32_of_digits s = (if digits_value s \<le> u32_max then Some (digits_value s) else None)"

lemma digit_simps [simp]:
  "n < 10 \<Longrightarrow> is_digit (digit n)" "n < 10 \<Longrightarrow> digit_value (digit n) = n"
  by (simp_all add: digit_def is_digit_def digit_value_def)

lemma decimal_digits: "\<forall>c \<in> set (decimal n). is_digit c"
proof (induction n rule: decimal.induct)
  case (1 n)
  then show ?case by (subst decimal.simps) auto
qed

lemma decimal_nonempty [simp]: "decimal n \<noteq> []"
  by (subst decimal.simps) simp

lemma decimal_value [simp]: "digits_value (decimal n) = n"
proof (induction n rule: decimal.induct)
  case (1 n)
  then show ?case by (subst decimal.simps) (simp add: digits_value_def)
qed

lemma u32_of_decimal [simp]: "n \<le> u32_max \<Longrightarrow> u32_of_digits (decimal n) = Some n"
  by (simp add: u32_of_digits_def)

lemma decimal_inject [simp]: "decimal m = decimal n \<longleftrightarrow> m = n"
  by (metis decimal_value)

text \<open>Reading the digits off the front of a text.\<close>

lemma takeWhile_decimal:
  "\<not> (\<exists>c cs. rest = c # cs \<and> is_digit c) \<Longrightarrow> takeWhile is_digit (decimal n @ rest) = decimal n"
  "\<not> (\<exists>c cs. rest = c # cs \<and> is_digit c) \<Longrightarrow> dropWhile is_digit (decimal n @ rest) = rest"
  using decimal_digits [of n] by (cases rest; simp)+

section \<open>Hexadecimal numbers\<close>

definition hex_digit :: "nat \<Rightarrow> char" where
  "hex_digit n = (if n < 10 then char_of (48 + n) else char_of (87 + n))"

text \<open>The format \<open>{:04x}\<close> of a \<open>u16\<close>.\<close>

definition hex4 :: "u16 \<Rightarrow> string" where
  "hex4 n = [hex_digit (n div 4096 mod 16), hex_digit (n div 256 mod 16),
             hex_digit (n div 16 mod 16), hex_digit (n mod 16)]"

definition hex_value :: "char \<Rightarrow> nat option" where
  "hex_value c =
     (let b = (of_char c :: nat) in
      if 48 \<le> b \<and> b \<le> 57 then Some (b - 48)
      else if 97 \<le> b \<and> b \<le> 102 then Some (b - 87)
      else if 65 \<le> b \<and> b \<le> 70 then Some (b - 55)
      else None)"

fun hex_digits_value :: "nat \<Rightarrow> string \<Rightarrow> nat option" where
  "hex_digits_value v [] = Some v"
| "hex_digits_value v (c # cs) =
     (case hex_value c of None \<Rightarrow> None | Some d \<Rightarrow> hex_digits_value (16 * v + d) cs)"

text \<open>\<open>u16::from_str_radix(_, 16)\<close>: a leading plus is accepted, an empty number is not.\<close>

definition u16_from_hex :: "string \<Rightarrow> u16 option" where
  "u16_from_hex s =
     (let ds = (case s of [] \<Rightarrow> [] | c # cs \<Rightarrow> if c = CHR ''+'' then cs else s)
      in if ds = [] then None
         else case hex_digits_value 0 ds of
                None \<Rightarrow> None
              | Some v \<Rightarrow> if v \<le> u16_max then Some v else None)"

lemma hex_value_digit [simp]: "n < 16 \<Longrightarrow> hex_value (hex_digit n) = Some n"
  by (auto simp: hex_value_def hex_digit_def Let_def)

lemma hex_digit_not_plus: "n < 16 \<Longrightarrow> hex_digit n \<noteq> CHR ''+''"
proof
  assume n: "n < 16" and "hex_digit n = CHR ''+''"
  then have "(of_char (hex_digit n) :: nat) = of_char (CHR ''+'')" by simp
  then show False using n by (auto simp: hex_digit_def split: if_splits)
qed

lemma hex4_length [simp]: "length (hex4 n) = 4"
  by (simp add: hex4_def)

lemma hex4_roundtrip [simp]: "n \<le> u16_max \<Longrightarrow> u16_from_hex (hex4 n) = Some n"
proof -
  assume n: "n \<le> u16_max"
  have div: "n div 256 = n div 16 div 16" "n div 4096 = n div 16 div 16 div 16"
    by (simp_all add: div_mult2_eq [symmetric])
  have small: "n div 4096 < 16" using n by (simp add: u16_max_def less_mult_imp_div_less)
  then have top: "n div 4096 mod 16 = n div 4096" by simp
  have "16 * (16 * (16 * (n div 4096) + n div 256 mod 16) + n div 16 mod 16) + n mod 16 = n"
    by (simp add: div)
  then show ?thesis
    using n small hex_digit_not_plus [OF small]
    by (simp add: u16_from_hex_def hex4_def Let_def top)
qed

lemma hex_digit_not_comma: "n < 16 \<Longrightarrow> hex_digit n \<noteq> CHR '',''"
proof
  assume n: "n < 16" and "hex_digit n = CHR '',''"
  then have "(of_char (hex_digit n) :: nat) = of_char (CHR '','')" by simp
  then show False using n by (auto simp: hex_digit_def split: if_splits)
qed

lemma hex4_no_comma: "CHR '','' \<notin> set (hex4 n)"
  using hex_digit_not_comma [of "n div 4096 mod 16"] hex_digit_not_comma [of "n div 256 mod 16"]
    hex_digit_not_comma [of "n div 16 mod 16"] hex_digit_not_comma [of "n mod 16"]
  by (auto simp: hex4_def)

end
