(* ===== verification/Layout_Text.thy ===== *)
theory Layout_Text
  imports Layout_Tree_Props Rmux_Text
begin

text \<open>
  The text of a layout (\<open>select-layout\<close> strings): \<open>dump\<close> and \<open>parse\<close> of
  \<open>crates/rmux-core/src/layout.rs\<close>, \<open>dump_body\<close> of \<open>layout/cell.rs\<close> and the
  parser of \<open>layout/parser.rs\<close>. The parser's offset into its input is represented by the rest
  of the input; going back to a saved offset is keeping the earlier rest. Definitions and the lemmas
  their termination needs; the properties are in \<open>Layout_Text_Props\<close>.
\<close>

section \<open>Writing\<close>

definition layout_checksum :: "string \<Rightarrow> u16" where
  "layout_checksum layout =
     foldl (\<lambda>checksum byte.
       (checksum div 2 + (checksum mod 2) * 32768 + of_char byte) mod 65536) 0 layout"

definition geometry_text :: "layout_geometry \<Rightarrow> string" where
  "geometry_text g = decimal (lg_width g) @ ''x'' @ decimal (lg_height g) @ '','' @ decimal (lg_x g)
     @ '','' @ decimal (lg_y g)"

fun open_bracket :: "layout_direction \<Rightarrow> char" where
  "open_bracket LeftRight = CHR ''{''"
| "open_bracket TopBottom = CHR ''[''"

fun close_bracket :: "layout_direction \<Rightarrow> char" where
  "close_bracket LeftRight = CHR ''}''"
| "close_bracket TopBottom = CHR '']''"

text \<open>The iterator over the pane ids is threaded through as the list of the ids still to be used.\<close>

fun dump_body :: "layout_cell \<Rightarrow> u32 list \<Rightarrow> string \<times> u32 list"
  and dump_children :: "layout_cell list \<Rightarrow> nat \<Rightarrow> u32 list \<Rightarrow> string \<times> u32 list" where
  "dump_body (Pane g) ids =
     (case ids of
        [] \<Rightarrow> (geometry_text g, [])
      | i # ids' \<Rightarrow> (geometry_text g @ '','' @ decimal i, ids'))"
| "dump_body (Split g d cs) ids =
     (case dump_children cs 0 ids of
        (s, ids') \<Rightarrow> (geometry_text g @ [open_bracket d] @ s @ [close_bracket d], ids'))"
| "dump_children [] index ids = ([], ids)"
| "dump_children (c # cs) index ids =
     (case dump_body c ids of
        (s, ids') \<Rightarrow>
          (case dump_children cs (index + 1) ids' of
             (s', ids'') \<Rightarrow> ((if index > 0 then '','' else []) @ s @ s', ids'')))"

definition reordered_ids :: "usize list option \<Rightarrow> u32 list \<Rightarrow> u32 list" where
  "reordered_ids leaf_map pane_ids =
     (case leaf_map of
        None \<Rightarrow> pane_ids
      | Some m \<Rightarrow>
          fold (\<lambda>(pane_pos, leaf_idx) ids.
                  if pane_pos < length pane_ids \<and> leaf_idx < length ids
                  then ids[leaf_idx := pane_ids ! pane_pos] else ids)
            (zip [0..<length m] m) (replicate (length pane_ids) 0))"

definition dump :: "layout_tree \<Rightarrow> u32 list \<Rightarrow> string" where
  "dump t pane_ids =
     (let body = fst (dump_body (lt_root t) (reordered_ids (lt_leaf_map t) pane_ids))
      in hex4 (layout_checksum body) @ '','' @ body)"

section \<open>Reading\<close>

definition MAX_LAYOUT_PARSE_DEPTH :: nat where
  "MAX_LAYOUT_PARSE_DEPTH = 128"

definition invalid_layout :: rmux_error where
  "invalid_layout = Server ''invalid layout''"

definition parse_number :: "string \<Rightarrow> (u32 \<times> string) result" where
  "parse_number s =
     (case takeWhile is_digit s of
        [] \<Rightarrow> Inl invalid_layout
      | ds \<Rightarrow> (case u32_of_digits ds of
                 None \<Rightarrow> Inl invalid_layout
               | Some n \<Rightarrow> Inr (n, dropWhile is_digit s)))"

fun expect :: "char \<Rightarrow> string \<Rightarrow> string result" where
  "expect expected [] = Inl invalid_layout"
| "expect expected (c # cs) = (if c = expected then Inr cs else Inl invalid_layout)"

text \<open>
  The optional pane id after the position: it is read and dropped, unless the number belongs to
  the size of the next cell.
\<close>

definition skip_pane_id :: "string \<Rightarrow> string result" where
  "skip_pane_id s =
     (case s of
        c # cs \<Rightarrow>
          if c = CHR '','' then
            res_bind (parse_number cs) (\<lambda>(_, rest).
              case rest of
                x # _ \<Rightarrow> if x = CHR ''x'' then Inr s else Inr rest
              | [] \<Rightarrow> Inr rest)
          else Inr s
      | [] \<Rightarrow> Inr s)"

definition parse_geometry :: "string \<Rightarrow> (layout_geometry \<times> string) result" where
  "parse_geometry s =
     res_bind (parse_number s) (\<lambda>(w, s).
     res_bind (expect (CHR ''x'') s) (\<lambda>s.
     res_bind (parse_number s) (\<lambda>(h, s).
     res_bind (expect (CHR '','') s) (\<lambda>s.
     res_bind (parse_number s) (\<lambda>(x, s).
     res_bind (expect (CHR '','') s) (\<lambda>s.
     res_bind (parse_number s) (\<lambda>(y, s).
     res_bind (skip_pane_id s) (\<lambda>s. Inr (new_geometry w h x y, s)))))))))"

text \<open>
  The loop over the children of a split, for a parser \<open>p\<close> of one child. The check that the
  child consumed input is always true (\<open>parse_cell_at_consumes\<close>).
\<close>

function parse_children ::
  "(string \<Rightarrow> (layout_cell \<times> string) result) \<Rightarrow> char \<Rightarrow> string \<Rightarrow> (layout_cell list \<times> string) result" where
  "parse_children p close s =
     (case p s of
        Inl e \<Rightarrow> Inl e
      | Inr (c, rest) \<Rightarrow>
          (case rest of
             [] \<Rightarrow> Inl invalid_layout
           | k # rest' \<Rightarrow>
               if k = CHR '','' then
                 if length rest' < length s then
                   res_bind (parse_children p close rest') (\<lambda>(cs, rest''). Inr (c # cs, rest''))
                 else Inl invalid_layout
               else if k = close then Inr ([c], rest')
               else Inl invalid_layout))"
  by pat_completeness auto
termination
  by (relation "measure (\<lambda>(p, close, s). length s)") auto

declare parse_children.simps [simp del]

text \<open>
  \<open>parse_cell_at k\<close> is \<open>parse_cell_at_depth\<close> with \<open>k\<close> levels left before the depth
  limit.
\<close>

primrec parse_cell_at :: "nat \<Rightarrow> string \<Rightarrow> (layout_cell \<times> string) result" where
  "parse_cell_at 0 = (\<lambda>s. Inl (Server ''layout is too deeply nested''))"
| "parse_cell_at (Suc k) = (\<lambda>s.
     res_bind (parse_geometry s) (\<lambda>(g, s).
       case s of
         [] \<Rightarrow> Inr (Pane g, s)
       | c # cs \<Rightarrow>
           if c = CHR ''{'' then
             res_bind (parse_children (parse_cell_at k) (CHR ''}'') cs)
               (\<lambda>(children, rest). Inr (Split g LeftRight children, rest))
           else if c = CHR ''['' then
             res_bind (parse_children (parse_cell_at k) (CHR '']'') cs)
               (\<lambda>(children, rest). Inr (Split g TopBottom children, rest))
           else if c = CHR '','' \<or> c = CHR ''}'' \<or> c = CHR '']'' then Inr (Pane g, s)
           else Inl invalid_layout))"

definition parse_cell :: "string \<Rightarrow> (layout_cell \<times> string) result" where
  "parse_cell s = parse_cell_at (MAX_LAYOUT_PARSE_DEPTH + 1) s"

section \<open>Trimming to the number of panes\<close>

lemma leaf_count_with_geometry [simp]: "leaf_count (with_geometry c g) = leaf_count c"
  by (cases c) simp_all

lemma leaf_count_collapse [simp]: "leaf_count (collapse_single_child c) = leaf_count c"
proof (induction c)
  case (Split g d cs)
  then have same: "map (\<lambda>c. leaf_count (collapse_single_child c)) cs = map leaf_count cs" by simp
  show ?case
  proof (cases "length cs = 1")
    case True
    then obtain c where "cs = [c]" by (cases cs) auto
    then show ?thesis using same by (simp add: Let_def)
  next
    case False
    then have "leaf_count (collapse_single_child (Split g d cs))
        = sum_list (map (\<lambda>c. leaf_count (collapse_single_child c)) cs)" by (simp add: Let_def comp_def)
    then show ?thesis by (simp only: same leaf_count.simps)
  qed
qed simp

lemma remove_child_leaf_count:
  assumes "i < length cs"
  shows "sum_list (map leaf_count (remove_child d cs i)) + leaf_count (cs ! i) = sum_list (map leaf_count cs)"
proof -
  have "map leaf_count (remove_child d cs i) = map leaf_count (list_remove cs i)"
    using same_shape_leaf_count [OF shape_resize_adjust]
    by (simp add: remove_child_def Let_def map_update list_update_same_conv)
  moreover have "cs = take i cs @ cs ! i # drop (Suc i) cs" using assms by (rule id_take_nth_drop)
  then have "sum_list (map leaf_count cs) = sum_list (map leaf_count (take i cs @ cs ! i # drop (Suc i) cs))"
    by simp
  ultimately show ?thesis by (simp add: list_remove_def)
qed

lemma remove_leaf_fewer:
  assumes "remove_leaf t i = (t', True)"
  shows "leaf_count (lt_root t') + 1 = leaf_count (lt_root t)"
proof -
  have i: "i < leaf_count (lt_root t)"
    using assms by (auto simp: remove_leaf_def leaf_paths_def length_leaf_paths split: option.splits)
  let ?p = "leaf_paths t ! i"
  have p: "list_get (leaf_paths t) i = Some ?p" using i by (simp add: leaf_paths_def length_leaf_paths)
  have ne: "?p \<noteq> []" using assms p by (auto simp: remove_leaf_def)
  obtain g d cs where cell: "cell_at_path (lt_root t) (butlast ?p) = Some (Split g d cs)"
    and last: "last ?p < length cs" "cs ! last ?p = Pane (collect_leaf_geometries (lt_root t) ! i)"
    using leaf_parent [OF i _ ne] by (auto simp: leaf_paths_def)
  have "t' = fixed (collapse_single_child (write_at_path (lt_root t) (butlast ?p)
      (Split g d (remove_child d cs (last ?p)))))"
    using assms p ne cell last(1) by (simp add: remove_leaf_def)
  then show ?thesis
    using write_at_path_leaf_count [OF cell, of "Split g d (remove_child d cs (last ?p))"]
      remove_child_leaf_count [OF last(1), of d] last(2) by (simp add: fixed_def)
qed

text \<open>The loop that drops the last leaf while the layout has more leaves than the window has panes.\<close>

function trim_leaves :: "layout_tree \<Rightarrow> usize \<Rightarrow> layout_tree result" where
  "trim_leaves t pane_count =
     (if tree_leaf_count t > pane_count then
        case remove_leaf t (tree_leaf_count t - 1) of
          (t', True) \<Rightarrow> trim_leaves t' pane_count
        | (_, False) \<Rightarrow> Inl invalid_layout
      else Inr t)"
  by pat_completeness auto
termination
  by (relation "measure (\<lambda>(t, n). tree_leaf_count t)")
    (auto simp: tree_leaf_count_def dest!: sym [of _ "remove_leaf _ _"] remove_leaf_fewer)

declare trim_leaves.simps [simp del]

section \<open>Parsing a layout string\<close>

fun split_once :: "char \<Rightarrow> string \<Rightarrow> (string \<times> string) option" where
  "split_once d [] = None"
| "split_once d (c # cs) =
     (if c = d then Some ([], cs)
      else case split_once d cs of None \<Rightarrow> None | Some (a, b) \<Rightarrow> Some (c # a, b))"

definition parse_body :: "string \<Rightarrow> layout_cell result" where
  "parse_body body =
     res_bind (parse_cell body) (\<lambda>(root, rest). if rest = [] then Inr root else Inl invalid_layout)"

definition fit_panes :: "layout_cell \<Rightarrow> usize \<Rightarrow> layout_tree result" where
  "fit_panes root pane_count =
     res_bind (trim_leaves \<lparr>lt_root = root, lt_leaf_map = None\<rparr> pane_count) (\<lambda>t.
       if pane_count > tree_leaf_count t then
         Inl (Server (''have '' @ decimal pane_count @ '' panes but need '' @ decimal (tree_leaf_count t)))
       else
         let root1 = fix_root_size_if_needed (lt_root t)
         in if \<not> check root1 then Inl (Server ''size mismatch after applying layout'')
            else Inr (t\<lparr>lt_root := fix_offsets root1 0 0\<rparr>))"

definition parse :: "string \<Rightarrow> usize \<Rightarrow> layout_tree result" where
  "parse layout pane_count =
     (case split_once (CHR '','') layout of
        None \<Rightarrow> Inl invalid_layout
      | Some (checksum, body) \<Rightarrow>
          if length checksum \<noteq> 4 then Inl invalid_layout
          else case u16_from_hex checksum of
                 None \<Rightarrow> Inl invalid_layout
               | Some expected \<Rightarrow>
                   if expected \<noteq> layout_checksum body then Inl invalid_layout
                   else res_bind (parse_body body) (\<lambda>root. fit_panes root pane_count))"

end
