(* ===== verification/Layout_Text_Props.thy ===== *)
theory Layout_Text_Props
  imports Layout_Text
begin

text \<open>
  Correctness of the layout text: parsing what \<open>dump\<close> wrote gives the same layout back, a
  parsed layout has one leaf per pane and passes the geometry check, and the checksum notices any
  change of a single byte.
\<close>

section \<open>The checksum\<close>

definition checksum_step :: "u16 \<Rightarrow> char \<Rightarrow> u16" where
  "checksum_step c b = (c div 2 + (c mod 2) * 32768 + of_char b) mod 65536"

lemma layout_checksum_foldl: "layout_checksum s = foldl checksum_step 0 s"
  unfolding layout_checksum_def checksum_step_def by (rule refl)

lemma checksum_step_lt: "checksum_step c b < 65536"
  by (simp add: checksum_step_def)

lemma checksum_foldl_lt: "c < 65536 \<Longrightarrow> foldl checksum_step c s < 65536"
  by (induction s arbitrary: c) (simp_all add: checksum_step_lt)

lemma layout_checksum_le: "layout_checksum s \<le> u16_max"
  using checksum_foldl_lt [of 0 s] by (simp add: layout_checksum_foldl u16_max_def)

lemma add_mod_inject_le:
  fixes a b k m :: nat
  assumes "(a + k) mod m = (b + k) mod m" "a < m" "b \<le> a"
  shows "a = b"
proof -
  have "m dvd (a + k) - (b + k)"
    using assms by (subst mod_eq_dvd_iff_nat [symmetric]) simp_all
  then have "m dvd a - b" by simp
  then show ?thesis using assms(2,3) by (auto dest: dvd_imp_le)
qed

lemma add_mod_inject:
  fixes a b k m :: nat
  assumes "(a + k) mod m = (b + k) mod m" "a < m" "b < m"
  shows "a = b"
  using add_mod_inject_le [of a k m b] add_mod_inject_le [of b k m a] assms by (cases "b \<le> a") auto

text \<open>One step is injective in the state and in the byte.\<close>

lemma checksum_step_state:
  assumes "checksum_step a x = checksum_step b x" "a < 65536" "b < 65536"
  shows "a = b"
proof -
  let ?r = "\<lambda>c. c div 2 + (c mod 2) * 32768"
  have lt: "?r c < 65536" if "c < 65536" for c :: nat
  proof -
    have "c div 2 < 32768" using that by simp
    moreover have "c mod 2 \<le> 1" by simp
    ultimately show ?thesis by linarith
  qed
  have eq: "?r a = ?r b"
    using assms(1) lt [OF assms(2)] lt [OF assms(3)] unfolding checksum_step_def by (rule add_mod_inject)
  have half: "a div 2 < 32768" "b div 2 < 32768" using assms(2,3) by simp_all
  have "a mod 2 = 0 \<or> a mod 2 = 1" "b mod 2 = 0 \<or> b mod 2 = 1" by presburger+
  then have "a mod 2 = b mod 2" using eq half by (elim disjE) linarith+
  with eq have "a div 2 = b div 2" by (simp only: add_right_cancel)
  with \<open>a mod 2 = b mod 2\<close> show ?thesis by (metis div_mult_mod_eq)
qed

lemma checksum_step_byte:
  assumes "checksum_step c x = checksum_step c y"
  shows "x = y"
proof -
  have eq: "(of_char x + (c div 2 + (c mod 2) * 32768)) mod 65536
      = (of_char y + (c div 2 + (c mod 2) * 32768)) mod 65536"
    using assms by (simp only: checksum_step_def add.commute)
  have byte: "(of_char z :: nat) < 65536" for z :: char
  proof -
    have "(of_char z :: nat) mod 256 < 256" by (rule mod_less_divisor) simp
    then show ?thesis by (simp only: of_char_mod_256)
  qed
  have "(of_char x :: nat) = of_char y" by (rule add_mod_inject [OF eq byte byte])
  then show ?thesis by simp
qed

lemma checksum_foldl_state:
  "foldl checksum_step a s = foldl checksum_step b s \<Longrightarrow> a < 65536 \<Longrightarrow> b < 65536 \<Longrightarrow> a = b"
proof (induction s arbitrary: a b)
  case (Cons x s)
  then have "checksum_step a x = checksum_step b x" by (simp add: checksum_step_lt)
  then show ?case using Cons.prems checksum_step_state by blast
qed simp

theorem checksum_substitution:
  assumes "layout_checksum (p @ x # s) = layout_checksum (p @ y # s)"
  shows "x = y"
proof -
  let ?c = "foldl checksum_step 0 p"
  have "checksum_step ?c x = checksum_step ?c y"
  proof (rule checksum_foldl_state)
    show "foldl checksum_step (checksum_step ?c x) s = foldl checksum_step (checksum_step ?c y) s"
      using assms by (simp add: layout_checksum_foldl)
  qed (rule checksum_step_lt)+
  then show ?thesis by (rule checksum_step_byte)
qed

section \<open>Reading back numbers and geometries\<close>

definition no_digit :: "string \<Rightarrow> bool" where
  "no_digit s \<longleftrightarrow> \<not> (\<exists>c cs. s = c # cs \<and> is_digit c)"

lemma no_digit_simps [simp]:
  "no_digit []" "no_digit (c # cs) \<longleftrightarrow> \<not> is_digit c"
  by (auto simp: no_digit_def)

lemma not_digits [simp]:
  "\<not> is_digit (CHR ''x'')" "\<not> is_digit (CHR '','')" "\<not> is_digit (open_bracket d)" "\<not> is_digit (close_bracket d)"
  by (cases d; simp add: is_digit_def)+

lemma parse_number_decimal [simp]:
  assumes "n \<le> u32_max" "no_digit rest"
  shows "parse_number (decimal n @ rest) = Inr (n, rest)"
proof -
  have "takeWhile is_digit (decimal n @ rest) = decimal n" "dropWhile is_digit (decimal n @ rest) = rest"
    using takeWhile_decimal assms(2) by (simp_all add: no_digit_def)
  then show ?thesis
    using u32_of_decimal [OF assms(1)] by (cases "decimal n") (simp_all add: parse_number_def)
qed

definition small_geometry :: "layout_geometry \<Rightarrow> bool" where
  "small_geometry g \<longleftrightarrow>
     lg_width g \<le> u32_max \<and> lg_height g \<le> u32_max \<and> lg_x g \<le> u32_max \<and> lg_y g \<le> u32_max"

text \<open>What may follow a cell: the end, the next cell or the end of the enclosing split.\<close>

definition ends_cell :: "string \<Rightarrow> bool" where
  "ends_cell s \<longleftrightarrow> s = [] \<or> hd s \<in> {CHR '','', CHR ''}'', CHR '']''}"

lemma ends_cell_simps [simp]:
  "ends_cell []" "ends_cell (CHR '','' # s)" "ends_cell (close_bracket d # s)"
  by (cases d; simp add: ends_cell_def)+

lemma ends_cell_no_digit [simp]: "ends_cell s \<Longrightarrow> no_digit s"
  by (cases s) (auto simp: ends_cell_def is_digit_def)

lemma parse_geometry_pane:
  assumes "small_geometry g" "i \<le> u32_max" "ends_cell rest"
  shows "parse_geometry (geometry_text g @ CHR '','' # decimal i @ rest) = Inr (g, rest)"
proof -
  have "parse_number (decimal i @ rest) = Inr (i, rest)" using assms(2,3) by simp
  then have "skip_pane_id (CHR '','' # decimal i @ rest) = Inr rest"
    using assms(3) by (cases rest) (auto simp: skip_pane_id_def ends_cell_def)
  then show ?thesis
    using assms(1) by (simp add: parse_geometry_def geometry_text_def small_geometry_def new_geometry_def)
qed

lemma parse_geometry_split:
  assumes "small_geometry g"
  shows "parse_geometry (geometry_text g @ open_bracket d # rest) = Inr (g, open_bracket d # rest)"
proof -
  have "skip_pane_id (open_bracket d # rest) = Inr (open_bracket d # rest)"
    by (cases d) (simp_all add: skip_pane_id_def)
  then show ?thesis
    using assms by (simp add: parse_geometry_def geometry_text_def small_geometry_def new_geometry_def)
qed

section \<open>Reading back cells\<close>

fun small_cell :: "layout_cell \<Rightarrow> bool" where
  "small_cell (Pane g) \<longleftrightarrow> small_geometry g"
| "small_cell (Split g d cs) \<longleftrightarrow> small_geometry g \<and> cs \<noteq> [] \<and> list_all small_cell cs"

lemma dump_body_ids:
  "snd (dump_body c ids) = drop (leaf_count c) ids"
  "snd (dump_children cs n ids) = drop (sum_list (map leaf_count cs)) ids"
  by (induction c ids and cs n ids rule: dump_body_dump_children.induct)
    (auto simp: add.commute split: list.splits prod.splits)

lemma parse_dump_cell:
  "cell_depth c < k \<Longrightarrow> small_cell c \<Longrightarrow> leaf_count c \<le> length ids \<Longrightarrow> \<forall>i \<in> set ids. i \<le> u32_max \<Longrightarrow>
     ends_cell rest \<Longrightarrow> parse_cell_at k (fst (dump_body c ids) @ rest) = Inr (c, rest)"
  "cs \<noteq> [] \<Longrightarrow> \<forall>c \<in> set cs. cell_depth c < k \<and> small_cell c \<Longrightarrow> sum_list (map leaf_count cs) \<le> length ids \<Longrightarrow>
     \<forall>i \<in> set ids. i \<le> u32_max \<Longrightarrow>
     \<exists>s. fst (dump_children cs n ids) = (if n > 0 then '','' else []) @ s
       \<and> parse_children (parse_cell_at k) (close_bracket d) (s @ close_bracket d # rest) = Inr (cs, rest)"
proof (induction c ids and cs n ids arbitrary: k rest and k d rest rule: dump_body_dump_children.induct)
  case (1 g ids)
  then obtain i ids' j where "ids = i # ids'" "k = Suc j" by (cases ids; cases k) auto
  with 1 show ?case
    using parse_geometry_pane [of g i rest] by (cases rest) (auto simp: ends_cell_def)
next
  case (2 g sd cs ids)
  then obtain j where k: "k = Suc j" by (cases k) auto
  have "\<forall>c \<in> set cs. cell_depth c < j \<and> small_cell c"
    using 2(2,3) k cell_depth_child [of _ cs g sd] by (fastforce simp: list_all_iff)
  then obtain s where s: "fst (dump_children cs 0 ids) = s"
    "parse_children (parse_cell_at j) (close_bracket sd) (s @ close_bracket sd # rest) = Inr (cs, rest)"
    using 2(1) [of j sd rest] 2(3-5) by auto
  have "fst (dump_body (Split g sd cs) ids) = geometry_text g @ open_bracket sd # s @ [close_bracket sd]"
    using s(1) by (cases "dump_children cs 0 ids") simp
  then show ?case
    using s(2) parse_geometry_split [of g sd "s @ close_bracket sd # rest"] 2(3) by (cases sd) (simp_all add: k)
next
  case (4 c cs n ids)
  obtain s ids1 where body: "dump_body c ids = (s, ids1)" by fastforce
  have ids1: "ids1 = drop (leaf_count c) ids" using dump_body_ids(1) [of c ids] body by simp
  have ok: "\<forall>i \<in> set ids1. i \<le> u32_max" using 4(6) ids1 by (auto dest: in_set_dropD)
  show ?case
  proof (cases "cs = []")
    case True
    have "parse_cell_at k (s @ close_bracket d # rest) = Inr (c, close_bracket d # rest)"
      using 4(1) [of k "close_bracket d # rest"] 4(4-6) body by simp
    moreover have "close_bracket d \<noteq> CHR '',''" by (cases d) simp_all
    ultimately have "parse_children (parse_cell_at k) (close_bracket d) (s @ close_bracket d # rest) = Inr ([c], rest)"
      by (subst parse_children.simps) simp
    then show ?thesis using True body by (auto split: prod.splits)
  next
    case False
    have "sum_list (map leaf_count cs) \<le> length ids1" using 4(5) ids1 by simp
    then obtain s' where s': "fst (dump_children cs (n + 1) ids1) = '','' @ s'"
      "parse_children (parse_cell_at k) (close_bracket d) (s' @ close_bracket d # rest) = Inr (cs, rest)"
      using 4(2) [of s ids1 k d rest] body False 4(4-6) ok ids1 by auto
    have "parse_cell_at k (s @ CHR '','' # s' @ close_bracket d # rest) = Inr (c, CHR '','' # s' @ close_bracket d # rest)"
      using 4(1) [of k "CHR '','' # s' @ close_bracket d # rest"] 4(4-6) body by simp
    then have "parse_children (parse_cell_at k) (close_bracket d) (s @ CHR '','' # s' @ close_bracket d # rest)
        = Inr (c # cs, rest)"
      using s'(2) by (subst parse_children.simps) simp
    moreover have "fst (dump_children (c # cs) n ids) = (if n > 0 then '','' else []) @ s @ '','' @ s'"
      using body s'(1) by (cases "dump_children cs (Suc n) ids1") simp
    ultimately show ?thesis by (intro exI [of _ "s @ '','' @ s'"]) simp
  qed
qed simp_all

section \<open>Progress\<close>

lemma parse_number_consumes: "parse_number s = Inr (n, rest) \<Longrightarrow> length rest < length s"
proof -
  assume *: "parse_number s = Inr (n, rest)"
  then have "takeWhile is_digit s \<noteq> []" "rest = dropWhile is_digit s"
    by (auto simp: parse_number_def split: list.splits option.splits)
  moreover have "length s = length (takeWhile is_digit s) + length (dropWhile is_digit s)"
    by (metis length_append takeWhile_dropWhile_id)
  ultimately show ?thesis by (cases "takeWhile is_digit s") auto
qed

lemma expect_consumes: "expect c s = Inr rest \<Longrightarrow> length rest < length s"
  by (cases s) (auto split: if_splits)

lemma skip_pane_id_consumes: "skip_pane_id s = Inr rest \<Longrightarrow> length rest \<le> length s"
proof (cases s)
  case (Cons c cs)
  assume *: "skip_pane_id s = Inr rest"
  show ?thesis
  proof (cases "c = CHR '',''")
    case True
    have "res_bind (parse_number cs) (\<lambda>(_, r). case r of
        x # _ \<Rightarrow> if x = CHR ''x'' then Inr s else Inr r | [] \<Rightarrow> Inr r) = Inr rest"
      using * unfolding Cons True by (simp add: skip_pane_id_def)
    then obtain n r where n: "parse_number cs = Inr (n, r)"
      and "(case r of x # _ \<Rightarrow> if x = CHR ''x'' then Inr s else Inr r | [] \<Rightarrow> Inr r)
        = (Inr rest :: string result)"
      by (auto simp: res_bind_Inr_iff)
    then have "rest = s \<or> rest = r" by (cases r) (auto split: if_splits)
    then show ?thesis using parse_number_consumes [OF n] Cons by auto
  qed (use * Cons in \<open>simp add: skip_pane_id_def\<close>)
qed (simp add: skip_pane_id_def)

lemma parse_geometry_consumes:
  assumes "parse_geometry s = Inr (g, rest)"
  shows "length rest < length s"
proof -
  from assms obtain w s1 s2 h s3 s4 x s5 s6 y s7 where step:
    "parse_number s = Inr (w, s1)" "expect (CHR ''x'') s1 = Inr s2" "parse_number s2 = Inr (h, s3)"
    "expect (CHR '','') s3 = Inr s4" "parse_number s4 = Inr (x, s5)" "expect (CHR '','') s5 = Inr s6"
    "parse_number s6 = Inr (y, s7)" "skip_pane_id s7 = Inr rest"
    by (clarsimp simp: parse_geometry_def res_bind_Inr_iff)
  show ?thesis
    using step(1,3,5,7) [THEN parse_number_consumes] step(2,4,6) [THEN expect_consumes]
      step(8) [THEN skip_pane_id_consumes] by linarith
qed

lemma parse_children_consumes:
  assumes "\<And>s c rest. p s = Inr (c, rest) \<Longrightarrow> length rest < length s"
  shows "parse_children p close s = Inr (cs, rest) \<Longrightarrow> length rest < length s"
proof (induction "length s" arbitrary: s cs rest rule: less_induct)
  case less
  have "parse_children p close s = Inr (cs, rest)" by (rule less.prems)
  then obtain c k rest' where p: "p s = Inr (c, k # rest')"
    and cont: "k = CHR '','' \<and> (\<exists>cs'. parse_children p close rest' = Inr (cs', rest)) \<or> rest = rest'"
    by (subst (asm) parse_children.simps)
      (auto simp: res_bind_Inr_iff split: sum.splits prod.splits list.splits if_splits)
  have "length rest' < length s" using assms [OF p] by simp
  with cont less.hyps [of rest'] show ?case by fastforce
qed

lemma parse_cell_at_consumes: "parse_cell_at k s = Inr (c, rest) \<Longrightarrow> length rest < length s"
proof (induction k arbitrary: s c rest)
  case (Suc k)
  from Suc.prems obtain g r where g: "parse_geometry s = Inr (g, r)"
    and tail: "(case r of [] \<Rightarrow> Inr (Pane g, r)
       | b # cs \<Rightarrow>
           if b = CHR ''{'' then res_bind (parse_children (parse_cell_at k) (CHR ''}'') cs)
             (\<lambda>(ks, rest). Inr (Split g LeftRight ks, rest))
           else if b = CHR ''['' then res_bind (parse_children (parse_cell_at k) (CHR '']'') cs)
             (\<lambda>(ks, rest). Inr (Split g TopBottom ks, rest))
           else if b = CHR '','' \<or> b = CHR ''}'' \<or> b = CHR '']'' then Inr (Pane g, r)
           else Inl invalid_layout) = Inr (c, rest)"
    by (auto simp: res_bind_Inr_iff)
  have sub: "length rest < length cs"
    if "res_bind (parse_children (parse_cell_at k) close cs) (\<lambda>(ks, rest). Inr (f ks, rest)) = Inr (c, rest)"
    for close cs f
    using that parse_children_consumes [OF Suc.IH] by (auto simp: res_bind_Inr_iff)
  have "length rest \<le> length r"
    using tail sub [of "CHR ''}''" _ "Split g LeftRight"] sub [of "CHR '']''" _ "Split g TopBottom"]
    by (cases r) (auto split: if_splits intro: less_imp_le less_SucI)
  then show ?case using parse_geometry_consumes [OF g] by simp
qed simp

text \<open>The loop of the source: after a comma it parses the next child, with no further condition.\<close>

lemma parse_children_unfold:
  "parse_children (parse_cell_at k) close s =
     (case parse_cell_at k s of
        Inl e \<Rightarrow> Inl e
      | Inr (c, []) \<Rightarrow> Inl invalid_layout
      | Inr (c, b # rest) \<Rightarrow>
          if b = CHR '','' then
            res_bind (parse_children (parse_cell_at k) close rest) (\<lambda>(cs, rest'). Inr (c # cs, rest'))
          else if b = close then Inr ([c], rest) else Inl invalid_layout)"
proof -
  have "length r < length s" if "parse_cell_at k s = Inr (c, b # r)" for c b r
    using parse_cell_at_consumes [OF that] by simp
  then show ?thesis
    by (subst parse_children.simps) (auto split: sum.splits list.splits)
qed

section \<open>Round trip\<close>

lemma u32_add_le [simp]: "u32_add a b \<le> u32_max"
  by (simp add: u32_add_def)

text \<open>A tiled cell with up-to-date positions has only numbers that fit their fields.\<close>

lemma small_fix_offsets:
  "tiles c \<Longrightarrow> \<forall>d'. axis_size c d' \<le> u32_max \<Longrightarrow> x \<le> u32_max \<Longrightarrow> y \<le> u32_max \<Longrightarrow> small_cell (fix_offsets c x y)"
  "\<forall>c \<in> set cs. tiles c \<and> (\<forall>d'. axis_size c d' \<le> u32_max) \<Longrightarrow> x \<le> u32_max \<Longrightarrow> y \<le> u32_max \<Longrightarrow>
     list_all small_cell (fix_child_offsets d cs x y k)"
proof (induction c x y and d cs x y k rule: fix_offsets_fix_child_offsets.induct)
  case (1 g x y)
  have "axis_of g d' \<le> u32_max" for d' using 1(2) by (simp add: axis_size_def)
  from this [of LeftRight] this [of TopBottom] 1(3,4) show ?case by (simp add: small_geometry_def)
next
  case (2 g d cs x y)
  have g: "axis_of g d' \<le> u32_max" for d' using 2(3) by (simp add: axis_size_def)
  have kids: "\<forall>c \<in> set cs. tiles c \<and> (\<forall>d'. axis_size c d' \<le> u32_max)"
  proof
    fix c assume "c \<in> set cs"
    then show "tiles c \<and> (\<forall>d'. axis_size c d' \<le> u32_max)"
      using tiles_child(1) [OF 2(2)] tiles_child_le [OF 2(2)] g by (meson le_trans)
  qed
  have "fix_child_offsets d cs x y 0 \<noteq> []" using 2(2) by (cases cs) simp_all
  then show ?case
    using g [of LeftRight] g [of TopBottom] 2(1) [OF kids 2(4,5)] 2(4,5) by (simp add: small_geometry_def)
next
  case (4 d c cs x y k)
  then show ?case by (cases d) simp_all
qed simp

lemma wf_tree_small: "wf_tree t \<Longrightarrow> small_cell (lt_root t)"
  using small_fix_offsets(1) [of "lt_root t" 0 0] wf_tree_bound [of t] i32_max_le_u32_max
  by (metis le_trans le0 wf_tree_def)

lemma fix_root_size_wf:
  assumes "wf_tree t"
  shows "fix_root_size_if_needed (lt_root t) = lt_root t"
proof (cases "lt_root t")
  case (Split g d cs)
  have tiled: "tiles (Split g d cs)" and fixed: "fix_offsets (Split g d cs) 0 0 = Split g d cs"
    using assms Split by (simp_all only: wf_tree_def)
  obtain c cs' where cs: "cs = c # cs'" using tiled by (cases cs) simp_all
  have "axis_of g d \<le> i32_max" using wf_tree_bound [OF assms, of d] Split by (simp add: axis_size_def)
  then have max: "extent d cs \<le> u32_max" using tiled by (simp add: machine_defs)
  have kid: "axis_size c d + 1 \<le> u32_max" if "c \<in> set cs" for c
    using extent_member [OF that, of d] max by simp
  have "map (\<lambda>c. u32_add (axis_size c d) PANE_BORDER_CELLS) cs = map (\<lambda>c. axis_size c d + 1) cs"
    using kid by (simp add: u32_add_exact PANE_BORDER_CELLS_def)
  then have "u32_sum (map (\<lambda>c. u32_add (axis_size c d) PANE_BORDER_CELLS) cs) = extent d cs"
    using max by (simp only: u32_sum_exact extent_def)
  then have "children_extent d cs = axis_of g d"
    using tiled by (simp add: children_extent_def PANE_BORDER_CELLS_def)
  moreover have "axis_size c (cross d) = axis_of g (cross d)" using tiled cs by simp
  ultimately have "(case d of
      LeftRight \<Rightarrow> g\<lparr>lg_width := children_extent d cs, lg_height := lg_height (geometry c)\<rparr>
    | TopBottom \<Rightarrow> g\<lparr>lg_width := lg_width (geometry c), lg_height := children_extent d cs\<rparr>) = g"
    by (cases d) (simp_all add: axis_size_def)
  then show ?thesis
    using fixed unfolding Split cs by (simp only: fix_root_size_if_needed.simps list.case)
qed simp

lemma length_reordered_ids: "length (reordered_ids m ids) = length ids"
proof -
  have "length (fold (\<lambda>(p, l) xs. if p < length ids \<and> l < length xs then xs[l := ids ! p] else xs) ps xs)
      = length xs" for ps and xs :: "u32 list"
    by (induction ps arbitrary: xs) auto
  then show ?thesis by (simp add: reordered_ids_def split: option.split)
qed

lemma set_reordered_ids: "set (reordered_ids m ids) \<subseteq> insert 0 (set ids)"
proof -
  have "set (fold (\<lambda>(p, l) xs. if p < length ids \<and> l < length xs then xs[l := ids ! p] else xs) ps xs)
      \<subseteq> set xs \<union> set ids" for ps and xs :: "u32 list"
  proof (induction ps arbitrary: xs)
    case (Cons q ps)
    obtain p l where q: "q = (p, l)" by (cases q)
    let ?xs = "if p < length ids \<and> l < length xs then xs[l := ids ! p] else xs"
    have "set ?xs \<subseteq> set xs \<union> set ids" using set_update_subset_insert [of xs l "ids ! p"] by auto
    then show ?case using Cons [of ?xs] by (auto simp: q)
  qed simp
  from this [of "zip [0..<length (the m)] (the m)" "replicate (length ids) 0"] show ?thesis
    by (cases m) (auto simp: reordered_ids_def)
qed

theorem parse_dump_root:
  assumes wf: "wf_tree t" and ids: "length ids = tree_leaf_count t" "\<forall>i \<in> set ids. i \<le> u32_max"
    and depth: "cell_depth (lt_root t) \<le> MAX_LAYOUT_PARSE_DEPTH"
  shows "parse (dump t ids) (tree_leaf_count t) = Inr \<lparr>lt_root = lt_root t, lt_leaf_map = None\<rparr>"
proof -
  let ?ids = "reordered_ids (lt_leaf_map t) ids"
  let ?body = "fst (dump_body (lt_root t) ?ids)"
  have "\<forall>i \<in> set ?ids. i \<le> u32_max" using set_reordered_ids [of "lt_leaf_map t" ids] ids(2) by auto
  then have cell: "parse_cell ?body = Inr (lt_root t, [])"
    using parse_dump_cell(1) [of "lt_root t" "MAX_LAYOUT_PARSE_DEPTH + 1" ?ids "[]"] depth wf_tree_small [OF wf]
      ids(1) length_reordered_ids [of "lt_leaf_map t" ids] by (simp add: parse_cell_def tree_leaf_count_def)
  have once: "split_once d (a @ d # b) = Some (a, b)" if "d \<notin> set a" for d a b
    using that by (induction a) auto
  have split: "split_once (CHR '','') (dump t ids) = Some (hex4 (layout_checksum ?body), ?body)"
    using once [OF hex4_no_comma] by (simp add: dump_def Let_def)
  have sizes: "axis_size (lt_root t) d < u32_max" for d
    using wf_tree_bound [OF wf, of d] i32_max_lt_u32_max by (rule le_less_trans)
  have "check (lt_root t)" "fix_offsets (lt_root t) 0 0 = lt_root t"
    using wf tiles_imp_check [OF _ sizes sizes] by (simp_all add: wf_tree_def)
  then have "fit_panes (lt_root t) (tree_leaf_count t) = Inr \<lparr>lt_root = lt_root t, lt_leaf_map = None\<rparr>"
    using fix_root_size_wf [OF wf]
    by (simp add: fit_panes_def trim_leaves.simps tree_leaf_count_def Let_def)
  then show ?thesis
    using cell by (simp add: parse_def split parse_body_def layout_checksum_le)
qed

section \<open>What a parsed layout is\<close>

lemma trim_leaves_le: "trim_leaves t n = Inr t' \<Longrightarrow> tree_leaf_count t' \<le> n"
proof (induction t n rule: trim_leaves.induct)
  case (1 t n)
  then show ?case
    by (auto simp: trim_leaves.simps [of t n] split: if_splits prod.splits bool.splits)
qed

lemma shape_fix_root_size [simp]: "shape (fix_root_size_if_needed c) = shape c"
proof (cases c)
  case (Split g d cs)
  then show ?thesis by (cases cs) (simp_all del: fix_offsets.simps)
qed simp

lemma check_total_cong:
  assumes "map (\<lambda>c. axis_size c d) cs = map (\<lambda>c. axis_size c d) cs'"
  shows "check_total d cs = check_total d cs'"
proof -
  have "check_total d cs = fold (\<lambda>n total. u32_sat_add total (u32_add n PANE_BORDER_CELLS)) (map (\<lambda>c. axis_size c d) cs) 0"
    for cs by (simp add: check_total_def fold_map comp_def)
  then show ?thesis using assms by metis
qed

lemma check_fix_offsets [simp]:
  "check (fix_offsets c x y) = check c"
  "list_all check (fix_child_offsets d cs x y k) = list_all check cs"
proof (induction c x y and d cs x y k rule: fix_offsets_fix_child_offsets.induct)
  case (2 g d cs x y)
  have "fix_child_offsets d cs x y 0 = [] \<longleftrightarrow> cs = []"
    by (metis length_0_conv length_fix_child_offsets)
  with 2 check_total_cong [OF axis_sizes_fix_child_offsets [of d d cs x y 0]] show ?case by simp
qed (simp_all split: layout_direction.split)

lemma trim_leaves_map: "trim_leaves t n = Inr t' \<Longrightarrow> lt_leaf_map t = None \<Longrightarrow> lt_leaf_map t' = None"
proof (induction t n rule: trim_leaves.induct)
  case (1 t n)
  have "lt_leaf_map t1 = None" if "remove_leaf t i = (t1, True)" for t1 i
    using that 1(3) by (auto simp: remove_leaf_def fixed_def split: if_splits option.splits layout_cell.splits)
  then show ?case
    using 1 by (auto simp: trim_leaves.simps [of t n] split: if_splits prod.splits bool.splits)
qed

theorem fit_panes_Inr:
  assumes "fit_panes root n = Inr t"
  shows "tree_leaf_count t = n \<and> check (lt_root t) \<and> fix_offsets (lt_root t) 0 0 = lt_root t
    \<and> lt_leaf_map t = None"
proof -
  from assms obtain t1 where t1: "trim_leaves \<lparr>lt_root = root, lt_leaf_map = None\<rparr> n = Inr t1"
    and n: "n \<le> tree_leaf_count t1" and "check (fix_root_size_if_needed (lt_root t1))"
    and "t = t1\<lparr>lt_root := fix_offsets (fix_root_size_if_needed (lt_root t1)) 0 0\<rparr>"
    by (auto simp: fit_panes_def res_bind_Inr_iff Let_def split: if_splits)
  moreover have "leaf_count (fix_offsets (fix_root_size_if_needed (lt_root t1)) 0 0) = leaf_count (lt_root t1)"
    by (rule same_shape_leaf_count) simp
  ultimately show ?thesis
    using trim_leaves_le [OF t1] trim_leaves_map [OF t1] by (simp add: tree_leaf_count_def)
qed

lemma fit_panes_too_few:
  assumes "leaf_count root < n"
  shows "fit_panes root n =
    Inl (Server (''have '' @ decimal n @ '' panes but need '' @ decimal (leaf_count root)))"
  using assms by (simp add: fit_panes_def trim_leaves.simps tree_leaf_count_def)

theorem parse_Inr:
  assumes "parse s n = Inr t"
  shows "\<exists>checksum body. s = checksum @ '','' @ body \<and> u16_from_hex checksum = Some (layout_checksum body)"
    and "tree_leaf_count t = n" "check (lt_root t)" "lt_leaf_map t = None"
proof -
  have once: "split_once c s = Some (a, b) \<Longrightarrow> s = a @ c # b" for c s a b
    by (induction s arbitrary: a) (auto split: if_splits option.splits)
  from assms obtain a b root where s: "split_once (CHR '','') s = Some (a, b)"
    and hex: "u16_from_hex a = Some (layout_checksum b)" and fit: "fit_panes root n = Inr t"
    by (auto simp: parse_def res_bind_Inr_iff split: option.splits if_splits)
  then show "\<exists>checksum body. s = checksum @ '','' @ body \<and> u16_from_hex checksum = Some (layout_checksum body)"
    using once [OF s] by fastforce
  show "tree_leaf_count t = n" "check (lt_root t)" "lt_leaf_map t = None"
    using fit_panes_Inr [OF fit] by simp_all
qed

end
