(* ===== verification/Layout_Spec.thy ===== *)
theory Layout_Spec
  imports Layout_Border_Pane Layout_Tiled_Props Layout_Text_Props
begin

text \<open>
  The contract of the layout engine, stated over the operations of \<open>layout.rs\<close> and
  \<open>layout/*.rs\<close>: what each operation on a well-formed layout returns, on success and on
  failure. The proofs are those of the preceding theories; each property is applied once to a
  small concrete layout.
\<close>

section \<open>Sample layouts\<close>

text \<open>Two panes of five columns side by side, and the same with the second one split again.\<close>

definition two_panes :: layout_tree where
  "two_panes =
     \<lparr>lt_root = Split (new_geometry 11 5 0 0) LeftRight
        [Pane (new_geometry 5 5 0 0), Pane (new_geometry 5 5 6 0)], lt_leaf_map = None\<rparr>"

definition three_panes :: layout_tree where
  "three_panes =
     \<lparr>lt_root = Split (new_geometry 11 5 0 0) LeftRight
        [Pane (new_geometry 5 5 0 0),
         Split (new_geometry 5 5 6 0) TopBottom
           [Pane (new_geometry 5 2 6 0), Pane (new_geometry 5 2 6 3)]], lt_leaf_map = None\<rparr>"

lemma wf_two_panes: "wf_tree two_panes"
  by (simp add: two_panes_def wf_tree_def leaf_map_ok_def new_geometry_def axis_size_def extent_def
      PANE_BORDER_CELLS_def machine_defs)

lemma wf_three_panes: "wf_tree three_panes"
  by (simp add: three_panes_def wf_tree_def leaf_map_ok_def new_geometry_def axis_size_def extent_def
      PANE_BORDER_CELLS_def machine_defs)

lemma count_two_panes [simp]: "leaf_count (lt_root two_panes) = 2"
  by (simp add: two_panes_def)

lemma count_three_panes [simp]: "leaf_count (lt_root three_panes) = 3"
  by (simp add: three_panes_def)

section \<open>Panes do not overlap\<close>

text \<open>
  in a well-formed layout every two panes are separated by at least one border cell, along
  the columns or along the rows, and every pane lies inside the window area.
\<close>

theorem panes_never_overlap:
  assumes "wf_tree t"
  shows "sorted_wrt separated (collect_leaf_geometries (lt_root t))
    \<and> list_all (\<lambda>g. within g LeftRight 0 (axis_size (lt_root t) LeftRight)
         \<and> within g TopBottom 0 (axis_size (lt_root t) TopBottom)) (collect_leaf_geometries (lt_root t))"
  using wf_tree_panes_disjoint [OF assms] by (simp add: list_all_iff)

theorem panes_never_overlap_witness:
  "wf_tree three_panes \<and> sorted_wrt separated (collect_leaf_geometries (lt_root three_panes))"
  using panes_never_overlap [OF wf_three_panes] wf_three_panes by simp

section \<open>Splitting and removing\<close>

text \<open>
  C5: splitting a pane of a well-formed layout succeeds exactly when the pane exists and has at
  least three cells along the axis. A failed split returns the layout unchanged. A successful one
  returns a well-formed layout of the same size in which the pane is replaced by two that share
  its cells evenly, and every other pane keeps its size.
\<close>

theorem split_leaf_spec:
  assumes "wf_tree t"
  shows "case split_leaf t i d b of (t', ok) \<Rightarrow>
      (ok \<longleftrightarrow> i < leaf_count (lt_root t) \<and> 3 \<le> axis_of (collect_leaf_geometries (lt_root t) ! i) d)
      \<and> (if ok then wf_tree t' \<and> same_sizes (lt_root t') (lt_root t)
           \<and> leaf_dims (lt_root t') = take i (leaf_dims (lt_root t))
               @ halves d (leaf_dims (lt_root t) ! i) @ drop (Suc i) (leaf_dims (lt_root t))
         else t' = t)"
  using split_leaf_outcome [OF assms, of i d b] by (auto simp: split_outcome_def)

theorem split_leaf_spec_witness:
  "wf_tree two_panes \<and> snd (split_leaf two_panes 1 TopBottom False)
    \<and> leaf_dims (lt_root (fst (split_leaf two_panes 1 TopBottom False))) = [(5, 5), (5, 2), (5, 2)]"
proof -
  have dims: "leaf_dims (lt_root two_panes) = [(5, 5), (5, 5)]"
    "axis_of (collect_leaf_geometries (lt_root two_panes) ! 1) TopBottom = 5"
    by (simp_all add: two_panes_def new_geometry_def leaf_dims_def dims_def)
  show ?thesis
    using split_leaf_spec [OF wf_two_panes, of 1 TopBottom False] dims wf_two_panes
    by (auto split: prod.splits if_splits)
qed

text \<open>
  C6: removing a pane of a well-formed layout succeeds exactly when the pane exists and is not the
  only one. A failed removal returns the layout unchanged. A successful one returns a well-formed
  layout of the same size with one pane less: the space of the pane goes to a neighbour.
\<close>

theorem remove_leaf_spec:
  assumes "wf_tree t"
  shows "case remove_leaf t i of (t', ok) \<Rightarrow>
      (ok \<longleftrightarrow> i < leaf_count (lt_root t) \<and> 2 \<le> leaf_count (lt_root t))
      \<and> (if ok then wf_tree t' \<and> same_sizes (lt_root t') (lt_root t)
           \<and> leaf_count (lt_root t') + 1 = leaf_count (lt_root t)
         else t' = t)"
  using remove_leaf_outcome [OF assms, of i] by (auto simp: remove_outcome_def)

theorem remove_leaf_spec_witness:
  "wf_tree three_panes \<and> wf_tree (fst (remove_leaf three_panes 1))
    \<and> leaf_count (lt_root (fst (remove_leaf three_panes 1))) = 2"
  using remove_leaf_spec [OF wf_three_panes, of 1] wf_three_panes by (auto split: prod.splits if_splits)

text \<open>
  C13: splitting the whole window always reports success and keeps the size, but the result is a
  well-formed layout exactly when the panes already there fit into the share they keep. The
  source does not test this, so a crowded window gets a layout whose cells do not add up.
\<close>

theorem split_root_spec:
  assumes "wf_tree t" and "3 \<le> axis_size (lt_root t) d"
  shows "snd (split_root t d ahead) \<and> same_sizes (lt_root (fst (split_root t d ahead))) (lt_root t)
    \<and> (wf_tree (fst (split_root t d ahead)) \<longleftrightarrow>
         pair_axis (minimum_size (lt_root t)) d \<le> existing_share (axis_size (lt_root t) d) ahead)"
  using split_root_wf_iff [OF assms(1), of d ahead] assms(2) by (simp add: splittable_iff)

text \<open>Two one-column panes side by side cannot give up half of their three columns.\<close>

definition crowded :: layout_tree where
  "crowded =
     \<lparr>lt_root = Split (new_geometry 3 5 0 0) LeftRight
        [Pane (new_geometry 1 5 0 0), Pane (new_geometry 1 5 2 0)], lt_leaf_map = None\<rparr>"

theorem split_root_spec_witness:
  "wf_tree crowded \<and> snd (split_root crowded LeftRight False)
    \<and> \<not> wf_tree (fst (split_root crowded LeftRight False))"
proof -
  have wf: "wf_tree crowded"
    by (simp add: crowded_def wf_tree_def leaf_map_ok_def new_geometry_def axis_size_def extent_def
        PANE_BORDER_CELLS_def machine_defs)
  have "axis_size (lt_root crowded) LeftRight = 3"
    by (simp add: crowded_def new_geometry_def axis_size_def)
  moreover have "pair_axis (minimum_size (lt_root crowded)) LeftRight = 3"
    by (simp add: crowded_def minimum_size.simps usize_try_u32_def PANE_MINIMUM_def
        PANE_BORDER_CELLS_def machine_defs)
  ultimately show ?thesis
    using split_root_spec [OF wf, of LeftRight False] wf by (simp add: existing_share_def)
qed

section \<open>Resizing\<close>

text \<open>
  C11: resizing a well-formed layout to a terminal size gives a well-formed layout with the same
  tree of splits and the same order of panes, whose size is the one asked for, or the least size
  the panes need where that is larger.
\<close>

theorem resize_spec:
  assumes "wf_tree t" and "cols sz \<le> u16_max" and "rows sz \<le> u16_max"
  shows "wf_tree (resize t sz)
    \<and> lg_width (geometry (lt_root (resize t sz))) = max (cols sz) (fst (minimum_size (lt_root t)))
    \<and> lg_height (geometry (lt_root (resize t sz))) = max (rows sz) (snd (minimum_size (lt_root t)))
    \<and> shape (lt_root (resize t sz)) = shape (lt_root t) \<and> lt_leaf_map (resize t sz) = lt_leaf_map t"
  using resize_outcome [of t sz] assms by (simp add: valid_size_def)

theorem resize_spec_witness:
  "wf_tree (resize three_panes \<lparr>cols = 20, rows = 1\<rparr>)
    \<and> lg_width (geometry (lt_root (resize three_panes \<lparr>cols = 20, rows = 1\<rparr>))) = 20
    \<and> lg_height (geometry (lt_root (resize three_panes \<lparr>cols = 20, rows = 1\<rparr>))) = 3"
proof -
  have "minimum_size (lt_root three_panes) = (3, 3)"
    by (simp add: three_panes_def minimum_size.simps usize_try_u32_def PANE_MINIMUM_def
        PANE_BORDER_CELLS_def machine_defs)
  then show ?thesis
    using resize_spec [OF wf_three_panes, of "\<lparr>cols = 20, rows = 1\<rparr>"] by (simp add: machine_defs)
qed

text \<open>
  the slack that \<open>resize_check\<close> computes for a cell is exact: the size of a tiled cell is
  the least size its panes need plus that slack.
\<close>

theorem resize_check_spec:
  assumes "tiles c" and "axis_size c d \<le> u32_max"
  shows "axis_size c d = pair_axis (minimum_size c) d + resize_check c d"
  by (rule slack_is_above_minimum [OF assms])

theorem resize_check_spec_witness: "resize_check (lt_root two_panes) LeftRight = 8"
proof -
  have "axis_size (lt_root two_panes) LeftRight = 11" "pair_axis (minimum_size (lt_root two_panes)) LeftRight = 3"
    by (simp_all add: two_panes_def minimum_size.simps usize_try_u32_def PANE_MINIMUM_def
        new_geometry_def axis_size_def PANE_BORDER_CELLS_def machine_defs)
  then show ?thesis
    using resize_check_spec [of "lt_root two_panes" LeftRight] wf_two_panes
    by (simp add: wf_tree_def machine_defs)
qed

text \<open>
  C10: asking for a size of a pane. Without an enclosing split along the axis nothing happens.
  Otherwise the pane gets exactly the size asked for, as far as its own slack and that of the
  other children of the nearest such split allow, and the layout stays well-formed with the same
  splits and the same overall size.
\<close>

theorem resize_leaf_to_spec:
  assumes "wf_tree t" and "i < leaf_count (lt_root t)" and "n \<le> i32_max"
  shows "case enclosing d (lt_root t) (leaf_paths t ! i) of
      None \<Rightarrow> resize_leaf_to t i d n = (t, False)
    | Some (q, j) \<Rightarrow> \<exists>g cs. cell_at_path (lt_root t) q = Some (Split g d cs)
        \<and> (let t' = fst (resize_leaf_to t i d n) in
           wf_tree t' \<and> shape (lt_root t') = shape (lt_root t) \<and> same_sizes (lt_root t') (lt_root t)
           \<and> lt_leaf_map t' = lt_leaf_map t
           \<and> axis_of (collect_leaf_geometries (lt_root t') ! i) d =
               reached_size (axis_of (collect_leaf_geometries (lt_root t) ! i) d) n
                 (resize_check (cs ! j) d) (sibling_slack d cs j))"
proof (cases "enclosing d (lt_root t) (leaf_paths t ! i)")
  case None
  then show ?thesis using resize_leaf_to_outcome(1) [OF assms] by simp
next
  case (Some qj)
  obtain q j where qj: "qj = (q, j)" by (cases qj)
  have leaf: "cell_at_path (lt_root t) (leaf_paths t ! i) = Some (Pane (collect_leaf_geometries (lt_root t) ! i))"
    using assms(2) by (simp add: leaf_paths_def leaf_path_nth)
  obtain g cs where cell: "cell_at_path (lt_root t) q = Some (Split g d cs)"
    using enclosing_cell [OF Some [unfolded qj] leaf] by blast
  have "tiles (lt_root t)" using assms(1) by (simp add: wf_tree_def)
  then have current: "axis_size (cs ! j) d = axis_of (collect_leaf_geometries (lt_root t) ! i) d"
    using enclosing_size [OF Some [unfolded qj] leaf _ cell] by (simp add: axis_size_def)
  note out = resize_leaf_to_outcome(2) [OF assms Some [unfolded qj] cell]
  show ?thesis
    using out leaf_size_after [OF assms(1,2) Some [unfolded qj] out] cell Some qj current
    by (auto simp: child_resized_to_def Let_def)
qed

theorem resize_leaf_to_spec_witness:
  "axis_of (collect_leaf_geometries (lt_root (fst (resize_leaf_to two_panes 1 LeftRight 7))) ! 1) LeftRight = 7"
proof -
  have i: "1 < leaf_count (lt_root two_panes)" "7 \<le> i32_max" by (simp_all add: machine_defs)
  have "leaf_paths two_panes = [[0], [1]]"
    "cell_at_path (lt_root two_panes) [] = Some (Split (new_geometry 11 5 0 0) LeftRight
        [Pane (new_geometry 5 5 0 0), Pane (new_geometry 5 5 6 0)])"
    by (simp_all add: two_panes_def leaf_paths_def)
  then show ?thesis
    using resize_leaf_to_spec [OF wf_two_panes i, of LeftRight]
    by (auto simp: two_panes_def axis_size_def new_geometry_def reached_size_def sibling_slack_def
        PANE_MINIMUM_def Let_def)
qed

text \<open>
  moving a border. The \<open>change\<close> is cut to what the cells on the far side can spare; the
  cell in front of the border (behind it, for a negative change) grows by exactly that much, the
  cells that give only shrink, all others stay as they are, and the layout stays well-formed with
  the same splits and the same overall size. The result reports whether anything moved.
\<close>

theorem resize_layout_spec:
  assumes "wf_tree t" and "cell_at_path (lt_root t) p = Some (Split g d cs)"
    and "border_receiver i change < length cs" and "\<bar>change\<bar> \<le> int i32_max"
  shows "\<exists>cs' n. n = min (nat \<bar>change\<bar>) (donor_slack d cs (border_donors i (length cs) change))
    \<and> resize_layout t p i d change True
        = (t\<lparr>lt_root := fix_offsets (write_at_path (lt_root t) p (Split g d cs')) 0 0\<rparr>, 0 < n)
    \<and> border_moved d n (border_receiver i change) (border_donors i (length cs) change) cs cs'
    \<and> wf_tree (fst (resize_layout t p i d change True))
    \<and> shape (lt_root (fst (resize_layout t p i d change True))) = shape (lt_root t)
    \<and> same_sizes (lt_root (fst (resize_layout t p i d change True))) (lt_root t)"
  using resize_layout_outcome [OF assms] by metis

theorem resize_layout_spec_witness:
  "wf_tree (fst (resize_layout two_panes [] 0 LeftRight 9 True))
    \<and> snd (resize_layout two_panes [] 0 LeftRight 9 True)"
proof -
  have cell: "cell_at_path (lt_root two_panes) [] = Some (Split (new_geometry 11 5 0 0) LeftRight
        [Pane (new_geometry 5 5 0 0), Pane (new_geometry 5 5 6 0)])"
    by (simp add: two_panes_def)
  have "border_receiver 0 9 < length [Pane (new_geometry 5 5 0 0), Pane (new_geometry 5 5 6 0)]"
    "\<bar>9\<bar> \<le> int i32_max"
    by (simp_all add: border_receiver_def machine_defs)
  from resize_layout_spec [OF wf_two_panes cell this] show ?thesis
    by (auto simp: border_donors_def donor_slack_def new_geometry_def PANE_MINIMUM_def upt_rec)
qed

text \<open>
  moving the border of a pane by a number of cells keeps the layout well-formed, with the same
  splits, the same overall size and the same order of panes.
\<close>

theorem resize_leaf_by_spec:
  assumes "wf_tree t" and "i < leaf_count (lt_root t)" and "\<bar>change\<bar> \<le> int i32_max"
  shows "wf_tree (fst (resize_leaf_by t i d change))
    \<and> shape (lt_root (fst (resize_leaf_by t i d change))) = shape (lt_root t)
    \<and> same_sizes (lt_root (fst (resize_leaf_by t i d change))) (lt_root t)
    \<and> lt_leaf_map (fst (resize_leaf_by t i d change)) = lt_leaf_map t"
  using resize_leaf_by_keeps [OF assms] by simp

theorem resize_leaf_by_spec_witness: "wf_tree (fst (resize_leaf_by three_panes 2 TopBottom (- 1)))"
  using resize_leaf_by_spec [OF wf_three_panes, of 2 "- 1" TopBottom] by (simp add: machine_defs)

section \<open>Even spreading\<close>

text \<open>
  C12: spreading the children of a split evenly gives child sizes that differ by at most one, but
  the cells add up to the size of the split exactly when the available cells do not divide evenly
  by the number of children. In the even case the source hands out one cell too many.
\<close>

theorem spread_spec:
  assumes "tiles (Split g d cs)" and "2 \<le> length cs" and "axis_of g d \<le> i32_max"
    and room: "list_all (\<lambda>c. pair_axis (minimum_size c) d \<le> (axis_of g d + 1) div length cs - 1) cs"
  shows "\<exists>cs' changed. spread (Split g d cs) = (Split g d cs', changed)
    \<and> map (\<lambda>c. axis_size c d) cs' = spread_targets ((axis_of g d + 1) div length cs - 1)
        (max 1 ((axis_of g d + 1) mod length cs)) (length cs)
    \<and> map shape cs' = map shape cs
    \<and> (tiles (Split g d cs') \<longleftrightarrow> \<not> length cs dvd axis_of g d + 1)"
proof -
  have "pair_axis (minimum_size c) d \<le> (axis_of g d + 1) div length cs - 1" if "c \<in> set cs" for c
    using room that by (simp add: list_all_iff)
  then show ?thesis
    by (rule spread_outcome [OF assms(1-3)]) (auto simp del: tiles.simps spread.simps)
qed

theorem spread_spec_witness:
  "\<exists>cs changed. spread (lt_root two_panes) = (Split (new_geometry 11 5 0 0) LeftRight cs, changed)
    \<and> map (\<lambda>c. axis_size c LeftRight) cs = [6, 5] \<and> \<not> tiles (Split (new_geometry 11 5 0 0) LeftRight cs)"
proof -
  let ?g = "new_geometry 11 5 0 0" and ?cs = "[Pane (new_geometry 5 5 0 0), Pane (new_geometry 5 5 6 0)]"
  have tiled: "tiles (Split ?g LeftRight ?cs)"
    using wf_two_panes by (simp add: wf_tree_def two_panes_def)
  have g: "axis_of ?g LeftRight = 11" and len: "length ?cs = 2"
    and each: "((11 :: nat) + 1) div 2 - 1 = 5" "max 1 (((11 :: nat) + 1) mod 2) = 1"
    by (simp_all add: new_geometry_def)
  have "list_all (\<lambda>c. pair_axis (minimum_size c) LeftRight \<le> 5) ?cs"
    by (simp add: PANE_MINIMUM_def)
  moreover have "spread_targets 5 1 2 = [6, 5]" by (simp add: numeral_2_eq_2)
  ultimately show ?thesis
    using spread_spec [OF tiled, unfolded g len each] unfolding two_panes_def by (auto simp: machine_defs)
qed

section \<open>Named layouts\<close>

text \<open>
  every named layout (even, main and tiled, mirrored or not) over any number of panes and any
  terminal size is well-formed, has one cell per pane, and has the size of the terminal or the
  least size its panes need. The main pane's size option must not be zero: the source lets zero
  through, and the main pane then has no cells.
\<close>

theorem named_spec:
  assumes "2 * n \<le> i32_max" and "cols sz \<le> u16_max" and "rows sz \<le> u16_max"
    and "1 \<le> cols sz" and "1 \<le> rows sz"
    and "requested_main_width opts \<noteq> Some 0" and "requested_main_height opts \<noteq> Some 0"
  shows "wf_tree (named l n sz opts) \<and> tree_leaf_count (named l n sz opts) = max 1 n
    \<and> (if 2 \<le> n then
         axis_size (lt_root (named l n sz opts)) LeftRight
           = max (cols sz) (fst (minimum_size (lt_root (named l n sz opts))))
         \<and> axis_size (lt_root (named l n sz opts)) TopBottom
           = max (rows sz) (snd (minimum_size (lt_root (named l n sz opts))))
       else named l n sz opts = single sz)"
proof -
  have sz: "valid_size sz" and opts: "valid_options opts"
    using assms by (simp_all add: valid_size_def valid_options_def)
  have "n < 2 \<Longrightarrow> named l n sz opts = single sz" by (simp add: named_def)
  then show ?thesis using named_outcome [OF assms(1) sz assms(4,5) opts] by auto
qed

theorem named_spec_witness:
  "wf_tree (named Tiled 5 \<lparr>cols = 80, rows = 24\<rparr> default_layout_options)
    \<and> tree_leaf_count (named Tiled 5 \<lparr>cols = 80, rows = 24\<rparr> default_layout_options) = 5"
  using named_spec [of 5 "\<lparr>cols = 80, rows = 24\<rparr>" default_layout_options Tiled]
  by (simp add: default_layout_options_def machine_defs)

text \<open>The main pane of a main layout: pane 0, whose cell is the last one in a mirrored layout.\<close>

lemma leaf_dims_pair: "leaf_dims (Split g d [a, b]) = leaf_dims a @ leaf_dims b"
  by (simp add: leaf_dims_def)

lemma main_layout_parts:
  assumes main: "main_layout d n g m mirrored t" and n: "2 \<le> n"
  obtains gm secondary where "axis_of gm d = m" "length (leaf_dims secondary) = n - 1"
    "leaf_dims (lt_root t) = (if mirrored then leaf_dims secondary @ [dims gm] else dims gm # leaf_dims secondary)"
    "lt_leaf_map t = (if mirrored then Some (mirrored_leaf_map n) else None)" "m = 0 \<longrightarrow> \<not> tiles (lt_root t)"
proof -
  obtain gm gs mk x y x' y' where e: "axis_of gm d = m"
    "lt_root t = fix_offsets (Split g d (let main = Pane gm;
         secondary = (if n = 2 then Pane gs else Split gs (cross d) (scan_panes mk 0 (split_axis (axis_of gs (cross d)) (n - 1))))
       in if mirrored then [fix_offsets secondary x y, fix_offsets main x' y'] else [main, secondary])) 0 0"
    "lt_leaf_map t = (if mirrored then Some (mirrored_leaf_map n) else None)"
    using main unfolding main_layout_def Let_def by blast
  let ?s = "if n = 2 then Pane gs else Split gs (cross d) (scan_panes mk 0 (split_axis (axis_of gs (cross d)) (n - 1)))"
  have "leaf_count ?s = n - 1"
    using n leaves_shape(2) [of "scan_panes mk 0 (split_axis (axis_of gs (cross d)) (n - 1))" "n - 1"] by simp
  then have "length (leaf_dims ?s) = n - 1" by (simp add: leaf_dims_def length_leaf_geometries)
  moreover have "leaf_dims (lt_root t) = (if mirrored then leaf_dims ?s @ [dims gm] else dims gm # leaf_dims ?s)"
    unfolding e(2) leaf_dims_fix_offsets by (simp add: Let_def leaf_dims_pair del: fix_offsets.simps) (simp add: leaf_dims_def)
  moreover have "m = 0 \<longrightarrow> \<not> tiles (lt_root t)" using e(1) unfolding e(2) tiles_fix_offsets by (cases d) (simp_all add: Let_def)
  ultimately show ?thesis using that [of gm ?s] e(1,3) by blast
qed

lemma main_layout_main_pane:
  assumes main: "main_layout d n g m mirrored t" and n: "2 \<le> n"
  shows "pane_leaf t 0 = Some (if mirrored then n - 1 else 0)"
    and "leaf_count (lt_root t) = n"
    and "axis_of (collect_leaf_geometries (fix_offsets (lt_root t) x y) ! (if mirrored then n - 1 else 0)) d = m"
    and "m = 0 \<Longrightarrow> \<not> tiles (lt_root t)"
proof -
  obtain gm secondary where p: "axis_of gm d = m" "length (leaf_dims secondary) = n - 1"
    "leaf_dims (lt_root t) = (if mirrored then leaf_dims secondary @ [dims gm] else dims gm # leaf_dims secondary)"
    "lt_leaf_map t = (if mirrored then Some (mirrored_leaf_map n) else None)" "m = 0 \<longrightarrow> \<not> tiles (lt_root t)"
    by (rule main_layout_parts [OF main n])
  show "pane_leaf t 0 = Some (if mirrored then n - 1 else 0)"
    using n by (simp add: pane_leaf_def p(4) mirrored_leaf_map_def list_get_def)
  have len: "length (leaf_dims (lt_root t)) = n" using n p(2) by (simp add: p(3))
  then show "leaf_count (lt_root t) = n" by (simp add: leaf_dims_def length_leaf_geometries)
  let ?i = "if mirrored then n - 1 else 0"
  have "?i < n" using n by simp
  moreover have "leaf_dims (fix_offsets (lt_root t) x y) ! ?i = dims gm" using p(2) by (simp add: p(3) nth_append)
  ultimately have "dims (collect_leaf_geometries (fix_offsets (lt_root t) x y) ! ?i) = dims gm"
    using len leaf_dims_fix_offsets [of "lt_root t" x y] by (metis leaf_dims_def length_map nth_map)
  then show "axis_of (collect_leaf_geometries (fix_offsets (lt_root t) x y) ! ?i) d = m"
    using p(1) by (cases d) (simp_all add: dims_def)
  show "m = 0 \<Longrightarrow> \<not> tiles (lt_root t)" using p(5) by simp
qed

text \<open>
  C14: with the option \<open>main-pane-width\<close> set to zero the main vertical layout of two panes or more in a
  window of at least three columns, mirrored or not, gives the main pane (pane 0) a cell without columns,
  and the layout is not well-formed.
\<close>

theorem main_pane_width_zero:
  assumes "requested_main_width opts = Some 0" and "l = (if mirrored then MainVerticalMirrored else MainVertical)"
    and "2 \<le> n" and "3 \<le> cols sz"
  shows "\<exists>i < tree_leaf_count (named l n sz opts). pane_leaf (named l n sz opts) 0 = Some i
    \<and> lg_width (collect_leaf_geometries (lt_root (named l n sz opts)) ! i) = 0 \<and> \<not> wf_tree (named l n sz opts)"
proof -
  have "build_named l n g opts = build_main_vertical n g opts mirrored" for g
    by (cases mirrored) (simp_all add: assms(2) build_named_def)
  then obtain g where g: "3 \<le> lg_width g"
    and eq: "named l n sz opts = (build_main_vertical n g opts mirrored)\<lparr>lt_root := fix_offsets (lt_root (build_main_vertical n g opts mirrored)) 0 0\<rparr>"
    using named_geometry [OF assms(3), of sz l opts] assms(4) by (metis le_trans)
  have "resolve_main_pane_size (lg_width g) (requested_main_width opts) DEFAULT_MAIN_PANE_WIDTH = 0"
    using g assms(1) by (simp add: resolve_main_pane_size_def PANE_BORDER_CELLS_def PANE_MINIMUM_def Let_def machine_defs)
  then have main: "main_layout LeftRight n g 0 mirrored (build_main_vertical n g opts mirrored)"
    using build_main_vertical_layout [OF assms(3), of g opts mirrored] by simp
  note p = main_layout_main_pane [OF main assms(3)]
  show ?thesis using p(1,2) p(3) [of 0 0] p(4) assms(3) unfolding eq
    by (intro exI [of _ "if mirrored then n - 1 else 0"]) (simp add: wf_tree_def tree_leaf_count_def pane_leaf_def)
qed

theorem main_pane_width_zero_witness:
  "\<exists>i < tree_leaf_count (named MainVerticalMirrored 3 \<lparr>cols = 80, rows = 24\<rparr> (default_layout_options\<lparr>requested_main_width := Some 0\<rparr>)).
     lg_width (collect_leaf_geometries (lt_root (named MainVerticalMirrored 3 \<lparr>cols = 80, rows = 24\<rparr>
       (default_layout_options\<lparr>requested_main_width := Some 0\<rparr>))) ! i) = 0"
  using main_pane_width_zero [of "default_layout_options\<lparr>requested_main_width := Some 0\<rparr>" MainVerticalMirrored True 3 "\<lparr>cols = 80, rows = 24\<rparr>"]
  by auto

section \<open>Layout strings\<close>

text \<open>
  C7: writing a well-formed layout as a string and parsing it back for the same number of panes
  gives the same cells at the same positions. The pane ids must fit \<open>u32\<close>, and the tree must
  not be deeper than the parser's limit.
\<close>

theorem parse_dump_spec:
  assumes "wf_tree t" and "length ids = tree_leaf_count t" and "\<forall>i \<in> set ids. i \<le> u32_max"
    and "cell_depth (lt_root t) \<le> MAX_LAYOUT_PARSE_DEPTH"
  shows "parse (dump t ids) (tree_leaf_count t) = Inr \<lparr>lt_root = lt_root t, lt_leaf_map = None\<rparr>"
  by (rule parse_dump_root [OF assms])

theorem parse_dump_spec_witness:
  "parse (dump three_panes [0, 1, 2]) (tree_leaf_count three_panes) = Inr three_panes"
proof -
  have "three_panes = \<lparr>lt_root = lt_root three_panes, lt_leaf_map = None\<rparr>" by (simp add: three_panes_def)
  moreover have "parse (dump three_panes [0, 1, 2]) (tree_leaf_count three_panes)
      = Inr \<lparr>lt_root = lt_root three_panes, lt_leaf_map = None\<rparr>"
    by (rule parse_dump_spec [OF wf_three_panes])
      (simp_all add: tree_leaf_count_def three_panes_def MAX_LAYOUT_PARSE_DEPTH_def machine_defs)
  ultimately show ?thesis by simp
qed

text \<open>
  a layout string that parses starts with the checksum of its body; the layout has exactly as
  many cells as there are panes, passes the size check of the source, and maps panes to cells in
  order.
\<close>

theorem parse_spec:
  assumes "parse s n = Inr t"
  shows "(\<exists>checksum body. s = checksum @ '','' @ body \<and> u16_from_hex checksum = Some (layout_checksum body))
    \<and> tree_leaf_count t = n \<and> check (lt_root t) \<and> lt_leaf_map t = None"
  using parse_Inr [OF assms] by simp

theorem parse_spec_witness: "check (lt_root three_panes) \<and> tree_leaf_count three_panes = 3"
proof -
  have "parse (dump three_panes [0, 1, 2]) (tree_leaf_count three_panes)
      = Inr \<lparr>lt_root = lt_root three_panes, lt_leaf_map = None\<rparr>"
    by (rule parse_dump_root [OF wf_three_panes])
      (simp_all add: tree_leaf_count_def three_panes_def MAX_LAYOUT_PARSE_DEPTH_def machine_defs)
  from parse_spec [OF this] show ?thesis by (simp add: tree_leaf_count_def)
qed

text \<open>
  the layout checksum detects every change of a single character: two strings that differ in
  one position have different checksums.
\<close>

theorem checksum_detects_substitution:
  assumes "x \<noteq> y"
  shows "layout_checksum (p @ x # s) \<noteq> layout_checksum (p @ y # s)"
  using assms checksum_substitution [of p x s y] by blast

theorem checksum_detects_substitution_witness:
  "layout_checksum ''80x24,0,0,1'' \<noteq> layout_checksum ''80x25,0,0,1''"
  using checksum_detects_substitution [of "CHR ''4''" "CHR ''5''" "''80x2''" "'',0,0,1''"] by simp

end
