(* ===== verification/Window_State.thy ===== *)
theory Window_State
  imports Layout_Text Layout_Named Layout_Resize "HOL-Library.Monad_Syntax"
begin

text \<open>
  Panes and windows (\<open>pane.rs\<close>, \<open>window.rs\<close>, \<open>window/zoom.rs\<close>,
  \<open>window/activity.rs\<close>): the state of a window, the queries on it, how a layout tree is
  applied to the panes, zooming and the alert flags.

  An operation that can panic (an \<open>expect\<close>, an \<open>assert!\<close>, an index out of range) returns
  an option, \<open>None\<close> for the panic, and the calls are chained with the bind of that type. An
  operation reads the clock through its parameter \<open>now\<close>, one reading per operation.
\<close>

section \<open>Panes\<close>

record pane_geometry =
  pg_x :: u16
  pg_y :: u16
  pg_cols :: u16
  pg_rows :: u16

definition new_pane_geometry :: "u16 \<Rightarrow> u16 \<Rightarrow> u16 \<Rightarrow> u16 \<Rightarrow> pane_geometry" where
  "new_pane_geometry x y c r = \<lparr>pg_x = x, pg_y = y, pg_cols = c, pg_rows = r\<rparr>"

record pane =
  p_id :: u32
  p_index :: u32
  p_geometry :: pane_geometry
  p_active_point :: u64
  p_created_at :: i64
  p_activity_at :: i64

definition pane_new_with_id :: "i64 \<Rightarrow> u32 \<Rightarrow> u32 \<Rightarrow> pane_geometry \<Rightarrow> pane" where
  "pane_new_with_id now i index g =
     \<lparr>p_id = i, p_index = index, p_geometry = g, p_active_point = 0, p_created_at = now, p_activity_at = now\<rparr>"

section \<open>Alert flags\<close>

type_synonym alert_flags = "8 word"

unbundle bit_operations_syntax

definition flags_contains :: "alert_flags \<Rightarrow> alert_flags \<Rightarrow> bool" where
  "flags_contains a b \<longleftrightarrow> a AND b = b"

definition flags_intersects :: "alert_flags \<Rightarrow> alert_flags \<Rightarrow> bool" where
  "flags_intersects a b \<longleftrightarrow> a AND b \<noteq> 0"

definition flags_insert :: "alert_flags \<Rightarrow> alert_flags \<Rightarrow> alert_flags" where
  "flags_insert a b = a OR b"

definition flags_remove :: "alert_flags \<Rightarrow> alert_flags \<Rightarrow> alert_flags" where
  "flags_remove a b = a AND NOT b"

definition WINDOW_ALERTFLAGS :: alert_flags where
  "WINDOW_ALERTFLAGS = 1 OR 2 OR 4"

section \<open>Windows\<close>

record window =
  w_id :: u32
  w_panes :: "pane list"
  w_next_pane_index :: u32
  w_active_pane :: u32
  w_last_pane :: "u32 option"
  w_layout :: layout_name
  w_last_layout :: "layout_name option"
  w_layout_tree :: "layout_tree option"
  w_custom_layout :: bool
  w_old_layout :: "string option"
  w_size :: terminal_size
  w_name :: "string option"
  w_automatic_rename :: bool
  w_zoomed :: bool
  w_zoom_restore_pending :: bool
  w_alert_flags :: alert_flags
  w_alerts_queued :: bool
  w_created_at :: i64
  w_activity_at :: i64
  w_requested_main_width :: "u16 option"
  w_requested_main_height :: "u16 option"

text \<open>The iterator method \<open>position\<close>, and \<open>iter_mut().find(..)\<close> followed by an update.\<close>

fun position :: "('a \<Rightarrow> bool) \<Rightarrow> 'a list \<Rightarrow> usize option" where
  "position P [] = None"
| "position P (x # xs) = (if P x then Some 0 else map_option Suc (position P xs))"

fun update_first :: "('a \<Rightarrow> bool) \<Rightarrow> ('a \<Rightarrow> 'a) \<Rightarrow> 'a list \<Rightarrow> 'a list" where
  "update_first P f [] = []"
| "update_first P f (x # xs) = (if P x then f x # xs else x # update_first P f xs)"

definition pane_at :: "window \<Rightarrow> u32 \<Rightarrow> pane option" where
  "pane_at w pane_index = List.find (\<lambda>p. p_index p = pane_index) (w_panes w)"

definition pane_mut :: "window \<Rightarrow> u32 \<Rightarrow> (pane \<Rightarrow> pane) \<Rightarrow> window" where
  "pane_mut w pane_index f = w\<lparr>w_panes := update_first (\<lambda>p. p_index p = pane_index) f (w_panes w)\<rparr>"

definition active_pane :: "window \<Rightarrow> pane option" where
  "active_pane w = pane_at w (w_active_pane w)"

definition pane_position :: "window \<Rightarrow> u32 \<Rightarrow> usize option" where
  "pane_position w pane_index = position (\<lambda>p. p_index p = pane_index) (w_panes w)"

definition pane_index_for_id :: "window \<Rightarrow> u32 \<Rightarrow> u32 option" where
  "pane_index_for_id w i = map_option p_index (List.find (\<lambda>p. p_id p = i) (w_panes w))"

definition layout_dump :: "window \<Rightarrow> string" where
  "layout_dump w =
     (case w_layout_tree w of None \<Rightarrow> '''' | Some t \<Rightarrow> dump t (map p_id (w_panes w)))"

definition save_old_layout :: "window \<Rightarrow> window" where
  "save_old_layout w = w\<lparr>w_old_layout := Some (layout_dump w)\<rparr>"

section \<open>Applying a layout to the panes\<close>

text \<open>
  \<open>LayoutTree::apply_to_panes\<close>: the pane at position \<open>i\<close> takes the rectangle of the cell
  the leaf map names for it, cut to \<open>u16\<close>. Both indexing operations panic out of range.
\<close>

definition pane_rect :: "layout_geometry \<Rightarrow> pane_geometry" where
  "pane_rect g = new_pane_geometry (min (lg_x g) u16_max) (min (lg_y g) u16_max)
                   (min (lg_width g) u16_max) (min (lg_height g) u16_max)"

fun place_panes :: "layout_tree \<Rightarrow> layout_geometry list \<Rightarrow> nat \<Rightarrow> pane list \<Rightarrow> pane list option" where
  "place_panes t geometries i [] = Some []"
| "place_panes t geometries i (p # ps) =
     do {
       leaf_index \<leftarrow> pane_leaf t i;
       g \<leftarrow> list_get geometries leaf_index;
       qs \<leftarrow> place_panes t geometries (Suc i) ps;
       Some (p\<lparr>p_geometry := pane_rect g\<rparr> # qs)
     }"

definition apply_to_panes :: "layout_tree \<Rightarrow> pane list \<Rightarrow> pane list option" where
  "apply_to_panes t ps = place_panes t (collect_leaf_geometries (lt_root t)) 0 ps"

definition apply_layout_tree :: "window \<Rightarrow> window option" where
  "apply_layout_tree w =
     (case w_layout_tree w of
        None \<Rightarrow> Some w
      | Some t \<Rightarrow> do { ps \<leftarrow> apply_to_panes t (w_panes w); Some (w\<lparr>w_panes := ps\<rparr>) })"

definition recalculate_geometry :: "window \<Rightarrow> window option" where
  "recalculate_geometry w =
     (case w_layout_tree w of
        None \<Rightarrow> Some w
      | Some t \<Rightarrow>
          let t' = resize t (w_size w)
          in do {
               ps \<leftarrow> apply_to_panes t' (w_panes w);
               Some (w\<lparr>w_layout_tree := Some t', w_size := tree_size t', w_panes := ps\<rparr>)
             })"

definition full_rect :: "terminal_size \<Rightarrow> pane_geometry" where
  "full_rect sz = new_pane_geometry 0 0 (cols sz) (rows sz)"

definition apply_zoom_geometry :: "window \<Rightarrow> window" where
  "apply_zoom_geometry w =
     pane_mut w (w_active_pane w) (\<lambda>p. p\<lparr>p_geometry := full_rect (w_size w)\<rparr>)"

definition window_options :: "window \<Rightarrow> layout_options" where
  "window_options w =
     \<lparr>requested_main_width = w_requested_main_width w, requested_main_height = w_requested_main_height w,
      tiled_max_columns = None\<rparr>"

definition rebuild_named_layout_tree :: "window \<Rightarrow> layout_name \<Rightarrow> window option" where
  "rebuild_named_layout_tree w layout =
     (if w_panes w = [] then Some (w\<lparr>w_layout_tree := None, w_custom_layout := False\<rparr>)
      else
        let t = named layout (length (w_panes w)) (w_size w) (window_options w)
        in apply_layout_tree (w\<lparr>w_size := tree_size t, w_layout_tree := Some t, w_custom_layout := False\<rparr>))"

section \<open>Creating and resetting\<close>

definition new_with_initial_pane :: "i64 \<Rightarrow> terminal_size \<Rightarrow> u32 \<Rightarrow> u32 \<Rightarrow> window option" where
  "new_with_initial_pane now sz i wid =
     recalculate_geometry
       \<lparr>w_id = wid, w_panes = [pane_new_with_id now i 0 (full_rect sz)], w_next_pane_index = 1,
        w_active_pane = 0, w_last_pane = None, w_layout = MainVertical, w_last_layout = None,
        w_layout_tree = Some (single sz), w_custom_layout = False, w_old_layout = None, w_size = sz,
        w_name = None, w_automatic_rename = True, w_zoomed = False, w_zoom_restore_pending = False,
        w_alert_flags = 0, w_alerts_queued = False, w_created_at = now, w_activity_at = now,
        w_requested_main_width = None, w_requested_main_height = None\<rparr>"

definition respawn :: "i64 \<Rightarrow> window \<Rightarrow> u32 \<Rightarrow> window \<times> u32" where
  "respawn now w i =
     (w\<lparr>w_panes := [pane_new_with_id now i 0 (full_rect (w_size w))], w_next_pane_index := 1,
        w_active_pane := 0, w_last_pane := None, w_layout := MainVertical, w_last_layout := None,
        w_layout_tree := Some (single (w_size w)), w_custom_layout := False, w_old_layout := None,
        w_automatic_rename := True, w_zoomed := False, w_zoom_restore_pending := False,
        w_alert_flags := 0, w_alerts_queued := False, w_requested_main_width := None,
        w_requested_main_height := None\<rparr>, i)"

definition set_size :: "window \<Rightarrow> terminal_size \<Rightarrow> window option" where
  "set_size w sz =
     do {
       w' \<leftarrow> recalculate_geometry (w\<lparr>w_size := sz\<rparr>);
       Some (if w_zoomed w' then apply_zoom_geometry w' else w')
     }"

definition set_name :: "window \<Rightarrow> string \<Rightarrow> window" where
  "set_name w n = w\<lparr>w_name := Some n, w_automatic_rename := False\<rparr>"

definition enable_automatic_rename :: "window \<Rightarrow> window" where
  "enable_automatic_rename w = w\<lparr>w_automatic_rename := True\<rparr>"

definition set_automatic_name :: "window \<Rightarrow> string \<Rightarrow> window" where
  "set_automatic_name w n = w\<lparr>w_name := Some n, w_automatic_rename := True\<rparr>"

section \<open>Alerts\<close>

definition queue_alerts :: "window \<Rightarrow> alert_flags \<Rightarrow> window" where
  "queue_alerts w flags = w\<lparr>w_alert_flags := flags_insert (w_alert_flags w) flags\<rparr>"

definition take_alert_flags :: "window \<Rightarrow> window \<times> alert_flags" where
  "take_alert_flags w = (w\<lparr>w_alert_flags := 0\<rparr>, w_alert_flags w)"

definition clear_alert_flags :: "window \<Rightarrow> alert_flags \<Rightarrow> window" where
  "clear_alert_flags w flags = w\<lparr>w_alert_flags := flags_remove (w_alert_flags w) flags\<rparr>"

definition set_alerts_queued :: "window \<Rightarrow> bool \<Rightarrow> window" where
  "set_alerts_queued w queued = w\<lparr>w_alerts_queued := queued\<rparr>"

section \<open>Activity\<close>

record window_pane_activity =
  a_pane_id :: u32
  a_window_activity_at :: i64
  a_pane_activity_at :: i64

definition touch_activity_for_pane :: "i64 \<Rightarrow> window \<Rightarrow> u32 \<Rightarrow> window \<times> bool" where
  "touch_activity_for_pane now w pane_index =
     (case position (\<lambda>p. p_index p = pane_index) (w_panes w) of
        None \<Rightarrow> (w, False)
      | Some i \<Rightarrow> (w\<lparr>w_activity_at := now,
                      w_panes := (w_panes w)[i := (w_panes w ! i)\<lparr>p_activity_at := now\<rparr>]\<rparr>, True))"

definition pane_activity_snapshot :: "window \<Rightarrow> u32 \<Rightarrow> window_pane_activity option" where
  "pane_activity_snapshot w i =
     (case List.find (\<lambda>p. p_id p = i) (w_panes w) of
        None \<Rightarrow> None
      | Some p \<Rightarrow> Some \<lparr>a_pane_id = i, a_window_activity_at = w_activity_at w,
                        a_pane_activity_at = p_activity_at p\<rparr>)"

definition apply_pane_activity_snapshot :: "window \<Rightarrow> window_pane_activity \<Rightarrow> window \<times> bool" where
  "apply_pane_activity_snapshot w a =
     (case List.find (\<lambda>p. p_id p = a_pane_id a) (w_panes w) of
        None \<Rightarrow> (w, False)
      | Some _ \<Rightarrow>
          (w\<lparr>w_activity_at := a_window_activity_at a,
             w_panes := update_first (\<lambda>p. p_id p = a_pane_id a)
                          (\<lambda>p. p\<lparr>p_activity_at := a_pane_activity_at a\<rparr>) (w_panes w)\<rparr>, True))"

end
