(* ===== verification/Window_Ops.thy ===== *)
theory Window_Ops
  imports Window_State
begin

text \<open>
  The operations on the panes of a window (\<open>window/panes.rs\<close>, \<open>window/zoom.rs\<close> and the
  pane transfers of \<open>window.rs\<close>): selecting, zooming, numbering, splitting, removing,
  rotating, swapping and moving panes.
\<close>

section \<open>Zooming and selecting\<close>

definition auto_unzoom :: "window \<Rightarrow> (window \<times> bool) option" where
  "auto_unzoom w =
     (if \<not> w_zoomed w then Some (w, False)
      else do { w' \<leftarrow> recalculate_geometry (w\<lparr>w_zoomed := False\<rparr>); Some (w', True) })"

definition unzoom :: "window \<Rightarrow> window option" where
  "unzoom w = map_option fst (auto_unzoom w)"

definition push_zoom :: "window \<Rightarrow> bool \<Rightarrow> (window \<times> bool) option" where
  "push_zoom w restore =
     do {
       w' \<leftarrow> (if w_zoomed w then unzoom w else Some w);
       Some (w'\<lparr>w_zoom_restore_pending := w_zoomed w \<and> restore\<rparr>, w_zoomed w)
     }"

definition pop_zoom :: "window \<Rightarrow> window" where
  "pop_zoom w =
     (if w_zoom_restore_pending w then
        let w1 = w\<lparr>w_zoom_restore_pending := False\<rparr>
        in if length (w_panes w1) > 1 then apply_zoom_geometry (w1\<lparr>w_zoomed := True\<rparr>) else w1
      else w)"

definition mark_pane_active :: "i64 \<Rightarrow> window \<Rightarrow> u32 \<Rightarrow> window" where
  "mark_pane_active now w pane_index =
     (let next_active_point = min (fold max (map p_active_point (w_panes w)) 0 + 1) u64_max
      in pane_mut w pane_index (\<lambda>p. p\<lparr>p_active_point := next_active_point, p_activity_at := now\<rparr>))"

definition select_pane :: "i64 \<Rightarrow> window \<Rightarrow> u32 \<Rightarrow> (window \<times> bool) option" where
  "select_pane now w pane_index =
     (if pane_at w pane_index = None then Some (w, False)
      else if w_active_pane w \<noteq> pane_index then
        do {
          w1 \<leftarrow> unzoom w;
          let w2 = w1\<lparr>w_last_pane := Some (w_active_pane w1), w_active_pane := pane_index\<rparr>;
          Some (mark_pane_active now w2 pane_index, True)
        }
      else Some (pane_mut w pane_index (\<lambda>p. p\<lparr>p_activity_at := now\<rparr>), True))"

definition select_pane_by_id :: "i64 \<Rightarrow> window \<Rightarrow> u32 \<Rightarrow> (window \<times> bool) option" where
  "select_pane_by_id now w i =
     (case pane_index_for_id w i of
        None \<Rightarrow> Some (w, False)
      | Some pane_index \<Rightarrow> select_pane now w pane_index)"

definition toggle_zoom :: "i64 \<Rightarrow> window \<Rightarrow> u32 \<Rightarrow> (window \<times> bool) option" where
  "toggle_zoom now w pane_index =
     (if pane_at w pane_index = None then Some (w, w_zoomed w)
      else if w_zoomed w then do { w' \<leftarrow> unzoom w; Some (w', False) }
      else if length (w_panes w) \<le> 1 then Some (w, False)
      else do {
        (w1, _) \<leftarrow> select_pane now w pane_index;
        Some (apply_zoom_geometry (w1\<lparr>w_zoomed := True\<rparr>), True)
      })"

definition visible_layout_dump :: "window \<Rightarrow> string" where
  "visible_layout_dump w =
     (if \<not> w_zoomed w then layout_dump w
      else case active_pane w of
             None \<Rightarrow> ''''
           | Some p \<Rightarrow> dump (single (w_size w)) [p_id p])"

section \<open>Numbering\<close>

fun number_panes :: "nat \<Rightarrow> pane list \<Rightarrow> pane list" where
  "number_panes i [] = []"
| "number_panes i (p # ps) = p\<lparr>p_index := u32_wrap i\<rparr> # number_panes (Suc i) ps"

definition renumber_panes_by_position :: "window \<Rightarrow> u32 \<Rightarrow> u32 option \<Rightarrow> window option" where
  "renumber_panes_by_position w active_pane_id last_pane_id =
     (let w1 = w\<lparr>w_panes := number_panes 0 (w_panes w),
                 w_next_pane_index := u32_wrap (length (w_panes w))\<rparr>
      in do {
           active \<leftarrow> pane_index_for_id w1 active_pane_id;
           Some (w1\<lparr>w_active_pane := active,
                    w_last_pane := (case Option.bind last_pane_id (pane_index_for_id w1) of
                                      None \<Rightarrow> None
                                    | Some l \<Rightarrow> if l \<noteq> active then Some l else None)\<rparr>)
         })"

definition renumber_panes_by_position_stamping ::
  "i64 \<Rightarrow> window \<Rightarrow> u32 \<Rightarrow> u32 option \<Rightarrow> u32 option \<Rightarrow> window option" where
  "renumber_panes_by_position_stamping now w active_pane_id last_pane_id previous_active_pane_id =
     do {
       w1 \<leftarrow> renumber_panes_by_position w active_pane_id last_pane_id;
       Some (if previous_active_pane_id \<noteq> Some active_pane_id
             then mark_pane_active now w1 (w_active_pane w1) else w1)
     }"

definition renumber_single_pane_to_zero :: "window \<Rightarrow> window option" where
  "renumber_single_pane_to_zero w =
     (case w_panes w of
        [p] \<Rightarrow>
          recalculate_geometry
            (w\<lparr>w_panes := [p\<lparr>p_index := 0, p_geometry := full_rect (w_size w)\<rparr>], w_next_pane_index := 1,
               w_active_pane := 0, w_last_pane := None, w_layout := MainVertical, w_last_layout := None,
               w_layout_tree := Some (single (w_size w)), w_custom_layout := False,
               w_old_layout := None, w_zoomed := False, w_zoom_restore_pending := False,
               w_requested_main_width := None, w_requested_main_height := None\<rparr>)
      | _ \<Rightarrow> Some w)"

definition allocate_pane_index :: "window \<Rightarrow> (window \<times> u32) option" where
  "allocate_pane_index w =
     (if w_next_pane_index w = u32_max then None
      else Some (w\<lparr>w_next_pane_index := w_next_pane_index w + 1\<rparr>, w_next_pane_index w))"

definition bump_next_pane_index :: "window \<Rightarrow> u32 \<Rightarrow> window" where
  "bump_next_pane_index w pane_index =
     w\<lparr>w_next_pane_index := max (w_next_pane_index w) (u32_sat_add pane_index 1)\<rparr>"

definition next_generated_pane_id :: "window \<Rightarrow> u32" where
  "next_generated_pane_id w =
     (if w_panes w = [] then 0 else u32_sat_add (fold max (map p_id (w_panes w)) 0) 1)"

definition window_label :: "window \<Rightarrow> string" where
  "window_label w = ''@'' @ decimal (w_id w)"

definition ensure_accepts_pane :: "window \<Rightarrow> pane \<Rightarrow> usize option \<Rightarrow> unit result" where
  "ensure_accepts_pane w p ignored_position =
     fold (\<lambda>(i, existing) r. res_bind r (\<lambda>_.
        if Some i = ignored_position then Inr ()
        else if p_id existing = p_id p then
          Inl (Server (''pane id '' @ decimal (p_id p) @ '' already exists in window '' @ window_label w))
        else if p_index existing = p_index p then
          Inl (Server (''pane index '' @ decimal (p_index p) @ '' already exists in window '' @ window_label w))
        else Inr ()))
       (zip [0..<length (w_panes w)] (w_panes w)) (Inr ())"

section \<open>Splitting\<close>

datatype split_direction = Vertical | Horizontal

fun from_split_direction :: "split_direction \<Rightarrow> layout_direction" where
  "from_split_direction Vertical = LeftRight"
| "from_split_direction Horizontal = TopBottom"

fun layout_for_split :: "split_direction \<Rightarrow> layout_name" where
  "layout_for_split Vertical = MainVertical"
| "layout_for_split Horizontal = MainHorizontal"

definition can_split_pane :: "window \<Rightarrow> u32 \<Rightarrow> split_direction \<Rightarrow> bool" where
  "can_split_pane w pane_index d =
     (case pane_at w pane_index of
        None \<Rightarrow> False
      | Some p \<Rightarrow> (case d of Vertical \<Rightarrow> pg_cols (p_geometry p) | Horizontal \<Rightarrow> pg_rows (p_geometry p))
                    \<ge> minimum_axis_size_for_panes 2)"

text \<open>The tree half of a split: the new tree is stored, or the named layout rebuilt.\<close>

definition with_tree :: "window \<Rightarrow> (layout_tree \<Rightarrow> layout_tree \<times> bool) \<Rightarrow> window \<times> bool" where
  "with_tree w f =
     (case w_layout_tree w of
        None \<Rightarrow> (w, False)
      | Some t \<Rightarrow> (case f t of (t', ok) \<Rightarrow> (w\<lparr>w_layout_tree := Some t'\<rparr>, ok)))"

definition apply_or_rebuild :: "window \<times> bool \<Rightarrow> window option" where
  "apply_or_rebuild r =
     (case r of (w, ok) \<Rightarrow> if \<not> ok then rebuild_named_layout_tree w (w_layout w) else apply_layout_tree w)"

definition commit_split_renumber ::
  "i64 \<Rightarrow> window \<Rightarrow> u32 \<Rightarrow> u32 option \<Rightarrow> u32 option \<Rightarrow> bool \<Rightarrow> window option" where
  "commit_split_renumber now w new_pane_id previous_active_pane_id previous_last_pane_id detached =
     (if detached then
        do {
          active_pane_id \<leftarrow> previous_active_pane_id;
          renumber_panes_by_position w active_pane_id previous_last_pane_id
        }
      else
        do {
          w1 \<leftarrow> renumber_panes_by_position w new_pane_id previous_active_pane_id;
          Some (if map_option p_id (active_pane w1) \<noteq> previous_active_pane_id
                then mark_pane_active now w1 (w_active_pane w1) else w1)
        })"

definition last_pane_id :: "window \<Rightarrow> u32 option" where
  "last_pane_id w = map_option p_id (Option.bind (w_last_pane w) (pane_at w))"

definition split_at_position_detached ::
  "i64 \<Rightarrow> window \<Rightarrow> usize \<Rightarrow> u32 \<Rightarrow> split_direction \<Rightarrow> bool \<Rightarrow> bool \<Rightarrow> (window \<times> u32) option" where
  "split_at_position_detached now w pos i d ahead detached =
     (if \<not> pos < length (w_panes w) then None
      else if \<not> list_all (\<lambda>p. p_id p \<noteq> i) (w_panes w) then None
      else do {
        w1 \<leftarrow> unzoom w;
        let w2 = w1\<lparr>w_layout := layout_for_split d\<rparr>;
        (w3, new_index) \<leftarrow> allocate_pane_index w2;
        let insert_at = (if ahead then pos else pos + 1);
        let w4 = w3\<lparr>w_panes := list_insert (w_panes w3) insert_at
                                 (pane_new_with_id now i new_index (new_pane_geometry 0 0 0 0))\<rparr>;
        w5 \<leftarrow> apply_or_rebuild (with_tree w4 (\<lambda>t. split_leaf t pos (from_split_direction d) ahead));
        w6 \<leftarrow> commit_split_renumber now w5 i (map_option p_id (active_pane w2)) (last_pane_id w2) detached;
        index \<leftarrow> pane_index_for_id w6 i;
        Some (w6, index)
      })"

definition split_after_position :: "i64 \<Rightarrow> window \<Rightarrow> usize \<Rightarrow> (window \<times> u32) option" where
  "split_after_position now w pos =
     split_at_position_detached now w pos (next_generated_pane_id w) Vertical False False"

section \<open>Removing\<close>

definition next_active_pane_after_removal :: "window \<Rightarrow> usize \<Rightarrow> u32 \<Rightarrow> u32 option" where
  "next_active_pane_after_removal w pos removed_pane_index =
     (case (case w_last_pane w of
              None \<Rightarrow> None
            | Some l \<Rightarrow> if l \<noteq> removed_pane_index then pane_at w l else None) of
        Some p \<Rightarrow> Some (p_id p)
      | None \<Rightarrow>
          if pos > 0 then map_option p_id (list_get (w_panes w) (pos - 1))
          else if pos + 1 < length (w_panes w) then map_option p_id (list_get (w_panes w) (pos + 1))
          else None)"

text \<open>The part of \<open>extract_pane\<close> after the pane has left the list.\<close>

definition settle_extraction ::
  "window \<Rightarrow> usize \<Rightarrow> pane \<Rightarrow> u32 option \<Rightarrow> u32 option \<Rightarrow> window option" where
  "settle_extraction w pos removed next_active_pane_id next_last_pane_id =
     do {
       w1 \<leftarrow> (if w_panes w = [] then Some (w\<lparr>w_layout_tree := None, w_custom_layout := False\<rparr>)
              else apply_or_rebuild (with_tree w (\<lambda>t. remove_leaf t pos)));
       (if length (w_panes w1) = 1 then renumber_single_pane_to_zero w1
        else if w_panes w1 \<noteq> [] then
          do { active \<leftarrow> next_active_pane_id; renumber_panes_by_position w1 active next_last_pane_id }
        else Some (w1\<lparr>w_active_pane := p_index removed, w_last_pane := None\<rparr>))
     }"

definition extract_pane :: "window \<Rightarrow> u32 \<Rightarrow> (window \<times> pane option) option" where
  "extract_pane w pane_index =
     (case pane_position w pane_index of
        None \<Rightarrow> Some (w, None)
      | Some pos \<Rightarrow>
          do {
            w1 \<leftarrow> unzoom w;
            (case active_pane w1 of
               None \<Rightarrow> Some (w1, None)
             | Some previous_active \<Rightarrow>
                 do {
                   next_active \<leftarrow>
                     (if w_active_pane w1 = pane_index \<and> length (w_panes w1) > 1
                      then map_option Some (next_active_pane_after_removal w1 pos pane_index)
                      else Some (Some (p_id previous_active)));
                   removed \<leftarrow> list_get (w_panes w1) pos;
                   let w2 = w1\<lparr>w_panes := list_remove (w_panes w1) pos\<rparr>;
                   let next_last =
                     (if p_index removed = w_active_pane w1 then None
                      else case last_pane_id w1 of
                             None \<Rightarrow> None
                           | Some l \<Rightarrow> if l \<noteq> p_id removed then Some l else None);
                   w3 \<leftarrow> settle_extraction w2 pos removed next_active next_last;
                   Some (w3, Some removed)
                 })
          })"

definition remove_pane :: "window \<Rightarrow> u32 \<Rightarrow> (window \<times> pane option) option" where
  "remove_pane w pane_index =
     (if length (w_panes w) \<le> 1 then Some (w, None) else extract_pane w pane_index)"

definition remove_other_panes :: "i64 \<Rightarrow> window \<Rightarrow> u32 \<Rightarrow> (window \<times> u32 list option) option" where
  "remove_other_panes now w pane_index =
     (case pane_at w pane_index of
        None \<Rightarrow> Some (w, None)
      | Some keep \<Rightarrow>
          let removed = map p_id (filter (\<lambda>p. p_id p \<noteq> p_id keep) (w_panes w))
          in if removed = [] then
               do { (w1, _) \<leftarrow> select_pane now w pane_index; Some (w1, Some removed) }
             else
               do {
                 w1 \<leftarrow> unzoom w;
                 w2 \<leftarrow> renumber_single_pane_to_zero
                   (w1\<lparr>w_panes := filter (\<lambda>p. p_id p = p_id keep) (w_panes w1)\<rparr>);
                 Some (w2, Some removed)
               })"

section \<open>Neighbours\<close>

datatype select_direction = SelectUp | SelectDown | SelectLeft | SelectRight

definition abs_diff :: "u32 \<Rightarrow> u32 \<Rightarrow> u32" where
  "abs_diff a b = (if a < b then b - a else a - b)"

definition tmux_axis_overlap :: "u32 \<Rightarrow> u32 \<Rightarrow> u32 \<Rightarrow> u32 \<Rightarrow> bool" where
  "tmux_axis_overlap source_start source_cells candidate_start candidate_cells =
     (let source_end = source_start + source_cells;
          candidate_end = candidate_start + (candidate_cells - 1)
      in (candidate_start < source_start \<and> candidate_end > source_end)
         \<or> (candidate_start \<ge> source_start \<and> candidate_start \<le> source_end)
         \<or> (candidate_end \<ge> source_start \<and> candidate_end \<le> source_end))"

definition adjacent_pane_score ::
  "pane_geometry \<Rightarrow> pane_geometry \<Rightarrow> select_direction \<Rightarrow> terminal_size \<Rightarrow> (u32 \<times> u32) option" where
  "adjacent_pane_score s c d sz =
     (let rows_overlap = tmux_axis_overlap (pg_y s) (pg_rows s) (pg_y c) (pg_rows c);
          cols_overlap = tmux_axis_overlap (pg_x s) (pg_cols s) (pg_x c) (pg_cols c);
          row_distance = abs_diff (pg_y s + pg_rows s div 2) (pg_y c + pg_rows c div 2);
          col_distance = abs_diff (pg_x s + pg_cols s div 2) (pg_x c + pg_cols c div 2)
      in case d of
           SelectRight \<Rightarrow>
             let edge = pg_x s + pg_cols s + 1; edge' = (if edge \<ge> cols sz then 0 else edge)
             in if pg_x c = edge' \<and> rows_overlap then Some (0, row_distance) else None
         | SelectLeft \<Rightarrow>
             let edge = pg_x s; edge' = (if edge = 0 then cols sz + 1 else edge)
             in if pg_x c + pg_cols c + 1 = edge' \<and> rows_overlap then Some (0, row_distance) else None
         | SelectDown \<Rightarrow>
             let edge = pg_y s + pg_rows s + 1; edge' = (if edge \<ge> rows sz then 0 else edge)
             in if pg_y c = edge' \<and> cols_overlap then Some (0, col_distance) else None
         | SelectUp \<Rightarrow>
             let edge = pg_y s; edge' = (if edge = 0 then rows sz + 1 else edge)
             in if pg_y c + pg_rows c + 1 = edge' \<and> cols_overlap then Some (0, col_distance) else None)"

text \<open>The loop over the other panes: the most recently active neighbour wins.\<close>

fun best_neighbour ::
  "(pane \<Rightarrow> bool) \<Rightarrow> (u64 \<times> u32) option \<Rightarrow> pane list \<Rightarrow> (u64 \<times> u32) option" where
  "best_neighbour adjacent best [] = best"
| "best_neighbour adjacent best (p # ps) =
     best_neighbour adjacent
       (if \<not> adjacent p then best
        else case best of
               Some (point, _) \<Rightarrow> if p_active_point p \<le> point then best else Some (p_active_point p, p_index p)
             | None \<Rightarrow> Some (p_active_point p, p_index p)) ps"

definition select_adjacent_pane ::
  "i64 \<Rightarrow> window \<Rightarrow> u32 \<Rightarrow> select_direction \<Rightarrow> (window \<times> u32 option) option" where
  "select_adjacent_pane now w pane_index d =
     (case pane_at w pane_index of
        None \<Rightarrow> Some (w, None)
      | Some source \<Rightarrow>
          (case best_neighbour (\<lambda>p. adjacent_pane_score (p_geometry source) (p_geometry p) d (w_size w) \<noteq> None)
                  None (filter (\<lambda>p. p_index p \<noteq> pane_index) (w_panes w)) of
             Some (_, candidate) \<Rightarrow>
               do { (w1, _) \<leftarrow> select_pane now w candidate; Some (w1, Some candidate) }
           | None \<Rightarrow> Some (w, Some (w_active_pane w))))"

section \<open>Rotating, swapping and moving\<close>

datatype rotate_direction = RotateDown | RotateUp

definition rotate_panes_with_zoom :: "i64 \<Rightarrow> window \<Rightarrow> rotate_direction \<Rightarrow> bool \<Rightarrow> window option" where
  "rotate_panes_with_zoom now w d restore_zoom =
     (if length (w_panes w) \<le> 1 then Some w
      else do {
        (w1, _) \<leftarrow> push_zoom w restore_zoom;
        previous_active \<leftarrow> active_pane w1;
        active_position \<leftarrow> position (\<lambda>p. p_index p = w_active_pane w1) (w_panes w1);
        let rotated = (case d of RotateDown \<Rightarrow> last (w_panes w1) # butlast (w_panes w1)
                       | RotateUp \<Rightarrow> tl (w_panes w1) @ [hd (w_panes w1)]);
        w2 \<leftarrow> apply_layout_tree (w1\<lparr>w_panes := number_panes 0 rotated\<rparr>);
        let w3 = w2\<lparr>w_active_pane := u32_wrap active_position\<rparr>;
        let w4 = w3\<lparr>w_last_pane :=
                   (case pane_index_for_id w3 (p_id previous_active) of
                      None \<Rightarrow> None
                    | Some l \<Rightarrow> if l \<noteq> w_active_pane w3 then Some l else None)\<rparr>;
        Some (pop_zoom (mark_pane_active now w4 (w_active_pane w4)))
      })"

definition swap_panes :: "window \<Rightarrow> u32 \<Rightarrow> u32 \<Rightarrow> (window \<times> bool) option" where
  "swap_panes w source_pane_index target_pane_index =
     (case pane_position w source_pane_index of
        None \<Rightarrow> Some (w, False)
      | Some i \<Rightarrow>
          (case pane_position w target_pane_index of
             None \<Rightarrow> Some (w, False)
           | Some j \<Rightarrow>
               if i = j then Some (w, True)
               else do {
                 w1 \<leftarrow> unzoom w;
                 active \<leftarrow> active_pane w1;
                 let last_id = last_pane_id w1;
                 let ps = w_panes w1;
                 w2 \<leftarrow> apply_layout_tree (w1\<lparr>w_panes := ps[i := ps ! j, j := ps ! i]\<rparr>);
                 w3 \<leftarrow> renumber_panes_by_position w2 (p_id active) last_id;
                 Some (w3, True)
               }))"

definition replace_pane_for_swap :: "window \<Rightarrow> u32 \<Rightarrow> pane \<Rightarrow> (window \<times> unit result) option" where
  "replace_pane_for_swap w pane_index p =
     (case pane_position w pane_index of
        None \<Rightarrow> Some (w, Inl (Server (''cannot replace missing pane index '' @ decimal pane_index
                                        @ '' in window '' @ window_label w)))
      | Some i \<Rightarrow>
          if list_ex (\<lambda>(j, existing). j \<noteq> i \<and> p_id existing = p_id p)
               (zip [0..<length (w_panes w)] (w_panes w))
          then Some (w, Inl (Server (''pane id '' @ decimal (p_id p) @ '' already exists in window ''
                                       @ window_label w)))
          else do {
            let w1 = bump_next_pane_index w (p_index p);
            w2 \<leftarrow> apply_layout_tree (w1\<lparr>w_panes := (w_panes w1)[i := p]\<rparr>);
            Some (w2, Inr ())
          })"

definition insert_pane_at_position ::
  "window \<Rightarrow> usize \<Rightarrow> pane \<Rightarrow> split_direction \<Rightarrow> (window \<times> unit result) option" where
  "insert_pane_at_position w pos p d =
     (if pos > length (w_panes w) then
        Some (w, Inl (Server (''cannot insert pane at position '' @ decimal pos @ '' in a ''
                                @ decimal (length (w_panes w)) @ ''-pane window'')))
      else case ensure_accepts_pane w p None of
        Inl e \<Rightarrow> Some (w, Inl e)
      | Inr _ \<Rightarrow>
          do {
            w1 \<leftarrow> unzoom w;
            let w2 = bump_next_pane_index (w1\<lparr>w_layout := layout_for_split d\<rparr>) (p_index p);
            let w3 = w2\<lparr>w_panes := list_insert (w_panes w2) pos p\<rparr>;
            (if length (w_panes w3) = 1 then
               do {
                 w4 \<leftarrow> apply_layout_tree
                   (w3\<lparr>w_active_pane := p_index p, w_last_pane := None, w_layout_tree := Some (single (w_size w3))\<rparr>);
                 Some (w4, Inr ())
               }
             else
               do {
                 let (target_leaf, insert_before_target) = (if pos = 0 then (0, True) else (pos - 1, False));
                 w4 \<leftarrow> apply_or_rebuild (with_tree w3
                   (\<lambda>t. split_leaf t target_leaf (from_split_direction d) insert_before_target));
                 Some (w4, Inr ())
               })
          })"

definition insert_pane_full_size ::
  "window \<Rightarrow> pane \<Rightarrow> split_direction \<Rightarrow> bool \<Rightarrow> (window \<times> unit result) option" where
  "insert_pane_full_size w p d insert_before_target =
     (case ensure_accepts_pane w p None of
        Inl e \<Rightarrow> Some (w, Inl e)
      | Inr _ \<Rightarrow>
          do {
            w1 \<leftarrow> unzoom w;
            let w2 = bump_next_pane_index (w1\<lparr>w_layout := layout_for_split d\<rparr>) (p_index p);
            let w3 = w2\<lparr>w_panes := (if insert_before_target then p # w_panes w2 else w_panes w2 @ [p])\<rparr>;
            w4 \<leftarrow> apply_or_rebuild (with_tree w3
              (\<lambda>t. split_root t (from_split_direction d) insert_before_target));
            Some (w4, Inr ())
          })"

definition move_pane_by_splitting_target ::
  "window \<Rightarrow> usize \<Rightarrow> usize \<Rightarrow> usize \<Rightarrow> split_direction \<Rightarrow> bool \<Rightarrow> (window \<times> u32 result) option" where
  "move_pane_by_splitting_target w source_position target_position final_insert_position d insert_before_target =
     (let pane_count = length (w_panes w) in
      if source_position \<ge> pane_count then
        Some (w, Inl (Server (''cannot move missing pane at position '' @ decimal source_position)))
      else if target_position \<ge> pane_count then
        Some (w, Inl (Server (''cannot split missing target pane at position '' @ decimal target_position)))
      else if final_insert_position > pane_count - 1 then
        Some (w, Inl (Server (''cannot insert moved pane at position '' @ decimal final_insert_position
                                @ '' in a '' @ decimal (pane_count - 1) @ ''-pane window'')))
      else do {
        w1 \<leftarrow> unzoom w;
        let w2 = w1\<lparr>w_layout := layout_for_split d\<rparr>;
        let split_insert_position = (if insert_before_target then target_position else target_position + 1);
        let source_leaf_after_split =
          (if split_insert_position \<le> source_position then source_position + 1 else source_position);
        (case w_layout_tree w2 of
           None \<Rightarrow> Some (w2, Inl (Server ''cannot move pane without a layout tree''))
         | Some t \<Rightarrow>
             (case split_leaf t target_position (from_split_direction d) insert_before_target of
                (t1, False) \<Rightarrow>
                  Some (w2\<lparr>w_layout_tree := Some t1\<rparr>,
                    Inl (Server (''cannot split target pane at position '' @ decimal target_position)))
              | (t1, True) \<Rightarrow>
                  (case remove_leaf t1 source_leaf_after_split of
                     (t2, False) \<Rightarrow>
                       Some (w2\<lparr>w_layout_tree := Some t2\<rparr>,
                         Inl (Server (''cannot remove source pane leaf at position ''
                                        @ decimal source_leaf_after_split)))
                   | (t2, True) \<Rightarrow>
                       do {
                         moved \<leftarrow> list_get (w_panes w2) source_position;
                         let rest = list_remove (w_panes w2) source_position;
                         w3 \<leftarrow> apply_layout_tree
                           (w2\<lparr>w_layout_tree := Some t2, w_panes := list_insert rest final_insert_position moved\<rparr>);
                         Some (w3, Inr (p_id moved))
                       })))
      })"

end
