(* ===== verification/Window_Layout.thy ===== *)
theory Window_Layout
  imports Window_Ops
begin

text \<open>
  The layout operations of a window (\<open>window/layout_ops.rs\<close>, \<open>window/layout_cycle.rs\<close>):
  resizing panes, choosing and cycling named layouts, applying a layout string, spreading.
\<close>

section \<open>Resize requests\<close>

datatype relative_direction = RelativeUp | RelativeDown | RelativeLeft | RelativeRight

datatype resize_adjustment =
    AbsoluteWidth u16
  | AbsoluteHeight u16
  | Zoom
  | ResizeUp u16
  | ResizeDown u16
  | ResizeLeft u16
  | ResizeRight u16
  | NoOp
  | AbsoluteSize u16 u16
  | TrimBelow
  | Composite "u16 option" "u16 option" "relative_direction option" u16

fun to_adjustment :: "relative_direction \<Rightarrow> u16 \<Rightarrow> resize_adjustment" where
  "to_adjustment RelativeUp cells = ResizeUp cells"
| "to_adjustment RelativeDown cells = ResizeDown cells"
| "to_adjustment RelativeLeft cells = ResizeLeft cells"
| "to_adjustment RelativeRight cells = ResizeRight cells"

section \<open>The main pane\<close>

text \<open>
  \<open>resize_main_pane\<close> calls itself with simpler requests. The two absolute requests are its
  base cases; a directional request computes an absolute one, a composite request runs up to
  three in turn.
\<close>

definition resize_tree_main :: "window \<Rightarrow> layout_direction \<Rightarrow> u16 \<Rightarrow> window option" where
  "resize_tree_main w d n =
     (case with_tree w (\<lambda>t. tree_resize_pane_to t 0 d n) of
        (w1, ok) \<Rightarrow> if ok then apply_layout_tree w1 else Some w1)"

definition resize_main_width :: "window \<Rightarrow> u16 \<Rightarrow> window option" where
  "resize_main_width w columns =
     do {
       w1 \<leftarrow> unzoom w;
       (if w_custom_layout w1 then resize_tree_main w1 LeftRight columns
        else rebuild_named_layout_tree (w1\<lparr>w_requested_main_width := Some columns\<rparr>) (w_layout w1))
     }"

definition resize_main_height :: "window \<Rightarrow> u16 \<Rightarrow> window option" where
  "resize_main_height w n =
     do {
       w1 \<leftarrow> unzoom w;
       (if w_custom_layout w1 then resize_tree_main w1 TopBottom n
        else rebuild_named_layout_tree (w1\<lparr>w_requested_main_height := Some n\<rparr>) (w_layout w1))
     }"

definition u16_sat_add :: "u16 \<Rightarrow> u16 \<Rightarrow> u16" where
  "u16_sat_add a b = min (a + b) u16_max"

definition main_cells :: "window \<Rightarrow> (pane_geometry \<Rightarrow> u16) \<Rightarrow> (u16 \<Rightarrow> u16) \<Rightarrow> u16" where
  "main_cells w extract change =
     (case pane_at w 0 of None \<Rightarrow> 1 | Some p \<Rightarrow> max (change (extract (p_geometry p))) 1)"

fun resize_main_directional :: "window \<Rightarrow> relative_direction \<Rightarrow> u16 \<Rightarrow> window option" where
  "resize_main_directional w RelativeUp cells = resize_main_height w (main_cells w pg_rows (\<lambda>n. n - cells))"
| "resize_main_directional w RelativeDown cells = resize_main_height w (main_cells w pg_rows (\<lambda>n. u16_sat_add n cells))"
| "resize_main_directional w RelativeLeft cells = resize_main_width w (main_cells w pg_cols (\<lambda>n. n - cells))"
| "resize_main_directional w RelativeRight cells = resize_main_width w (main_cells w pg_cols (\<lambda>n. u16_sat_add n cells))"

definition if_given :: "'a option \<Rightarrow> ('a \<Rightarrow> window \<Rightarrow> window option) \<Rightarrow> window \<Rightarrow> window option" where
  "if_given given f w = (case given of None \<Rightarrow> Some w | Some a \<Rightarrow> f a w)"

definition resize_main_pane :: "i64 \<Rightarrow> window \<Rightarrow> resize_adjustment \<Rightarrow> window option" where
  "resize_main_pane now w adjustment =
     (case adjustment of
        NoOp \<Rightarrow> Some w
      | AbsoluteWidth columns \<Rightarrow> resize_main_width w columns
      | AbsoluteHeight n \<Rightarrow> resize_main_height w n
      | AbsoluteSize columns n \<Rightarrow> do { w1 \<leftarrow> resize_main_width w columns; resize_main_height w1 n }
      | Composite columns n relative cells \<Rightarrow>
          do {
            w1 \<leftarrow> if_given columns (\<lambda>c w. resize_main_width w c) w;
            w2 \<leftarrow> if_given n (\<lambda>r w. resize_main_height w r) w1;
            if_given relative (\<lambda>d w. resize_main_directional w d cells) w2
          }
      | Zoom \<Rightarrow> map_option fst (toggle_zoom now w (w_active_pane w))
      | TrimBelow \<Rightarrow> Some w
      | ResizeUp cells \<Rightarrow> resize_main_directional w RelativeUp cells
      | ResizeDown cells \<Rightarrow> resize_main_directional w RelativeDown cells
      | ResizeLeft cells \<Rightarrow> resize_main_directional w RelativeLeft cells
      | ResizeRight cells \<Rightarrow> resize_main_directional w RelativeRight cells)"

lemma resize_main_relative: "resize_main_pane now w (to_adjustment d cells) = resize_main_directional w d cells"
  by (cases d) (simp_all add: resize_main_pane_def)

section \<open>Any pane\<close>

definition resize_pane_width :: "window \<Rightarrow> u32 \<Rightarrow> u16 \<Rightarrow> (window \<times> bool) option" where
  "resize_pane_width w pane_index columns =
     (case pane_position w pane_index of
        None \<Rightarrow> Some (w, False)
      | Some pos \<Rightarrow>
          if length (w_panes w) = 1 then do { w1 \<leftarrow> resize_main_width w columns; Some (w1, True) }
          else do {
            w1 \<leftarrow> unzoom w;
            let (w2, ok) = with_tree w1 (\<lambda>t. tree_resize_pane_to t pos LeftRight columns);
            (if ok
             then do { w3 \<leftarrow> apply_layout_tree (w2\<lparr>w_requested_main_width := None\<rparr>); Some (w3, True) }
             else Some (w2, False))
          })"

definition resize_pane_height :: "window \<Rightarrow> u32 \<Rightarrow> u16 \<Rightarrow> (window \<times> bool) option" where
  "resize_pane_height w pane_index n =
     (case pane_position w pane_index of
        None \<Rightarrow> Some (w, False)
      | Some pos \<Rightarrow>
          if length (w_panes w) = 1 then do { w1 \<leftarrow> resize_main_height w n; Some (w1, True) }
          else do {
            w1 \<leftarrow> unzoom w;
            let (w2, ok) = with_tree w1 (\<lambda>t. tree_resize_pane_to t pos TopBottom n);
            (if ok
             then do { w3 \<leftarrow> apply_layout_tree (w2\<lparr>w_requested_main_height := None\<rparr>); Some (w3, True) }
             else Some (w2, False))
          })"

definition resize_pane_to :: "window \<Rightarrow> u32 \<Rightarrow> split_direction \<Rightarrow> u32 \<Rightarrow> (window \<times> bool) option" where
  "resize_pane_to w pane_index d new_size =
     (case pane_position w pane_index of
        None \<Rightarrow> Some (w, False)
      | Some pos \<Rightarrow>
          do {
            w1 \<leftarrow> unzoom w;
            let (w2, ok) = with_tree w1 (\<lambda>t. tree_resize_pane_to t pos (from_split_direction d) new_size);
            (if ok then do { w3 \<leftarrow> apply_layout_tree w2; Some (w3, True) } else Some (w2, False))
          })"

fun geometry_along :: "split_direction \<Rightarrow> pane_geometry \<Rightarrow> u16" where
  "geometry_along Vertical g = pg_cols g"
| "geometry_along Horizontal g = pg_rows g"

definition resize_new_split_pane_to ::
  "window \<Rightarrow> u32 \<Rightarrow> split_direction \<Rightarrow> u32 \<Rightarrow> bool \<Rightarrow> (window \<times> bool) option" where
  "resize_new_split_pane_to w new_pane_index d requested inserted_before_target =
     (let new_size = max requested 1 in
      if inserted_before_target then resize_pane_to w new_pane_index d new_size
      else case pane_position w new_pane_index of
        None \<Rightarrow> Some (w, False)
      | Some new_position \<Rightarrow>
          if new_position = 0 then resize_pane_to w new_pane_index d new_size
          else
            let target = w_panes w ! (new_position - 1);
                combined_cells = u32_sat_add (u32_sat_add (geometry_along d (p_geometry target))
                                   (geometry_along d (p_geometry (w_panes w ! new_position)))) 1;
                target_cells = max (combined_cells - 1 - new_size) 1
            in resize_pane_to w (p_index target) d target_cells)"

definition sync_requested_main_size :: "window \<Rightarrow> window" where
  "sync_requested_main_size w =
     (if w_custom_layout w then w
      else if w_layout w = MainVertical \<or> w_layout w = MainVerticalMirrored then
        w\<lparr>w_requested_main_width := map_option (\<lambda>p. pg_cols (p_geometry p)) (pane_at w 0)\<rparr>
      else if w_layout w = MainHorizontal \<or> w_layout w = MainHorizontalMirrored then
        w\<lparr>w_requested_main_height := map_option (\<lambda>p. pg_rows (p_geometry p)) (pane_at w 0)\<rparr>
      else w)"

fun directional_change :: "resize_adjustment \<Rightarrow> (layout_direction \<times> i32) option" where
  "directional_change (ResizeUp cells) = Some (TopBottom, - int cells)"
| "directional_change (ResizeDown cells) = Some (TopBottom, int cells)"
| "directional_change (ResizeLeft cells) = Some (LeftRight, - int cells)"
| "directional_change (ResizeRight cells) = Some (LeftRight, int cells)"
| "directional_change _ = None"

definition resize_pane_by :: "window \<Rightarrow> u32 \<Rightarrow> resize_adjustment \<Rightarrow> (window \<times> bool) option" where
  "resize_pane_by w pane_index adjustment =
     (case pane_position w pane_index of
        None \<Rightarrow> Some (w, False)
      | Some pos \<Rightarrow>
          (case directional_change adjustment of
             None \<Rightarrow> Some (w, False)
           | Some (d, change) \<Rightarrow>
               do {
                 w1 \<leftarrow> unzoom w;
                 let (w2, ok) = with_tree w1 (\<lambda>t. tree_resize_pane_by t pos d change);
                 (if ok
                  then do { w3 \<leftarrow> apply_layout_tree (sync_requested_main_size w2); Some (w3, True) }
                  else Some (w2, False))
               }))"

section \<open>Layout strings and spreading\<close>

definition apply_custom_layout :: "window \<Rightarrow> string \<Rightarrow> (window \<times> unit result) option" where
  "apply_custom_layout w layout =
     (if w_panes w = [] then Some (w, Inl invalid_layout)
      else case parse layout (length (w_panes w)) of
             Inl e \<Rightarrow> Some (w, Inl e)
           | Inr t \<Rightarrow>
               do {
                 w1 \<leftarrow> apply_layout_tree
                   (w\<lparr>w_size := tree_size t, w_layout_tree := Some t, w_custom_layout := True\<rparr>);
                 Some (w1, Inr ())
               })"

definition reapply_old_layout :: "window \<Rightarrow> (window \<times> bool result) option" where
  "reapply_old_layout w =
     (let w1 = save_old_layout w
      in case w_old_layout w of
           None \<Rightarrow> Some (w1, Inr False)
         | Some old_layout \<Rightarrow>
             do {
               (w2, r) \<leftarrow> apply_custom_layout w1 old_layout;
               Some (w2, res_bind r (\<lambda>_. Inr True))
             })"

definition spread_layout :: "window \<Rightarrow> u32 \<Rightarrow> (window \<times> bool) option" where
  "spread_layout w pane_index =
     (case pane_position w pane_index of
        None \<Rightarrow> Some (w, False)
      | Some pos \<Rightarrow>
          (case with_tree w (\<lambda>t. spread_from_leaf t pos) of
             (w1, changed) \<Rightarrow>
               if changed then do { w2 \<leftarrow> apply_layout_tree w1; Some (w2, True) } else Some (w1, False)))"

section \<open>Named layouts\<close>

definition LAYOUT_CYCLE :: "layout_name list" where
  "LAYOUT_CYCLE = [EvenHorizontal, EvenVertical, MainHorizontal, MainVertical, Tiled]"

definition set_layout_with_main_pane_size ::
  "window \<Rightarrow> layout_name \<Rightarrow> u16 option \<Rightarrow> u16 option \<Rightarrow> window option" where
  "set_layout_with_main_pane_size w layout main_width main_height =
     do {
       w1 \<leftarrow> unzoom w;
       rebuild_named_layout_tree
         (w1\<lparr>w_layout := layout, w_last_layout := Some layout, w_requested_main_width := main_width,
             w_requested_main_height := main_height\<rparr>) layout
     }"

definition unmirrored :: "layout_name \<Rightarrow> layout_name" where
  "unmirrored layout =
     (case layout of MainHorizontalMirrored \<Rightarrow> MainHorizontal | MainVerticalMirrored \<Rightarrow> MainVertical | _ \<Rightarrow> layout)"

definition cycle_position :: "layout_name \<Rightarrow> usize option" where
  "cycle_position layout = position (\<lambda>c. c = unmirrored layout) LAYOUT_CYCLE"

definition next_cycle_layout :: "layout_name option \<Rightarrow> layout_name option" where
  "next_cycle_layout last_layout =
     (case last_layout of
        None \<Rightarrow> list_get LAYOUT_CYCLE 0
      | Some layout \<Rightarrow>
          do { i \<leftarrow> cycle_position layout; list_get LAYOUT_CYCLE ((i + 1) mod length LAYOUT_CYCLE) })"

definition previous_cycle_layout :: "layout_name option \<Rightarrow> layout_name option" where
  "previous_cycle_layout last_layout =
     (case last_layout of
        None \<Rightarrow> Some (last LAYOUT_CYCLE)
      | Some layout \<Rightarrow>
          do {
            i \<leftarrow> cycle_position layout;
            list_get LAYOUT_CYCLE ((i + length LAYOUT_CYCLE - 1) mod length LAYOUT_CYCLE)
          })"

definition next_layout_with_main_pane_size ::
  "window \<Rightarrow> u16 option \<Rightarrow> u16 option \<Rightarrow> (window \<times> layout_name) option" where
  "next_layout_with_main_pane_size w main_width main_height =
     do {
       layout \<leftarrow> next_cycle_layout (w_last_layout w);
       w1 \<leftarrow> set_layout_with_main_pane_size w layout main_width main_height;
       Some (w1, layout)
     }"

definition previous_layout_with_main_pane_size ::
  "window \<Rightarrow> u16 option \<Rightarrow> u16 option \<Rightarrow> (window \<times> layout_name) option" where
  "previous_layout_with_main_pane_size w main_width main_height =
     do {
       layout \<leftarrow> previous_cycle_layout (w_last_layout w);
       w1 \<leftarrow> set_layout_with_main_pane_size w layout main_width main_height;
       Some (w1, layout)
     }"

end
