(* ===== verification/Layout_Fits.thy ===== *)
theory Layout_Fits
  imports Layout_Border_Pane Layout_Tiled_Props Layout_Text_Props
begin

text \<open>
  What a window relies on when it applies a layout tree to its panes: the tree has one cell per
  pane, and a leaf map names a cell for every pane. The operations on trees keep this, whatever
  the sizes of the cells are; the locales state the contract they share.
\<close>

definition fits_panes :: "layout_tree \<Rightarrow> nat \<Rightarrow> bool" where
  "fits_panes t n \<longleftrightarrow> tree_leaf_count t = n
     \<and> (case lt_leaf_map t of None \<Rightarrow> True
        | Some m \<Rightarrow> 2 \<le> n \<and> length m = n \<and> list_all (\<lambda>i. i < n) m)"

text \<open>
  An operation on a tree that reports success: what it does to the number of cells, and, in the
  second locale, that it keeps a well-formed tree well-formed and its outer size.
\<close>

locale tree_op =
  fixes run :: "layout_tree \<Rightarrow> layout_tree \<times> bool" and grown :: "nat \<Rightarrow> nat"
  assumes run_fits: "fits_panes t n \<Longrightarrow> run t = (t', ok) \<Longrightarrow> fits_panes t' (if ok then grown n else n)"

locale wf_tree_op = tree_op +
  fixes pre :: "layout_tree \<Rightarrow> bool"
  assumes run_wf: "wf_tree t \<Longrightarrow> pre t \<Longrightarrow> run t = (t', ok) \<Longrightarrow> wf_tree t' \<and> same_sizes (lt_root t') (lt_root t)"

lemma fits_panes_shape:
  "fits_panes t n \<Longrightarrow> shape (lt_root t') = shape (lt_root t) \<Longrightarrow> lt_leaf_map t' = lt_leaf_map t \<Longrightarrow> fits_panes t' n"
  using same_shape_leaf_count [of "lt_root t'" "lt_root t"] by (simp add: fits_panes_def tree_leaf_count_def)

lemma wf_tree_fits:
  assumes "wf_tree t"
  shows "fits_panes t (tree_leaf_count t)"
proof (cases "lt_leaf_map t")
  case (Some m)
  then have "2 \<le> tree_leaf_count t" "distinct m" "set m = {..<tree_leaf_count t}"
    using assms by (simp_all add: wf_tree_def leaf_map_ok_def tree_leaf_count_def)
  then show ?thesis using Some distinct_card [of m] by (simp add: fits_panes_def list_all_iff)
qed (simp add: fits_panes_def)

lemma fits_fixed: "leaf_count c = n \<Longrightarrow> fits_panes (fixed c) n"
  by (simp add: fits_panes_def fixed_def tree_leaf_count_def)

lemma fits_single [simp]: "fits_panes (single sz) (Suc 0)"
  by (simp add: fits_panes_def single_def tree_leaf_count_def)

section \<open>Splitting and removing\<close>

lemma split_children_count:
  "split_leaf_into_children g d b = Some (x, y) \<Longrightarrow> leaf_count x = 1 \<and> leaf_count y = 1"
  by (auto simp: split_leaf_into_children_def Let_def split: if_splits layout_direction.splits)

lemma split_cell_count: "split_leaf_cell c d b = Some c' \<Longrightarrow> leaf_count c' = 2"
  by (auto simp: split_leaf_cell_def dest!: split_children_count split: option.splits)

lemma count_list_insert: "sum_list (map leaf_count (list_insert cs i c)) = leaf_count c + sum_list (map leaf_count cs)"
proof -
  have "sum_list (map leaf_count cs) = sum_list (map leaf_count (take i cs @ drop i cs))" by simp
  then show ?thesis by (simp only: list_insert_def map_append list.map sum_list.append sum_list.Cons ac_simps)
qed

lemma count_list_remove:
  "i < length cs \<Longrightarrow> sum_list (map leaf_count (list_remove cs i)) + leaf_count (cs ! i) = sum_list (map leaf_count cs)"
  by (subst (3) id_take_nth_drop [of i cs]) (simp_all add: list_remove_def)

lemma split_leaf_True:
  assumes "split_leaf t i d b = (t', True)"
  shows "leaf_count (lt_root t') = Suc (leaf_count (lt_root t))"
    and "lt_leaf_map t' = None \<or> lt_leaf_map t' = lt_leaf_map t \<and> leaf_count (lt_root t) = 1"
proof -
  have i: "i < leaf_count (lt_root t)"
    using assms by (auto simp: split_leaf_def leaf_paths_def length_leaf_paths split: option.splits)
  let ?p = "leaf_paths t ! i"
  have p: "list_get (leaf_paths t) i = Some ?p" using i by (simp add: leaf_paths_def length_leaf_paths)
  have leaf: "cell_at_path (lt_root t) ?p = Some (Pane (collect_leaf_geometries (lt_root t) ! i))"
    using i by (simp add: leaf_paths_def leaf_path_nth)
  show "leaf_count (lt_root t') = Suc (leaf_count (lt_root t))"
    and "lt_leaf_map t' = None \<or> lt_leaf_map t' = lt_leaf_map t \<and> leaf_count (lt_root t) = 1"
  proof (atomize(full), cases "?p = []")
    case True
    with leaf have "lt_root t = Pane (collect_leaf_geometries (lt_root t) ! i)" by simp
    then have one: "leaf_count (lt_root t) = 1" by (metis leaf_count.simps(1))
    show "leaf_count (lt_root t') = Suc (leaf_count (lt_root t))
      \<and> (lt_leaf_map t' = None \<or> lt_leaf_map t' = lt_leaf_map t \<and> leaf_count (lt_root t) = 1)"
      using assms p True one by (auto simp: split_leaf_def dest!: split_cell_count split: option.splits)
  next
    case False
    obtain g sd cs where cell: "cell_at_path (lt_root t) (butlast ?p) = Some (Split g sd cs)"
      and last: "last ?p < length cs" "cs ! last ?p = Pane (collect_leaf_geometries (lt_root t) ! i)"
      using leaf_parent [OF i _ False] by (auto simp: leaf_paths_def)
    have inner: "leaf_count (write_at_path (lt_root t) (butlast ?p) (Split g d' ks)) = Suc (leaf_count (lt_root t))"
      if "sum_list (map leaf_count ks) = Suc (sum_list (map leaf_count cs))" for ks d'
      using write_at_path_leaf_count [OF cell, of "Split g d' ks"] that by simp
    have outer: "leaf_count (write_at_path (lt_root t) ?p c) = Suc (leaf_count (lt_root t))"
      if "leaf_count c = 2" for c using write_at_path_leaf_count [OF leaf, of c] that by simp
    have rest: "Suc (sum_list (map leaf_count (list_remove cs (last ?p)))) = sum_list (map leaf_count cs)"
      using count_list_remove [OF last(1)] last(2) by simp
    show "leaf_count (lt_root t') = Suc (leaf_count (lt_root t))
      \<and> (lt_leaf_map t' = None \<or> lt_leaf_map t' = lt_leaf_map t \<and> leaf_count (lt_root t) = 1)"
      using assms p False cell last leaf rest
      by (auto simp: split_leaf_def Let_def fixed_def count_list_insert inner outer
          dest!: split_children_count split_cell_count split: option.splits if_splits)
  qed
qed

lemma split_leaf_False: "split_leaf t i d b = (t', False) \<Longrightarrow> t' = t"
  by (auto simp: split_leaf_def Let_def split: option.splits if_splits layout_cell.splits prod.splits)

lemma remove_leaf_False: "remove_leaf t i = (t', False) \<Longrightarrow> t' = t"
  by (auto simp: remove_leaf_def split: option.splits if_splits layout_cell.splits)

lemma remove_leaf_map: "remove_leaf t i = (t', True) \<Longrightarrow> lt_leaf_map t' = None"
  by (auto simp: remove_leaf_def fixed_def split: option.splits if_splits layout_cell.splits)

interpretation split_op: tree_op "\<lambda>t. split_leaf t i d b" Suc for i d b
proof
  fix t n t' ok
  assume fits: "fits_panes t n" and run: "split_leaf t i d b = (t', ok)"
  show "fits_panes t' (if ok then Suc n else n)"
  proof (cases ok)
    case True
    with run have "split_leaf t i d b = (t', True)" by simp
    from split_leaf_True [OF this] show ?thesis
      using fits True
      by (auto simp: fits_panes_def tree_leaf_count_def split: option.splits)
  qed (use run fits split_leaf_False [of t i d b t'] in auto)
qed

interpretation remove_op: tree_op "\<lambda>t. remove_leaf t i" "\<lambda>n. n - 1" for i
proof
  fix t n t' ok
  assume fits: "fits_panes t n" and run: "remove_leaf t i = (t', ok)"
  show "fits_panes t' (if ok then n - 1 else n)"
  proof (cases ok)
    case True
    with run have removed: "remove_leaf t i = (t', True)" by simp
    show ?thesis
      using remove_leaf_fewer [OF removed] remove_leaf_map [OF removed] fits True
      by (auto simp: fits_panes_def tree_leaf_count_def)
  qed (use run fits remove_leaf_False [of t i t'] in auto)
qed

interpretation split_root_op: tree_op "\<lambda>t. split_root t d b" Suc for d b
proof
  fix t n t' ok
  assume fits: "fits_panes t n" and run: "split_root t d b = (t', ok)"
  show "fits_panes t' (if ok then Suc n else n)"
    using run fits
    by (cases d) (auto simp: split_root_def fixed_def Let_def fits_panes_def tree_leaf_count_def
        simp del: fix_offsets.simps split: if_splits option.splits)
qed

section \<open>Resizing and spreading\<close>

text \<open>These change sizes only: the tree of splits and the leaf map stay.\<close>

lemma shape_resize_axis [simp]: "shape (resize_axis c d z) = shape c"
  by (simp add: resize_axis_def Let_def)

lemma shape_resize [simp]: "shape (lt_root (resize t sz)) = shape (lt_root t)" "lt_leaf_map (resize t sz) = lt_leaf_map t"
  by (simp_all add: resize_def Let_def)

lemma fits_resize: "fits_panes t n \<Longrightarrow> fits_panes (resize t sz) n"
  by (rule fits_panes_shape) simp_all

lemma shapes_resize_children: "map shape (resize_children cs i j d n) = map shape cs"
proof -
  have "xs[i := f (cs ! i)] = xs" if "xs = map f cs" for f :: "layout_cell \<Rightarrow> layout_cell" and xs i
    using that by (metis length_map list_update_beyond list_update_same_conv not_le nth_map)
  then show ?thesis by (simp add: resize_children_def map_update)
qed

lemma shape_resize_step: "resize_step c p i d change needed opp = (c', n) \<Longrightarrow> shape c' = shape c"
  by (auto simp: resize_step_def resize_pane_grow_def resize_pane_shrink_def Let_def shapes_resize_children
      intro!: shape_write split: if_splits option.splits layout_cell.splits prod.splits)

lemma shape_resize_loop:
  "resize_loop c p i d change needed opp ch = (c', ch') \<Longrightarrow> shape c' = shape c"
proof (induction c p i d change needed opp ch rule: resize_loop.induct)
  case (1 c p i d change needed opp ch)
  then show ?case
    by (auto simp: resize_loop.simps [of c p i d change needed opp ch] shape_resize_step
        split: if_splits prod.splits dest!: shape_resize_step)
qed

lemma shape_resize_layout:
  "resize_layout t p i d change opp = (t', ok) \<Longrightarrow> shape (lt_root t') = shape (lt_root t) \<and> lt_leaf_map t' = lt_leaf_map t"
  by (auto simp: resize_layout_def dest!: shape_resize_loop split: prod.splits if_splits)

lemma shape_resize_leaf_to_from:
  "resize_leaf_to_from t p d n = (t', ok) \<Longrightarrow> shape (lt_root t') = shape (lt_root t) \<and> lt_leaf_map t' = lt_leaf_map t"
proof (induction t p d n rule: resize_leaf_to_from.induct)
  case (1 t p d n)
  then show ?case
    by (auto simp: resize_leaf_to_from.simps [of t p d n] Let_def dest: shape_resize_layout
        split: if_splits option.splits layout_cell.splits)
qed

lemma shape_tree_resize_pane_to:
  "tree_resize_pane_to t i d n = (t', ok) \<Longrightarrow> shape (lt_root t') = shape (lt_root t) \<and> lt_leaf_map t' = lt_leaf_map t"
  by (auto simp: tree_resize_pane_to_def resize_leaf_to_def dest: shape_resize_leaf_to_from split: option.splits)

lemma shape_tree_resize_pane_by:
  "tree_resize_pane_by t i d z = (t', ok) \<Longrightarrow> shape (lt_root t') = shape (lt_root t) \<and> lt_leaf_map t' = lt_leaf_map t"
  by (auto simp: tree_resize_pane_by_def resize_leaf_by_def dest: shape_resize_layout split: option.splits if_splits)

lemma shape_spread_children: "spread_children d each rem cs = (cs', ok) \<Longrightarrow> map shape cs' = map shape cs"
proof (induction cs arbitrary: rem cs' ok)
  case (Cons c cs)
  obtain ks ch where "spread_children d each (if 0 < rem then rem - 1 else rem) cs = (ks, ch)" by fastforce
  with Cons show ?case by (auto simp: Let_def split: if_splits)
qed simp

lemma shape_spread: "spread c = (c', ok) \<Longrightarrow> shape c' = shape c"
  by (cases c) (auto simp: Let_def dest: shape_spread_children split: if_splits prod.splits)

lemma shape_spread_upwards:
  "spread_upwards t p n = (t', ok) \<Longrightarrow> shape (lt_root t') = shape (lt_root t) \<and> lt_leaf_map t' = lt_leaf_map t"
  by (induction t p n rule: spread_upwards.induct)
    (auto intro!: shape_write dest!: shape_spread split: option.splits prod.splits bool.splits)

interpretation resize_to_op: tree_op "\<lambda>t. tree_resize_pane_to t i d n" "\<lambda>n. n" for i d n
  by unfold_locales (auto dest: shape_tree_resize_pane_to intro: fits_panes_shape)

interpretation resize_by_op: tree_op "\<lambda>t. tree_resize_pane_by t i d z" "\<lambda>n. n" for i d z
  by unfold_locales (auto dest: shape_tree_resize_pane_by intro: fits_panes_shape)

interpretation spread_op: tree_op "\<lambda>t. spread_from_leaf t i" "\<lambda>n. n" for i
proof
  fix t n t' ok
  assume "fits_panes t n" and "spread_from_leaf t i = (t', ok)"
  then show "fits_panes t' (if ok then n else n)"
    using shape_spread_upwards [of t _ _ t' ok] fits_panes_shape [of t n t']
    by (auto simp: spread_from_leaf_def split: option.splits)
qed

section \<open>New layouts\<close>

lemma fits_named:
  assumes "1 \<le> n"
  shows "fits_panes (named l n sz opts) n"
proof (cases "n = 1")
  case True
  then show ?thesis by (simp add: named_def)
next
  case False
  then have n: "2 \<le> n" using assms by simp
  have map: "case lt_leaf_map (build_named l n g opts) of None \<Rightarrow> True
      | Some m \<Rightarrow> 2 \<le> n \<and> length m = n \<and> list_all (\<lambda>i. i < n) m" for g
    using n mirrored_leaf_map_ok [OF n] distinct_card [of "mirrored_leaf_map n"]
    by (cases l) (auto simp: build_named_def build_even_def build_main_vertical_def build_main_horizontal_def
        build_tiled_def Let_def list_all_iff split: prod.splits)
  let ?g = "new_geometry (cols sz) (rows sz) 0 0"
  let ?B = "\<lambda>g. (build_named l n g opts)\<lparr>lt_root := fix_offsets (lt_root (build_named l n g opts)) 0 0\<rparr>"
  obtain a b where ab: "minimum_size (lt_root (build_named l n ?g opts)) = (a, b)" by fastforce
  have "\<not> n \<le> 1" using n by simp
  then have "named l n sz opts = ?B ?g
      \<or> named l n sz opts = ?B (new_geometry (max (lg_width ?g) a) (max (lg_height ?g) b) 0 0)"
    by (simp add: named_def Let_def ab)
  then obtain g where "named l n sz opts = ?B g" by blast
  then show ?thesis
    using map [of g] build_named_leaves(1) [OF n, of l g opts] by (simp add: fits_panes_def tree_leaf_count_def)
qed

lemma fits_parse: "parse s n = Inr t \<Longrightarrow> fits_panes t n"
  using parse_Inr(2,4) by (simp add: fits_panes_def)

section \<open>Well-formed layouts stay well-formed\<close>

lemma resize_leaf_to_wf:
  assumes wf: "wf_tree t" and n: "n \<le> i32_max" and run: "resize_leaf_to t i d n = (t', ok)"
  shows "wf_tree t' \<and> same_sizes (lt_root t') (lt_root t)"
proof (cases "i < leaf_count (lt_root t)")
  case False
  then have "list_get (leaf_paths t) i = None" by (simp add: list_get_def leaf_paths_def length_leaf_paths)
  then show ?thesis using wf run by (simp add: resize_leaf_to_def)
next
  case True
  show ?thesis
  proof (cases "enclosing d (lt_root t) (leaf_paths t ! i)")
    case None
    then show ?thesis using resize_leaf_to_outcome(1) [OF wf True n None] wf run by simp
  next
    case (Some qj)
    obtain q j where qj: "qj = (q, j)" by (cases qj)
    have "cell_at_path (lt_root t) (leaf_paths t ! i) = Some (Pane (collect_leaf_geometries (lt_root t) ! i))"
      using True by (simp add: leaf_paths_def leaf_path_nth)
    then obtain g cs where "cell_at_path (lt_root t) q = Some (Split g d cs)"
      using enclosing_cell [OF Some [unfolded qj]] by blast
    then show ?thesis
      using resize_leaf_to_outcome(2) [OF wf True n Some [unfolded qj]] run by (auto simp: child_resized_to_def)
  qed
qed

lemma resize_leaf_by_wf:
  assumes wf: "wf_tree t" and z: "\<bar>z\<bar> \<le> int i32_max" and run: "resize_leaf_by t i d z = (t', ok)"
  shows "wf_tree t' \<and> same_sizes (lt_root t') (lt_root t)"
proof (cases "i < leaf_count (lt_root t)")
  case False
  then have "list_get (leaf_paths t) i = None" by (simp add: list_get_def leaf_paths_def length_leaf_paths)
  then show ?thesis using wf run by (simp add: resize_leaf_by_def find_resize_handle_def)
next
  case True
  show ?thesis using resize_leaf_by_keeps(1,3) [OF wf True z, of d] run by simp
qed

interpretation split_wf: wf_tree_op "\<lambda>t. split_leaf t i d b" Suc "\<lambda>t. True" for i d b
proof
  fix t t' ok
  assume wf: "wf_tree t" and run: "split_leaf t i d b = (t', ok)"
  show "wf_tree t' \<and> same_sizes (lt_root t') (lt_root t)"
    using split_leaf_outcome [OF wf, of i d b] wf run by (cases ok) (auto simp: split_outcome_def)
qed

interpretation remove_wf: wf_tree_op "\<lambda>t. remove_leaf t i" "\<lambda>n. n - 1" "\<lambda>t. True" for i
proof
  fix t t' ok
  assume wf: "wf_tree t" and run: "remove_leaf t i = (t', ok)"
  show "wf_tree t' \<and> same_sizes (lt_root t') (lt_root t)"
    using remove_leaf_outcome [OF wf, of i] wf run by (cases ok) (auto simp: remove_outcome_def)
qed

interpretation resize_to_wf: wf_tree_op "\<lambda>t. tree_resize_pane_to t i d n" "\<lambda>n. n" "\<lambda>t. n \<le> i32_max" for i d n
  by unfold_locales (auto simp: tree_resize_pane_to_def dest: resize_leaf_to_wf split: option.splits)

interpretation resize_by_wf: wf_tree_op "\<lambda>t. tree_resize_pane_by t i d z" "\<lambda>n. n" "\<lambda>t. \<bar>z\<bar> \<le> int i32_max" for i d z
  by unfold_locales (auto simp: tree_resize_pane_by_def dest: resize_leaf_by_wf split: option.splits if_splits)

interpretation split_root_wf: wf_tree_op "\<lambda>t. split_root t d b" Suc
  "\<lambda>t. pair_axis (minimum_size (lt_root t)) d \<le> existing_share (axis_size (lt_root t) d) b" for d b
proof
  fix t t' ok
  assume wf: "wf_tree t" and run: "split_root t d b = (t', ok)"
    and "pair_axis (minimum_size (lt_root t)) d \<le> existing_share (axis_size (lt_root t) d) b"
  then show "wf_tree t' \<and> same_sizes (lt_root t') (lt_root t)"
    using split_root_wf_iff(1,3) [OF wf, of d b]
    by (cases "splittable (axis_size (lt_root t) d)") (auto simp: split_root_def axis_size_def Let_def)
qed

end
