(* ===== verification/Window_Inv.thy ===== *)
theory Window_Inv
  imports Window_Layout Layout_Fits
begin

text \<open>
  The invariant of a window and that its operations keep it without a panic: pane ids are unique,
  pane indices are unique, the active pane exists, the last pane is another existing pane, and
  the layout tree has one cell per pane.
\<close>

section \<open>Operations that return\<close>

text \<open>\<open>returns r P\<close>: the operation does not panic, and its result satisfies \<open>P\<close>.\<close>

definition returns :: "'a option \<Rightarrow> ('a \<Rightarrow> bool) \<Rightarrow> bool" where
  "returns r P \<longleftrightarrow> (case r of None \<Rightarrow> False | Some x \<Rightarrow> P x)"

lemma returns_simps [simp]: "returns (Some x) P \<longleftrightarrow> P x" "\<not> returns None P"
  by (simp_all add: returns_def)

lemma returns_bind: "returns r P \<Longrightarrow> (\<And>x. P x \<Longrightarrow> returns (f x) Q) \<Longrightarrow> returns (Option.bind r f) Q"
  by (cases r) simp_all

lemma returns_mono: "returns r P \<Longrightarrow> (\<And>x. P x \<Longrightarrow> Q x) \<Longrightarrow> returns r Q"
  by (cases r) simp_all

lemma returns_map [simp]: "returns (map_option f r) P \<longleftrightarrow> returns r (\<lambda>x. P (f x))"
  by (cases r) simp_all

lemma returnsE: "returns r P \<Longrightarrow> (\<And>x. r = Some x \<Longrightarrow> P x \<Longrightarrow> thesis) \<Longrightarrow> thesis"
  by (cases r) simp_all

section \<open>The invariant\<close>

definition pane_keys :: "window \<Rightarrow> (u32 \<times> u32) list" where
  "pane_keys w = map (\<lambda>p. (p_id p, p_index p)) (w_panes w)"

definition tree_inv :: "window \<Rightarrow> bool" where
  "tree_inv w \<longleftrightarrow> w_layout_tree w \<noteq> None
     \<and> pred_option (\<lambda>t. fits_panes t (length (w_panes w))) (w_layout_tree w)"

text \<open>Unique ids, and what the numbering of the panes must satisfy.\<close>

definition ids_inv :: "window \<Rightarrow> bool" where
  "ids_inv w \<longleftrightarrow> w_panes w \<noteq> [] \<and> distinct (map p_id (w_panes w)) \<and> length (w_panes w) < u32_max"

definition index_inv :: "window \<Rightarrow> bool" where
  "index_inv w \<longleftrightarrow> distinct (map p_index (w_panes w)) \<and> w_active_pane w \<in> set (map p_index (w_panes w))
     \<and> pred_option (\<lambda>l. l \<in> set (map p_index (w_panes w)) \<and> l \<noteq> w_active_pane w) (w_last_pane w)
     \<and> w_next_pane_index w < u32_max"

definition window_inv :: "window \<Rightarrow> bool" where
  "window_inv w \<longleftrightarrow> tree_inv w \<and> ids_inv w \<and> index_inv w"

lemma keys_ids: "map p_id (w_panes w) = map fst (pane_keys w)" "map p_index (w_panes w) = map snd (pane_keys w)"
  "length (w_panes w) = length (pane_keys w)" "w_panes w = [] \<longleftrightarrow> pane_keys w = []"
  by (simp_all add: pane_keys_def)

lemma ids_inv_frame: "ids_inv w \<Longrightarrow> pane_keys w' = pane_keys w \<Longrightarrow> ids_inv w'"
  by (simp add: ids_inv_def keys_ids)

lemma index_inv_frame:
  "index_inv w \<Longrightarrow> pane_keys w' = pane_keys w \<Longrightarrow> w_active_pane w' = w_active_pane w \<Longrightarrow>
     w_last_pane w' = w_last_pane w \<Longrightarrow> w_next_pane_index w' = w_next_pane_index w \<Longrightarrow> index_inv w'"
  by (simp add: index_inv_def keys_ids del: list.set_map)

section \<open>Laying the panes out\<close>

text \<open>
  What an operation leaves alone when it only lays the panes out again: everything but the
  rectangles of the panes, the layout tree, the size and the zoom flag.
\<close>

definition pane_core :: "pane \<Rightarrow> pane" where
  "pane_core p = p\<lparr>p_geometry := new_pane_geometry 0 0 0 0\<rparr>"

definition relaid :: "window \<Rightarrow> window \<Rightarrow> bool" where
  "relaid w w' \<longleftrightarrow>
     (\<exists>ps t sz z. w' = w\<lparr>w_panes := ps, w_layout_tree := t, w_size := sz, w_zoomed := z\<rparr>
        \<and> map pane_core ps = map pane_core (w_panes w))"

lemma pane_core_same [simp]:
  "p_id (pane_core p) = p_id p" "p_index (pane_core p) = p_index p"
  "p_active_point (pane_core p) = p_active_point p" "pane_core (p\<lparr>p_geometry := g\<rparr>) = pane_core p"
  by (simp_all add: pane_core_def)

lemma cores_keys:
  assumes "map pane_core xs = map pane_core ys"
  shows "map (\<lambda>p. (p_id p, p_index p)) xs = map (\<lambda>p. (p_id p, p_index p)) ys"
proof -
  have "map (\<lambda>p. (p_id p, p_index p)) zs = map (\<lambda>p. (p_id p, p_index p)) (map pane_core zs)" for zs
    by simp
  then show ?thesis using assms by metis
qed

lemma relaid_refl [simp]: "relaid w w"
proof -
  have "w = w\<lparr>w_panes := w_panes w, w_layout_tree := w_layout_tree w, w_size := w_size w, w_zoomed := w_zoomed w\<rparr>"
    by simp
  then show ?thesis unfolding relaid_def by blast
qed

lemma relaid_trans:
  assumes "relaid w w'" and "relaid w' w''"
  shows "relaid w w''"
proof -
  obtain ps t sz z where 1: "w' = w\<lparr>w_panes := ps, w_layout_tree := t, w_size := sz, w_zoomed := z\<rparr>"
    "map pane_core ps = map pane_core (w_panes w)" using assms(1) unfolding relaid_def by blast
  obtain ps' t' sz' z' where 2: "w'' = w'\<lparr>w_panes := ps', w_layout_tree := t', w_size := sz', w_zoomed := z'\<rparr>"
    "map pane_core ps' = map pane_core (w_panes w')" using assms(2) unfolding relaid_def by blast
  have "w'' = w\<lparr>w_panes := ps', w_layout_tree := t', w_size := sz', w_zoomed := z'\<rparr>
      \<and> map pane_core ps' = map pane_core (w_panes w)"
    using 1 2 by simp
  then show ?thesis unfolding relaid_def by blast
qed

lemma relaid_same:
  assumes "relaid w w'"
  shows "pane_keys w' = pane_keys w" "length (w_panes w') = length (w_panes w)"
    and "w_active_pane w' = w_active_pane w" "w_last_pane w' = w_last_pane w"
    and "w_next_pane_index w' = w_next_pane_index w" "w_layout w' = w_layout w"
    and "w_custom_layout w' = w_custom_layout w" "w_last_layout w' = w_last_layout w"
    and "w_requested_main_width w' = w_requested_main_width w" "w_requested_main_height w' = w_requested_main_height w"
    and "w_zoom_restore_pending w' = w_zoom_restore_pending w" "w_id w' = w_id w"
  using assms by (auto simp: relaid_def pane_keys_def dest: cores_keys map_eq_imp_length_eq)

lemma window_inv_relaid: "window_inv w \<Longrightarrow> relaid w w' \<Longrightarrow> tree_inv w' \<Longrightarrow> window_inv w'"
  using relaid_same [of w w'] ids_inv_frame [of w w'] index_inv_frame [of w w'] by (simp add: window_inv_def)

text \<open>The rectangle the pane at a position gets, and the whole list of panes laid out.\<close>

definition slot :: "layout_tree \<Rightarrow> nat \<Rightarrow> nat" where
  "slot t i = (case lt_leaf_map t of None \<Rightarrow> i | Some m \<Rightarrow> m ! i)"

definition cell_rect :: "layout_tree \<Rightarrow> nat \<Rightarrow> pane_geometry" where
  "cell_rect t i = pane_rect (collect_leaf_geometries (lt_root t) ! slot t i)"

definition laid_out :: "layout_tree \<Rightarrow> pane list \<Rightarrow> pane list" where
  "laid_out t ps = map (\<lambda>i. (ps ! i)\<lparr>p_geometry := cell_rect t i\<rparr>) [0..<length ps]"

lemma length_laid_out [simp]: "length (laid_out t ps) = length ps"
  by (simp add: laid_out_def)

lemma cores_laid_out [simp]: "map pane_core (laid_out t ps) = map pane_core ps"
  by (rule nth_equalityI) (simp_all add: laid_out_def)

lemma place_panes_eq:
  assumes "fits_panes t n" and "i + length ps = n"
  shows "place_panes t (collect_leaf_geometries (lt_root t)) i ps
    = Some (map (\<lambda>j. (ps ! j)\<lparr>p_geometry := cell_rect t (i + j)\<rparr>) [0..<length ps])"
  using assms(2)
proof (induction ps arbitrary: i)
  case (Cons p ps)
  have count: "length (collect_leaf_geometries (lt_root t)) = n"
    using assms(1) by (simp add: fits_panes_def tree_leaf_count_def length_leaf_geometries)
  have leaf: "pane_leaf t i = Some (slot t i)" "slot t i < n"
    using assms(1) Cons.prems
    by (auto simp: fits_panes_def pane_leaf_def slot_def list_get_def list_all_length split: option.splits)
  have "map (\<lambda>j. ((p # ps) ! j)\<lparr>p_geometry := cell_rect t (i + j)\<rparr>) [0..<length (p # ps)]
      = p\<lparr>p_geometry := cell_rect t i\<rparr> # map (\<lambda>j. (ps ! j)\<lparr>p_geometry := cell_rect t (Suc i + j)\<rparr>) [0..<length ps]"
    by (simp add: upt_conv_Cons map_Suc_upt [symmetric] del: upt_Suc)
  then show ?case
    using Cons.IH [of "Suc i"] Cons.prems leaf count by (simp add: list_get_def cell_rect_def del: upt_Suc)
qed simp

lemma apply_to_panes_eq: "fits_panes t (length ps) \<Longrightarrow> apply_to_panes t ps = Some (laid_out t ps)"
  using place_panes_eq [of t "length ps" 0 ps] by (simp add: apply_to_panes_def laid_out_def)

lemma apply_layout_tree_eq:
  "w_layout_tree w = Some t \<Longrightarrow> fits_panes t (length (w_panes w)) \<Longrightarrow>
     apply_layout_tree w = Some (w\<lparr>w_panes := laid_out t (w_panes w)\<rparr>)"
  by (simp add: apply_layout_tree_def apply_to_panes_eq)

lemma recalculate_geometry_eq:
  "w_layout_tree w = Some t \<Longrightarrow> fits_panes t (length (w_panes w)) \<Longrightarrow>
     recalculate_geometry w = Some (w\<lparr>w_layout_tree := Some (resize t (w_size w)),
       w_size := tree_size (resize t (w_size w)), w_panes := laid_out (resize t (w_size w)) (w_panes w)\<rparr>)"
  by (simp add: recalculate_geometry_def apply_to_panes_eq fits_resize Let_def)

lemma rebuild_named_eq:
  fixes l
  assumes "w_panes w \<noteq> []"
  defines "t \<equiv> named l (length (w_panes w)) (w_size w) (window_options w)"
  shows "rebuild_named_layout_tree w l = Some (w\<lparr>w_size := tree_size t, w_layout_tree := Some t,
    w_custom_layout := False, w_panes := laid_out t (w_panes w)\<rparr>)"
proof -
  have "fits_panes t (length (w_panes w))" unfolding t_def using assms(1) by (intro fits_named) (simp add: Suc_leI)
  then show ?thesis
    using assms(1) by (simp add: rebuild_named_layout_tree_def t_def [symmetric] apply_layout_tree_eq)
qed

lemma apply_layout_tree_returns:
  assumes "tree_inv w"
  shows "returns (apply_layout_tree w) (\<lambda>w'. relaid w w' \<and> tree_inv w')"
proof -
  obtain t where t: "w_layout_tree w = Some t" "fits_panes t (length (w_panes w))"
    using assms by (auto simp: tree_inv_def)
  have "relaid w (w\<lparr>w_panes := laid_out t (w_panes w)\<rparr>)"
    unfolding relaid_def by (intro exI [of _ "laid_out t (w_panes w)"] exI [of _ "w_layout_tree w"]
        exI [of _ "w_size w"] exI [of _ "w_zoomed w"]) simp
  with t show ?thesis by (simp add: apply_layout_tree_eq tree_inv_def)
qed

lemma recalculate_geometry_returns:
  assumes "tree_inv w"
  shows "returns (recalculate_geometry w) (\<lambda>w'. relaid w w' \<and> tree_inv w' \<and> w_zoomed w' = w_zoomed w)"
proof -
  obtain t where t: "w_layout_tree w = Some t" "fits_panes t (length (w_panes w))"
    using assms by (auto simp: tree_inv_def)
  let ?t = "resize t (w_size w)"
  have "relaid w (w\<lparr>w_layout_tree := Some ?t, w_size := tree_size ?t, w_panes := laid_out ?t (w_panes w)\<rparr>)"
    unfolding relaid_def by (intro exI [of _ "laid_out ?t (w_panes w)"] exI [of _ "Some ?t"]
        exI [of _ "tree_size ?t"] exI [of _ "w_zoomed w"]) simp
  with t show ?thesis by (simp add: recalculate_geometry_eq tree_inv_def fits_resize)
qed

lemma unzoom_returns:
  assumes "tree_inv w"
  shows "returns (unzoom w) (\<lambda>w'. relaid w w' \<and> tree_inv w' \<and> \<not> w_zoomed w')"
proof (cases "w_zoomed w")
  case True
  let ?w = "w\<lparr>w_zoomed := False\<rparr>"
  have "tree_inv ?w" using assms by (simp add: tree_inv_def)
  moreover have "relaid w ?w" unfolding relaid_def
    by (intro exI [of _ "w_panes w"] exI [of _ "w_layout_tree w"] exI [of _ "w_size w"] exI [of _ False]) simp
  ultimately show ?thesis
    using recalculate_geometry_returns [of ?w] True
    by (auto simp: unzoom_def auto_unzoom_def elim!: returnsE intro: relaid_trans)
qed (use assms in \<open>simp add: unzoom_def auto_unzoom_def\<close>)

lemma unzoom_inv: "window_inv w \<Longrightarrow> returns (unzoom w) (\<lambda>w'. relaid w w' \<and> window_inv w' \<and> \<not> w_zoomed w')"
  using unzoom_returns [of w] window_inv_relaid [of w]
  by (auto simp: window_inv_def elim!: returnsE intro!: returns_simps)

end
