(* ===== verification/Window_Ops_Inv.thy ===== *)
theory Window_Ops_Inv
  imports Window_Inv
begin

text \<open>
  The pane operations keep the invariant of a window and never panic, and what the numbering of
  the panes is afterwards.
\<close>

section \<open>The roster of a window\<close>

text \<open>The panes up to their rectangles, which of them is active and which was active last.\<close>

definition same_roster :: "window \<Rightarrow> window \<Rightarrow> bool" where
  "same_roster w w' \<longleftrightarrow> map pane_core (w_panes w') = map pane_core (w_panes w)
     \<and> w_active_pane w' = w_active_pane w \<and> w_last_pane w' = w_last_pane w
     \<and> w_next_pane_index w' = w_next_pane_index w"

lemma same_roster_refl [simp]: "same_roster w w"
  by (simp add: same_roster_def)

lemma same_roster_trans: "same_roster w w' \<Longrightarrow> same_roster w' w'' \<Longrightarrow> same_roster w w''"
  by (simp add: same_roster_def)

lemma relaid_roster: "relaid w w' \<Longrightarrow> same_roster w w'"
  by (auto simp: relaid_def same_roster_def)

lemma same_roster_keys: "same_roster w w' \<Longrightarrow> pane_keys w' = pane_keys w"
  by (auto simp: same_roster_def pane_keys_def dest: cores_keys)

lemma same_roster_ids:
  assumes "same_roster w w'"
  shows "map p_id (w_panes w') = map p_id (w_panes w)" "length (w_panes w') = length (w_panes w)"
    "map p_index (w_panes w') = map p_index (w_panes w)" "w_panes w' = [] \<longleftrightarrow> w_panes w = []"
  using same_roster_keys [OF assms] by (simp_all add: keys_ids)

lemma window_inv_roster: "window_inv w \<Longrightarrow> same_roster w w' \<Longrightarrow> tree_inv w' \<Longrightarrow> window_inv w'"
  using same_roster_keys [of w w'] ids_inv_frame [of w w'] index_inv_frame [of w w']
  by (simp add: window_inv_def same_roster_def)

section \<open>Finding panes\<close>

lemma find_pane_by:
  assumes "x \<in> set (map f ps)"
  obtains p where "List.find (\<lambda>p. f p = x) ps = Some p" "p \<in> set ps" "f p = x"
proof (cases "List.find (\<lambda>p. f p = x) ps")
  case None
  then show ?thesis using assms by (auto simp: find_None_iff)
next
  case (Some p)
  then have "p \<in> set ps \<and> f p = x" by (auto simp: find_Some_iff)
  then show ?thesis using that [OF Some] by blast
qed

lemma position_Some: "position P xs = Some i \<Longrightarrow> i < length xs \<and> P (xs ! i)"
  by (induction xs arbitrary: i) (auto split: if_splits)

lemma position_None: "position P xs = None \<longleftrightarrow> (\<forall>x \<in> set xs. \<not> P x)"
  by (induction xs) auto

lemma pane_index_exists:
  "i \<in> set (map p_id (w_panes w)) \<Longrightarrow> \<exists>k. pane_index_for_id w i = Some k \<and> k \<in> set (map p_index (w_panes w))"
proof -
  assume "i \<in> set (map p_id (w_panes w))"
  then obtain p where "List.find (\<lambda>p. p_id p = i) (w_panes w) = Some p" "p \<in> set (w_panes w)"
    by (rule find_pane_by)
  then show ?thesis by (simp add: pane_index_for_id_def)
qed

lemma active_pane_exists:
  assumes "index_inv w"
  obtains p where "active_pane w = Some p" "p \<in> set (w_panes w)" "p_index p = w_active_pane w"
  using find_pane_by [of "w_active_pane w" p_index "w_panes w"] assms
  by (auto simp: index_inv_def active_pane_def pane_at_def)

lemma pane_at_Some: "pane_at w i = Some p \<Longrightarrow> p \<in> set (w_panes w) \<and> p_index p = i"
  by (auto simp: pane_at_def find_Some_iff)

lemma pane_at_index: "pane_at w i \<noteq> None \<longleftrightarrow> i \<in> set (map p_index (w_panes w))"
  by (force simp: pane_at_def find_None_iff)

lemma keys_update_first:
  "(\<And>p. p_id (f p) = p_id p \<and> p_index (f p) = p_index p) \<Longrightarrow>
     map (\<lambda>p. (p_id p, p_index p)) (update_first P f ps) = map (\<lambda>p. (p_id p, p_index p)) ps"
  by (induction ps) auto

lemma length_update_first [simp]: "length (update_first P f ps) = length ps"
  by (induction ps) auto

lemma pane_mut_inv:
  assumes "window_inv w" and "\<And>p. p_id (f p) = p_id p \<and> p_index (f p) = p_index p"
  shows "window_inv (pane_mut w i f)"
proof -
  have "pane_keys (pane_mut w i f) = pane_keys w"
    using assms(2) by (simp add: pane_keys_def pane_mut_def keys_update_first)
  then show ?thesis
    using assms(1) ids_inv_frame [of w "pane_mut w i f"] index_inv_frame [of w "pane_mut w i f"]
    by (simp add: window_inv_def pane_mut_def tree_inv_def)
qed

lemma mark_pane_active_inv: "window_inv w \<Longrightarrow> window_inv (mark_pane_active now w i)"
  unfolding mark_pane_active_def Let_def by (rule pane_mut_inv) simp_all

lemma apply_zoom_geometry_inv: "window_inv w \<Longrightarrow> window_inv (apply_zoom_geometry w)"
  unfolding apply_zoom_geometry_def by (rule pane_mut_inv) simp_all

lemma window_inv_fields:
  "window_inv (w\<lparr>w_zoomed := z\<rparr>) = window_inv w" "window_inv (w\<lparr>w_layout := l\<rparr>) = window_inv w"
  "window_inv (w\<lparr>w_zoom_restore_pending := z\<rparr>) = window_inv w"
  "window_inv (w\<lparr>w_requested_main_width := m\<rparr>) = window_inv w"
  "window_inv (w\<lparr>w_requested_main_height := m\<rparr>) = window_inv w"
  "window_inv (w\<lparr>w_last_layout := ll\<rparr>) = window_inv w" "window_inv (w\<lparr>w_old_layout := ol\<rparr>) = window_inv w"
  by (simp_all add: window_inv_def tree_inv_def ids_inv_def index_inv_def)

text \<open>Which pane is active, by its stable id, is a matter of the roster.\<close>

lemma find_keys:
  "map_option (\<lambda>p. (p_id p, p_index p)) (List.find (\<lambda>p. p_index p = i) ps)
     = List.find (\<lambda>k. snd k = i) (map (\<lambda>p. (p_id p, p_index p)) ps)"
  "map_option (\<lambda>p. (p_id p, p_index p)) (List.find (\<lambda>p. p_id p = i) ps)
     = List.find (\<lambda>k. fst k = i) (map (\<lambda>p. (p_id p, p_index p)) ps)"
  by (induction ps) auto

lemma pane_id_keys: "map_option p_id (pane_at w i) = map_option fst (List.find (\<lambda>k. snd k = i) (pane_keys w))"
  by (simp add: pane_at_def pane_keys_def find_keys [symmetric] option.map_comp comp_def)

lemma pane_index_keys: "pane_index_for_id w i = map_option snd (List.find (\<lambda>k. fst k = i) (pane_keys w))"
  by (simp add: pane_index_for_id_def pane_keys_def find_keys [symmetric] option.map_comp comp_def)

lemma roster_active:
  assumes "same_roster w w'"
  shows "map_option p_id (active_pane w') = map_option p_id (active_pane w)" "last_pane_id w' = last_pane_id w"
proof -
  have "map_option p_id (Option.bind l (pane_at v)) = Option.bind l (\<lambda>i. map_option p_id (pane_at v i))" for l v
    by (cases l) simp_all
  then show "map_option p_id (active_pane w') = map_option p_id (active_pane w)" "last_pane_id w' = last_pane_id w"
    using assms same_roster_keys [OF assms]
    by (simp_all add: active_pane_def last_pane_id_def pane_id_keys same_roster_def)
qed

section \<open>Selecting and zooming\<close>

lemma select_pane_inv:
  assumes "window_inv w"
  shows "returns (select_pane now w i) (\<lambda>(w', ok). window_inv w'
    \<and> (ok \<longleftrightarrow> i \<in> set (map p_index (w_panes w)))
    \<and> w_active_pane w' = (if ok then i else w_active_pane w)
    \<and> map p_id (w_panes w') = map p_id (w_panes w) \<and> length (w_panes w') = length (w_panes w))"
proof (cases "i \<in> set (map p_index (w_panes w)) \<and> w_active_pane w \<noteq> i")
  case True
  then have here: "pane_at w i \<noteq> None" using pane_at_index by blast
  obtain w1 where w1: "unzoom w = Some w1" "relaid w w1" "window_inv w1"
    using unzoom_inv [OF assms] by (auto elim: returnsE)
  let ?w2 = "w1\<lparr>w_last_pane := Some (w_active_pane w1), w_active_pane := i\<rparr>"
  have keys: "pane_keys ?w2 = pane_keys w" using relaid_same(1) [OF w1(2)] by (simp add: pane_keys_def)
  have "window_inv ?w2"
    using w1(3) True keys relaid_same(1) [OF w1(2)] keys_ids(2) [of w1] keys_ids(2) [of w]
      relaid_same(3) [OF w1(2)]
    by (simp add: window_inv_def tree_inv_def ids_inv_def index_inv_def del: list.set_map)
  then have "window_inv (mark_pane_active now ?w2 i)" by (rule mark_pane_active_inv)
  moreover have "pane_keys (mark_pane_active now ?w2 i) = pane_keys w"
    using keys by (simp add: mark_pane_active_def pane_mut_def pane_keys_def keys_update_first Let_def)
  then have "map p_id (w_panes (mark_pane_active now ?w2 i)) = map p_id (w_panes w)" by (simp add: keys_ids)
  moreover from this have "length (w_panes (mark_pane_active now ?w2 i)) = length (w_panes w)"
    by (rule map_eq_imp_length_eq)
  ultimately show ?thesis
    using here True w1(1)
    by (simp add: select_pane_def Let_def) (simp add: mark_pane_active_def pane_mut_def Let_def)
next
  case False
  show ?thesis
  proof (cases "pane_at w i = None")
    case True
    then show ?thesis using assms pane_at_index [of w i] by (simp add: select_pane_def)
  next
    case None: False
    then have i: "w_active_pane w = i" using False pane_at_index by blast
    let ?w = "pane_mut w i (\<lambda>p. p\<lparr>p_activity_at := now\<rparr>)"
    have "window_inv ?w" using assms by (rule pane_mut_inv) simp_all
    moreover have "map p_id (w_panes ?w) = map p_id (w_panes w)"
      using keys_update_first [of "\<lambda>p. p\<lparr>p_activity_at := now\<rparr>" "\<lambda>p. p_index p = i" "w_panes w"]
      by (simp add: pane_mut_def) (metis (no_types, lifting) comp_apply fst_conv list.map_comp map_eq_conv)
    ultimately show ?thesis
      using None i pane_at_index [of w i] by (simp add: select_pane_def) (simp add: pane_mut_def)
  qed
qed

lemma select_pane_by_id_inv: "window_inv w \<Longrightarrow> returns (select_pane_by_id now w i) (\<lambda>(w', ok). window_inv w')"
  using select_pane_inv by (fastforce simp: select_pane_by_id_def split: option.splits elim!: returns_mono)

lemma toggle_zoom_inv:
  assumes "window_inv w"
  shows "returns (toggle_zoom now w i) (\<lambda>(w', z). window_inv w' \<and> w_zoomed w' = z
    \<and> (if i \<in> set (map p_index (w_panes w)) then z = (\<not> w_zoomed w \<and> 1 < length (w_panes w)) else w' = w))"
proof (cases "pane_at w i = None")
  case True
  then show ?thesis using assms pane_at_index [of w i] by (simp add: toggle_zoom_def)
next
  case False
  then have i: "i \<in> set (map p_index (w_panes w))" using pane_at_index by blast
  show ?thesis
  proof (cases "w_zoomed w \<or> length (w_panes w) \<le> 1")
    case True
    then show ?thesis using unzoom_inv [OF assms] assms False i by (auto simp: toggle_zoom_def elim!: returnsE)
  next
    case zoom: False
    obtain w1 where "select_pane now w i = Some (w1, True)" "window_inv w1"
      using select_pane_inv [OF assms, of now i] i by (auto elim!: returnsE)
    moreover from this have "window_inv (apply_zoom_geometry (w1\<lparr>w_zoomed := True\<rparr>))"
      by (intro apply_zoom_geometry_inv) (simp add: window_inv_fields)
    ultimately show ?thesis
      using zoom False i by (simp add: toggle_zoom_def) (simp add: apply_zoom_geometry_def pane_mut_def)
  qed
qed

lemma push_zoom_inv:
  "window_inv w \<Longrightarrow> returns (push_zoom w r) (\<lambda>(w', z). window_inv w' \<and> same_roster w w' \<and> \<not> w_zoomed w' \<and> z = w_zoomed w)"
  using unzoom_inv [of w]
  by (auto simp: push_zoom_def window_inv_fields same_roster_def dest!: relaid_roster elim!: returnsE)

lemma pop_zoom_inv: "window_inv w \<Longrightarrow> window_inv (pop_zoom w)"
  by (simp add: pop_zoom_def Let_def apply_zoom_geometry_inv window_inv_fields)

text \<open>The neighbour taken has the highest activation counter among the adjacent panes.\<close>

lemma best_neighbour_Some:
  "best_neighbour adj best ps = Some (pt, i) \<Longrightarrow>
     (best = Some (pt, i) \<or> (\<exists>p \<in> set ps. adj p \<and> p_index p = i \<and> p_active_point p = pt))
     \<and> pred_option (\<lambda>(q, _). q \<le> pt) best \<and> (\<forall>p \<in> set ps. adj p \<longrightarrow> p_active_point p \<le> pt)"
proof (induction ps arbitrary: best)
  case (Cons p ps)
  show ?case
  proof (cases "adj p")
    case True
    show ?thesis
    proof (cases best)
      case None
      then show ?thesis
        using True Cons.IH [of "Some (p_active_point p, p_index p)"] Cons.prems by auto
    next
      case (Some b)
      obtain q k where b: "b = (q, k)" by (cases b)
      show ?thesis
        using True Some b Cons.IH [of best] Cons.IH [of "Some (p_active_point p, p_index p)"] Cons.prems
        by (cases "p_active_point p \<le> q") auto
    qed
  next
    case False
    then show ?thesis using Cons.IH [of best] Cons.prems by auto
  qed
qed auto

lemma best_neighbour_None:
  "best_neighbour adj best ps = None \<longleftrightarrow> best = None \<and> (\<forall>p \<in> set ps. \<not> adj p)"
  by (induction ps arbitrary: best) (auto split: option.splits)

definition neighbours :: "window \<Rightarrow> pane \<Rightarrow> select_direction \<Rightarrow> pane list" where
  "neighbours w source d =
     filter (\<lambda>p. p_index p \<noteq> p_index source
       \<and> adjacent_pane_score (p_geometry source) (p_geometry p) d (w_size w) \<noteq> None) (w_panes w)"

lemma select_adjacent_pane_Some:
  assumes inv: "window_inv w" and s: "pane_at w i = Some s"
  shows "returns (select_adjacent_pane now w i d) (\<lambda>(w', r). window_inv w' \<and> r = Some (w_active_pane w')
    \<and> (if neighbours w s d = [] then w' = w
       else \<exists>p \<in> set (neighbours w s d). p_index p = w_active_pane w'
              \<and> (\<forall>q \<in> set (neighbours w s d). p_active_point q \<le> p_active_point p)))"
proof -
  let ?adj = "\<lambda>p. adjacent_pane_score (p_geometry s) (p_geometry p) d (w_size w) \<noteq> None"
  let ?ps = "filter (\<lambda>p. p_index p \<noteq> i) (w_panes w)"
  have i: "p_index s = i" using pane_at_Some [OF s] by simp
  have near: "p \<in> set (neighbours w s d) \<longleftrightarrow> p \<in> set ?ps \<and> ?adj p" for p
    using i by (auto simp: neighbours_def)
  show ?thesis
  proof (cases "best_neighbour ?adj None ?ps")
    case None
    then have "neighbours w s d = []"
      using near best_neighbour_None [of ?adj None ?ps] by (metis (no_types, lifting) list.set_intros(1) neq_Nil_conv)
    then show ?thesis using inv s None by (simp add: select_adjacent_pane_def)
  next
    case (Some b)
    obtain pt j where b: "b = (pt, j)" by (cases b)
    obtain p where p: "p \<in> set (neighbours w s d)" "p_index p = j" "p_active_point p = pt"
      and most: "\<forall>q \<in> set (neighbours w s d). p_active_point q \<le> pt"
      using best_neighbour_Some [OF Some [unfolded b]] near by auto
    then have "j \<in> set (map p_index (w_panes w))" by (auto simp: neighbours_def)
    moreover have "neighbours w s d \<noteq> []" using p(1) by auto
    moreover obtain w1 ok where "select_pane now w j = Some (w1, ok)" "window_inv w1"
      "ok \<longleftrightarrow> j \<in> set (map p_index (w_panes w))" "w_active_pane w1 = (if ok then j else w_active_pane w)"
      using select_pane_inv [OF inv, of now j] by (auto elim!: returnsE)
    ultimately show ?thesis using s Some b p most by (auto simp: select_adjacent_pane_def simp del: set_map)
  qed
qed

lemma select_adjacent_pane_inv:
  assumes "window_inv w"
  shows "returns (select_adjacent_pane now w i d) (\<lambda>(w', r). window_inv w')"
proof (cases "pane_at w i")
  case (Some s)
  show ?thesis by (rule returns_mono [OF select_adjacent_pane_Some [OF assms Some]]) auto
qed (use assms in \<open>simp add: select_adjacent_pane_def\<close>)

section \<open>Numbering\<close>

lemma number_panes_same:
  "map p_id (number_panes i ps) = map p_id ps" "length (number_panes i ps) = length ps"
  "map p_active_point (number_panes i ps) = map p_active_point ps"
  by (induction ps arbitrary: i) simp_all

lemma number_panes_index:
  "i + length ps \<le> u32_max \<Longrightarrow> map p_index (number_panes i ps) = [i..<i + length ps]"
  by (induction ps arbitrary: i) (simp_all add: u32_wrap_id upt_conv_Cons del: upt_Suc)

lemma renumber_inv:
  assumes ids: "ids_inv w" and a: "a \<in> set (map p_id (w_panes w))"
  shows "returns (renumber_panes_by_position w a l) (\<lambda>w'. ids_inv w' \<and> index_inv w'
    \<and> w_layout_tree w' = w_layout_tree w \<and> map p_id (w_panes w') = map p_id (w_panes w)
    \<and> length (w_panes w') = length (w_panes w)
    \<and> map p_index (w_panes w') = [0..<length (w_panes w)] \<and> w_next_pane_index w' = length (w_panes w)
    \<and> map_option p_id (active_pane w') = Some a)"
proof -
  let ?ps = "number_panes 0 (w_panes w)"
  let ?w = "w\<lparr>w_panes := ?ps, w_next_pane_index := u32_wrap (length (w_panes w))\<rparr>"
  have len: "length (w_panes w) < u32_max" using ids by (simp add: ids_inv_def)
  then have idx: "map p_index ?ps = [0..<length (w_panes w)]" using number_panes_index [of 0 "w_panes w"] by simp
  then have dist: "distinct (map p_index ?ps)" by simp
  have "a \<in> set (map p_id ?ps)" using a by (simp only: number_panes_same)
  then obtain p where p: "List.find (\<lambda>p. p_id p = a) ?ps = Some p" "p \<in> set ?ps" "p_id p = a"
    by (rule find_pane_by)
  then have act: "pane_index_for_id ?w a = Some (p_index p)" by (simp add: pane_index_for_id_def)
  have unique: "q = p" if "q \<in> set ?ps" "p_index q = p_index p" for q
    using dist that p(2) by (simp add: distinct_map inj_on_def)
  obtain q where "List.find (\<lambda>q. p_index q = p_index p) ?ps = Some q" "q \<in> set ?ps" "p_index q = p_index p"
    using find_pane_by [of "p_index p" p_index ?ps] p(2) by auto
  then have found: "List.find (\<lambda>q. p_index q = p_index p) ?ps = Some p" using unique by simp
  have below: "p_index q < length (w_panes w)" if "q \<in> set ?ps" for q
    using arg_cong [OF idx, of set] that by auto
  have last: "j < length (w_panes w)" if "Option.bind l (pane_index_for_id ?w) = Some j" for j
    using that below by (auto simp: pane_index_for_id_def find_Some_iff bind_eq_Some_conv)
  show ?thesis
    using ids len act below [OF p(2)] last [unfolded u32_wrap_id [OF less_imp_le [OF len]]] found p(3) idx number_panes_same [of 0 "w_panes w"]
    by (auto simp: renumber_panes_by_position_def ids_inv_def index_inv_def active_pane_def pane_at_def u32_wrap_id
        Let_def split: option.splits simp del: set_map)
qed

lemma renumber_window_inv:
  "ids_inv w \<Longrightarrow> tree_inv w \<Longrightarrow> a \<in> set (map p_id (w_panes w)) \<Longrightarrow>
     returns (renumber_panes_by_position w a l) (\<lambda>w'. window_inv w' \<and> map p_id (w_panes w') = map p_id (w_panes w)
       \<and> map p_index (w_panes w') = [0..<length (w_panes w')] \<and> map_option p_id (active_pane w') = Some a)"
  by (rule returns_mono [OF renumber_inv]) (auto simp: window_inv_def tree_inv_def simp del: set_map)

lemma mark_active_same:
  "map p_id (w_panes (mark_pane_active now w i)) = map p_id (w_panes w)"
  "map p_index (w_panes (mark_pane_active now w i)) = map p_index (w_panes w)"
  "length (w_panes (mark_pane_active now w i)) = length (w_panes w)"
  "w_active_pane (mark_pane_active now w i) = w_active_pane w" "w_last_pane (mark_pane_active now w i) = w_last_pane w"
  "w_layout_tree (mark_pane_active now w i) = w_layout_tree w"
proof -
  have "pane_keys (mark_pane_active now w i) = pane_keys w"
    by (simp add: mark_pane_active_def pane_mut_def pane_keys_def keys_update_first Let_def)
  then show "map p_id (w_panes (mark_pane_active now w i)) = map p_id (w_panes w)"
    "map p_index (w_panes (mark_pane_active now w i)) = map p_index (w_panes w)"
    "length (w_panes (mark_pane_active now w i)) = length (w_panes w)" by (simp_all only: keys_ids)
qed (simp_all add: mark_pane_active_def pane_mut_def Let_def)

section \<open>Tree operations of a window\<close>

context tree_op
begin

lemma apply_or_rebuild_returns:
  assumes "w_layout_tree w = Some t" and "fits_panes t n" and "length (w_panes w) = grown n" and "w_panes w \<noteq> []"
  shows "returns (apply_or_rebuild (with_tree w run)) (\<lambda>w'. same_roster w w' \<and> tree_inv w')"
proof -
  obtain t' ok where run: "run t = (t', ok)" by fastforce
  show ?thesis
  proof (cases ok)
    case True
    have "fits_panes t' (length (w_panes w))" using run_fits [OF assms(2) run] assms(3) True by simp
    then have "tree_inv (w\<lparr>w_layout_tree := Some t'\<rparr>)" by (simp add: tree_inv_def)
    then show ?thesis
      using apply_layout_tree_returns [of "w\<lparr>w_layout_tree := Some t'\<rparr>"] assms(1) run True
      by (auto simp: apply_or_rebuild_def with_tree_def same_roster_def dest!: relaid_roster elim!: returnsE)
  next
    case False
    have "fits_panes (named l (length (w_panes w)) sz opts) (length (w_panes w))" for l sz opts
      using assms(4) by (intro fits_named) (simp add: Suc_leI)
    then show ?thesis
      using assms(1,4) run False
      by (simp add: apply_or_rebuild_def with_tree_def rebuild_named_eq same_roster_def tree_inv_def)
  qed
qed

lemma with_tree_returns:
  assumes "tree_inv w" and "grown (length (w_panes w)) = length (w_panes w)" and "with_tree w run = (w', ok)"
  shows "same_roster w w' \<and> tree_inv w'"
proof -
  obtain t where t: "w_layout_tree w = Some t" "fits_panes t (length (w_panes w))"
    using assms(1) by (auto simp: tree_inv_def)
  obtain t' where "run t = (t', ok)" "w' = w\<lparr>w_layout_tree := Some t'\<rparr>"
    using assms(3) t(1) by (auto simp: with_tree_def split: prod.splits)
  then show ?thesis
    using run_fits [OF t(2)] assms(2) by (fastforce simp: tree_inv_def same_roster_def split: if_splits)
qed

end

section \<open>Splitting\<close>

lemma set_list_insert: "set (list_insert xs i x) = insert x (set xs)"
proof -
  have "set xs = set (take i xs @ drop i xs)" by simp
  also have "\<dots> = set (take i xs) \<union> set (drop i xs)" by (rule set_append)
  finally show ?thesis by (auto simp: list_insert_def)
qed

lemma distinct_list_insert: "distinct (list_insert xs i x) \<longleftrightarrow> distinct xs \<and> x \<notin> set xs"
proof -
  have "distinct (a @ x # b) \<longleftrightarrow> distinct (a @ b) \<and> x \<notin> set (a @ b)" for a b by auto
  from this [of "take i xs" "drop i xs"] show ?thesis by (simp only: list_insert_def append_take_drop_id)
qed

lemma list_insert_ne [simp]: "list_insert xs i x \<noteq> []"
  by (simp add: list_insert_def)

lemma map_list_insert: "map f (list_insert xs i x) = list_insert (map f xs) i (f x)"
  by (simp add: list_insert_def take_map drop_map)

lemma length_list_insert [simp]: "length (list_insert xs i x) = Suc (length xs)"
  by (simp add: list_insert_def)

lemma active_id:
  assumes "window_inv w"
  obtains a where "map_option p_id (active_pane w) = Some a" "a \<in> set (map p_id (w_panes w))"
proof -
  have "index_inv w" using assms by (simp add: window_inv_def)
  then obtain p where "active_pane w = Some p" "p \<in> set (w_panes w)" by (rule active_pane_exists)
  then show ?thesis using that [of "p_id p"] by simp
qed

lemma commit_split_inv:
  assumes ids: "ids_inv w" and tree: "tree_inv w" and i: "i \<in> set (map p_id (w_panes w))"
    and a: "a \<in> set (map p_id (w_panes w))"
  shows "returns (commit_split_renumber now w i (Some a) l detached) (\<lambda>w'. window_inv w'
    \<and> map p_id (w_panes w') = map p_id (w_panes w) \<and> map p_index (w_panes w') = [0..<length (w_panes w')]
    \<and> map_option p_id (active_pane w') = Some (if detached then a else i))"
proof (cases detached)
  case True
  show ?thesis
    using renumber_window_inv [OF ids tree a] True by (simp add: commit_split_renumber_def)
next
  case False
  obtain w1 where w1: "renumber_panes_by_position w i (Some a) = Some w1" "window_inv w1"
    "map p_id (w_panes w1) = map p_id (w_panes w)" "map p_index (w_panes w1) = [0..<length (w_panes w1)]"
    "map_option p_id (active_pane w1) = Some i"
    using renumber_window_inv [OF ids tree i, of "Some a"] by (auto elim!: returnsE simp del: set_map)
  have "map_option p_id (active_pane (mark_pane_active now w1 (w_active_pane w1))) = map_option p_id (active_pane w1)"
    by (simp add: active_pane_def pane_id_keys mark_active_same(4))
      (simp add: pane_keys_def mark_pane_active_def pane_mut_def keys_update_first Let_def)
  then show ?thesis
    using w1 False by (simp add: commit_split_renumber_def mark_pane_active_inv mark_active_same)
qed

lemma split_inv:
  assumes inv: "window_inv w" and pos: "pos < length (w_panes w)" and fresh: "i \<notin> set (map p_id (w_panes w))"
    and room: "Suc (length (w_panes w)) < u32_max"
  shows "returns (split_at_position_detached now w pos i d ahead detached) (\<lambda>(w', index). window_inv w'
    \<and> map p_id (w_panes w') = list_insert (map p_id (w_panes w)) (if ahead then pos else pos + 1) i
    \<and> map p_index (w_panes w') = [0..<length (w_panes w')]
    \<and> pane_index_for_id w' i = Some index
    \<and> map_option p_id (active_pane w') = (if detached then map_option p_id (active_pane w) else Some i))"
proof -
  obtain w1 where w1: "unzoom w = Some w1" "relaid w w1" "window_inv w1"
    using unzoom_inv [OF inv] by (auto elim: returnsE)
  note same = same_roster_ids [OF relaid_roster [OF w1(2)]]
  obtain t where t: "w_layout_tree w1 = Some t" "fits_panes t (length (w_panes w1))"
    using w1(3) by (auto simp: window_inv_def tree_inv_def)
  let ?w2 = "w1\<lparr>w_layout := layout_for_split d\<rparr>"
  let ?p = "pane_new_with_id now i (w_next_pane_index w1) (new_pane_geometry 0 0 0 0)"
  let ?k = "if ahead then pos else pos + 1"
  let ?w4 = "?w2\<lparr>w_next_pane_index := w_next_pane_index w1 + 1, w_panes := list_insert (w_panes w1) ?k ?p\<rparr>"
  have alloc: "allocate_pane_index ?w2 = Some (?w2\<lparr>w_next_pane_index := w_next_pane_index w1 + 1\<rparr>, w_next_pane_index w1)"
    using w1(3) by (simp add: allocate_pane_index_def window_inv_def index_inv_def)
  obtain w5 where w5: "apply_or_rebuild (with_tree ?w4 (\<lambda>t. split_leaf t pos (from_split_direction d) ahead)) = Some w5"
    "same_roster ?w4 w5" "tree_inv w5"
    using split_op.apply_or_rebuild_returns [of ?w4 t "length (w_panes w1)" pos "from_split_direction d" ahead] t
    by (auto elim: returnsE)
  have ids5: "map p_id (w_panes w5) = list_insert (map p_id (w_panes w)) ?k i"
    using same_roster_ids(1) [OF w5(2)] same(1) by (simp add: map_list_insert pane_new_with_id_def)
  have ids: "ids_inv w5"
    using inv fresh room same_roster_ids(2) [OF w5(2)] same(2) ids5
    by (auto simp: ids_inv_def window_inv_def distinct_list_insert simp del: set_map)
  obtain a where a: "map_option p_id (active_pane w) = Some a" "a \<in> set (map p_id (w_panes w))"
    using active_id [OF inv] .
  have prev: "map_option p_id (active_pane ?w2) = Some a"
    using roster_active(1) [OF relaid_roster [OF w1(2)]] a(1) by (simp add: active_pane_def pane_at_def)
  have "a \<in> set (map p_id (w_panes w5))" "i \<in> set (map p_id (w_panes w5))"
    using a(2) unfolding ids5 by (simp_all add: set_list_insert)
  from commit_split_inv [OF ids w5(3) this(2,1), of now "last_pane_id ?w2" detached]
  obtain w6 where w6: "commit_split_renumber now w5 i (Some a) (last_pane_id ?w2) detached = Some w6" "window_inv w6"
    "map p_id (w_panes w6) = map p_id (w_panes w5)" "map p_index (w_panes w6) = [0..<length (w_panes w6)]"
    "map_option p_id (active_pane w6) = Some (if detached then a else i)"
    by (auto elim!: returnsE)
  have "i \<in> set (map p_id (w_panes w6))" unfolding w6(3) ids5 by (simp add: set_list_insert)
  then obtain index where "pane_index_for_id w6 i = Some index" using pane_index_exists by blast
  moreover have "list_all (\<lambda>p. p_id p \<noteq> i) (w_panes w)" using fresh by (auto simp: list_all_iff)
  ultimately show ?thesis
    using w6 ids5 a(1) pos w1(1) w5(1) prev
    by (simp add: split_at_position_detached_def alloc Let_def del: map_option_eq_Some)
qed

section \<open>Removing\<close>

lemma list_remove_split: "i < length xs \<Longrightarrow> xs = take i xs @ xs ! i # drop (Suc i) xs"
  by (rule id_take_nth_drop)

lemma keyed_list_remove:
  assumes "distinct (map f xs)" and "i < length xs"
  shows "f ` set (list_remove xs i) = f ` set xs - {f (xs ! i)}" "length (list_remove xs i) = length xs - 1"
    "distinct (map f (list_remove xs i))"
proof -
  obtain a b where xs: "xs = a @ xs ! i # b" and rem: "list_remove xs i = a @ b"
    using list_remove_split [OF assms(2)] by (simp add: list_remove_def)
  have "distinct (map f (a @ xs ! i # b))" "f ` set xs = f ` set (a @ xs ! i # b)" "length xs = length (a @ xs ! i # b)"
    using assms(1) xs by simp_all
  then show "f ` set (list_remove xs i) = f ` set xs - {f (xs ! i)}" "length (list_remove xs i) = length xs - 1"
    "distinct (map f (list_remove xs i))"
    unfolding rem by (auto, (metis image_eqI)+)
qed

lemma map_list_remove: "map f (list_remove xs i) = list_remove (map f xs) i"
  by (simp add: list_remove_def take_map drop_map)

lemma renumber_single_inv:
  assumes "w_panes w = [p]"
  shows "returns (renumber_single_pane_to_zero w) (\<lambda>w'. window_inv w' \<and> map p_id (w_panes w') = [p_id p]
    \<and> map p_index (w_panes w') = [0] \<and> \<not> w_zoomed w')"
proof -
  let ?w = "w\<lparr>w_panes := [p\<lparr>p_index := 0, p_geometry := full_rect (w_size w)\<rparr>], w_next_pane_index := 1,
     w_active_pane := 0, w_last_pane := None, w_layout := MainVertical, w_last_layout := None,
     w_layout_tree := Some (single (w_size w)), w_custom_layout := False,
     w_old_layout := None, w_zoomed := False, w_zoom_restore_pending := False,
     w_requested_main_width := None, w_requested_main_height := None\<rparr>"
  have inv: "window_inv ?w" by (simp add: window_inv_def tree_inv_def ids_inv_def index_inv_def machine_defs)
  obtain w' where w': "recalculate_geometry ?w = Some w'" "relaid ?w w'" "tree_inv w'" "\<not> w_zoomed w'"
    using recalculate_geometry_returns [of ?w] inv by (auto simp: window_inv_def elim: returnsE)
  moreover have "window_inv w'" using window_inv_relaid [OF inv w'(2,3)] .
  moreover have "map p_id (w_panes w') = [p_id p]" "map p_index (w_panes w') = [0]"
    using same_roster_ids [OF relaid_roster [OF w'(2)]] by simp_all
  ultimately show ?thesis using assms by (simp add: renumber_single_pane_to_zero_def)
qed

lemma settle_extraction_inv:
  assumes ids: "ids_inv w" and t: "w_layout_tree w = Some t" "fits_panes t (Suc (length (w_panes w)))"
    and a: "a \<in> set (map p_id (w_panes w))"
  shows "returns (settle_extraction w pos removed (Some a) l) (\<lambda>w'. window_inv w'
    \<and> map p_id (w_panes w') = map p_id (w_panes w) \<and> map p_index (w_panes w') = [0..<length (w_panes w')]
    \<and> map_option p_id (active_pane w') = Some a)"
proof -
  have ne: "w_panes w \<noteq> []" using ids by (simp add: ids_inv_def)
  obtain w1 where w1: "apply_or_rebuild (with_tree w (\<lambda>t. remove_leaf t pos)) = Some w1"
    "same_roster w w1" "tree_inv w1"
    using remove_op.apply_or_rebuild_returns [OF t] ne by (auto elim: returnsE)
  note same = same_roster_ids [OF w1(2)]
  have ids1: "ids_inv w1" using ids_inv_frame [OF ids same_roster_keys [OF w1(2)]] .
  show ?thesis
  proof (cases "length (w_panes w) = 1")
    case True
    then obtain p where p: "w_panes w1 = [p]" using same(2) by (cases "w_panes w1") auto
    have "a = p_id p" using a unfolding same(1) [symmetric] p by simp
    moreover obtain w2 where "renumber_single_pane_to_zero w1 = Some w2" "window_inv w2"
      "map p_id (w_panes w2) = [p_id p]" "map p_index (w_panes w2) = [0]"
      using renumber_single_inv [OF p] by (auto elim: returnsE)
    moreover from this obtain b where "map_option p_id (active_pane w2) = Some b" "b \<in> set (map p_id (w_panes w2))"
      using active_id by blast
    moreover have "map p_id (w_panes w) = [p_id p]" using same(1) p by simp
    ultimately show ?thesis
      using w1(1) ne p by (auto simp: settle_extraction_def simp del: map_option_eq_Some set_map)
  next
    case False
    show ?thesis
      using renumber_window_inv [OF ids1 w1(3), of a l] a w1(1) ne same False
      by (simp add: settle_extraction_def del: set_map)
  qed
qed

lemma next_active_remains:
  assumes inv: "window_inv w" and pos: "pane_position w k = Some pos" and two: "2 \<le> length (w_panes w)"
  obtains a where "next_active_pane_after_removal w pos k = Some a"
    "a \<in> set (map p_id (list_remove (w_panes w) pos))"
proof -
  let ?ps = "w_panes w"
  have pos: "pos < length ?ps" "p_index (?ps ! pos) = k" using position_Some pos by (auto simp: pane_position_def)
  have ids: "distinct (map p_id ?ps)" and idx: "distinct (map p_index ?ps)"
    using inv by (simp_all add: window_inv_def ids_inv_def index_inv_def)
  have rest: "p_id (?ps ! j) \<in> set (map p_id (list_remove ?ps pos))" if "j < length ?ps" "j \<noteq> pos" for j
    using keyed_list_remove(1) [OF ids pos(1)] that nth_eq_iff_index_eq [OF ids, of j pos] pos(1) by simp
  let ?c = "case w_last_pane w of None \<Rightarrow> None | Some l \<Rightarrow> if l \<noteq> k then pane_at w l else None"
  show ?thesis
  proof (cases ?c)
    case (Some q)
    then obtain l where "pane_at w l = Some q" "l \<noteq> k" by (auto split: option.splits if_splits)
    moreover from this obtain j where "j < length ?ps" "?ps ! j = q" "p_index q = l"
      using pane_at_Some by (metis in_set_conv_nth)
    ultimately show ?thesis
      using that [of "p_id q"] rest [of j] Some pos(2) by (auto simp: next_active_pane_after_removal_def)
  next
    case None
    show ?thesis
    proof (cases "pos = 0")
      case True
      then show ?thesis using that [of "p_id (?ps ! 1)"] rest [of 1] None two
        by (simp add: next_active_pane_after_removal_def list_get_def)
    next
      case False
      then show ?thesis using that [of "p_id (?ps ! (pos - 1))"] rest [of "pos - 1"] None pos(1)
        by (simp add: next_active_pane_after_removal_def list_get_def)
    qed
  qed
qed

text \<open>The pane that is active after a removal: another pane, and the same one unless it was removed.\<close>

lemma next_active_choice:
  assumes inv: "window_inv w" and at: "pane_position w k = Some pos" and two: "2 \<le> length (w_panes w)"
    and p: "active_pane w = Some p"
  obtains a where "(if w_active_pane w = k \<and> length (w_panes w) > 1
      then map_option Some (next_active_pane_after_removal w pos k) else Some (Some (p_id p))) = Some (Some a)"
    "a \<in> set (map p_id (list_remove (w_panes w) pos))" "w_active_pane w \<noteq> k \<longrightarrow> a = p_id p"
proof (cases "w_active_pane w = k")
  case True
  obtain a where "next_active_pane_after_removal w pos k = Some a" "a \<in> set (map p_id (list_remove (w_panes w) pos))"
    using next_active_remains [OF inv at two] .
  then show ?thesis using that [of a] True two by simp
next
  case False
  have pos: "pos < length (w_panes w)" "p_index (w_panes w ! pos) = k"
    using position_Some at by (auto simp: pane_position_def)
  have ids: "distinct (map p_id (w_panes w))" using inv by (simp add: window_inv_def ids_inv_def)
  have in_w: "p \<in> set (w_panes w)" "p_index p = w_active_pane w"
    using pane_at_Some p by (auto simp: active_pane_def)
  then have "p \<noteq> w_panes w ! pos" using pos(2) False by auto
  then have "p_id p \<in> p_id ` set (w_panes w) - {p_id (w_panes w ! pos)}"
    using ids in_w(1) pos(1) by (auto simp: distinct_map inj_on_def)
  then show ?thesis using that [of "p_id p"] False keyed_list_remove(1) [OF ids pos(1)] by simp
qed

lemma roster_position: "same_roster w w' \<Longrightarrow> pane_position w' k = pane_position w k"
proof -
  have keys: "position (\<lambda>p. p_index p = k) ps = position (\<lambda>x. x = k) (map p_index ps)" for ps
    by (induction ps) auto
  assume "same_roster w w'"
  then show ?thesis using same_roster_ids(3) by (simp add: pane_position_def keys)
qed

lemma extract_pane_inv:
  assumes inv: "window_inv w" and pos: "pane_position w k = Some pos" and two: "2 \<le> length (w_panes w)"
  shows "returns (extract_pane w k) (\<lambda>(w', r). window_inv w'
    \<and> map p_id (w_panes w') = list_remove (map p_id (w_panes w)) pos
    \<and> map p_index (w_panes w') = [0..<length (w_panes w')]
    \<and> map_option p_id r = Some (p_id (w_panes w ! pos)) \<and> map_option p_index r = Some k
    \<and> (w_active_pane w \<noteq> k \<longrightarrow> map_option p_id (active_pane w') = map_option p_id (active_pane w)))"
proof -
  obtain w1 where w1: "unzoom w = Some w1" "relaid w w1" "window_inv w1"
    using unzoom_inv [OF inv] by (auto elim: returnsE)
  note roster = relaid_roster [OF w1(2)]
  note same = same_roster_ids [OF roster]
  let ?ps = "w_panes w1"
  have pos1: "pane_position w1 k = Some pos" using pos roster_position [OF roster] by simp
  have two1: "2 \<le> length ?ps" using two same(2) by simp
  have at: "pos < length ?ps" "p_index (?ps ! pos) = k" using position_Some pos1 by (auto simp: pane_position_def)
  have ids: "distinct (map p_id ?ps)" and idx: "distinct (map p_index ?ps)"
    using w1(3) by (simp_all add: window_inv_def ids_inv_def index_inv_def)
  obtain t where t: "w_layout_tree w1 = Some t" "fits_panes t (length ?ps)"
    using w1(3) by (auto simp: window_inv_def tree_inv_def)
  have "index_inv w1" using w1(3) by (simp add: window_inv_def)
  then obtain p where p: "active_pane w1 = Some p" by (rule active_pane_exists)
  obtain a where a: "(if w_active_pane w1 = k \<and> length ?ps > 1
      then map_option Some (next_active_pane_after_removal w1 pos k) else Some (Some (p_id p))) = Some (Some a)"
    "a \<in> set (map p_id (list_remove ?ps pos))" "w_active_pane w1 \<noteq> k \<longrightarrow> a = p_id p"
    using next_active_choice [OF w1(3) pos1 two1 p] by blast
  let ?w2 = "w1\<lparr>w_panes := list_remove ?ps pos\<rparr>"
  let ?l = "if p_index (?ps ! pos) = w_active_pane w1 then None
    else case last_pane_id w1 of None \<Rightarrow> None | Some l \<Rightarrow> if l \<noteq> p_id (?ps ! pos) then Some l else None"
  have len: "Suc (length (list_remove ?ps pos)) = length ?ps" using keyed_list_remove(2) [OF ids at(1)] two1 by simp
  have "list_remove ?ps pos \<noteq> []" using len two1 by auto
  then have "ids_inv ?w2"
    using w1(3) keyed_list_remove(3) [OF ids at(1)] len by (simp add: ids_inv_def window_inv_def)
  moreover have "fits_panes t (Suc (length (w_panes ?w2)))" using t(2) len by simp
  ultimately obtain w3 where w3: "settle_extraction ?w2 pos (?ps ! pos) (Some a) ?l = Some w3" "window_inv w3"
    "map p_id (w_panes w3) = list_remove (map p_id ?ps) pos" "map p_index (w_panes w3) = [0..<length (w_panes w3)]"
    "map_option p_id (active_pane w3) = Some a"
    using settle_extraction_inv [of ?w2 t a pos "?ps ! pos" ?l] t(1) a(2)
    by (auto simp: map_list_remove simp del: map_option_eq_Some set_map elim!: returnsE)
  have active: "map_option p_id (active_pane w) = Some (p_id p)" using roster_active(1) [OF roster] p by simp
  have "p_id (?ps ! pos) = p_id (w_panes w ! pos)"
    using same(1,2) at(1) by (metis nth_map)
  moreover have "extract_pane w k = Some (w3, Some (?ps ! pos))"
    using pos w1(1) p a(1) at(1) w3(1) by (simp add: extract_pane_def list_get_def Let_def)
  ultimately show ?thesis
    using w3 same(1) at(2) active a(3) relaid_same(3) [OF w1(2)] by (simp del: map_option_eq_Some)
qed

end
