(* ===== verification/Window_Moves_Inv.thy ===== *)
theory Window_Moves_Inv
  imports Window_Ops_Inv
begin

text \<open>
  Removing all other panes, rotating, swapping, inserting and moving panes keep the invariant of a
  window; what becomes of the order of the panes is stated by their ids.
\<close>

section \<open>Removing\<close>

lemma remove_pane_inv:
  assumes inv: "window_inv w"
  shows "returns (remove_pane w k) (\<lambda>(w', r). window_inv w'
    \<and> (r = None \<longrightarrow> w' = w) \<and> (r \<noteq> None \<longleftrightarrow> k \<in> set (map p_index (w_panes w)) \<and> 2 \<le> length (w_panes w))
    \<and> length (w_panes w') = (if r = None then length (w_panes w) else length (w_panes w) - 1))"
proof (cases "length (w_panes w) \<le> 1")
  case True
  then show ?thesis using inv by (simp add: remove_pane_def)
next
  case False
  show ?thesis
  proof (cases "pane_position w k")
    case None
    then have "k \<notin> set (map p_index (w_panes w))" by (auto simp: pane_position_def position_None)
    then show ?thesis using None False inv by (simp add: remove_pane_def extract_pane_def)
  next
    case (Some pos)
    then have pos: "pos < length (w_panes w)" "p_index (w_panes w ! pos) = k"
      using position_Some by (auto simp: pane_position_def)
    then have "k \<in> set (map p_index (w_panes w))" by auto
    moreover have "length (list_remove (map p_id (w_panes w)) pos) = length (w_panes w) - 1"
      using pos(1) by (simp add: list_remove_def)
    moreover obtain w' q where "extract_pane w k = Some (w', Some q)" "window_inv w'"
      "map p_id (w_panes w') = list_remove (map p_id (w_panes w)) pos"
      using extract_pane_inv [OF inv Some] False by (auto elim!: returnsE)
    moreover from this(3) have "length (w_panes w') = length (list_remove (map p_id (w_panes w)) pos)"
      by (metis length_map)
    ultimately show ?thesis using False by (simp add: remove_pane_def del: set_map)
  qed
qed

lemma remove_other_panes_inv:
  assumes inv: "window_inv w" and k: "pane_at w k = Some p"
  shows "returns (remove_other_panes now w k) (\<lambda>(w', r). window_inv w' \<and> map p_id (w_panes w') = [p_id p]
    \<and> r = Some (map p_id (filter (\<lambda>q. p_id q \<noteq> p_id p) (w_panes w)))
    \<and> (1 < length (w_panes w) \<longrightarrow> map p_index (w_panes w') = [0]))"
proof -
  have ids: "distinct (map p_id (w_panes w))" and p: "p \<in> set (w_panes w)"
    using inv k pane_at_Some by (auto simp: window_inv_def ids_inv_def)
  have one: "filter (\<lambda>q. p_id q = p_id p) ps = [r]"
    if "distinct (map p_id ps)" "r \<in> set ps" "p_id r = p_id p" for ps r
    using that by (induction ps) (auto simp: filter_empty_conv image_iff)
  let ?removed = "map p_id (filter (\<lambda>q. p_id q \<noteq> p_id p) (w_panes w))"
  show ?thesis
  proof (cases "?removed = []")
    case True
    then have "w_panes w = [p]" using one [OF ids p] by (metis (mono_tags, lifting) filter_True filter_empty_conv map_is_Nil_conv)
    then show ?thesis
      using select_pane_inv [OF inv, of now k] k True by (auto simp: remove_other_panes_def elim!: returnsE)
  next
    case False
    obtain w1 where w1: "unzoom w = Some w1" "relaid w w1" using unzoom_inv [OF inv] by (auto elim: returnsE)
    have same: "map p_id (w_panes w1) = map p_id (w_panes w)" by (rule same_roster_ids(1) [OF relaid_roster [OF w1(2)]])
    then obtain q where q: "q \<in> set (w_panes w1)" "p_id q = p_id p" using p by (metis imageE imageI set_map)
    have "filter (\<lambda>q. p_id q = p_id p) (w_panes w1) = [q]" using one [of "w_panes w1" q] ids same q by simp
    then show ?thesis
      using False k w1(1) q(2) renumber_single_inv [of "w1\<lparr>w_panes := [q]\<rparr>" q]
      by (auto simp: remove_other_panes_def Let_def elim!: returnsE)
  qed
qed

section \<open>Rotating and swapping\<close>

definition rotated :: "rotate_direction \<Rightarrow> 'a list \<Rightarrow> 'a list" where
  "rotated d xs = (case d of RotateDown \<Rightarrow> last xs # butlast xs | RotateUp \<Rightarrow> tl xs @ [hd xs])"

lemma rotated_same:
  assumes "xs \<noteq> []"
  shows "length (rotated d xs) = length xs" "set (rotated d xs) = set xs" "distinct (rotated d xs) = distinct xs"
    "map f (rotated d xs) = rotated d (map f xs)"
proof -
  obtain a b where ab: "xs = a # b" using assms by (cases xs) auto
  obtain c e where ce: "xs = c @ [e]" using assms by (cases xs rule: rev_cases) auto
  show "length (rotated d xs) = length xs" "set (rotated d xs) = set xs" "distinct (rotated d xs) = distinct xs"
    "map f (rotated d xs) = rotated d (map f xs)"
  proof (atomize (full), cases d)
    case RotateDown
    then show "(length (rotated d xs) = length xs \<and> set (rotated d xs) = set xs)
      \<and> distinct (rotated d xs) = distinct xs \<and> map f (rotated d xs) = rotated d (map f xs)"
      by (auto simp: ce rotated_def)
  next
    case RotateUp
    then show "(length (rotated d xs) = length xs \<and> set (rotated d xs) = set xs)
      \<and> distinct (rotated d xs) = distinct xs \<and> map f (rotated d xs) = rotated d (map f xs)"
      by (auto simp: ab rotated_def)
  qed
qed

lemma rotate_applies:
  assumes inv: "window_inv w"
  obtains w' where "apply_layout_tree (w\<lparr>w_panes := number_panes 0 (rotated d (w_panes w))\<rparr>) = Some w'"
    "tree_inv w'" "ids_inv w'" "map p_id (w_panes w') = rotated d (map p_id (w_panes w))"
    "map p_index (w_panes w') = [0..<length (w_panes w)]" "w_next_pane_index w' = w_next_pane_index w"
proof -
  have ne: "w_panes w \<noteq> []" and len: "length (w_panes w) < u32_max"
    using inv by (auto simp: window_inv_def ids_inv_def)
  let ?w = "w\<lparr>w_panes := number_panes 0 (rotated d (w_panes w))\<rparr>"
  have lens: "length (rotated d (w_panes w)) = length (w_panes w)" using rotated_same(1) [OF ne] .
  have idx: "map p_index (w_panes ?w) = [0..<length (w_panes w)]"
    using number_panes_index [of 0 "rotated d (w_panes w)"] lens len by simp
  have ids: "map p_id (w_panes ?w) = rotated d (map p_id (w_panes w))"
    using number_panes_same(1) [of 0 "rotated d (w_panes w)"] rotated_same(4) [OF ne] by simp
  have "tree_inv ?w" using inv lens number_panes_same(2) by (simp add: window_inv_def tree_inv_def)
  then obtain w' where w': "apply_layout_tree ?w = Some w'" "same_roster ?w w'" "tree_inv w'"
    using apply_layout_tree_returns [of ?w] by (auto elim!: returnsE dest: relaid_roster)
  note same = same_roster_ids [OF w'(2)]
  have "length (w_panes w') = length (w_panes w)" using same(2) lens number_panes_same(2) by simp
  moreover have "distinct (map p_id (w_panes w'))"
    using same(1) ids inv rotated_same(3) [of "map p_id (w_panes w)"] ne by (simp add: window_inv_def ids_inv_def)
  ultimately have "ids_inv w'" using ne len by (auto simp: ids_inv_def)
  then show ?thesis using that w' same(1,3) ids idx by (simp add: same_roster_def)
qed

lemma pop_zoom_ids: "map p_id (w_panes (pop_zoom w)) = map p_id (w_panes w)"
proof -
  have "pane_keys (apply_zoom_geometry v) = pane_keys v" for v
    by (simp add: apply_zoom_geometry_def pane_mut_def pane_keys_def keys_update_first)
  then show ?thesis by (simp add: pop_zoom_def keys_ids Let_def) (simp add: pane_keys_def)
qed

text \<open>A rotation of several panes, step by step.\<close>

lemma rotate_steps:
  assumes inv: "window_inv w" and several: "\<not> length (w_panes w) \<le> 1"
  obtains w1 w3 a l where "push_zoom w restore = Some (w1, w_zoomed w)" "window_inv w1" "same_roster w w1"
    "apply_layout_tree (w1\<lparr>w_panes := number_panes 0 (rotated d (w_panes w1))\<rparr>) = Some w3"
    "map p_id (w_panes w3) = rotated d (map p_id (w_panes w1))"
    "window_inv (w3\<lparr>w_active_pane := a, w_last_pane := l\<rparr>)"
    "rotate_panes_with_zoom now w d restore
       = Some (pop_zoom (mark_pane_active now (w3\<lparr>w_active_pane := a, w_last_pane := l\<rparr>) a))"
proof -
  obtain w1 where w1: "push_zoom w restore = Some (w1, w_zoomed w)" "window_inv w1" "same_roster w w1"
    using push_zoom_inv [OF inv] by (auto elim!: returnsE)
  have len: "length (w_panes w1) < u32_max" and "index_inv w1" using w1(2) by (auto simp: window_inv_def ids_inv_def)
  then obtain p where p: "active_pane w1 = Some p" "p \<in> set (w_panes w1)" "p_index p = w_active_pane w1"
    using active_pane_exists by blast
  then obtain k where k: "position (\<lambda>p. p_index p = w_active_pane w1) (w_panes w1) = Some k" "k < length (w_panes w1)"
    using position_None [of "\<lambda>p. p_index p = w_active_pane w1" "w_panes w1"] position_Some
    by (metis not_None_eq)
  obtain w3 where w3: "apply_layout_tree (w1\<lparr>w_panes := number_panes 0 (rotated d (w_panes w1))\<rparr>) = Some w3"
    "tree_inv w3" "ids_inv w3" "map p_id (w_panes w3) = rotated d (map p_id (w_panes w1))"
    "map p_index (w_panes w3) = [0..<length (w_panes w1)]" "w_next_pane_index w3 = w_next_pane_index w1"
    using rotate_applies [OF w1(2)] .
  let ?w4 = "w3\<lparr>w_active_pane := u32_wrap k\<rparr>"
  define l where "l = (case pane_index_for_id ?w4 (p_id p) of None \<Rightarrow> None | Some l \<Rightarrow> if l \<noteq> w_active_pane ?w4 then Some l else None)"
  have "pane_index_for_id ?w4 i = Some j \<Longrightarrow> j \<in> set (map p_index (w_panes w3))" for i j
    by (auto simp: pane_index_for_id_def find_Some_iff)
  then have l: "pred_option (\<lambda>l. l \<in> set (map p_index (w_panes w3)) \<and> l \<noteq> u32_wrap k) l"
    by (auto simp: l_def split: option.splits)
  have "window_inv (?w4\<lparr>w_last_pane := l\<rparr>)"
    using w3 l k(2) len w1(2)
    by (simp add: window_inv_def tree_inv_def ids_inv_def index_inv_def u32_wrap_id del: set_map)
  moreover have "rotate_panes_with_zoom now w d restore = Some (pop_zoom (mark_pane_active now (?w4\<lparr>w_last_pane := l\<rparr>) (u32_wrap k)))"
    using several w1(1) p(1) k(1) w3(1) l_def [symmetric]
    by (simp add: rotate_panes_with_zoom_def rotated_def [symmetric] Let_def)
  ultimately show ?thesis using that [OF w1 w3(1,4)] by simp
qed

lemma rotate_inv:
  assumes inv: "window_inv w"
  shows "returns (rotate_panes_with_zoom now w d restore) (\<lambda>w'. window_inv w'
    \<and> map p_id (w_panes w') = (if length (w_panes w) \<le> 1 then map p_id (w_panes w) else rotated d (map p_id (w_panes w))))"
proof (cases "length (w_panes w) \<le> 1")
  case True
  then show ?thesis using inv by (simp add: rotate_panes_with_zoom_def)
next
  case False
  obtain w1 w3 a l where "same_roster w w1" and ids: "map p_id (w_panes w3) = rotated d (map p_id (w_panes w1))"
    and w4: "window_inv (w3\<lparr>w_active_pane := a, w_last_pane := l\<rparr>)"
    and run: "rotate_panes_with_zoom now w d restore
       = Some (pop_zoom (mark_pane_active now (w3\<lparr>w_active_pane := a, w_last_pane := l\<rparr>) a))"
    using rotate_steps [OF inv False] by metis
  from pop_zoom_inv [OF mark_pane_active_inv [OF w4]] same_roster_ids(1) [OF this(1)] show ?thesis
    using False run ids by (simp add: pop_zoom_ids mark_active_same)
qed

text \<open>A swap of two different panes.\<close>

lemma swap_two_panes:
  assumes inv: "window_inv w" and ij: "pane_position w a = Some i" "pane_position w b = Some j" "i \<noteq> j"
  shows "returns (swap_panes w a b) (\<lambda>(w', ok). ok \<and> window_inv w' \<and> map p_index (w_panes w') = [0..<length (w_panes w')]
    \<and> map p_id (w_panes w') = (map p_id (w_panes w))[i := map p_id (w_panes w) ! j, j := map p_id (w_panes w) ! i]
    \<and> map_option p_id (active_pane w') = map_option p_id (active_pane w))"
proof -
  have at: "i < length (w_panes w)" "j < length (w_panes w)"
    using ij position_Some by (auto simp: pane_position_def)
  obtain w1 where w1: "unzoom w = Some w1" "relaid w w1" "window_inv w1"
    using unzoom_inv [OF inv] by (auto elim: returnsE)
  note same = same_roster_ids [OF relaid_roster [OF w1(2)]]
  let ?ps = "w_panes w1"
  let ?qs = "?ps[i := ?ps ! j, j := ?ps ! i]"
  let ?w2 = "w1\<lparr>w_panes := ?qs\<rparr>"
  have at1: "i < length ?ps" "j < length ?ps" using at same(2) by simp_all
  have tree: "tree_inv ?w2" using w1(3) by (simp add: window_inv_def tree_inv_def)
  then obtain w3 where w3: "apply_layout_tree ?w2 = Some w3" "same_roster ?w2 w3" "tree_inv w3"
    using apply_layout_tree_returns [of ?w2] by (auto elim!: returnsE dest: relaid_roster)
  have qs: "map p_id ?qs = (map p_id ?ps)[i := map p_id ?ps ! j, j := map p_id ?ps ! i]"
    using at1 by (simp add: map_update)
  then have "distinct (map p_id ?qs) = distinct (map p_id ?ps)" and perm: "set (map p_id ?qs) = set (map p_id ?ps)"
    using distinct_swap [of i "map p_id ?ps" j] set_swap [of i "map p_id ?ps" j] at1 by (simp_all only: length_map)
  then have ids: "ids_inv ?w2" using w1(3) by (auto simp: window_inv_def ids_inv_def)
  obtain a' where a': "map_option p_id (active_pane w1) = Some a'" "a' \<in> set (map p_id ?ps)"
    using active_id [OF w1(3)] .
  have same3: "map p_id (w_panes w3) = map p_id ?qs" using same_roster_ids(1) [OF w3(2)] by simp
  then have "a' \<in> set (map p_id (w_panes w3))" using a'(2) perm by simp
  then obtain w4 where "renumber_panes_by_position w3 a' (last_pane_id w1) = Some w4" "window_inv w4"
    "map_option p_id (active_pane w4) = Some a'" "map p_id (w_panes w4) = map p_id (w_panes w3)"
    "map p_index (w_panes w4) = [0..<length (w_panes w4)]"
    using renumber_window_inv [OF ids_inv_frame [OF ids same_roster_keys [OF w3(2)]] w3(3), of a' "last_pane_id w1"]
    by (auto elim!: returnsE simp del: set_map map_option_eq_Some)
  moreover obtain p where "active_pane w1 = Some p" "p_id p = a'" using a'(1) by auto
  ultimately show ?thesis
    using ij w1(1) w3(1) a'(1) roster_active(1) [OF relaid_roster [OF w1(2)]] same(1) same3 qs
    by (simp add: swap_panes_def Let_def del: set_map map_option_eq_Some)
qed

lemma swap_panes_inv:
  assumes inv: "window_inv w"
  shows "returns (swap_panes w a b) (\<lambda>(w', ok). window_inv w'
    \<and> (ok \<longleftrightarrow> a \<in> set (map p_index (w_panes w)) \<and> b \<in> set (map p_index (w_panes w)))
    \<and> map_option p_id (active_pane w') = map_option p_id (active_pane w))"
proof (cases "pane_position w a \<noteq> None \<and> pane_position w b \<noteq> None \<and> pane_position w a \<noteq> pane_position w b")
  case False
  then show ?thesis using inv position_None [of "\<lambda>p. p_index p = a" "w_panes w"] position_None [of "\<lambda>p. p_index p = b" "w_panes w"]
    by (auto simp: swap_panes_def pane_position_def split: option.splits)
next
  case True
  then obtain i j where ij: "pane_position w a = Some i" "pane_position w b = Some j" "i \<noteq> j" by auto
  then have at: "i < length (w_panes w)" "p_index (w_panes w ! i) = a" "j < length (w_panes w)" "p_index (w_panes w ! j) = b"
    using position_Some by (auto simp: pane_position_def)
  then have "a \<in> set (map p_index (w_panes w))" "b \<in> set (map p_index (w_panes w))" by force+
  then show ?thesis using swap_two_panes [OF inv ij] by (auto elim!: returnsE simp del: set_map)
qed

section \<open>Inserting and moving\<close>

lemma fold_checks:
  "fold (\<lambda>x r. res_bind r (\<lambda>_. f x)) xs (Inr ()) = Inr () \<longleftrightarrow> (\<forall>x \<in> set xs. f x = Inr ())"
proof -
  have stop: "fold (\<lambda>x r. res_bind r (\<lambda>_. f x)) xs (Inl e) = Inl e" for xs e by (induction xs) simp_all
  show ?thesis
  proof (induction xs)
    case (Cons x xs)
    then show ?case by (cases "f x") (simp_all add: stop)
  qed simp
qed

lemma ensure_accepts_iff:
  "ensure_accepts_pane w p None = Inr () \<longleftrightarrow>
     p_id p \<notin> set (map p_id (w_panes w)) \<and> p_index p \<notin> set (map p_index (w_panes w))"
proof -
  let ?f = "\<lambda>(i, q). if Some i = None then Inr ()
    else if p_id q = p_id p then Inl (Server (''pane id '' @ decimal (p_id p) @ '' already exists in window '' @ window_label w))
    else if p_index q = p_index p then Inl (Server (''pane index '' @ decimal (p_index p) @ '' already exists in window '' @ window_label w))
    else Inr ()"
  have e1: "ensure_accepts_pane w p None
      = fold (\<lambda>x r. res_bind r (\<lambda>_. ?f x)) (zip [0..<length (w_panes w)] (w_panes w)) (Inr ())"
    by (simp add: ensure_accepts_pane_def case_prod_beta')
  have "(\<forall>x \<in> set (zip [0..<length (w_panes w)] (w_panes w)). Q (snd x)) \<longleftrightarrow> (\<forall>q \<in> set (w_panes w). Q q)" for Q
    by (force simp: set_zip in_set_conv_nth)
  from this [of "\<lambda>q. p_id q \<noteq> p_id p \<and> p_index q \<noteq> p_index p"]
  have e2: "(\<forall>x \<in> set (zip [0..<length (w_panes w)] (w_panes w)). ?f x = Inr ())
      \<longleftrightarrow> (\<forall>q \<in> set (w_panes w). p_id q \<noteq> p_id p \<and> p_index q \<noteq> p_index p)"
    by (auto split: if_splits)
  show ?thesis unfolding e1 fold_checks e2 by (auto simp: image_iff)
qed

lemma inserted_inv:
  fixes l k
  assumes inv: "window_inv w" and ok: "ensure_accepts_pane w p None = Inr ()"
    and idx: "Suc (p_index p) < u32_max" and room: "Suc (length (w_panes w)) < u32_max"
  defines "w' \<equiv> bump_next_pane_index (w\<lparr>w_layout := l\<rparr>) (p_index p)\<lparr>w_panes := list_insert (w_panes w) k p\<rparr>"
  shows "ids_inv w'" "index_inv w'"
proof -
  note fresh = ok [unfolded ensure_accepts_iff]
  show "ids_inv w'"
    using inv fresh room
    by (auto simp: w'_def ids_inv_def window_inv_def bump_next_pane_index_def map_list_insert distinct_list_insert
        simp del: set_map)
  have "u32_sat_add (p_index p) 1 < u32_max" using idx by (simp add: machine_defs)
  then show "index_inv w'"
    using inv fresh
    by (auto simp: w'_def index_inv_def window_inv_def bump_next_pane_index_def map_list_insert distinct_list_insert
        set_list_insert simp del: set_map elim: option.pred_mono_strong)
qed

lemma unzoom_accepts:
  assumes inv: "window_inv w" and ok: "ensure_accepts_pane w p None = Inr ()"
  obtains w1 t where "unzoom w = Some w1" "window_inv w1" "same_roster w w1" "ensure_accepts_pane w1 p None = Inr ()"
    "w_layout_tree w1 = Some t" "fits_panes t (length (w_panes w1))"
proof -
  obtain w1 where w1: "unzoom w = Some w1" "relaid w w1" "window_inv w1"
    using unzoom_inv [OF inv] by (auto elim: returnsE)
  have roster: "same_roster w w1" by (rule relaid_roster [OF w1(2)])
  have "ensure_accepts_pane w1 p None = Inr ()"
    using ok same_roster_ids(1,3) [OF roster] by (simp add: ensure_accepts_iff del: set_map)
  then show ?thesis using that w1 roster by (auto simp: window_inv_def tree_inv_def)
qed

lemma insert_pane_inv:
  assumes inv: "window_inv w" and idx: "Suc (p_index p) < u32_max" and room: "Suc (length (w_panes w)) < u32_max"
  shows "returns (insert_pane_at_position w pos p d) (\<lambda>(w', r). window_inv w'
    \<and> (r = Inr () \<longleftrightarrow> pos \<le> length (w_panes w) \<and> p_id p \<notin> set (map p_id (w_panes w))
          \<and> p_index p \<notin> set (map p_index (w_panes w)))
    \<and> (if r = Inr () then map p_id (w_panes w') = list_insert (map p_id (w_panes w)) pos (p_id p) else w' = w))"
proof (cases "pos \<le> length (w_panes w) \<and> ensure_accepts_pane w p None = Inr ()")
  case False
  then show ?thesis
    using inv ensure_accepts_iff [of w p]
    by (cases "ensure_accepts_pane w p None") (auto simp: insert_pane_at_position_def simp del: set_map)
next
  case True
  obtain w1 t where w1: "unzoom w = Some w1" "window_inv w1" "same_roster w w1" "ensure_accepts_pane w1 p None = Inr ()"
    "w_layout_tree w1 = Some t" "fits_panes t (length (w_panes w1))"
    using unzoom_accepts [OF inv] True by blast
  note same = same_roster_ids [OF w1(3)]
  let ?w3 = "bump_next_pane_index (w1\<lparr>w_layout := layout_for_split d\<rparr>) (p_index p)\<lparr>w_panes := list_insert (w_panes w1) pos p\<rparr>"
  have w3: "ids_inv ?w3" "index_inv ?w3"
    using inserted_inv [OF w1(2,4) idx] room same(2) by simp_all
  have len: "length (list_insert (w_panes w1) pos p) \<noteq> 1" using inv same(2) by (auto simp: window_inv_def ids_inv_def)
  obtain leaf before where lb: "(if pos = 0 then (0, True) else (pos - 1, False)) = (leaf, before)" by fastforce
  obtain w4 where w4: "apply_or_rebuild (with_tree ?w3 (\<lambda>t. split_leaf t leaf (from_split_direction d) before)) = Some w4"
    "same_roster ?w3 w4" "tree_inv w4"
    using split_op.apply_or_rebuild_returns [of ?w3 t "length (w_panes w1)" leaf "from_split_direction d" before] w1(5,6)
    by (auto simp: bump_next_pane_index_def elim: returnsE)
  have "window_inv w4"
    using w3 w4(3) ids_inv_frame [OF _ same_roster_keys [OF w4(2)]] index_inv_frame [OF _ same_roster_keys [OF w4(2)]]
      w4(2) by (simp add: window_inv_def same_roster_def)
  moreover have "map p_id (w_panes w4) = list_insert (map p_id (w_panes w)) pos (p_id p)"
    using same_roster_ids(1) [OF w4(2)] same(1) by (simp add: map_list_insert)
  moreover have "insert_pane_at_position w pos p d = Some (w4, Inr ())"
    using True w1(1) w4(1) lb len by (simp add: insert_pane_at_position_def bump_next_pane_index_def Let_def)
  ultimately show ?thesis using True ensure_accepts_iff [of w p] by (simp del: set_map)
qed

lemma insert_full_inv:
  assumes inv: "window_inv w" and idx: "Suc (p_index p) < u32_max" and room: "Suc (length (w_panes w)) < u32_max"
  shows "returns (insert_pane_full_size w p d ahead) (\<lambda>(w', r). window_inv w'
    \<and> (r = Inr () \<longleftrightarrow> p_id p \<notin> set (map p_id (w_panes w)) \<and> p_index p \<notin> set (map p_index (w_panes w)))
    \<and> (if r = Inr () then map p_id (w_panes w') = (if ahead then p_id p # map p_id (w_panes w) else map p_id (w_panes w) @ [p_id p])
       else w' = w))"
proof (cases "ensure_accepts_pane w p None = Inr ()")
  case False
  then show ?thesis
    using inv ensure_accepts_iff [of w p]
    by (cases "ensure_accepts_pane w p None") (auto simp: insert_pane_full_size_def simp del: set_map)
next
  case True
  obtain w1 t where w1: "unzoom w = Some w1" "window_inv w1" "same_roster w w1" "ensure_accepts_pane w1 p None = Inr ()"
    "w_layout_tree w1 = Some t" "fits_panes t (length (w_panes w1))"
    using unzoom_accepts [OF inv True] by blast
  note same = same_roster_ids [OF w1(3)]
  define k where "k = (if ahead then 0 else length (w_panes w1))"
  have at: "(if ahead then p # w_panes w1 else w_panes w1 @ [p]) = list_insert (w_panes w1) k p"
    by (simp add: k_def list_insert_def)
  let ?w3 = "bump_next_pane_index (w1\<lparr>w_layout := layout_for_split d\<rparr>) (p_index p)\<lparr>w_panes := list_insert (w_panes w1) k p\<rparr>"
  have w3: "ids_inv ?w3" "index_inv ?w3"
    using inserted_inv [OF w1(2,4) idx] room same(2) by simp_all
  obtain w4 where w4: "apply_or_rebuild (with_tree ?w3 (\<lambda>t. split_root t (from_split_direction d) ahead)) = Some w4"
    "same_roster ?w3 w4" "tree_inv w4"
    using split_root_op.apply_or_rebuild_returns [of ?w3 t "length (w_panes w1)" "from_split_direction d" ahead] w1(5,6)
    by (auto simp: bump_next_pane_index_def elim: returnsE)
  have "window_inv w4"
    using w3 w4(3) ids_inv_frame [OF _ same_roster_keys [OF w4(2)]] index_inv_frame [OF _ same_roster_keys [OF w4(2)]]
      w4(2) by (simp add: window_inv_def same_roster_def)
  moreover have "map p_id (w_panes w4) = map p_id (if ahead then p # w_panes w1 else w_panes w1 @ [p])"
    using same_roster_ids(1) [OF w4(2)] at by simp
  moreover have "insert_pane_full_size w p d ahead = Some (w4, Inr ())"
    using True w1(1) w4(1) at by (cases ahead) (simp_all add: insert_pane_full_size_def bump_next_pane_index_def Let_def)
  ultimately show ?thesis using True ensure_accepts_iff [of w p] same(1) by (simp del: set_map)
qed

text \<open>After the split there are at least two cells, so the source cell can always be removed.\<close>

lemma remove_leaf_succeeds:
  assumes i: "i < leaf_count (lt_root t)" and two: "2 \<le> leaf_count (lt_root t)"
  shows "\<exists>t'. remove_leaf t i = (t', True)"
proof -
  let ?p = "leaf_paths t ! i"
  have p: "list_get (leaf_paths t) i = Some ?p" using i by (simp add: leaf_paths_def length_leaf_paths)
  have leaf: "cell_at_path (lt_root t) ?p = Some (Pane (collect_leaf_geometries (lt_root t) ! i))"
    using i by (simp add: leaf_paths_def leaf_path_nth)
  have ne: "?p \<noteq> []"
  proof
    assume "?p = []"
    with leaf have "lt_root t = Pane (collect_leaf_geometries (lt_root t) ! i)" by simp
    then have "leaf_count (lt_root t) = 1" by (metis leaf_count.simps(1))
    with two show False by simp
  qed
  obtain g d cs where "cell_at_path (lt_root t) (butlast ?p) = Some (Split g d cs)" "last ?p < length cs"
    "cs ! last ?p = Pane (collect_leaf_geometries (lt_root t) ! i)"
    using leaf_parent [OF i _ ne] by (auto simp: leaf_paths_def)
  then show ?thesis using p ne by (simp add: remove_leaf_def)
qed

lemma moved_roster:
  fixes k
  assumes inv: "window_inv w" and i: "i < length (w_panes w)"
  defines "ps \<equiv> list_insert (list_remove (w_panes w) i) k (w_panes w ! i)"
  shows "distinct (map p_id ps)" "distinct (map p_index ps)" "set (map p_index ps) = set (map p_index (w_panes w))"
    "length ps = length (w_panes w)" "ps \<noteq> []" "length ps < u32_max"
proof -
  have d: "distinct (map p_id (w_panes w))" "distinct (map p_index (w_panes w))" "length (w_panes w) < u32_max"
    using inv by (simp_all add: window_inv_def ids_inv_def index_inv_def)
  note ids = keyed_list_remove [OF d(1) i] and idx = keyed_list_remove [OF d(2) i]
  show "distinct (map p_id ps)" "distinct (map p_index ps)"
    using ids idx by (simp_all add: ps_def map_list_insert distinct_list_insert)
  show "set (map p_index ps) = set (map p_index (w_panes w))"
    using idx(1) i by (auto simp: ps_def map_list_insert set_list_insert)
  show "length ps = length (w_panes w)" using ids(2) i by (simp add: ps_def)
  then show "ps \<noteq> []" "length ps < u32_max" using i d(3) by auto
qed

text \<open>A move within range either fails at the split or runs through.\<close>

lemma move_steps:
  assumes inv: "window_inv w" and range: "src < length (w_panes w)" "tgt < length (w_panes w)" "k \<le> length (w_panes w) - 1"
  obtains (refused) w1 t e where "unzoom w = Some w1" "relaid w w1" "window_inv w1" "w_layout_tree w1 = Some t"
      "move_pane_by_splitting_target w src tgt k d b = Some (w1\<lparr>w_layout := layout_for_split d, w_layout_tree := Some t\<rparr>, Inl e)"
    | (moved) w1 t t1 t2 m w4 where "unzoom w = Some w1" "relaid w w1" "window_inv w1" "w_layout_tree w1 = Some t"
      "split_leaf t tgt (from_split_direction d) b = (t1, True)" "remove_leaf t1 m = (t2, True)"
      "fits_panes t2 (length (w_panes w1))"
      "apply_layout_tree (w1\<lparr>w_layout := layout_for_split d, w_layout_tree := Some t2,
         w_panes := list_insert (list_remove (w_panes w1) src) k (w_panes w1 ! src)\<rparr>) = Some w4"
      "move_pane_by_splitting_target w src tgt k d b = Some (w4, Inr (p_id (w_panes w1 ! src)))"
proof -
  obtain w1 where w1: "unzoom w = Some w1" "relaid w w1" "window_inv w1"
    using unzoom_inv [OF inv] by (auto elim: returnsE)
  have len: "length (w_panes w1) = length (w_panes w)" by (rule relaid_same(2) [OF w1(2)])
  obtain t where t: "w_layout_tree w1 = Some t" "fits_panes t (length (w_panes w1))"
    using w1(3) by (auto simp: window_inv_def tree_inv_def)
  let ?w2 = "w1\<lparr>w_layout := layout_for_split d\<rparr>"
  let ?s = "if (if b then tgt else tgt + 1) \<le> src then src + 1 else src"
  obtain t1 ok where split: "split_leaf t tgt (from_split_direction d) b = (t1, ok)" by fastforce
  show ?thesis
  proof (cases ok)
    case False
    then have "t1 = t" using split split_leaf_False [of t tgt "from_split_direction d" b t1] by simp
    then show ?thesis
      using refused [OF w1 t(1)] range w1(1) t(1) split False by (simp add: move_pane_by_splitting_target_def Let_def)
  next
    case ok: True
    have fits: "fits_panes t1 (Suc (length (w_panes w1)))" using split_op.run_fits [OF t(2) split] ok by simp
    have "?s < leaf_count (lt_root t1)" "2 \<le> leaf_count (lt_root t1)"
      using fits range len by (auto simp: fits_panes_def tree_leaf_count_def)
    then obtain t2 where rem: "remove_leaf t1 ?s = (t2, True)" using remove_leaf_succeeds by blast
    let ?w3 = "?w2\<lparr>w_layout_tree := Some t2, w_panes := list_insert (list_remove (w_panes w1) src) k (w_panes w1 ! src)\<rparr>"
    have fits2: "fits_panes t2 (length (w_panes w1))" using remove_op.run_fits [OF fits rem] by simp
    moreover have "length (w_panes ?w3) = length (w_panes w1)" using range len by (simp add: list_remove_def)
    ultimately have "tree_inv ?w3" by (simp add: tree_inv_def)
    then obtain w4 where "apply_layout_tree ?w3 = Some w4"
      using apply_layout_tree_returns [of ?w3] by (auto elim!: returnsE)
    with moved [OF w1 t(1) _ rem fits2] show ?thesis
      using range w1(1) t(1) split ok rem len by (simp add: move_pane_by_splitting_target_def list_get_def Let_def)
  qed
qed

lemma moved_inv:
  assumes inv: "window_inv w1" and src: "src < length (w_panes w1)" and t2: "fits_panes t2 (length (w_panes w1))"
    and run: "apply_layout_tree (w1\<lparr>w_layout := l, w_layout_tree := Some t2,
         w_panes := list_insert (list_remove (w_panes w1) src) k (w_panes w1 ! src)\<rparr>) = Some w4"
  shows "window_inv w4"
    and "map p_id (w_panes w4) = list_insert (list_remove (map p_id (w_panes w1)) src) k (p_id (w_panes w1 ! src))"
proof -
  let ?w3 = "w1\<lparr>w_layout := l, w_layout_tree := Some t2,
    w_panes := list_insert (list_remove (w_panes w1) src) k (w_panes w1 ! src)\<rparr>"
  have "length (w_panes ?w3) = length (w_panes w1)" using src by (simp add: list_remove_def)
  then have "tree_inv ?w3" using t2 by (simp add: tree_inv_def)
  then have w4: "same_roster ?w3 w4" "tree_inv w4"
    using apply_layout_tree_returns [of ?w3] run by (auto dest: relaid_roster)
  have inv3: "ids_inv ?w3" "index_inv ?w3"
    using moved_roster [OF inv src, of k] inv by (simp_all add: window_inv_def ids_inv_def index_inv_def)
  show "window_inv w4"
    using inv3 w4(2) ids_inv_frame [OF _ same_roster_keys [OF w4(1)]] index_inv_frame [OF _ same_roster_keys [OF w4(1)]]
      w4(1) by (simp add: window_inv_def same_roster_def)
  show "map p_id (w_panes w4) = list_insert (list_remove (map p_id (w_panes w1)) src) k (p_id (w_panes w1 ! src))"
    using same_roster_ids(1) [OF w4(1)] by (simp add: map_list_insert map_list_remove)
qed

lemma move_pane_inv:
  assumes inv: "window_inv w"
  shows "returns (move_pane_by_splitting_target w src tgt k d b) (\<lambda>(w', r). window_inv w'
    \<and> (case r of Inl _ \<Rightarrow> same_roster w w'
       | Inr i \<Rightarrow> src < length (w_panes w) \<and> i = p_id (w_panes w ! src)
           \<and> map p_id (w_panes w') = list_insert (list_remove (map p_id (w_panes w)) src) k i))"
proof (cases "src < length (w_panes w) \<and> tgt < length (w_panes w) \<and> k \<le> length (w_panes w) - 1")
  case False
  then show ?thesis using inv by (auto simp: move_pane_by_splitting_target_def Let_def)
next
  case True
  then have range: "src < length (w_panes w)" "tgt < length (w_panes w)" "k \<le> length (w_panes w) - 1" by simp_all
  from inv range show ?thesis
  proof (cases rule: move_steps [where d = d and b = b])
    case (refused w1 t e)
    let ?w = "w1\<lparr>w_layout := layout_for_split d, w_layout_tree := Some t\<rparr>"
    have "same_roster w ?w" using relaid_roster [OF refused(2)] by (simp add: same_roster_def)
    moreover have "tree_inv ?w" using refused(3,4) by (simp add: window_inv_def tree_inv_def)
    ultimately show ?thesis using window_inv_roster [OF inv, of ?w] refused(5) by simp
  next
    case (moved w1 t t1 t2 m w4)
    note same = same_roster_ids [OF relaid_roster [OF moved(2)]]
    have src: "src < length (w_panes w1)" using range same(2) by simp
    have "p_id (w_panes w1 ! src) = p_id (w_panes w ! src)" using same(1,2) range by (metis nth_map)
    then show ?thesis using moved_inv [OF moved(3) src moved(7,8)] moved(9) same(1) range(1) by simp
  qed
qed

end
