(* ===== verification/Window_Layout_Inv.thy ===== *)
theory Window_Layout_Inv
  imports Window_Moves_Inv
begin

text \<open>
  Creating a window, changing its size and all layout operations keep the invariant of a window
  and the roster of its panes.
\<close>

lemma returns_bind_Some [simp]: "returns (Option.bind r (\<lambda>x. Some (f x))) P \<longleftrightarrow> returns r (\<lambda>x. P (f x))"
  by (cases r) simp_all

abbreviation keeps_roster :: "window \<Rightarrow> window \<Rightarrow> bool" where
  "keeps_roster w w' \<equiv> window_inv w' \<and> same_roster w w'"

lemma rebuild_named_inv: "window_inv w \<Longrightarrow> returns (rebuild_named_layout_tree w l) (keeps_roster w)"
proof -
  assume inv: "window_inv w"
  then have ne: "w_panes w \<noteq> []" by (simp add: window_inv_def ids_inv_def)
  let ?t = "named l (length (w_panes w)) (w_size w) (window_options w)"
  let ?w = "w\<lparr>w_size := tree_size ?t, w_layout_tree := Some ?t, w_custom_layout := False,
    w_panes := laid_out ?t (w_panes w)\<rparr>"
  have roster: "same_roster w ?w" by (simp add: same_roster_def)
  have "fits_panes ?t (length (w_panes w))" using ne by (intro fits_named) (simp add: Suc_leI)
  then have "tree_inv ?w" by (simp add: tree_inv_def)
  then show ?thesis using window_inv_roster [OF inv roster] roster rebuild_named_eq [OF ne, of l] by simp
qed

lemma new_window_inv: "returns (new_with_initial_pane now sz i wid) window_inv"
proof -
  let ?w = "\<lparr>w_id = wid, w_panes = [pane_new_with_id now i 0 (full_rect sz)], w_next_pane_index = 1,
        w_active_pane = 0, w_last_pane = None, w_layout = MainVertical, w_last_layout = None,
        w_layout_tree = Some (single sz), w_custom_layout = False, w_old_layout = None, w_size = sz,
        w_name = None, w_automatic_rename = True, w_zoomed = False, w_zoom_restore_pending = False,
        w_alert_flags = 0, w_alerts_queued = False, w_created_at = now, w_activity_at = now,
        w_requested_main_width = None, w_requested_main_height = None\<rparr>"
  have inv: "window_inv ?w"
    by (simp add: window_inv_def tree_inv_def ids_inv_def index_inv_def pane_new_with_id_def machine_defs)
  then have "tree_inv ?w" by (simp add: window_inv_def)
  from returns_mono [OF recalculate_geometry_returns [OF this]] window_inv_relaid [OF inv]
  show ?thesis by (simp add: new_with_initial_pane_def)
qed

lemma respawn_inv: "window_inv (fst (respawn now w i))"
  by (simp add: respawn_def window_inv_def tree_inv_def ids_inv_def index_inv_def pane_new_with_id_def machine_defs)

lemma set_size_inv: "window_inv w \<Longrightarrow> returns (set_size w sz) window_inv"
proof -
  assume inv: "window_inv w"
  let ?w = "w\<lparr>w_size := sz\<rparr>"
  have inv': "window_inv ?w" using inv by (simp add: window_inv_def tree_inv_def ids_inv_def index_inv_def)
  then have "tree_inv ?w" by (simp add: window_inv_def)
  then obtain w' where "recalculate_geometry ?w = Some w'" "window_inv w'"
    using recalculate_geometry_returns [of ?w] window_inv_relaid [OF inv'] by (auto elim!: returnsE)
  then show ?thesis by (simp add: set_size_def apply_zoom_geometry_inv)
qed

lemma set_layout_inv: "window_inv w \<Longrightarrow> returns (set_layout_with_main_pane_size w l mw mh) (keeps_roster w)"
proof -
  assume inv: "window_inv w"
  obtain w1 where w1: "unzoom w = Some w1" "relaid w w1" "window_inv w1"
    using unzoom_inv [OF inv] by (auto elim: returnsE)
  let ?w = "w1\<lparr>w_layout := l, w_last_layout := Some l, w_requested_main_width := mw, w_requested_main_height := mh\<rparr>"
  have "window_inv ?w" using w1(3) by (simp add: window_inv_fields)
  moreover have "same_roster w ?w" using relaid_roster [OF w1(2)] by (simp add: same_roster_def)
  ultimately show ?thesis
    using rebuild_named_inv [of ?w l] w1(1)
    by (auto simp: set_layout_with_main_pane_size_def elim!: returnsE intro: same_roster_trans)
qed

section \<open>Cycling through the layouts\<close>

lemma cycle_position_exists: "\<exists>i. cycle_position l = Some i \<and> i < length LAYOUT_CYCLE \<and> LAYOUT_CYCLE ! i = unmirrored l"
  by (cases l) (simp_all add: cycle_position_def unmirrored_def LAYOUT_CYCLE_def)

lemma next_cycle_total: "\<exists>l. next_cycle_layout o1 = Some l"
proof (cases o1)
  case (Some l)
  then show ?thesis
    by (cases l) (simp_all add: next_cycle_layout_def cycle_position_def unmirrored_def LAYOUT_CYCLE_def list_get_def)
qed (simp add: next_cycle_layout_def LAYOUT_CYCLE_def list_get_def)

lemma previous_cycle_total: "\<exists>l. previous_cycle_layout o1 = Some l"
proof (cases o1)
  case (Some l)
  then show ?thesis
    by (cases l) (simp_all add: previous_cycle_layout_def cycle_position_def unmirrored_def LAYOUT_CYCLE_def list_get_def)
qed (simp add: previous_cycle_layout_def)

lemma next_layout_inv: "window_inv w \<Longrightarrow> returns (next_layout_with_main_pane_size w mw mh) (\<lambda>(w', l). keeps_roster w w')"
  using next_cycle_total [of "w_last_layout w"] set_layout_inv [of w]
  by (auto simp: next_layout_with_main_pane_size_def elim!: returnsE)

lemma previous_layout_inv: "window_inv w \<Longrightarrow> returns (previous_layout_with_main_pane_size w mw mh) (\<lambda>(w', l). keeps_roster w w')"
  using previous_cycle_total [of "w_last_layout w"] set_layout_inv [of w]
  by (auto simp: previous_layout_with_main_pane_size_def elim!: returnsE)

section \<open>Resizing\<close>

text \<open>An operation on the tree that keeps the number of cells, followed by applying the tree.\<close>

context tree_op
begin

lemma with_tree_apply:
  assumes inv: "window_inv w" and same: "grown (length (w_panes w)) = length (w_panes w)"
    and run: "with_tree w run = (w1, ok)" and w2: "same_roster w1 w2" "w_layout_tree w2 = w_layout_tree w1"
  shows "keeps_roster w w1" "keeps_roster w w2" "returns (apply_layout_tree w2) (keeps_roster w)"
proof -
  have tree: "tree_inv w" using inv by (simp add: window_inv_def)
  then have w1: "same_roster w w1" "tree_inv w1" using with_tree_returns [OF tree same run] by simp_all
  then show "keeps_roster w w1" using window_inv_roster [OF inv] by simp
  have t2: "tree_inv w2" using w1(2) w2 same_roster_ids(2) [OF w2(1)] by (simp add: tree_inv_def)
  have r2: "same_roster w w2" using w1(1) w2(1) by (rule same_roster_trans)
  then show "keeps_roster w w2" using window_inv_roster [OF inv] t2 by simp
  show "returns (apply_layout_tree w2) (keeps_roster w)"
  proof (rule returns_mono [OF apply_layout_tree_returns [OF t2]])
    fix w3 assume "relaid w2 w3 \<and> tree_inv w3"
    then show "keeps_roster w w3"
      using window_inv_roster [OF inv] same_roster_trans [OF r2 relaid_roster] by blast
  qed
qed

end

lemma resize_tree_main_inv:
  assumes inv: "window_inv w"
  shows "returns (resize_tree_main w d n) (keeps_roster w)"
proof -
  obtain w1 ok where run: "with_tree w (\<lambda>t. tree_resize_pane_to t 0 d n) = (w1, ok)" by fastforce
  from resize_to_op.with_tree_apply [OF inv refl run same_roster_refl refl] show ?thesis
    using run by (simp add: resize_tree_main_def)
qed

lemma unzoomed_inv:
  assumes "window_inv w"
  obtains w1 where "unzoom w = Some w1" "window_inv w1" "same_roster w w1"
  using unzoom_inv [OF assms] by (auto elim!: returnsE dest: relaid_roster)

lemma keeps_roster_trans: "keeps_roster w w1 \<Longrightarrow> keeps_roster w1 w2 \<Longrightarrow> keeps_roster w w2"
  using same_roster_trans by blast

lemma resize_main_width_inv: "window_inv w \<Longrightarrow> returns (resize_main_width w n) (keeps_roster w)"
proof -
  assume "window_inv w"
  then obtain w1 where w1: "unzoom w = Some w1" "window_inv w1" "same_roster w w1" by (rule unzoomed_inv)
  let ?w = "w1\<lparr>w_requested_main_width := Some n\<rparr>"
  have w: "window_inv ?w" "same_roster w1 ?w" using w1(2) by (simp_all add: window_inv_fields same_roster_def)
  show ?thesis
    using w1(1) returns_mono [OF resize_tree_main_inv [OF w1(2)]] returns_mono [OF rebuild_named_inv [OF w(1)]]
      same_roster_trans [OF w1(3)] same_roster_trans [OF w(2)] by (simp add: resize_main_width_def)
qed

lemma resize_main_height_inv: "window_inv w \<Longrightarrow> returns (resize_main_height w n) (keeps_roster w)"
proof -
  assume "window_inv w"
  then obtain w1 where w1: "unzoom w = Some w1" "window_inv w1" "same_roster w w1" by (rule unzoomed_inv)
  let ?w = "w1\<lparr>w_requested_main_height := Some n\<rparr>"
  have w: "window_inv ?w" "same_roster w1 ?w" using w1(2) by (simp_all add: window_inv_fields same_roster_def)
  show ?thesis
    using w1(1) returns_mono [OF resize_tree_main_inv [OF w1(2)]] returns_mono [OF rebuild_named_inv [OF w(1)]]
      same_roster_trans [OF w1(3)] same_roster_trans [OF w(2)] by (simp add: resize_main_height_def)
qed

lemma resize_main_directional_inv: "window_inv w \<Longrightarrow> returns (resize_main_directional w d n) (keeps_roster w)"
  by (cases d) (simp_all add: resize_main_height_inv resize_main_width_inv)

lemma if_given_inv:
  "window_inv w \<Longrightarrow> (\<And>a w. window_inv w \<Longrightarrow> returns (f a w) (keeps_roster w)) \<Longrightarrow> returns (if_given g f w) (keeps_roster w)"
  by (cases g) (simp_all add: if_given_def)

lemma keeps_roster_bind:
  "returns r (keeps_roster w) \<Longrightarrow> (\<And>v. window_inv v \<Longrightarrow> returns (f v) (keeps_roster v)) \<Longrightarrow>
     returns (Option.bind r f) (keeps_roster w)"
  by (erule returns_bind) (blast intro: returns_mono same_roster_trans)

lemma resize_main_pane_inv: "window_inv w \<Longrightarrow> returns (resize_main_pane now w adj) window_inv"
proof -
  assume inv: "window_inv w"
  have mono: "returns r (keeps_roster w) \<Longrightarrow> returns r window_inv" for r by (erule returns_mono) simp
  have zoom: "returns (map_option fst (toggle_zoom now w (w_active_pane w))) window_inv"
    using toggle_zoom_inv [OF inv, of now "w_active_pane w"] by (auto elim!: returns_mono)
  have size: "returns (do { w1 \<leftarrow> resize_main_width w c; resize_main_height w1 n }) (keeps_roster w)" for c n
    by (intro keeps_roster_bind resize_main_width_inv resize_main_height_inv inv)
  have composite: "returns (do {
            w1 \<leftarrow> if_given c (\<lambda>c w. resize_main_width w c) w;
            w2 \<leftarrow> if_given n (\<lambda>r w. resize_main_height w r) w1;
            if_given rel (\<lambda>d w. resize_main_directional w d cells) w2 }) (keeps_roster w)" for c n rel cells
    by (intro keeps_roster_bind if_given_inv resize_main_width_inv resize_main_height_inv resize_main_directional_inv inv)
  show ?thesis
    using inv mono [OF size] mono [OF composite] mono [OF resize_main_directional_inv [OF inv]] zoom
      mono [OF resize_main_width_inv [OF inv]] mono [OF resize_main_height_inv [OF inv]]
    by (cases adj) (simp_all add: resize_main_pane_def)
qed

text \<open>The shape of the resize operations: run on the tree, and apply the tree when something moved.\<close>

context tree_op
begin

lemma resize_shape:
  assumes inv: "window_inv w" and same: "\<And>n. grown n = n" and w1: "window_inv w1" "same_roster w w1"
    and f: "\<And>v. same_roster v (f v) \<and> w_layout_tree (f v) = w_layout_tree v"
  shows "returns (case with_tree w1 run of (w2, ok) \<Rightarrow>
      if ok then do { w3 \<leftarrow> apply_layout_tree (f w2); Some (w3, True) } else Some (w2, False))
    (\<lambda>(w', ok). keeps_roster w w')"
proof -
  obtain w2 ok where run: "with_tree w1 run = (w2, ok)" by fastforce
  have f': "same_roster w2 (f w2)" "w_layout_tree (f w2) = w_layout_tree w2" using f by simp_all
  note out = with_tree_apply [OF w1(1) same run f']
  show ?thesis
    using run out(1) same_roster_trans [OF w1(2)] returns_mono [OF out(3), of "keeps_roster w"] by (cases ok) simp_all
qed

end

lemma resize_pane_to_inv:
  assumes inv: "window_inv w"
  shows "returns (resize_pane_to w i d n) (\<lambda>(w', ok). keeps_roster w w')"
proof (cases "pane_position w i")
  case (Some pos)
  obtain w1 where w1: "unzoom w = Some w1" "window_inv w1" "same_roster w w1" using unzoomed_inv [OF inv] .
  show ?thesis
    using resize_to_op.resize_shape [OF inv refl w1(2,3), of "\<lambda>v. v" pos "from_split_direction d" n] Some w1(1)
    by (simp add: resize_pane_to_def Let_def case_prod_beta')
qed (use inv in \<open>simp add: resize_pane_to_def\<close>)

lemma resize_pane_width_inv:
  assumes inv: "window_inv w"
  shows "returns (resize_pane_width w i n) (\<lambda>(w', ok). keeps_roster w w')"
proof (cases "pane_position w i")
  case (Some pos)
  obtain w1 where w1: "unzoom w = Some w1" "window_inv w1" "same_roster w w1" using unzoomed_inv [OF inv] .
  have "same_roster v (v\<lparr>w_requested_main_width := None\<rparr>)" for v by (simp add: same_roster_def)
  then show ?thesis
    using resize_to_op.resize_shape [OF inv refl w1(2,3), of "\<lambda>v. v\<lparr>w_requested_main_width := None\<rparr>" pos LeftRight n]
      Some w1(1) resize_main_width_inv [OF inv, of n]
    by (simp add: resize_pane_width_def Let_def case_prod_beta')
qed (use inv in \<open>simp add: resize_pane_width_def\<close>)

lemma resize_pane_height_inv:
  assumes inv: "window_inv w"
  shows "returns (resize_pane_height w i n) (\<lambda>(w', ok). keeps_roster w w')"
proof (cases "pane_position w i")
  case (Some pos)
  obtain w1 where w1: "unzoom w = Some w1" "window_inv w1" "same_roster w w1" using unzoomed_inv [OF inv] .
  have "same_roster v (v\<lparr>w_requested_main_height := None\<rparr>)" for v by (simp add: same_roster_def)
  then show ?thesis
    using resize_to_op.resize_shape [OF inv refl w1(2,3), of "\<lambda>v. v\<lparr>w_requested_main_height := None\<rparr>" pos TopBottom n]
      Some w1(1) resize_main_height_inv [OF inv, of n]
    by (simp add: resize_pane_height_def Let_def case_prod_beta')
qed (use inv in \<open>simp add: resize_pane_height_def\<close>)

lemma resize_new_split_pane_to_inv:
  "window_inv w \<Longrightarrow> returns (resize_new_split_pane_to w i d n b) (\<lambda>(w', ok). keeps_roster w w')"
  using resize_pane_to_inv [of w] by (auto simp: resize_new_split_pane_to_def Let_def split: option.splits)

lemma sync_same: "same_roster v (sync_requested_main_size v) \<and> w_layout_tree (sync_requested_main_size v) = w_layout_tree v"
  by (simp add: sync_requested_main_size_def same_roster_def)

lemma resize_pane_by_inv:
  assumes inv: "window_inv w"
  shows "returns (resize_pane_by w i adj) (\<lambda>(w', ok). keeps_roster w w')"
proof (cases "pane_position w i = None \<or> directional_change adj = None")
  case True
  then show ?thesis using inv by (auto simp: resize_pane_by_def split: option.splits)
next
  case False
  then obtain pos d z where pos: "pane_position w i = Some pos" "directional_change adj = Some (d, z)" by auto
  obtain w1 where w1: "unzoom w = Some w1" "window_inv w1" "same_roster w w1" using unzoomed_inv [OF inv] .
  show ?thesis
    using resize_by_op.resize_shape [OF inv refl w1(2,3) sync_same, of pos d z] pos w1(1)
    by (simp add: resize_pane_by_def Let_def case_prod_beta' split: if_splits)
qed

section \<open>Layout strings and spreading\<close>

lemma apply_custom_layout_inv:
  assumes inv: "window_inv w"
  shows "returns (apply_custom_layout w s) (\<lambda>(w', r). keeps_roster w w'
    \<and> (r = Inr () \<longleftrightarrow> (\<exists>t. parse s (length (w_panes w)) = Inr t)) \<and> (r \<noteq> Inr () \<longrightarrow> w' = w))"
proof (cases "parse s (length (w_panes w))")
  case (Inl e)
  then show ?thesis using inv by (simp add: apply_custom_layout_def window_inv_def ids_inv_def)
next
  case (Inr t)
  let ?w = "w\<lparr>w_size := tree_size t, w_layout_tree := Some t, w_custom_layout := True\<rparr>"
  have "tree_inv ?w" using fits_parse [OF Inr] by (simp add: tree_inv_def)
  moreover have roster: "same_roster w ?w" by (simp add: same_roster_def)
  ultimately obtain w' where w': "apply_layout_tree ?w = Some w'" "same_roster ?w w'" "tree_inv w'"
    using apply_layout_tree_returns [of ?w] by (auto elim!: returnsE dest: relaid_roster)
  then have "keeps_roster w w'"
    using window_inv_roster [OF inv same_roster_trans [OF roster w'(2)]] same_roster_trans [OF roster w'(2)] by simp
  then show ?thesis
    using Inr w'(1) inv by (simp add: apply_custom_layout_def window_inv_def ids_inv_def)
qed

lemma reapply_old_layout_inv:
  assumes inv: "window_inv w"
  shows "returns (reapply_old_layout w) (\<lambda>(w', r). keeps_roster w w')"
proof -
  let ?w = "save_old_layout w"
  have w: "window_inv ?w" "same_roster w ?w" using inv by (simp_all add: save_old_layout_def window_inv_fields same_roster_def)
  show ?thesis
  proof (cases "w_old_layout w")
    case None
    then show ?thesis using w by (simp add: reapply_old_layout_def)
  next
    case (Some s)
    show ?thesis
      using apply_custom_layout_inv [OF w(1), of s] Some same_roster_trans [OF w(2)]
      by (auto simp: reapply_old_layout_def Let_def elim!: returnsE)
  qed
qed

lemma spread_layout_inv:
  assumes inv: "window_inv w"
  shows "returns (spread_layout w i) (\<lambda>(w', ok). keeps_roster w w')"
proof (cases "pane_position w i")
  case (Some pos)
  show ?thesis
    using spread_op.resize_shape [OF inv refl inv same_roster_refl, of "\<lambda>v. v" pos] Some
    by (simp add: spread_layout_def)
qed (use inv in \<open>simp add: spread_layout_def\<close>)

section \<open>Activity\<close>

lemma touch_activity_inv: "window_inv w \<Longrightarrow> window_inv (fst (touch_activity_for_pane now w i))"
proof (cases "position (\<lambda>p. p_index p = i) (w_panes w)")
  case (Some k)
  assume inv: "window_inv w"
  let ?w = "fst (touch_activity_for_pane now w i)"
  have "pane_keys ?w = pane_keys w"
    using Some position_Some [OF Some] by (simp add: touch_activity_for_pane_def pane_keys_def map_update list_update_same_conv)
  moreover have "w_layout_tree ?w = w_layout_tree w" "w_active_pane ?w = w_active_pane w" "w_last_pane ?w = w_last_pane w"
    "w_next_pane_index ?w = w_next_pane_index w" "length (w_panes ?w) = length (w_panes w)"
    using Some by (simp_all add: touch_activity_for_pane_def)
  ultimately show ?thesis
    using inv ids_inv_frame [of w ?w] index_inv_frame [of w ?w] by (simp add: window_inv_def tree_inv_def)
qed (simp add: touch_activity_for_pane_def)

lemma apply_snapshot_inv: "window_inv w \<Longrightarrow> window_inv (fst (apply_pane_activity_snapshot w a))"
proof (cases "List.find (\<lambda>p. p_id p = a_pane_id a) (w_panes w)")
  case (Some p)
  assume inv: "window_inv w"
  let ?w = "fst (apply_pane_activity_snapshot w a)"
  have "pane_keys ?w = pane_keys w"
    using Some by (simp add: apply_pane_activity_snapshot_def pane_keys_def keys_update_first)
  moreover have "w_layout_tree ?w = w_layout_tree w" "w_active_pane ?w = w_active_pane w" "w_last_pane ?w = w_last_pane w"
    "w_next_pane_index ?w = w_next_pane_index w" "length (w_panes ?w) = length (w_panes w)"
    using Some by (simp_all add: apply_pane_activity_snapshot_def)
  ultimately show ?thesis
    using inv ids_inv_frame [of w ?w] index_inv_frame [of w ?w] by (simp add: window_inv_def tree_inv_def)
qed (simp add: apply_pane_activity_snapshot_def)

end
