(* ===== verification/Window_Machine.thy ===== *)
theory Window_Machine
  imports Window_Layout_Inv
begin

text \<open>
  A window as a state machine: an event per public operation that changes it, the run of an event
  on the definitions of \<open>Window_Ops\<close> and \<open>Window_Layout\<close>, and the windows that are
  reachable from a new one. The callers' obligations (a fresh pane id, a position in range) are
  the guard \<open>admits\<close> of an event; everything else an operation checks itself.
\<close>

section \<open>Events\<close>

datatype window_event =
    EvSplit usize u32 split_direction bool bool
  | EvRemove u32
  | EvExtract u32
  | EvRemoveOthers u32
  | EvSelect u32
  | EvSelectById u32
  | EvSelectAdjacent u32 select_direction
  | EvToggleZoom u32
  | EvAutoUnzoom
  | EvPushZoom bool
  | EvPopZoom
  | EvRotate rotate_direction bool
  | EvSwap u32 u32
  | EvInsert usize pane split_direction
  | EvInsertFull pane split_direction bool
  | EvMove usize usize usize split_direction bool
  | EvResizeMain resize_adjustment
  | EvResizeWidth u32 u16
  | EvResizeHeight u32 u16
  | EvResizeTo u32 split_direction u32
  | EvResizeNewSplit u32 split_direction u32 bool
  | EvResizeBy u32 resize_adjustment
  | EvSetLayout layout_name "u16 option" "u16 option"
  | EvNextLayout "u16 option" "u16 option"
  | EvPreviousLayout "u16 option" "u16 option"
  | EvCustomLayout string
  | EvSaveOldLayout
  | EvReapplyOldLayout
  | EvSpread u32
  | EvSetSize terminal_size
  | EvRespawn u32
  | EvSetName string
  | EvSetAutomaticName string
  | EvEnableAutomaticRename
  | EvQueueAlerts alert_flags
  | EvClearAlerts alert_flags
  | EvTakeAlerts
  | EvSetAlertsQueued bool
  | EvTouch u32
  | EvApplyActivity window_pane_activity

fun window_run :: "i64 \<Rightarrow> window \<Rightarrow> window_event \<Rightarrow> window option" where
  "window_run now w (EvSplit pos i d ahead detached) = map_option fst (split_at_position_detached now w pos i d ahead detached)"
| "window_run now w (EvRemove k) = map_option fst (remove_pane w k)"
| "window_run now w (EvExtract k) = map_option fst (extract_pane w k)"
| "window_run now w (EvRemoveOthers k) = map_option fst (remove_other_panes now w k)"
| "window_run now w (EvSelect k) = map_option fst (select_pane now w k)"
| "window_run now w (EvSelectById i) = map_option fst (select_pane_by_id now w i)"
| "window_run now w (EvSelectAdjacent k d) = map_option fst (select_adjacent_pane now w k d)"
| "window_run now w (EvToggleZoom k) = map_option fst (toggle_zoom now w k)"
| "window_run now w EvAutoUnzoom = map_option fst (auto_unzoom w)"
| "window_run now w (EvPushZoom r) = map_option fst (push_zoom w r)"
| "window_run now w EvPopZoom = Some (pop_zoom w)"
| "window_run now w (EvRotate d r) = rotate_panes_with_zoom now w d r"
| "window_run now w (EvSwap a b) = map_option fst (swap_panes w a b)"
| "window_run now w (EvInsert pos p d) = map_option fst (insert_pane_at_position w pos p d)"
| "window_run now w (EvInsertFull p d ahead) = map_option fst (insert_pane_full_size w p d ahead)"
| "window_run now w (EvMove i j k d ahead) = map_option fst (move_pane_by_splitting_target w i j k d ahead)"
| "window_run now w (EvResizeMain a) = resize_main_pane now w a"
| "window_run now w (EvResizeWidth k n) = map_option fst (resize_pane_width w k n)"
| "window_run now w (EvResizeHeight k n) = map_option fst (resize_pane_height w k n)"
| "window_run now w (EvResizeTo k d n) = map_option fst (resize_pane_to w k d n)"
| "window_run now w (EvResizeNewSplit k d n b) = map_option fst (resize_new_split_pane_to w k d n b)"
| "window_run now w (EvResizeBy k a) = map_option fst (resize_pane_by w k a)"
| "window_run now w (EvSetLayout l mw mh) = set_layout_with_main_pane_size w l mw mh"
| "window_run now w (EvNextLayout mw mh) = map_option fst (next_layout_with_main_pane_size w mw mh)"
| "window_run now w (EvPreviousLayout mw mh) = map_option fst (previous_layout_with_main_pane_size w mw mh)"
| "window_run now w (EvCustomLayout s) = map_option fst (apply_custom_layout w s)"
| "window_run now w EvSaveOldLayout = Some (save_old_layout w)"
| "window_run now w EvReapplyOldLayout = map_option fst (reapply_old_layout w)"
| "window_run now w (EvSpread k) = map_option fst (spread_layout w k)"
| "window_run now w (EvSetSize sz) = set_size w sz"
| "window_run now w (EvRespawn i) = Some (fst (respawn now w i))"
| "window_run now w (EvSetName s) = Some (set_name w s)"
| "window_run now w (EvSetAutomaticName s) = Some (set_automatic_name w s)"
| "window_run now w EvEnableAutomaticRename = Some (enable_automatic_rename w)"
| "window_run now w (EvQueueAlerts f) = Some (queue_alerts w f)"
| "window_run now w (EvClearAlerts f) = Some (clear_alert_flags w f)"
| "window_run now w EvTakeAlerts = Some (fst (take_alert_flags w))"
| "window_run now w (EvSetAlertsQueued q) = Some (set_alerts_queued w q)"
| "window_run now w (EvTouch k) = Some (fst (touch_activity_for_pane now w k))"
| "window_run now w (EvApplyActivity a) = Some (fst (apply_pane_activity_snapshot w a))"

fun admits :: "window \<Rightarrow> window_event \<Rightarrow> bool" where
  "admits w (EvSplit pos i d ahead detached) \<longleftrightarrow>
     pos < length (w_panes w) \<and> i \<notin> set (map p_id (w_panes w)) \<and> Suc (length (w_panes w)) < u32_max"
| "admits w (EvExtract k) \<longleftrightarrow> 2 \<le> length (w_panes w)"
| "admits w (EvInsert pos p d) \<longleftrightarrow> Suc (p_index p) < u32_max \<and> Suc (length (w_panes w)) < u32_max"
| "admits w (EvInsertFull p d ahead) \<longleftrightarrow> Suc (p_index p) < u32_max \<and> Suc (length (w_panes w)) < u32_max"
| "admits w _ \<longleftrightarrow> True"

inductive reachable :: "window \<Rightarrow> bool" where
  new: "new_with_initial_pane now sz i wid = Some w \<Longrightarrow> reachable w"
| step: "reachable w \<Longrightarrow> admits w ev \<Longrightarrow> window_run now w ev = Some w' \<Longrightarrow> reachable w'"

inductive_cases reachable_cases: "reachable w"

section \<open>Every event keeps the invariant\<close>

lemma extract_missing_inv:
  assumes "window_inv w" and "2 \<le> length (w_panes w)"
  shows "returns (extract_pane w k) (\<lambda>(w', r). window_inv w')"
proof (cases "pane_position w k")
  case None
  then show ?thesis using assms by (simp add: extract_pane_def)
next
  case (Some pos)
  show ?thesis using extract_pane_inv [OF assms(1) Some assms(2)] by (rule returns_mono) auto
qed

lemma remove_others_inv:
  assumes "window_inv w"
  shows "returns (remove_other_panes now w k) (\<lambda>(w', r). window_inv w')"
proof (cases "pane_at w k")
  case None
  then show ?thesis using assms by (simp add: remove_other_panes_def)
next
  case (Some p)
  show ?thesis using remove_other_panes_inv [OF assms Some] by (rule returns_mono) auto
qed

lemma auto_unzoom_inv: "window_inv w \<Longrightarrow> returns (auto_unzoom w) (\<lambda>(w', z). window_inv w')"
  using unzoom_inv [of w] by (auto simp: unzoom_def elim!: returnsE)

lemma label_fields_inv:
  "window_inv (w\<lparr>w_name := n\<rparr>) = window_inv w" "window_inv (w\<lparr>w_automatic_rename := r\<rparr>) = window_inv w"
  "window_inv (w\<lparr>w_alert_flags := f\<rparr>) = window_inv w" "window_inv (w\<lparr>w_alerts_queued := q\<rparr>) = window_inv w"
  by (simp_all add: window_inv_def tree_inv_def ids_inv_def index_inv_def)

lemma returns_weaken:
  "returns r (\<lambda>(x, y). P x y) \<Longrightarrow> (\<And>x y. P x y \<Longrightarrow> window_inv x) \<Longrightarrow> returns r (\<lambda>z. window_inv (fst z))"
  by (erule returns_mono) auto

lemma returns_inv: "returns r P \<Longrightarrow> (\<And>x. P x \<Longrightarrow> window_inv x) \<Longrightarrow> returns r window_inv"
  by (rule returns_mono)

text \<open>The events that return a result beside the window, those that return the window, and the rest.\<close>

lemmas paired_events =
  split_inv [THEN returns_weaken] remove_pane_inv [THEN returns_weaken] extract_missing_inv [THEN returns_weaken]
  remove_others_inv [THEN returns_weaken] select_pane_inv [THEN returns_weaken]
  select_pane_by_id_inv [THEN returns_weaken] select_adjacent_pane_inv [THEN returns_weaken]
  toggle_zoom_inv [THEN returns_weaken] auto_unzoom_inv [THEN returns_weaken] push_zoom_inv [THEN returns_weaken]
  swap_panes_inv [THEN returns_weaken] insert_pane_inv [THEN returns_weaken] insert_full_inv [THEN returns_weaken]
  move_pane_inv [THEN returns_weaken] resize_pane_width_inv [THEN returns_weaken]
  resize_pane_height_inv [THEN returns_weaken] resize_pane_to_inv [THEN returns_weaken]
  resize_new_split_pane_to_inv [THEN returns_weaken] resize_pane_by_inv [THEN returns_weaken]
  next_layout_inv [THEN returns_weaken] previous_layout_inv [THEN returns_weaken]
  apply_custom_layout_inv [THEN returns_weaken] reapply_old_layout_inv [THEN returns_weaken]
  spread_layout_inv [THEN returns_weaken]

lemmas single_events =
  rotate_inv [THEN returns_inv] set_layout_inv [THEN returns_inv] resize_main_pane_inv set_size_inv

lemmas plain_events =
  set_name_def set_automatic_name_def enable_automatic_rename_def queue_alerts_def clear_alert_flags_def
  take_alert_flags_def set_alerts_queued_def save_old_layout_def label_fields_inv window_inv_fields
  pop_zoom_inv respawn_inv touch_activity_inv apply_snapshot_inv

lemma window_run_inv:
  assumes "window_inv w" and "admits w ev"
  shows "returns (window_run now w ev) window_inv"
  using assms by (cases ev) (simp_all add: paired_events single_events plain_events)

lemma reachable_inv: "reachable w \<Longrightarrow> window_inv w"
proof (induction rule: reachable.induct)
  case (new now sz i wid w)
  then show ?case using new_window_inv [of now sz i wid] by simp
next
  case (step w ev now w')
  then show ?case using window_run_inv [of w ev now] by simp
qed

end
