(* ===== verification/Window_Screen.thy ===== *)
theory Window_Screen
  imports Window_Machine
begin

text \<open>
  What a window puts on the screen: the rectangles of its panes are those of the cells of a
  well-formed layout, so no two panes overlap, or, while the window is zoomed, the active pane
  has the whole window. The invariant holds for every sequence of operations that avoids the ones
  for which the layout engine gives no such guarantee: layout strings, \<open>spread\<close>, a full-size
  insertion into a crowded window and a main pane of size zero.
\<close>

section \<open>The invariant\<close>

definition base_ok :: "window \<Rightarrow> bool" where
  "base_ok w \<longleftrightarrow> valid_size (w_size w) \<and> 1 \<le> cols (w_size w) \<and> 1 \<le> rows (w_size w)
     \<and> valid_options (window_options w) \<and> 2 * length (w_panes w) \<le> i32_max"

definition wf_layout :: "window \<Rightarrow> bool" where
  "wf_layout w \<longleftrightarrow> pred_option (\<lambda>t. wf_tree t \<and> tree_size t = w_size w) (w_layout_tree w) \<and> base_ok w"

definition cell_rects :: "window \<Rightarrow> pane_geometry list" where
  "cell_rects w = map (cell_rect (the (w_layout_tree w))) [0..<length (w_panes w)]"

definition rects :: "window \<Rightarrow> pane_geometry list" where
  "rects w = map p_geometry (w_panes w)"

definition active_position :: "window \<Rightarrow> usize" where
  "active_position w = the (pane_position w (w_active_pane w))"

definition shown :: "window \<Rightarrow> bool" where
  "shown w \<longleftrightarrow> rects w = (if w_zoomed w then (cell_rects w)[active_position w := full_rect (w_size w)] else cell_rects w)"

definition screen_inv :: "window \<Rightarrow> bool" where
  "screen_inv w \<longleftrightarrow> window_inv w \<and> wf_layout w \<and> shown w"

text \<open>A window drawn cell by cell; and a window that looks the same as another.\<close>

definition drawn :: "window \<Rightarrow> bool" where
  "drawn w \<longleftrightarrow> wf_layout w \<and> rects w = cell_rects w"

definition looks :: "window \<Rightarrow> window \<Rightarrow> bool" where
  "looks w w' \<longleftrightarrow> w_layout_tree w' = w_layout_tree w \<and> w_size w' = w_size w \<and> rects w' = rects w
     \<and> w_requested_main_width w' = w_requested_main_width w \<and> w_requested_main_height w' = w_requested_main_height w
     \<and> w_zoomed w' = w_zoomed w"

lemma looks_refl [simp]: "looks w w"
  by (simp add: looks_def)

lemma looks_trans: "looks w w' \<Longrightarrow> looks w' w'' \<Longrightarrow> looks w w''"
  by (simp add: looks_def)

lemma rects_length: "rects w = rects w' \<Longrightarrow> length (w_panes w) = length (w_panes w')"
  by (metis rects_def length_map)

lemma looks_length: "looks w w' \<Longrightarrow> length (w_panes w') = length (w_panes w)"
  by (rule rects_length) (simp add: looks_def)

lemma looks_wf: "looks w w' \<Longrightarrow> wf_layout w \<Longrightarrow> wf_layout w'"
  using looks_length [of w w'] by (simp add: looks_def wf_layout_def base_ok_def window_options_def)

lemma looks_drawn: "looks w w' \<Longrightarrow> drawn w \<Longrightarrow> drawn w'"
  using looks_wf [of w w'] looks_length [of w w'] by (simp add: drawn_def looks_def cell_rects_def)

lemma drawn_shown: "drawn w \<Longrightarrow> \<not> w_zoomed w \<Longrightarrow> wf_layout w \<and> shown w"
  by (simp add: drawn_def shown_def)

lemma screen_drawn: "screen_inv w \<Longrightarrow> \<not> w_zoomed w \<Longrightarrow> drawn w"
  by (simp add: screen_inv_def drawn_def shown_def)

section \<open>Drawing\<close>

lemma rects_laid_out: "map p_geometry (laid_out t ps) = map (cell_rect t) [0..<length ps]"
  by (rule nth_equalityI) (simp_all add: laid_out_def)

lemma apply_layout_drawn:
  assumes "tree_inv w" and "wf_layout w"
  shows "returns (apply_layout_tree w) (\<lambda>w'. drawn w' \<and> w_zoomed w' = w_zoomed w)"
proof -
  obtain t where t: "w_layout_tree w = Some t" "fits_panes t (length (w_panes w))"
    using assms by (auto simp: tree_inv_def)
  then show ?thesis
    using assms(2) apply_layout_tree_eq [OF t]
    by (simp add: drawn_def wf_layout_def base_ok_def window_options_def rects_def cell_rects_def rects_laid_out)
qed

lemma tree_size_ok:
  assumes "wf_tree t"
  shows "valid_size (tree_size t)" "1 \<le> cols (tree_size t)" "1 \<le> rows (tree_size t)"
  using assms tiles_axis_pos [of "lt_root t" LeftRight] tiles_axis_pos [of "lt_root t" TopBottom]
  by (simp_all add: wf_tree_def tree_size_def valid_size_def u32_to_u16_def axis_size_def machine_defs)

lemma recalculate_drawn:
  assumes "tree_inv w" and "pred_option wf_tree (w_layout_tree w)" and "base_ok w"
  shows "returns (recalculate_geometry w) (\<lambda>w'. drawn w' \<and> w_zoomed w' = w_zoomed w)"
proof -
  obtain t where t: "w_layout_tree w = Some t" "fits_panes t (length (w_panes w))" "wf_tree t"
    using assms by (auto simp: tree_inv_def)
  have "wf_tree (resize t (w_size w))"
    using resize_outcome [OF t(3)] assms(3) by (simp add: base_ok_def)
  then show ?thesis
    using assms(3) recalculate_geometry_eq [OF t(1,2)] tree_size_ok
    by (simp add: drawn_def wf_layout_def base_ok_def window_options_def rects_def cell_rects_def rects_laid_out)
qed

lemma rebuild_drawn:
  assumes "w_panes w \<noteq> []" and base: "base_ok w"
  shows "returns (rebuild_named_layout_tree w l) (\<lambda>w'. drawn w' \<and> w_zoomed w' = w_zoomed w)"
proof -
  have "wf_tree (named l (length (w_panes w)) (w_size w) (window_options w))"
    using named_outcome [of "length (w_panes w)" "w_size w" "window_options w" l] base by (auto simp: base_ok_def)
  then show ?thesis
    using base rebuild_named_eq [OF assms(1), of l] tree_size_ok
    by (simp add: drawn_def wf_layout_def base_ok_def window_options_def rects_def cell_rects_def rects_laid_out)
qed

lemma unzoom_drawn:
  assumes "screen_inv w"
  shows "returns (unzoom w) drawn"
proof (cases "w_zoomed w")
  case True
  let ?w = "w\<lparr>w_zoomed := False\<rparr>"
  have "tree_inv ?w" "pred_option wf_tree (w_layout_tree ?w)" "base_ok ?w"
    using assms by (auto simp: screen_inv_def window_inv_def tree_inv_def wf_layout_def base_ok_def window_options_def)
  from recalculate_drawn [OF this] True show ?thesis
    by (auto simp: unzoom_def auto_unzoom_def elim!: returnsE)
qed (use assms screen_drawn in \<open>simp add: unzoom_def auto_unzoom_def\<close>)

lemma screen_unzoomed:
  assumes "screen_inv w"
  obtains w1 where "unzoom w = Some w1" "window_inv w1" "relaid w w1" "\<not> w_zoomed w1" "drawn w1"
  using unzoom_drawn [OF assms] unzoom_inv [of w] assms by (auto simp: screen_inv_def elim!: returnsE)

section \<open>Operations that do not change what is shown\<close>

lemma update_first_rects:
  "(\<And>p. p_geometry (f p) = p_geometry p) \<Longrightarrow> map p_geometry (update_first P f ps) = map p_geometry ps"
  by (induction ps) simp_all

lemma pane_mut_looks: "(\<And>p. p_geometry (f p) = p_geometry p) \<Longrightarrow> looks w (pane_mut w k f)"
  by (simp add: looks_def rects_def pane_mut_def update_first_rects)

lemma mark_active_looks: "looks w (mark_pane_active now w k)"
  by (simp add: mark_pane_active_def Let_def pane_mut_looks)

lemma number_panes_rects: "map p_geometry (number_panes i ps) = map p_geometry ps"
  by (induction ps arbitrary: i) simp_all

lemma renumber_looks: "renumber_panes_by_position w a l = Some w' \<Longrightarrow> looks w w'"
  by (auto simp: renumber_panes_by_position_def Let_def looks_def rects_def number_panes_rects bind_eq_Some_conv)

lemma commit_split_looks: "commit_split_renumber now w i a l detached = Some w' \<Longrightarrow> looks w w'"
  using mark_active_looks looks_trans
  by (fastforce simp: commit_split_renumber_def bind_eq_Some_conv dest: renumber_looks split: if_splits)

section \<open>Changing the tree\<close>

lemma same_tree_size: "same_sizes (lt_root t') (lt_root t) \<Longrightarrow> tree_size t' = tree_size t"
  using same_sizes_axis [of "lt_root t'" "lt_root t" LeftRight] same_sizes_axis [of "lt_root t'" "lt_root t" TopBottom]
  by (simp add: tree_size_def axis_size_def)

context wf_tree_op
begin

lemma apply_or_rebuild_drawn:
  assumes "w_layout_tree w = Some t" and "fits_panes t n" and "wf_tree t" and "pre t"
    and "length (w_panes w) = grown n" and "w_panes w \<noteq> []" and "base_ok w" and "tree_size t = w_size w"
  shows "returns (apply_or_rebuild (with_tree w run)) (\<lambda>w'. drawn w' \<and> w_zoomed w' = w_zoomed w)"
proof -
  obtain t' ok where r: "run t = (t', ok)" by fastforce
  let ?w = "w\<lparr>w_layout_tree := Some t'\<rparr>"
  have base: "base_ok ?w" using assms(7) by (simp add: base_ok_def window_options_def)
  show ?thesis
  proof (cases ok)
    case True
    then have "tree_inv ?w" "wf_layout ?w"
      using run_fits [OF assms(2) r] run_wf [OF assms(3,4) r] same_tree_size [of t' t] assms(5,8) base
      by (simp_all add: tree_inv_def wf_layout_def)
    from apply_layout_drawn [OF this] show ?thesis
      using True r assms(1) by (simp add: with_tree_def apply_or_rebuild_def)
  next
    case False
    with rebuild_drawn [of ?w "w_layout w"] base show ?thesis
      using r assms(1,6) by (simp add: with_tree_def apply_or_rebuild_def)
  qed
qed

end

abbreviation on_screen :: "window \<Rightarrow> bool" where
  "on_screen w \<equiv> wf_layout w \<and> shown w"

lemma returnsD: "returns r P \<Longrightarrow> r = Some x \<Longrightarrow> P x"
  by simp

lemma looks_shown: "looks w w' \<Longrightarrow> active_position w' = active_position w \<Longrightarrow> on_screen w \<Longrightarrow> on_screen w'"
  using looks_wf [of w w'] looks_length [of w w'] by (simp add: looks_def shown_def cell_rects_def)

lemma unzoomD:
  assumes "screen_inv w" and "unzoom w = Some w1"
  shows "drawn w1" "\<not> w_zoomed w1" "window_inv w1" "relaid w w1" "wf_layout w1" "base_ok w1"
  using screen_unzoomed [OF assms(1)] assms(2) by (auto simp: drawn_def wf_layout_def)

section \<open>Selecting and zooming\<close>

lemma position_map: "position (\<lambda>p. f p = k) ps = position (\<lambda>x. x = k) (map f ps)"
  by (induction ps) simp_all

lemma pane_position_indexes: "map p_index (w_panes w') = map p_index (w_panes w) \<Longrightarrow> pane_position w' k = pane_position w k"
  by (simp add: pane_position_def position_map [of p_index])

lemma update_first_indexes:
  "(\<And>p. p_index (f p) = p_index p) \<Longrightarrow> map p_index (update_first P f ps) = map p_index ps"
  by (induction ps) simp_all

lemma pane_mut_shown:
  assumes "\<And>p. p_geometry (f p) = p_geometry p" and "\<And>p. p_index (f p) = p_index p" and "on_screen w"
  shows "on_screen (pane_mut w k f)"
proof (rule looks_shown [OF pane_mut_looks [OF assms(1)]])
  have "pane_position (pane_mut w k f) j = pane_position w j" for j
    by (rule pane_position_indexes) (simp add: pane_mut_def update_first_indexes assms(2))
  then show "active_position (pane_mut w k f) = active_position w" by (simp add: active_position_def pane_mut_def)
qed (rule assms(3))

lemma select_screen:
  assumes inv: "screen_inv w" and run: "select_pane now w k = Some (w', ok)"
  shows "on_screen w'"
proof -
  consider "w' = w" | w1 where "unzoom w = Some w1"
      "w' = mark_pane_active now (w1\<lparr>w_last_pane := Some (w_active_pane w1), w_active_pane := k\<rparr>) k"
    | "w' = pane_mut w k (\<lambda>p. p\<lparr>p_activity_at := now\<rparr>)"
    using run by (auto simp: select_pane_def Let_def bind_eq_Some_conv split: if_splits)
  then show ?thesis
  proof cases
    case (2 w1)
    note w1 = unzoomD [OF inv 2(1)]
    have "looks w1 (w1\<lparr>w_last_pane := Some (w_active_pane w1), w_active_pane := k\<rparr>)" by (simp add: looks_def rects_def)
    from looks_trans [OF this mark_active_looks [of _ now k]]
    have "looks w1 w'" by (simp add: 2(2))
    then have "drawn w'" "\<not> w_zoomed w'" using looks_drawn [of w1 w'] w1(1,2) by (simp_all add: looks_def)
    then show ?thesis by (rule drawn_shown)
  next
    case 3
    show ?thesis unfolding 3 using inv by (intro pane_mut_shown) (simp_all add: screen_inv_def)
  qed (use inv in \<open>simp add: screen_inv_def\<close>)
qed

lemma update_first_position: "position P xs = Some i \<Longrightarrow> update_first P f xs = xs[i := f (xs ! i)]"
  by (induction xs arbitrary: i) auto

lemma zoom_shown:
  assumes inv: "window_inv w" and wf: "wf_layout w"
    and shown: "rects w = cell_rects w \<or> rects w = (cell_rects w)[active_position w := full_rect (w_size w)]"
  shows "on_screen (apply_zoom_geometry (w\<lparr>w_zoomed := True\<rparr>))"
proof -
  let ?w = "apply_zoom_geometry (w\<lparr>w_zoomed := True\<rparr>)"
  obtain i where i: "pane_position w (w_active_pane w) = Some i"
    using inv position_None [of "\<lambda>p. p_index p = w_active_pane w" "w_panes w"]
    by (cases "pane_position w (w_active_pane w)") (auto simp: pane_position_def window_inv_def index_inv_def)
  then have panes: "w_panes ?w = (w_panes w)[i := (w_panes w ! i)\<lparr>p_geometry := full_rect (w_size w)\<rparr>]"
    by (simp add: apply_zoom_geometry_def pane_mut_def pane_position_def update_first_position)
  have same: "w_layout_tree ?w = w_layout_tree w" "w_size ?w = w_size w" "w_active_pane ?w = w_active_pane w" "w_zoomed ?w"
    "window_options ?w = window_options w"
    by (simp_all add: apply_zoom_geometry_def pane_mut_def window_options_def)
  have "map p_index (w_panes ?w) = map p_index (w_panes w)"
    using position_Some [OF i [unfolded pane_position_def]] by (simp add: panes map_update list_update_same_conv)
  from pane_position_indexes [OF this, of "w_active_pane w"] have pos: "active_position ?w = i"
    using i by (simp only: active_position_def same(3) option.sel)
  have "rects ?w = (rects w)[i := full_rect (w_size w)]" by (simp add: rects_def panes map_update)
  also have "\<dots> = (cell_rects ?w)[i := full_rect (w_size w)]"
    using shown i by (auto simp: active_position_def cell_rects_def same panes)
  finally have "shown ?w" by (simp add: shown_def pos same)
  moreover have "wf_layout ?w" using wf panes by (simp add: wf_layout_def base_ok_def same)
  ultimately show ?thesis by simp
qed

lemma screen_rects:
  "on_screen w \<Longrightarrow> rects w = cell_rects w \<or> rects w = (cell_rects w)[active_position w := full_rect (w_size w)]"
  by (auto simp: shown_def split: if_splits)

lemma toggle_zoom_screen:
  assumes inv: "screen_inv w" and run: "toggle_zoom now w k = Some (w', z)"
  shows "on_screen w'"
proof -
  consider "w' = w" | "unzoom w = Some w'" | w1 ok where "select_pane now w k = Some (w1, ok)"
      "w' = apply_zoom_geometry (w1\<lparr>w_zoomed := True\<rparr>)"
    using run by (auto simp: toggle_zoom_def bind_eq_Some_conv split: if_splits)
  then show ?thesis
  proof cases
    case 2
    show ?thesis using drawn_shown [OF unzoomD(1,2) [OF inv 2]] .
  next
    case (3 w1 ok)
    have "window_inv w1"
      using returnsD [OF select_pane_inv 3(1)] inv by (simp add: screen_inv_def)
    moreover have "on_screen w1" using select_screen [OF inv 3(1)] .
    ultimately show ?thesis using zoom_shown [of w1] screen_rects [of w1] 3(2) by blast
  qed (use inv in \<open>simp add: screen_inv_def\<close>)
qed

lemma screen_field:
  "on_screen (w\<lparr>w_zoom_restore_pending := z\<rparr>) = on_screen w"
  by (simp add: wf_layout_def base_ok_def window_options_def shown_def rects_def cell_rects_def active_position_def
      pane_position_def)

lemma unzoom_screen: "screen_inv w \<Longrightarrow> unzoom w = Some w' \<Longrightarrow> on_screen w'"
  by (rule drawn_shown) (rule unzoomD(1,2); assumption)+

lemma push_zoom_screen:
  assumes "screen_inv w" and "push_zoom w r = Some (w', z)"
  shows "on_screen w'"
proof -
  obtain w1 where "w' = w1\<lparr>w_zoom_restore_pending := w_zoomed w \<and> r\<rparr>" "unzoom w = Some w1 \<or> w1 = w"
    using assms(2) by (auto simp: push_zoom_def bind_eq_Some_conv split: if_splits)
  then show ?thesis using unzoom_screen [OF assms(1), of w1] assms(1) by (auto simp: screen_field screen_inv_def)
qed

lemma pop_zoom_screen:
  assumes "window_inv w" and "on_screen w"
  shows "on_screen (pop_zoom w)"
proof -
  let ?w = "w\<lparr>w_zoom_restore_pending := False\<rparr>"
  have w: "window_inv ?w" "on_screen ?w" using assms by (simp_all only: window_inv_fields screen_field)
  then show ?thesis
    using zoom_shown [OF w(1)] screen_rects [OF w(2)] assms by (simp add: pop_zoom_def Let_def)
qed

section \<open>Splitting, inserting and removing\<close>

lemma tree_of:
  assumes "window_inv w" and "wf_layout w"
  obtains t where "w_layout_tree w = Some t" "fits_panes t (length (w_panes w))" "wf_tree t" "tree_size t = w_size w"
  using assms by (auto simp: window_inv_def tree_inv_def wf_layout_def)

text \<open>The panes have changed in number, the tree follows.\<close>

context wf_tree_op
begin

lemma change_panes_drawn:
  assumes w1: "window_inv w1" "wf_layout w1" "\<not> w_zoomed w1" and pre: "pred_option pre (w_layout_tree w1)"
    and w2: "w_layout_tree w2 = w_layout_tree w1" "w_zoomed w2 = w_zoomed w1 \<and> w_size w2 = w_size w1" "base_ok w2"
      "length (w_panes w2) = grown (length (w_panes w1))" "w_panes w2 \<noteq> []"
    and run: "apply_or_rebuild (with_tree w2 run) = Some w3"
  shows "drawn w3" "\<not> w_zoomed w3"
proof -
  obtain t where t: "w_layout_tree w1 = Some t" "fits_panes t (length (w_panes w1))" "wf_tree t" "tree_size t = w_size w1"
    using tree_of [OF w1(1,2)] .
  have "w_layout_tree w2 = Some t" "pre t" "tree_size t = w_size w2" using t(1,4) w2(1,2) pre by simp_all
  from returnsD [OF apply_or_rebuild_drawn [OF this(1) t(2,3) this(2) w2(4,5,3) this(3)] run]
  show "drawn w3" "\<not> w_zoomed w3" using w2(2) w1(3) by simp_all
qed

end

lemma looks_screen: "drawn w \<Longrightarrow> \<not> w_zoomed w \<Longrightarrow> looks w w' \<Longrightarrow> on_screen w'"
  by (intro drawn_shown) (auto intro: looks_drawn simp: looks_def)

lemma split_screen:
  assumes inv: "screen_inv w" and room: "2 * Suc (length (w_panes w)) \<le> i32_max"
    and run: "split_at_position_detached now w pos i d ahead detached = Some (w', index)"
  shows "on_screen w'"
proof -
  obtain w1 w3 k w5 where w1: "unzoom w = Some w1" and w3: "allocate_pane_index (w1\<lparr>w_layout := layout_for_split d\<rparr>) = Some (w3, k)"
    and w5: "apply_or_rebuild (with_tree (w3\<lparr>w_panes := list_insert (w_panes w3) (if ahead then pos else pos + 1)
        (pane_new_with_id now i k (new_pane_geometry 0 0 0 0))\<rparr>) (\<lambda>t. split_leaf t pos (from_split_direction d) ahead)) = Some w5"
    and w6: "commit_split_renumber now w5 i (map_option p_id (active_pane (w1\<lparr>w_layout := layout_for_split d\<rparr>)))
        (last_pane_id (w1\<lparr>w_layout := layout_for_split d\<rparr>)) detached = Some w'"
    using run by (auto simp: split_at_position_detached_def Let_def bind_eq_Some_conv split: if_splits)
  note u = unzoomD [OF inv w1]
  have n: "length (w_panes w1) = length (w_panes w)" using relaid_same(2) [OF u(4)] .
  have w3': "w3 = w1\<lparr>w_layout := layout_for_split d, w_next_pane_index := w_next_pane_index w1 + 1\<rparr>"
    using w3 by (auto simp: allocate_pane_index_def split: if_splits)
  have "drawn w5" "\<not> w_zoomed w5"
    by (rule split_wf.change_panes_drawn [OF u(3,5,2) _ _ _ _ _ _ w5];
        use u(6) room n in \<open>simp add: w3' base_ok_def window_options_def pred_option_def\<close>)+
  moreover have "looks w5 w'" using w6 by (rule commit_split_looks)
  ultimately show ?thesis by (rule looks_screen)
qed

lemma single_ok:
  assumes "valid_size sz" and "1 \<le> cols sz" and "1 \<le> rows sz"
  shows "wf_tree (single sz)"
  using assms by (simp add: wf_tree_def single_def leaf_map_ok_def new_geometry_def axis_size_def valid_size_def machine_defs)

lemma renumber_single_screen:
  assumes "w_panes w = [p]" and base: "base_ok w" and run: "renumber_single_pane_to_zero w = Some w'"
  shows "on_screen w'"
proof -
  let ?w = "w\<lparr>w_panes := [p\<lparr>p_index := 0, p_geometry := full_rect (w_size w)\<rparr>], w_next_pane_index := 1,
               w_active_pane := 0, w_last_pane := None, w_layout := MainVertical, w_last_layout := None,
               w_layout_tree := Some (single (w_size w)), w_custom_layout := False,
               w_old_layout := None, w_zoomed := False, w_zoom_restore_pending := False,
               w_requested_main_width := None, w_requested_main_height := None\<rparr>"
  have "wf_tree (single (w_size w))" using base by (intro single_ok) (simp_all add: base_ok_def)
  then have "tree_inv ?w" "pred_option wf_tree (w_layout_tree ?w)" "base_ok ?w" using base assms(1)
    by (simp_all add: tree_inv_def base_ok_def window_options_def valid_options_def)
  moreover have "recalculate_geometry ?w = Some w'" using run assms(1) by (simp add: renumber_single_pane_to_zero_def)
  ultimately show ?thesis using returnsD [OF recalculate_drawn] by (intro drawn_shown) fastforce+
qed

lemma settle_screen:
  assumes w1: "window_inv w1" "wf_layout w1" "\<not> w_zoomed w1" and pos: "pos < length (w_panes w1)" "2 \<le> length (w_panes w1)"
    and run: "settle_extraction (w1\<lparr>w_panes := list_remove (w_panes w1) pos\<rparr>) pos removed a l = Some w'"
  shows "on_screen w'"
proof -
  let ?w = "w1\<lparr>w_panes := list_remove (w_panes w1) pos\<rparr>"
  have n: "length (list_remove (w_panes w1) pos) = length (w_panes w1) - 1" using pos by (simp add: list_remove_def)
  then have ne: "w_panes ?w \<noteq> []" using pos(2) by auto
  have bound: "2 * (length (w_panes w1) - Suc 0) \<le> i32_max"
    using w1(2) unfolding wf_layout_def base_ok_def by linarith
  obtain w2 where w2: "apply_or_rebuild (with_tree ?w (\<lambda>t. remove_leaf t pos)) = Some w2"
    and rest: "(if length (w_panes w2) = 1 then renumber_single_pane_to_zero w2
        else if w_panes w2 \<noteq> [] then
          do { active \<leftarrow> a; renumber_panes_by_position w2 active l }
        else Some (w2\<lparr>w_active_pane := p_index removed, w_last_pane := None\<rparr>)) = Some w'"
    using run ne by (auto simp: settle_extraction_def bind_eq_Some_conv)
  have d: "drawn w2" "\<not> w_zoomed w2"
    by (rule remove_wf.change_panes_drawn [OF w1 _ _ _ _ _ _ w2];
        use w1(2) bound n ne in \<open>simp add: wf_layout_def base_ok_def window_options_def pred_option_def\<close>)+
  consider p where "w_panes w2 = [p]" "renumber_single_pane_to_zero w2 = Some w'"
    | b where "renumber_panes_by_position w2 b l = Some w'"
    | "w' = w2\<lparr>w_active_pane := p_index removed, w_last_pane := None\<rparr>"
    using rest by (cases "w_panes w2") (auto simp: bind_eq_Some_conv split: if_splits)
  then show ?thesis
  proof cases
    case (1 p)
    then show ?thesis using d(1) renumber_single_screen by (auto simp: drawn_def wf_layout_def)
  next
    case (2 b)
    then show ?thesis using looks_screen [OF d renumber_looks] by blast
  next
    case 3
    then show ?thesis using looks_screen [OF d, of w'] by (simp add: looks_def rects_def)
  qed
qed

lemma extract_screen:
  assumes inv: "screen_inv w" and two: "2 \<le> length (w_panes w)" and run: "extract_pane w k = Some (w', r)"
  shows "on_screen w'"
proof -
  consider "w' = w" | "unzoom w = Some w'"
    | pos w1 removed a l where "pane_position w k = Some pos" "unzoom w = Some w1"
        "settle_extraction (w1\<lparr>w_panes := list_remove (w_panes w1) pos\<rparr>) pos removed a l = Some w'"
    using run by (auto simp: extract_pane_def Let_def bind_eq_Some_conv split: option.splits)
  then show ?thesis
  proof cases
    case 2
    then show ?thesis using unzoom_screen [OF inv] by blast
  next
    case (3 pos w1 removed a l)
    note u = unzoomD [OF inv 3(2)]
    show ?thesis
    proof (rule settle_screen [OF u(3,5,2) _ _ 3(3)])
      show "pos < length (w_panes w1)" "2 \<le> length (w_panes w1)"
        using position_Some [OF 3(1) [unfolded pane_position_def]] relaid_same(2) [OF u(4)] two by simp_all
    qed
  qed (use inv in \<open>simp add: screen_inv_def\<close>)
qed

lemma filter_id_single:
  "distinct (map p_id ps) \<Longrightarrow> i \<in> set (map p_id ps) \<Longrightarrow> \<exists>p. filter (\<lambda>p. p_id p = i) ps = [p]"
  by (induction ps) (auto simp: filter_empty_conv image_iff)

lemma remove_others_screen:
  assumes inv: "screen_inv w" and run: "remove_other_panes now w k = Some (w', r)"
  shows "on_screen w'"
proof -
  consider "w' = w" | ok where "select_pane now w k = Some (w', ok)"
    | keep w1 where "pane_at w k = Some keep" "unzoom w = Some w1"
        "renumber_single_pane_to_zero (w1\<lparr>w_panes := filter (\<lambda>p. p_id p = p_id keep) (w_panes w1)\<rparr>) = Some w'"
    using run by (auto simp: remove_other_panes_def Let_def bind_eq_Some_conv split: option.splits if_splits)
  then show ?thesis
  proof cases
    case (2 ok)
    then show ?thesis using select_screen [OF inv] by blast
  next
    case (3 keep w1)
    note u = unzoomD [OF inv 3(2)]
    have ids: "map p_id (w_panes w1) = map p_id (w_panes w)" using relaid_same(1) [OF u(4)] by (simp add: keys_ids)
    have "p_id keep \<in> set (map p_id (w_panes w1))" using pane_at_Some [OF 3(1)] ids by simp
    then obtain p where p: "filter (\<lambda>p. p_id p = p_id keep) (w_panes w1) = [p]"
      using filter_id_single [of "w_panes w1" "p_id keep"] u(3) by (auto simp: window_inv_def ids_inv_def)
    have "base_ok (w1\<lparr>w_panes := [p]\<rparr>)" using u(6) by (simp add: base_ok_def window_options_def machine_defs)
    then show ?thesis using renumber_single_screen [of "w1\<lparr>w_panes := [p]\<rparr>" p w'] 3(3) p by simp
  qed (use inv in \<open>simp add: screen_inv_def\<close>)
qed

section \<open>Rotating, swapping and moving\<close>

text \<open>The same number of panes in another order, drawn again.\<close>

lemma reorder_drawn:
  assumes w1: "window_inv w1" "wf_layout w1" "\<not> w_zoomed w1" and ps: "length ps = length (w_panes w1)"
    and run: "apply_layout_tree (w1\<lparr>w_panes := ps\<rparr>) = Some w2"
  shows "drawn w2" "\<not> w_zoomed w2"
proof -
  have "tree_inv (w1\<lparr>w_panes := ps\<rparr>)" "wf_layout (w1\<lparr>w_panes := ps\<rparr>)"
    using w1 ps by (simp_all add: window_inv_def tree_inv_def wf_layout_def base_ok_def window_options_def)
  from returnsD [OF apply_layout_drawn [OF this] run] show "drawn w2" "\<not> w_zoomed w2" using w1(3) by simp_all
qed

lemma push_zoomD:
  assumes inv: "screen_inv w" and run: "push_zoom w r = Some (w1, z)"
  shows "window_inv w1" "wf_layout w1" "\<not> w_zoomed w1" "same_roster w w1"
  using push_zoom_screen [OF inv run] returnsD [OF push_zoom_inv run] inv by (simp_all add: screen_inv_def)

lemma rotate_screen:
  assumes inv: "screen_inv w" and run: "rotate_panes_with_zoom now w d restore = Some w'"
  shows "on_screen w'"
proof (cases "length (w_panes w) \<le> 1")
  case True
  then show ?thesis using inv run by (simp add: rotate_panes_with_zoom_def screen_inv_def)
next
  case False
  have "window_inv w" using inv by (simp add: screen_inv_def)
  then obtain w1 w3 a l where w1: "push_zoom w restore = Some (w1, w_zoomed w)"
    and w3: "apply_layout_tree (w1\<lparr>w_panes := number_panes 0 (rotated d (w_panes w1))\<rparr>) = Some w3"
    and w4: "window_inv (w3\<lparr>w_active_pane := a, w_last_pane := l\<rparr>)"
    and run': "rotate_panes_with_zoom now w d restore
       = Some (pop_zoom (mark_pane_active now (w3\<lparr>w_active_pane := a, w_last_pane := l\<rparr>) a))"
    using rotate_steps [OF _ False] by metis
  note u = push_zoomD [OF inv w1]
  have ne: "w_panes w1 \<noteq> []" using u(1) by (simp add: window_inv_def ids_inv_def)
  have d3: "drawn w3" "\<not> w_zoomed w3"
    using reorder_drawn [OF u(1-3) _ w3] by (simp_all add: number_panes_same rotated_same(1) [OF ne])
  have "looks w3 (w3\<lparr>w_active_pane := a, w_last_pane := l\<rparr>)" by (simp add: looks_def rects_def)
  from pop_zoom_screen [OF mark_pane_active_inv [OF w4] looks_screen [OF d3 looks_trans [OF this mark_active_looks]]]
  show ?thesis using run unfolding run' option.inject by blast
qed

lemma swap_screen:
  assumes inv: "screen_inv w" and run: "swap_panes w a b = Some (w', ok)"
  shows "on_screen w'"
proof -
  consider "w' = w"
    | w1 i j w2 p l where "unzoom w = Some w1"
        "apply_layout_tree (w1\<lparr>w_panes := (w_panes w1)[i := w_panes w1 ! j, j := w_panes w1 ! i]\<rparr>) = Some w2"
        "renumber_panes_by_position w2 p l = Some w'"
    using run by (auto simp: swap_panes_def Let_def bind_eq_Some_conv split: option.splits if_splits)
  then show ?thesis
  proof cases
    case (2 w1 i j w2 p l)
    note u = unzoomD [OF inv 2(1)]
    show ?thesis using looks_screen [OF reorder_drawn [OF u(3,5,2) _ 2(2)] renumber_looks [OF 2(3)]] by simp
  qed (use inv in \<open>simp add: screen_inv_def\<close>)
qed

lemma insert_screen:
  assumes inv: "screen_inv w" and room: "2 * Suc (length (w_panes w)) \<le> i32_max"
    and run: "insert_pane_at_position w pos p d = Some (w', r)"
  shows "on_screen w'"
proof -
  have ne: "w_panes w \<noteq> []" using inv by (simp add: screen_inv_def window_inv_def ids_inv_def)
  consider "w' = w" | w1 where "unzoom w = Some w1" "apply_or_rebuild (with_tree
      (bump_next_pane_index (w1\<lparr>w_layout := layout_for_split d\<rparr>) (p_index p)\<lparr>w_panes := list_insert (w_panes w1) pos p\<rparr>)
      (\<lambda>t. split_leaf t (if pos = 0 then 0 else pos - 1) (from_split_direction d) (pos = 0))) = Some w'"
    using run ne relaid_same(2) [OF unzoomD(4) [OF inv]]
    by (auto simp: insert_pane_at_position_def Let_def bind_eq_Some_conv bump_next_pane_index_def split: sum.splits if_splits)
  then show ?thesis
  proof cases
    case (2 w1)
    note u = unzoomD [OF inv 2(1)]
    have n: "length (w_panes w1) = length (w_panes w)" using relaid_same(2) [OF u(4)] .
    have "drawn w'" "\<not> w_zoomed w'"
      by (rule split_wf.change_panes_drawn [OF u(3,5,2) _ _ _ _ _ _ 2(2)];
          use u(6) room n in \<open>simp add: bump_next_pane_index_def base_ok_def window_options_def pred_option_def\<close>)+
    then show ?thesis by (rule drawn_shown)
  qed (use inv in \<open>simp add: screen_inv_def\<close>)
qed

lemma insert_full_screen:
  assumes inv: "screen_inv w" and room: "2 * Suc (length (w_panes w)) \<le> i32_max" and flat: "\<not> w_zoomed w"
    and pre: "pred_option (\<lambda>t. pair_axis (minimum_size (lt_root t)) (from_split_direction d)
        \<le> existing_share (axis_size (lt_root t) (from_split_direction d)) ahead) (w_layout_tree w)"
    and run: "insert_pane_full_size w p d ahead = Some (w', r)"
  shows "on_screen w'"
proof -
  have w: "unzoom w = Some w" using flat by (simp add: unzoom_def auto_unzoom_def)
  note u = unzoomD [OF inv w]
  let ?w = "bump_next_pane_index (w\<lparr>w_layout := layout_for_split d\<rparr>) (p_index p)"
  consider "w' = w" | "apply_or_rebuild (with_tree (?w\<lparr>w_panes := (if ahead then p # w_panes ?w else w_panes ?w @ [p])\<rparr>)
      (\<lambda>t. split_root t (from_split_direction d) ahead)) = Some w'"
    using run w by (auto simp: insert_pane_full_size_def Let_def bind_eq_Some_conv split: sum.splits)
  then show ?thesis
  proof cases
    case 2
    have "drawn w'" "\<not> w_zoomed w'"
      by (rule split_root_wf.change_panes_drawn [OF u(3,5,2) pre _ _ _ _ _ 2];
          use u(6) room in \<open>simp add: bump_next_pane_index_def base_ok_def window_options_def\<close>)+
    then show ?thesis by (rule drawn_shown)
  qed (use inv in \<open>simp add: screen_inv_def\<close>)
qed

lemma move_screen:
  assumes inv: "screen_inv w" and run: "move_pane_by_splitting_target w i j k d ahead = Some (w', r)"
  shows "on_screen w'"
proof (cases "i < length (w_panes w) \<and> j < length (w_panes w) \<and> k \<le> length (w_panes w) - 1")
  case False
  then show ?thesis using inv run by (auto simp: move_pane_by_splitting_target_def Let_def screen_inv_def split: if_splits)
next
  case True
  then have "window_inv w" "i < length (w_panes w)" "j < length (w_panes w)" "k \<le> length (w_panes w) - 1"
    using inv by (simp_all add: screen_inv_def)
  then show ?thesis
  proof (cases rule: move_steps [where d = d and b = ahead])
    case (refused w1 t e)
    note u = unzoomD [OF inv refused(1)]
    have "looks w1 w'" using refused(4,5) run by (auto simp: looks_def rects_def)
    then show ?thesis by (rule looks_screen [OF u(1,2)])
  next
    case (moved w1 t t1 t2 m w4)
    note u = unzoomD [OF inv moved(1)]
    let ?ps = "list_insert (list_remove (w_panes w1) i) k (w_panes w1 ! i)"
    let ?w = "w1\<lparr>w_layout := layout_for_split d, w_layout_tree := Some t2\<rparr>"
    have "wf_tree t2 \<and> tree_size t2 = w_size w1"
      using split_wf.run_wf [OF _ _ moved(5)] remove_wf.run_wf [OF _ _ moved(6)] u(5) moved(4)
        same_tree_size [of t1 t] same_tree_size [of t2 t1] by (simp add: wf_layout_def)
    then have "wf_layout ?w" using u(6) by (simp add: wf_layout_def base_ok_def window_options_def)
    moreover have "window_inv ?w" using u(3) moved(7) by (simp add: window_inv_def tree_inv_def ids_inv_def index_inv_def)
    moreover have "length ?ps = length (w_panes ?w)"
      using moved_roster(4) [OF moved(3), of i k] True relaid_same(2) [OF moved(2)] by simp
    ultimately show ?thesis using reorder_drawn [of ?w ?ps w4] drawn_shown [of w4] u(2) moved(8,9) run by simp
  qed
qed

end
