(* ===== verification/Window_Screen_Layout.thy ===== *)
theory Window_Screen_Layout
  imports Window_Screen
begin

text \<open>
  The layout operations keep what a window shows consistent with its layout tree, and so does
  every sequence of operations: the windows reachable with the events admitted by \<open>calm\<close>.
\<close>

section \<open>Resizing\<close>

text \<open>A resize that reports no change leaves the tree as it is.\<close>

lemma resize_step_zero: "resize_step root p i d change needed opp = (root', 0) \<Longrightarrow> root' = root"
  by (auto simp: resize_step_def resize_pane_grow_def resize_pane_shrink_def resize_children_def Let_def write_at_path_id
      split: option.splits layout_cell.splits if_splits prod.splits)

lemma resize_loop_changed: "snd (resize_loop root p i d change needed opp True)"
  by (induction root p i d change needed opp True rule: resize_loop.induct)
    (subst resize_loop.simps, auto split: if_splits prod.splits)

lemma resize_loop_False:
  assumes "resize_loop root p i d change needed opp False = (root', False)"
  shows "root' = root"
proof -
  have "resize_loop root1 p i d change needed1 opp True \<noteq> (root', False)" for root1 needed1
    using resize_loop_changed [of root1 p i d change needed1 opp] by auto
  then show ?thesis
    using assms by (subst (asm) resize_loop.simps) (auto dest: resize_step_zero split: if_splits prod.splits)
qed

lemma resize_layout_False: "resize_layout t p i d change opp = (t', False) \<Longrightarrow> t' = t"
  by (auto simp: resize_layout_def dest: resize_loop_False split: prod.splits if_splits)

lemma resize_leaf_to_from_False: "resize_leaf_to_from t p d n = (t', False) \<Longrightarrow> t' = t"
proof (induction t p d n rule: resize_leaf_to_from.induct)
  case (1 t p d n)
  from 1(2) show ?case
    using 1(1) by (subst (asm) resize_leaf_to_from.simps)
      (auto simp: Let_def dest: resize_layout_False split: if_splits option.splits layout_cell.splits)
qed

lemma resize_to_False: "tree_resize_pane_to t i d n = (t', False) \<Longrightarrow> t' = t"
  by (auto simp: tree_resize_pane_to_def resize_leaf_to_def dest: resize_leaf_to_from_False split: option.splits)

lemma resize_by_False: "tree_resize_pane_by t i d z = (t', False) \<Longrightarrow> t' = t"
  by (auto simp: tree_resize_pane_by_def resize_leaf_by_def dest: resize_layout_False split: option.splits if_splits)

context wf_tree_op
begin

lemma resized_screen:
  assumes w1: "window_inv w1" "drawn w1" "\<not> w_zoomed w1" and pre: "\<And>t. pre t" and same: "\<And>n. grown n = n"
    and unchanged: "\<And>t t'. run t = (t', False) \<Longrightarrow> t' = t"
    and f: "\<And>v. w_layout_tree (f v) = w_layout_tree v \<and> w_panes (f v) = w_panes v \<and> w_zoomed (f v) = w_zoomed v
        \<and> w_size (f v) = w_size v"
      "\<And>t. base_ok (f (w1\<lparr>w_layout_tree := t\<rparr>))"
    and run: "(case with_tree w1 run of (w2, ok) \<Rightarrow>
      if ok then do { w3 \<leftarrow> apply_layout_tree (f w2); Some (w3, True) } else Some (w2, False)) = Some (w', r)"
  shows "on_screen w'"
proof -
  have "wf_layout w1" using w1(2) by (simp add: drawn_def)
  with w1(1) obtain t where t: "w_layout_tree w1 = Some t" "fits_panes t (length (w_panes w1))" "wf_tree t"
    "tree_size t = w_size w1" by (rule tree_of)
  obtain t' ok where r: "run t = (t', ok)" by fastforce
  show ?thesis
  proof (cases ok)
    case False
    then have "looks w1 w'" using unchanged [of t t'] r t(1) run by (auto simp: with_tree_def looks_def rects_def)
    then show ?thesis by (rule looks_screen [OF w1(2,3)])
  next
    case True
    let ?w = "f (w1\<lparr>w_layout_tree := Some t'\<rparr>)"
    have "tree_inv ?w" using run_fits [OF t(2) r] True same f(1) by (simp add: tree_inv_def)
    moreover have "wf_layout ?w" using run_wf [OF t(3) pre r] same_tree_size [of t' t] t(4) f by (simp add: wf_layout_def)
    moreover have "apply_layout_tree ?w = Some w'"
      using run r t(1) True by (auto simp: with_tree_def bind_eq_Some_conv)
    ultimately have "drawn w' \<and> w_zoomed w' = w_zoomed ?w" by (rule returnsD [OF apply_layout_drawn])
    then show ?thesis using drawn_shown [of w'] f(1) w1(3) by simp
  qed
qed

end

lemma base_tree: "base_ok (w\<lparr>w_layout_tree := t\<rparr>) = base_ok w"
  by (simp add: base_ok_def window_options_def)

lemma resize_pane_to_screen:
  assumes inv: "screen_inv w" and n: "n \<le> i32_max" and run: "resize_pane_to w k d n = Some (w', ok)"
  shows "on_screen w'"
proof (cases "pane_position w k")
  case None
  then show ?thesis using inv run by (simp add: resize_pane_to_def screen_inv_def)
next
  case (Some pos)
  then obtain w1 where w1: "unzoom w = Some w1"
    and run1: "(case with_tree w1 (\<lambda>t. tree_resize_pane_to t pos (from_split_direction d) n) of (w2, ok) \<Rightarrow>
      if ok then do { w3 \<leftarrow> apply_layout_tree w2; Some (w3, True) } else Some (w2, False)) = Some (w', ok)"
    using run by (auto simp: resize_pane_to_def Let_def bind_eq_Some_conv)
  note u = unzoomD [OF inv w1]
  show ?thesis
    by (rule resize_to_wf.resized_screen [OF u(3,1,2) n refl resize_to_False _ _ run1]) (simp_all add: base_tree u(6))
qed

lemma tiles_leaves:
  "tiles c \<Longrightarrow> g \<in> set (collect_leaf_geometries c) \<Longrightarrow> 1 \<le> lg_width g \<and> 1 \<le> lg_height g"
  by (induction c) (auto simp: list_all_iff child_leaves_def)

lemma rect_bounds:
  assumes inv: "window_inv w" and on: "on_screen w" and p: "p \<in> set (w_panes w)"
  shows "1 \<le> pg_cols (p_geometry p) \<and> pg_cols (p_geometry p) \<le> u16_max
    \<and> 1 \<le> pg_rows (p_geometry p) \<and> pg_rows (p_geometry p) \<le> u16_max"
proof -
  obtain t where t: "w_layout_tree w = Some t" "fits_panes t (length (w_panes w))" "wf_tree t"
    using tree_of [OF inv] on by blast
  have "p_geometry p \<in> set (rects w)" using p by (simp add: rects_def)
  then consider "p_geometry p \<in> set (cell_rects w)" | "p_geometry p = full_rect (w_size w)"
    using on set_update_subset_insert [of "cell_rects w" "active_position w" "full_rect (w_size w)"]
    by (auto simp: shown_def split: if_splits)
  then show ?thesis
  proof cases
    case 1
    then obtain i where i: "i < length (w_panes w)" "p_geometry p = cell_rect t i" by (auto simp: cell_rects_def t(1))
    have "slot t i < length (collect_leaf_geometries (lt_root t))"
      using t(2) i(1) by (auto simp: fits_panes_def slot_def list_all_length tree_leaf_count_def length_leaf_geometries
          split: option.splits)
    then have "collect_leaf_geometries (lt_root t) ! slot t i \<in> set (collect_leaf_geometries (lt_root t))" by simp
    then show ?thesis
      using t(3) tiles_leaves [of "lt_root t"]
      by (auto simp: i(2) cell_rect_def pane_rect_def new_pane_geometry_def wf_tree_def machine_defs list_all_iff)
  next
    case 2
    then show ?thesis
      using on by (auto simp: full_rect_def new_pane_geometry_def wf_layout_def base_ok_def valid_size_def)
  qed
qed

section \<open>The main pane\<close>

lemma rebuild_screen:
  assumes "w_panes w \<noteq> []" and "base_ok w" and "\<not> w_zoomed w" and "rebuild_named_layout_tree w l = Some w'"
  shows "on_screen w'"
  using returnsD [OF rebuild_drawn [OF assms(1,2)] assms(4)] drawn_shown [of w'] assms(3) by simp

lemma resize_tree_main_screen:
  assumes w: "window_inv w" "drawn w" "\<not> w_zoomed w" and n: "n \<le> i32_max" and run: "resize_tree_main w d n = Some w'"
  shows "on_screen w'"
proof -
  have base: "base_ok w" using w(2) by (simp add: drawn_def wf_layout_def)
  obtain r where "(case with_tree w (\<lambda>t. tree_resize_pane_to t 0 d n) of (w2, ok) \<Rightarrow>
      if ok then do { w3 \<leftarrow> apply_layout_tree w2; Some (w3, True) } else Some (w2, False)) = Some (w', r)"
    using run by (auto simp: resize_tree_main_def split: prod.splits if_splits)
  from resize_to_wf.resized_screen [OF w n refl resize_to_False _ _ this] base show ?thesis by (simp add: base_tree)
qed

lemma u16_i32: "n \<le> u16_max \<Longrightarrow> n \<le> i32_max"
  by (simp add: machine_defs)

lemma resize_main_width_screen:
  assumes inv: "screen_inv w" and n: "1 \<le> n" "n \<le> u16_max" and run: "resize_main_width w n = Some w'"
  shows "on_screen w'"
proof -
  obtain w1 where w1: "unzoom w = Some w1"
    and rest: "(if w_custom_layout w1 then resize_tree_main w1 LeftRight n
        else rebuild_named_layout_tree (w1\<lparr>w_requested_main_width := Some n\<rparr>) (w_layout w1)) = Some w'"
    using run by (auto simp: resize_main_width_def bind_eq_Some_conv)
  note u = unzoomD [OF inv w1]
  have "base_ok (w1\<lparr>w_requested_main_width := Some n\<rparr>)"
    using u(6) n by (simp add: base_ok_def window_options_def valid_options_def)
  then show ?thesis
    using rest resize_tree_main_screen [OF u(3,1,2) u16_i32 [OF n(2)], of LeftRight w'] u(2,3)
      rebuild_screen [of "w1\<lparr>w_requested_main_width := Some n\<rparr>" "w_layout w1" w']
    by (simp add: window_inv_def ids_inv_def split: if_splits)
qed

lemma resize_main_height_screen:
  assumes inv: "screen_inv w" and n: "1 \<le> n" "n \<le> u16_max" and run: "resize_main_height w n = Some w'"
  shows "on_screen w'"
proof -
  obtain w1 where w1: "unzoom w = Some w1"
    and rest: "(if w_custom_layout w1 then resize_tree_main w1 TopBottom n
        else rebuild_named_layout_tree (w1\<lparr>w_requested_main_height := Some n\<rparr>) (w_layout w1)) = Some w'"
    using run by (auto simp: resize_main_height_def bind_eq_Some_conv)
  note u = unzoomD [OF inv w1]
  have "base_ok (w1\<lparr>w_requested_main_height := Some n\<rparr>)"
    using u(6) n by (simp add: base_ok_def window_options_def valid_options_def)
  then show ?thesis
    using rest resize_tree_main_screen [OF u(3,1,2) u16_i32 [OF n(2)], of TopBottom w'] u(2,3)
      rebuild_screen [of "w1\<lparr>w_requested_main_height := Some n\<rparr>" "w_layout w1" w']
    by (simp add: window_inv_def ids_inv_def split: if_splits)
qed

lemma main_cells_bounds:
  assumes inv: "screen_inv w" and ex: "extract = pg_cols \<or> extract = pg_rows" and change: "\<And>m. m \<le> u16_max \<Longrightarrow> change m \<le> u16_max"
  shows "1 \<le> main_cells w extract change" "main_cells w extract change \<le> u16_max"
proof -
  have "change (extract (p_geometry p)) \<le> u16_max" if "pane_at w 0 = Some p" for p
    using rect_bounds [of w p] pane_at_Some [OF that] inv ex change by (auto simp: screen_inv_def)
  then show "1 \<le> main_cells w extract change" "main_cells w extract change \<le> u16_max"
    by (auto simp: main_cells_def machine_defs split: option.splits)
qed

lemma resize_main_directional_screen:
  assumes inv: "screen_inv w" and run: "resize_main_directional w d n = Some w'"
  shows "on_screen w'"
proof -
  have h: "on_screen w'" if "resize_main_height w (main_cells w pg_rows c) = Some w'" "\<And>m. m \<le> u16_max \<Longrightarrow> c m \<le> u16_max" for c
    using resize_main_height_screen [OF inv main_cells_bounds [OF inv _ that(2)] that(1)] by simp
  have v: "on_screen w'" if "resize_main_width w (main_cells w pg_cols c) = Some w'" "\<And>m. m \<le> u16_max \<Longrightarrow> c m \<le> u16_max" for c
    using resize_main_width_screen [OF inv main_cells_bounds [OF inv _ that(2)] that(1)] by simp
  show ?thesis
    using run h [of "\<lambda>m. m - n"] h [of "\<lambda>m. u16_sat_add m n"] v [of "\<lambda>m. m - n"] v [of "\<lambda>m. u16_sat_add m n"]
    by (cases d) (simp_all add: u16_sat_add_def)
qed

text \<open>The requests that do not ask for a main pane of size zero.\<close>

definition given_size :: "u16 option \<Rightarrow> bool" where
  "given_size n \<longleftrightarrow> pred_option (\<lambda>m. 1 \<le> m \<and> m \<le> u16_max) n"

fun main_request_ok :: "resize_adjustment \<Rightarrow> bool" where
  "main_request_ok (AbsoluteWidth n) \<longleftrightarrow> given_size (Some n)"
| "main_request_ok (AbsoluteHeight n) \<longleftrightarrow> given_size (Some n)"
| "main_request_ok (AbsoluteSize n m) \<longleftrightarrow> given_size (Some n) \<and> given_size (Some m)"
| "main_request_ok (Composite n m _ _) \<longleftrightarrow> given_size n \<and> given_size m"
| "main_request_ok _ \<longleftrightarrow> True"

lemma width_step:
  assumes "screen_inv w" and "if_given n (\<lambda>c w. resize_main_width w c) w = Some w'" and "given_size n"
  shows "screen_inv w'"
  using assms returnsD [OF resize_main_width_inv] resize_main_width_screen [OF assms(1), of _ w']
  by (auto simp: if_given_def given_size_def screen_inv_def split: option.splits)

lemma height_step:
  assumes "screen_inv w" and "if_given n (\<lambda>c w. resize_main_height w c) w = Some w'" and "given_size n"
  shows "screen_inv w'"
  using assms returnsD [OF resize_main_height_inv] resize_main_height_screen [OF assms(1), of _ w']
  by (auto simp: if_given_def given_size_def screen_inv_def split: option.splits)

lemma directional_step:
  assumes "screen_inv w" and "if_given r (\<lambda>d w. resize_main_directional w d n) w = Some w'"
  shows "on_screen w'"
  using assms resize_main_directional_screen [OF assms(1), of _ n w']
  by (auto simp: if_given_def screen_inv_def split: option.splits)

lemma resize_main_screen:
  assumes inv: "screen_inv w" and ok: "main_request_ok a" and run: "resize_main_pane now w a = Some w'"
  shows "on_screen w'"
proof (cases a)
  case (AbsoluteSize n m)
  then obtain w1 where "if_given (Some n) (\<lambda>c w. resize_main_width w c) w = Some w1"
    "if_given (Some m) (\<lambda>c w. resize_main_height w c) w1 = Some w'"
    using run by (auto simp: resize_main_pane_def if_given_def bind_eq_Some_conv)
  then show ?thesis using height_step [OF width_step [OF inv]] ok AbsoluteSize by (auto simp: screen_inv_def)
next
  case (Composite n m r c)
  then obtain w1 w2 where "if_given n (\<lambda>c w. resize_main_width w c) w = Some w1"
    "if_given m (\<lambda>c w. resize_main_height w c) w1 = Some w2"
    "if_given r (\<lambda>d w. resize_main_directional w d c) w2 = Some w'"
    using run by (auto simp: resize_main_pane_def bind_eq_Some_conv)
  then show ?thesis using directional_step [OF height_step [OF width_step [OF inv]]] ok Composite by simp
next
  case (AbsoluteWidth n)
  then show ?thesis using run ok resize_main_width_screen [OF inv, of n w'] by (simp add: resize_main_pane_def given_size_def)
next
  case (AbsoluteHeight n)
  then show ?thesis using run ok resize_main_height_screen [OF inv, of n w'] by (simp add: resize_main_pane_def given_size_def)
next
  case Zoom
  then obtain z where "toggle_zoom now w (w_active_pane w) = Some (w', z)" using run by (auto simp: resize_main_pane_def)
  then show ?thesis by (rule toggle_zoom_screen [OF inv])
qed (use run inv in \<open>auto simp: resize_main_pane_def screen_inv_def simp del: resize_main_directional.simps
      dest: resize_main_directional_screen [OF inv]\<close>)

section \<open>Any pane\<close>

lemma resize_pane_width_screen:
  assumes inv: "screen_inv w" and n: "1 \<le> n" "n \<le> u16_max" and run: "resize_pane_width w k n = Some (w', ok)"
  shows "on_screen w'"
proof -
  let ?f = "\<lambda>v. v\<lparr>w_requested_main_width := None\<rparr>"
  consider "w' = w" | "resize_main_width w n = Some w'"
    | pos w1 where "unzoom w = Some w1" "(case with_tree w1 (\<lambda>t. tree_resize_pane_to t pos LeftRight n) of (w2, ok) \<Rightarrow>
      if ok then do { w3 \<leftarrow> apply_layout_tree (?f w2); Some (w3, True) } else Some (w2, False)) = Some (w', ok)"
    using run by (auto simp: resize_pane_width_def Let_def bind_eq_Some_conv split: option.splits if_splits)
  then show ?thesis
  proof cases
    case (3 pos w1)
    note u = unzoomD [OF inv 3(1)]
    have "base_ok (?f (w1\<lparr>w_layout_tree := t\<rparr>))" for t
      using u(6) by (simp add: base_ok_def window_options_def valid_options_def)
    then show ?thesis
      by (intro resize_to_wf.resized_screen [OF u(3,1,2) u16_i32 [OF n(2)] refl resize_to_False _ _ 3(2)]) simp_all
  qed (use inv n resize_main_width_screen [OF inv n, of w'] in \<open>simp_all add: screen_inv_def\<close>)
qed

lemma resize_pane_height_screen:
  assumes inv: "screen_inv w" and n: "1 \<le> n" "n \<le> u16_max" and run: "resize_pane_height w k n = Some (w', ok)"
  shows "on_screen w'"
proof -
  let ?f = "\<lambda>v. v\<lparr>w_requested_main_height := None\<rparr>"
  consider "w' = w" | "resize_main_height w n = Some w'"
    | pos w1 where "unzoom w = Some w1" "(case with_tree w1 (\<lambda>t. tree_resize_pane_to t pos TopBottom n) of (w2, ok) \<Rightarrow>
      if ok then do { w3 \<leftarrow> apply_layout_tree (?f w2); Some (w3, True) } else Some (w2, False)) = Some (w', ok)"
    using run by (auto simp: resize_pane_height_def Let_def bind_eq_Some_conv split: option.splits if_splits)
  then show ?thesis
  proof cases
    case (3 pos w1)
    note u = unzoomD [OF inv 3(1)]
    have "base_ok (?f (w1\<lparr>w_layout_tree := t\<rparr>))" for t
      using u(6) by (simp add: base_ok_def window_options_def valid_options_def)
    then show ?thesis
      by (intro resize_to_wf.resized_screen [OF u(3,1,2) u16_i32 [OF n(2)] refl resize_to_False _ _ 3(2)]) simp_all
  qed (use inv n resize_main_height_screen [OF inv n, of w'] in \<open>simp_all add: screen_inv_def\<close>)
qed

lemma resize_new_split_screen:
  assumes inv: "screen_inv w" and n: "n \<le> i32_max" and run: "resize_new_split_pane_to w k d n ahead = Some (w', ok)"
  shows "on_screen w'"
proof -
  have n': "max n 1 \<le> i32_max" using n by (simp add: machine_defs)
  have along: "geometry_along d (p_geometry (w_panes w ! i)) \<le> u16_max" if "i < length (w_panes w)" for i
    using rect_bounds [of w "w_panes w ! i"] inv that by (cases d) (simp_all add: screen_inv_def)
  consider "w' = w" | m j where "m \<le> i32_max" "resize_pane_to w j d m = Some (w', ok)"
  proof (cases "pane_position w k")
    case (Some i)
    have i: "i < length (w_panes w)" using position_Some Some by (auto simp: pane_position_def)
    let ?sum = "u32_sat_add (u32_sat_add (geometry_along d (p_geometry (w_panes w ! (i - 1))))
      (geometry_along d (p_geometry (w_panes w ! i)))) 1"
    have bound: "max (?sum - 1 - max n 1) 1 \<le> i32_max"
      using along [OF i] along [OF less_imp_diff_less [OF i, of 1]] unfolding machine_defs by linarith
    show ?thesis
      using that(2) [OF n', of k] that(2) [OF bound, of "p_index (w_panes w ! (i - 1))"] run Some
      by (auto simp: resize_new_split_pane_to_def Let_def split: if_splits)
  qed (use that(1) that(2) [OF n', of k] run in \<open>auto simp: resize_new_split_pane_to_def Let_def split: if_splits\<close>)
  then show ?thesis using resize_pane_to_screen [OF inv] inv by cases (auto simp: screen_inv_def)
qed

lemma sync_base:
  assumes inv: "window_inv w" and on: "on_screen w"
  shows "base_ok (sync_requested_main_size (w\<lparr>w_layout_tree := t\<rparr>))"
proof -
  have "pane_at (w\<lparr>w_layout_tree := t\<rparr>) 0 = pane_at w 0" by (simp add: pane_at_def)
  moreover have "1 \<le> pg_cols (p_geometry p) \<and> 1 \<le> pg_rows (p_geometry p)" if "pane_at w 0 = Some p" for p
    using rect_bounds [OF inv on] pane_at_Some [OF that] by blast
  ultimately show ?thesis
    using on by (cases "pane_at w 0")
      (auto simp: sync_requested_main_size_def wf_layout_def base_ok_def window_options_def valid_options_def)
qed

lemma resize_pane_by_screen:
  assumes inv: "screen_inv w" and z: "pred_option (\<lambda>(d, z). \<bar>z\<bar> \<le> int i32_max) (directional_change a)"
    and run: "resize_pane_by w k a = Some (w', ok)"
  shows "on_screen w'"
proof -
  consider "w' = w"
    | pos d z w1 where "\<bar>z\<bar> \<le> int i32_max" "unzoom w = Some w1" "(case with_tree w1 (\<lambda>t. tree_resize_pane_by t pos d z) of (w2, ok) \<Rightarrow>
      if ok then do { w3 \<leftarrow> apply_layout_tree (sync_requested_main_size w2); Some (w3, True) } else Some (w2, False)) = Some (w', ok)"
    using run z by (auto simp: resize_pane_by_def Let_def bind_eq_Some_conv split: option.splits)
  then show ?thesis
  proof cases
    case (2 pos d z w1)
    note u = unzoomD [OF inv 2(2)]
    have "w_panes (sync_requested_main_size v) = w_panes v" "w_zoomed (sync_requested_main_size v) = w_zoomed v"
      "w_size (sync_requested_main_size v) = w_size v" for v
      by (simp_all add: sync_requested_main_size_def)
    then show ?thesis
      using sync_same sync_base [OF u(3) drawn_shown [OF u(1,2)]]
      by (intro resize_by_wf.resized_screen [OF u(3,1,2) 2(1) refl resize_by_False _ _ 2(3)]) simp_all
  qed (use inv in \<open>simp add: screen_inv_def\<close>)
qed

section \<open>Named layouts, size and creation\<close>

lemma set_layout_screen:
  assumes inv: "screen_inv w" and m: "mw \<noteq> Some 0" "mh \<noteq> Some 0"
    and run: "set_layout_with_main_pane_size w l mw mh = Some w'"
  shows "on_screen w'"
proof -
  let ?f = "\<lambda>v. v\<lparr>w_layout := l, w_last_layout := Some l, w_requested_main_width := mw, w_requested_main_height := mh\<rparr>"
  obtain w1 where w1: "unzoom w = Some w1" and rest: "rebuild_named_layout_tree (?f w1) l = Some w'"
    using run by (auto simp: set_layout_with_main_pane_size_def bind_eq_Some_conv)
  note u = unzoomD [OF inv w1]
  have "base_ok (?f w1)" using u(6) m by (simp add: base_ok_def window_options_def valid_options_def)
  then show ?thesis using rebuild_screen [OF _ _ _ rest] u(2,3) by (simp add: window_inv_def ids_inv_def)
qed

lemma cycle_screen:
  assumes "screen_inv w" and "mw \<noteq> Some 0" "mh \<noteq> Some 0"
    and "next_layout_with_main_pane_size w mw mh = Some (w', l) \<or> previous_layout_with_main_pane_size w mw mh = Some (w', l)"
  shows "on_screen w'"
  using assms(4) set_layout_screen [OF assms(1-3), of l w']
  by (auto simp: next_layout_with_main_pane_size_def previous_layout_with_main_pane_size_def bind_eq_Some_conv)

lemma set_size_screen:
  assumes inv: "screen_inv w" and sz: "valid_size sz" "1 \<le> cols sz" "1 \<le> rows sz" and run: "set_size w sz = Some w'"
  shows "on_screen w'"
proof -
  let ?w = "w\<lparr>w_size := sz\<rparr>"
  obtain w1 where w1: "recalculate_geometry ?w = Some w1" and w': "w' = (if w_zoomed w1 then apply_zoom_geometry w1 else w1)"
    using run by (auto simp: set_size_def bind_eq_Some_conv)
  have inv': "window_inv ?w" using inv by (simp add: screen_inv_def window_inv_def tree_inv_def ids_inv_def index_inv_def)
  then have "tree_inv ?w" by (simp add: window_inv_def)
  moreover have "pred_option wf_tree (w_layout_tree ?w)" "base_ok ?w"
    using inv sz by (auto simp: screen_inv_def wf_layout_def base_ok_def window_options_def pred_option_def)
  ultimately have d: "drawn w1" and inv1: "window_inv w1"
    using returnsD [OF recalculate_drawn w1] returnsD [OF recalculate_geometry_returns w1] window_inv_relaid [OF inv']
    by blast+
  show ?thesis
  proof (cases "w_zoomed w1")
    case True
    then have same: "w1\<lparr>w_zoomed := True\<rparr> = w1" by simp
    have "on_screen (apply_zoom_geometry w1)" using zoom_shown [OF inv1] d unfolding same drawn_def by blast
    then show ?thesis using w' True by simp
  next
    case False
    then show ?thesis using drawn_shown [OF d] w' by simp
  qed
qed

lemma single_size: "valid_size sz \<Longrightarrow> tree_size (single sz) = sz"
  by (simp add: single_def tree_size_def u32_to_u16_def new_geometry_def valid_size_def min_absorb1)

lemma single_drawn:
  assumes "w_panes w = [p]" and "p_geometry p = full_rect (w_size w)" and "w_layout_tree w = Some (single (w_size w))"
    and "\<not> w_zoomed w" and "base_ok w"
  shows "on_screen w"
proof -
  have "cell_rect (single (w_size w)) 0 = full_rect (w_size w)"
    using assms(5) by (simp add: cell_rect_def slot_def single_def pane_rect_def full_rect_def new_pane_geometry_def
        new_geometry_def base_ok_def valid_size_def min_absorb1)
  then have "drawn w"
    using assms single_ok [of "w_size w"] single_size [of "w_size w"]
    by (simp add: drawn_def wf_layout_def base_ok_def rects_def cell_rects_def)
  then show ?thesis using drawn_shown assms(4) by blast
qed

lemma respawn_screen: "screen_inv w \<Longrightarrow> on_screen (fst (respawn now w i))"
  by (rule single_drawn [of _ "pane_new_with_id now i 0 (full_rect (w_size w))"])
    (simp_all add: respawn_def pane_new_with_id_def screen_inv_def wf_layout_def base_ok_def
      window_options_def valid_options_def machine_defs)

lemma new_screen:
  assumes sz: "valid_size sz" "1 \<le> cols sz" "1 \<le> rows sz" and run: "new_with_initial_pane now sz i wid = Some w"
  shows "screen_inv w"
proof -
  let ?w = "\<lparr>w_id = wid, w_panes = [pane_new_with_id now i 0 (full_rect sz)], w_next_pane_index = 1,
        w_active_pane = 0, w_last_pane = None, w_layout = MainVertical, w_last_layout = None,
        w_layout_tree = Some (single sz), w_custom_layout = False, w_old_layout = None, w_size = sz,
        w_name = None, w_automatic_rename = True, w_zoomed = False, w_zoom_restore_pending = False,
        w_alert_flags = 0, w_alerts_queued = False, w_created_at = now, w_activity_at = now,
        w_requested_main_width = None, w_requested_main_height = None\<rparr>"
  have run': "recalculate_geometry ?w = Some w" using run by (simp add: new_with_initial_pane_def)
  have "tree_inv ?w" "pred_option wf_tree (w_layout_tree ?w)" "base_ok ?w"
    using sz single_ok [OF sz]
    by (simp_all add: tree_inv_def base_ok_def window_options_def valid_options_def machine_defs)
  from returnsD [OF recalculate_drawn [OF this] run'] drawn_shown [of w] returnsD [OF new_window_inv run]
  show ?thesis by (simp add: screen_inv_def)
qed

lemma touch_screen:
  assumes "on_screen w"
  shows "on_screen (fst (touch_activity_for_pane now w k))"
proof (cases "position (\<lambda>p. p_index p = k) (w_panes w)")
  case (Some i)
  let ?w = "fst (touch_activity_for_pane now w k)"
  have panes: "w_panes ?w = (w_panes w)[i := (w_panes w ! i)\<lparr>p_activity_at := now\<rparr>]"
    using Some by (simp add: touch_activity_for_pane_def)
  then have "map p_geometry (w_panes ?w) = map p_geometry (w_panes w)" "map p_index (w_panes ?w) = map p_index (w_panes w)"
    using position_Some [OF Some] by (simp_all add: map_update list_update_same_conv)
  moreover from this(2) have "pane_position ?w j = pane_position w j" for j by (rule pane_position_indexes)
  ultimately show ?thesis
    using Some assms by (intro looks_shown [of w ?w]) (simp_all add: looks_def rects_def active_position_def touch_activity_for_pane_def)
qed (use assms in \<open>simp add: touch_activity_for_pane_def\<close>)

lemma snapshot_screen:
  assumes "on_screen w"
  shows "on_screen (fst (apply_pane_activity_snapshot w a))"
proof (cases "List.find (\<lambda>p. p_id p = a_pane_id a) (w_panes w)")
  case (Some p)
  let ?w = "fst (apply_pane_activity_snapshot w a)"
  have panes: "w_panes ?w = update_first (\<lambda>p. p_id p = a_pane_id a) (\<lambda>p. p\<lparr>p_activity_at := a_pane_activity_at a\<rparr>) (w_panes w)"
    using Some by (simp add: apply_pane_activity_snapshot_def)
  then have "map p_geometry (w_panes ?w) = map p_geometry (w_panes w)" "map p_index (w_panes ?w) = map p_index (w_panes w)"
    by (simp_all add: update_first_rects update_first_indexes)
  moreover from this(2) have "pane_position ?w j = pane_position w j" for j by (rule pane_position_indexes)
  ultimately show ?thesis
    using Some assms by (intro looks_shown [of w ?w]) (simp_all add: looks_def rects_def active_position_def apply_pane_activity_snapshot_def)
qed (use assms in \<open>simp add: apply_pane_activity_snapshot_def\<close>)

section \<open>Reachable windows\<close>

fun calm :: "window \<Rightarrow> window_event \<Rightarrow> bool" where
  "calm w (EvSplit pos i d ahead detached) \<longleftrightarrow> 2 * Suc (length (w_panes w)) \<le> i32_max"
| "calm w (EvInsert pos p d) \<longleftrightarrow> 2 * Suc (length (w_panes w)) \<le> i32_max"
| "calm w (EvInsertFull p d ahead) \<longleftrightarrow> 2 * Suc (length (w_panes w)) \<le> i32_max \<and> \<not> w_zoomed w
     \<and> pred_option (\<lambda>t. pair_axis (minimum_size (lt_root t)) (from_split_direction d)
        \<le> existing_share (axis_size (lt_root t) (from_split_direction d)) ahead) (w_layout_tree w)"
| "calm w (EvResizeMain a) \<longleftrightarrow> main_request_ok a"
| "calm w (EvResizeWidth k n) \<longleftrightarrow> 1 \<le> n \<and> n \<le> u16_max"
| "calm w (EvResizeHeight k n) \<longleftrightarrow> 1 \<le> n \<and> n \<le> u16_max"
| "calm w (EvResizeTo k d n) \<longleftrightarrow> n \<le> i32_max"
| "calm w (EvResizeNewSplit k d n b) \<longleftrightarrow> n \<le> i32_max"
| "calm w (EvResizeBy k a) \<longleftrightarrow> pred_option (\<lambda>(d, z). \<bar>z\<bar> \<le> int i32_max) (directional_change a)"
| "calm w (EvSetLayout l mw mh) \<longleftrightarrow> mw \<noteq> Some 0 \<and> mh \<noteq> Some 0"
| "calm w (EvNextLayout mw mh) \<longleftrightarrow> mw \<noteq> Some 0 \<and> mh \<noteq> Some 0"
| "calm w (EvPreviousLayout mw mh) \<longleftrightarrow> mw \<noteq> Some 0 \<and> mh \<noteq> Some 0"
| "calm w (EvCustomLayout s) \<longleftrightarrow> False"
| "calm w EvReapplyOldLayout \<longleftrightarrow> False"
| "calm w (EvSpread k) \<longleftrightarrow> False"
| "calm w (EvSetSize sz) \<longleftrightarrow> valid_size sz \<and> 1 \<le> cols sz \<and> 1 \<le> rows sz"
| "calm w _ \<longleftrightarrow> True"

inductive calm_reachable :: "window \<Rightarrow> bool" where
  new: "valid_size sz \<Longrightarrow> 1 \<le> cols sz \<Longrightarrow> 1 \<le> rows sz \<Longrightarrow> new_with_initial_pane now sz i wid = Some w \<Longrightarrow> calm_reachable w"
| step: "calm_reachable w \<Longrightarrow> admits w ev \<Longrightarrow> calm w ev \<Longrightarrow> window_run now w ev = Some w' \<Longrightarrow> calm_reachable w'"

lemma screen_on: "screen_inv w \<Longrightarrow> on_screen w"
  by (simp add: screen_inv_def)

lemma auto_unzoom_screen: "screen_inv w \<Longrightarrow> auto_unzoom w = Some (w', z) \<Longrightarrow> on_screen w'"
  by (rule unzoom_screen) (auto simp: unzoom_def)

lemma remove_screen: "screen_inv w \<Longrightarrow> remove_pane w k = Some (w', r) \<Longrightarrow> on_screen w'"
  by (auto simp: remove_pane_def dest: screen_on extract_screen [rotated 2] split: if_splits)

lemma select_by_id_screen: "screen_inv w \<Longrightarrow> select_pane_by_id now w i = Some (w', r) \<Longrightarrow> on_screen w'"
  by (auto simp: select_pane_by_id_def dest: screen_on select_screen split: option.splits)

lemma select_adjacent_screen: "screen_inv w \<Longrightarrow> select_adjacent_pane now w k d = Some (w', r) \<Longrightarrow> on_screen w'"
  by (auto simp: select_adjacent_pane_def bind_eq_Some_conv dest: screen_on select_screen split: option.splits)

lemma plain_wf_layout:
  "wf_layout (w\<lparr>w_name := n\<rparr>) = wf_layout w" "wf_layout (w\<lparr>w_automatic_rename := b\<rparr>) = wf_layout w"
  "wf_layout (w\<lparr>w_alert_flags := f\<rparr>) = wf_layout w" "wf_layout (w\<lparr>w_alerts_queued := q\<rparr>) = wf_layout w"
  "wf_layout (w\<lparr>w_old_layout := s\<rparr>) = wf_layout w"
  by (simp_all add: wf_layout_def base_ok_def window_options_def)

lemma plain_shown:
  "shown (w\<lparr>w_name := n\<rparr>) = shown w" "shown (w\<lparr>w_automatic_rename := b\<rparr>) = shown w"
  "shown (w\<lparr>w_alert_flags := f\<rparr>) = shown w" "shown (w\<lparr>w_alerts_queued := q\<rparr>) = shown w"
  "shown (w\<lparr>w_old_layout := s\<rparr>) = shown w"
  by (simp_all add: shown_def rects_def cell_rects_def active_position_def pane_position_def)

lemmas event_screens =
  split_screen remove_screen extract_screen remove_others_screen select_screen select_by_id_screen select_adjacent_screen
  toggle_zoom_screen auto_unzoom_screen push_zoom_screen rotate_screen swap_screen insert_screen insert_full_screen
  move_screen resize_main_screen resize_pane_width_screen resize_pane_height_screen resize_pane_to_screen
  resize_new_split_screen resize_pane_by_screen set_layout_screen cycle_screen set_size_screen

lemma window_run_screen:
  assumes inv: "screen_inv w" and ok: "admits w ev" and calm: "calm w ev" and run: "window_run now w ev = Some w'"
  shows "on_screen w'"
proof -
  have w: "window_inv w" "on_screen w" using inv by (simp_all add: screen_inv_def)
  note keep = pop_zoom_screen [OF w] touch_screen [OF w(2)] snapshot_screen [OF w(2)] respawn_screen [OF inv]
  show ?thesis
    using ok calm run inv w(2) keep
    by (cases ev) (auto dest: event_screens simp: set_name_def set_automatic_name_def enable_automatic_rename_def
        queue_alerts_def clear_alert_flags_def take_alert_flags_def set_alerts_queued_def save_old_layout_def
        plain_wf_layout plain_shown)
qed

lemma calm_reachable_screen: "calm_reachable w \<Longrightarrow> screen_inv w"
proof (induction rule: calm_reachable.induct)
  case (new sz now i wid w)
  then show ?case by (rule new_screen)
next
  case (step w ev now w')
  have "window_inv w'" using returnsD [OF window_run_inv step(4)] step by (simp add: screen_inv_def)
  then show ?case using window_run_screen [OF step(5,2,3,4)] by (simp add: screen_inv_def)
qed

section \<open>No two panes overlap\<close>

definition pane_before :: "pane_geometry \<Rightarrow> pane_geometry \<Rightarrow> bool" where
  "pane_before g h \<longleftrightarrow> pg_x g + pg_cols g < pg_x h \<or> pg_y g + pg_rows g < pg_y h"

definition apart :: "pane_geometry \<Rightarrow> pane_geometry \<Rightarrow> bool" where
  "apart g h \<longleftrightarrow> pane_before g h \<or> pane_before h g"

lemma apart_sym: "apart g h = apart h g"
  by (auto simp: apart_def)

lemma small_leaf:
  assumes "wf_tree t" and "axis_size (lt_root t) LeftRight \<le> u16_max" and "axis_size (lt_root t) TopBottom \<le> u16_max"
    and "g \<in> set (collect_leaf_geometries (lt_root t))"
  shows "pane_rect g = new_pane_geometry (lg_x g) (lg_y g) (lg_width g) (lg_height g)"
  using wf_tree_panes_disjoint(2) [OF assms(1,4), of LeftRight] wf_tree_panes_disjoint(2) [OF assms(1,4), of TopBottom] assms(2,3)
  by (simp add: within_def pane_rect_def min_absorb1)

lemma slots_distinct:
  assumes "wf_tree t" and "i < tree_leaf_count t" and "j < tree_leaf_count t" and "i \<noteq> j"
  shows "slot t i \<noteq> slot t j" "slot t i < tree_leaf_count t"
  using assms wf_tree_fits [OF assms(1)]
  by (auto simp: wf_tree_def leaf_map_ok_def fits_panes_def slot_def list_all_length nth_eq_iff_index_eq split: option.splits)

lemma drawn_apart:
  assumes wf: "wf_tree t" and small: "axis_size (lt_root t) LeftRight \<le> u16_max" "axis_size (lt_root t) TopBottom \<le> u16_max"
    and ij: "i < tree_leaf_count t" "j < tree_leaf_count t" "i \<noteq> j"
  shows "apart (cell_rect t i) (cell_rect t j)"
proof -
  let ?L = "collect_leaf_geometries (lt_root t)"
  have len: "length ?L = tree_leaf_count t" by (simp add: tree_leaf_count_def length_leaf_geometries)
  have *: "apart (pane_rect (?L ! a)) (pane_rect (?L ! b))" if "a < b" "b < length ?L" for a b
  proof -
    have "separated (?L ! a) (?L ! b)"
      using wf_tree_panes_disjoint(1) [OF wf] that by (auto simp: sorted_wrt_iff_nth_less)
    then show ?thesis
      using small_leaf [OF wf small, of "?L ! a"] small_leaf [OF wf small, of "?L ! b"] that
      by (auto simp: apart_def pane_before_def separated_def before_def new_pane_geometry_def)
  qed
  have "slot t i \<noteq> slot t j" "slot t i < length ?L" "slot t j < length ?L"
    using slots_distinct [OF wf ij] slots_distinct(2) [OF wf ij(2,1)] ij len by auto
  then show ?thesis using * [of "slot t i" "slot t j"] * [of "slot t j" "slot t i"] apart_sym
    by (cases "slot t i < slot t j") (auto simp: cell_rect_def)
qed

lemma tree_axes:
  "tree_size t = sz \<Longrightarrow> (cols sz < u16_max \<longrightarrow> axis_size (lt_root t) LeftRight = cols sz)
     \<and> (rows sz < u16_max \<longrightarrow> axis_size (lt_root t) TopBottom = rows sz)"
  by (auto simp: tree_size_def u32_to_u16_def axis_size_def min_def split: if_splits)

lemma cell_rect_inside:
  assumes "wf_tree t" and "i < tree_leaf_count t"
  shows "pg_x (cell_rect t i) + pg_cols (cell_rect t i) \<le> axis_size (lt_root t) LeftRight
    \<and> pg_y (cell_rect t i) + pg_rows (cell_rect t i) \<le> axis_size (lt_root t) TopBottom"
proof -
  let ?g = "collect_leaf_geometries (lt_root t) ! slot t i"
  have "slot t i < tree_leaf_count t" using wf_tree_fits [OF assms(1)] assms(2)
    by (auto simp: fits_panes_def slot_def list_all_length split: option.splits)
  then have g: "?g \<in> set (collect_leaf_geometries (lt_root t))" by (simp add: tree_leaf_count_def length_leaf_geometries)
  show ?thesis
    using wf_tree_panes_disjoint(2) [OF assms(1) g, of LeftRight] wf_tree_panes_disjoint(2) [OF assms(1) g, of TopBottom]
    by (simp add: within_def cell_rect_def pane_rect_def new_pane_geometry_def min_def)
qed

section \<open>Zooming in and out\<close>

text \<open>A resize to the size a layout already has changes nothing.\<close>

lemma resize_axis_zero [simp]: "resize_axis c d 0 = c"
  by (simp add: resize_axis_def)

lemma resize_same:
  assumes "wf_tree t" and "lg_width (geometry (lt_root t)) = cols sz" and "lg_height (geometry (lt_root t)) = rows sz"
  shows "resize t sz = t"
  using assms wf_tree_bound [OF assms(1), of LeftRight] wf_tree_bound [OF assms(1), of TopBottom]
  by (simp add: resize_def wf_tree_def axis_size_def Let_def u32_as_i32_exact i32_wrap_exact i32_max_def)

definition zoomed_from :: "window \<Rightarrow> u32 \<Rightarrow> window \<Rightarrow> bool" where
  "zoomed_from w k w1 \<longleftrightarrow> w_zoomed w1 \<and> w_active_pane w1 = k \<and> w_size w1 = w_size w \<and> w_layout_tree w1 = w_layout_tree w
     \<and> map p_id (w_panes w1) = map p_id (w_panes w) \<and> map p_index (w_panes w1) = map p_index (w_panes w)
     \<and> map_option p_geometry (active_pane w1) = Some (full_rect (w_size w))"

lemma find_update_first: "(\<And>p. P (f p) = P p) \<Longrightarrow> List.find P (update_first P f xs) = map_option f (List.find P xs)"
  by (induction xs) simp_all

lemma update_first_ids: "(\<And>p. p_id (f p) = p_id p) \<Longrightarrow> map p_id (update_first P f ps) = map p_id ps"
  by (induction ps) simp_all

lemma select_flat:
  assumes "\<not> w_zoomed w" and "k \<in> set (map p_index (w_panes w))"
  shows "\<exists>w1. select_pane now w k = Some (w1, True) \<and> w_layout_tree w1 = w_layout_tree w \<and> w_size w1 = w_size w
    \<and> map p_id (w_panes w1) = map p_id (w_panes w) \<and> map p_index (w_panes w1) = map p_index (w_panes w) \<and> w_active_pane w1 = k"
proof -
  have "pane_at w k \<noteq> None" using pane_at_index assms(2) by blast
  moreover have "unzoom w = Some w" using assms(1) by (simp add: unzoom_def auto_unzoom_def)
  ultimately show ?thesis
    by (auto simp: select_pane_def mark_pane_active_def pane_mut_def Let_def update_first_ids update_first_indexes)
qed

lemma zoom_in:
  assumes inv: "screen_inv w" and flat: "\<not> w_zoomed w" and two: "2 \<le> length (w_panes w)" and k: "k \<in> set (map p_index (w_panes w))"
  obtains w1 where "toggle_zoom now w k = Some (w1, True)" "zoomed_from w k w1"
proof -
  obtain w1 where sel: "select_pane now w k = Some (w1, True)"
    and w1: "w_layout_tree w1 = w_layout_tree w" "w_size w1 = w_size w" "map p_id (w_panes w1) = map p_id (w_panes w)"
      "map p_index (w_panes w1) = map p_index (w_panes w)" "w_active_pane w1 = k"
    using select_flat [OF flat k] by blast
  let ?w = "apply_zoom_geometry (w1\<lparr>w_zoomed := True\<rparr>)"
  have "pane_at w k \<noteq> None" using pane_at_index k by blast
  then have "toggle_zoom now w k = Some (?w, True)" using flat two sel by (simp add: toggle_zoom_def)
  moreover have "k \<in> set (map p_index (w_panes w1))" using k w1(4) by (simp only:)
  then obtain p where "pane_at w1 k = Some p" using pane_at_index [of w1 k] by blast
  then have "zoomed_from w k ?w"
    using w1 by (simp add: zoomed_from_def apply_zoom_geometry_def pane_mut_def active_pane_def pane_at_def
        find_update_first update_first_ids update_first_indexes)
  ultimately show ?thesis by (rule that)
qed

lemma zoom_out:
  assumes inv: "screen_inv w" and flat: "\<not> w_zoomed w" and w1: "zoomed_from w k w1" and k: "k \<in> set (map p_index (w_panes w))"
    and small: "cols (w_size w) < u16_max" "rows (w_size w) < u16_max"
  obtains w2 where "toggle_zoom now w1 k = Some (w2, False)" "rects w2 = rects w" "map p_id (w_panes w2) = map p_id (w_panes w)"
proof -
  obtain t where t: "w_layout_tree w = Some t" "fits_panes t (length (w_panes w))" "wf_tree t" "tree_size t = w_size w"
    using inv tree_of [of w] by (auto simp: screen_inv_def)
  have "resize t (w_size w) = t" using resize_same [OF t(3)] tree_axes [OF t(4)] small by (simp add: axis_size_def)
  moreover have n: "length (w_panes w1) = length (w_panes w)" using w1 map_eq_imp_length_eq by (auto simp: zoomed_from_def)
  ultimately have "unzoom w1 = Some (w1\<lparr>w_zoomed := False, w_layout_tree := Some t, w_size := tree_size t,
      w_panes := laid_out t (w_panes w1)\<rparr>)" (is "_ = Some ?w2")
    using recalculate_geometry_eq [of "w1\<lparr>w_zoomed := False\<rparr>" t] t(1,2) w1
    by (simp add: unzoom_def auto_unzoom_def zoomed_from_def)
  moreover have "pane_at w1 k \<noteq> None" using pane_at_index [of w1 k] k w1 by (simp add: zoomed_from_def del: set_map)
  ultimately have "toggle_zoom now w1 k = Some (?w2, False)" using w1 by (simp add: toggle_zoom_def zoomed_from_def)
  moreover have "rects ?w2 = rects w"
    using screen_drawn [OF inv flat] n t(1) by (simp add: drawn_def rects_def cell_rects_def rects_laid_out)
  moreover have "map p_id (laid_out t (w_panes w1)) = map p_id (w_panes w1)"
    by (rule nth_equalityI) (simp_all add: laid_out_def)
  ultimately show ?thesis using w1 by (intro that [of ?w2]) (simp_all add: zoomed_from_def)
qed

end
