(* ===== verification/Window_Spec.thy ===== *)
theory Window_Spec
  imports Window_Screen_Layout Layout_Spec
begin

text \<open>
  The contract of a window, stated over the operations of \<open>window.rs\<close> and
  \<open>window/*.rs\<close>: no sequence of operations panics or breaks the invariant, and what the
  operations on the list of panes, the zoom, the layout and the activity return.
\<close>

section \<open>Sample windows\<close>

definition sample_pane :: "u32 \<Rightarrow> u32 \<Rightarrow> pane_geometry \<Rightarrow> pane" where
  "sample_pane i k g =
     \<lparr>p_id = i, p_index = k, p_geometry = g, p_active_point = 0, p_created_at = 0, p_activity_at = 0\<rparr>"

definition one_pane_window :: window where
  "one_pane_window =
     \<lparr>w_id = 3, w_panes = [sample_pane 10 0 (new_pane_geometry 0 0 11 5)], w_next_pane_index = 1,
      w_active_pane = 0, w_last_pane = None, w_layout = MainVertical, w_last_layout = None,
      w_layout_tree = Some (single \<lparr>cols = 11, rows = 5\<rparr>), w_custom_layout = False, w_old_layout = None,
      w_size = \<lparr>cols = 11, rows = 5\<rparr>, w_name = None, w_automatic_rename = True, w_zoomed = False,
      w_zoom_restore_pending = False, w_alert_flags = 0, w_alerts_queued = False, w_created_at = 0,
      w_activity_at = 0, w_requested_main_width = None, w_requested_main_height = None\<rparr>"

text \<open>Two panes side by side, the left one active, in the given layout tree.\<close>

definition two_pane_window :: "layout_tree \<Rightarrow> window" where
  "two_pane_window t = one_pane_window\<lparr>
     w_panes := [sample_pane 10 0 (new_pane_geometry 0 0 5 5), sample_pane 11 1 (new_pane_geometry 6 0 5 5)],
     w_next_pane_index := 2, w_layout_tree := Some t\<rparr>"

lemmas sample_defs = two_pane_window_def one_pane_window_def sample_pane_def

lemma fits_two_panes [simp]: "fits_panes two_panes 2" "fits_panes two_panes (Suc (Suc 0))"
  by (simp_all add: fits_panes_def two_panes_def tree_leaf_count_def)

lemma two_pane_inv [simp]: "window_inv (two_pane_window two_panes)"
  by (simp add: window_inv_def tree_inv_def ids_inv_def index_inv_def u32_max_def sample_defs)

lemma one_pane_new: "new_with_initial_pane 0 \<lparr>cols = 11, rows = 5\<rparr> 10 3 = Some one_pane_window"
proof -
  have "wf_tree (single \<lparr>cols = 11, rows = 5\<rparr>)"
    by (simp add: wf_tree_def single_def leaf_map_ok_def i32_max_def new_geometry_def)
  then have "resize (single \<lparr>cols = 11, rows = 5\<rparr>) \<lparr>cols = 11, rows = 5\<rparr> = single \<lparr>cols = 11, rows = 5\<rparr>"
    by (rule resize_same) (simp_all add: single_def new_geometry_def)
  then show ?thesis
    by (simp add: new_with_initial_pane_def recalculate_geometry_def apply_to_panes_def pane_leaf_def list_get_def
        new_geometry_def single_def tree_size_def u32_to_u16_def u16_max_def pane_rect_def pane_new_with_id_def full_rect_def
        new_pane_geometry_def sample_defs)
qed

lemma one_pane_reachable: "reachable one_pane_window"
  by (rule reachable.new [OF one_pane_new])

lemma one_pane_calm: "calm_reachable one_pane_window"
  by (rule calm_reachable.new [OF _ _ _ one_pane_new]) (simp_all add: valid_size_def u16_max_def)

text \<open>The window after a split of the only pane, by evaluation.\<close>

definition split_window :: window where
  "split_window = (two_pane_window two_panes)\<lparr>
     w_panes := [sample_pane 10 0 (new_pane_geometry 0 0 5 5),
       (sample_pane 11 1 (new_pane_geometry 6 0 5 5))\<lparr>p_active_point := 1\<rparr>],
     w_active_pane := 1, w_last_pane := Some 0\<rparr>"

lemma split_single: "split_leaf (single \<lparr>cols = 11, rows = 5\<rparr>) 0 LeftRight False = (two_panes, True)"
  by (simp add: split_leaf_def leaf_paths_def list_get_def split_leaf_cell_def split_leaf_into_children_def splittable_def
      split_second_size_def split_first_size_def single_def two_panes_def new_geometry_def clamp_def
      PANE_BORDER_CELLS_def PANE_MINIMUM_def machine_defs)

lemma apply_two_panes:
  "apply_to_panes two_panes [p, q] = Some [p\<lparr>p_geometry := new_pane_geometry 0 0 5 5\<rparr>, q\<lparr>p_geometry := new_pane_geometry 6 0 5 5\<rparr>]"
  by (simp add: apply_to_panes_def pane_leaf_def list_get_def two_panes_def pane_rect_def new_geometry_def u16_max_def)

lemma split_window_run: "window_run 0 one_pane_window (EvSplit 0 11 Vertical False False) = Some split_window"
proof -
  have "unzoom one_pane_window = Some one_pane_window" by (simp add: unzoom_def auto_unzoom_def one_pane_window_def)
  moreover have "allocate_pane_index (one_pane_window\<lparr>w_layout := MainVertical\<rparr>)
      = Some (one_pane_window\<lparr>w_layout := MainVertical, w_next_pane_index := 2\<rparr>, 1)"
    by (simp add: allocate_pane_index_def one_pane_window_def u32_max_def)
  ultimately show ?thesis
    by (simp add: split_at_position_detached_def list_insert_def apply_or_rebuild_def with_tree_def Let_def
        split_single apply_layout_tree_def apply_two_panes pane_new_with_id_def commit_split_renumber_def
        renumber_panes_by_position_def pane_index_for_id_def mark_pane_active_def pane_mut_def active_pane_def pane_at_def
        u32_wrap_def split_window_def sample_defs u64_max_def)
qed

lemma split_calm: "calm_reachable split_window"
  by (rule calm_reachable.step [OF one_pane_calm _ _ split_window_run]) (simp_all add: sample_defs machine_defs)

section \<open>Safety\<close>

text \<open>
  C3: no panic. On every window reachable from a new one, every operation a caller may ask for
  (with a fresh pane id and a position in range where the source asserts them) returns, and the
  result satisfies the invariant: one layout cell per pane, unique pane ids and numbers, an active
  pane that exists, a last pane that exists and is another one, and a free pane number.
\<close>

theorem reachable_windows_never_panic:
  assumes "reachable w" and "admits w ev"
  shows "\<exists>w'. window_run now w ev = Some w' \<and> reachable w' \<and> window_inv w'"
proof -
  obtain w' where "window_run now w ev = Some w'" "window_inv w'"
    using window_run_inv [OF reachable_inv [OF assms(1)] assms(2)] by (auto elim: returnsE)
  then show ?thesis using reachable.step [OF assms] by blast
qed

theorem reachable_windows_never_panic_witness:
  "\<exists>w'. window_run 0 one_pane_window (EvSplit 0 11 Vertical False False) = Some w' \<and> reachable w' \<and> window_inv w'"
  by (rule reachable_windows_never_panic [OF one_pane_reachable]) (simp add: sample_defs u32_max_def)

section \<open>The panes\<close>

text \<open>
  C8: splitting a pane puts the new pane directly after the target, or before it, in the list of
  panes; all panes are renumbered by position, the number of the new pane is returned, and the new
  pane is active unless the split is detached, when the active pane stays.
\<close>

theorem split_pane_spec:
  assumes "window_inv w" and "pos < length (w_panes w)" and "i \<notin> set (map p_id (w_panes w))"
    and "Suc (length (w_panes w)) < u32_max"
  shows "\<exists>w' index. split_at_position_detached now w pos i d ahead detached = Some (w', index)
    \<and> window_inv w'
    \<and> map p_id (w_panes w') = list_insert (map p_id (w_panes w)) (if ahead then pos else pos + 1) i
    \<and> map p_index (w_panes w') = [0..<length (w_panes w')]
    \<and> pane_index_for_id w' i = Some index
    \<and> map_option p_id (active_pane w') = (if detached then map_option p_id (active_pane w) else Some i)"
  using split_inv [OF assms, of now d ahead detached] by (fastforce elim!: returnsE)

theorem split_pane_spec_witness:
  "\<exists>w' index. split_at_position_detached 0 (two_pane_window two_panes) 0 12 Horizontal False False = Some (w', index)
    \<and> map p_id (w_panes w') = [10, 12, 11] \<and> map_option p_id (active_pane w') = Some 12"
  using split_pane_spec [OF two_pane_inv, of 0 12 0 Horizontal False False]
  by (auto simp: sample_defs u32_max_def list_insert_def)

text \<open>
  C9: removing a pane from a window with at least two returns that pane, keeps the others in order
  and renumbers them by position; the active pane stays active unless it is the one removed.
\<close>

theorem extract_pane_spec:
  assumes "window_inv w" and "pane_position w k = Some pos" and "2 \<le> length (w_panes w)"
  shows "\<exists>w' p. extract_pane w k = Some (w', Some p) \<and> window_inv w'
    \<and> p_id p = p_id (w_panes w ! pos) \<and> p_index p = k
    \<and> map p_id (w_panes w') = list_remove (map p_id (w_panes w)) pos
    \<and> map p_index (w_panes w') = [0..<length (w_panes w')]
    \<and> (w_active_pane w \<noteq> k \<longrightarrow> map_option p_id (active_pane w') = map_option p_id (active_pane w))"
  using extract_pane_inv [OF assms] by (fastforce elim!: returnsE)

theorem extract_pane_spec_witness:
  "\<exists>w' p. extract_pane (two_pane_window two_panes) 1 = Some (w', Some p) \<and> p_id p = 11
    \<and> map p_id (w_panes w') = [10] \<and> map_option p_id (active_pane w') = Some 10"
  using extract_pane_spec [OF two_pane_inv, of 1 1]
  by (auto simp: sample_defs pane_position_def list_remove_def active_pane_def pane_at_def)

text \<open>
  moving a pane beside another one. A refused move leaves the panes, their numbers and the
  active pane as they are. A move that succeeds returns the id of the pane at the source position
  and puts that pane at the insert position among the others.
\<close>

theorem move_pane_spec:
  assumes "window_inv w"
  shows "\<exists>w' r. move_pane_by_splitting_target w src tgt k d ahead = Some (w', r) \<and> window_inv w'
    \<and> (case r of Inl _ \<Rightarrow> same_roster w w'
       | Inr i \<Rightarrow> src < length (w_panes w) \<and> i = p_id (w_panes w ! src)
           \<and> map p_id (w_panes w') = list_insert (list_remove (map p_id (w_panes w)) src) k i)"
  using move_pane_inv [OF assms, of src tgt k d ahead] by (fastforce elim!: returnsE)

theorem move_pane_spec_witness:
  "\<exists>w' r. move_pane_by_splitting_target (two_pane_window two_panes) 0 1 1 Horizontal False = Some (w', r) \<and> window_inv w'"
  using move_pane_spec [OF two_pane_inv, of 0 1 1 Horizontal False] by blast

text \<open>
  inserting a pane that comes from another window is refused exactly when the position is out of
  range or the id or the number of the pane is taken, and then changes nothing. Otherwise the pane
  is inserted at the position.
\<close>

theorem insert_pane_spec:
  assumes "window_inv w" and "Suc (p_index p) < u32_max" and "Suc (length (w_panes w)) < u32_max"
  shows "\<exists>w' r. insert_pane_at_position w pos p d = Some (w', r) \<and> window_inv w'
    \<and> (r = Inr () \<longleftrightarrow> pos \<le> length (w_panes w) \<and> p_id p \<notin> set (map p_id (w_panes w))
          \<and> p_index p \<notin> set (map p_index (w_panes w)))
    \<and> (if r = Inr () then map p_id (w_panes w') = list_insert (map p_id (w_panes w)) pos (p_id p) else w' = w)"
  using insert_pane_inv [OF assms, of pos d] by (fastforce elim!: returnsE)

theorem insert_pane_spec_witness:
  "\<exists>w'. insert_pane_at_position (two_pane_window two_panes) 2 (sample_pane 12 7 (new_pane_geometry 0 0 80 24)) Vertical
      = Some (w', Inr ()) \<and> map p_id (w_panes w') = [10, 11, 12]"
  using insert_pane_spec [OF two_pane_inv, of "sample_pane 12 7 (new_pane_geometry 0 0 80 24)" 2 Vertical]
  by (auto simp: sample_defs u32_max_def list_insert_def)

text \<open>
  rotating the panes of a window with several moves the last pane to the front, or the first to
  the back, keeps every other in order, and the invariant. Rotating down and then up gives back the
  order of the panes.
\<close>

theorem rotate_panes_spec:
  assumes "window_inv w"
  shows "\<exists>w1 w2. rotate_panes_with_zoom now w RotateDown restore = Some w1
    \<and> rotate_panes_with_zoom now w1 RotateUp restore' = Some w2 \<and> window_inv w1 \<and> window_inv w2
    \<and> map p_id (w_panes w1) = (if length (w_panes w) \<le> 1 then map p_id (w_panes w)
         else last (map p_id (w_panes w)) # butlast (map p_id (w_panes w)))
    \<and> map p_id (w_panes w2) = map p_id (w_panes w)"
proof -
  obtain w1 where w1: "rotate_panes_with_zoom now w RotateDown restore = Some w1" "window_inv w1"
    "map p_id (w_panes w1) = (if length (w_panes w) \<le> 1 then map p_id (w_panes w) else rotated RotateDown (map p_id (w_panes w)))"
    using rotate_inv [OF assms, of now RotateDown restore] by (auto elim!: returnsE)
  obtain w2 where w2: "rotate_panes_with_zoom now w1 RotateUp restore' = Some w2" "window_inv w2"
    "map p_id (w_panes w2) = (if length (w_panes w1) \<le> 1 then map p_id (w_panes w1) else rotated RotateUp (map p_id (w_panes w1)))"
    using rotate_inv [OF w1(2), of now RotateUp restore'] by (auto elim!: returnsE)
  have ne: "map p_id (w_panes w) \<noteq> []" using assms by (simp add: window_inv_def ids_inv_def)
  have "length (w_panes w1) = length (w_panes w)"
    using arg_cong [OF w1(3), of length] rotated_same(1) [OF ne, of RotateDown] by (simp split: if_splits)
  moreover have "rotated RotateUp (rotated RotateDown (map p_id (w_panes w))) = map p_id (w_panes w)"
    using ne by (simp add: rotated_def del: map_is_Nil_conv)
  ultimately have "map p_id (w_panes w2) = map p_id (w_panes w)" using w1(3) w2(3) by (simp split: if_splits)
  with w1 w2 show ?thesis by (simp add: rotated_def)
qed

theorem rotate_panes_spec_witness:
  "\<exists>w1. rotate_panes_with_zoom 0 (two_pane_window two_panes) RotateDown False = Some w1 \<and> map p_id (w_panes w1) = [11, 10]"
  using rotate_panes_spec [OF two_pane_inv, of 0 False False] by (auto simp: sample_defs)

text \<open>
  selecting a neighbour. When no pane touches the given one on that side, nothing changes.
  Otherwise the pane that becomes active, and is returned, is one of those that do, and none of
  them was active more recently.
\<close>

theorem select_adjacent_spec:
  assumes "window_inv w" and "pane_at w i = Some s"
  shows "\<exists>w'. select_adjacent_pane now w i d = Some (w', Some (w_active_pane w')) \<and> window_inv w'
    \<and> (if neighbours w s d = [] then w' = w
       else \<exists>p \<in> set (neighbours w s d). p_index p = w_active_pane w'
              \<and> (\<forall>q \<in> set (neighbours w s d). p_active_point q \<le> p_active_point p))"
  using select_adjacent_pane_Some [OF assms, of now d] by (fastforce elim!: returnsE)

theorem select_adjacent_spec_witness:
  "\<exists>w'. select_adjacent_pane 0 (two_pane_window two_panes) 0 SelectRight = Some (w', Some (w_active_pane w'))
    \<and> w_active_pane w' = 1"
proof -
  let ?w = "two_pane_window two_panes" and ?s = "sample_pane 10 0 (new_pane_geometry 0 0 5 5)"
  have "pane_at ?w 0 = Some ?s" by (simp add: pane_at_def sample_defs)
  moreover have "neighbours ?w ?s SelectRight = [sample_pane 11 1 (new_pane_geometry 6 0 5 5)]"
    by (simp add: neighbours_def adjacent_pane_score_def tmux_axis_overlap_def new_pane_geometry_def Let_def sample_defs)
  ultimately show ?thesis
    using select_adjacent_spec [OF two_pane_inv, of 0 ?s 0 SelectRight] by (auto simp: sample_pane_def)
qed

section \<open>What is shown\<close>

text \<open>
  C4: in a window reached by operations other than layout strings, spreading, crowded full-size
  insertions and zero main-pane sizes, and not zoomed, every pane lies inside the window and any two
  panes are separated by a border cell. The size must be below the \<open>u16\<close> limit, where sizes
  are cut off.
\<close>

theorem panes_of_window_apart:
  assumes "calm_reachable w" and "\<not> w_zoomed w" and "cols (w_size w) < u16_max" and "rows (w_size w) < u16_max"
    and "i < length (w_panes w)" and "j < length (w_panes w)" and "i \<noteq> j"
  shows "apart (p_geometry (w_panes w ! i)) (p_geometry (w_panes w ! j))
    \<and> pg_x (p_geometry (w_panes w ! i)) + pg_cols (p_geometry (w_panes w ! i)) \<le> cols (w_size w)
    \<and> pg_y (p_geometry (w_panes w ! i)) + pg_rows (p_geometry (w_panes w ! i)) \<le> rows (w_size w)"
proof -
  have inv: "screen_inv w" by (rule calm_reachable_screen [OF assms(1)])
  then obtain t where t: "w_layout_tree w = Some t" "fits_panes t (length (w_panes w))" "wf_tree t" "tree_size t = w_size w"
    using tree_of [of w] by (auto simp: screen_inv_def)
  have g: "p_geometry (w_panes w ! k) = cell_rect t k" if "k < length (w_panes w)" for k
  proof -
    have "rects w ! k = cell_rects w ! k" using screen_drawn [OF inv assms(2)] by (simp add: drawn_def)
    then show ?thesis using that by (simp add: rects_def cell_rects_def t(1))
  qed
  have ax: "axis_size (lt_root t) LeftRight = cols (w_size w)" "axis_size (lt_root t) TopBottom = rows (w_size w)"
    using tree_axes [OF t(4)] assms(3,4) by simp_all
  have n: "i < tree_leaf_count t" "j < tree_leaf_count t" using t(2) assms(5,6) by (simp_all add: fits_panes_def)
  show ?thesis
    using drawn_apart [OF t(3) _ _ n assms(7)] cell_rect_inside [OF t(3) n(1)] ax assms(3,4) g [OF assms(5)] g [OF assms(6)]
    by simp
qed

theorem panes_of_window_apart_witness:
  "apart (p_geometry (w_panes split_window ! 0)) (p_geometry (w_panes split_window ! 1))"
  using panes_of_window_apart [OF split_calm, of 0 1] by (simp add: split_window_def sample_defs u16_max_def)

text \<open>
  C15: zooming a pane of such a window and zooming again. The first call makes the pane active and
  gives it the whole window; the second restores the rectangle of every pane.
\<close>

theorem zoom_round_trip:
  assumes "calm_reachable w" and "\<not> w_zoomed w" and "2 \<le> length (w_panes w)" and "k \<in> set (map p_index (w_panes w))"
    and "cols (w_size w) < u16_max" and "rows (w_size w) < u16_max"
  shows "\<exists>w1 w2. toggle_zoom now w k = Some (w1, True) \<and> toggle_zoom now' w1 k = Some (w2, False)
    \<and> w_active_pane w1 = k \<and> map_option p_geometry (active_pane w1) = Some (full_rect (w_size w))
    \<and> map p_geometry (w_panes w2) = map p_geometry (w_panes w) \<and> map p_id (w_panes w2) = map p_id (w_panes w)"
proof -
  have inv: "screen_inv w" by (rule calm_reachable_screen [OF assms(1)])
  obtain w1 where w1: "toggle_zoom now w k = Some (w1, True)" "zoomed_from w k w1" using zoom_in [OF inv assms(2-4)] .
  obtain w2 where "toggle_zoom now' w1 k = Some (w2, False)" "rects w2 = rects w" "map p_id (w_panes w2) = map p_id (w_panes w)"
    using zoom_out [OF inv assms(2) w1(2) assms(4-6)] .
  with w1 show ?thesis by (auto simp: rects_def zoomed_from_def)
qed

theorem zoom_round_trip_witness:
  "\<exists>w1 w2. toggle_zoom 0 split_window 0 = Some (w1, True) \<and> toggle_zoom 0 w1 0 = Some (w2, False)
    \<and> map p_geometry (w_panes w2) = map p_geometry (w_panes split_window)"
  using zoom_round_trip [OF split_calm, of 0 0 0] by (auto simp: split_window_def sample_defs u16_max_def)

section \<open>Layouts\<close>

lemma cycle_back: "\<exists>l1. next_cycle_layout (Some l) = Some l1 \<and> previous_cycle_layout (Some l1) = Some (unmirrored l)"
  by (cases l) (simp_all add: next_cycle_layout_def previous_cycle_layout_def cycle_position_def unmirrored_def
      LAYOUT_CYCLE_def list_get_def)

lemma set_layout_chosen:
  assumes "window_inv w"
  shows "\<exists>w'. set_layout_with_main_pane_size w l mw mh = Some w' \<and> keeps_roster w w' \<and> w_last_layout w' = Some l \<and> w_layout w' = l"
proof -
  obtain w1 where w1: "unzoom w = Some w1" "window_inv w1" "same_roster w w1" using unzoomed_inv [OF assms] .
  let ?w = "w1\<lparr>w_layout := l, w_last_layout := Some l, w_requested_main_width := mw, w_requested_main_height := mh\<rparr>"
  have "w_panes ?w \<noteq> []" using w1(2) by (simp add: window_inv_def ids_inv_def)
  from rebuild_named_eq [OF this, of l] show ?thesis
    using set_layout_inv [OF assms, of l mw mh] w1(1) by (simp add: set_layout_with_main_pane_size_def)
qed

text \<open>
  stepping to the next layout and back to the previous one returns to the layout chosen before,
  or to its unmirrored form, and the window then has exactly one cell per pane of that layout.
\<close>

theorem layout_cycle_round_trip:
  assumes "window_inv w" and "w_last_layout w = Some l"
  shows "\<exists>w1 l1 w2. next_layout_with_main_pane_size w mw mh = Some (w1, l1)
    \<and> previous_layout_with_main_pane_size w1 mw' mh' = Some (w2, unmirrored l)
    \<and> w_layout w2 = unmirrored l \<and> w_layout_tree w2 \<noteq> None
    \<and> map p_id (w_panes w2) = map p_id (w_panes w) \<and> window_inv w2"
proof -
  obtain l1 where l1: "next_cycle_layout (Some l) = Some l1" "previous_cycle_layout (Some l1) = Some (unmirrored l)"
    using cycle_back [of l] by blast
  obtain w1 where w1: "set_layout_with_main_pane_size w l1 mw mh = Some w1" "keeps_roster w w1" "w_last_layout w1 = Some l1"
    using set_layout_chosen [OF assms(1), of l1 mw mh] by blast
  then obtain w2 where w2: "set_layout_with_main_pane_size w1 (unmirrored l) mw' mh' = Some w2" "keeps_roster w1 w2"
    "w_layout w2 = unmirrored l"
    using set_layout_chosen [of w1 "unmirrored l" mw' mh'] by blast
  then have "map p_id (w_panes w2) = map p_id (w_panes w)"
    using w1(2) same_roster_ids(1) [of w1 w2] same_roster_ids(1) [of w w1] by simp
  moreover have "w_layout_tree w2 \<noteq> None" using w2(2) by (auto simp: window_inv_def tree_inv_def)
  ultimately show ?thesis
    using l1 w1 w2 assms(2) by (simp add: next_layout_with_main_pane_size_def previous_layout_with_main_pane_size_def)
qed

theorem layout_cycle_round_trip_witness:
  "\<exists>w1 l1 w2. next_layout_with_main_pane_size (two_pane_window two_panes\<lparr>w_last_layout := Some Tiled\<rparr>) None None = Some (w1, l1)
    \<and> previous_layout_with_main_pane_size w1 None None = Some (w2, Tiled)"
proof -
  have "window_inv (two_pane_window two_panes\<lparr>w_last_layout := Some Tiled\<rparr>)" using two_pane_inv by (simp only: window_inv_fields)
  then show ?thesis
    using layout_cycle_round_trip [of "two_pane_window two_panes\<lparr>w_last_layout := Some Tiled\<rparr>" Tiled None None None None]
    by (auto simp: unmirrored_def)
qed

text \<open>
  C16: resizing a pane by a number of cells in one of the four main layouts (and no layout string applied
  since) records as requested main size the size that the pane numbered 0 had before the resize, in the
  window without zoom, and not the size it gets: the columns in the two vertical main layouts, the rows in
  the two horizontal ones.
\<close>

theorem resize_by_records_old_size:
  assumes "\<not> w_custom_layout w" and "unzoom w = Some w1" and "resize_pane_by w k adjustment = Some (w', True)"
  shows "(w_layout w = MainVertical \<or> w_layout w = MainVerticalMirrored \<longrightarrow>
      w_requested_main_width w' = map_option (\<lambda>p. pg_cols (p_geometry p)) (pane_at w1 0))
    \<and> (w_layout w = MainHorizontal \<or> w_layout w = MainHorizontalMirrored \<longrightarrow>
      w_requested_main_height w' = map_option (\<lambda>p. pg_rows (p_geometry p)) (pane_at w1 0))"
proof -
  obtain t where t: "apply_layout_tree (sync_requested_main_size (w1\<lparr>w_layout_tree := t\<rparr>)) = Some w'"
    using assms(2,3) by (auto simp: resize_pane_by_def with_tree_def Let_def bind_eq_Some_conv split: option.splits prod.splits if_splits)
  let ?w = "sync_requested_main_size (w1\<lparr>w_layout_tree := t\<rparr>)"
  have "w_requested_main_width w' = w_requested_main_width ?w" "w_requested_main_height w' = w_requested_main_height ?w"
    using t by (auto simp: apply_layout_tree_def bind_eq_Some_conv split: option.splits)
  moreover have "w_layout w1 = w_layout w" "w_custom_layout w1 = w_custom_layout w"
    using assms(2) by (auto simp: unzoom_def auto_unzoom_def recalculate_geometry_def bind_eq_Some_conv Let_def
        split: if_splits option.splits)
  ultimately show ?thesis using assms(1) by (auto simp: sync_requested_main_size_def pane_at_def)
qed

lemma resize_two_panes:
  "tree_resize_pane_by two_panes 0 LeftRight 2 =
     (\<lparr>lt_root = Split (new_geometry 11 5 0 0) LeftRight
        [Pane (new_geometry 7 5 0 0), Pane (new_geometry 3 5 8 0)], lt_leaf_map = None\<rparr>, True)"
proof -
  have handle: "find_resize_handle two_panes 0 LeftRight = Some ([], 0)"
    by (simp add: find_resize_handle_def leaf_paths_def list_get_def two_panes_def find_resize_handle_from.simps)
  have leaf: "pane_leaf two_panes 0 = Some 0" by (simp add: pane_leaf_def two_panes_def)
  show ?thesis
    by (simp add: tree_resize_pane_by_def leaf resize_leaf_by_def handle)
      (simp add: two_panes_def resize_layout_def resize_loop.simps resize_step_def resize_pane_grow_def resize_children_def
        Let_def machine_defs resize_check.simps resize_adjust_def PANE_MINIMUM_def PANE_BORDER_CELLS_def new_geometry_def
        axis_size_def upt_rec)
qed

theorem resize_by_records_old_size_witness:
  "\<exists>w'. resize_pane_by (two_pane_window two_panes) 0 (ResizeRight 2) = Some (w', True)
    \<and> w_requested_main_width w' = Some 5 \<and> map_option (\<lambda>p. pg_cols (p_geometry p)) (pane_at w' 0) = Some 7"
proof -
  let ?w = "two_pane_window two_panes"
  have "\<exists>w'. resize_pane_by ?w 0 (ResizeRight 2) = Some (w', True)
      \<and> map_option (\<lambda>p. pg_cols (p_geometry p)) (pane_at w' 0) = Some 7"
    by (simp add: resize_pane_by_def pane_position_def sample_defs unzoom_def auto_unzoom_def with_tree_def resize_two_panes
        apply_layout_tree_def sync_requested_main_size_def)
      (simp add: apply_to_panes_def pane_leaf_def list_get_def pane_rect_def new_geometry_def new_pane_geometry_def
        u16_max_def pane_at_def)
  then obtain w' where w': "resize_pane_by ?w 0 (ResizeRight 2) = Some (w', True)"
    "map_option (\<lambda>p. pg_cols (p_geometry p)) (pane_at w' 0) = Some 7" by blast
  moreover have "w_requested_main_width w' = map_option (\<lambda>p. pg_cols (p_geometry p)) (pane_at ?w 0)"
    using resize_by_records_old_size [OF _ _ w'(1), of ?w] by (simp add: sample_defs unzoom_def auto_unzoom_def)
  ultimately show ?thesis by (auto simp: sample_defs pane_at_def new_pane_geometry_def)
qed

text \<open>
  C17: applying a layout string to a zoomed window leaves it marked as zoomed, while every pane,
  the active one included, gets the rectangle of its cell.
\<close>

theorem custom_layout_keeps_zoom_flag:
  assumes "window_inv w" and "w_zoomed w" and "parse s (length (w_panes w)) = Inr t"
  shows "\<exists>w'. apply_custom_layout w s = Some (w', Inr ()) \<and> w_zoomed w'
    \<and> map p_geometry (w_panes w') = map (cell_rect t) [0..<length (w_panes w)]"
proof -
  have "w_panes w \<noteq> []" using assms(1) by (simp add: window_inv_def ids_inv_def)
  then show ?thesis
    using assms fits_parse [OF assms(3)] apply_layout_tree_eq
      [of "w\<lparr>w_size := tree_size t, w_layout_tree := Some t, w_custom_layout := True\<rparr>" t]
    by (simp add: apply_custom_layout_def rects_laid_out)
qed

theorem custom_layout_keeps_zoom_flag_witness:
  "\<exists>w'. apply_custom_layout (two_pane_window two_panes\<lparr>w_zoomed := True\<rparr>) (dump two_panes [10, 11]) = Some (w', Inr ())
    \<and> w_zoomed w' \<and> map p_geometry (w_panes w') = [new_pane_geometry 0 0 5 5, new_pane_geometry 6 0 5 5]"
proof -
  have "parse (dump two_panes [10, 11]) (Suc (Suc 0)) = Inr \<lparr>lt_root = lt_root two_panes, lt_leaf_map = None\<rparr>"
    using parse_dump_root [of two_panes "[10, 11]"] wf_two_panes
    by (simp add: tree_leaf_count_def two_panes_def u32_max_def MAX_LAYOUT_PARSE_DEPTH_def)
  then have "parse (dump two_panes [10, 11]) (Suc (Suc 0)) = Inr two_panes" by (simp add: two_panes_def)
  moreover have "cell_rect two_panes 0 = new_pane_geometry 0 0 5 5" "cell_rect two_panes 1 = new_pane_geometry 6 0 5 5"
    by (simp_all add: cell_rect_def slot_def two_panes_def pane_rect_def new_geometry_def u16_max_def)
  moreover have "window_inv (two_pane_window two_panes\<lparr>w_zoomed := True\<rparr>)" using two_pane_inv by (simp only: window_inv_fields)
  ultimately show ?thesis
    using custom_layout_keeps_zoom_flag [of "two_pane_window two_panes\<lparr>w_zoomed := True\<rparr>" "dump two_panes [10, 11]" two_panes]
    by (simp add: sample_defs upt_rec)
qed

section \<open>Splits of mirrored layouts\<close>

lemma split_tree:
  assumes "\<not> w_zoomed w" and "w_layout_tree w = Some t" and "split_leaf t pos (from_split_direction d) ahead = (t', True)"
    and "split_at_position_detached now w pos i d ahead detached = Some (w', k)"
  shows "w_layout_tree w' = Some t'" "\<not> w_zoomed w'"
proof -
  have "unzoom w = Some w" using assms(1) by (simp add: unzoom_def auto_unzoom_def)
  then obtain w3 n w5 where w3: "allocate_pane_index (w\<lparr>w_layout := layout_for_split d\<rparr>) = Some (w3, n)"
    and w5: "apply_or_rebuild (with_tree (w3\<lparr>w_panes := list_insert (w_panes w3) (if ahead then pos else pos + 1)
        (pane_new_with_id now i n (new_pane_geometry 0 0 0 0))\<rparr>) (\<lambda>t. split_leaf t pos (from_split_direction d) ahead)) = Some w5"
    and w6: "commit_split_renumber now w5 i (map_option p_id (active_pane (w\<lparr>w_layout := layout_for_split d\<rparr>)))
        (last_pane_id (w\<lparr>w_layout := layout_for_split d\<rparr>)) detached = Some w'"
    using assms(4) by (auto simp: split_at_position_detached_def Let_def bind_eq_Some_conv split: if_splits)
  have "w_layout_tree w3 = Some t" "\<not> w_zoomed w3"
    using w3 assms(1,2) by (auto simp: allocate_pane_index_def split: if_splits)
  then have "w_layout_tree w5 = Some t'" "\<not> w_zoomed w5"
    using w5 assms(3) by (auto simp: apply_or_rebuild_def with_tree_def apply_layout_tree_def Let_def bind_eq_Some_conv)
  then show "w_layout_tree w' = Some t'" "\<not> w_zoomed w'" using commit_split_looks [OF w6] by (simp_all add: looks_def)
qed

lemma fixed_unmapped [simp]: "lt_leaf_map (fixed c) = None"
  by (simp add: fixed_def)

lemma split_leaf_unmapped:
  assumes "2 \<le> leaf_count (lt_root t)" and "i < leaf_count (lt_root t)" and "split_leaf t i d b = (t', True)"
  shows "lt_leaf_map t' = None"
proof -
  obtain p where p: "list_get (leaf_paths t) i = Some p" "p \<noteq> []"
  proof
    show "list_get (leaf_paths t) i = Some (collect_leaf_paths (lt_root t) [] ! i)"
      using assms(2) by (simp add: leaf_paths_def list_get_def length_leaf_paths)
    show "collect_leaf_paths (lt_root t) [] ! i \<noteq> []" using leaf_path_nth [OF assms(2)] assms(1) by (cases "lt_root t") auto
  qed
  show ?thesis
  proof (cases "cell_at_path (lt_root t) (butlast p)")
    case None
    then show ?thesis using assms(3) p by (simp add: split_leaf_def)
  next
    case (Some parent)
    show ?thesis
    proof (cases parent)
      case (Pane g)
      then show ?thesis using Some assms(3) p by (simp add: split_leaf_def)
    next
      case (Split g pd cs)
      show ?thesis using assms(3)
        unfolding split_leaf_def p(1) option.case if_not_P [OF p(2)] Some Split layout_cell.case Let_def
        by (cases "pd = d") (auto split: option.splits prod.splits simp del: if_split)
    qed
  qed
qed

text \<open>
  C18: splits ignore the leaf map of a mirrored layout. In a window that is not zoomed, whose layout maps the
  pane at a position to another cell than the one of that number, a split of that pane divides the cell in
  which another pane is shown. Afterwards the layout has no leaf map, so the panes fill the cells in the
  order of the list and change their places.
\<close>

theorem mirrored_split_divides_other_pane:
  assumes "calm_reachable w" and "\<not> w_zoomed w" and "w_layout_tree w = Some t" and "lt_leaf_map t = Some m"
    and "pos < length (w_panes w)" and "m ! pos \<noteq> pos"
    and "3 \<le> axis_of (collect_leaf_geometries (lt_root t) ! pos) (from_split_direction d)"
    and "i \<notin> set (map p_id (w_panes w))" and "2 * Suc (length (w_panes w)) \<le> i32_max"
  shows "\<exists>other w' k t'. other < length (w_panes w) \<and> other \<noteq> pos
    \<and> p_geometry (w_panes w ! other) = pane_rect (collect_leaf_geometries (lt_root t) ! pos)
    \<and> split_at_position_detached now w pos i d ahead detached = Some (w', k)
    \<and> w_layout_tree w' = Some t' \<and> lt_leaf_map t' = None
    \<and> leaf_dims (lt_root t') = take pos (leaf_dims (lt_root t))
        @ halves (from_split_direction d) (leaf_dims (lt_root t) ! pos) @ drop (Suc pos) (leaf_dims (lt_root t))
    \<and> map p_geometry (w_panes w') = map pane_rect (collect_leaf_geometries (lt_root t'))"
proof -
  let ?n = "length (w_panes w)"
  have inv: "screen_inv w" by (rule calm_reachable_screen [OF assms(1)])
  then have wf: "wf_tree t" and fits: "fits_panes t ?n" and drawn: "rects w = cell_rects w" and win: "window_inv w"
    using screen_drawn [OF inv assms(2)] assms(3) by (auto simp: screen_inv_def wf_layout_def window_inv_def tree_inv_def drawn_def)
  then have n: "leaf_count (lt_root t) = ?n" "2 \<le> ?n" "length m = ?n"
    using assms(4) by (simp_all add: fits_panes_def tree_leaf_count_def)
  have "set m = {..<?n}" using wf assms(4) n(1) by (simp add: wf_tree_def leaf_map_ok_def)
  then obtain other where other: "other < ?n" "m ! other = pos" using assms(5) n(3) by (metis in_set_conv_nth lessThan_iff)
  then have "p_geometry (w_panes w ! other) = cell_rect t other"
    using arg_cong [OF drawn, of "\<lambda>xs. xs ! other"] assms(3) by (simp add: rects_def cell_rects_def)
  then have geo: "p_geometry (w_panes w ! other) = pane_rect (collect_leaf_geometries (lt_root t) ! pos)"
    using other(2) assms(4) by (simp add: cell_rect_def slot_def)
  obtain t' where split: "split_leaf t pos (from_split_direction d) ahead = (t', True)"
    "leaf_dims (lt_root t') = take pos (leaf_dims (lt_root t))
        @ halves (from_split_direction d) (leaf_dims (lt_root t) ! pos) @ drop (Suc pos) (leaf_dims (lt_root t))"
    using split_leaf_outcome [OF wf, of pos "from_split_direction d" ahead] assms(5,7) n(1)
    by (auto simp: split_outcome_def split: prod.splits)
  have map: "lt_leaf_map t' = None" by (rule split_leaf_unmapped [OF _ _ split(1)]) (use n assms(5) in simp_all)
  have room: "Suc ?n < u32_max" using assms(9) by (simp add: machine_defs)
  obtain w' k where run: "split_at_position_detached now w pos i d ahead detached = Some (w', k)" and win': "window_inv w'"
    using split_inv [OF win assms(5,8) room, of now d ahead detached] by (auto elim!: returnsE)
  note tree = split_tree [OF assms(2,3) split(1) run]
  have "shown w'" using split_screen [OF inv assms(9) run] by simp
  then have "map p_geometry (w_panes w') = map (cell_rect t') [0..<length (w_panes w')]"
    using tree by (simp add: shown_def rects_def cell_rects_def)
  moreover have "length (w_panes w') = length (collect_leaf_geometries (lt_root t'))"
    using win' tree(1) by (simp add: window_inv_def tree_inv_def fits_panes_def tree_leaf_count_def length_leaf_geometries)
  moreover have "map (cell_rect t') [0..<length (collect_leaf_geometries (lt_root t'))] = map pane_rect (collect_leaf_geometries (lt_root t'))"
    using map by (intro nth_equalityI) (simp_all add: cell_rect_def slot_def)
  ultimately have "map p_geometry (w_panes w') = map pane_rect (collect_leaf_geometries (lt_root t'))" by metis
  moreover have "other \<noteq> pos" using other(2) assms(6) by metis
  ultimately show ?thesis using other(1) geo run tree(1) map split(2)
    by (intro exI [of _ other] exI [of _ w'] exI [of _ k] exI [of _ t'] conjI)
qed

text \<open>The window of two panes after choosing the mirrored layout with a main pane of five columns.\<close>

definition mirrored_window :: window where
  "mirrored_window = split_window\<lparr>
     w_panes := [sample_pane 10 0 (new_pane_geometry 6 0 5 5),
       (sample_pane 11 1 (new_pane_geometry 0 0 5 5))\<lparr>p_active_point := 1\<rparr>],
     w_layout := MainVerticalMirrored, w_last_layout := Some MainVerticalMirrored, w_requested_main_width := Some 5,
     w_layout_tree := Some (two_panes\<lparr>lt_leaf_map := Some [1, 0]\<rparr>)\<rparr>"

lemma apply_mirrored:
  "apply_to_panes (two_panes\<lparr>lt_leaf_map := Some [Suc 0, 0]\<rparr>) [p, q]
     = Some [p\<lparr>p_geometry := new_pane_geometry 6 0 5 5\<rparr>, q\<lparr>p_geometry := new_pane_geometry 0 0 5 5\<rparr>]"
  by (simp add: apply_to_panes_def pane_leaf_def list_get_def two_panes_def pane_rect_def new_geometry_def u16_max_def)

lemma mirrored_calm: "calm_reachable mirrored_window"
proof (rule calm_reachable.step [OF split_calm])
  let ?o = "default_layout_options\<lparr>requested_main_width := Some 5\<rparr>" and ?g = "new_geometry 11 5 0 0"
  have "resolve_main_pane_size 11 (Some 5) DEFAULT_MAIN_PANE_WIDTH = 5"
    by (simp add: resolve_main_pane_size_def PANE_BORDER_CELLS_def PANE_MINIMUM_def machine_defs)
  moreover have "lg_width ?g = 11" "lg_height ?g = 5" "requested_main_width ?o = Some 5" by (simp_all add: new_geometry_def)
  ultimately have "build_named MainVerticalMirrored 2 ?g ?o = two_panes\<lparr>lt_leaf_map := Some [1, 0]\<rparr>"
    by (simp add: build_named_def build_main_vertical_def shift_cell_def PANE_BORDER_CELLS_def mirrored_leaf_map_def u32_add_def
        u32_wrap_def two_panes_def) (simp add: new_geometry_def u32_sat_add_def u32_max_def upt_rec)
  moreover have "minimum_size (lt_root (two_panes\<lparr>lt_leaf_map := Some [1, 0]\<rparr>)) = (3, 1)"
    by (simp add: two_panes_def PANE_BORDER_CELLS_def PANE_MINIMUM_def usize_try_u32_def machine_defs)
  moreover have "fix_offsets (lt_root two_panes) 0 0 = lt_root two_panes" by (simp add: two_panes_def new_geometry_def PANE_BORDER_CELLS_def machine_defs)
  ultimately have "named MainVerticalMirrored 2 \<lparr>cols = 11, rows = 5\<rparr> ?o = two_panes\<lparr>lt_leaf_map := Some [1, 0]\<rparr>"
    by (simp add: named_def new_geometry_def)
  then have named: "named MainVerticalMirrored (Suc (Suc 0)) \<lparr>cols = 11, rows = 5\<rparr> ?o = two_panes\<lparr>lt_leaf_map := Some [1, 0]\<rparr>"
    by (simp only: numeral_2_eq_2)
  have panes: "w_panes split_window = [sample_pane 10 0 (new_pane_geometry 0 0 5 5),
      (sample_pane 11 1 (new_pane_geometry 6 0 5 5))\<lparr>p_active_point := 1\<rparr>]" and size: "w_size split_window = \<lparr>cols = 11, rows = 5\<rparr>"
      "tree_size (two_panes\<lparr>lt_leaf_map := Some [Suc 0, 0]\<rparr>) = \<lparr>cols = 11, rows = 5\<rparr>"
    by (simp_all add: split_window_def sample_defs two_panes_def new_geometry_def tree_size_def u32_to_u16_def u16_max_def)
  have opts: "window_options (split_window\<lparr>w_layout := MainVerticalMirrored, w_last_layout := Some MainVerticalMirrored,
      w_requested_main_width := Some 5, w_requested_main_height := None\<rparr>) = default_layout_options\<lparr>requested_main_width := Some 5\<rparr>"
    by (simp add: window_options_def default_layout_options_def)
  have unzoom: "unzoom split_window = Some split_window" by (simp add: unzoom_def auto_unzoom_def split_window_def sample_defs)
  show "window_run 0 split_window (EvSetLayout MainVerticalMirrored (Some 5) None) = Some mirrored_window"
    by (simp add: set_layout_with_main_pane_size_def rebuild_named_layout_tree_def apply_layout_tree_def Let_def panes apply_mirrored size
        named [simplified] opts [simplified] unzoom)
      (simp add: mirrored_window_def split_window_def sample_defs)
qed simp_all

theorem mirrored_split_divides_other_pane_witness:
  "\<exists>w' k t'. split_at_position_detached 0 mirrored_window 0 12 Horizontal False True = Some (w', k)
    \<and> w_layout_tree w' = Some t' \<and> leaf_dims (lt_root t') = [(5, 2), (5, 2), (5, 5)]"
proof -
  let ?t = "two_panes\<lparr>lt_leaf_map := Some [1, 0]\<rparr>"
  have dims: "leaf_dims (lt_root two_panes) = [(5, 5), (5, 5)]" "halves TopBottom (5, 5) = [(5, 2), (5, 2)]"
    by (simp_all add: two_panes_def new_geometry_def leaf_dims_def dims_def)
  have w: "\<not> w_zoomed mirrored_window" "w_layout_tree mirrored_window = Some ?t" "map p_id (w_panes mirrored_window) = [10, 11]"
    "length (w_panes mirrored_window) = 2"
    by (simp_all add: mirrored_window_def split_window_def sample_defs)
  have cell: "3 \<le> axis_of (collect_leaf_geometries (lt_root ?t) ! 0) (from_split_direction Horizontal)"
    by (simp add: two_panes_def new_geometry_def)
  from mirrored_split_divides_other_pane [OF mirrored_calm w(1,2), of "[1, 0]" 0 Horizontal 12 0 False True] cell
  show ?thesis by (simp add: w(3,4) dims i32_max_def) blast
qed

end
