(* ===== verification/Ordered_Map.thy ===== *)
theory Ordered_Map
  imports Rmux_Prelude
begin

text \<open>
  \<open>BTreeMap\<close> as the list of its entries in key order, the order in which it is iterated, and
  the interface its clients rely on.
\<close>

section \<open>The interface of a map\<close>

locale map_interface =
  fixes look :: "'m \<Rightarrow> 'k \<Rightarrow> 'v option" and put :: "'k \<Rightarrow> 'v \<Rightarrow> 'm \<Rightarrow> 'm" and cut :: "'k \<Rightarrow> 'm \<Rightarrow> 'm"
    and valid :: "'m \<Rightarrow> bool"
  assumes look_put: "valid m \<Longrightarrow> look (put k v m) j = (if j = k then Some v else look m j)"
    and look_cut: "valid m \<Longrightarrow> look (cut k m) j = (if j = k then None else look m j)"
    and valid_put: "valid m \<Longrightarrow> valid (put k v m)"
    and valid_cut: "valid m \<Longrightarrow> valid (cut k m)"
begin

text \<open>Removing a list of keys, and moving an entry to another key.\<close>

lemma valid_cuts: "valid m \<Longrightarrow> valid (fold cut ks m)"
  by (induction ks arbitrary: m) (simp_all add: valid_cut)

lemma look_cuts: "valid m \<Longrightarrow> look (fold cut ks m) j = (if j \<in> set ks then None else look m j)"
  by (induction ks arbitrary: m) (simp_all add: valid_cut look_cut)

lemma look_move:
  "valid m \<Longrightarrow> old \<noteq> new \<Longrightarrow>
     look (put new v (cut old (cut new m))) j = (if j = new then Some v else if j = old then None else look m j)"
  by (simp add: look_put look_cut valid_cut)

lemma valid_move: "valid m \<Longrightarrow> valid (put new v (cut old (cut new m)))"
  by (simp add: valid_put valid_cut)

end

section \<open>Sorted association lists\<close>

fun bm_insert :: "'k::linorder \<Rightarrow> 'v \<Rightarrow> ('k \<times> 'v) list \<Rightarrow> ('k \<times> 'v) list" where
  "bm_insert k v [] = [(k, v)]"
| "bm_insert k v ((k', v') # m) =
     (if k < k' then (k, v) # (k', v') # m
      else if k = k' then (k, v) # m
      else (k', v') # bm_insert k v m)"

definition bm_remove :: "'k \<Rightarrow> ('k \<times> 'v) list \<Rightarrow> ('k \<times> 'v) list" where
  "bm_remove k m = filter (\<lambda>(j, _). j \<noteq> k) m"

definition bm_sorted :: "('k::linorder \<times> 'v) list \<Rightarrow> bool" where
  "bm_sorted m \<longleftrightarrow> sorted_wrt (<) (map fst m)"

lemma bm_sorted_simps [simp]:
  "bm_sorted []" "bm_sorted ((k, v) # m) \<longleftrightarrow> (\<forall>j \<in> fst ` set m. k < j) \<and> bm_sorted m"
  by (simp_all add: bm_sorted_def)

lemma bm_sorted_distinct: "bm_sorted m \<Longrightarrow> distinct (map fst m)"
  by (simp add: bm_sorted_def strict_sorted_iff)

lemma keys_bm_insert: "fst ` set (bm_insert k v m) = insert k (fst ` set m)"
  by (induction k v m rule: bm_insert.induct) auto

lemma map_of_bm_insert: "bm_sorted m \<Longrightarrow> map_of (bm_insert k v m) j = (if j = k then Some v else map_of m j)"
  by (induction k v m rule: bm_insert.induct) (auto simp: map_of_eq_None_iff)

lemma bm_sorted_insert: "bm_sorted m \<Longrightarrow> bm_sorted (bm_insert k v m)"
  by (induction k v m rule: bm_insert.induct) (auto simp: keys_bm_insert)

lemma map_of_bm_remove: "map_of (bm_remove k m) j = (if j = k then None else map_of m j)"
  by (induction m) (auto simp: bm_remove_def)

lemma bm_sorted_remove: "bm_sorted m \<Longrightarrow> bm_sorted (bm_remove k m)"
  by (induction m) (auto simp: bm_remove_def)

interpretation bmap: map_interface map_of bm_insert bm_remove bm_sorted
  by unfold_locales (simp_all add: map_of_bm_insert map_of_bm_remove bm_sorted_insert bm_sorted_remove)

text \<open>The entries of a sorted list are its lookups.\<close>

lemma bm_member: "bm_sorted m \<Longrightarrow> (k, v) \<in> set m \<longleftrightarrow> map_of m k = Some v"
  using map_of_eq_Some_iff [OF bm_sorted_distinct] by metis

lemma bm_insert_fresh: "k \<notin> fst ` set m \<Longrightarrow> set (bm_insert k v m) = insert (k, v) (set m)"
  by (induction k v m rule: bm_insert.induct) auto

lemma set_bm_insert: "set (bm_insert k v m) \<subseteq> insert (k, v) (set m)"
  by (induction k v m rule: bm_insert.induct) auto

lemma set_bm_remove: "set (bm_remove k m) = {(j, v) \<in> set m. j \<noteq> k}"
  by (auto simp: bm_remove_def)

lemma set_bm_removes: "set (fold bm_remove ks m) = {(j, v) \<in> set m. j \<notin> set ks}"
  by (induction ks arbitrary: m) (auto simp: set_bm_remove)

lemma length_filter_bm_insert:
  "k \<notin> fst ` set m \<Longrightarrow> length (filter P (bm_insert k v m)) = length (filter P m) + (if P (k, v) then 1 else 0)"
  by (induction k v m rule: bm_insert.induct) auto

section \<open>Iterator methods\<close>

text \<open>\<open>max_by_key\<close>: the last of the elements with the greatest key.\<close>

fun max_by_key :: "('a \<Rightarrow> 'b::linorder) \<Rightarrow> 'a list \<Rightarrow> 'a option" where
  "max_by_key f [] = None"
| "max_by_key f (x # xs) =
     (case max_by_key f xs of
        None \<Rightarrow> Some x
      | Some y \<Rightarrow> if f x \<le> f y then Some y else Some x)"

lemma max_by_key_None: "max_by_key f xs = None \<longleftrightarrow> xs = []"
  by (cases xs) (simp_all split: option.splits)

lemma max_by_key_Some:
  "max_by_key f xs = Some x \<Longrightarrow> x \<in> set xs \<and> (\<forall>y \<in> set xs. f y \<le> f x)"
proof (induction xs arbitrary: x)
  case (Cons a xs)
  then show ?case by (auto split: option.splits if_splits simp: max_by_key_None)
qed simp

lemma max_by_key_unique:
  "x \<in> set xs \<Longrightarrow> (\<And>y. y \<in> set xs \<Longrightarrow> y \<noteq> x \<Longrightarrow> f y < f x) \<Longrightarrow> max_by_key f xs = Some x"
proof -
  assume x: "x \<in> set xs" and *: "\<And>y. y \<in> set xs \<Longrightarrow> y \<noteq> x \<Longrightarrow> f y < f x"
  then obtain z where z: "max_by_key f xs = Some z" using max_by_key_None [of f xs] by fastforce
  then have "z \<in> set xs" "f x \<le> f z" using max_by_key_Some [OF z] x by auto
  then show "max_by_key f xs = Some x" using * [of z] z by (cases "z = x") auto
qed

end
