(* ===== verification/Vis.thy ===== *)
theory Vis
  imports Rmux_Text
begin

text \<open>
  The escaping of bytes for display (\<open>vis.rs\<close>): the general encoder with its flags, the
  preview of a paste buffer and the encoder for pasted text. A byte is a \<open>char\<close>; a Rust string
  is its list of UTF-8 bytes.
\<close>

section \<open>Model\<close>

abbreviation byte :: "char \<Rightarrow> nat" where
  "byte c \<equiv> of_char c"

record vis_flags =
  octal :: bool
  cstyle :: bool
  tab :: bool
  newline :: bool
  safe :: bool
  noslash :: bool

abbreviation backslash :: char where
  "backslash \<equiv> CHR 0x5C"

definition printable :: "char \<Rightarrow> bool" where
  "printable c \<longleftrightarrow> 0x20 \<le> byte c \<and> byte c \<le> 0x7E"

text \<open>\<open>String::push(char::from(byte))\<close>: the character with that code, in UTF-8.\<close>

definition latin1 :: "char \<Rightarrow> string" where
  "latin1 c = (if byte c < 0x80 then [c]
     else [char_of (0xC0 + byte c div 64), char_of (0x80 + byte c mod 64)])"

definition octal_escape :: "char \<Rightarrow> string" where
  "octal_escape c = [backslash, digit (byte c div 64 mod 8), digit (byte c div 8 mod 8), digit (byte c mod 8)]"

definition c_escape :: "char \<Rightarrow> string option" where
  "c_escape c =
     (if c = CHR 0x00 then Some [backslash, CHR ''0'', CHR ''0'', CHR ''0'']
      else if c = CHR 0x07 then Some [backslash, CHR ''a'']
      else if c = CHR 0x08 then Some [backslash, CHR ''b'']
      else if c = CHR 0x09 then Some [backslash, CHR ''t'']
      else if c = CHR 0x0A then Some [backslash, CHR ''n'']
      else if c = CHR 0x0B then Some [backslash, CHR ''v'']
      else if c = CHR 0x0C then Some [backslash, CHR ''f'']
      else if c = CHR 0x0D then Some [backslash, CHR ''r'']
      else None)"

definition should_keep_raw :: "char \<Rightarrow> vis_flags \<Rightarrow> bool" where
  "should_keep_raw c flags =
     (if c = backslash \<and> \<not> noslash flags then False
      else if safe flags then printable c
      else if c = CHR 0x09 then \<not> tab flags
      else if c = CHR 0x0A then \<not> newline flags
      else printable c)"

definition encode_byte :: "char \<Rightarrow> vis_flags \<Rightarrow> string" where
  "encode_byte c flags =
     (if should_keep_raw c flags then latin1 c
      else case (if cstyle flags then c_escape c else None) of
        Some s \<Rightarrow> s
      | None \<Rightarrow>
          if c = backslash \<and> \<not> noslash flags then [backslash, backslash]
          else if octal flags \<or> safe flags \<or> cstyle flags then octal_escape c
          else latin1 c)"

definition encode_bytes :: "string \<Rightarrow> vis_flags \<Rightarrow> string" where
  "encode_bytes input flags = concat (map (\<lambda>c. encode_byte c flags) input)"

definition is_char_boundary :: "string \<Rightarrow> usize \<Rightarrow> bool" where
  "is_char_boundary s i \<longleftrightarrow>
     i = 0 \<or> i = length s \<or> i < length s \<and> \<not> (0x80 \<le> byte (s ! i) \<and> byte (s ! i) < 0xC0)"

text \<open>The loop that steps back to a boundary; position 0 is one.\<close>

fun boundary_below :: "string \<Rightarrow> usize \<Rightarrow> usize" where
  "boundary_below s 0 = 0"
| "boundary_below s (Suc i) = (if is_char_boundary s (Suc i) then Suc i else boundary_below s i)"

definition truncate_at_byte_boundary :: "string \<Rightarrow> usize \<Rightarrow> string" where
  "truncate_at_byte_boundary s max_len =
     (if length s \<le> max_len then s else take (boundary_below s max_len) s)"

definition SAMPLE_WIDTH :: usize where
  "SAMPLE_WIDTH = 200"

definition sample_flags :: vis_flags where
  "sample_flags = \<lparr>octal = True, cstyle = True, tab = True, newline = True, safe = False, noslash = False\<rparr>"

definition encode_buffer_sample :: "string \<Rightarrow> string" where
  "encode_buffer_sample input =
     (let encoded = encode_bytes (take (min (length input) SAMPLE_WIDTH) input) sample_flags
      in if length input > SAMPLE_WIDTH \<or> length encoded > SAMPLE_WIDTH
         then truncate_at_byte_boundary encoded SAMPLE_WIDTH @ ''...''
         else encoded)"

definition encode_paste_byte :: "char \<Rightarrow> string" where
  "encode_paste_byte c =
     (if printable c \<or> 0x80 \<le> byte c then [c]
      else case c_escape c of Some s \<Rightarrow> s | None \<Rightarrow> octal_escape c)"

definition encode_paste_bytes :: "string \<Rightarrow> string" where
  "encode_paste_bytes input = concat (map encode_paste_byte input)"

section \<open>Reading escapes back\<close>

text \<open>The inverse of the encoder, as \<open>unvis\<close> of the BSD library defines it on its output.\<close>

definition c_unescape :: "char \<Rightarrow> char option" where
  "c_unescape c =
     (if c = CHR ''a'' then Some (CHR 0x07)
      else if c = CHR ''b'' then Some (CHR 0x08)
      else if c = CHR ''t'' then Some (CHR 0x09)
      else if c = CHR ''n'' then Some (CHR 0x0A)
      else if c = CHR ''v'' then Some (CHR 0x0B)
      else if c = CHR ''f'' then Some (CHR 0x0C)
      else if c = CHR ''r'' then Some (CHR 0x0D)
      else if c = backslash then Some backslash
      else None)"

fun unvis :: "string \<Rightarrow> string" where
  "unvis [] = []"
| "unvis (c # s) =
     (if c \<noteq> backslash then c # unvis s
      else case s of
        [] \<Rightarrow> [c]
      | d # s1 \<Rightarrow>
          (case c_unescape d of
             Some e \<Rightarrow> e # unvis s1
           | None \<Rightarrow>
               (case s1 of
                  e # f # s2 \<Rightarrow> char_of (64 * digit_value d + 8 * digit_value e + digit_value f) # unvis s2
                | _ \<Rightarrow> c # s)))"

text \<open>Each escape is read back, whatever follows it.\<close>

lemma char_eq_byte: "c = d \<longleftrightarrow> byte c = byte d"
  by simp

lemma digit_facts:
  assumes "n < 8"
  shows "digit_value (digit n) = n" "c_unescape (digit n) = None" "digit n \<noteq> backslash" "printable (digit n)"
proof -
  have "n \<in> {0, 1, 2, 3, 4, 5, 6, 7}" using assms by auto
  then show "digit_value (digit n) = n" "c_unescape (digit n) = None" "digit n \<noteq> backslash" "printable (digit n)"
    by (auto simp: digit_def digit_value_def c_unescape_def printable_def char_eq_byte simp del: of_char_eq_iff)
qed

lemma octal_number: "64 * (byte c div 64 mod 8) + 8 * (byte c div 8 mod 8) + byte c mod 8 = byte c"
proof -
  have "byte c < 256" by simp
  then have "byte c div 64 mod 8 = byte c div 64" by (intro mod_less) linarith
  moreover have "byte c div 8 div 8 = byte c div 64" by (simp add: div_mult2_eq [symmetric])
  ultimately show ?thesis
    using div_mult_mod_eq [of "byte c" 8] div_mult_mod_eq [of "byte c div 8" 8] by linarith
qed

lemma unvis_octal: "unvis (octal_escape c @ s) = c # unvis s"
  by (simp add: octal_escape_def digit_facts octal_number)

lemma unvis_c_escape: "c_escape c = Some e \<Longrightarrow> unvis (e @ s) = c # unvis s"
  by (auto simp: c_escape_def c_unescape_def digit_value_def char_of_def split: if_splits)

lemma unvis_raw: "c \<noteq> backslash \<Longrightarrow> unvis (c # s) = c # unvis s"
  by simp

lemma unvis_backslash: "unvis (backslash # backslash # s) = backslash # unvis s"
  by (simp add: c_unescape_def)

declare unvis.simps(2) [simp del]

lemma keep_raw_ascii: "should_keep_raw c flags \<Longrightarrow> byte c < 0x80"
  by (auto simp: should_keep_raw_def printable_def split: if_splits)

lemma unvis_encode_byte:
  assumes "octal flags \<or> safe flags \<or> cstyle flags" and "\<not> noslash flags"
  shows "unvis (encode_byte c flags @ s) = c # unvis s"
proof (cases "should_keep_raw c flags")
  case True
  then have "c \<noteq> backslash" using assms(2) by (auto simp: should_keep_raw_def)
  then show ?thesis using True keep_raw_ascii [OF True] by (simp add: encode_byte_def latin1_def unvis_raw)
next
  case False
  show ?thesis
  proof (cases "if cstyle flags then c_escape c else None")
    case None
    then show ?thesis using False assms
      by (simp add: encode_byte_def unvis_backslash unvis_octal)
  next
    case (Some e)
    then have "c_escape c = Some e" by (simp split: if_splits)
    then show ?thesis using False Some by (simp add: encode_byte_def unvis_c_escape)
  qed
qed

lemma unvis_encode:
  "octal flags \<or> safe flags \<or> cstyle flags \<Longrightarrow> \<not> noslash flags \<Longrightarrow> unvis (encode_bytes s flags) = s"
  by (induction s) (simp_all add: encode_bytes_def unvis_encode_byte)

section \<open>What may appear in the output\<close>

lemma octal_printable: "list_all printable (octal_escape c)"
  by (simp add: octal_escape_def digit_facts) (simp add: printable_def)

lemma c_escape_printable: "c_escape c = Some e \<Longrightarrow> list_all printable e"
  by (auto simp: c_escape_def printable_def split: if_splits)

lemma sample_byte_printable: "list_all printable (encode_byte c sample_flags)"
proof (cases "c_escape c")
  case None
  then show ?thesis
    using octal_printable [of c]
    by (auto simp: encode_byte_def sample_flags_def should_keep_raw_def latin1_def c_escape_def printable_def split: if_splits)
next
  case (Some e)
  then show ?thesis
    using c_escape_printable [OF Some]
    by (auto simp: encode_byte_def sample_flags_def should_keep_raw_def latin1_def printable_def split: if_splits)
qed

lemma list_all_concat: "(\<And>x. x \<in> set xs \<Longrightarrow> list_all P (f x)) \<Longrightarrow> list_all P (concat (map f xs))"
  by (induction xs) auto

lemma boundary_ascii:
  assumes "list_all printable s"
  shows "is_char_boundary s i \<longleftrightarrow> i \<le> length s"
proof (cases "i < length s")
  case True
  then have "byte (s ! i) \<le> 0x7E" using assms by (simp add: list_all_length printable_def)
  then show ?thesis using True by (simp add: is_char_boundary_def)
qed (auto simp: is_char_boundary_def)

lemma truncate_ascii: "list_all printable s \<Longrightarrow> truncate_at_byte_boundary s n = take n s"
  by (cases n) (simp_all add: truncate_at_byte_boundary_def boundary_ascii)

lemma sample_eq:
  "encode_buffer_sample s = (let e = encode_bytes (take SAMPLE_WIDTH s) sample_flags in
     if length s > SAMPLE_WIDTH \<or> length e > SAMPLE_WIDTH then take SAMPLE_WIDTH e @ ''...'' else e)"
proof -
  have "list_all printable (encode_bytes t sample_flags)" for t
    unfolding encode_bytes_def by (rule list_all_concat) (rule sample_byte_printable)
  moreover have "take (min (length s) SAMPLE_WIDTH) s = take SAMPLE_WIDTH s" by (simp add: min_def)
  ultimately show ?thesis by (simp only: encode_buffer_sample_def Let_def truncate_ascii)
qed

lemma paste_byte_safe: "list_all (\<lambda>d. 0x20 \<le> byte d \<and> byte d \<noteq> 0x7F) (encode_paste_byte c)"
proof -
  have "list_all (\<lambda>d. 0x20 \<le> byte d \<and> byte d \<noteq> 0x7F) e" if "list_all printable e" for e
    using that by (auto simp: list_all_iff printable_def)
  then show ?thesis
    using octal_printable [of c] c_escape_printable [of c]
    by (auto simp: encode_paste_byte_def printable_def split: option.splits)
qed

end
