(* ===== verification/Buffers.thy ===== *)
theory Buffers
  imports Ordered_Map Vis "HOL-Library.List_Lexorder" "HOL-Library.Char_ord"
begin

text \<open>
  The paste buffers of the server (\<open>buffers.rs\<close>): a map from names to contents, automatic
  names, a limit on the automatic buffers with the oldest evicted first, renaming and listing. The
  clock is the argument \<open>now\<close>.
\<close>

section \<open>Model\<close>

record buffer_entry =
  b_content :: string
  b_order :: u64
  b_created :: i64
  b_unnamed :: bool

record buffer_store =
  s_buffers :: "(string \<times> buffer_entry) list"
  s_next_unnamed_id :: u32
  s_next_order :: u64

definition new_store :: buffer_store where
  "new_store = \<lparr>s_buffers = [], s_next_unnamed_id = 0, s_next_order = 0\<rparr>"

definition buffer_count :: "buffer_store \<Rightarrow> usize" where
  "buffer_count st = length (s_buffers st)"

definition entry_of :: "buffer_store \<Rightarrow> string \<Rightarrow> buffer_entry option" where
  "entry_of st name = map_of (s_buffers st) name"

definition no_buffers :: "buffer_store \<Rightarrow> bool" where
  "no_buffers st \<longleftrightarrow> s_buffers st = []"

definition is_unnamed :: "string \<times> buffer_entry \<Rightarrow> bool" where
  "is_unnamed = (\<lambda>(_, e). b_unnamed e)"

definition stack_head :: "buffer_store \<Rightarrow> string option" where
  "stack_head st = map_option fst (max_by_key (\<lambda>(_, e). b_order e) (s_buffers st))"

definition top_unnamed :: "buffer_store \<Rightarrow> string option" where
  "top_unnamed st =
     map_option fst (max_by_key (\<lambda>(_, e). b_order e) (filter is_unnamed (s_buffers st)))"

definition get_buffer :: "buffer_store \<Rightarrow> string \<Rightarrow> string option" where
  "get_buffer st name = map_option b_content (entry_of st name)"

record set_buffer_outcome =
  o_buffer_name :: "string option"
  o_evicted :: "string list"

record rename_buffer_outcome =
  r_old_name :: string
  r_new_name :: string
  r_replaced :: bool
  r_changed :: bool

definition validate_buffer_name :: "string \<Rightarrow> unit result" where
  "validate_buffer_name name =
     (if name = [] then Inl (Server ''buffer name must not be empty'') else Inr ())"

definition unnamed_name :: "u32 \<Rightarrow> string" where
  "unnamed_name n = ''buffer'' @ decimal n"

text \<open>The loop of \<open>allocate_unnamed_name\<close>: the counter after it, and the name or the error.\<close>

function allocate_unnamed_name :: "(string \<times> buffer_entry) list \<Rightarrow> u32 \<Rightarrow> u32 \<times> string result" where
  "allocate_unnamed_name bs n =
     (if n \<ge> u32_max then (n, Inl (Server ''unnamed buffer sequence exhausted''))
      else if map_of bs (unnamed_name n) \<noteq> None then allocate_unnamed_name bs (n + 1)
      else (n + 1, Inr (unnamed_name n)))"
  by pat_completeness auto
termination
  by (relation "measure (\<lambda>(bs, n). u32_max - n)") auto

declare allocate_unnamed_name.simps [simp del]

text \<open>The eviction: automatic buffers beyond the limit, oldest first.\<close>

definition evictions :: "(string \<times> buffer_entry) list \<Rightarrow> usize \<Rightarrow> string list" where
  "evictions bs limit =
     (let unnamed = filter is_unnamed bs
      in if length unnamed > limit
         then map fst (take (length unnamed - limit) (sort_key snd (map (\<lambda>(name, e). (name, b_order e)) unnamed)))
         else [])"

definition set_buffer ::
  "i64 \<Rightarrow> buffer_store \<Rightarrow> string option \<Rightarrow> string \<Rightarrow> usize \<Rightarrow> buffer_store \<times> set_buffer_outcome result" where
  "set_buffer now st name content limit =
     (case (case name of None \<Rightarrow> Inr () | Some n \<Rightarrow> validate_buffer_name n) of
        Inl e \<Rightarrow> (st, Inl e)
      | Inr _ \<Rightarrow>
          if content = [] then (st, Inr \<lparr>o_buffer_name = None, o_evicted = []\<rparr>)
          else
            let order = s_next_order st; st1 = st\<lparr>s_next_order := u64_wrap (order + 1)\<rparr>
            in case name of
                 Some n \<Rightarrow>
                   (st1\<lparr>s_buffers := bm_insert n
                      \<lparr>b_content = content, b_order = order, b_created = now, b_unnamed = False\<rparr> (s_buffers st1)\<rparr>,
                    Inr \<lparr>o_buffer_name = Some n, o_evicted = []\<rparr>)
               | None \<Rightarrow>
                   (case allocate_unnamed_name (s_buffers st1) (s_next_unnamed_id st1) of
                      (next_id, Inl e) \<Rightarrow> (st1\<lparr>s_next_unnamed_id := next_id\<rparr>, Inl e)
                    | (next_id, Inr n) \<Rightarrow>
                        let bs = bm_insert n
                              \<lparr>b_content = content, b_order = order, b_created = now, b_unnamed = True\<rparr> (s_buffers st1);
                            evicted = (if limit > 0 then evictions bs limit else [])
                        in (st1\<lparr>s_next_unnamed_id := next_id, s_buffers := fold bm_remove evicted bs\<rparr>,
                            Inr \<lparr>o_buffer_name = Some n, o_evicted = evicted\<rparr>)))"

definition no_buffer :: "string \<Rightarrow> rmux_error" where
  "no_buffer name = Server (''no buffer '' @ name)"

definition rename_buffer ::
  "buffer_store \<Rightarrow> string option \<Rightarrow> string \<Rightarrow> (buffer_store \<times> rename_buffer_outcome result) option" where
  "rename_buffer st old_name new_name =
     (case validate_buffer_name new_name of
        Inl e \<Rightarrow> Some (st, Inl e)
      | Inr _ \<Rightarrow>
          (case (case old_name of
                   Some name \<Rightarrow> if entry_of st name = None then Inl (no_buffer name) else Inr name
                 | None \<Rightarrow> (case top_unnamed st of None \<Rightarrow> Inl (Server ''no buffer'') | Some name \<Rightarrow> Inr name)) of
             Inl e \<Rightarrow> Some (st, Inl e)
           | Inr old \<Rightarrow>
               if old = new_name then
                 Some (st, Inr \<lparr>r_old_name = old, r_new_name = new_name, r_replaced = False, r_changed = False\<rparr>)
               else
                 let bs = bm_remove new_name (s_buffers st)
                 in case map_of bs old of
                      None \<Rightarrow> None
                    | Some e \<Rightarrow>
                        Some (st\<lparr>s_buffers := bm_insert new_name (e\<lparr>b_unnamed := False\<rparr>) (bm_remove old bs)\<rparr>,
                          Inr \<lparr>r_old_name = old, r_new_name = new_name,
                               r_replaced = (entry_of st new_name \<noteq> None), r_changed = True\<rparr>)))"

definition delete_buffer :: "buffer_store \<Rightarrow> string option \<Rightarrow> buffer_store \<times> string result" where
  "delete_buffer st name =
     (case (case name of
              Some n \<Rightarrow> Inr n
            | None \<Rightarrow> (case top_unnamed st of None \<Rightarrow> Inl (Server ''no buffer'') | Some n \<Rightarrow> Inr n)) of
        Inl e \<Rightarrow> (st, Inl e)
      | Inr target \<Rightarrow>
          if entry_of st target = None then (st, Inl (no_buffer target))
          else (st\<lparr>s_buffers := bm_remove target (s_buffers st)\<rparr>, Inr target))"

definition delete_if_order_matches :: "buffer_store \<Rightarrow> string \<Rightarrow> u64 \<Rightarrow> buffer_store \<times> bool" where
  "delete_if_order_matches st name order =
     (if (case entry_of st name of None \<Rightarrow> False | Some e \<Rightarrow> b_order e = order)
      then (st\<lparr>s_buffers := bm_remove name (s_buffers st)\<rparr>, True) else (st, False))"

definition show_with_order :: "buffer_store \<Rightarrow> string option \<Rightarrow> (string \<times> string \<times> u64) result option" where
  "show_with_order st name =
     (case (case name of
              Some n \<Rightarrow> if entry_of st n = None then Inl (no_buffer n) else Inr n
            | None \<Rightarrow> (case top_unnamed st of None \<Rightarrow> Inl (Server ''no buffers'') | Some n \<Rightarrow> Inr n)) of
        Inl e \<Rightarrow> Some (Inl e)
      | Inr resolved \<Rightarrow>
          map_option (\<lambda>e. Inr (resolved, b_content e, b_order e)) (entry_of st resolved))"

definition show_buffer :: "buffer_store \<Rightarrow> string option \<Rightarrow> (string \<times> string) result option" where
  "show_buffer st name =
     map_option (\<lambda>r. res_bind r (\<lambda>(n, content, _). Inr (n, content))) (show_with_order st name)"

record buffer_view =
  v_name :: string
  v_content :: string
  v_order :: u64
  v_created :: i64

definition store_entries :: "buffer_store \<Rightarrow> buffer_view list" where
  "store_entries st =
     map (\<lambda>(name, e). \<lparr>v_name = name, v_content = b_content e, v_order = b_order e, v_created = b_created e\<rparr>)
       (s_buffers st)"

definition buffer_preview :: "string \<Rightarrow> string" where
  "buffer_preview content = encode_buffer_sample content"

definition default_line :: "buffer_view \<Rightarrow> string" where
  "default_line v =
     v_name v @ '': '' @ decimal (length (v_content v)) @ '' bytes: '' @ [CHR 0x22]
       @ buffer_preview (v_content v) @ [CHR 0x22]"

definition list_buffers :: "buffer_store \<Rightarrow> string list" where
  "list_buffers st = map default_line (sort_key (\<lambda>v. - int (v_order v)) (store_entries st))"

section \<open>The invariant\<close>

definition entry_ok :: "u32 \<Rightarrow> u64 \<Rightarrow> string \<times> buffer_entry \<Rightarrow> bool" where
  "entry_ok next_id next_order = (\<lambda>(k, e). k \<noteq> [] \<and> b_content e \<noteq> [] \<and> b_order e < next_order
     \<and> (b_unnamed e \<longrightarrow> (\<exists>n < next_id. k = unnamed_name n)))"

definition entry_order :: "string \<times> buffer_entry \<Rightarrow> u64" where
  "entry_order = (\<lambda>(k, e). b_order e)"

definition store_inv :: "buffer_store \<Rightarrow> bool" where
  "store_inv st \<longleftrightarrow>
     bm_sorted (s_buffers st) \<and> s_next_unnamed_id st \<le> u32_max
     \<and> (\<forall>x \<in> set (s_buffers st). entry_ok (s_next_unnamed_id st) (s_next_order st) x)
     \<and> inj_on entry_order (set (s_buffers st))"

lemma entry_ok_mono: "entry_ok n m x \<Longrightarrow> n \<le> n' \<Longrightarrow> m \<le> m' \<Longrightarrow> entry_ok n' m' x"
  by (cases x) (auto simp: entry_ok_def dest: less_le_trans)

lemma store_inv_new: "store_inv new_store"
  by (simp add: store_inv_def new_store_def)

lemma store_inv_sorted: "store_inv st \<Longrightarrow> bm_sorted (s_buffers st)"
  by (simp add: store_inv_def)

lemma unnamed_name_inject [simp]: "unnamed_name m = unnamed_name n \<longleftrightarrow> m = n"
  by (simp add: unnamed_name_def)

lemma unnamed_name_nonempty [simp]: "unnamed_name n \<noteq> []"
  by (simp add: unnamed_name_def)

text \<open>The allocator: it returns the first free automatic name at or above the counter.\<close>

lemma allocate_free:
  "allocate_unnamed_name bs n = (n', Inr name) \<Longrightarrow>
     \<exists>m. n \<le> m \<and> n' = m + 1 \<and> n' \<le> u32_max \<and> name = unnamed_name m \<and> map_of bs name = None
       \<and> (\<forall>j. n \<le> j \<and> j < m \<longrightarrow> map_of bs (unnamed_name j) \<noteq> None)"
proof (induction bs n rule: allocate_unnamed_name.induct)
  case (1 bs n)
  show ?case
  proof (cases "n < u32_max \<and> map_of bs (unnamed_name n) \<noteq> None")
    case True
    then have "allocate_unnamed_name bs (n + 1) = (n', Inr name)"
      using "1.prems" by (simp add: allocate_unnamed_name.simps [of bs n])
    then obtain m where "n + 1 \<le> m" "n' = m + 1" "n' \<le> u32_max" "name = unnamed_name m" "map_of bs name = None"
      "\<forall>j. n + 1 \<le> j \<and> j < m \<longrightarrow> map_of bs (unnamed_name j) \<noteq> None"
      using "1.IH" True by auto
    then show ?thesis using True by (intro exI [of _ m]) (metis Suc_eq_plus1 Suc_leD Suc_leI le_neq_implies_less)
  next
    case False
    then show ?thesis using "1.prems"
      by (simp add: allocate_unnamed_name.simps [of bs n] split: if_splits)
        (intro exI [of _ n], auto)
  qed
qed

lemma allocate_exhausted:
  "allocate_unnamed_name bs n = (n', Inl e) \<Longrightarrow> n \<le> u32_max \<Longrightarrow>
     e = Server ''unnamed buffer sequence exhausted'' \<and> n' = u32_max
       \<and> (\<forall>j. n \<le> j \<and> j < u32_max \<longrightarrow> map_of bs (unnamed_name j) \<noteq> None)"
proof (induction bs n rule: allocate_unnamed_name.induct)
  case (1 bs n)
  show ?case
  proof (cases "n < u32_max")
    case True
    then have taken: "map_of bs (unnamed_name n) \<noteq> None" and "allocate_unnamed_name bs (n + 1) = (n', Inl e)"
      using "1.prems" by (simp_all add: allocate_unnamed_name.simps [of bs n] split: if_splits)
    then show ?thesis using "1.IH" True
      by (metis Suc_eq_plus1 Suc_leI le_neq_implies_less not_le)
  next
    case False
    then show ?thesis using "1.prems" by (auto simp: allocate_unnamed_name.simps [of bs u32_max])
  qed
qed

section \<open>Eviction\<close>

lemma take_sort_key_less:
  assumes "inj_on f (set xs)" "distinct xs" "x \<in> set (take m (sort_key f xs))" "y \<in> set xs"
    "y \<notin> set (take m (sort_key f xs))"
  shows "f x < (f y :: 'a::linorder)"
proof -
  let ?s = "sort_key f xs"
  have y: "y \<in> set (drop m ?s)"
    using assms(4,5) set_append [of "take m ?s" "drop m ?s"] by auto
  have "sorted (map f (take m ?s @ drop m ?s))" by simp
  then have "f x \<le> f y" using assms(3) y by (auto simp: sorted_append simp del: append_take_drop_id)
  moreover have "f x \<noteq> f y"
    using assms(1,3,4,5) by (metis in_set_takeD inj_onD set_sort)
  ultimately show ?thesis by simp
qed

text \<open>
  \<open>evictions\<close> names exactly the oldest of the automatic buffers, as many as exceed the limit, in the
  order of their age.
\<close>

lemma sort_key_map_order:
  "sort_key snd (map (\<lambda>(name, e). (name, b_order e)) xs)
     = map (\<lambda>(name, e). (name, b_order e)) (sort_key entry_order xs)"
proof -
  have insort: "insort_key snd (case x of (name, e) \<Rightarrow> (name, b_order e)) (map (\<lambda>(name, e). (name, b_order e)) ys)
      = map (\<lambda>(name, e). (name, b_order e)) (insort_key entry_order x ys)" for x ys
    by (induction ys) (auto simp: entry_order_def split: prod.splits)
  show ?thesis by (induction xs) (simp_all add: insort)
qed

definition by_age :: "(string \<times> buffer_entry) list \<Rightarrow> (string \<times> buffer_entry) list" where
  "by_age bs = sort_key entry_order (filter is_unnamed bs)"

lemma evictions_by_age:
  "evictions bs limit = map fst (take (length (filter is_unnamed bs) - limit) (by_age bs))"
  by (simp add: evictions_def by_age_def sort_key_map_order take_map Let_def) (simp add: comp_def split_def)

lemma set_by_age [simp]: "set (by_age bs) = {x \<in> set bs. is_unnamed x}"
  by (simp add: by_age_def)

lemma length_evictions: "length (evictions bs limit) = length (filter is_unnamed bs) - limit"
  by (simp add: evictions_by_age by_age_def)

lemma distinct_by_age: "bm_sorted bs \<Longrightarrow> distinct (map fst (by_age bs))"
  unfolding by_age_def
  by (metis (no_types, lifting) bm_sorted_distinct distinct_map distinct_filter distinct_sort inj_on_subset
      filter_is_subset set_sort)

lemma evictions_unnamed: "k \<in> set (evictions bs limit) \<Longrightarrow> \<exists>e. (k, e) \<in> set bs \<and> b_unnamed e"
  by (auto simp: evictions_by_age is_unnamed_def dest!: in_set_takeD)

lemma evictions_oldest:
  assumes sorted: "bm_sorted bs" and inj: "inj_on entry_order (set bs)"
    and "k \<in> set (evictions bs limit)" "map_of bs k = Some e"
    and "map_of bs j = Some f" "b_unnamed f" "j \<notin> set (evictions bs limit)"
  shows "b_order e < b_order f"
proof -
  let ?n = "length (filter is_unnamed bs) - limit" and ?o = entry_order
  have d: "distinct (filter is_unnamed bs)" using bm_sorted_distinct [OF sorted] by (simp add: distinct_map)
  have "(k, e) \<in> set (take ?n (by_age bs))"
  proof -
    obtain e' where "(k, e') \<in> set (take ?n (by_age bs))"
      using assms(3) by (auto simp: evictions_by_age)
    moreover from this have "(k, e') \<in> set bs" using in_set_takeD by fastforce
    ultimately show ?thesis using assms(4) bm_member [OF sorted] by simp
  qed
  moreover have "(j, f) \<notin> set (take ?n (by_age bs))"
    using assms(7) by (force simp: evictions_by_age)
  moreover have "(j, f) \<in> set (filter is_unnamed bs)"
    using assms(5,6) bm_member [OF sorted] by (simp add: is_unnamed_def)
  ultimately have "?o (k, e) < ?o (j, f)"
    using take_sort_key_less [of ?o "filter is_unnamed bs" "(k, e)" ?n "(j, f)"] d inj_on_subset [OF inj]
    by (force simp: by_age_def)
  then show ?thesis by (simp add: entry_order_def)
qed

section \<open>Preservation\<close>

lemma store_inv_shrink:
  assumes "store_inv st" "bm_sorted (s_buffers st')" "set (s_buffers st') \<subseteq> set (s_buffers st)"
    "s_next_unnamed_id st \<le> s_next_unnamed_id st'" "s_next_unnamed_id st' \<le> u32_max" "s_next_order st \<le> s_next_order st'"
  shows "store_inv st'"
proof -
  have "entry_ok (s_next_unnamed_id st') (s_next_order st') x" if "x \<in> set (s_buffers st')" for x
    using that assms entry_ok_mono [of "s_next_unnamed_id st" "s_next_order st" x] by (auto simp: store_inv_def)
  then show ?thesis using assms inj_on_subset unfolding store_inv_def by blast
qed

lemma store_inv_remove: "store_inv st \<Longrightarrow> store_inv (st\<lparr>s_buffers := bm_remove k (s_buffers st)\<rparr>)"
  by (rule store_inv_shrink [of st]) (auto simp: store_inv_def bmap.valid_cut set_bm_remove)

lemma store_inv_removes: "store_inv st \<Longrightarrow> store_inv (st\<lparr>s_buffers := fold bm_remove ks (s_buffers st)\<rparr>)"
  by (rule store_inv_shrink [of st]) (auto simp: store_inv_def bmap.valid_cuts set_bm_removes)

text \<open>An entry is stored whose order no other entry has.\<close>

lemma store_inv_put:
  assumes "store_inv st" "bm_sorted (s_buffers st')" "set (s_buffers st') \<subseteq> insert x (set (s_buffers st) - A)"
    and "entry_ok (s_next_unnamed_id st') (s_next_order st') x"
    and "\<And>y. y \<in> set (s_buffers st) - A \<Longrightarrow> entry_order y \<noteq> entry_order x"
    and "s_next_unnamed_id st \<le> s_next_unnamed_id st'" "s_next_unnamed_id st' \<le> u32_max" "s_next_order st \<le> s_next_order st'"
  shows "store_inv st'"
proof -
  have "entry_ok (s_next_unnamed_id st') (s_next_order st') y" if "y \<in> set (s_buffers st')" for y
    using that assms(1,3,4,6-8) entry_ok_mono [of "s_next_unnamed_id st" "s_next_order st" y]
    by (auto simp: store_inv_def)
  moreover have "entry_order x \<notin> entry_order ` (set (s_buffers st) - A - {x})"
  proof
    assume "entry_order x \<in> entry_order ` (set (s_buffers st) - A - {x})"
    then obtain y where "y \<in> set (s_buffers st) - A" "entry_order x = entry_order y" by auto
    then show False using assms(5) [of y] by simp
  qed
  then have "inj_on entry_order (insert x (set (s_buffers st) - A))"
    using assms(1) inj_on_diff [of entry_order "set (s_buffers st)" A] by (simp add: inj_on_insert store_inv_def)
  then have "inj_on entry_order (set (s_buffers st'))" using assms(3) by (rule inj_on_subset)
  ultimately show ?thesis using assms(2,7) unfolding store_inv_def by simp
qed

lemma store_inv_insert:
  assumes inv: "store_inv st" and k: "k \<noteq> []" "b_content e \<noteq> []" "b_order e = s_next_order st"
    and st': "s_buffers st' = bm_insert k e (s_buffers st)" "s_next_order st' = Suc (s_next_order st)"
    and n: "s_next_unnamed_id st \<le> s_next_unnamed_id st'" "s_next_unnamed_id st' \<le> u32_max"
    and unnamed: "b_unnamed e \<Longrightarrow> \<exists>m < s_next_unnamed_id st'. k = unnamed_name m"
  shows "store_inv st'"
proof (rule store_inv_put [OF inv, of _ "(k, e)" "{}"])
  show "bm_sorted (s_buffers st')" using inv st' by (simp add: store_inv_def bmap.valid_put)
  show "set (s_buffers st') \<subseteq> insert (k, e) (set (s_buffers st) - {})" using st' set_bm_insert by simp
  show "entry_order y \<noteq> entry_order (k, e)" if "y \<in> set (s_buffers st) - {}" for y
    using that inv k(3) by (fastforce simp: store_inv_def entry_ok_def entry_order_def)
qed (use k st' n unnamed in \<open>auto simp: entry_ok_def\<close>)

lemma store_inv_rename:
  assumes inv: "store_inv st" and e: "map_of (s_buffers st) old = Some e" and k: "new \<noteq> []"
  shows "store_inv (st\<lparr>s_buffers := bm_insert new (e\<lparr>b_unnamed := False\<rparr>) (bm_remove old (bm_remove new (s_buffers st)))\<rparr>)"
proof -
  let ?bs = "bm_remove old (bm_remove new (s_buffers st))" and ?e = "e\<lparr>b_unnamed := False\<rparr>"
  have mem: "(old, e) \<in> set (s_buffers st)" using e by (rule map_of_SomeD)
  show ?thesis
  proof (rule store_inv_put [OF inv, of _ "(new, ?e)" "{(old, e)}"])
    show "entry_order y \<noteq> entry_order (new, ?e)" if "y \<in> set (s_buffers st) - {(old, e)}" for y
      using that inv inj_onD [of entry_order _ y "(old, e)"] mem by (auto simp: store_inv_def entry_order_def)
    show "entry_ok (s_next_unnamed_id (st\<lparr>s_buffers := bm_insert new ?e ?bs\<rparr>))
        (s_next_order (st\<lparr>s_buffers := bm_insert new ?e ?bs\<rparr>)) (new, ?e)"
      using inv mem k by (auto simp: store_inv_def entry_ok_def)
    show "set (s_buffers (st\<lparr>s_buffers := bm_insert new ?e ?bs\<rparr>)) \<subseteq> insert (new, ?e) (set (s_buffers st) - {(old, e)})"
      using set_bm_insert [of new ?e ?bs] by (auto simp: set_bm_remove)
  qed (use inv in \<open>auto simp: store_inv_def bmap.valid_move\<close>)
qed

lemma allocate_bounds:
  assumes "allocate_unnamed_name bs n = (n', r)" "n \<le> u32_max"
  shows "n \<le> n' \<and> n' \<le> u32_max"
  using assms allocate_free [of bs n n'] allocate_exhausted [of bs n n'] by (cases r) auto

lemma set_buffer_inv:
  assumes inv: "store_inv st" and room: "s_next_order st < u64_max"
  shows "store_inv (fst (set_buffer now st name content limit))"
proof (cases "content = [] \<or> name = Some []")
  case True
  then show ?thesis using inv by (auto simp: set_buffer_def validate_buffer_name_def split: option.splits)
next
  case False
  have next_order [simp]: "u64_wrap (Suc (s_next_order st)) = Suc (s_next_order st)"
    using room by (intro u64_wrap_id) simp
  have id [simp]: "s_next_unnamed_id st \<le> u32_max" using inv by (simp add: store_inv_def)
  show ?thesis
  proof (cases name)
    case (Some n)
    then show ?thesis using False
      by (auto simp: set_buffer_def validate_buffer_name_def Let_def intro!: store_inv_insert [OF inv, of n])
  next
    case None
    obtain n' r where alloc: "allocate_unnamed_name (s_buffers st) (s_next_unnamed_id st) = (n', r)" by fastforce
    show ?thesis
    proof (cases r)
      case (Inl e)
      then show ?thesis using inv False None alloc allocate_bounds [OF alloc id]
        by (auto simp: set_buffer_def Let_def store_inv_sorted intro: store_inv_shrink [of st])
    next
      case (Inr k)
      let ?e = "\<lparr>b_content = content, b_order = s_next_order st, b_created = now, b_unnamed = True\<rparr>"
      let ?st = "\<lparr>s_buffers = bm_insert k ?e (s_buffers st), s_next_unnamed_id = n', s_next_order = Suc (s_next_order st)\<rparr>"
      obtain m where "s_next_unnamed_id st \<le> m" "n' = m + 1" "n' \<le> u32_max" "k = unnamed_name m"
        using allocate_free [of "s_buffers st" _ n' k] alloc Inr by blast
      then have "store_inv ?st" using False by (intro store_inv_insert [OF inv, of k ?e]) auto
      then show ?thesis using False None alloc Inr store_inv_removes [of ?st]
        by (auto simp: set_buffer_def Let_def store_inv_def)
    qed
  qed
qed

end
