(* ===== verification/Buffers_Spec.thy ===== *)
theory Buffers_Spec
  imports Buffers
begin

text \<open>
  What the paste buffers promise: no sequence of requests panics, an automatic buffer gets a fresh
  name and evicts exactly the oldest automatic buffers, a rename moves one entry and touches no other.
\<close>

section \<open>Requests\<close>

datatype store_event =
    Set_Buffer i64 "string option" string usize
  | Rename_Buffer "string option" string
  | Delete_Buffer "string option"
  | Delete_If string u64

text \<open>One request; \<open>None\<close> is a panic.\<close>

fun store_step :: "store_event \<Rightarrow> buffer_store \<Rightarrow> buffer_store option" where
  "store_step (Set_Buffer now name content limit) st = Some (fst (set_buffer now st name content limit))"
| "store_step (Rename_Buffer old new) st = map_option fst (rename_buffer st old new)"
| "store_step (Delete_Buffer name) st = Some (fst (delete_buffer st name))"
| "store_step (Delete_If name order) st = Some (fst (delete_if_order_matches st name order))"

fun store_run :: "store_event list \<Rightarrow> buffer_store \<Rightarrow> buffer_store option" where
  "store_run [] st = Some st"
| "store_run (ev # evs) st = Option.bind (store_step ev st) (store_run evs)"

section \<open>The newest automatic buffer\<close>

lemma top_unnamed_entry:
  assumes "bm_sorted (s_buffers st)" "top_unnamed st = Some k"
  shows "\<exists>e. entry_of st k = Some e \<and> b_unnamed e"
proof -
  obtain e where "max_by_key (\<lambda>(_, e). b_order e) (filter is_unnamed (s_buffers st)) = Some (k, e)"
    using assms(2) by (auto simp: top_unnamed_def)
  from max_by_key_Some [OF this] show ?thesis
    using bm_member [OF assms(1)] by (auto simp: entry_of_def is_unnamed_def)
qed

lemma top_unnamed_newest:
  assumes sorted: "bm_sorted (s_buffers st)" and k: "entry_of st k = Some e" "b_unnamed e"
    and newest: "\<And>j f. entry_of st j = Some f \<Longrightarrow> b_unnamed f \<Longrightarrow> j \<noteq> k \<Longrightarrow> b_order f < b_order e"
  shows "top_unnamed st = Some k"
proof -
  have "max_by_key (\<lambda>(_, e). b_order e) (filter is_unnamed (s_buffers st)) = Some (k, e)"
  proof (rule max_by_key_unique)
    show "(k, e) \<in> set (filter is_unnamed (s_buffers st))"
      using k bm_member [OF sorted] by (simp add: entry_of_def is_unnamed_def)
    fix y assume y: "y \<in> set (filter is_unnamed (s_buffers st))" "y \<noteq> (k, e)"
    obtain j f where jf: "y = (j, f)" by fastforce
    then have "entry_of st j = Some f" "b_unnamed f"
      using y(1) bm_member [OF sorted, of j f] by (simp_all add: entry_of_def is_unnamed_def)
    then show "(case y of (_, e) \<Rightarrow> b_order e) < (case (k, e) of (_, e) \<Rightarrow> b_order e)"
      using newest [of j f] k(1) y(2) jf by (cases "j = k") auto
  qed
  then show ?thesis by (simp add: top_unnamed_def)
qed

section \<open>Every request keeps the invariant\<close>

lemma rename_buffer_returns:
  assumes "store_inv st"
  shows "rename_buffer st old new \<noteq> None"
  using assms top_unnamed_entry [OF store_inv_sorted [OF assms]]
  by (auto simp: rename_buffer_def validate_buffer_name_def Let_def map_of_bm_remove entry_of_def
      split: option.splits)

lemma rename_buffer_inv:
  assumes "store_inv st" "rename_buffer st old new = Some (st', r)"
  shows "store_inv st' \<and> s_next_order st' = s_next_order st"
  using assms
  by (auto simp: rename_buffer_def validate_buffer_name_def Let_def map_of_bm_remove store_inv_rename
      split: option.splits sum.splits if_splits)

lemma delete_buffer_inv: "store_inv st \<Longrightarrow> store_inv (fst (delete_buffer st name))"
  by (auto simp: delete_buffer_def store_inv_remove split: option.splits sum.splits)

lemma delete_if_inv: "store_inv st \<Longrightarrow> store_inv (fst (delete_if_order_matches st name order))"
  by (auto simp: delete_if_order_matches_def store_inv_remove split: option.splits)

lemma set_buffer_order:
  assumes "s_next_order st < u64_max"
  shows "s_next_order (fst (set_buffer now st name content limit)) \<le> Suc (s_next_order st)"
proof -
  have "u64_wrap (Suc (s_next_order st)) = Suc (s_next_order st)" using assms by (intro u64_wrap_id) simp
  then show ?thesis
    by (auto simp: set_buffer_def Let_def split: option.splits sum.splits prod.splits)
qed

lemma delete_order:
  "s_next_order (fst (delete_buffer st name)) = s_next_order st"
  "s_next_order (fst (delete_if_order_matches st k order)) = s_next_order st"
  by (auto simp: delete_buffer_def delete_if_order_matches_def split: option.splits sum.splits)

lemma store_step_inv:
  assumes "store_inv st" "s_next_order st < u64_max"
  shows "\<exists>st'. store_step ev st = Some st' \<and> store_inv st' \<and> s_next_order st' \<le> Suc (s_next_order st)"
proof (cases ev)
  case (Rename_Buffer old new)
  then show ?thesis using assms rename_buffer_returns [of st old new] rename_buffer_inv [of st old new]
    by fastforce
qed (simp_all add: assms set_buffer_inv set_buffer_order delete_buffer_inv delete_if_inv delete_order)

lemma store_run_inv:
  "store_inv st \<Longrightarrow> s_next_order st + length evs \<le> u64_max \<Longrightarrow>
     \<exists>st'. store_run evs st = Some st' \<and> store_inv st' \<and> s_next_order st' \<le> s_next_order st + length evs"
proof (induction evs arbitrary: st)
  case (Cons ev evs)
  then obtain st1 where st1: "store_step ev st = Some st1" "store_inv st1" "s_next_order st1 \<le> Suc (s_next_order st)"
    using store_step_inv [of st ev] by fastforce
  then show ?case using Cons.IH [of st1] Cons.prems by fastforce
qed simp

lemma show_with_order_returns: "store_inv st \<Longrightarrow> show_with_order st name \<noteq> None"
  using top_unnamed_entry [OF store_inv_sorted, of st]
  by (auto simp: show_with_order_def split: option.splits)

section \<open>An automatic buffer\<close>

definition unnamed_count :: "buffer_store \<Rightarrow> nat" where
  "unnamed_count st = length (filter is_unnamed (s_buffers st))"

lemma length_filter_removes:
  assumes "bm_sorted bs" "distinct ks" "\<And>k. k \<in> set ks \<Longrightarrow> \<exists>e. (k, e) \<in> set bs \<and> P (k, e)"
  shows "length (filter P (fold bm_remove ks bs)) = length (filter P bs) - length ks"
proof -
  let ?in = "\<lambda>(j, _). j \<in> set ks"
  have "fold bm_remove ks bs = filter (\<lambda>x. \<not> ?in x) bs"
    by (induction ks arbitrary: bs) (auto simp: bm_remove_def split_def intro!: filter_cong)
  then have "length (filter P (fold bm_remove ks bs)) = length (filter P bs) - length (filter ?in (filter P bs))"
    using sum_length_filter_compl [of ?in "filter P bs"] by (simp add: conj_commute)
  moreover have "length (filter ?in (filter P bs)) = length ks"
  proof -
    have keys: "fst ` set (filter ?in (filter P bs)) = set ks" using assms(3) by force
    have "distinct (map fst (filter ?in (filter P bs)))"
      using bm_sorted_distinct [OF assms(1)] by (simp add: distinct_map_filter)
    then have "length (filter ?in (filter P bs)) = card (fst ` set (filter ?in (filter P bs)))"
      using distinct_card by fastforce
    then show ?thesis using keys distinct_card [OF assms(2)] by simp
  qed
  ultimately show ?thesis by simp
qed

lemma evictions_distinct: "bm_sorted bs \<Longrightarrow> distinct (evictions bs limit)"
  using distinct_by_age [of bs] by (simp add: evictions_by_age take_map distinct_take flip: take_map)

lemma evictions_count:
  assumes "bm_sorted bs"
  shows "length (filter is_unnamed (fold bm_remove (evictions bs limit) bs)) = min (length (filter is_unnamed bs)) limit"
proof -
  have "\<exists>e. (i, e) \<in> set bs \<and> is_unnamed (i, e)" if "i \<in> set (evictions bs limit)" for i
    using evictions_unnamed [of i bs limit] that by (simp add: is_unnamed_def)
  then show ?thesis
    using length_filter_removes [OF assms evictions_distinct [OF assms]] length_evictions [of bs limit] by simp
qed

lemma evictions_keep_newest:
  assumes sorted: "bm_sorted bs" and inj: "inj_on entry_order (set bs)" and limit: "0 < limit"
    and k: "map_of bs k = Some e" "b_unnamed e"
    and newest: "\<And>j f. map_of bs j = Some f \<Longrightarrow> j \<noteq> k \<Longrightarrow> b_order f < b_order e"
  shows "k \<notin> set (evictions bs limit)"
proof
  assume gone: "k \<in> set (evictions bs limit)"
  have "(k, e) \<in> set (filter is_unnamed bs)" using k bm_member [OF sorted] by (simp add: is_unnamed_def)
  then have "0 < length (filter is_unnamed bs)" by (rule length_pos_if_in_set)
  then obtain x where x: "x \<in> set (filter is_unnamed (fold bm_remove (evictions bs limit) bs))"
    using evictions_count [OF sorted, of limit] limit
    by (cases "filter is_unnamed (fold bm_remove (evictions bs limit) bs)") (auto simp: min_def split: if_splits)
  obtain j f where jf: "x = (j, f)" by fastforce
  have "j \<notin> set (evictions bs limit)" "map_of bs j = Some f" "b_unnamed f"
    using x jf bm_member [OF sorted] by (auto simp: set_bm_removes is_unnamed_def)
  then show False
    using evictions_oldest [OF sorted inj gone k(1), of j f] newest [of j f] gone by fastforce
qed

text \<open>The store between the insertion of the new automatic buffer and the eviction.\<close>

lemma set_unnamed_steps:
  assumes inv: "store_inv st" and room: "s_next_order st < u64_max" and content: "content \<noteq> []"
    and set: "set_buffer now st None content limit = (st', Inr out)"
  obtains k bs where "entry_of st k = None" "o_buffer_name out = Some k"
    "bs = bm_insert k \<lparr>b_content = content, b_order = s_next_order st, b_created = now, b_unnamed = True\<rparr> (s_buffers st)"
    "o_evicted out = (if limit > 0 then evictions bs limit else [])" "s_buffers st' = fold bm_remove (o_evicted out) bs"
    "bm_sorted bs" "inj_on entry_order (set bs)" "\<And>j f. map_of (s_buffers st) j = Some f \<Longrightarrow> b_order f < s_next_order st"
proof -
  let ?e = "\<lparr>b_content = content, b_order = s_next_order st, b_created = now, b_unnamed = True\<rparr>"
  obtain n' k where alloc: "allocate_unnamed_name (s_buffers st) (s_next_unnamed_id st) = (n', Inr k)"
    using set content by (auto simp: set_buffer_def Let_def split: prod.splits sum.splits)
  then obtain m where m: "s_next_unnamed_id st \<le> m" "n' = m + 1" "n' \<le> u32_max" "k = unnamed_name m"
    "map_of (s_buffers st) k = None"
    using allocate_free by blast
  let ?bs = "bm_insert k ?e (s_buffers st)"
  let ?st = "\<lparr>s_buffers = ?bs, s_next_unnamed_id = n', s_next_order = Suc (s_next_order st)\<rparr>"
  have "store_inv ?st" using m content by (intro store_inv_insert [OF inv, of k ?e]) auto
  then have "bm_sorted ?bs" "inj_on entry_order (set ?bs)" by (simp_all add: store_inv_def)
  moreover have "b_order f < s_next_order st" if "map_of (s_buffers st) j = Some f" for j f
    using inv map_of_SomeD [OF that] by (auto simp: store_inv_def entry_ok_def)
  ultimately show ?thesis
    using that [of k ?bs] set content alloc m(5) by (auto simp: set_buffer_def Let_def entry_of_def)
qed

lemma set_unnamed_kept:
  assumes inv: "store_inv st" and room: "s_next_order st < u64_max" and content: "content \<noteq> []" and limit: "0 < limit"
    and set: "set_buffer now st None content limit = (st', Inr out)"
  obtains k where "o_buffer_name out = Some k" "entry_of st k = None" "k \<notin> set (o_evicted out)"
    "entry_of st' k = Some \<lparr>b_content = content, b_order = s_next_order st, b_created = now, b_unnamed = True\<rparr>"
    "\<And>j. j \<noteq> k \<Longrightarrow> entry_of st' j = (if j \<in> set (o_evicted out) then None else entry_of st j)"
    "distinct (o_evicted out)" "unnamed_count st' = min (Suc (unnamed_count st)) limit"
    "length (o_evicted out) = Suc (unnamed_count st) - limit"
    "\<And>i j e f. i \<in> set (o_evicted out) \<Longrightarrow> j \<notin> set (o_evicted out) \<Longrightarrow> entry_of st i = Some e \<Longrightarrow>
       entry_of st j = Some f \<Longrightarrow> b_unnamed f \<Longrightarrow> b_unnamed e \<and> b_order e < b_order f"
proof (rule set_unnamed_steps [OF inv room content set])
  fix k bs
  assume k: "entry_of st k = None" "o_buffer_name out = Some k"
    and bs: "bs = bm_insert k \<lparr>b_content = content, b_order = s_next_order st, b_created = now, b_unnamed = True\<rparr> (s_buffers st)"
    and ev0: "o_evicted out = (if limit > 0 then evictions bs limit else [])" and st': "s_buffers st' = fold bm_remove (o_evicted out) bs"
    and sorted: "bm_sorted bs" and inj: "inj_on entry_order (set bs)"
    and older: "\<And>j f. map_of (s_buffers st) j = Some f \<Longrightarrow> b_order f < s_next_order st"
  have ev: "o_evicted out = evictions bs limit" using ev0 limit by simp
  note look = map_of_bm_insert [OF store_inv_sorted [OF inv], of k]
  have fresh: "k \<notin> fst ` set (s_buffers st)" using k(1) by (simp add: entry_of_def map_of_eq_None_iff)
  have count: "length (filter is_unnamed bs) = Suc (unnamed_count st)"
    using bs length_filter_bm_insert [OF fresh] by (simp add: unnamed_count_def is_unnamed_def)
  have len: "length (o_evicted out) = Suc (unnamed_count st) - limit" using ev count length_evictions by simp
  have dist: "distinct (o_evicted out)" using ev evictions_distinct [OF sorted] by simp
  have count': "unnamed_count st' = min (Suc (unnamed_count st)) limit"
    using st' ev evictions_count [OF sorted] count by (simp add: unnamed_count_def)
  have kept: "k \<notin> set (o_evicted out)"
    unfolding ev using older bs look by (intro evictions_keep_newest [OF sorted inj limit]) (auto split: if_splits)
  have evicted_older: "b_unnamed e \<and> b_order e < b_order f"
    if "i \<in> set (o_evicted out)" "j \<notin> set (o_evicted out)" "entry_of st i = Some e" "entry_of st j = Some f" "b_unnamed f"
    for i j e f
  proof -
    have *: "map_of bs i = Some e" "map_of bs j = Some f" using that k(1) bs look by (auto simp: entry_of_def)
    then have "b_unnamed e"
      using evictions_unnamed [of i bs limit] bm_member [OF sorted] that(1) ev by auto
    then show ?thesis using evictions_oldest [OF sorted inj, of i limit e j f] * that ev by simp
  qed
  have "entry_of st' j = (if j \<in> set (o_evicted out) then None else map_of bs j)" for j
    using st' bmap.look_cuts [OF sorted] by (simp add: entry_of_def)
  then show ?thesis
    using that [of k] k kept dist count' len evicted_older bs look by (auto simp: entry_of_def)
qed

lemma set_unnamed_top:
  assumes inv: "store_inv st" and room: "s_next_order st < u64_max" and content: "content \<noteq> []" and limit: "0 < limit"
    and set: "set_buffer now st None content limit = (st', Inr out)"
  shows "top_unnamed st' = o_buffer_name out"
proof (rule set_unnamed_kept [OF inv room content limit set])
  fix k assume k: "o_buffer_name out = Some k" "entry_of st k = None"
    and e: "entry_of st' k = Some \<lparr>b_content = content, b_order = s_next_order st, b_created = now, b_unnamed = True\<rparr>"
    and others: "\<And>j. j \<noteq> k \<Longrightarrow> entry_of st' j = (if j \<in> set (o_evicted out) then None else entry_of st j)"
  have "store_inv st'" using set_buffer_inv [OF inv room, of now None content limit] set by simp
  moreover have "b_order f < s_next_order st" if "entry_of st' j = Some f" "j \<noteq> k" for j f
    using that others inv map_of_SomeD [of "s_buffers st" j f]
    by (auto simp: entry_of_def store_inv_def entry_ok_def split: if_splits)
  ultimately show ?thesis using k(1) e by (auto simp: store_inv_sorted intro!: top_unnamed_newest)
qed

lemma show_buffer_top:
  "top_unnamed st = Some k \<Longrightarrow> entry_of st k = Some e \<Longrightarrow> show_buffer st None = Some (Inr (k, b_content e))"
  by (simp add: show_buffer_def show_with_order_def)

section \<open>Properties\<close>

text \<open>
  C19: No sequence of fewer than 2^64 requests to a new store panics; the store it leaves satisfies the
  invariant (names sorted and non-empty, no empty content, insertion orders distinct and below the
  counter, automatic buffers named below the name counter), and showing any buffer of it, or the
  newest automatic one, does not panic either.
\<close>

theorem buffer_store_never_panics:
  assumes "length evs \<le> u64_max"
  shows "\<exists>st. store_run evs new_store = Some st \<and> store_inv st
    \<and> (\<forall>name. show_buffer st name \<noteq> None) \<and> (\<forall>old new. rename_buffer st old new \<noteq> None)"
proof -
  obtain st where "store_run evs new_store = Some st" "store_inv st"
    using store_run_inv [OF store_inv_new, of evs] assms by (auto simp: new_store_def)
  moreover from this have "show_buffer st name \<noteq> None" "rename_buffer st old new \<noteq> None" for name old new
    using show_with_order_returns [of st name] rename_buffer_returns [of st old new] by (auto simp: show_buffer_def)
  ultimately show ?thesis by blast
qed

theorem buffer_store_never_panics_witness:
  "\<exists>st. store_run [Set_Buffer 7 None ''a'' 1, Set_Buffer 8 None ''b'' 1, Rename_Buffer None ''x''] new_store = Some st
     \<and> store_inv st"
proof -
  have "length [Set_Buffer 7 None ''a'' 1, Set_Buffer 8 None ''b'' 1, Rename_Buffer None ''x''] \<le> u64_max"
    by (simp add: u64_max_def)
  then show ?thesis using buffer_store_never_panics by blast
qed

text \<open>
  C20: Storing text under an automatic name with a positive limit: the name is fresh, the text can be
  read back as the newest automatic buffer, exactly the oldest automatic buffers beyond the limit are
  evicted (never the new one and never a named one), and every other buffer is unchanged.
\<close>

theorem set_unnamed_spec:
  assumes "store_inv st" "s_next_order st < u64_max" "content \<noteq> []" "0 < limit"
    and "set_buffer now st None content limit = (st', Inr out)"
  shows "\<exists>k. o_buffer_name out = Some k \<and> entry_of st k = None
    \<and> show_buffer st' None = Some (Inr (k, content))
    \<and> (\<forall>j. j \<noteq> k \<longrightarrow> entry_of st' j = (if j \<in> set (o_evicted out) then None else entry_of st j))
    \<and> length (o_evicted out) = Suc (unnamed_count st) - limit \<and> unnamed_count st' = min (Suc (unnamed_count st)) limit
    \<and> (\<forall>i \<in> set (o_evicted out). \<forall>j e f. j \<notin> set (o_evicted out) \<and> entry_of st i = Some e
          \<and> entry_of st j = Some f \<and> b_unnamed f \<longrightarrow> b_unnamed e \<and> b_order e < b_order f)"
proof (rule set_unnamed_kept [OF assms])
  fix k assume k: "o_buffer_name out = Some k"
    and e: "entry_of st' k = Some \<lparr>b_content = content, b_order = s_next_order st, b_created = now, b_unnamed = True\<rparr>"
    and rest: "entry_of st k = None"
      "\<And>j. j \<noteq> k \<Longrightarrow> entry_of st' j = (if j \<in> set (o_evicted out) then None else entry_of st j)"
      "unnamed_count st' = min (Suc (unnamed_count st)) limit" "length (o_evicted out) = Suc (unnamed_count st) - limit"
    and older: "\<And>i j e f. i \<in> set (o_evicted out) \<Longrightarrow> j \<notin> set (o_evicted out) \<Longrightarrow> entry_of st i = Some e \<Longrightarrow>
       entry_of st j = Some f \<Longrightarrow> b_unnamed f \<Longrightarrow> b_unnamed e \<and> b_order e < b_order f"
  have "show_buffer st' None = Some (Inr (k, content))"
    using show_buffer_top [OF _ e] set_unnamed_top [OF assms] k by simp
  then show ?thesis using k rest older by (intro exI [of _ k]) auto
qed

definition two_buffers :: buffer_store where
  "two_buffers =
     fst (set_buffer 8 (fst (set_buffer 7 new_store (Some ''n'') ''text'' 2)) None ''abc'' 2)"

lemma two_buffers_inv: "store_inv two_buffers" "s_next_order two_buffers < u64_max"
proof -
  let ?st = "fst (set_buffer 7 new_store (Some ''n'') ''text'' 2)"
  have 1: "store_inv ?st" by (rule set_buffer_inv [OF store_inv_new]) (simp add: new_store_def u64_max_def)
  have 2: "s_next_order ?st \<le> 1"
    using set_buffer_order [of new_store 7 "Some ''n''" "''text''" 2] by (simp add: new_store_def u64_max_def)
  then have 3: "s_next_order ?st < u64_max" by (simp add: u64_max_def)
  show "store_inv two_buffers" unfolding two_buffers_def by (rule set_buffer_inv [OF 1 3])
  show "s_next_order two_buffers < u64_max"
    using set_buffer_order [OF 3, of 8 None "''abc''" 2] 2 by (simp add: two_buffers_def u64_max_def)
qed

lemma decimal_small: "decimal 0 = ''0''" "decimal (Suc 0) = ''1''"
  by (simp_all add: decimal.simps [of 0] decimal.simps [of "Suc 0"] digit_def char_of_def bit_0)

lemmas buffer_eval = set_buffer_def new_store_def validate_buffer_name_def allocate_unnamed_name.simps
  unnamed_name_def evictions_def is_unnamed_def u64_wrap_def u32_max_def Let_def bm_remove_def less_list_code
  decimal_small

theorem set_unnamed_spec_witness:
  "\<exists>st' out. set_buffer 9 two_buffers None ''xyz'' 1 = (st', Inr out) \<and> o_evicted out = [''buffer0'']
     \<and> show_buffer st' None = Some (Inr (''buffer1'', ''xyz''))"
proof -
  obtain st' where set: "set_buffer 9 two_buffers None ''xyz'' 1
      = (st', Inr \<lparr>o_buffer_name = Some ''buffer1'', o_evicted = [''buffer0'']\<rparr>)"
    by (simp add: two_buffers_def buffer_eval)
  then show ?thesis using set_unnamed_spec [OF two_buffers_inv _ _ set] by auto
qed

text \<open>
  A rename that changes the store moves the entry: the new name holds the old content with the
  old insertion order, as a named buffer; the old name is free; a buffer that had the new name is
  replaced, and only then \<open>replaced\<close> is reported; every other buffer is unchanged. Without a source
  name it takes the newest automatic buffer.
\<close>

theorem rename_buffer_spec:
  assumes "store_inv st" "rename_buffer st source new = Some (st', Inr out)" "r_changed out"
  shows "\<exists>old e. (source = Some old \<or> source = None \<and> top_unnamed st = Some old) \<and> old \<noteq> new
    \<and> entry_of st old = Some e
    \<and> out = \<lparr>r_old_name = old, r_new_name = new, r_replaced = (entry_of st new \<noteq> None), r_changed = True\<rparr>
    \<and> (\<forall>j. entry_of st' j =
          (if j = new then Some (e\<lparr>b_unnamed := False\<rparr>) else if j = old then None else entry_of st j))"
proof -
  obtain old e where *: "source = Some old \<or> source = None \<and> top_unnamed st = Some old" "old \<noteq> new"
    "map_of (s_buffers st) old = Some e"
    "s_buffers st' = bm_insert new (e\<lparr>b_unnamed := False\<rparr>) (bm_remove old (bm_remove new (s_buffers st)))"
    "out = \<lparr>r_old_name = old, r_new_name = new, r_replaced = (entry_of st new \<noteq> None), r_changed = True\<rparr>"
    using assms(2,3)
    by (auto simp: rename_buffer_def Let_def map_of_bm_remove split: option.splits sum.splits if_splits)
  then show ?thesis
    using bmap.look_move [OF store_inv_sorted [OF assms(1)], of old new]
    by (intro exI [of _ old] exI [of _ e]) (simp add: entry_of_def)
qed

theorem rename_buffer_spec_witness:
  "\<exists>st' out. rename_buffer two_buffers None ''n'' = Some (st', Inr out) \<and> r_replaced out
     \<and> get_buffer st' ''n'' = Some ''abc'' \<and> get_buffer st' ''buffer0'' = None"
proof -
  obtain st' where rename: "rename_buffer two_buffers None ''n''
      = Some (st', Inr \<lparr>r_old_name = ''buffer0'', r_new_name = ''n'', r_replaced = True, r_changed = True\<rparr>)"
    by (simp add: two_buffers_def buffer_eval rename_buffer_def top_unnamed_def entry_of_def)
  then have "get_buffer two_buffers ''buffer0'' = Some ''abc''"
    by (simp add: two_buffers_def buffer_eval get_buffer_def entry_of_def)
  then show ?thesis
    using rename_buffer_spec [OF two_buffers_inv(1) rename] rename by (auto simp: get_buffer_def)
qed

end
