(* ===== verification/Glob.thy ===== *)
theory Glob
  imports Rmux_Prelude
begin

text \<open>
  Glob matching (\<open>glob.rs\<close>). Pattern and text are sequences of Unicode code points, as
  \<open>str::chars\<close> gives them; the index arguments of the source are the remaining suffixes. The
  reference is a relation over the items of a pattern, without any search.
\<close>

section \<open>Model\<close>

type_synonym uchar = nat

abbreviation star :: uchar where "star \<equiv> 42"

abbreviation question :: uchar where "question \<equiv> 63"

abbreviation open_bracket :: uchar where "open_bracket \<equiv> 91"

abbreviation close_bracket :: uchar where "close_bracket \<equiv> 93"

abbreviation escape_char :: uchar where "escape_char \<equiv> 92"

abbreviation dash :: uchar where "dash \<equiv> 45"

definition negation :: "uchar \<Rightarrow> bool" where
  "negation c \<longleftrightarrow> c = 33 \<or> c = 94"

text \<open>The loop over the entries of a bracket expression.\<close>

fun bracket_loop :: "uchar \<Rightarrow> bool \<Rightarrow> bool \<Rightarrow> uchar list \<Rightarrow> (bool \<times> uchar list) option" where
  "bracket_loop v matched saw_entry [] = None"
| "bracket_loop v matched saw_entry (c # d # e # p) =
     (if c = close_bracket \<and> saw_entry then Some (matched, d # e # p)
      else if d = dash \<and> e \<noteq> close_bracket
           then bracket_loop v (matched \<or> c \<le> v \<and> v \<le> e) True p
           else bracket_loop v (matched \<or> c = v) True (d # e # p))"
| "bracket_loop v matched saw_entry (c # p) =
     (if c = close_bracket \<and> saw_entry then Some (matched, p)
      else bracket_loop v (matched \<or> c = v) True p)"

definition bracket_match :: "uchar list \<Rightarrow> uchar \<Rightarrow> (bool \<times> uchar list) option" where
  "bracket_match p v =
     (case p of
        [] \<Rightarrow> None
      | c # p' \<Rightarrow>
          map_option (\<lambda>(matched, rest). (matched \<noteq> negation c, rest))
            (bracket_loop v False False (if negation c then p' else p)))"

fun tails :: "'a list \<Rightarrow> 'a list list" where
  "tails [] = [[]]"
| "tails (x # xs) = (x # xs) # tails xs"

lemma bracket_loop_shorter: "bracket_loop v m saw p = Some (r, rest) \<Longrightarrow> length rest < length p"
  by (induction v m saw p arbitrary: r rest rule: bracket_loop.induct) (fastforce split: if_splits)+

lemma bracket_match_shorter: "bracket_match p v = Some (r, rest) \<Longrightarrow> length rest < Suc (length p)"
  by (auto simp: bracket_match_def dest!: bracket_loop_shorter split: list.splits if_splits)

function fnmatch_from :: "uchar list \<Rightarrow> uchar list \<Rightarrow> bool" where
  "fnmatch_from [] t \<longleftrightarrow> t = []"
| "fnmatch_from (c # p) t \<longleftrightarrow>
     (if c = star then list_ex (\<lambda>t'. fnmatch_from (dropWhile (\<lambda>x. x = star) p) t') (tails t)
      else if c = question then t \<noteq> [] \<and> fnmatch_from p (tl t)
      else if c = open_bracket then
        (case t of
           [] \<Rightarrow> False
         | v # t' \<Rightarrow>
             (case bracket_match p v of
                Some (matched, p') \<Rightarrow> matched \<and> fnmatch_from p' t'
              | None \<Rightarrow> v = open_bracket \<and> fnmatch_from p t'))
      else if c = escape_char then
        (let literal = (case p of [] \<Rightarrow> escape_char | l # _ \<Rightarrow> l); rest = tl p
         in t \<noteq> [] \<and> hd t = literal \<and> fnmatch_from rest (tl t))
      else t \<noteq> [] \<and> hd t = c \<and> fnmatch_from p (tl t))"
  by pat_completeness auto
termination
  by (relation "measure (\<lambda>(p, t). length p)")
    (auto simp: le_imp_less_Suc length_dropWhile_le dest: bracket_match_shorter)

declare fnmatch_from.simps(2) [simp del]

definition fnmatch :: "uchar list \<Rightarrow> uchar list \<Rightarrow> bool" where
  "fnmatch pattern text = fnmatch_from pattern text"

section \<open>Reference\<close>

datatype glob_item = Many | One | OneOf bool "(uchar \<times> uchar) list" | Literal uchar

definition in_ranges :: "uchar \<Rightarrow> (uchar \<times> uchar) list \<Rightarrow> bool" where
  "in_ranges v rs \<longleftrightarrow> (\<exists>(lo, hi) \<in> set rs. lo \<le> v \<and> v \<le> hi)"

inductive glob_matches :: "glob_item list \<Rightarrow> uchar list \<Rightarrow> bool" where
  nothing: "glob_matches [] []"
| many: "glob_matches is t \<Longrightarrow> glob_matches (Many # is) (s @ t)"
| one: "glob_matches is t \<Longrightarrow> glob_matches (One # is) (c # t)"
| one_of: "in_ranges c rs \<noteq> negated \<Longrightarrow> glob_matches is t \<Longrightarrow> glob_matches (OneOf negated rs # is) (c # t)"
| literal: "glob_matches is t \<Longrightarrow> glob_matches (Literal c # is) (c # t)"

inductive_simps glob_matches_simps [simp]:
  "glob_matches [] t" "glob_matches (One # is) t" "glob_matches (OneOf n rs # is) t" "glob_matches (Literal c # is) t"

inductive_simps glob_matches_Many: "glob_matches (Many # is) t"

text \<open>The items of a pattern. An unclosed bracket is a literal, and so is a trailing backslash.\<close>

fun parse_ranges :: "bool \<Rightarrow> uchar list \<Rightarrow> ((uchar \<times> uchar) list \<times> uchar list) option" where
  "parse_ranges saw_entry [] = None"
| "parse_ranges saw_entry (c # d # e # p) =
     (if c = close_bracket \<and> saw_entry then Some ([], d # e # p)
      else if d = dash \<and> e \<noteq> close_bracket
           then map_option (\<lambda>(rs, rest). ((c, e) # rs, rest)) (parse_ranges True p)
           else map_option (\<lambda>(rs, rest). ((c, c) # rs, rest)) (parse_ranges True (d # e # p)))"
| "parse_ranges saw_entry (c # p) =
     (if c = close_bracket \<and> saw_entry then Some ([], p)
      else map_option (\<lambda>(rs, rest). ((c, c) # rs, rest)) (parse_ranges True p))"

definition parse_bracket :: "uchar list \<Rightarrow> (bool \<times> (uchar \<times> uchar) list \<times> uchar list) option" where
  "parse_bracket p =
     (case p of
        [] \<Rightarrow> None
      | c # p' \<Rightarrow>
          map_option (\<lambda>(rs, rest). (negation c, rs, rest)) (parse_ranges False (if negation c then p' else p)))"

lemma parse_ranges_shorter: "parse_ranges saw p = Some (rs, rest) \<Longrightarrow> length rest < length p"
  by (induction saw p arbitrary: rs rest rule: parse_ranges.induct) (fastforce split: if_splits)+

lemma parse_bracket_shorter: "parse_bracket p = Some (n, rs, rest) \<Longrightarrow> length rest < Suc (length p)"
  by (auto simp: parse_bracket_def dest!: parse_ranges_shorter split: list.splits if_splits)

function parse_glob :: "uchar list \<Rightarrow> glob_item list" where
  "parse_glob [] = []"
| "parse_glob (c # p) =
     (if c = star then Many # parse_glob p
      else if c = question then One # parse_glob p
      else if c = open_bracket then
        (case parse_bracket p of
           Some (negated, rs, rest) \<Rightarrow> OneOf negated rs # parse_glob rest
         | None \<Rightarrow> Literal c # parse_glob p)
      else if c = escape_char then
        (case p of [] \<Rightarrow> [Literal c] | l # p' \<Rightarrow> Literal l # parse_glob p')
      else Literal c # parse_glob p)"
  by pat_completeness auto
termination
  by (relation "measure length") (auto dest: parse_bracket_shorter)

declare parse_glob.simps(2) [simp del]

section \<open>The matcher implements the reference\<close>

lemma in_ranges_simps [simp]:
  "\<not> in_ranges v []" "in_ranges v ((lo, hi) # rs) \<longleftrightarrow> lo \<le> v \<and> v \<le> hi \<or> in_ranges v rs"
  by (auto simp: in_ranges_def)

lemma bracket_loop_ranges:
  "bracket_loop v m saw p = map_option (\<lambda>(rs, rest). (m \<or> in_ranges v rs, rest)) (parse_ranges saw p)"
proof (induction v m saw p rule: bracket_loop.induct)
  case (2 v m saw c d e p)
  then show ?case by (auto simp: option.map_comp comp_def case_prod_beta' le_antisym intro!: option.map_cong0)
qed (auto simp: option.map_comp comp_def case_prod_beta' le_antisym intro!: option.map_cong0)

lemma bracket_match_ranges:
  "bracket_match p v = map_option (\<lambda>(negated, rs, rest). (in_ranges v rs \<noteq> negated, rest)) (parse_bracket p)"
  by (cases p) (simp_all add: bracket_match_def parse_bracket_def bracket_loop_ranges option.map_comp comp_def case_prod_beta')

lemma list_ex_tails: "list_ex P (tails t) \<longleftrightarrow> (\<exists>s t'. t = s @ t' \<and> P t')"
proof (induction t)
  case (Cons x t)
  show ?case by (simp add: Cons Cons_eq_append_conv) blast
qed simp

lemma many_many: "glob_matches (Many # Many # is) t \<longleftrightarrow> glob_matches (Many # is) t"
proof
  assume "glob_matches (Many # Many # is) t"
  then obtain s1 s2 t' where "t = s1 @ s2 @ t'" "glob_matches is t'" by (auto simp: glob_matches_Many)
  then show "glob_matches (Many # is) t" using glob_matches.many [of "is" t' "s1 @ s2"] by simp
next
  assume "glob_matches (Many # is) t"
  then show "glob_matches (Many # Many # is) t" using glob_matches.many [of "Many # is" t "[]"] by simp
qed

lemma stars_collapse: "glob_matches (Many # parse_glob (dropWhile (\<lambda>x. x = star) p)) t \<longleftrightarrow> glob_matches (Many # parse_glob p) t"
proof (induction p)
  case (Cons c p)
  then show ?case using many_many [of "parse_glob p" t] by (simp add: parse_glob.simps(2))
qed simp

lemma fnmatch_from_reference: "fnmatch_from p t \<longleftrightarrow> glob_matches (parse_glob p) t"
proof (induction p arbitrary: t rule: length_induct)
  case (1 p)
  then have IH: "fnmatch_from q u \<longleftrightarrow> glob_matches (parse_glob q) u" if "length q < length p" for q u using that by blast
  show ?case
  proof (cases p)
    case (Cons c q)
    consider "c = star" | "c = question" | "c = open_bracket" | "c = escape_char"
      | "c \<noteq> star" "c \<noteq> question" "c \<noteq> open_bracket" "c \<noteq> escape_char" by blast
    then show ?thesis
    proof cases
      case 1
      have "length (dropWhile (\<lambda>x. x = star) q) < length p" using Cons by (simp add: le_imp_less_Suc length_dropWhile_le)
      then have "fnmatch_from p t \<longleftrightarrow> glob_matches (Many # parse_glob (dropWhile (\<lambda>x. x = star) q)) t"
        using 1 Cons IH by (auto simp: fnmatch_from.simps(2) list_ex_tails glob_matches_Many)
      then show ?thesis using 1 Cons stars_collapse by (simp add: parse_glob.simps(2))
    next
      case 2
      then show ?thesis using Cons IH [of q] by (cases t) (simp_all add: fnmatch_from.simps(2) parse_glob.simps(2))
    next
      case 3
      show ?thesis
      proof (cases t)
        case (Cons v u)
        show ?thesis
        proof (cases "parse_bracket q")
          case None
          then show ?thesis
            using 3 Cons \<open>p = c # q\<close> IH [of q u]
            by (auto simp: fnmatch_from.simps(2) parse_glob.simps(2) bracket_match_ranges)
        next
          case (Some b)
          obtain negated rs rest where b: "b = (negated, rs, rest)" by (cases b)
          then have "length rest < length p" using parse_bracket_shorter Some \<open>p = c # q\<close> by fastforce
          then show ?thesis
            using 3 Cons Some b \<open>p = c # q\<close> IH [of rest u]
            by (auto simp: fnmatch_from.simps(2) parse_glob.simps(2) bracket_match_ranges)
        qed
      qed (use 3 Cons in \<open>auto simp: fnmatch_from.simps(2) parse_glob.simps(2) split: option.splits\<close>)
    next
      case 4
      then show ?thesis
        using Cons IH [of "tl q"] by (cases t; cases q) (auto simp: fnmatch_from.simps(2) parse_glob.simps(2) Let_def)
    next
      case 5
      then show ?thesis using Cons IH [of q] by (cases t) (auto simp: fnmatch_from.simps(2) parse_glob.simps(2))
    qed
  qed (simp)
qed

text \<open>Patterns that stand for themselves.\<close>

definition special :: "uchar \<Rightarrow> bool" where
  "special c \<longleftrightarrow> c = star \<or> c = question \<or> c = open_bracket \<or> c = escape_char"

definition escape_pattern :: "uchar list \<Rightarrow> uchar list" where
  "escape_pattern s = concat (map (\<lambda>c. [escape_char, c]) s)"

lemma glob_literals: "glob_matches (map Literal s) t \<longleftrightarrow> t = s"
  by (induction s arbitrary: t) auto

lemma parse_plain: "list_all (\<lambda>c. \<not> special c) s \<Longrightarrow> parse_glob s = map Literal s"
  by (induction s) (simp_all add: parse_glob.simps(2) special_def)

lemma parse_escaped: "parse_glob (escape_pattern s) = map Literal s"
  by (induction s) (simp_all add: escape_pattern_def parse_glob.simps(2))

end
