(* ===== verification/Text_Spec.thy ===== *)
theory Text_Spec
  imports Vis Glob
begin

text \<open>
  What the text routines promise: escapes can be read back, the sample of a buffer is bounded and
  printable, and glob matching agrees with a reference semantics of patterns.
\<close>

section \<open>Escapes\<close>

text \<open>
  C21: Whatever set of flags with an escape form and without \<open>noslash\<close> is chosen, and
  whatever bytes are encoded, reading the escapes back gives the same bytes: nothing is lost and no two
  inputs look the same.
\<close>

theorem vis_round_trip:
  assumes "octal flags \<or> safe flags \<or> cstyle flags" "\<not> noslash flags"
  shows "unvis (encode_bytes input flags) = input"
  using assms by (rule unvis_encode)

theorem vis_round_trip_witness: "unvis (encode_bytes [CHR 0x0A, CHR 0x5C, CHR ''1''] sample_flags) = [CHR 0x0A, CHR 0x5C, CHR ''1'']"
  using vis_round_trip [of sample_flags "[CHR 0x0A, CHR 0x5C, CHR ''1'']"] by (simp add: sample_flags_def)

lemma encoded_printable: "list_all printable (encode_bytes s sample_flags)"
  unfolding encode_bytes_def by (rule list_all_concat) (rule sample_byte_printable)

lemma list_all_take: "list_all P s \<Longrightarrow> list_all P (take n s)"
  by (auto simp: list_all_iff dest: in_set_takeD)

text \<open>
  The sample of a buffer shown in listings is at most 203 bytes of printable ASCII, whatever the
  buffer holds; when neither the buffer nor its encoding exceeds 200 bytes, nothing is cut and the
  whole buffer can be read back from it.
\<close>

theorem buffer_sample_bounds:
  "length (encode_buffer_sample input) \<le> 203 \<and> list_all printable (encode_buffer_sample input)
     \<and> (length input \<le> SAMPLE_WIDTH \<and> length (encode_bytes input sample_flags) \<le> SAMPLE_WIDTH
          \<longrightarrow> unvis (encode_buffer_sample input) = input)"
proof -
  have "list_all printable ''...''" by (simp add: printable_def)
  moreover have "unvis (encode_bytes input sample_flags) = input" by (rule unvis_encode) (simp_all add: sample_flags_def)
  ultimately show ?thesis
    by (auto simp: sample_eq Let_def SAMPLE_WIDTH_def list_all_take encoded_printable)
qed

theorem buffer_sample_bounds_witness: "unvis (encode_buffer_sample ''ok'') = ''ok''"
  using buffer_sample_bounds [of "''ok''"]
  by (simp add: SAMPLE_WIDTH_def encode_bytes_def encode_byte_def sample_flags_def should_keep_raw_def latin1_def printable_def)

section \<open>Patterns\<close>

text \<open>
  C22: The matcher accepts exactly the texts of the reference semantics of the pattern: a star stands
  for any run of characters, a question mark for one, a bracket for one in (or, negated, not in) its
  ranges, a backslash takes the next character literally, and an unclosed bracket is literal.
\<close>

theorem fnmatch_reference: "fnmatch pattern text \<longleftrightarrow> glob_matches (parse_glob pattern) text"
  by (simp add: fnmatch_def fnmatch_from_reference)

end
