(* ===== verification/Output_Ring.thy ===== *)
theory Output_Ring
  imports Rmux_Prelude "HOL-Library.Monad_Syntax"
begin

text \<open>
  The output of a pane kept for its subscribers (\<open>events/ring.rs\<close>, \<open>events/cursor.rs\<close>):
  a ring of the newest events, a buffer of the newest bytes, and cursors that read the ring
  independently. A panic (an index out of range, an exhausted counter, an assertion) is \<open>None\<close>.
\<close>

section \<open>Model\<close>

definition usize_sat_add :: "usize \<Rightarrow> usize \<Rightarrow> usize" where
  "usize_sat_add a b = min (a + b) u64_max"

text \<open>The slice \<open>&xs[a..b]\<close>.\<close>

definition slice :: "'a list \<Rightarrow> usize \<Rightarrow> usize \<Rightarrow> 'a list option" where
  "slice xs a b = (if a \<le> b \<and> b \<le> length xs then Some (take (b - a) (drop a xs)) else None)"

record 'p output_event =
  ev_sequence :: u64
  ev_bytes :: string
  ev_passthroughs :: "'p list"

definition with_passthroughs :: "'p list \<Rightarrow> 'p output_event \<Rightarrow> 'p output_event" where
  "with_passthroughs ps e = e\<lparr>ev_passthroughs := ps\<rparr>"

record recent_chunk =
  c_sequence :: u64
  c_bytes :: string
  c_start :: usize
  c_end :: usize
  c_starts_at_event_start :: bool

record recent_buffer =
  b_capacity :: usize
  b_len :: usize
  b_chunks :: "recent_chunk list"

record snapshot_chunk =
  sc_sequence :: u64
  sc_start :: usize
  sc_starts_at_event_start :: bool

record recent_snapshot =
  sn_bytes :: string
  sn_oldest :: "u64 option"
  sn_newest :: "u64 option"
  sn_chunks :: "snapshot_chunk list"

definition new_recent :: "usize \<Rightarrow> recent_buffer" where
  "new_recent cap = \<lparr>b_capacity = cap, b_len = 0, b_chunks = []\<rparr>"

text \<open>The loop of \<open>trim_front\<close>; cutting a chunk brings the length to the capacity and ends it.\<close>

fun trim_front :: "usize \<Rightarrow> usize \<Rightarrow> recent_chunk list \<Rightarrow> (usize \<times> recent_chunk list) option" where
  "trim_front cap len [] = Some (if len > cap then 0 else len, [])"
| "trim_front cap len (c # cs) =
     (if len > cap then
        (let overflow = len - cap; front_len = c_end c - c_start c
         in if front_len \<le> overflow then trim_front cap (len - front_len) cs
            else do {
              bytes \<leftarrow> slice (c_bytes c) (c_start c + overflow) (c_end c);
              Some (len - overflow,
                c\<lparr>c_bytes := bytes, c_start := 0, c_end := length bytes, c_starts_at_event_start := False\<rparr> # cs)
            })
      else Some (len, c # cs))"

definition recent_push :: "u64 \<Rightarrow> string \<Rightarrow> recent_buffer \<Rightarrow> recent_buffer option" where
  "recent_push sequence bytes rb =
     (if bytes = [] then Some rb
      else if length bytes \<ge> b_capacity rb then do {
        let starts = (length bytes = b_capacity rb);
        kept \<leftarrow> (if starts then Some bytes else slice bytes (length bytes - b_capacity rb) (length bytes));
        Some (rb\<lparr>b_chunks := [\<lparr>c_sequence = sequence, c_bytes = kept, c_start = 0, c_end = length kept,
                c_starts_at_event_start = starts\<rparr>],
              b_len := b_capacity rb\<rparr>)
      }
      else do {
        (len, chunks) \<leftarrow> trim_front (b_capacity rb) (usize_sat_add (b_len rb) (length bytes))
          (b_chunks rb @ [\<lparr>c_sequence = sequence, c_bytes = bytes, c_start = 0, c_end = length bytes,
             c_starts_at_event_start = True\<rparr>]);
        Some (rb\<lparr>b_len := len, b_chunks := chunks\<rparr>)
      })"

definition recent_clear :: "recent_buffer \<Rightarrow> recent_buffer" where
  "recent_clear rb = rb\<lparr>b_chunks := [], b_len := 0\<rparr>"

fun snapshot_loop :: "recent_chunk list \<Rightarrow> string \<Rightarrow> snapshot_chunk list \<Rightarrow> (string \<times> snapshot_chunk list) option" where
  "snapshot_loop [] bytes out = Some (bytes, out)"
| "snapshot_loop (c # cs) bytes out = do {
     part \<leftarrow> slice (c_bytes c) (c_start c) (c_end c);
     snapshot_loop cs (bytes @ part)
       (out @ [\<lparr>sc_sequence = c_sequence c, sc_start = length bytes,
          sc_starts_at_event_start = c_starts_at_event_start c\<rparr>])
   }"

definition recent_snapshot_of :: "recent_buffer \<Rightarrow> recent_snapshot option" where
  "recent_snapshot_of rb = do {
     (bytes, chunks) \<leftarrow> snapshot_loop (b_chunks rb) [] [];
     Some \<lparr>sn_bytes = bytes,
       sn_oldest = (case b_chunks rb of [] \<Rightarrow> None | c # _ \<Rightarrow> Some (c_sequence c)),
       sn_newest = (if b_chunks rb = [] then None else Some (c_sequence (last (b_chunks rb)))),
       sn_chunks = chunks\<rparr>
   }"

definition bytes_from_sequence :: "recent_snapshot \<Rightarrow> u64 \<Rightarrow> string option" where
  "bytes_from_sequence sn m =
     slice (sn_bytes sn)
       (case find (\<lambda>c. sc_sequence c \<ge> m) (sn_chunks sn) of None \<Rightarrow> length (sn_bytes sn) | Some c \<Rightarrow> sc_start c)
       (length (sn_bytes sn))"

definition oldest_sequence_at_or_after :: "recent_snapshot \<Rightarrow> u64 \<Rightarrow> u64 option" where
  "oldest_sequence_at_or_after sn m = map_option sc_sequence (find (\<lambda>c. sc_sequence c \<ge> m) (sn_chunks sn))"

definition starts_at_event_start :: "recent_snapshot \<Rightarrow> u64 \<Rightarrow> bool" where
  "starts_at_event_start sn s =
     (case find (\<lambda>c. sc_sequence c = s) (sn_chunks sn) of None \<Rightarrow> False | Some c \<Rightarrow> sc_starts_at_event_start c)"

record 'p output_ring =
  r_event_capacity :: usize
  r_recent_byte_capacity :: usize
  r_retained_event_bytes :: usize
  r_next_sequence :: u64
  r_events :: "'p output_event list"
  r_recent :: recent_buffer

definition new_ring :: "usize \<Rightarrow> usize \<Rightarrow> 'p output_ring option" where
  "new_ring event_capacity recent_byte_capacity =
     (if event_capacity > 0 \<and> recent_byte_capacity > 0 then
        Some \<lparr>r_event_capacity = event_capacity, r_recent_byte_capacity = recent_byte_capacity,
          r_retained_event_bytes = 0, r_next_sequence = 0, r_events = [], r_recent = new_recent recent_byte_capacity\<rparr>
      else None)"

text \<open>\<open>pop_oldest_event\<close> on the byte count and the events, and the two loops that call it.\<close>

fun pop_oldest_event :: "usize \<times> 'p output_event list \<Rightarrow> usize \<times> 'p output_event list" where
  "pop_oldest_event (n, []) = (n, [])"
| "pop_oldest_event (n, e # es) = (n - length (ev_bytes e), es)"

function pop_over_count :: "usize \<Rightarrow> usize \<times> 'p output_event list \<Rightarrow> usize \<times> 'p output_event list" where
  "pop_over_count cap (n, es) =
     (if length es > cap then pop_over_count cap (pop_oldest_event (n, es)) else (n, es))"
  by pat_completeness auto
termination
proof (relation "measure (\<lambda>(cap, n, es). length es)")
  fix cap n :: nat and es :: "'p output_event list"
  assume "cap < length es"
  then show "((cap, pop_oldest_event (n, es)), cap, n, es) \<in> measure (\<lambda>(cap, n, es). length es)"
    by (cases es) auto
qed simp

function pop_over_bytes :: "usize \<Rightarrow> usize \<times> 'p output_event list \<Rightarrow> usize \<times> 'p output_event list" where
  "pop_over_bytes cap (n, es) =
     (if n > cap \<and> length es > 1 then pop_over_bytes cap (pop_oldest_event (n, es)) else (n, es))"
  by pat_completeness auto
termination
proof (relation "measure (\<lambda>(cap, n, es). length es)")
  fix cap n :: nat and es :: "'p output_event list"
  assume "cap < n \<and> 1 < length es"
  then show "((cap, pop_oldest_event (n, es)), cap, n, es) \<in> measure (\<lambda>(cap, n, es). length es)"
    by (cases es) auto
qed simp

declare pop_over_count.simps [simp del] pop_over_bytes.simps [simp del]

definition push_shared_with_recent_retention ::
  "string \<Rightarrow> bool \<Rightarrow> 'p output_ring \<Rightarrow> ('p output_ring \<times> u64) option" where
  "push_shared_with_recent_retention bytes retain_recent r = do {
     let sequence = r_next_sequence r;
     next \<leftarrow> (if sequence < u64_max then Some (sequence + 1) else None);
     recent \<leftarrow> (if retain_recent then recent_push sequence bytes (r_recent r) else Some (r_recent r));
     let (n, es) = pop_over_bytes (r_recent_byte_capacity r)
           (pop_over_count (r_event_capacity r)
             (usize_sat_add (r_retained_event_bytes r) (length bytes),
              r_events r @ [\<lparr>ev_sequence = sequence, ev_bytes = bytes, ev_passthroughs = []\<rparr>]));
     Some (r\<lparr>r_next_sequence := next, r_recent := recent, r_retained_event_bytes := n, r_events := es\<rparr>, sequence)
   }"

definition push_output :: "string \<Rightarrow> 'p output_ring \<Rightarrow> ('p output_ring \<times> u64) option" where
  "push_output bytes r = push_shared_with_recent_retention bytes True r"

definition push_with_recent_retention :: "string \<Rightarrow> bool \<Rightarrow> 'p output_ring \<Rightarrow> ('p output_ring \<times> u64) option" where
  "push_with_recent_retention bytes retain_recent r = push_shared_with_recent_retention bytes retain_recent r"

definition push_shared :: "string \<Rightarrow> 'p output_ring \<Rightarrow> ('p output_ring \<times> u64) option" where
  "push_shared bytes r = push_shared_with_recent_retention bytes True r"

definition with_default_capacities :: "'p output_ring option" where
  "with_default_capacities = new_ring 2048 (256 * 1024)"

definition clear_retained :: "'p output_ring \<Rightarrow> 'p output_ring" where
  "clear_retained r = r\<lparr>r_events := [], r_retained_event_bytes := 0, r_recent := recent_clear (r_recent r)\<rparr>"

definition oldest_sequence :: "'p output_ring \<Rightarrow> u64" where
  "oldest_sequence r = (case r_events r of [] \<Rightarrow> r_next_sequence r | e # _ \<Rightarrow> ev_sequence e)"

definition newest_sequence :: "'p output_ring \<Rightarrow> u64" where
  "newest_sequence r = r_next_sequence r - 1"

record output_cursor =
  cu_next_sequence :: u64
  cu_missed_events :: u64

definition new_cursor :: "u64 \<Rightarrow> output_cursor" where
  "new_cursor next = \<lparr>cu_next_sequence = next, cu_missed_events = 0\<rparr>"

definition cursor_from_oldest :: "'p output_ring \<Rightarrow> output_cursor" where
  "cursor_from_oldest r = new_cursor (oldest_sequence r)"

definition cursor_from_now :: "'p output_ring \<Rightarrow> output_cursor" where
  "cursor_from_now r = new_cursor (r_next_sequence r)"

definition advance_past_sequence :: "u64 \<Rightarrow> output_cursor \<Rightarrow> output_cursor \<times> bool" where
  "advance_past_sequence sequence cu =
     (if cu_next_sequence cu \<noteq> sequence then (cu, False)
      else (cu\<lparr>cu_next_sequence := u64_wrap (sequence + 1)\<rparr>, True))"

definition record_gap :: "u64 \<Rightarrow> u64 \<Rightarrow> output_cursor \<Rightarrow> output_cursor" where
  "record_gap missed resume cu =
     cu\<lparr>cu_missed_events := min (cu_missed_events cu + missed) u64_max, cu_next_sequence := resume\<rparr>"

record output_gap =
  g_expected_sequence :: u64
  g_resume_sequence :: u64
  g_missed_events :: u64
  g_newest_sequence :: u64
  g_recent_snapshot :: recent_snapshot

datatype 'p cursor_item = Event "'p output_event" | Gap output_gap

definition poll_cursor :: "'p output_ring \<Rightarrow> output_cursor \<Rightarrow> (output_cursor \<times> 'p cursor_item option) option" where
  "poll_cursor r cu =
     (let next = cu_next_sequence cu; oldest = oldest_sequence r
      in if next < oldest then do {
           snapshot \<leftarrow> recent_snapshot_of (r_recent r);
           Some (record_gap (oldest - next) oldest cu,
             Some (Gap \<lparr>g_expected_sequence = next, g_resume_sequence = oldest, g_missed_events = oldest - next,
               g_newest_sequence = newest_sequence r, g_recent_snapshot = snapshot\<rparr>))
         }
         else if next \<ge> r_next_sequence r then Some (cu, None)
         else if next - oldest < length (r_events r)
              then Some (cu\<lparr>cu_next_sequence := u64_wrap (next + 1)\<rparr>, Some (Event (r_events r ! (next - oldest))))
              else Some (cu, None))"

fun poll_cursor_batch :: "'p output_ring \<Rightarrow> output_cursor \<Rightarrow> usize \<Rightarrow> (output_cursor \<times> 'p cursor_item list) option" where
  "poll_cursor_batch r cu 0 = Some (cu, [])"
| "poll_cursor_batch r cu (Suc limit) = do {
     (cu1, item) \<leftarrow> poll_cursor r cu;
     (case item of
        None \<Rightarrow> Some (cu1, [])
      | Some (Gap g) \<Rightarrow> Some (cu1, [Gap g])
      | Some (Event e) \<Rightarrow> do {
          (cu2, items) \<leftarrow> poll_cursor_batch r cu1 limit;
          Some (cu2, Event e # items)
        })
   }"

end
