(* ===== verification/Output_Ring_Props.thy ===== *)
theory Output_Ring_Props
  imports Output_Ring "HOL-Library.Sublist"
begin

text \<open>
  The output ring implements a log: the abstract state is everything that was written since the last
  clearing, and the ring keeps the longest tail of it that fits its limits.
\<close>

section \<open>The log\<close>

record ring_log =
  l_base :: nat
  l_events :: "string list"
  l_recent :: "(nat \<times> string) list"

definition log_next :: "ring_log \<Rightarrow> nat" where
  "log_next L = l_base L + length (l_events L)"

definition log_push :: "string \<Rightarrow> bool \<Rightarrow> ring_log \<Rightarrow> ring_log" where
  "log_push b keep L =
     L\<lparr>l_events := l_events L @ [b], l_recent := l_recent L @ (if keep then [(log_next L, b)] else [])\<rparr>"

definition log_clear :: "ring_log \<Rightarrow> ring_log" where
  "log_clear L = \<lparr>l_base = log_next L, l_events = [], l_recent = []\<rparr>"

definition byte_total :: "string list \<Rightarrow> nat" where
  "byte_total bs = sum_list (map length bs)"

definition fits :: "nat \<Rightarrow> nat \<Rightarrow> string list \<Rightarrow> bool" where
  "fits cap bytes bs \<longleftrightarrow> length bs \<le> cap \<and> (byte_total bs \<le> bytes \<or> length bs \<le> 1)"

fun retain :: "nat \<Rightarrow> nat \<Rightarrow> string list \<Rightarrow> string list" where
  "retain cap bytes [] = []"
| "retain cap bytes (b # bs) = (if fits cap bytes (b # bs) then b # bs else retain cap bytes bs)"

fun numbered :: "nat \<Rightarrow> string list \<Rightarrow> 'p output_event list" where
  "numbered n [] = []"
| "numbered n (b # bs) = \<lparr>ev_sequence = n, ev_bytes = b, ev_passthroughs = []\<rparr> # numbered (Suc n) bs"

definition last_n :: "nat \<Rightarrow> 'a list \<Rightarrow> 'a list" where
  "last_n n xs = drop (length xs - n) xs"

text \<open>Bytes with the number of the event they come from.\<close>

definition tagged :: "(nat \<times> string) list \<Rightarrow> (nat \<times> char) list" where
  "tagged ps = concat (map (\<lambda>(s, b). map (Pair s) b) ps)"

definition chunk_pair :: "recent_chunk \<Rightarrow> nat \<times> string" where
  "chunk_pair c = (c_sequence c, c_bytes c)"

subsection \<open>The longest tail that fits\<close>

lemma byte_total_simps [simp]:
  "byte_total [] = 0" "byte_total (b # bs) = length b + byte_total bs" "byte_total (as @ bs) = byte_total as + byte_total bs"
  by (simp_all add: byte_total_def)

lemma fits_Nil [simp]: "fits cap bytes []"
  by (simp add: fits_def)

lemma retain_fits: "fits cap bytes (retain cap bytes bs)"
  by (induction bs) simp_all

lemma retain_suffix: "suffix (retain cap bytes bs) bs"
  by (induction bs) (simp_all add: suffix_Cons)

lemma retain_length: "length (retain cap bytes bs) \<le> length bs"
  using retain_suffix suffix_length_le by blast

lemma retain_longest: "suffix s bs \<Longrightarrow> fits cap bytes s \<Longrightarrow> suffix s (retain cap bytes bs)"
  by (induction bs) (auto simp: suffix_Cons)

lemma retain_nonempty: "0 < cap \<Longrightarrow> bs \<noteq> [] \<Longrightarrow> retain cap bytes bs \<noteq> []"
proof (induction bs)
  case (Cons b bs)
  then show ?case by (cases bs) (auto simp: fits_def)
qed simp

lemma not_fits_snoc: "bs \<noteq> [] \<Longrightarrow> \<not> fits cap bytes bs \<Longrightarrow> \<not> fits cap bytes (bs @ [b])"
  by (auto simp: fits_def)

lemma retain_snoc: "retain cap bytes (retain cap bytes bs @ [b]) = retain cap bytes (bs @ [b])"
proof (induction bs)
  case (Cons c bs)
  then show ?case using not_fits_snoc [of "c # bs" cap bytes b] by auto
qed simp

lemma retain_total_le:
  assumes "list_all (\<lambda>b. length b \<le> m) bs"
  shows "byte_total (retain cap bytes bs) \<le> max bytes m"
proof -
  have "set (retain cap bytes bs) \<subseteq> set bs" using retain_suffix set_mono_suffix by blast
  then have "list_all (\<lambda>b. length b \<le> m) (retain cap bytes bs)" using assms by (auto simp: list_all_iff)
  then show ?thesis using retain_fits [of cap bytes bs]
    by (cases "retain cap bytes bs") (auto simp: fits_def Suc_le_eq le_max_iff_disj)
qed

subsection \<open>Numbered events\<close>

lemma length_numbered [simp]: "length (numbered n bs) = length bs"
  by (induction bs arbitrary: n) simp_all

lemma numbered_append: "numbered n (as @ bs) = numbered n as @ numbered (n + length as) bs"
  by (induction as arbitrary: n) simp_all

lemma numbered_event_nth:
  "i < length bs \<Longrightarrow> numbered n bs ! i = \<lparr>ev_sequence = n + i, ev_bytes = bs ! i, ev_passthroughs = []\<rparr>"
proof (induction bs arbitrary: n i)
  case (Cons b bs)
  then show ?case by (cases i) simp_all
qed simp

lemma pop_events:
  assumes "0 < cap"
  shows "pop_over_bytes bytes (pop_over_count cap (byte_total bs, (numbered n bs :: 'p output_event list)))
    = (byte_total (retain cap bytes bs), numbered (n + (length bs - length (retain cap bytes bs))) (retain cap bytes bs))"
proof (induction bs arbitrary: n)
  case (Cons b bs)
  have next_bytes: "pop_over_bytes bytes (pop_over_count cap (byte_total bs, (numbered (Suc n) bs :: 'p output_event list)))
      = (byte_total (retain cap bytes bs), numbered (n + (length (b # bs) - length (retain cap bytes bs))) (retain cap bytes bs))"
    using Cons.IH [of "Suc n"] retain_length [of cap bytes bs] by (simp add: Suc_diff_le)
  show ?case
  proof (cases "length (b # bs) > cap")
    case True
    then have "pop_over_count cap (byte_total (b # bs), (numbered n (b # bs) :: 'p output_event list)) = pop_over_count cap (byte_total bs, (numbered (Suc n) bs :: 'p output_event list))"
      by (simp add: pop_over_count.simps [of cap "length b + byte_total bs"])
    moreover have "\<not> fits cap bytes (b # bs)" using True by (simp add: fits_def)
    ultimately show ?thesis using next_bytes by simp
  next
    case False
    then have count: "pop_over_count cap (byte_total (b # bs), (numbered n (b # bs) :: 'p output_event list)) = (byte_total (b # bs), (numbered n (b # bs) :: 'p output_event list))"
      "pop_over_count cap (byte_total bs, (numbered (Suc n) bs :: 'p output_event list)) = (byte_total bs, (numbered (Suc n) bs :: 'p output_event list))"
      by (simp_all add: pop_over_count.simps)
    show ?thesis
    proof (cases "fits cap bytes (b # bs)")
      case True
      then show ?thesis using count(1) by (auto simp: pop_over_bytes.simps [of bytes "length b + byte_total bs"] fits_def)
    next
      case not_fits: False
      then have "bytes < byte_total (b # bs) \<and> 1 < length (b # bs)" using False by (simp add: fits_def)
      then have "pop_over_bytes bytes (byte_total (b # bs), (numbered n (b # bs) :: 'p output_event list)) = pop_over_bytes bytes (byte_total bs, (numbered (Suc n) bs :: 'p output_event list))"
        by (simp add: pop_over_bytes.simps [of bytes "length b + byte_total bs"])
      then show ?thesis using count next_bytes not_fits by simp
    qed
  qed
qed (simp add: pop_over_count.simps pop_over_bytes.simps)

section \<open>The buffer of recent bytes\<close>

lemma last_n_all: "length xs \<le> n \<Longrightarrow> last_n n xs = xs"
  by (simp add: last_n_def)

lemma last_n_Nil [simp]: "last_n n [] = []"
  by (simp add: last_n_def)

lemma length_last_n [simp]: "length (last_n n xs) = min (length xs) n"
  by (simp add: last_n_def)

lemma last_n_append:
  "last_n n (xs @ ys) = (if length ys \<le> n then last_n (n - length ys) xs @ ys else last_n n ys)"
  by (simp add: last_n_def)

lemma last_n_last_n: "last_n n (last_n m xs) = last_n (min n m) xs"
  by (auto simp: last_n_def min_def intro!: arg_cong [where f = "\<lambda>k. drop k xs"])

lemma last_n_grow: "last_n n (last_n n xs @ ys) = last_n n (xs @ ys)"
  by (simp add: last_n_append last_n_last_n)

lemma tagged_simps [simp]:
  "tagged [] = []" "tagged ((s, b) # ps) = map (Pair s) b @ tagged ps" "tagged (ps @ qs) = tagged ps @ tagged qs"
  by (simp_all add: tagged_def)

lemma tagged_chunk [simp]: "tagged (chunk_pair c # ps) = map (Pair (c_sequence c)) (c_bytes c) @ tagged ps"
  by (simp add: chunk_pair_def)

text \<open>
  A chunk is a non-empty tail of an event that was written, marked as starting the event exactly when
  it is the whole event.
\<close>

definition chunk_ok :: "(nat \<times> string) list \<Rightarrow> recent_chunk \<Rightarrow> bool" where
  "chunk_ok ps c \<longleftrightarrow> c_start c = 0 \<and> c_end c = length (c_bytes c) \<and> c_bytes c \<noteq> []
     \<and> (\<exists>b. (c_sequence c, b) \<in> set ps \<and> suffix (c_bytes c) b \<and> (c_starts_at_event_start c \<longleftrightarrow> c_bytes c = b))"

definition recent_rel :: "recent_buffer \<Rightarrow> (nat \<times> string) list \<Rightarrow> bool" where
  "recent_rel rb ps \<longleftrightarrow> list_all (chunk_ok ps) (b_chunks rb)
     \<and> tagged (map chunk_pair (b_chunks rb)) = last_n (b_capacity rb) (tagged ps)
     \<and> b_len rb = min (length (tagged ps)) (b_capacity rb)"

lemma chunk_ok_mono: "chunk_ok ps c \<Longrightarrow> set ps \<subseteq> set qs \<Longrightarrow> chunk_ok qs c"
  by (auto simp: chunk_ok_def)

lemma trim_front_last_n:
  assumes "list_all (chunk_ok ps) cs" "len = length (tagged (map chunk_pair cs))"
  shows "\<exists>cs'. trim_front cap len cs = Some (min len cap, cs') \<and> list_all (chunk_ok ps) cs'
    \<and> tagged (map chunk_pair cs') = last_n cap (tagged (map chunk_pair cs))"
  using assms
proof (induction cs arbitrary: len)
  case (Cons c cs)
  let ?t = "tagged (map chunk_pair cs)" and ?o = "len - cap"
  have c: "c_start c = 0" "c_end c = length (c_bytes c)" "len = length (c_bytes c) + length ?t"
    using Cons.prems by (simp_all add: chunk_ok_def)
  consider "len \<le> cap" | "len > cap" "length (c_bytes c) \<le> ?o" | "len > cap" "?o < length (c_bytes c)" by linarith
  then show ?case
  proof cases
    case 1
    then show ?thesis using Cons.prems by (simp add: last_n_all)
  next
    case 2
    obtain cs' where "trim_front cap (length ?t) cs = Some (min (length ?t) cap, cs')" "list_all (chunk_ok ps) cs'"
      "tagged (map chunk_pair cs') = last_n cap ?t"
      using Cons.IH [of "length ?t"] Cons.prems(1) by auto
    moreover have "last_n cap (tagged (map chunk_pair (c # cs))) = last_n cap ?t"
      using 2 c(3) by (auto simp: last_n_append last_n_def)
    ultimately show ?thesis using 2 c by (auto simp: Let_def)
  next
    case 3
    let ?b = "drop ?o (c_bytes c)"
    let ?c = "c\<lparr>c_bytes := ?b, c_start := 0, c_end := length ?b, c_starts_at_event_start := False\<rparr>"
    have "trim_front cap len (c # cs) = Some (cap, ?c # cs)"
      using 3 c(1,2) by (simp add: Let_def slice_def)
    moreover have "chunk_ok ps ?c"
    proof -
      obtain b where b: "(c_sequence c, b) \<in> set ps" "suffix (c_bytes c) b"
        using Cons.prems(1) by (auto simp: chunk_ok_def)
      have "suffix ?b (c_bytes c)" by (rule suffix_drop)
      then have "suffix ?b b" "length ?b < length b"
        using b(2) 3 suffix_length_le [OF b(2)] suffix_order.trans [of ?b "c_bytes c" b] by auto
      then show ?thesis using b(1) 3 by (auto simp: chunk_ok_def)
    qed
    moreover have "tagged (map chunk_pair (?c # cs)) = last_n cap (tagged (map chunk_pair (c # cs)))"
      using 3 c(3) by (auto simp: last_n_append last_n_def drop_map)
    ultimately show ?thesis using 3 Cons.prems(1) by auto
  qed
qed simp

lemma recent_rel_new: "recent_rel (new_recent cap) []"
  by (simp add: recent_rel_def new_recent_def)

lemma recent_rel_clear: "recent_rel (recent_clear rb) []"
  by (simp add: recent_rel_def recent_clear_def)

text \<open>The longest a byte sequence of Rust can be.\<close>

definition isize_max :: nat where
  "isize_max = 9223372036854775807"

lemma sat_add_exact: "a \<le> isize_max \<Longrightarrow> b \<le> isize_max \<Longrightarrow> usize_sat_add a b = a + b"
  by (simp add: usize_sat_add_def isize_max_def u64_max_def)

lemma recent_push_rel:
  assumes rel: "recent_rel rb ps" and cap: "0 < b_capacity rb" "b_capacity rb \<le> isize_max"
  shows "\<exists>rb'. recent_push s bytes rb = Some rb' \<and> recent_rel rb' (ps @ [(s, bytes)]) \<and> b_capacity rb' = b_capacity rb"
proof -
  let ?cap = "b_capacity rb" and ?qs = "ps @ [(s, bytes)]"
  have mono: "list_all (chunk_ok ?qs) (b_chunks rb)"
    using rel by (auto simp: recent_rel_def list_all_iff intro: chunk_ok_mono)
  consider "bytes = []" | "bytes \<noteq> []" "?cap \<le> length bytes" | "bytes \<noteq> []" "length bytes < ?cap" by linarith
  then show ?thesis
  proof cases
    case 1
    then show ?thesis using rel mono by (simp add: recent_push_def recent_rel_def)
  next
    case 2
    let ?kept = "last_n ?cap bytes"
    let ?c = "\<lparr>c_sequence = s, c_bytes = ?kept, c_start = 0, c_end = length ?kept,
      c_starts_at_event_start = (length bytes = ?cap)\<rparr>"
    have "recent_push s bytes rb = Some (rb\<lparr>b_chunks := [?c], b_len := ?cap\<rparr>)"
      using 2 by (auto simp: recent_push_def slice_def last_n_def Let_def)
    moreover have "?kept = bytes \<longleftrightarrow> length bytes = ?cap"
      using 2 by (metis last_n_all length_last_n min.absorb_iff1 min.commute order_refl)
    then have "chunk_ok ?qs ?c"
      using 2 cap by (auto simp: chunk_ok_def last_n_def suffix_drop)
    ultimately show ?thesis using 2
      by (auto simp: recent_rel_def last_n_append last_n_def drop_map)
  next
    case 3
    let ?c = "\<lparr>c_sequence = s, c_bytes = bytes, c_start = 0, c_end = length bytes, c_starts_at_event_start = True\<rparr>"
    let ?cs = "b_chunks rb @ [?c]" and ?len = "min (length (tagged ps)) ?cap + length bytes"
    have len: "b_len rb = min (length (tagged ps)) ?cap" using rel by (simp add: recent_rel_def)
    have sat: "usize_sat_add (b_len rb) (length bytes) = ?len"
      using 3 cap(2) len by (simp add: sat_add_exact)
    have tags: "tagged (map chunk_pair ?cs) = last_n ?cap (tagged ps) @ map (Pair s) bytes"
      using rel by (simp add: recent_rel_def)
    have "chunk_ok ?qs ?c" using 3 by (simp add: chunk_ok_def)
    then obtain cs' where cs': "trim_front ?cap ?len ?cs = Some (min ?len ?cap, cs')" "list_all (chunk_ok ?qs) cs'"
      "tagged (map chunk_pair cs') = last_n ?cap (tagged (map chunk_pair ?cs))"
      using trim_front_last_n [of ?qs ?cs ?len ?cap] mono tags by auto
    moreover have "recent_push s bytes rb = Some (rb\<lparr>b_len := min ?len ?cap, b_chunks := cs'\<rparr>)"
      using 3 cs'(1) sat by (simp add: recent_push_def)
    moreover have "last_n ?cap (tagged (map chunk_pair ?cs)) = last_n ?cap (tagged ?qs)"
      using tags last_n_grow [of ?cap "tagged ps" "map (Pair s) bytes"] by simp
    ultimately show ?thesis by (auto simp: recent_rel_def)
  qed
qed

fun chunk_marks :: "nat \<Rightarrow> recent_chunk list \<Rightarrow> snapshot_chunk list" where
  "chunk_marks n [] = []"
| "chunk_marks n (c # cs) =
     \<lparr>sc_sequence = c_sequence c, sc_start = n, sc_starts_at_event_start = c_starts_at_event_start c\<rparr>
       # chunk_marks (n + length (c_bytes c)) cs"

lemma snapshot_loop_returns:
  "list_all (chunk_ok ps) cs \<Longrightarrow>
     snapshot_loop cs bytes out = Some (bytes @ concat (map c_bytes cs), out @ chunk_marks (length bytes) cs)"
  by (induction cs arbitrary: bytes out) (simp_all add: chunk_ok_def slice_def)

lemma tagged_bytes: "map snd (tagged (map chunk_pair cs)) = concat (map c_bytes cs)"
  by (induction cs) (simp_all add: comp_def)

lemma recent_snapshot_bytes:
  assumes "recent_rel rb ps"
  shows "\<exists>sn. recent_snapshot_of rb = Some sn \<and> sn_bytes sn = last_n (b_capacity rb) (concat (map snd ps))"
proof -
  have "map snd (tagged ps) = concat (map snd ps)"
    by (induction ps) (auto simp: comp_def)
  then have "concat (map c_bytes (b_chunks rb)) = last_n (b_capacity rb) (concat (map snd ps))"
    using assms tagged_bytes [of "b_chunks rb"] by (simp add: recent_rel_def last_n_def flip: drop_map) (metis drop_map length_map)
  then show ?thesis
    using snapshot_loop_returns [of ps "b_chunks rb" "[]" "[]"] assms by (auto simp: recent_snapshot_of_def recent_rel_def)
qed

section \<open>The ring implements the log\<close>

definition ring_rel :: "'p output_ring \<Rightarrow> ring_log \<Rightarrow> bool" where
  "ring_rel r L \<longleftrightarrow>
     (let kept = retain (r_event_capacity r) (r_recent_byte_capacity r) (l_events L)
      in 0 < r_event_capacity r \<and> 0 < r_recent_byte_capacity r \<and> r_recent_byte_capacity r \<le> isize_max
         \<and> list_all (\<lambda>b. length b \<le> isize_max) (l_events L)
         \<and> r_next_sequence r = log_next L \<and> log_next L \<le> u64_max
         \<and> r_events r = numbered (log_next L - length kept) kept
         \<and> r_retained_event_bytes r = byte_total kept
         \<and> b_capacity (r_recent r) = r_recent_byte_capacity r
         \<and> recent_rel (r_recent r) (l_recent L))"

lemma ring_rel_new:
  assumes "new_ring cap bytes = Some r" "bytes \<le> isize_max"
  shows "ring_rel r \<lparr>l_base = 0, l_events = [], l_recent = []\<rparr> \<and> r_event_capacity r = cap \<and> r_recent_byte_capacity r = bytes"
  using assms recent_rel_new [of bytes]
  by (auto simp: new_ring_def ring_rel_def log_next_def new_recent_def split: if_splits)

lemma ring_rel_clear: "ring_rel r L \<Longrightarrow> ring_rel (clear_retained r) (log_clear L)"
  by (simp add: ring_rel_def clear_retained_def log_clear_def log_next_def recent_rel_clear Let_def)
    (simp add: recent_clear_def)

lemma ring_rel_push:
  assumes rel: "ring_rel r L" and room: "log_next L < u64_max" and size: "length b \<le> isize_max"
  shows "\<exists>r'. push_shared_with_recent_retention b keep r = Some (r', log_next L) \<and> ring_rel r' (log_push b keep L)
    \<and> r_event_capacity r' = r_event_capacity r \<and> r_recent_byte_capacity r' = r_recent_byte_capacity r"
proof -
  let ?cap = "r_event_capacity r" and ?bytes = "r_recent_byte_capacity r"
  let ?kept = "retain ?cap ?bytes (l_events L)" and ?kept' = "retain ?cap ?bytes (l_events L @ [b])"
  have caps: "0 < ?cap" "0 < ?bytes" "?bytes \<le> isize_max" "b_capacity (r_recent r) = ?bytes"
    and sizes: "list_all (\<lambda>b. length b \<le> isize_max) (l_events L)"
    and recent: "recent_rel (r_recent r) (l_recent L)" and nxt: "r_next_sequence r = log_next L"
    and events: "r_events r = numbered (log_next L - length ?kept) ?kept" "r_retained_event_bytes r = byte_total ?kept"
    using rel by (simp_all add: ring_rel_def Let_def)
  have total: "usize_sat_add (r_retained_event_bytes r) (length b) = byte_total (?kept @ [b])"
    using events(2) size caps(3) retain_total_le [OF sizes, of ?cap ?bytes] by (simp add: sat_add_exact)
  have le: "length ?kept \<le> log_next L" using retain_length [of ?cap ?bytes "l_events L"] by (simp add: log_next_def)
  then have snoc: "r_events r @ [\<lparr>ev_sequence = log_next L, ev_bytes = b, ev_passthroughs = []\<rparr>]
      = numbered (log_next L - length ?kept) (?kept @ [b])"
    using events(1) by (simp add: numbered_append)
  have le': "length ?kept' \<le> Suc (length ?kept)"
    using retain_snoc [of ?cap ?bytes "l_events L" b] retain_length [of ?cap ?bytes "?kept @ [b]"] by simp
  have pop: "pop_over_bytes ?bytes (pop_over_count ?cap (usize_sat_add (r_retained_event_bytes r) (length b),
        r_events r @ [\<lparr>ev_sequence = log_next L, ev_bytes = b, ev_passthroughs = []\<rparr>]))
      = (byte_total ?kept', numbered (Suc (log_next L) - length ?kept') ?kept')"
    using pop_events [OF caps(1), of ?bytes "?kept @ [b]" "log_next L - length ?kept"] retain_snoc [of ?cap ?bytes "l_events L" b] le le'
    unfolding total snoc by (simp add: Suc_diff_le)
  obtain recent' where recent': "(if keep then recent_push (log_next L) b (r_recent r) else Some (r_recent r)) = Some recent'"
    "recent_rel recent' (l_recent (log_push b keep L))" "b_capacity recent' = ?bytes"
    using recent_push_rel [OF recent, of "log_next L" b] caps recent by (cases keep) (auto simp: log_push_def)
  let ?r = "r\<lparr>r_next_sequence := Suc (log_next L), r_recent := recent',
    r_retained_event_bytes := byte_total ?kept', r_events := numbered (Suc (log_next L) - length ?kept') ?kept'\<rparr>"
  have "push_shared_with_recent_retention b keep r = Some (?r, log_next L)"
    using room recent'(1) by (simp add: push_shared_with_recent_retention_def nxt pop Let_def)
  moreover have "log_next (log_push b keep L) = Suc (log_next L)" "l_events (log_push b keep L) = l_events L @ [b]"
    by (simp_all add: log_next_def log_push_def)
  then have "ring_rel ?r (log_push b keep L)"
    using room caps sizes size recent'(2,3) by (simp add: ring_rel_def Let_def)
  ultimately show ?thesis by simp
qed

lemma oldest_sequence_log:
  assumes "ring_rel r L"
  shows "oldest_sequence r = log_next L - length (r_events r)"
  using assms
  by (cases "r_events r"; cases "retain (r_event_capacity r) (r_recent_byte_capacity r) (l_events L)")
    (auto simp: oldest_sequence_def ring_rel_def Let_def)

section \<open>Cursors\<close>

text \<open>Everything ever written: the log is its part since the last clearing.\<close>

definition logs :: "ring_log \<Rightarrow> string list \<Rightarrow> bool" where
  "logs L H \<longleftrightarrow> l_base L \<le> length H \<and> l_events L = drop (l_base L) H"

lemma logs_next: "logs L H \<Longrightarrow> log_next L = length H"
  by (auto simp: logs_def log_next_def)

lemma logs_push: "logs L H \<Longrightarrow> logs (log_push b keep L) (H @ [b])"
  by (simp add: logs_def log_push_def)

lemma logs_clear: "logs L H \<Longrightarrow> logs (log_clear L) H"
  by (auto simp: logs_def log_clear_def log_next_def)

fun item_sequences :: "'p cursor_item \<Rightarrow> nat list" where
  "item_sequences (Event e) = [ev_sequence e]"
| "item_sequences (Gap g) = [g_expected_sequence g..<g_resume_sequence g]"

fun gap_size :: "'p cursor_item \<Rightarrow> nat" where
  "gap_size (Event e) = 0"
| "gap_size (Gap g) = g_resume_sequence g - g_expected_sequence g"

fun item_true :: "string list \<Rightarrow> 'p cursor_item \<Rightarrow> bool" where
  "item_true H (Event e) \<longleftrightarrow> ev_sequence e < length H \<and> ev_bytes e = H ! ev_sequence e"
| "item_true H (Gap g) \<longleftrightarrow> g_missed_events g = g_resume_sequence g - g_expected_sequence g"

lemma item_true_append: "item_true H i \<Longrightarrow> item_true (H @ [b]) i"
  by (cases i) (simp_all add: nth_append)

text \<open>What one poll, and a batch of polls, return: nothing is skipped without being reported.\<close>

definition poll_result :: "string list \<Rightarrow> output_cursor \<Rightarrow> output_cursor \<Rightarrow> 'p cursor_item list \<Rightarrow> bool" where
  "poll_result H cu cu' items \<longleftrightarrow>
     cu_next_sequence cu \<le> cu_next_sequence cu' \<and> cu_next_sequence cu' \<le> length H
     \<and> concat (map item_sequences items) = [cu_next_sequence cu..<cu_next_sequence cu']
     \<and> list_all (item_true H) items
     \<and> cu_missed_events cu' = min (cu_missed_events cu + sum_list (map gap_size items)) u64_max"

lemma poll_result_refl:
  "cu_next_sequence cu \<le> length H \<Longrightarrow> cu_missed_events cu \<le> u64_max \<Longrightarrow> poll_result H cu cu []"
  by (simp add: poll_result_def)

lemma poll_result_trans:
  assumes "poll_result H cu cu1 is" "poll_result H cu1 cu2 js"
  shows "poll_result H cu cu2 (is @ js)"
  using assms upt_add_eq_append [of "cu_next_sequence cu" "cu_next_sequence cu1" "cu_next_sequence cu2 - cu_next_sequence cu1"]
  by (auto simp: poll_result_def min_def)

lemma poll_result_append: "poll_result H cu cu' is \<Longrightarrow> poll_result (H @ [b]) cu cu' is"
  by (auto simp: poll_result_def list_all_iff item_true_append)

lemma poll_cursor_result:
  assumes rel: "ring_rel r L" and logs: "logs L H" and cu: "cu_next_sequence cu \<le> length H" "cu_missed_events cu \<le> u64_max"
  shows "\<exists>cu' item. poll_cursor r cu = Some (cu', item)
    \<and> poll_result H cu cu' (case item of None \<Rightarrow> [] | Some i \<Rightarrow> [i])
    \<and> (item = None \<longleftrightarrow> cu_next_sequence cu = length H) \<and> (item = None \<longrightarrow> cu' = cu)"
proof -
  let ?next = "cu_next_sequence cu" and ?kept = "retain (r_event_capacity r) (r_recent_byte_capacity r) (l_events L)"
  have nxt: "r_next_sequence r = length H" "length H \<le> u64_max"
    and events: "r_events r = numbered (length H - length ?kept) ?kept"
    using rel logs_next [OF logs] by (simp_all add: ring_rel_def Let_def)
  have oldest: "oldest_sequence r = length H - length ?kept"
    using oldest_sequence_log [OF rel] logs_next [OF logs] events by simp
  have kept: "length ?kept \<le> length H" "suffix ?kept H"
    using retain_suffix [of "r_event_capacity r" "r_recent_byte_capacity r" "l_events L"] logs suffix_drop [of "l_base L" H]
      suffix_length_le suffix_order.trans [of ?kept "l_events L" H]
    by (auto simp: logs_def)
  obtain sn where sn: "recent_snapshot_of (r_recent r) = Some sn"
    using rel recent_snapshot_bytes by (fastforce simp: ring_rel_def Let_def)
  consider "?next < oldest_sequence r" | "oldest_sequence r \<le> ?next" "?next = length H"
    | "oldest_sequence r \<le> ?next" "?next < length H" using cu(1) by linarith
  then show ?thesis
  proof cases
    case 1
    then show ?thesis using sn oldest kept(1)
      by (auto simp: poll_cursor_def Let_def poll_result_def record_gap_def)
  next
    case 2
    then show ?thesis using nxt(1) cu by (simp add: poll_cursor_def Let_def poll_result_def)
  next
    case 3
    let ?i = "?next - oldest_sequence r"
    have i: "?i < length ?kept" using 3 oldest kept(1) by linarith
    obtain pre where pre: "H = pre @ ?kept" using kept(2) by (auto simp: suffix_def)
    then have "H ! ?next = ?kept ! ?i" using 3(1) oldest by (simp add: nth_append)
    then have "r_events r ! ?i = \<lparr>ev_sequence = ?next, ev_bytes = H ! ?next, ev_passthroughs = []\<rparr>"
      using i events oldest 3(1) by (simp add: numbered_event_nth)
    then show ?thesis using 3 i events nxt cu(2) u64_wrap_id [of "Suc ?next"]
      by (auto simp: poll_cursor_def Let_def poll_result_def)
  qed
qed

lemma poll_batch_result:
  assumes rel: "ring_rel r L" and logs: "logs L H"
  shows "cu_next_sequence cu \<le> length H \<Longrightarrow> cu_missed_events cu \<le> u64_max \<Longrightarrow>
    \<exists>cu' items. poll_cursor_batch r cu limit = Some (cu', items) \<and> poll_result H cu cu' items"
proof (induction limit arbitrary: cu)
  case 0
  then show ?case by (simp add: poll_result_refl)
next
  case (Suc limit)
  obtain cu1 item where poll: "poll_cursor r cu = Some (cu1, item)"
    "poll_result H cu cu1 (case item of None \<Rightarrow> [] | Some i \<Rightarrow> [i])"
    using poll_cursor_result [OF rel logs Suc.prems] by blast
  have bounds: "cu_next_sequence cu1 \<le> length H" "cu_missed_events cu1 \<le> u64_max"
    using poll(2) by (simp_all add: poll_result_def)
  show ?case
  proof (cases item)
    case (Some i)
    show ?thesis
    proof (cases i)
      case (Event e)
      obtain cu2 items where "poll_cursor_batch r cu1 limit = Some (cu2, items)" "poll_result H cu1 cu2 items"
        using Suc.IH [OF bounds] by blast
      then show ?thesis using poll Some Event poll_result_trans [of H cu cu1 "[i]"] by auto
    qed (use poll Some in auto)
  qed (use poll in auto)
qed

end
