(* ===== verification/Output_Ring_Spec.thy ===== *)
theory Output_Ring_Spec
  imports Output_Ring_Props
begin

text \<open>
  What the output ring promises to a pane and to its subscribers, for every interleaving of output,
  clearing and polling.
\<close>

section \<open>Runs\<close>

datatype ring_action = Push_Output string bool | Clear_Output | Poll_Output usize

type_synonym 'p reader = "'p output_ring \<times> output_cursor \<times> 'p cursor_item list"

fun ring_step :: "ring_action \<Rightarrow> 'p reader \<Rightarrow> 'p reader option" where
  "ring_step (Push_Output b keep) (r, cu, items) = do {
     (r', _) \<leftarrow> push_shared_with_recent_retention b keep r;
     Some (r', cu, items)
   }"
| "ring_step Clear_Output (r, cu, items) = Some (clear_retained r, cu, items)"
| "ring_step (Poll_Output limit) (r, cu, items) = do {
     (cu', new) \<leftarrow> poll_cursor_batch r cu limit;
     Some (r, cu', items @ new)
   }"

fun ring_run :: "ring_action list \<Rightarrow> 'p reader \<Rightarrow> 'p reader option" where
  "ring_run [] s = Some s"
| "ring_run (a # as) s = Option.bind (ring_step a s) (ring_run as)"

fun pushed :: "ring_action list \<Rightarrow> string list" where
  "pushed [] = []"
| "pushed (Push_Output b keep # as) = b # pushed as"
| "pushed (a # as) = pushed as"

text \<open>Since the last clearing: all output, and the output kept for readers that fall behind.\<close>

definition log_step :: "ring_action \<Rightarrow> ring_log \<Rightarrow> ring_log" where
  "log_step a L = (case a of Push_Output b keep \<Rightarrow> log_push b keep L | Clear_Output \<Rightarrow> log_clear L | Poll_Output n \<Rightarrow> L)"

definition log_of :: "ring_action list \<Rightarrow> ring_log" where
  "log_of as = fold log_step as \<lparr>l_base = 0, l_events = [], l_recent = []\<rparr>"

definition sized :: "ring_action \<Rightarrow> bool" where
  "sized a = (case a of Push_Output b keep \<Rightarrow> length b \<le> isize_max | _ \<Rightarrow> True)"

lemma ring_step_ok:
  assumes rel: "ring_rel r L" and logs: "logs L H" and sized: "sized a" and room: "length (H @ pushed [a]) \<le> u64_max"
    and cu: "poll_result H cu0 cu items"
  shows "\<exists>r' cu' items'. ring_step a (r, cu, items) = Some (r', cu', items') \<and> ring_rel r' (log_step a L)
    \<and> logs (log_step a L) (H @ pushed [a]) \<and> poll_result (H @ pushed [a]) cu0 cu' items'
    \<and> r_event_capacity r' = r_event_capacity r \<and> r_recent_byte_capacity r' = r_recent_byte_capacity r"
proof (cases a)
  case (Push_Output b keep)
  then show ?thesis
    using ring_rel_push [OF rel, of b keep] sized room logs_next [OF logs] logs_push [OF logs] poll_result_append [OF cu]
    by (auto simp: sized_def log_step_def)
next
  case Clear_Output
  then show ?thesis using ring_rel_clear [OF rel] logs_clear [OF logs] cu by (simp add: log_step_def clear_retained_def)
next
  case (Poll_Output limit)
  have "cu_next_sequence cu \<le> length H" "cu_missed_events cu \<le> u64_max"
    using cu by (simp_all add: poll_result_def)
  then obtain cu' new where "poll_cursor_batch r cu limit = Some (cu', new)" "poll_result H cu cu' new"
    using poll_batch_result [OF rel logs] by blast
  then show ?thesis using Poll_Output rel logs poll_result_trans [OF cu] by (simp add: log_step_def)
qed

lemma ring_run_ok:
  assumes "ring_rel r L" "logs L H" "list_all sized as" "length (H @ pushed as) \<le> u64_max" "poll_result H cu0 cu items"
  shows "\<exists>r' cu' items'. ring_run as (r, cu, items) = Some (r', cu', items') \<and> ring_rel r' (fold log_step as L)
    \<and> logs (fold log_step as L) (H @ pushed as) \<and> poll_result (H @ pushed as) cu0 cu' items'
    \<and> r_event_capacity r' = r_event_capacity r \<and> r_recent_byte_capacity r' = r_recent_byte_capacity r"
  using assms
proof (induction as arbitrary: r L H cu items)
  case (Cons a as)
  have split: "pushed (a # as) = pushed [a] @ pushed as" by (cases a) simp_all
  then have "length (H @ pushed [a]) \<le> u64_max" using Cons.prems(4) by simp
  then obtain r1 cu1 items1 where 1: "ring_step a (r, cu, items) = Some (r1, cu1, items1)" "ring_rel r1 (log_step a L)"
    "logs (log_step a L) (H @ pushed [a])" "poll_result (H @ pushed [a]) cu0 cu1 items1"
    "r_event_capacity r1 = r_event_capacity r" "r_recent_byte_capacity r1 = r_recent_byte_capacity r"
    using ring_step_ok [OF Cons.prems(1,2) _ _ Cons.prems(5), of a] Cons.prems(3) by auto
  then show ?case
    using Cons.IH [OF 1(2,3) _ _ 1(4)] Cons.prems(3,4) split by simp
qed simp

lemma ring_from_new:
  assumes new: "new_ring cap bytes = Some r0" and "bytes \<le> isize_max" "list_all sized as" "length (pushed as) \<le> u64_max"
  shows "\<exists>r cu items. ring_run as (r0, new_cursor 0, []) = Some (r, cu, items)
    \<and> ring_rel r (log_of as) \<and> logs (log_of as) (pushed as) \<and> poll_result (pushed as) (new_cursor 0) cu items
    \<and> r_event_capacity r = cap \<and> r_recent_byte_capacity r = bytes"
proof -
  let ?L = "\<lparr>l_base = 0, l_events = [], l_recent = []\<rparr>"
  have r0: "ring_rel r0 ?L" "r_event_capacity r0 = cap" "r_recent_byte_capacity r0 = bytes"
    using ring_rel_new [OF new assms(2)] by simp_all
  have "logs ?L []" by (simp add: logs_def)
  moreover have "poll_result [] (new_cursor 0) (new_cursor 0) ([] :: 'a cursor_item list)"
    by (simp add: poll_result_def new_cursor_def)
  ultimately show ?thesis
    using ring_run_ok [OF r0(1) _ assms(3), of "[]" "new_cursor 0" "new_cursor 0" "[]"] assms(4) r0(2,3)
    by (simp add: log_of_def)
qed

section \<open>Properties\<close>

text \<open>
  C23: Whatever is written, cleared and polled, the ring never panics and refines the log of the output
  since the last clearing: it holds the longest tail of it with at most \<open>cap\<close> events and, unless it is
  one event, at most \<open>bytes\<close> bytes; its byte count is exact; and its recent buffer is exactly the last
  \<open>bytes\<close> bytes that were to be kept for readers that fall behind.
\<close>

theorem output_ring_refines_log:
  assumes "new_ring cap bytes = Some r0" "bytes \<le> isize_max" "list_all sized as" "length (pushed as) \<le> u64_max"
  shows "\<exists>r cu items sn tail. ring_run as (r0, new_cursor 0, []) = Some (r, cu, items)
    \<and> map ev_bytes (r_events r) = tail \<and> suffix tail (l_events (log_of as)) \<and> fits cap bytes tail
    \<and> (\<forall>t. suffix t (l_events (log_of as)) \<and> fits cap bytes t \<longrightarrow> length t \<le> length tail)
    \<and> r_retained_event_bytes r = byte_total tail
    \<and> recent_snapshot_of (r_recent r) = Some sn
    \<and> sn_bytes sn = last_n bytes (concat (map snd (l_recent (log_of as))))"
proof -
  obtain r cu items where run: "ring_run as (r0, new_cursor 0, []) = Some (r, cu, items)"
    and rel: "ring_rel r (log_of as)" and caps: "r_event_capacity r = cap" "r_recent_byte_capacity r = bytes"
    using ring_from_new [OF assms] by blast
  let ?tail = "retain cap bytes (l_events (log_of as))"
  have "map ev_bytes (numbered n bs :: 'a output_event list) = bs" for n bs by (induction bs arbitrary: n) simp_all
  then have tail: "map ev_bytes (r_events r) = ?tail" "r_retained_event_bytes r = byte_total ?tail"
    using rel caps by (simp_all add: ring_rel_def Let_def)
  obtain sn where "recent_snapshot_of (r_recent r) = Some sn"
    "sn_bytes sn = last_n bytes (concat (map snd (l_recent (log_of as))))"
    using rel caps recent_snapshot_bytes [of "r_recent r" "l_recent (log_of as)"] by (auto simp: ring_rel_def Let_def)
  then show ?thesis
    using run tail retain_suffix [of cap bytes] retain_fits [of cap bytes]
      retain_longest [of _ "l_events (log_of as)" cap bytes, THEN suffix_length_le]
    by (intro exI [of _ r] exI [of _ cu] exI [of _ items] exI [of _ sn] exI [of _ ?tail]) auto
qed

text \<open>
  C24: A subscriber never loses output silently: whatever is written and cleared between its polls, the
  items it gets carry, in order and without repetition, every sequence number up to its position, each
  either as the event with exactly the bytes written then or inside a reported gap; its missed count is
  the total of the gaps; and polling returns nothing exactly when it has caught up.
\<close>

theorem subscriber_accounts_for_all_output:
  assumes "new_ring cap bytes = Some r0" "bytes \<le> isize_max" "list_all sized as" "length (pushed as) \<le> u64_max"
  shows "\<exists>r cu items. ring_run as (r0, new_cursor 0, []) = Some (r, cu, items)
    \<and> concat (map item_sequences items) = [0..<cu_next_sequence cu] \<and> list_all (item_true (pushed as)) items
    \<and> cu_missed_events cu = min (sum_list (map gap_size items)) u64_max
    \<and> (poll_cursor r cu = Some (cu, None) \<longleftrightarrow> cu_next_sequence cu = length (pushed as))"
proof -
  obtain r cu items where run: "ring_run as (r0, new_cursor 0, []) = Some (r, cu, items)"
    and rel: "ring_rel r (log_of as)" and logs: "logs (log_of as) (pushed as)"
    and poll: "poll_result (pushed as) (new_cursor 0) cu items"
    using ring_from_new [OF assms] by blast
  have "cu_next_sequence cu \<le> length (pushed as)" "cu_missed_events cu \<le> u64_max"
    using poll by (simp_all add: poll_result_def)
  from poll_cursor_result [OF rel logs this]
  have "poll_cursor r cu = Some (cu, None) \<longleftrightarrow> cu_next_sequence cu = length (pushed as)" by auto
  then show ?thesis using run poll
    by (intro exI [of _ r] exI [of _ cu] exI [of _ items]) (simp add: poll_result_def new_cursor_def)
qed

definition small_ring :: "unit output_ring" where
  "small_ring = \<lparr>r_event_capacity = 2, r_recent_byte_capacity = 4, r_retained_event_bytes = 0, r_next_sequence = 0,
     r_events = [], r_recent = new_recent 4\<rparr>"

definition burst :: "ring_action list" where
  "burst = [Push_Output ''ab'' True, Poll_Output 1, Push_Output ''cd'' True, Push_Output ''e'' False,
     Push_Output ''f'' True, Poll_Output 9]"

lemma burst_run: "new_ring 2 4 = Some small_ring" "list_all sized burst" "length (pushed burst) \<le> u64_max"
  by (simp_all add: new_ring_def small_ring_def burst_def sized_def isize_max_def u64_max_def)

theorem output_ring_refines_log_witness:
  "\<exists>r cu items sn. ring_run burst (small_ring, new_cursor 0, []) = Some (r, cu, items)
     \<and> suffix (map ev_bytes (r_events r)) [''ab'', ''cd'', ''e'', ''f'']
     \<and> recent_snapshot_of (r_recent r) = Some sn \<and> sn_bytes sn = ''bcdf''"
proof -
  have "log_of burst = \<lparr>l_base = 0, l_events = [''ab'', ''cd'', ''e'', ''f''], l_recent = [(0, ''ab''), (1, ''cd''), (3, ''f'')]\<rparr>"
    by (simp add: log_of_def burst_def log_step_def log_push_def log_next_def)
  then show ?thesis
    using output_ring_refines_log [OF burst_run(1) _ burst_run(2,3)] by (auto simp: isize_max_def last_n_def)
qed

theorem subscriber_accounts_for_all_output_witness:
  "\<exists>r cu items. ring_run burst (small_ring, new_cursor 0, []) = Some (r, cu, items)
     \<and> concat (map item_sequences items) = [0..<cu_next_sequence cu] \<and> list_all (item_true (pushed burst)) items"
  using subscriber_accounts_for_all_output [OF burst_run(1) _ burst_run(2,3)] by (auto simp: isize_max_def)

end
