(* ===== verification/Index_Map.thy ===== *)
theory Index_Map
  imports Ordered_Map "HOL-Library.AList"
begin

text \<open>
  \<open>HashMap\<close> as an association list with one entry per key, and the indexes that registries keep
  beside their records: a map from an attribute to the set of keys of the records that have it. The
  iteration order of a hash map is unspecified; the lists fix one, and no theorem depends on it.
\<close>

section \<open>Hash maps\<close>

definition hm_insert :: "'k \<Rightarrow> 'v \<Rightarrow> ('k \<times> 'v) list \<Rightarrow> ('k \<times> 'v) list" where
  "hm_insert k v m = AList.update k v m"

definition hm_remove :: "'k \<Rightarrow> ('k \<times> 'v) list \<Rightarrow> ('k \<times> 'v) list" where
  "hm_remove k m = AList.delete k m"

definition hm_valid :: "('k \<times> 'v) list \<Rightarrow> bool" where
  "hm_valid m \<longleftrightarrow> distinct (map fst m)"

lemma map_of_hm_insert [simp]: "map_of (hm_insert k v m) j = (if j = k then Some v else map_of m j)"
  by (simp add: hm_insert_def update_conv')

lemma map_of_hm_remove [simp]: "map_of (hm_remove k m) j = (if j = k then None else map_of m j)"
  by (simp add: hm_remove_def delete_conv')

lemma hm_valid_insert: "hm_valid m \<Longrightarrow> hm_valid (hm_insert k v m)"
  by (simp add: hm_valid_def hm_insert_def distinct_update)

lemma hm_valid_remove: "hm_valid m \<Longrightarrow> hm_valid (hm_remove k m)"
  by (simp add: hm_valid_def hm_remove_def distinct_delete)

interpretation hmap: map_interface map_of hm_insert hm_remove hm_valid
  by unfold_locales (simp_all add: hm_valid_insert hm_valid_remove)

lemma hm_member: "hm_valid m \<Longrightarrow> (k, v) \<in> set m \<longleftrightarrow> map_of m k = Some v"
  by (simp add: hm_valid_def)

lemma set_map_filter: "set (List.map_filter f xs) = {y. \<exists>x \<in> set xs. f x = Some y}"
  by (induction xs) (auto simp: List.map_filter_simps split: option.splits)

section \<open>Indexes\<close>

definition ix_get :: "('k \<times> 'v list) list \<Rightarrow> 'k \<Rightarrow> 'v list" where
  "ix_get ix k = (case map_of ix k of None \<Rightarrow> [] | Some vs \<Rightarrow> vs)"

text \<open>\<open>entry(k).or_default().insert(v)\<close>.\<close>

definition ix_insert :: "'k \<Rightarrow> 'v \<Rightarrow> ('k \<times> 'v list) list \<Rightarrow> ('k \<times> 'v list) list" where
  "ix_insert k v ix = hm_insert k (List.insert v (ix_get ix k)) ix"

text \<open>Removing one value, and the entry with it when it was the last.\<close>

definition ix_remove :: "'k \<Rightarrow> 'v \<Rightarrow> ('k \<times> 'v list) list \<Rightarrow> ('k \<times> 'v list) list" where
  "ix_remove k v ix =
     (case map_of ix k of
        None \<Rightarrow> ix
      | Some vs \<Rightarrow> let vs' = removeAll v vs in if vs' = [] then hm_remove k ix else hm_insert k vs' ix)"

definition index_ok :: "('r \<Rightarrow> 'k) \<Rightarrow> ('i \<times> 'r) list \<Rightarrow> ('k \<times> 'i list) list \<Rightarrow> bool" where
  "index_ok key recs ix \<longleftrightarrow>
     (\<forall>k i. i \<in> set (ix_get ix k) \<longleftrightarrow> (\<exists>r. map_of recs i = Some r \<and> key r = k))
     \<and> (\<forall>k vs. map_of ix k = Some vs \<longrightarrow> vs \<noteq> [] \<and> distinct vs)"

lemma insert_nonempty [simp]: "List.insert v vs \<noteq> []"
  by (auto simp: List.insert_def)

lemma ix_get_insert [simp]: "ix_get (ix_insert k v ix) j = (if j = k then List.insert v (ix_get ix k) else ix_get ix j)"
  by (simp add: ix_get_def ix_insert_def)

lemma ix_get_remove [simp]: "ix_get (ix_remove k v ix) j = (if j = k then removeAll v (ix_get ix k) else ix_get ix j)"
  by (auto simp: ix_get_def ix_remove_def Let_def split: option.splits)

lemma ix_get_cut [simp]: "ix_get (hm_remove k ix) j = (if j = k then [] else ix_get ix j)"
  by (simp add: ix_get_def)

lemma index_ok_mem: "index_ok key recs ix \<Longrightarrow> i \<in> set (ix_get ix k) \<longleftrightarrow> (\<exists>r. map_of recs i = Some r \<and> key r = k)"
  unfolding index_ok_def by (elim conjE allE)

lemma index_ok_distinct: "index_ok key recs ix \<Longrightarrow> distinct (ix_get ix k)"
  by (auto simp: index_ok_def ix_get_def split: option.splits)

lemma index_ok_empty: "index_ok key [] []"
  by (simp add: index_ok_def ix_get_def)

lemma index_ok_insert:
  assumes "index_ok key recs ix" "map_of recs i = None" "key r = k"
  shows "index_ok key (hm_insert i r recs) (ix_insert k i ix)"
proof -
  have "\<exists>r. map_of recs j = Some r \<and> key r = c" if "j \<in> set (ix_get ix c)" for j c
    using assms(1) that by (auto simp: index_ok_def)
  moreover have "vs \<noteq> [] \<and> distinct vs" if "map_of (ix_insert k i ix) c = Some vs" for c vs
    using that assms(1) index_ok_distinct [OF assms(1), of k]
    by (auto simp: index_ok_def ix_insert_def split: if_splits)
  ultimately show ?thesis using assms by (auto simp: index_ok_def)
qed

lemma index_ok_remove:
  assumes "index_ok key recs ix" "map_of recs i = Some r"
  shows "index_ok key (hm_remove i recs) (ix_remove (key r) i ix)"
proof -
  have "vs \<noteq> [] \<and> distinct vs" if "map_of (ix_remove (key r) i ix) c = Some vs" for c vs
    using that assms(1)
    by (auto simp: index_ok_def ix_remove_def Let_def distinct_removeAll split: option.splits if_splits)
  then show ?thesis using assms by (auto simp: index_ok_def)
qed

lemma index_ok_cong:
  assumes "\<And>i k. (\<exists>r. map_of recs' i = Some r \<and> key r = k) \<longleftrightarrow> (\<exists>r. map_of recs i = Some r \<and> key r = k)"
  shows "index_ok key recs' ix \<longleftrightarrow> index_ok key recs ix"
  unfolding index_ok_def assms ..

text \<open>An update of a record that keeps the attribute keeps the index.\<close>

lemma index_ok_update:
  assumes "index_ok key recs ix" "map_of recs i = Some r" "key r' = key r"
  shows "index_ok key (hm_insert i r' recs) ix"
  using assms by (auto simp: index_ok_def)

text \<open>Cutting a whole entry first, or removing its values one by one, comes to the same.\<close>

lemma hm_remove_absent: "map_of m k = None \<Longrightarrow> hm_remove k m = m"
  by (simp add: hm_remove_def map_of_eq_None_iff delete_id)

lemma hm_remove_insert: "hm_remove k (hm_insert k v m) = hm_remove k m"
  unfolding hm_remove_def hm_insert_def by (induction m) auto

lemma hm_remove_twice: "hm_remove k (hm_remove k m) = hm_remove k m"
  by (simp add: hm_remove_absent)

lemma ix_remove_cut:
  "hm_remove k (ix_remove k v ix) = hm_remove k ix" "ix_remove k v (hm_remove k ix) = hm_remove k ix"
  by (auto simp: ix_remove_def hm_remove_insert hm_remove_twice Let_def split: option.splits)

end
