(* ===== verification/Coalescer.thy ===== *)
theory Coalescer
  imports Index_Map "HOL-Library.Monad_Syntax" "HOL-Library.Sublist"
begin

text \<open>
  Rate limiting of snapshot notifications (\<open>events/coalescing.rs\<close>): one coalescer per pane keeps
  the newest revision back until the minimum interval since the last notification has passed. Instants
  and durations are nanoseconds.
\<close>

section \<open>Model\<close>

definition DURATION_MAX :: nat where
  "DURATION_MAX = u64_max * 1000000000 + 999999999"

text \<open>The largest instant: \<open>i64::MAX\<close> seconds; \<open>checked_add\<close> fails beyond it.\<close>

definition INSTANT_MAX :: nat where
  "INSTANT_MAX = 9223372036854775807 * 1000000000 + 999999999"

definition instant_checked_add :: "nat \<Rightarrow> nat \<Rightarrow> nat option" where
  "instant_checked_add t d = (if t + d \<le> INSTANT_MAX then Some (t + d) else None)"

definition DEFAULT_MAX_SNAPSHOT_NOTIFICATIONS_PER_SECOND :: u32 where
  "DEFAULT_MAX_SNAPSHOT_NOTIFICATIONS_PER_SECOND = 60"

definition min_interval_for_rate :: "u32 \<Rightarrow> nat" where
  "min_interval_for_rate rate = (if rate = 0 then DURATION_MAX else 1000000000 div rate)"

record emitted_revision =
  e_revision :: u64
  e_at :: nat

record pending_revision =
  p_revision :: u64
  p_observed_at :: nat

record coalescer =
  co_max_per_second :: u32
  co_min_interval :: nat
  co_last_emitted :: "emitted_revision option"
  co_pending :: "pending_revision option"

definition new_coalescer :: "u32 \<Rightarrow> coalescer" where
  "new_coalescer max_per_second =
     \<lparr>co_max_per_second = max_per_second, co_min_interval = min_interval_for_rate max_per_second,
      co_last_emitted = None, co_pending = None\<rparr>"

definition may_emit_at :: "coalescer \<Rightarrow> nat \<Rightarrow> bool" where
  "may_emit_at co now =
     (case co_last_emitted co of None \<Rightarrow> True | Some e \<Rightarrow> now - e_at e \<ge> co_min_interval co)"

definition commit_emission :: "u64 \<Rightarrow> nat \<Rightarrow> coalescer \<Rightarrow> coalescer" where
  "commit_emission revision at co = co\<lparr>co_last_emitted := Some \<lparr>e_revision = revision, e_at = at\<rparr>\<rparr>"

definition last_emitted_is :: "coalescer \<Rightarrow> u64 \<Rightarrow> bool" where
  "last_emitted_is co revision = (case co_last_emitted co of None \<Rightarrow> False | Some e \<Rightarrow> e_revision e = revision)"

definition observe_revision :: "u64 \<Rightarrow> nat \<Rightarrow> coalescer \<Rightarrow> coalescer \<times> u64 option" where
  "observe_revision revision now co =
     (if last_emitted_is co revision then
        (case co_pending co of
           Some p \<Rightarrow> if p_revision p = revision then (co\<lparr>co_pending := None\<rparr>, None) else (co, None)
         | None \<Rightarrow> (co, None))
      else if may_emit_at co now then ((commit_emission revision now co)\<lparr>co_pending := None\<rparr>, Some revision)
      else (co\<lparr>co_pending := Some \<lparr>p_revision = revision, p_observed_at = now\<rparr>\<rparr>, None))"

definition poll_revision :: "nat \<Rightarrow> coalescer \<Rightarrow> coalescer \<times> u64 option" where
  "poll_revision now co =
     (case co_pending co of
        None \<Rightarrow> (co, None)
      | Some p \<Rightarrow>
          if \<not> may_emit_at co now then (co, None)
          else if last_emitted_is co (p_revision p) then (co\<lparr>co_pending := None\<rparr>, None)
          else ((commit_emission (p_revision p) now co)\<lparr>co_pending := None\<rparr>, Some (p_revision p)))"

definition next_deadline :: "coalescer \<Rightarrow> nat option" where
  "next_deadline co = do {
     p \<leftarrow> co_pending co;
     (case co_last_emitted co of
        None \<Rightarrow> Some (p_observed_at p)
      | Some e \<Rightarrow>
          (case instant_checked_add (e_at e) (co_min_interval co) of
             Some earliest \<Rightarrow> Some (max (p_observed_at p) earliest)
           | None \<Rightarrow> Some (p_observed_at p)))
   }"

definition last_emitted_revision :: "coalescer \<Rightarrow> u64 option" where
  "last_emitted_revision co = map_option e_revision (co_last_emitted co)"

definition pending_revision_of :: "coalescer \<Rightarrow> u64 option" where
  "pending_revision_of co = map_option p_revision (co_pending co)"

text \<open>The registry: one coalescer per pane, created on first use.\<close>

record coalescers =
  cs_coalescers :: "(u32 \<times> coalescer) list"
  cs_max_per_second :: u32

definition new_coalescers :: "u32 \<Rightarrow> coalescers" where
  "new_coalescers max_per_second = \<lparr>cs_coalescers = [], cs_max_per_second = max_per_second\<rparr>"

definition coalescer_entry :: "u32 \<Rightarrow> coalescers \<Rightarrow> coalescer" where
  "coalescer_entry pane cs =
     (case map_of (cs_coalescers cs) pane of Some co \<Rightarrow> co | None \<Rightarrow> new_coalescer (cs_max_per_second cs))"

definition observe_pane :: "u32 \<Rightarrow> u64 \<Rightarrow> nat \<Rightarrow> coalescers \<Rightarrow> coalescers \<times> u64 option" where
  "observe_pane pane revision now cs =
     (let (co, emitted) = observe_revision revision now (coalescer_entry pane cs)
      in (cs\<lparr>cs_coalescers := hm_insert pane co (cs_coalescers cs)\<rparr>, emitted))"

definition poll_pane :: "u32 \<Rightarrow> nat \<Rightarrow> coalescers \<Rightarrow> coalescers \<times> u64 option" where
  "poll_pane pane now cs =
     (case map_of (cs_coalescers cs) pane of
        None \<Rightarrow> (cs, None)
      | Some co \<Rightarrow>
          let (co', emitted) = poll_revision now co
          in (cs\<lparr>cs_coalescers := hm_insert pane co' (cs_coalescers cs)\<rparr>, emitted))"

definition next_deadline_all :: "coalescers \<Rightarrow> nat option" where
  "next_deadline_all cs =
     (case List.map_filter (next_deadline \<circ> snd) (cs_coalescers cs) of [] \<Rightarrow> None | ds \<Rightarrow> Some (Min (set ds)))"

definition last_emitted_of :: "coalescers \<Rightarrow> u32 \<Rightarrow> u64 option" where
  "last_emitted_of cs pane = Option.bind (map_of (cs_coalescers cs) pane) last_emitted_revision"

definition pending_of :: "coalescers \<Rightarrow> u32 \<Rightarrow> u64 option" where
  "pending_of cs pane = Option.bind (map_of (cs_coalescers cs) pane) pending_revision_of"

definition forget_pane :: "u32 \<Rightarrow> coalescers \<Rightarrow> coalescers \<times> coalescer option" where
  "forget_pane pane cs =
     (cs\<lparr>cs_coalescers := hm_remove pane (cs_coalescers cs)\<rparr>, map_of (cs_coalescers cs) pane)"

section \<open>Runs\<close>

datatype coalescer_event = Observe u64 nat | Poll nat

fun coalescer_step :: "coalescer_event \<Rightarrow> coalescer \<Rightarrow> coalescer \<times> u64 option" where
  "coalescer_step (Observe revision now) co = observe_revision revision now co"
| "coalescer_step (Poll now) co = poll_revision now co"

fun event_time :: "coalescer_event \<Rightarrow> nat" where
  "event_time (Observe revision now) = now"
| "event_time (Poll now) = now"

text \<open>A run gives the coalescer and the emissions with their times, the newest first.\<close>

fun coalescer_run :: "coalescer_event list \<Rightarrow> coalescer \<times> (u64 \<times> nat) list \<Rightarrow> coalescer \<times> (u64 \<times> nat) list" where
  "coalescer_run [] s = s"
| "coalescer_run (ev # evs) (co, out) =
     (let (co', emitted) = coalescer_step ev co
      in coalescer_run evs (co', (case emitted of None \<Rightarrow> out | Some r \<Rightarrow> (r, event_time ev) # out)))"

text \<open>Emissions, the newest first, that are at least \<open>d\<close> apart and never repeat a revision at once.\<close>

fun spaced :: "nat \<Rightarrow> (u64 \<times> nat) list \<Rightarrow> bool" where
  "spaced d ((r2, t2) # (r1, t1) # out) \<longleftrightarrow> t1 + d \<le> t2 \<and> r1 \<noteq> r2 \<and> spaced d ((r1, t1) # out)"
| "spaced d out \<longleftrightarrow> True"

text \<open>The clock does not go backwards; nothing is assumed of the revisions, which are hashes.\<close>

fun timed :: "nat \<Rightarrow> coalescer_event list \<Rightarrow> bool" where
  "timed clock [] \<longleftrightarrow> True"
| "timed clock (ev # evs) \<longleftrightarrow> clock \<le> event_time ev \<and> timed (event_time ev) evs"

fun observed :: "coalescer_event list \<Rightarrow> u64 list" where
  "observed [] = []"
| "observed (Observe r t # evs) = r # observed evs"
| "observed (Poll t # evs) = observed evs"

fun last_time :: "nat \<Rightarrow> coalescer_event list \<Rightarrow> nat" where
  "last_time clock [] = clock"
| "last_time clock (ev # evs) = last_time (event_time ev) evs"

text \<open>A revision that has been replaced by another one does not come back.\<close>

fun non_recurring :: "'a list \<Rightarrow> bool" where
  "non_recurring [] \<longleftrightarrow> True"
| "non_recurring (x # xs) \<longleftrightarrow> x \<notin> set (dropWhile (\<lambda>y. y = x) xs) \<and> non_recurring xs"

lemma subseq_pair_drop: "subseq [b, a] xs \<Longrightarrow> b \<noteq> a \<Longrightarrow> a \<in> set (dropWhile (\<lambda>y. y = a) xs)"
  by (induction xs) (auto dest: subseq_Cons' subseq_singleton_left [THEN iffD1] split: if_splits)

lemma non_recurring_no_return: "non_recurring xs \<Longrightarrow> a \<noteq> b \<Longrightarrow> \<not> subseq [a, b, a] xs"
  using subseq_pair_drop [of b a] by (induction xs) (auto split: if_splits)

text \<open>
  The invariant of a run: the emissions, and after them the pending revision, are a subsequence of the
  observations; a pending revision differs from the last one sent; and as long as no replaced revision
  comes back, the newest observation is the pending revision, or the last one sent if nothing is pending.
\<close>

definition newest_kept :: "u64 list \<Rightarrow> coalescer \<Rightarrow> bool" where
  "newest_kept obs co \<longleftrightarrow> (obs = [] \<or>
     (case pending_revision_of co of Some r \<Rightarrow> Some r | None \<Rightarrow> last_emitted_revision co) = Some (last obs))"

definition coalescer_inv :: "nat \<Rightarrow> u64 list \<Rightarrow> nat \<Rightarrow> coalescer \<Rightarrow> (u64 \<times> nat) list \<Rightarrow> bool" where
  "coalescer_inv d obs clock co out \<longleftrightarrow>
     co_min_interval co = d \<and> spaced d out
     \<and> co_last_emitted co = (case out of [] \<Rightarrow> None | (r, t) # _ \<Rightarrow> Some \<lparr>e_revision = r, e_at = t\<rparr>)
     \<and> (case out of [] \<Rightarrow> obs = [] \<and> co_pending co = None | (r, t) # _ \<Rightarrow> t \<le> clock \<and> pending_revision_of co \<noteq> Some r)
     \<and> subseq (rev (map fst out) @ (case pending_revision_of co of None \<Rightarrow> [] | Some r \<Rightarrow> [r])) obs
     \<and> (non_recurring obs \<longrightarrow> newest_kept obs co)"

lemmas coalescer_defs = coalescer_inv_def newest_kept_def pending_revision_of_def last_emitted_revision_def commit_emission_def

lemma subseq_snoc: "subseq xs ys \<Longrightarrow> subseq (xs @ [z]) (ys @ [z])"
  by (rule list_emb_append_mono) simp_all

lemma subseq_front: "subseq (xs @ zs) ys \<Longrightarrow> subseq xs ys"
  by (rule subseq_order.trans [of _ "xs @ zs"]) (simp_all add: list_emb_prefix)

lemma subseq_back: "subseq (zs @ xs) ys \<Longrightarrow> subseq xs ys"
  by (rule subseq_order.trans [of _ "zs @ xs"]) (simp_all add: list_emb_append2)

lemma coalescer_observe_inv:
  assumes inv: "coalescer_inv d obs clock co out" and time: "clock \<le> now" and step: "observe_revision r now co = (co', emitted)"
  shows "coalescer_inv d (obs @ [r]) now co' (case emitted of None \<Rightarrow> out | Some r \<Rightarrow> (r, now) # out)"
proof (cases out)
  case Nil
  then have "co' = (commit_emission r now co)\<lparr>co_pending := None\<rparr>" "emitted = Some r" "obs = []"
    using inv step by (auto simp: coalescer_inv_def observe_revision_def last_emitted_is_def may_emit_at_def)
  then show ?thesis using Nil inv by (simp add: coalescer_defs)
next
  case (Cons e out')
  obtain r' t' where e: "e = (r', t')" by fastforce
  have last: "co_last_emitted co = Some \<lparr>e_revision = r', e_at = t'\<rparr>" "t' \<le> clock" "co_min_interval co = d" "spaced d out"
    "pending_revision_of co \<noteq> Some r'" using inv Cons e by (auto simp: coalescer_inv_def)
  have sub: "subseq (rev (map fst out) @ (case pending_revision_of co of None \<Rightarrow> [] | Some r \<Rightarrow> [r])) obs"
    using inv by (simp add: coalescer_inv_def)
  note grow = subseq_snoc [OF subseq_front [OF sub], of r] list_emb_prefix [OF sub, of "[r]"]
  consider "r = r'" | "r \<noteq> r'" "d \<le> now - t'" | "r \<noteq> r'" "\<not> d \<le> now - t'" by blast
  then show ?thesis
  proof cases
    case 1
    then have co: "co' = co" "emitted = None" using step last(1,5)
      by (auto simp: observe_revision_def last_emitted_is_def pending_revision_of_def split: option.splits if_splits)
    have "newest_kept (obs @ [r]) co" if "non_recurring (obs @ [r])"
    proof (cases "pending_revision_of co")
      case None
      then show ?thesis using 1 last(1) by (simp add: newest_kept_def last_emitted_revision_def)
    next
      case (Some p)
      then have "subseq [r', p] obs" using sub subseq_back [of "rev (map fst out')" "[r', p]" obs] Cons e by simp
      from non_recurring_no_return [OF that, of r' p] subseq_snoc [OF this, of r] show ?thesis using 1 Some last(5) by auto
    qed
    then show ?thesis using inv Cons e co time grow(2) by (simp add: coalescer_inv_def)
  next
    case 2
    then have "co' = (commit_emission r now co)\<lparr>co_pending := None\<rparr>" "emitted = Some r" using step last(1,3)
      by (auto simp: observe_revision_def last_emitted_is_def may_emit_at_def)
    moreover have "t' + d \<le> now" using 2 last(2) time by simp
    ultimately show ?thesis using 2 Cons e last(3,4) grow(1) by (simp add: coalescer_defs)
  next
    case 3
    then have "co' = co\<lparr>co_pending := Some \<lparr>p_revision = r, p_observed_at = now\<rparr>\<rparr>" "emitted = None" using step last(1,3)
      by (auto simp: observe_revision_def last_emitted_is_def may_emit_at_def)
    then show ?thesis using 3 Cons e last time grow(1) by (simp add: coalescer_defs)
  qed
qed

lemma coalescer_poll_inv:
  assumes inv: "coalescer_inv d obs clock co out" and time: "clock \<le> now" and step: "poll_revision now co = (co', emitted)"
  shows "coalescer_inv d obs now co' (case emitted of None \<Rightarrow> out | Some r \<Rightarrow> (r, now) # out)"
proof (cases "co_pending co")
  case None
  then show ?thesis using inv step time by (auto simp: coalescer_inv_def poll_revision_def split: list.splits)
next
  case (Some p)
  then obtain r t out' where out: "out = (r, t) # out'" using inv by (cases out) (auto simp: coalescer_inv_def)
  then show ?thesis using inv step time Some
    by (auto simp: coalescer_defs poll_revision_def last_emitted_is_def may_emit_at_def split: if_splits)
qed

lemma coalescer_run_inv:
  "coalescer_inv d obs clock co out \<Longrightarrow> timed clock evs \<Longrightarrow> coalescer_run evs (co, out) = (co', out') \<Longrightarrow>
     coalescer_inv d (obs @ observed evs) (last_time clock evs) co' out'"
proof (induction evs arbitrary: obs clock co out)
  case (Cons ev evs)
  obtain co1 emitted where step: "coalescer_step ev co = (co1, emitted)" by fastforce
  show ?case
  proof (cases ev)
    case (Observe r t)
    then show ?thesis using coalescer_observe_inv [OF Cons.prems(1), of t r co1 emitted] Cons.prems(2,3) step
        Cons.IH [of "obs @ [r]" t co1] by (cases emitted) simp_all
  next
    case (Poll t)
    then show ?thesis using coalescer_poll_inv [OF Cons.prems(1), of t co1 emitted] Cons.prems(2,3) step
        Cons.IH [of obs t co1] by (cases emitted) simp_all
  qed
qed simp

lemma coalescer_new_inv: "coalescer_inv (min_interval_for_rate rate) [] 0 (new_coalescer rate) []"
  by (simp add: coalescer_defs new_coalescer_def)

text \<open>
  Once the interval has passed, a poll leaves nothing pending, and the newest observation as the last
  revision sent, provided that no replaced revision came back.
\<close>

lemma coalescer_poll_delivers:
  assumes "coalescer_inv d obs clock co out" and "out \<noteq> [] \<Longrightarrow> snd (hd out) + d \<le> now"
  shows "co_pending (fst (poll_revision now co)) = None"
    and "non_recurring obs \<Longrightarrow> obs \<noteq> [] \<Longrightarrow> last_emitted_revision (fst (poll_revision now co)) = Some (last obs)"
  using assms
  by (cases out; auto simp: coalescer_defs poll_revision_def last_emitted_is_def may_emit_at_def split: option.splits)+

lemma coalescer_run_append: "coalescer_run (as @ bs) s = coalescer_run bs (coalescer_run as s)"
  by (induction as s rule: coalescer_run.induct) (simp_all split: prod.splits)

text \<open>Panes do not disturb each other.\<close>

lemma observe_pane_other:
  "q \<noteq> pane \<Longrightarrow> coalescer_entry q (fst (observe_pane pane revision now cs)) = coalescer_entry q cs"
  by (auto simp: observe_pane_def coalescer_entry_def split: prod.splits option.splits)

end
