(* ===== verification/Coalescer_Spec.thy ===== *)
theory Coalescer_Spec
  imports Coalescer
begin

text \<open>
  What the coalescer promises to a subscriber, and where its rate differs from the documented one.
\<close>

text \<open>
  C25: a run of observations and polls whose clock does not go backwards, on revisions of any values.
  Notifications are at least the minimum interval apart, no two in a row are the same revision, and
  they are a subsequence of the revisions observed: nothing is reordered or made up. A poll once the
  interval since the last notification has passed leaves nothing pending. If moreover no revision comes
  back after it has been replaced by another one, the newest revision is pending or is the last one sent,
  and such a poll leaves it sent.
\<close>

theorem coalescer_delivers_newest:
  assumes "timed 0 evs" "coalescer_run evs (new_coalescer rate, []) = (co, out)"
  shows "spaced (min_interval_for_rate rate) out \<and> subseq (rev (map fst out)) (observed evs)
    \<and> (\<forall>now. (out \<noteq> [] \<longrightarrow> snd (hd out) + min_interval_for_rate rate \<le> now) \<longrightarrow> co_pending (fst (poll_revision now co)) = None)
    \<and> (non_recurring (observed evs) \<and> observed evs \<noteq> [] \<longrightarrow>
        (case pending_revision_of co of Some r \<Rightarrow> Some r | None \<Rightarrow> last_emitted_revision co) = Some (last (observed evs))
        \<and> (\<forall>now. (out \<noteq> [] \<longrightarrow> snd (hd out) + min_interval_for_rate rate \<le> now) \<longrightarrow>
             last_emitted_revision (fst (poll_revision now co)) = Some (last (observed evs))))"
proof -
  have inv: "coalescer_inv (min_interval_for_rate rate) (observed evs) (last_time 0 evs) co out"
    using coalescer_run_inv [OF coalescer_new_inv assms] by simp
  then have "spaced (min_interval_for_rate rate) out" "subseq (rev (map fst out)) (observed evs)"
    "non_recurring (observed evs) \<longrightarrow> newest_kept (observed evs) co"
    using subseq_front by (auto simp: coalescer_inv_def)
  then show ?thesis using coalescer_poll_delivers [OF inv] by (auto simp: newest_kept_def)
qed

theorem coalescer_delivers_newest_witness:
  "let (co, out) = coalescer_run [Observe 9 0, Observe 2 5, Observe 3 9] (new_coalescer 60, [])
   in spaced 16666666 out \<and> last_emitted_revision (fst (poll_revision 16666666 co)) = Some 3"
proof -
  let ?evs = "[Observe 9 0, Observe 2 5, Observe 3 9]"
  obtain co out where run: "coalescer_run ?evs (new_coalescer 60, []) = (co, out)" by fastforce
  then have "out = [(9, 0)]"
    by (auto simp: observe_revision_def last_emitted_is_def may_emit_at_def commit_emission_def new_coalescer_def min_interval_for_rate_def)
  moreover have "timed 0 ?evs" by simp
  ultimately show ?thesis using coalescer_delivers_newest [of ?evs 60 co out] run by (simp add: min_interval_for_rate_def)
qed

section \<open>A revision that comes back\<close>

text \<open>
  C28: a superseded revision is sent. Revision \<open>a\<close> has been sent last; inside the interval \<open>b\<close> is
  observed and then \<open>a\<close> again, so that the pane is back at what the subscriber has. The next poll after
  the interval sends \<open>b\<close> all the same, nothing is pending then, and the subscriber stays at \<open>b\<close>
  although the newest revision is \<open>a\<close>.
\<close>

theorem coalescer_sends_superseded_revision:
  assumes "last_emitted_revision co = Some a" and "a \<noteq> b" and "\<not> may_emit_at co t" and "may_emit_at co now"
  shows "let co1 = fst (observe_revision b t co); co2 = fst (observe_revision a t' co1); (co3, sent) = poll_revision now co2
    in sent = Some b \<and> last_emitted_revision co3 = Some b \<and> pending_revision_of co3 = None"
proof -
  obtain at where e: "co_last_emitted co = Some \<lparr>e_revision = a, e_at = at\<rparr>"
    using assms(1) by (auto simp: last_emitted_revision_def) (metis emitted_revision.surjective unit.exhaust)
  let ?co = "co\<lparr>co_pending := Some \<lparr>p_revision = b, p_observed_at = t\<rparr>\<rparr>"
  have "observe_revision b t co = (?co, None)"
    using e assms(2,3) by (simp add: observe_revision_def last_emitted_is_def)
  moreover have "observe_revision a t' ?co = (?co, None)"
    using e assms(2) by (simp add: observe_revision_def last_emitted_is_def)
  moreover have "poll_revision now ?co = ((commit_emission b now ?co)\<lparr>co_pending := None\<rparr>, Some b)"
    using e assms(2,4) by (simp add: poll_revision_def last_emitted_is_def may_emit_at_def)
  ultimately show ?thesis by (simp add: last_emitted_revision_def pending_revision_of_def commit_emission_def)
qed

theorem coalescer_sends_superseded_revision_witness:
  "let co = fst (observe_revision 7 0 (new_coalescer 60)); co1 = fst (observe_revision 8 5 co); co2 = fst (observe_revision 7 6 co1)
   in snd (poll_revision 16666666 co2) = Some 8"
proof -
  let ?co = "fst (observe_revision 7 0 (new_coalescer 60))"
  have "last_emitted_revision ?co = Some 7" "\<not> may_emit_at ?co 5" "may_emit_at ?co 16666666"
    by (simp_all add: observe_revision_def last_emitted_is_def may_emit_at_def commit_emission_def new_coalescer_def
        min_interval_for_rate_def last_emitted_revision_def)
  from coalescer_sends_superseded_revision [OF this(1) _ this(2,3), of 8 6] show ?thesis by (simp add: Let_def split: prod.splits)
qed

section \<open>The documented rate\<close>

definition steady :: "nat \<Rightarrow> nat \<Rightarrow> coalescer_event list" where
  "steady d k = map (\<lambda>i. Observe i (i * d)) [0..<k]"

lemma steady_run:
  "fst (coalescer_run (steady (min_interval_for_rate rate) k) (new_coalescer rate, []))
     = (new_coalescer rate)\<lparr>co_last_emitted := (if k = 0 then None else Some \<lparr>e_revision = k - 1, e_at = (k - 1) * min_interval_for_rate rate\<rparr>)\<rparr>
   \<and> snd (coalescer_run (steady (min_interval_for_rate rate) k) (new_coalescer rate, []))
     = rev (map (\<lambda>i. (i, i * min_interval_for_rate rate)) [0..<k])"
proof (induction k)
  case 0
  then show ?case by (simp add: steady_def new_coalescer_def)
next
  case (Suc k)
  let ?d = "min_interval_for_rate rate"
  have run: "coalescer_run (steady ?d (Suc k)) (new_coalescer rate, [])
      = coalescer_run [Observe k (k * ?d)] (coalescer_run (steady ?d k) (new_coalescer rate, []))"
    by (simp add: steady_def coalescer_run_append)
  obtain co out where co: "coalescer_run (steady ?d k) (new_coalescer rate, []) = (co, out)" by fastforce
  have "?d \<le> k * ?d - (k - Suc 0) * ?d" if "0 < k" using that by (cases k) simp_all
  then show ?case using Suc.IH co unfolding run
    by (auto simp: observe_revision_def last_emitted_is_def may_emit_at_def commit_emission_def new_coalescer_def)
qed

text \<open>
  C27: The interval for the documented cap of 60 notifications per second is rounded down, so 61
  notifications fit into less than one second; and a cap of 0, documented as never sending, still sends
  the first revision.
\<close>

theorem coalescer_exceeds_documented_rate:
  "timed 0 (steady (min_interval_for_rate DEFAULT_MAX_SNAPSHOT_NOTIFICATIONS_PER_SECOND) 61)
   \<and> sorted_wrt (<) (observed (steady (min_interval_for_rate DEFAULT_MAX_SNAPSHOT_NOTIFICATIONS_PER_SECOND) 61))
   \<and> length (filter (\<lambda>(r, t). t < 1000000000)
       (snd (coalescer_run (steady (min_interval_for_rate DEFAULT_MAX_SNAPSHOT_NOTIFICATIONS_PER_SECOND) 61)
         (new_coalescer DEFAULT_MAX_SNAPSHOT_NOTIFICATIONS_PER_SECOND, [])))) = 61
   \<and> snd (observe_revision revision now (new_coalescer 0)) = Some revision"
proof -
  have d: "min_interval_for_rate DEFAULT_MAX_SNAPSHOT_NOTIFICATIONS_PER_SECOND = 16666666"
    by (simp add: min_interval_for_rate_def DEFAULT_MAX_SNAPSHOT_NOTIFICATIONS_PER_SECOND_def)
  have timed: "timed c (map (\<lambda>i. Observe i (i * d)) [j..<j + k])" if "c \<le> j * d" for c d j k
    using that
  proof (induction k arbitrary: c j)
    case (Suc k)
    have "[j..<j + Suc k] = j # [Suc j..<Suc j + k]" by (simp add: upt_rec)
    then show ?case using Suc.IH [of "j * d" "Suc j"] Suc.prems by simp
  qed simp
  have observed: "observed (map (\<lambda>i. Observe i (f i)) ks) = ks" for f ks by (induction ks) simp_all
  have all: "list_all (\<lambda>i. i * 16666666 < (1000000000::nat)) [0..<61]"
    by (auto simp: list_all_iff)
  have "filter (\<lambda>(r, t). t < 1000000000) (rev (map (\<lambda>i. (i, i * 16666666)) [0..<61])) = rev (map (\<lambda>i. (i, i * 16666666)) [0..<61::nat])"
    using all by (simp add: filter_id_conv list_all_iff)
  then show ?thesis
    using timed [of 0 0 16666666 61] steady_run [of DEFAULT_MAX_SNAPSHOT_NOTIFICATIONS_PER_SECOND 61]
    by (simp add: d steady_def observed sorted_wrt_upt observe_revision_def last_emitted_is_def may_emit_at_def new_coalescer_def)
qed

end
