(* ===== verification/Subscriptions.thy ===== *)
theory Subscriptions
  imports Index_Map
begin

text \<open>
  The registry of output subscriptions (\<open>events/registry.rs\<close>): records by id with indexes by
  connection and by pane, limits on both, expiry of idle subscriptions, and moving the subscriptions of
  a pane to another owner. An exhausted id counter panics: \<open>None\<close>. Times are nanoseconds.
\<close>

section \<open>Model\<close>

record pane_key =
  k_session :: string
  k_pane :: u32

record subscription_limits =
  max_per_connection :: usize
  max_per_pane :: usize
  batch_events :: usize
  stale_ttl :: nat

definition default_limits :: subscription_limits where
  "default_limits = \<lparr>max_per_connection = 16, max_per_pane = 64, batch_events = 64, stale_ttl = 300 * 1000000000\<rparr>"

datatype subscription_limit_error = PerConnection usize | PerPane usize

record subscription =
  sub_id :: u64
  sub_connection :: u64
  sub_pane :: pane_key
  sub_created_at :: nat
  sub_last_seen :: nat

record subscriptions =
  su_limits :: subscription_limits
  su_next_id :: u64
  su_records :: "(u64 \<times> subscription) list"
  su_by_connection :: "(u64 \<times> u64 list) list"
  su_by_pane :: "(pane_key \<times> u64 list) list"

definition new_subscriptions :: "subscription_limits \<Rightarrow> subscriptions" where
  "new_subscriptions limits =
     \<lparr>su_limits = limits, su_next_id = 1, su_records = [], su_by_connection = [], su_by_pane = []\<rparr>"

definition remove_indexes :: "subscription \<Rightarrow> subscriptions \<Rightarrow> subscriptions" where
  "remove_indexes r su =
     su\<lparr>su_by_connection := ix_remove (sub_connection r) (sub_id r) (su_by_connection su),
       su_by_pane := ix_remove (sub_pane r) (sub_id r) (su_by_pane su)\<rparr>"

fun remove_ids :: "u64 list \<Rightarrow> subscriptions \<Rightarrow> subscriptions \<times> subscription list" where
  "remove_ids [] su = (su, [])"
| "remove_ids (i # is) su =
     (case map_of (su_records su) i of
        None \<Rightarrow> remove_ids is su
      | Some r \<Rightarrow>
          let (su', removed) = remove_ids is (remove_indexes r (su\<lparr>su_records := hm_remove i (su_records su)\<rparr>))
          in (su', r # removed))"

definition cleanup_stale :: "nat \<Rightarrow> subscriptions \<Rightarrow> subscriptions \<times> subscription list" where
  "cleanup_stale now su =
     remove_ids (map fst (filter (\<lambda>(i, r). now - sub_last_seen r \<ge> stale_ttl (su_limits su)) (su_records su))) su"

definition allocate_id :: "subscriptions \<Rightarrow> (subscriptions \<times> u64) option" where
  "allocate_id su =
     (if su_next_id su < u64_max then Some (su\<lparr>su_next_id := su_next_id su + 1\<rparr>, su_next_id su) else None)"

definition subscribe ::
  "u64 \<Rightarrow> pane_key \<Rightarrow> nat \<Rightarrow> subscriptions \<Rightarrow> (subscriptions \<times> (subscription_limit_error, subscription) res) option" where
  "subscribe connection pane now su0 =
     (let su = fst (cleanup_stale now su0)
      in if length (ix_get (su_by_connection su) connection) \<ge> max_per_connection (su_limits su)
         then Some (su, Inl (PerConnection (max_per_connection (su_limits su))))
         else if length (ix_get (su_by_pane su) pane) \<ge> max_per_pane (su_limits su)
         then Some (su, Inl (PerPane (max_per_pane (su_limits su))))
         else case allocate_id su of
           None \<Rightarrow> None
         | Some (su1, i) \<Rightarrow>
             let r = \<lparr>sub_id = i, sub_connection = connection, sub_pane = pane, sub_created_at = now, sub_last_seen = now\<rparr>
             in Some (su1\<lparr>su_records := hm_insert i r (su_records su1),
                    su_by_connection := ix_insert connection i (su_by_connection su1),
                    su_by_pane := ix_insert pane i (su_by_pane su1)\<rparr>, Inr r))"

definition touch :: "u64 \<Rightarrow> nat \<Rightarrow> subscriptions \<Rightarrow> subscriptions \<times> subscription option" where
  "touch i now su0 =
     (let su = fst (cleanup_stale now su0)
      in case map_of (su_records su) i of
           None \<Rightarrow> (su, None)
         | Some r \<Rightarrow>
             let r' = r\<lparr>sub_last_seen := now\<rparr> in (su\<lparr>su_records := hm_insert i r' (su_records su)\<rparr>, Some r'))"

definition unsubscribe :: "u64 \<Rightarrow> subscriptions \<Rightarrow> subscriptions \<times> subscription option" where
  "unsubscribe i su =
     (case map_of (su_records su) i of
        None \<Rightarrow> (su, None)
      | Some r \<Rightarrow> (remove_indexes r (su\<lparr>su_records := hm_remove i (su_records su)\<rparr>), Some r))"

definition remove_connection :: "u64 \<Rightarrow> subscriptions \<Rightarrow> subscriptions \<times> subscription list" where
  "remove_connection connection su =
     remove_ids (ix_get (su_by_connection su) connection)
       (su\<lparr>su_by_connection := hm_remove connection (su_by_connection su)\<rparr>)"

definition remove_pane_subscriptions :: "pane_key \<Rightarrow> subscriptions \<Rightarrow> subscriptions \<times> subscription list" where
  "remove_pane_subscriptions pane su =
     remove_ids (ix_get (su_by_pane su) pane) (su\<lparr>su_by_pane := hm_remove pane (su_by_pane su)\<rparr>)"

fun move_records :: "pane_key \<Rightarrow> u64 list \<Rightarrow> (u64 \<times> subscription) list \<Rightarrow> (u64 \<times> subscription) list" where
  "move_records current [] recs = recs"
| "move_records current (i # is) recs =
     move_records current is
       (case map_of recs i of None \<Rightarrow> recs | Some r \<Rightarrow> hm_insert i (r\<lparr>sub_pane := current\<rparr>) recs)"

definition rekey_pane :: "pane_key \<Rightarrow> pane_key \<Rightarrow> subscriptions \<Rightarrow> subscriptions \<times> usize" where
  "rekey_pane previous current su =
     (if previous = current then (su, length (ix_get (su_by_pane su) previous))
      else case map_of (su_by_pane su) previous of
        None \<Rightarrow> (su, 0)
      | Some is \<Rightarrow>
          let ix = hm_remove previous (su_by_pane su)
          in (su\<lparr>su_records := move_records current is (su_records su),
               su_by_pane := hm_insert current (fold List.insert is (ix_get ix current)) ix\<rparr>, length is))"

definition contains_pane :: "pane_key \<Rightarrow> subscriptions \<Rightarrow> bool" where
  "contains_pane pane su \<longleftrightarrow> ix_get (su_by_pane su) pane \<noteq> []"

definition ids_for_pane :: "pane_key \<Rightarrow> subscriptions \<Rightarrow> u64 list" where
  "ids_for_pane pane su = ix_get (su_by_pane su) pane"

section \<open>The invariant\<close>

definition records_ok :: "u64 \<Rightarrow> (u64 \<times> subscription) list \<Rightarrow> bool" where
  "records_ok next recs \<longleftrightarrow> hm_valid recs \<and> (\<forall>i r. map_of recs i = Some r \<longrightarrow> sub_id r = i \<and> i < next)"

definition subscriptions_inv :: "subscriptions \<Rightarrow> bool" where
  "subscriptions_inv su \<longleftrightarrow>
     records_ok (su_next_id su) (su_records su)
     \<and> index_ok sub_connection (su_records su) (su_by_connection su) \<and> index_ok sub_pane (su_records su) (su_by_pane su)"

lemma subscriptions_inv_new: "subscriptions_inv (new_subscriptions limits)"
  by (simp add: subscriptions_inv_def new_subscriptions_def records_ok_def index_ok_empty hm_valid_def)

lemma records_ok_remove: "records_ok n recs \<Longrightarrow> records_ok n (hm_remove i recs)"
  by (auto simp: records_ok_def hm_valid_remove)

lemma remove_one_inv:
  assumes inv: "subscriptions_inv su" and r: "map_of (su_records su) i = Some r"
  shows "subscriptions_inv (remove_indexes r (su\<lparr>su_records := hm_remove i (su_records su)\<rparr>))"
proof -
  have "sub_id r = i" using inv r by (auto simp: subscriptions_inv_def records_ok_def)
  then show ?thesis
    using inv index_ok_remove [OF _ r, of sub_connection] index_ok_remove [OF _ r, of sub_pane]
    by (simp add: subscriptions_inv_def remove_indexes_def records_ok_remove)
qed

text \<open>Removing ids removes exactly the records with these ids and returns each once.\<close>

lemma remove_ids_records:
  "map_of (su_records (fst (remove_ids is su))) j = (if j \<in> set is then None else map_of (su_records su) j)"
  "su_next_id (fst (remove_ids is su)) = su_next_id su" "su_limits (fst (remove_ids is su)) = su_limits su"
  by (induction "is" su rule: remove_ids.induct)
    (auto simp: remove_indexes_def split: option.splits prod.splits)

lemma remove_ids_inv: "subscriptions_inv su \<Longrightarrow> subscriptions_inv (fst (remove_ids is su))"
  by (induction "is" su rule: remove_ids.induct) (auto simp: remove_one_inv split: option.splits prod.splits)

lemma remove_ids_returns:
  "distinct is \<Longrightarrow> set (snd (remove_ids is su)) = {r. \<exists>i \<in> set is. map_of (su_records su) i = Some r}"
proof (induction "is" su rule: remove_ids.induct)
  case (2 i "is" su)
  show ?case
  proof (cases "map_of (su_records su) i")
    case (Some r)
    let ?su = "remove_indexes r (su\<lparr>su_records := hm_remove i (su_records su)\<rparr>)"
    have "map_of (su_records ?su) j = map_of (su_records su) j" if "j \<in> set is" for j
      using that 2(3) by (auto simp: remove_indexes_def)
    then have "set (snd (remove_ids is ?su)) = {r. \<exists>i \<in> set is. map_of (su_records su) i = Some r}"
      using 2(2) [OF Some] 2(3) by auto
    then show ?thesis using Some by (auto split: prod.splits)
  qed (use 2 in auto)
qed simp

lemma remove_ids_cut_connection:
  assumes "\<And>i r. i \<in> set is \<Longrightarrow> map_of (su_records su) i = Some r \<Longrightarrow> sub_connection r = c"
  shows "remove_ids is (su\<lparr>su_by_connection := hm_remove c (su_by_connection su)\<rparr>)
    = (let (su', removed) = remove_ids is su in (su'\<lparr>su_by_connection := hm_remove c (su_by_connection su')\<rparr>, removed))"
  using assms
proof (induction "is" arbitrary: su)
  case (Cons i "is")
  show ?case
  proof (cases "map_of (su_records su) i")
    case (Some r)
    let ?su = "remove_indexes r (su\<lparr>su_records := hm_remove i (su_records su)\<rparr>)"
    have "remove_indexes r (su\<lparr>su_by_connection := hm_remove c (su_by_connection su), su_records := hm_remove i (su_records su)\<rparr>)
        = ?su\<lparr>su_by_connection := hm_remove c (su_by_connection ?su)\<rparr>"
      using Cons.prems [of i r] Some by (simp add: remove_indexes_def ix_remove_cut)
    moreover have "sub_connection r' = c" if "j \<in> set is" "map_of (su_records ?su) j = Some r'" for j r'
      using that Cons.prems by (auto simp: remove_indexes_def split: if_splits)
    ultimately show ?thesis using Some Cons.IH [of ?su] by (auto split: prod.splits)
  qed (use Cons in auto)
qed simp

lemma remove_ids_cut_pane:
  assumes "\<And>i r. i \<in> set is \<Longrightarrow> map_of (su_records su) i = Some r \<Longrightarrow> sub_pane r = c"
  shows "remove_ids is (su\<lparr>su_by_pane := hm_remove c (su_by_pane su)\<rparr>)
    = (let (su', removed) = remove_ids is su in (su'\<lparr>su_by_pane := hm_remove c (su_by_pane su')\<rparr>, removed))"
  using assms
proof (induction "is" arbitrary: su)
  case (Cons i "is")
  show ?case
  proof (cases "map_of (su_records su) i")
    case (Some r)
    let ?su = "remove_indexes r (su\<lparr>su_records := hm_remove i (su_records su)\<rparr>)"
    have "remove_indexes r (su\<lparr>su_by_pane := hm_remove c (su_by_pane su), su_records := hm_remove i (su_records su)\<rparr>)
        = ?su\<lparr>su_by_pane := hm_remove c (su_by_pane ?su)\<rparr>"
      using Cons.prems [of i r] Some by (simp add: remove_indexes_def ix_remove_cut)
    moreover have "sub_pane r' = c" if "j \<in> set is" "map_of (su_records ?su) j = Some r'" for j r'
      using that Cons.prems by (auto simp: remove_indexes_def split: if_splits)
    ultimately show ?thesis using Some Cons.IH [of ?su] by (auto split: prod.splits)
  qed (use Cons in auto)
qed simp

lemma cut_absent_connection:
  "map_of (su_by_connection su) c = None \<Longrightarrow> su\<lparr>su_by_connection := hm_remove c (su_by_connection su)\<rparr> = su"
  by (simp add: hm_remove_absent)

lemma cut_absent_pane:
  "map_of (su_by_pane su) c = None \<Longrightarrow> su\<lparr>su_by_pane := hm_remove c (su_by_pane su)\<rparr> = su"
  by (simp add: hm_remove_absent)

lemma index_ok_absent: "index_ok key recs ix \<Longrightarrow> (\<And>i r. map_of recs i = Some r \<Longrightarrow> key r \<noteq> k) \<Longrightarrow> map_of ix k = None"
proof (rule ccontr)
  assume ok: "index_ok key recs ix" and none: "\<And>i r. map_of recs i = Some r \<Longrightarrow> key r \<noteq> k" and "map_of ix k \<noteq> None"
  then obtain vs where "map_of ix k = Some vs" by blast
  then have "hd vs \<in> set (ix_get ix k)" using ok by (auto simp: index_ok_def ix_get_def)
  then show False using ok none unfolding index_ok_def by blast
qed

text \<open>So removing a connection or a pane is removing the ids of its index entry.\<close>

lemma remove_connection_ids:
  assumes inv: "subscriptions_inv su"
  shows "remove_connection c su = remove_ids (ix_get (su_by_connection su) c) su"
proof -
  let ?is = "ix_get (su_by_connection su) c"
  have ids: "i \<in> set ?is \<longleftrightarrow> (\<exists>r. map_of (su_records su) i = Some r \<and> sub_connection r = c)" for i
    using inv index_ok_mem [of sub_connection "su_records su"] by (simp add: subscriptions_inv_def)
  obtain su' removed where rem: "remove_ids ?is su = (su', removed)" by fastforce
  have "index_ok sub_connection (su_records su') (su_by_connection su')"
    using remove_ids_inv [OF inv, of ?is] rem by (simp add: subscriptions_inv_def)
  moreover have "sub_connection r \<noteq> c" if "map_of (su_records su') i = Some r" for i r
    using that remove_ids_records(1) [of ?is su i] rem ids [of i] by (auto split: if_splits)
  ultimately have "map_of (su_by_connection su') c = None" by (rule index_ok_absent)
  moreover have "sub_connection r = c" if "i \<in> set ?is" "map_of (su_records su) i = Some r" for i r
    using that ids [of i] by simp
  ultimately show ?thesis
    using remove_ids_cut_connection [of ?is su c] rem by (simp add: remove_connection_def cut_absent_connection)
qed

lemma remove_pane_ids:
  assumes inv: "subscriptions_inv su"
  shows "remove_pane_subscriptions p su = remove_ids (ix_get (su_by_pane su) p) su"
proof -
  let ?is = "ix_get (su_by_pane su) p"
  have ids: "i \<in> set ?is \<longleftrightarrow> (\<exists>r. map_of (su_records su) i = Some r \<and> sub_pane r = p)" for i
    using inv index_ok_mem [of sub_pane "su_records su"] by (simp add: subscriptions_inv_def)
  obtain su' removed where rem: "remove_ids ?is su = (su', removed)" by fastforce
  have "index_ok sub_pane (su_records su') (su_by_pane su')"
    using remove_ids_inv [OF inv, of ?is] rem by (simp add: subscriptions_inv_def)
  moreover have "sub_pane r \<noteq> p" if "map_of (su_records su') i = Some r" for i r
    using that remove_ids_records(1) [of ?is su i] rem ids [of i] by (auto split: if_splits)
  ultimately have "map_of (su_by_pane su') p = None" by (rule index_ok_absent)
  moreover have "sub_pane r = p" if "i \<in> set ?is" "map_of (su_records su) i = Some r" for i r
    using that ids [of i] by simp
  ultimately show ?thesis
    using remove_ids_cut_pane [of ?is su p] rem by (simp add: remove_pane_subscriptions_def cut_absent_pane)
qed

section \<open>Moving a pane\<close>

lemma move_records_look:
  "map_of (move_records current is recs) j =
     (if j \<in> set is then map_option (\<lambda>r. r\<lparr>sub_pane := current\<rparr>) (map_of recs j) else map_of recs j)"
  by (induction "is" arbitrary: recs) (auto split: option.splits)

lemma move_records_valid: "hm_valid recs \<Longrightarrow> hm_valid (move_records current is recs)"
  by (induction "is" arbitrary: recs) (auto simp: hm_valid_insert split: option.splits)

lemma set_fold_insert: "set (fold List.insert is xs) = set is \<union> set xs"
  by (induction "is" arbitrary: xs) auto

lemma distinct_fold_insert: "distinct xs \<Longrightarrow> distinct (fold List.insert is xs)"
  by (induction "is" arbitrary: xs) auto

lemma rekey_pane_inv:
  assumes inv: "subscriptions_inv su"
  shows "subscriptions_inv (fst (rekey_pane previous current su))"
proof (cases "previous = current \<or> map_of (su_by_pane su) previous = None")
  case True
  then show ?thesis using inv by (auto simp: rekey_pane_def split: option.splits)
next
  case False
  then obtain ids where ids: "map_of (su_by_pane su) previous = Some ids" "previous \<noteq> current" by auto
  let ?recs = "move_records current ids (su_records su)"
  let ?cut = "hm_remove previous (su_by_pane su)"
  let ?ix = "hm_insert current (fold List.insert ids (ix_get ?cut current)) ?cut"
  have pane: "index_ok sub_pane (su_records su) (su_by_pane su)" and connection: "index_ok sub_connection (su_records su) (su_by_connection su)"
    and recs: "records_ok (su_next_id su) (su_records su)"
    using inv by (simp_all add: subscriptions_inv_def)
  have at: "ix_get (su_by_pane su) previous = ids" using ids(1) by (simp add: ix_get_def)
  have known: "i \<in> set ids \<longleftrightarrow> (\<exists>r. map_of (su_records su) i = Some r \<and> sub_pane r = previous)" for i
    using index_ok_mem [OF pane, of i previous] at by simp
  have nonempty: "ids \<noteq> []" using pane ids(1) by (auto simp: index_ok_def)
  have look: "ix_get ?ix k = (if k = current then fold List.insert ids (ix_get (su_by_pane su) current)
      else if k = previous then [] else ix_get (su_by_pane su) k)" for k
    using ids(2) by (simp add: ix_get_def)
  have "i \<in> set (ix_get ?ix k) \<longleftrightarrow> (\<exists>r. map_of ?recs i = Some r \<and> sub_pane r = k)" for i k
    unfolding look move_records_look using pane known ids(2) by (auto simp: set_fold_insert index_ok_def)
  moreover have "vs \<noteq> [] \<and> distinct vs" if "map_of ?ix k = Some vs" for k vs
  proof (cases "k = current")
    case True
    then have vs: "vs = fold List.insert ids (ix_get (su_by_pane su) current)" using that ids(2) by simp
    then have "set vs \<noteq> {}" using nonempty by (simp add: set_fold_insert)
    then show ?thesis using vs distinct_fold_insert [OF index_ok_distinct [OF pane]] by auto
  next
    case False
    then show ?thesis using that pane by (auto simp: index_ok_def split: if_splits)
  qed
  ultimately have "index_ok sub_pane ?recs ?ix" unfolding index_ok_def by blast
  moreover have "index_ok sub_connection ?recs (su_by_connection su)"
    using connection by (subst index_ok_cong [of _ _ "su_records su"]) (auto simp: move_records_look)
  moreover have "records_ok (su_next_id su) ?recs"
    using recs by (auto simp: records_ok_def move_records_look move_records_valid split: if_splits)
  ultimately show ?thesis using ids by (simp add: rekey_pane_def subscriptions_inv_def Let_def)
qed

end
