(* ===== verification/Subscriptions_Spec.thy ===== *)
theory Subscriptions_Spec
  imports Subscriptions
begin

text \<open>
  What the registry of output subscriptions promises: the indexes agree with the records, the limits
  hold as long as no pane is moved onto a key in use, and closing a connection removes exactly its
  subscriptions.
\<close>

section \<open>Requests\<close>

datatype subscription_event =
    Subscribe u64 pane_key nat
  | Touch u64 nat
  | Unsubscribe u64
  | Close_Connection u64
  | Close_Pane pane_key
  | Rekey pane_key pane_key
  | Cleanup nat

fun subscription_step :: "subscription_event \<Rightarrow> subscriptions \<Rightarrow> subscriptions option" where
  "subscription_step (Subscribe c p now) su = map_option fst (subscribe c p now su)"
| "subscription_step (Touch i now) su = Some (fst (touch i now su))"
| "subscription_step (Unsubscribe i) su = Some (fst (unsubscribe i su))"
| "subscription_step (Close_Connection c) su = Some (fst (remove_connection c su))"
| "subscription_step (Close_Pane p) su = Some (fst (remove_pane_subscriptions p su))"
| "subscription_step (Rekey previous current) su = Some (fst (rekey_pane previous current su))"
| "subscription_step (Cleanup now) su = Some (fst (cleanup_stale now su))"

fun subscription_run :: "subscription_event list \<Rightarrow> subscriptions \<Rightarrow> subscriptions option" where
  "subscription_run [] su = Some su"
| "subscription_run (ev # evs) su = Option.bind (subscription_step ev su) (subscription_run evs)"

section \<open>Limits\<close>

definition connections_within :: "subscriptions \<Rightarrow> bool" where
  "connections_within su \<longleftrightarrow> (\<forall>c. length (ix_get (su_by_connection su) c) \<le> max_per_connection (su_limits su))"

definition panes_within :: "subscriptions \<Rightarrow> bool" where
  "panes_within su \<longleftrightarrow> (\<forall>p. length (ix_get (su_by_pane su) p) \<le> max_per_pane (su_limits su))"

lemma length_removeAll_le: "length (removeAll x xs) \<le> length xs"
  by (simp add: removeAll_filter_not_eq)

lemma remove_ids_shrinks:
  "length (ix_get (su_by_connection (fst (remove_ids is su))) c) \<le> length (ix_get (su_by_connection su) c)"
  "length (ix_get (su_by_pane (fst (remove_ids is su))) p) \<le> length (ix_get (su_by_pane su) p)"
  by (induction "is" su rule: remove_ids.induct)
    (auto simp: remove_indexes_def length_removeAll_le intro: order_trans split: option.splits prod.splits if_splits)

lemma remove_ids_limits:
  "connections_within su \<Longrightarrow> connections_within (fst (remove_ids is su))" "panes_within su \<Longrightarrow> panes_within (fst (remove_ids is su))"
  unfolding connections_within_def panes_within_def remove_ids_records(3) using remove_ids_shrinks order_trans by meson+

lemma unsubscribe_ids: "fst (unsubscribe i su) = fst (remove_ids [i] su)"
  by (simp add: unsubscribe_def split: option.splits)

section \<open>Subscribing and touching\<close>

text \<open>What a request keeps: the invariant, the limits it started with, and the counter but for one id.\<close>

definition request_ok :: "subscriptions \<Rightarrow> subscriptions \<Rightarrow> bool" where
  "request_ok su su' \<longleftrightarrow> subscriptions_inv su' \<and> (connections_within su \<longrightarrow> connections_within su')
     \<and> su_next_id su' \<le> Suc (su_next_id su) \<and> su_limits su' = su_limits su"

lemma remove_ids_ok:
  assumes "subscriptions_inv su"
  shows "request_ok su (fst (remove_ids is su))"
  using assms by (simp add: request_ok_def remove_ids_inv remove_ids_limits remove_ids_records)

lemma touch_ok:
  assumes inv: "subscriptions_inv su"
  shows "request_ok su (fst (touch i now su))" "panes_within su \<Longrightarrow> panes_within (fst (touch i now su))"
proof -
  define su1 where "su1 = fst (cleanup_stale now su)"
  have 1: "request_ok su su1" "panes_within su \<Longrightarrow> panes_within su1"
    using remove_ids_ok [OF inv] remove_ids_limits(2) by (simp_all add: su1_def cleanup_stale_def)
  then have inv1: "subscriptions_inv su1" by (simp add: request_ok_def)
  have "subscriptions_inv (fst (touch i now su)) \<and> su_by_connection (fst (touch i now su)) = su_by_connection su1
    \<and> su_by_pane (fst (touch i now su)) = su_by_pane su1 \<and> su_next_id (fst (touch i now su)) = su_next_id su1
    \<and> su_limits (fst (touch i now su)) = su_limits su1"
  proof (cases "map_of (su_records su1) i")
    case None
    then show ?thesis using inv1 by (simp add: touch_def flip: su1_def)
  next
    case (Some r)
    let ?recs = "hm_insert i (r\<lparr>sub_last_seen := now\<rparr>) (su_records su1)"
    have "index_ok sub_connection ?recs (su_by_connection su1)" "index_ok sub_pane ?recs (su_by_pane su1)"
      using inv1 Some by (simp_all add: subscriptions_inv_def index_ok_update)
    moreover have "records_ok (su_next_id su1) ?recs"
      using inv1 Some by (auto simp: subscriptions_inv_def records_ok_def hm_valid_insert)
    ultimately show ?thesis using Some by (simp add: touch_def subscriptions_inv_def Let_def flip: su1_def)
  qed
  then show "request_ok su (fst (touch i now su))" "panes_within su \<Longrightarrow> panes_within (fst (touch i now su))"
    using 1 by (auto simp: request_ok_def connections_within_def panes_within_def)
qed

lemma subscribe_ok:
  assumes inv: "subscriptions_inv su" and room: "su_next_id su < u64_max"
  shows "\<exists>su' res. subscribe c p now su = Some (su', res) \<and> request_ok su su' \<and> (panes_within su \<longrightarrow> panes_within su')"
proof -
  define su1 where "su1 = fst (cleanup_stale now su)"
  have 1: "request_ok su su1" "panes_within su \<Longrightarrow> panes_within su1" "su_next_id su1 = su_next_id su"
    using remove_ids_ok [OF inv] remove_ids_limits(2) by (simp_all add: su1_def cleanup_stale_def remove_ids_records)
  then have inv1: "subscriptions_inv su1" and limits: "su_limits su1 = su_limits su" by (simp_all add: request_ok_def)
  show ?thesis
  proof (cases "length (ix_get (su_by_connection su1) c) \<ge> max_per_connection (su_limits su1)
      \<or> length (ix_get (su_by_pane su1) p) \<ge> max_per_pane (su_limits su1)")
    case True
    then show ?thesis using 1 by (auto simp: subscribe_def Let_def simp flip: su1_def)
  next
    case False
    let ?i = "su_next_id su1"
    let ?r = "\<lparr>sub_id = ?i, sub_connection = c, sub_pane = p, sub_created_at = now, sub_last_seen = now\<rparr>"
    let ?su = "su1\<lparr>su_next_id := ?i + 1, su_records := hm_insert ?i ?r (su_records su1),
      su_by_connection := ix_insert c ?i (su_by_connection su1), su_by_pane := ix_insert p ?i (su_by_pane su1)\<rparr>"
    have fresh: "map_of (su_records su1) ?i = None"
      using inv1 by (cases "map_of (su_records su1) ?i") (auto simp: subscriptions_inv_def records_ok_def)
    have "records_ok (Suc ?i) (hm_insert ?i ?r (su_records su1))"
      using inv1 by (auto simp: subscriptions_inv_def records_ok_def hm_valid_insert intro: less_SucI)
    then have "subscriptions_inv ?su"
      using inv1 index_ok_insert [OF _ fresh, of sub_connection] index_ok_insert [OF _ fresh, of sub_pane]
      by (simp add: subscriptions_inv_def)
    moreover have "connections_within su1 \<longrightarrow> connections_within ?su" "panes_within su1 \<longrightarrow> panes_within ?su"
      using False by (auto simp: connections_within_def panes_within_def List.insert_def)
    moreover have "subscribe c p now su = Some (?su, Inr ?r)"
      using False 1(3) room by (simp add: subscribe_def allocate_id_def Let_def flip: su1_def)
    ultimately show ?thesis using 1 limits by (simp add: request_ok_def)
  qed
qed

section \<open>Moving a pane\<close>

lemma rekey_keeps: "su_next_id (fst (rekey_pane a b su)) = su_next_id su" "su_limits (fst (rekey_pane a b su)) = su_limits su"
  "su_by_connection (fst (rekey_pane a b su)) = su_by_connection su"
  by (auto simp: rekey_pane_def Let_def split: option.splits)

lemma rekey_ok: "subscriptions_inv su \<Longrightarrow> request_ok su (fst (rekey_pane previous current su))"
  using rekey_pane_inv [of su previous current] by (simp add: request_ok_def rekey_keeps connections_within_def)

text \<open>The subscriptions of the old key join those that the new key already has.\<close>

lemma rekey_counts:
  assumes inv: "subscriptions_inv su" and ne: "previous \<noteq> current"
  shows "length (ix_get (su_by_pane (fst (rekey_pane previous current su))) p) =
    (if p = current then length (ix_get (su_by_pane su) previous) + length (ix_get (su_by_pane su) current)
     else if p = previous then 0 else length (ix_get (su_by_pane su) p))"
proof (cases "map_of (su_by_pane su) previous")
  case None
  then show ?thesis using ne by (simp add: rekey_pane_def ix_get_def)
next
  case (Some ids)
  then have at: "ix_get (su_by_pane su) previous = ids" by (simp add: ix_get_def)
  let ?cur = "ix_get (su_by_pane su) current"
  have ok: "index_ok sub_pane (su_records su) (su_by_pane su)" using inv by (simp add: subscriptions_inv_def)
  have distinct: "distinct ids" "distinct ?cur" using index_ok_distinct [OF ok, of previous] index_ok_distinct [OF ok, of current] at by simp_all
  have "False" if "i \<in> set ids" "i \<in> set ?cur" for i
    using that index_ok_mem [OF ok, of i previous] index_ok_mem [OF ok, of i current] at ne by auto
  then have disjoint: "set ids \<inter> set ?cur = {}" by blast
  let ?all = "fold List.insert ids ?cur"
  have "length ?all = card (set ?all)" using distinct_card [of ?all] distinct_fold_insert [of ?cur ids] distinct(2) by simp
  also have "\<dots> = card (set ids) + card (set ?cur)"
    unfolding set_fold_insert using disjoint by (simp add: card_Un_disjoint)
  also have "\<dots> = length ids + length ?cur" using distinct by (simp add: distinct_card)
  finally have "length ?all = length ids + length ?cur" .
  then show ?thesis using Some at ne by (auto simp: rekey_pane_def Let_def ix_get_def)
qed

text \<open>A request merges panes if it moves a pane onto a key that already has subscriptions.\<close>

fun merges :: "subscription_event \<Rightarrow> subscriptions \<Rightarrow> bool" where
  "merges (Rekey previous current) su \<longleftrightarrow> previous \<noteq> current \<and> ix_get (su_by_pane su) current \<noteq> []"
| "merges ev su \<longleftrightarrow> False"

fun merge_free :: "subscription_event list \<Rightarrow> subscriptions \<Rightarrow> bool" where
  "merge_free [] su \<longleftrightarrow> True"
| "merge_free (ev # evs) su \<longleftrightarrow>
     \<not> merges ev su \<and> (case subscription_step ev su of None \<Rightarrow> True | Some su' \<Rightarrow> merge_free evs su')"

lemma rekey_panes_within:
  assumes "subscriptions_inv su" "panes_within su" "\<not> merges (Rekey previous current) su"
  shows "panes_within (fst (rekey_pane previous current su))"
proof (cases "previous = current")
  case True
  then show ?thesis using assms(2) by (simp add: rekey_pane_def)
next
  case False
  then show ?thesis using rekey_counts [OF assms(1) False] assms(2,3) by (simp add: panes_within_def rekey_keeps)
qed

lemma subscription_step_ok:
  assumes inv: "subscriptions_inv su" and room: "su_next_id su < u64_max"
  shows "\<exists>su'. subscription_step ev su = Some su' \<and> request_ok su su' \<and> (panes_within su \<and> \<not> merges ev su \<longrightarrow> panes_within su')"
proof -
  have removal: ?thesis if "subscription_step ev su = Some (fst (remove_ids is su))" for "is"
    using that remove_ids_ok [OF inv] remove_ids_limits(2) by simp
  show ?thesis
  proof (cases ev)
    case (Subscribe c p now)
    then show ?thesis using subscribe_ok [OF inv room, of c p now] by auto
  next
    case (Touch i now)
    then show ?thesis using touch_ok [OF inv, of i now] by simp
  next
    case (Rekey previous current)
    then show ?thesis using rekey_ok [OF inv] rekey_panes_within [OF inv] by auto
  next
    case (Unsubscribe i)
    then show ?thesis by (intro removal [of "[i]"]) (simp add: unsubscribe_ids del: remove_ids.simps)
  next
    case (Close_Connection c)
    then show ?thesis by (intro removal [of "ix_get (su_by_connection su) c"]) (simp add: remove_connection_ids [OF inv])
  next
    case (Close_Pane p)
    then show ?thesis by (intro removal [of "ix_get (su_by_pane su) p"]) (simp add: remove_pane_ids [OF inv])
  next
    case (Cleanup now)
    then show ?thesis by (intro removal) (simp add: cleanup_stale_def)
  qed
qed

lemma subscription_run_ok:
  "subscriptions_inv su \<Longrightarrow> connections_within su \<Longrightarrow> su_next_id su + length evs \<le> u64_max \<Longrightarrow>
     \<exists>su'. subscription_run evs su = Some su' \<and> subscriptions_inv su' \<and> connections_within su' \<and> su_limits su' = su_limits su
       \<and> (panes_within su \<and> merge_free evs su \<longrightarrow> panes_within su')"
proof (induction evs arbitrary: su)
  case (Cons ev evs)
  then obtain su1 where "subscription_step ev su = Some su1" "request_ok su su1" "panes_within su \<and> \<not> merges ev su \<longrightarrow> panes_within su1"
    using subscription_step_ok [of su ev] by auto
  then show ?case using Cons.IH [of su1] Cons.prems by (auto simp: request_ok_def)
qed simp

section \<open>Properties\<close>

lemma index_card:
  assumes "index_ok key recs ix"
  shows "card {i. \<exists>r. map_of recs i = Some r \<and> key r = k} = length (ix_get ix k)"
proof -
  have "{i. \<exists>r. map_of recs i = Some r \<and> key r = k} = set (ix_get ix k)" using index_ok_mem [OF assms] by auto
  then show ?thesis using distinct_card [OF index_ok_distinct [OF assms]] by simp
qed

lemma remove_connection_spec:
  assumes inv: "subscriptions_inv su" and rem: "remove_connection c su = (su', removed)"
  shows "map_of (su_records su') i =
      (case map_of (su_records su) i of None \<Rightarrow> None | Some r \<Rightarrow> if sub_connection r = c then None else Some r)"
    and "set removed = {r. \<exists>i. map_of (su_records su) i = Some r \<and> sub_connection r = c}"
    and "subscriptions_inv su'"
proof -
  let ?is = "ix_get (su_by_connection su) c"
  have con: "index_ok sub_connection (su_records su) (su_by_connection su)" using inv by (simp add: subscriptions_inv_def)
  note mem = index_ok_mem [OF con]
  have ids: "remove_ids ?is su = (su', removed)" using rem remove_connection_ids [OF inv] by simp
  show "map_of (su_records su') i =
      (case map_of (su_records su) i of None \<Rightarrow> None | Some r \<Rightarrow> if sub_connection r = c then None else Some r)"
    using remove_ids_records(1) [of ?is su i] ids by (auto simp: mem split: option.splits)
  have "set removed = {r. \<exists>i \<in> set ?is. map_of (su_records su) i = Some r}"
    using remove_ids_returns [OF index_ok_distinct [OF con, of c], of su] ids by simp
  also have "\<dots> = {r. \<exists>i. map_of (su_records su) i = Some r \<and> sub_connection r = c}"
    by (simp add: Bex_def mem) auto
  finally show "set removed = {r. \<exists>i. map_of (su_records su) i = Some r \<and> sub_connection r = c}" .
  show "subscriptions_inv su'" using remove_ids_inv [OF inv, of ?is] ids by simp
qed

text \<open>
  C26: after any sequence of requests to a new registry (short of exhausting the 64-bit ids) no request has
  panicked, no connection has more subscriptions than its limit, and closing a connection removes exactly
  its subscriptions, returns exactly them and leaves every other subscription and the indexes intact. The
  limit of a pane holds if no request has moved a pane onto a key that had subscriptions. Such a move is not
  checked against the limit: it adds the subscriptions of the old key to those of the new one.
\<close>

theorem subscription_registry_spec:
  assumes "length evs < u64_max"
  shows "\<exists>su. subscription_run evs (new_subscriptions limits) = Some su
    \<and> (\<forall>c. card {i. \<exists>r. map_of (su_records su) i = Some r \<and> sub_connection r = c} \<le> max_per_connection limits)
    \<and> (merge_free evs (new_subscriptions limits) \<longrightarrow>
         (\<forall>p. card {i. \<exists>r. map_of (su_records su) i = Some r \<and> sub_pane r = p} \<le> max_per_pane limits))
    \<and> (\<forall>previous current. previous \<noteq> current \<longrightarrow>
         card {i. \<exists>r. map_of (su_records (fst (rekey_pane previous current su))) i = Some r \<and> sub_pane r = current}
           = card {i. \<exists>r. map_of (su_records su) i = Some r \<and> sub_pane r = previous}
             + card {i. \<exists>r. map_of (su_records su) i = Some r \<and> sub_pane r = current})
    \<and> (\<forall>c su' removed. remove_connection c su = (su', removed) \<longrightarrow>
          (\<forall>i. map_of (su_records su') i =
             (case map_of (su_records su) i of None \<Rightarrow> None | Some r \<Rightarrow> if sub_connection r = c then None else Some r))
          \<and> set removed = {r. \<exists>i. map_of (su_records su) i = Some r \<and> sub_connection r = c}
          \<and> subscriptions_inv su')"
proof -
  let ?su0 = "new_subscriptions limits"
  have "connections_within ?su0" "panes_within ?su0"
    by (simp_all add: connections_within_def panes_within_def new_subscriptions_def ix_get_def)
  then obtain su where run: "subscription_run evs ?su0 = Some su" and inv: "subscriptions_inv su" and con: "connections_within su"
    and limits: "su_limits su = limits" and pane: "merge_free evs ?su0 \<longrightarrow> panes_within su"
    using subscription_run_ok [OF subscriptions_inv_new, of limits evs] assms by (auto simp: new_subscriptions_def)
  have index: "index_ok sub_connection (su_records su) (su_by_connection su)" "index_ok sub_pane (su_records su) (su_by_pane su)"
    "index_ok sub_pane (su_records (fst (rekey_pane p q su))) (su_by_pane (fst (rekey_pane p q su)))" for p q
    using inv rekey_pane_inv [OF inv, of p q] by (simp_all add: subscriptions_inv_def)
  show ?thesis
    using run con pane limits index_card [OF index(1)] index_card [OF index(2)] index_card [OF index(3)] rekey_counts [OF inv]
      remove_connection_spec [OF inv]
    by (intro exI [of _ su]) (simp add: connections_within_def panes_within_def)
qed

text \<open>With a limit of one subscription for a pane, moving a pane onto another one gives a pane with two.\<close>

theorem subscription_registry_spec_witness:
  "\<exists>su. subscription_run [Subscribe 1 \<lparr>k_session = ''a'', k_pane = 0\<rparr> 5, Subscribe 2 \<lparr>k_session = ''b'', k_pane = 0\<rparr> 6]
       (new_subscriptions (default_limits\<lparr>max_per_pane := 1\<rparr>)) = Some su
     \<and> (\<forall>p. card {i. \<exists>r. map_of (su_records su) i = Some r \<and> sub_pane r = p} \<le> 1)
     \<and> card {i. \<exists>r. map_of (su_records (fst (rekey_pane \<lparr>k_session = ''a'', k_pane = 0\<rparr> \<lparr>k_session = ''b'', k_pane = 0\<rparr> su))) i
         = Some r \<and> sub_pane r = \<lparr>k_session = ''b'', k_pane = 0\<rparr>} = 2"
proof -
  let ?a = "\<lparr>k_session = ''a'', k_pane = 0\<rparr>" and ?b = "\<lparr>k_session = ''b'', k_pane = 0\<rparr>"
  let ?evs = "[Subscribe 1 ?a 5, Subscribe 2 ?b 6]" and ?l = "default_limits\<lparr>max_per_pane := 1\<rparr>"
  have "length ?evs < u64_max" by (simp add: u64_max_def)
  from subscription_registry_spec [OF this, of ?l]
  obtain su where su: "subscription_run ?evs (new_subscriptions ?l) = Some su"
    "merge_free ?evs (new_subscriptions ?l) \<longrightarrow>
       (\<forall>p. card {i. \<exists>r. map_of (su_records su) i = Some r \<and> sub_pane r = p} \<le> max_per_pane ?l)"
    "card {i. \<exists>r. map_of (su_records (fst (rekey_pane ?a ?b su))) i = Some r \<and> sub_pane r = ?b}
       = card {i. \<exists>r. map_of (su_records su) i = Some r \<and> sub_pane r = ?a} + card {i. \<exists>r. map_of (su_records su) i = Some r \<and> sub_pane r = ?b}"
    by auto
  have run: "subscription_run ?evs (new_subscriptions ?l) = Some \<lparr>su_limits = ?l, su_next_id = 3,
      su_records = [(1, \<lparr>sub_id = 1, sub_connection = 1, sub_pane = ?a, sub_created_at = 5, sub_last_seen = 5\<rparr>),
        (2, \<lparr>sub_id = 2, sub_connection = 2, sub_pane = ?b, sub_created_at = 6, sub_last_seen = 6\<rparr>)],
      su_by_connection = [(1, [1]), (2, [2])], su_by_pane = [(?a, [1]), (?b, [2])]\<rparr>"
    by (simp add: new_subscriptions_def default_limits_def subscribe_def cleanup_stale_def allocate_id_def u64_max_def ix_get_def
        ix_insert_def hm_insert_def Let_def)
  have "{i. \<exists>r. map_of (su_records su) i = Some r \<and> sub_pane r = ?a} = {1}" "{i. \<exists>r. map_of (su_records su) i = Some r \<and> sub_pane r = ?b} = {2}"
    using su(1) run by (auto split: if_splits)
  moreover have "merge_free ?evs (new_subscriptions ?l)" using run by (simp split: option.splits)
  ultimately show ?thesis using su by (intro exI [of _ su]) simp
qed

end
