(* ===== verification/Sdk_Waits.thy ===== *)
theory Sdk_Waits
  imports Index_Map
begin

text \<open>
  The registry of waits that clients of the SDK have open (\<open>events/wait.rs\<close>): ids per owner, records
  by owner and id, and an index by connection for the cleanup when a connection closes.
\<close>

section \<open>Model\<close>

type_synonym wait_key = "u64 \<times> u64"

record wait_record =
  w_key :: wait_key
  w_connection :: u64

record wait_registry =
  wr_next_id_by_owner :: "(u64 \<times> u64) list"
  wr_records :: "(wait_key \<times> wait_record) list"
  wr_by_connection :: "(u64 \<times> wait_key list) list"

definition new_waits :: wait_registry where
  "new_waits = \<lparr>wr_next_id_by_owner = [], wr_records = [], wr_by_connection = []\<rparr>"

definition next_wait_id :: "u64 \<Rightarrow> wait_registry \<Rightarrow> u64" where
  "next_wait_id owner wr = (case map_of (wr_next_id_by_owner wr) owner of None \<Rightarrow> 1 | Some n \<Rightarrow> n)"

definition allocate_wait_id :: "u64 \<Rightarrow> wait_registry \<Rightarrow> (wait_registry \<times> u64) option" where
  "allocate_wait_id owner wr =
     (let n = next_wait_id owner wr
      in if n < u64_max then Some (wr\<lparr>wr_next_id_by_owner := hm_insert owner (n + 1) (wr_next_id_by_owner wr)\<rparr>, n) else None)"

definition register_wait :: "u64 \<Rightarrow> u64 \<Rightarrow> u64 \<Rightarrow> wait_registry \<Rightarrow> wait_registry \<times> bool" where
  "register_wait connection owner wait wr =
     (let key = (owner, wait)
      in if map_of (wr_records wr) key \<noteq> None then (wr, False)
         else (wr\<lparr>wr_records := hm_insert key \<lparr>w_key = key, w_connection = connection\<rparr> (wr_records wr),
                 wr_by_connection := ix_insert connection key (wr_by_connection wr)\<rparr>, True))"

definition remove_wait_key :: "wait_key \<Rightarrow> wait_registry \<Rightarrow> wait_registry \<times> wait_record option" where
  "remove_wait_key key wr =
     (case map_of (wr_records wr) key of
        None \<Rightarrow> (wr, None)
      | Some r \<Rightarrow>
          (wr\<lparr>wr_records := hm_remove key (wr_records wr),
             wr_by_connection := ix_remove (w_connection r) key (wr_by_connection wr)\<rparr>, Some r))"

definition remove_wait :: "u64 \<Rightarrow> u64 \<Rightarrow> wait_registry \<Rightarrow> wait_registry \<times> wait_record option" where
  "remove_wait owner wait wr = remove_wait_key (owner, wait) wr"

definition remove_wait_connection :: "u64 \<Rightarrow> wait_registry \<Rightarrow> wait_registry \<times> wait_record list" where
  "remove_wait_connection connection wr =
     (let keys = ix_get (wr_by_connection wr) connection
      in (wr\<lparr>wr_by_connection := hm_remove connection (wr_by_connection wr), wr_records := fold hm_remove keys (wr_records wr)\<rparr>,
          List.map_filter (map_of (wr_records wr)) keys))"

definition get_wait :: "u64 \<Rightarrow> u64 \<Rightarrow> wait_registry \<Rightarrow> wait_record option" where
  "get_wait owner wait wr = map_of (wr_records wr) (owner, wait)"

section \<open>The invariant\<close>

definition waits_inv :: "wait_registry \<Rightarrow> bool" where
  "waits_inv wr \<longleftrightarrow> hm_valid (wr_records wr) \<and> index_ok w_connection (wr_records wr) (wr_by_connection wr)"

lemma waits_inv_new: "waits_inv new_waits"
  by (simp add: waits_inv_def new_waits_def index_ok_empty hm_valid_def)

lemma allocate_wait_inv: "waits_inv wr \<Longrightarrow> allocate_wait_id owner wr = Some (wr', i) \<Longrightarrow> waits_inv wr'"
  by (auto simp: waits_inv_def allocate_wait_id_def Let_def split: if_splits)

lemma register_wait_inv: "waits_inv wr \<Longrightarrow> waits_inv (fst (register_wait connection owner wait wr))"
  by (auto simp: waits_inv_def register_wait_def Let_def hm_valid_insert intro!: index_ok_insert)

lemma remove_wait_inv: "waits_inv wr \<Longrightarrow> waits_inv (fst (remove_wait owner wait wr))"
  by (auto simp: waits_inv_def remove_wait_def remove_wait_key_def hm_valid_remove intro!: index_ok_remove split: option.splits)

text \<open>Ids are never given out twice to an owner.\<close>

lemma allocate_wait_fresh:
  "allocate_wait_id owner wr = Some (wr', i) \<Longrightarrow>
     i = next_wait_id owner wr \<and> next_wait_id owner wr' = Suc i \<and> (\<forall>o'. o' \<noteq> owner \<longrightarrow> next_wait_id o' wr' = next_wait_id o' wr)"
  by (auto simp: allocate_wait_id_def next_wait_id_def Let_def split: if_splits)

lemma remove_wait_connection_spec:
  assumes inv: "waits_inv wr" and rem: "remove_wait_connection connection wr = (wr', removed)"
  shows "map_of (wr_records wr') key =
      (case map_of (wr_records wr) key of None \<Rightarrow> None | Some r \<Rightarrow> if w_connection r = connection then None else Some r)"
    and "set removed = {r. \<exists>key. map_of (wr_records wr) key = Some r \<and> w_connection r = connection}"
    and "waits_inv wr'"
proof -
  let ?keys = "ix_get (wr_by_connection wr) connection"
  have valid: "hm_valid (wr_records wr)" and ix: "index_ok w_connection (wr_records wr) (wr_by_connection wr)"
    using inv by (simp_all add: waits_inv_def)
  note mem = index_ok_mem [OF ix]
  have recs: "map_of (wr_records wr') k = (if k \<in> set ?keys then None else map_of (wr_records wr) k)" for k
    using rem hmap.look_cuts [OF valid, of ?keys k] by (auto simp: remove_wait_connection_def Let_def)
  show *: "map_of (wr_records wr') key =
      (case map_of (wr_records wr) key of None \<Rightarrow> None | Some r \<Rightarrow> if w_connection r = connection then None else Some r)" for key
    by (auto simp: recs mem split: option.splits)
  have "set removed = {r. \<exists>key \<in> set ?keys. map_of (wr_records wr) key = Some r}"
    using rem by (auto simp: remove_wait_connection_def Let_def set_map_filter)
  also have "\<dots> = {r. \<exists>key. map_of (wr_records wr) key = Some r \<and> w_connection r = connection}"
    by (simp add: Bex_def mem) auto
  finally show "set removed = {r. \<exists>key. map_of (wr_records wr) key = Some r \<and> w_connection r = connection}" .
  have "wr_by_connection wr' = hm_remove connection (wr_by_connection wr)"
    using rem by (auto simp: remove_wait_connection_def Let_def)
  moreover have "i \<in> set (ix_get (hm_remove connection (wr_by_connection wr)) k) \<longleftrightarrow> (\<exists>r. map_of (wr_records wr') i = Some r \<and> w_connection r = k)" for i k
    by (auto simp: * mem split: option.splits)
  moreover have "vs \<noteq> [] \<and> distinct vs" if "map_of (hm_remove connection (wr_by_connection wr)) k = Some vs" for k vs
    using that ix by (simp add: index_ok_def split: if_splits)
  ultimately have "index_ok w_connection (wr_records wr') (wr_by_connection wr')" by (simp add: index_ok_def)
  moreover have "hm_valid (wr_records wr')"
    using rem hmap.valid_cuts [OF valid] by (auto simp: remove_wait_connection_def Let_def)
  ultimately show "waits_inv wr'" by (simp add: waits_inv_def)
qed

end
