(* ===== verification/Varint.thy ===== *)
theory Varint
  imports Rmux_Text "HOL-Library.Sublist"
begin

unbundle bit_operations_syntax

text \<open>
  The envelope of detached frames (\<open>rmux-proto/src/envelope.rs\<close>): the magic byte, the wire version
  and its variable-length encoding, on bytes and words of their width.
\<close>

section \<open>Model\<close>

type_synonym u8 = "8 word"

definition RMUX_FRAME_MAGIC :: u8 where
  "RMUX_FRAME_MAGIC = 0x52"

definition RMUX_WIRE_VERSION :: "32 word" where
  "RMUX_WIRE_VERSION = 8"

lemma drop_bit_less:
  assumes "drop_bit 7 v \<noteq> (0 :: 32 word)"
  shows "unat (drop_bit 7 v) < unat v"
proof -
  have "unat (drop_bit 7 v) = unat v div 128" by (simp add: unat_drop_bit_eq) (simp add: drop_bit_eq_div)
  moreover have "v \<noteq> 0" using assms by auto
  then have "0 < unat v" by (simp add: unat_gt_0)
  ultimately show ?thesis by simp
qed

function encode_varint_u32 :: "32 word \<Rightarrow> u8 list" where
  "encode_varint_u32 v =
     (let byte = ucast (v AND 0x7f) :: u8; v' = drop_bit 7 v
      in if v' \<noteq> 0 then (byte OR 0x80) # encode_varint_u32 v' else [byte])"
  by pat_completeness auto
termination
  by (relation "measure unat") (auto simp: drop_bit_less)

declare encode_varint_u32.simps [simp del]

text \<open>The loop of \<open>decode_varint_u32\<close> at \<open>index\<close>, and what follows it; \<open>all\<close> is the whole input.\<close>

fun decode_varint_loop :: "u8 list \<Rightarrow> usize \<Rightarrow> 32 word \<Rightarrow> u8 list \<Rightarrow> ((32 word \<times> usize) option) result" where
  "decode_varint_loop all index v bs =
     (if index < 5 \<and> bs \<noteq> [] then
        (let byte = hd bs; payload = byte AND 0x7f
         in if index = 4 \<and> payload > 0x0f then Inl (Decode ''wire-version varint overflows u32'')
            else let v' = v OR push_bit (7 * index) (ucast payload)
                 in if byte AND 0x80 = 0 then
                      (if index > 0 \<and> payload = 0 then Inl (Decode ''wire-version varint is not minimally encoded'')
                       else Inr (Some (v', index + 1)))
                    else decode_varint_loop all (index + 1) v' (tl bs))
      else if length all < 5 then Inr None
      else Inl (Decode ''wire-version varint exceeds u32 length''))"

declare decode_varint_loop.simps [simp del]

definition decode_varint_u32 :: "u8 list \<Rightarrow> ((32 word \<times> usize) option) result" where
  "decode_varint_u32 bytes = decode_varint_loop bytes 0 0 bytes"

section \<open>Round trip\<close>

lemma payload_eq: "(ucast (v AND 0x7f) :: u8) = ucast (take_bit 7 v)" for v :: "32 word"
proof -
  have "(0x7f :: 32 word) = mask 7" by (simp add: mask_eq_exp_minus_1)
  then show ?thesis by (simp add: take_bit_eq_mask)
qed

lemma mask_byte: "(b :: u8) AND 0x7f = take_bit 7 b" "(b :: u8) AND 0x80 = 0 \<longleftrightarrow> \<not> bit b 7"
proof -
  show "b AND 0x7f = take_bit 7 b" by (simp add: take_bit_eq_mask mask_eq_exp_minus_1)
  show "b AND 0x80 = 0 \<longleftrightarrow> \<not> bit b 7" using and_exp_eq_0_iff_not_bit [of b 7] by simp
qed

lemma payload_bits:
  fixes v :: "32 word"
  shows "take_bit 7 (ucast (take_bit 7 v) :: u8) = ucast (take_bit 7 v)" "\<not> bit (ucast (take_bit 7 v) :: u8) 7"
    "take_bit 7 ((ucast (take_bit 7 v) :: u8) OR 0x80) = ucast (take_bit 7 v)" "bit ((ucast (take_bit 7 v) :: u8) OR 0x80) 7"
    "(ucast (ucast (take_bit 7 v) :: u8) :: 32 word) = take_bit 7 v"
proof -
  have *: "(0x80 :: u8) = push_bit 7 1" by simp
  show "take_bit 7 (ucast (take_bit 7 v) :: u8) = ucast (take_bit 7 v)" by (rule bit_word_eqI) (auto simp: bit_simps)
  show "\<not> bit (ucast (take_bit 7 v) :: u8) 7" by (auto simp: bit_simps)
  show "take_bit 7 ((ucast (take_bit 7 v) :: u8) OR 0x80) = ucast (take_bit 7 v)"
    unfolding * by (rule bit_word_eqI) (auto simp: bit_simps)
  show "bit ((ucast (take_bit 7 v) :: u8) OR 0x80) 7" unfolding * by (auto simp: bit_simps)
  show "(ucast (ucast (take_bit 7 v) :: u8) :: 32 word) = take_bit 7 v" by (rule bit_word_eqI) (auto simp: bit_simps)
qed

lemma or_split: "(acc OR push_bit n (take_bit 7 v)) OR push_bit (7 + n) (drop_bit 7 v) = acc OR push_bit n v" for v :: "32 word"
proof (rule bit_word_eqI)
  fix m assume "m < LENGTH(32)"
  moreover have "7 + (m - (7 + n)) = m - n" if "\<not> m - n < 7" using that by linarith
  ultimately show "bit ((acc OR push_bit n (take_bit 7 v)) OR push_bit (7 + n) (drop_bit 7 v)) m = bit (acc OR push_bit n v) m"
    by (cases "n \<le> m"; cases "m - n < 7") (auto simp: bit_simps)
qed

lemma power_step: "i < 4 \<Longrightarrow> (2::nat) ^ (32 - 7 * i) = 128 * 2 ^ (32 - 7 * Suc i)"
proof -
  assume "i < 4"
  then have "32 - 7 * i = 7 + (32 - 7 * Suc i)" by presburger
  then show ?thesis by (simp only: power_add) simp
qed

lemma drop_bit_nat: "unat (drop_bit 7 v) = unat v div 128" for v :: "32 word"
  by (simp add: unat_drop_bit_eq) (simp add: drop_bit_eq_div)

text \<open>At index \<open>i\<close> the rest of the value fits the bits that are left.\<close>

lemma decode_encode_loop:
  assumes "unat v < 2 ^ (32 - 7 * i)" "i < 5" "i = 0 \<or> v \<noteq> 0"
  shows "decode_varint_loop all i acc (encode_varint_u32 v @ rest)
    = Inr (Some (acc OR push_bit (7 * i) v, i + length (encode_varint_u32 v)))"
  using assms
proof (induction v arbitrary: i acc rule: encode_varint_u32.induct)
  case (1 v)
  have small: "\<not> (i = 4 \<and> ucast (take_bit 7 v) > (0x0f :: u8))"
  proof
    assume *: "i = 4 \<and> ucast (take_bit 7 v) > (0x0f :: u8)"
    then have "unat v < 16" using "1.prems"(1) by simp
    moreover have "unat (ucast (take_bit 7 v) :: u8) = unat (take_bit 7 v)"
      by (simp add: unsigned_ucast_eq unsigned_take_bit_eq)
    ultimately show False using * take_bit_nat_less_eq_self [of 7 "unat v"]
      by (simp add: word_less_nat_alt unsigned_take_bit_eq)
  qed
  show ?case
  proof (cases "drop_bit 7 v = 0")
    case True
    then have v: "take_bit 7 v = v" using take_bit_eq_self_iff_drop_bit_eq_0 by blast
    have "i = 0 \<or> ucast (take_bit 7 v) \<noteq> (0 :: u8)"
      using "1.prems"(3) v payload_bits(5) [of v] by auto
    then show ?thesis using True small "1.prems"(2) v payload_bits [of v]
      by (simp add: encode_varint_u32.simps [of v] decode_varint_loop.simps [of all i] Let_def mask_byte payload_eq)
  next
    case False
    note len = drop_bit_nat [of v]
    have i4: "i < 4"
    proof (rule ccontr)
      assume "\<not> i < 4"
      then have "unat v < 16" using "1.prems"(1,2) by (cases "i = 4") auto
      then have "unat (drop_bit 7 v) = 0" using len by simp
      then show False using False by (simp add: unat_eq_0)
    qed
    then have "unat (drop_bit 7 v) < 2 ^ (32 - 7 * Suc i)"
      using "1.prems"(1) len power_step [of i] by (simp add: less_mult_imp_div_less mult.commute)
    then have "decode_varint_loop all (Suc i) (acc OR push_bit (7 * i) (take_bit 7 v)) (encode_varint_u32 (drop_bit 7 v) @ rest)
        = Inr (Some (acc OR push_bit (7 * i) v, Suc i + length (encode_varint_u32 (drop_bit 7 v))))"
      using "1.IH" [OF refl refl False, of "Suc i" "acc OR push_bit (7 * i) (take_bit 7 v)"] i4 False or_split [of acc "7 * i" v]
      by simp
    then show ?thesis using False small i4 payload_bits [of v]
      by (simp add: encode_varint_u32.simps [of v] decode_varint_loop.simps [of all i] Let_def mask_byte payload_eq)
  qed
qed

lemma decode_encode_varint: "decode_varint_u32 (encode_varint_u32 v @ rest) = Inr (Some (v, length (encode_varint_u32 v)))"
  unfolding decode_varint_u32_def
  using decode_encode_loop [of v 0 "encode_varint_u32 v @ rest" 0 rest] unsigned_less [of v, where 'a = nat] by simp

text \<open>Conversely, the decoder accepts only what the encoder writes.\<close>

lemma split_word:
  fixes p :: u8 and w :: "32 word"
  assumes "unat w < 2 ^ 25"
  defines "v \<equiv> ucast (take_bit 7 p) OR push_bit 7 w"
  shows "take_bit 7 v = ucast (take_bit 7 p)" "drop_bit 7 v = w"
proof -
  have high: "m < 25" if "bit w m" for m
  proof -
    have "unat (take_bit 25 w) = unat w" using assms(1) by (simp add: unsigned_take_bit_eq take_bit_nat_eq_self)
    then have "take_bit 25 w = w" by (simp add: word_unat_eq_iff)
    then show ?thesis using that by (metis bit_take_bit_iff)
  qed
  show "take_bit 7 v = ucast (take_bit 7 p)" unfolding v_def by (rule bit_word_eqI) (auto simp: bit_simps)
  show "drop_bit 7 v = w" unfolding v_def
    by (rule bit_word_eqI) (use high in \<open>auto simp: bit_simps\<close>)
qed

lemma bit_0x80: "bit (0x80 :: u8) m \<longleftrightarrow> m = 7"
proof -
  have "(0x80 :: u8) = 2 ^ 7" by simp
  then show ?thesis by (simp only: bit_exp_iff) (auto simp: possible_bit_def)
qed

lemma payload_word:
  fixes b :: u8
  defines "u \<equiv> ucast (take_bit 7 b) :: 32 word"
  shows "take_bit 7 u = u" "drop_bit 7 u = 0" "(ucast u :: u8) = take_bit 7 b" "unat u = unat (take_bit 7 b)" "unat u < 128"
proof -
  show "take_bit 7 u = u" "drop_bit 7 u = 0" "(ucast u :: u8) = take_bit 7 b"
    unfolding u_def by (rule bit_word_eqI; auto simp: bit_simps)+
  have "unat (take_bit 7 b) = take_bit 7 (unat b)" by (rule unsigned_take_bit_eq)
  then have "unat (take_bit 7 b) < 128" using take_bit_nat_less_exp [of 7 "unat b"] by simp
  moreover from this show "unat u = unat (take_bit 7 b)" by (simp add: u_def unsigned_ucast_eq take_bit_nat_eq_self)
  ultimately show "unat u < 128" by simp
qed

lemma encode_last: "\<not> bit b 7 \<Longrightarrow> encode_varint_u32 (ucast (take_bit 7 b)) = [b]" for b :: u8
proof -
  assume "\<not> bit b 7"
  then have "m < 7" if "m < 8" "bit b m" for m using that by (cases "m = 7") auto
  then have b: "take_bit 7 b = b" by (intro bit_word_eqI) (auto simp: bit_simps)
  then show ?thesis using payload_word [of b] by (subst encode_varint_u32.simps) (simp add: Let_def payload_eq)
qed

lemma encode_more:
  fixes b :: u8 and w :: "32 word"
  assumes "bit b 7" "unat w < 2 ^ 25" "w \<noteq> 0"
  shows "encode_varint_u32 (ucast (take_bit 7 b) OR push_bit 7 w) = b # encode_varint_u32 w"
proof -
  have "b = take_bit 7 b OR 0x80"
  proof (rule bit_word_eqI)
    fix m assume "m < LENGTH(8)"
    then show "bit b m = bit (take_bit 7 b OR 0x80) m"
      unfolding bit_or_iff bit_take_bit_iff bit_0x80 using assms(1) by (cases "m = 7") auto
  qed
  then show ?thesis using split_word [OF assms(2), of b] assms(3) payload_word(3) [of b]
    by (subst encode_varint_u32.simps) (simp add: Let_def payload_eq)
qed

lemma decode_varint_canonical_loop:
  "decode_varint_loop all i acc bs = Inr (Some (v, n)) \<Longrightarrow> i < 5 \<Longrightarrow>
     \<exists>w. v = acc OR push_bit (7 * i) w \<and> unat w < 2 ^ (32 - 7 * i) \<and> (i = 0 \<or> w \<noteq> 0)
       \<and> n = i + length (encode_varint_u32 w) \<and> prefix (encode_varint_u32 w) bs"
proof (induction all i acc bs rule: decode_varint_loop.induct)
  case (1 all i acc bs)
  obtain b bs' where bs: "bs = b # bs'"
    using "1.prems" by (cases bs) (auto simp: decode_varint_loop.simps [of all i] split: if_splits)
  let ?p = "take_bit 7 b" and ?u = "ucast (take_bit 7 b) :: 32 word"
  have small: "\<not> (i = 4 \<and> ?p > 0x0f)"
    using "1.prems" bs by (auto simp: decode_varint_loop.simps [of all i] Let_def mask_byte split: if_splits)
  note u = payload_word [of b]
  show ?case
  proof (cases "bit b 7")
    case False
    then have res: "v = acc OR push_bit (7 * i) ?u" "n = Suc i" "i = 0 \<or> ?p \<noteq> 0"
      using "1.prems" bs small by (auto simp: decode_varint_loop.simps [of all i] Let_def mask_byte split: if_splits)
    have "unat ?u < 2 ^ (32 - 7 * i)"
    proof (cases "i = 4")
      case True
      then show ?thesis using small u(4) by (simp add: word_less_nat_alt)
    next
      case False
      then have "(2::nat) ^ 7 \<le> 2 ^ (32 - 7 * i)" using "1.prems"(2) by (intro power_increasing) auto
      then show ?thesis using u(5) by simp
    qed
    moreover have "i = 0 \<or> ?u \<noteq> 0" using res(3) u(4) by (auto simp: unat_eq_0 [symmetric])
    ultimately show ?thesis using res encode_last [OF False] bs by (intro exI [of _ ?u]) simp
  next
    case True
    then have rec: "decode_varint_loop all (Suc i) (acc OR push_bit (7 * i) ?u) bs' = Inr (Some (v, n))"
      using "1.prems" bs small by (simp add: decode_varint_loop.simps [of all i] Let_def mask_byte)
    then have i4: "Suc i < 5"
      using decode_varint_loop.simps [of all "Suc i"] by (auto split: if_splits)
    obtain w where w: "v = (acc OR push_bit (7 * i) ?u) OR push_bit (7 * Suc i) w" "unat w < 2 ^ (32 - 7 * Suc i)" "w \<noteq> 0"
      "n = Suc i + length (encode_varint_u32 w)" "prefix (encode_varint_u32 w) bs'"
      using "1.IH" [OF _ refl refl _ refl] rec i4 small True unfolding bs mask_byte by auto
    let ?w = "?u OR push_bit 7 w"
    have "(2::nat) ^ (32 - 7 * Suc i) \<le> 2 ^ 25" by (intro power_increasing) auto
    then have fits: "unat w < 2 ^ 25" using w(2) by simp
    note parts = split_word [OF fits, of b]
    have "unat ?w div 128 < 2 ^ (32 - 7 * Suc i)" using drop_bit_nat [of ?w] parts(2) w(2) by simp
    then have "unat ?w < 2 ^ (32 - 7 * i)"
      using i4 by (subst power_step) (simp_all only: div_less_iff_less_mult mult.commute)
    moreover have "?w \<noteq> 0" using parts(2) w(3) by (metis drop_bit_of_0)
    moreover have "v = acc OR push_bit (7 * i) ?w" 
      using or_split [of acc "7 * i" ?w] unfolding parts w(1) mult_Suc_right .
    ultimately show ?thesis using w(4,5) encode_more [OF True fits w(3)] bs by (intro exI [of _ ?w]) simp
  qed
qed

lemma decode_varint_canonical:
  assumes "decode_varint_u32 bs = Inr (Some (v, n))"
  shows "n = length (encode_varint_u32 v) \<and> prefix (encode_varint_u32 v) bs"
  using decode_varint_canonical_loop [of bs 0 0 bs v n] assms by (auto simp: decode_varint_u32_def)

end
