(* ===== verification/Stream_Decoder.thy ===== *)
theory Stream_Decoder
  imports Varint
begin

text \<open>
  The interface of the incremental decoders: bytes are pushed as they arrive from a socket, in pieces
  that have nothing to do with the boundaries of messages, and complete messages are taken out. The
  lemma of the locale holds for every such decoder: the pieces do not matter.
\<close>

section \<open>Little-endian numbers\<close>

definition le16 :: "nat \<Rightarrow> u8 list" where
  "le16 n = [of_nat n, of_nat (n div 256)]"

definition le32 :: "nat \<Rightarrow> u8 list" where
  "le32 n = [of_nat n, of_nat (n div 256), of_nat (n div 65536), of_nat (n div 16777216)]"

fun le_value :: "u8 list \<Rightarrow> nat" where
  "le_value [] = 0"
| "le_value (b # bs) = unat b + 256 * le_value bs"

lemma length_le [simp]: "length (le16 n) = 2" "length (le32 n) = 4"
  by (simp_all add: le16_def le32_def)

lemma le16_value: "n < 65536 \<Longrightarrow> le_value (le16 n) = n"
  by (simp add: le16_def unat_of_nat)

lemma le32_value: "n < 4294967296 \<Longrightarrow> le_value (le32 n) = n"
proof -
  assume "n < 4294967296"
  then have "n div 16777216 < 256" by simp
  then have top: "n div 16777216 mod 256 = n div 65536 div 256" by (simp flip: div_mult2_eq)
  have digits: "x mod 256 + 256 * (x div 256) = x" for x :: nat by simp
  have "n div 65536 = n div 256 div 256" by (simp flip: div_mult2_eq)
  then show ?thesis using digits [of n] digits [of "n div 256"] digits [of "n div 65536"]
    by (simp add: le32_def unat_of_nat top)
qed

section \<open>Taking out and feeding\<close>

fun drain :: "('d \<Rightarrow> 'd \<times> 'm option result) \<Rightarrow> nat \<Rightarrow> 'd \<Rightarrow> 'd \<times> 'm list result" where
  "drain nxt 0 d = (d, Inr [])"
| "drain nxt (Suc n) d =
     (case nxt d of
        (d', Inl e) \<Rightarrow> (d', Inl e)
      | (d', Inr None) \<Rightarrow> (d', Inr [])
      | (d', Inr (Some m)) \<Rightarrow> let (d2, r) = drain nxt n d' in (d2, res_bind r (\<lambda>ms. Inr (m # ms))))"

text \<open>Each piece is pushed, then messages are taken out until there is none left.\<close>

fun feed :: "(u8 list \<Rightarrow> 'd \<Rightarrow> 'd) \<Rightarrow> ('d \<Rightarrow> 'd \<times> 'm option result) \<Rightarrow> nat \<Rightarrow> u8 list list \<Rightarrow> 'd \<Rightarrow> 'd \<times> 'm list result" where
  "feed push nxt fuel [] d = (d, Inr [])"
| "feed push nxt fuel (c # cs) d =
     (case drain nxt fuel (push c d) of
        (d1, Inl e) \<Rightarrow> (d1, Inl e)
      | (d1, Inr ms) \<Rightarrow> let (d2, r) = feed push nxt fuel cs d1 in (d2, res_bind r (\<lambda>ms'. Inr (ms @ ms'))))"

lemma prefix_frames:
  assumes "prefix s (concat fs)" "\<forall>f \<in> set fs. f \<noteq> []"
  shows "\<exists>k p. k \<le> length fs \<and> s = concat (take k fs) @ p \<and> (p = [] \<or> k < length fs \<and> strict_prefix p (fs ! k))"
  using assms
proof (induction fs arbitrary: s)
  case (Cons f fs)
  consider "strict_prefix s f" | t where "s = f @ t" "prefix t (concat fs)"
    using Cons.prems(1) by (cases "s = f") (auto simp: prefix_append strict_prefix_def)
  then show ?case
  proof cases
    case 1
    then show ?thesis by (intro exI [of _ 0] exI [of _ s]) simp
  next
    case 2
    then obtain k p where "k \<le> length fs" "t = concat (take k fs) @ p" "p = [] \<or> k < length fs \<and> strict_prefix p (fs ! k)"
      using Cons.IH [OF 2(2)] Cons.prems(2) by auto
    then show ?thesis using 2(1) by (intro exI [of _ "Suc k"] exI [of _ p]) simp
  qed
qed simp

locale stream_decoder =
  fixes push :: "u8 list \<Rightarrow> 'd \<Rightarrow> 'd" and nxt :: "'d \<Rightarrow> 'd \<times> 'm option result" and buffered :: "'d \<Rightarrow> u8 list"
    and ok :: "'d \<Rightarrow> bool" and frame :: "'m \<Rightarrow> u8 list \<Rightarrow> bool"
  assumes push_buffered: "ok d \<Longrightarrow> ok (push bs d) \<and> buffered (push bs d) = buffered d @ bs"
    and next_complete: "ok d \<Longrightarrow> frame m f \<Longrightarrow> buffered d = f @ rest \<Longrightarrow>
      \<exists>d'. nxt d = (d', Inr (Some m)) \<and> ok d' \<and> buffered d' = rest"
    and next_partial: "ok d \<Longrightarrow> frame m f \<Longrightarrow> strict_prefix (buffered d) f \<Longrightarrow> nxt d = (d, Inr None)"
    and next_empty: "ok d \<Longrightarrow> buffered d = [] \<Longrightarrow> nxt d = (d, Inr None)"
    and frame_nonempty: "frame m f \<Longrightarrow> f \<noteq> []"
begin

lemma drain_frames:
  assumes "ok d" "list_all2 frame ms fs" "buffered d = concat fs @ p" "p = [] \<or> (\<exists>m f. frame m f \<and> strict_prefix p f)" "length fs < n"
  shows "\<exists>d'. drain nxt n d = (d', Inr ms) \<and> ok d' \<and> buffered d' = p"
  using assms
proof (induction fs arbitrary: ms d n)
  case Nil
  then have "nxt d = (d, Inr None)" using next_empty next_partial by auto
  then show ?case using Nil by (cases n) auto
next
  case (Cons f fs)
  then obtain m ms' n' where *: "ms = m # ms'" "frame m f" "list_all2 frame ms' fs" "n = Suc n'"
    by (cases n) (auto simp: list_all2_Cons2)
  then obtain d1 where "nxt d = (d1, Inr (Some m))" "ok d1" "buffered d1 = concat fs @ p"
    using next_complete [OF Cons.prems(1), of m f] Cons.prems(3) by auto
  then show ?case using Cons.IH [of d1 ms' n'] Cons.prems(4,5) * by auto
qed

lemma feed_frames:
  assumes "ok d" "list_all2 frame ms fs" "buffered d @ concat cs = concat fs"
    "buffered d = [] \<or> fs \<noteq> [] \<and> strict_prefix (buffered d) (hd fs)" "length fs < n"
  shows "\<exists>d'. feed push nxt n cs d = (d', Inr ms) \<and> ok d' \<and> buffered d' = []"
  using assms
proof (induction cs arbitrary: d ms fs)
  case Nil
  then have "fs = []"
    using frame_nonempty by (cases fs) (auto simp: list_all2_Cons2 strict_prefix_def)
  then show ?case using Nil by simp
next
  case (Cons c cs)
  have ne: "\<forall>f \<in> set fs. f \<noteq> []"
    using Cons.prems(2) frame_nonempty by (metis in_set_conv_nth list_all2_conv_all_nth)
  have d1: "ok (push c d)" "buffered (push c d) = buffered d @ c" using push_buffered [OF Cons.prems(1)] by simp_all
  have "prefix (buffered d @ c) (concat fs)" using Cons.prems(3) by (intro prefixI [of _ _ "concat cs"]) simp
  then obtain k p where k: "k \<le> length fs" "buffered d @ c = concat (take k fs) @ p"
    "p = [] \<or> k < length fs \<and> strict_prefix p (fs ! k)"
    using prefix_frames [OF _ ne] by blast
  have ms: "list_all2 frame (take k ms) (take k fs)" "list_all2 frame (drop k ms) (drop k fs)"
    using Cons.prems(2) by (simp_all add: list_all2_takeI list_all2_dropI)
  have "p = [] \<or> (\<exists>m f. frame m f \<and> strict_prefix p f)"
    using k(3) Cons.prems(2) by (auto simp: list_all2_conv_all_nth)
  then obtain d2 where d2: "drain nxt n (push c d) = (d2, Inr (take k ms))" "ok d2" "buffered d2 = p"
    using drain_frames [OF d1(1) ms(1), of p n] d1(2) k(2) Cons.prems(5) by (auto simp: min_less_iff_disj)
  have "concat fs = concat (take k fs) @ concat (drop k fs)" by (metis append_take_drop_id concat_append)
  then have rest: "buffered d2 @ concat cs = concat (drop k fs)"
    using Cons.prems(3) k(2) d2(3) by (metis append.assoc concat.simps(2) same_append_eq)
  have "buffered d2 = [] \<or> drop k fs \<noteq> [] \<and> strict_prefix (buffered d2) (hd (drop k fs))"
    using k(3) d2(3) by (auto simp: hd_drop_conv_nth)
  then obtain d3 where "feed push nxt n cs d2 = (d3, Inr (drop k ms))" "ok d3" "buffered d3 = []"
    using Cons.IH [OF d2(2) ms(2) rest] Cons.prems(5) less_imp_diff_less by fastforce
  then show ?case using d2(1) by simp
qed

end

end
