(* ===== verification/Frame_Codec.thy ===== *)
theory Frame_Codec
  imports Stream_Decoder
begin

text \<open>
  Detached frames (\<open>rmux-proto/src/codec.rs\<close>): magic byte, wire version, length and payload. The
  serialisation of values is the \<open>bincode\<close> crate, which is not part of the sources: it is the pair of
  parameters \<open>ser\<close> and \<open>des\<close>, each giving bytes or a value, or the text of an error.
\<close>

section \<open>Model\<close>

definition DEFAULT_MAX_FRAME_LENGTH :: usize where
  "DEFAULT_MAX_FRAME_LENGTH = 1024 * 1024"

definition DEFAULT_MAX_DETACHED_FRAME_LENGTH :: usize where
  "DEFAULT_MAX_DETACHED_FRAME_LENGTH = 8 * DEFAULT_MAX_FRAME_LENGTH"

type_synonym 'a serializer = "'a \<Rightarrow> (string, u8 list) res"
type_synonym 'a deserializer = "u8 list \<Rightarrow> (string, 'a) res"

definition encode_frame :: "'a serializer \<Rightarrow> 'a \<Rightarrow> (u8 list) result" where
  "encode_frame ser value =
     (case ser value of
        Inl msg \<Rightarrow> Inl (Encode msg)
      | Inr payload \<Rightarrow>
          if payload = [] then Inl EmptyFrame
          else if length payload > DEFAULT_MAX_DETACHED_FRAME_LENGTH
          then Inl (FrameTooLarge (length payload) DEFAULT_MAX_DETACHED_FRAME_LENGTH)
          else if length payload > u32_max then Inl (FrameTooLarge (length payload) u32_max)
          else Inr ([RMUX_FRAME_MAGIC] @ encode_varint_u32 RMUX_WIRE_VERSION @ le32 (length payload) @ payload))"

definition ensure_supported_version :: "32 word \<Rightarrow> unit result" where
  "ensure_supported_version version =
     (if version = RMUX_WIRE_VERSION then Inr ()
      else Inl (UnsupportedWireVersion (unat version) (unat RMUX_WIRE_VERSION) (unat RMUX_WIRE_VERSION)))"

definition frame_length :: "u8 list \<Rightarrow> usize result" where
  "frame_length buffer =
     (if length buffer < 4 then Inl (IncompleteFrame 4 (length buffer)) else Inr (le_value (take 4 buffer)))"

definition decode_payload :: "'a deserializer \<Rightarrow> u8 list \<Rightarrow> 'a result" where
  "decode_payload des payload = (case des payload of Inl msg \<Rightarrow> Inl (Decode msg) | Inr v \<Rightarrow> Inr v)"

definition decode_frame :: "'a deserializer \<Rightarrow> u8 list \<Rightarrow> 'a result" where
  "decode_frame des frame =
     (if frame = [] then Inl (IncompleteFrame 1 0)
      else if hd frame \<noteq> RMUX_FRAME_MAGIC then Inl (BadFrameMagic (unat (hd frame)))
      else case decode_varint_u32 (tl frame) of
        Inl e \<Rightarrow> Inl e
      | Inr None \<Rightarrow> Inl (IncompleteFrame 2 (length frame))
      | Inr (Some (version, version_len)) \<Rightarrow>
          res_bind (ensure_supported_version version) (\<lambda>_.
            let header_start = 1 + version_len
            in if length frame < header_start + 4 then Inl (IncompleteFrame (header_start + 4) (length frame))
               else res_bind (frame_length (drop header_start frame)) (\<lambda>len.
                 if len = 0 then Inl EmptyFrame
                 else if len > DEFAULT_MAX_DETACHED_FRAME_LENGTH then Inl (FrameTooLarge len DEFAULT_MAX_DETACHED_FRAME_LENGTH)
                 else let required = header_start + 4 + len
                      in if length frame < required then Inl (IncompleteFrame len (length frame - header_start - 4))
                         else if length frame > required then Inl (Decode ''trailing bytes remain after the first frame'')
                         else decode_payload des (take len (drop (header_start + 4) frame)))))"

record frame_decoder =
  fd_max_frame_length :: usize
  fd_buffer :: "u8 list"

definition frame_decoder_with_max :: "usize \<Rightarrow> frame_decoder" where
  "frame_decoder_with_max n = \<lparr>fd_max_frame_length = n, fd_buffer = []\<rparr>"

definition new_frame_decoder :: frame_decoder where
  "new_frame_decoder = frame_decoder_with_max DEFAULT_MAX_DETACHED_FRAME_LENGTH"

definition frame_push_bytes :: "u8 list \<Rightarrow> frame_decoder \<Rightarrow> frame_decoder" where
  "frame_push_bytes bytes d = d\<lparr>fd_buffer := fd_buffer d @ bytes\<rparr>"

definition clear_frames :: "frame_decoder \<Rightarrow> frame_decoder" where
  "clear_frames d = d\<lparr>fd_buffer := []\<rparr>"

definition next_frame :: "'a deserializer \<Rightarrow> frame_decoder \<Rightarrow> frame_decoder \<times> 'a option result" where
  "next_frame des d =
     (let buf = fd_buffer d
      in if buf = [] then (d, Inr None)
         else if hd buf \<noteq> RMUX_FRAME_MAGIC then (clear_frames d, Inl (BadFrameMagic (unat (hd buf))))
         else case decode_varint_u32 (tl buf) of
           Inl e \<Rightarrow> (clear_frames d, Inl e)
         | Inr None \<Rightarrow> (d, Inr None)
         | Inr (Some (version, version_len)) \<Rightarrow>
             (case ensure_supported_version version of
                Inl e \<Rightarrow> (clear_frames d, Inl e)
              | Inr _ \<Rightarrow>
                  let header_start = 1 + version_len
                  in if length buf < header_start + 4 then (d, Inr None)
                     else case frame_length (drop header_start buf) of
                       Inl e \<Rightarrow> (d, Inl e)
                     | Inr len \<Rightarrow>
                         if len = 0 then (d\<lparr>fd_buffer := drop (header_start + 4) buf\<rparr>, Inl EmptyFrame)
                         else if len > fd_max_frame_length d
                         then (clear_frames d, Inl (FrameTooLarge len (fd_max_frame_length d)))
                         else let required = header_start + 4 + len
                              in if length buf < required then (d, Inr None)
                                 else case decode_payload des (take len (drop (header_start + 4) buf)) of
                                   Inr v \<Rightarrow> (d\<lparr>fd_buffer := drop required buf\<rparr>, Inr (Some v))
                                 | Inl (Decode msg) \<Rightarrow> (clear_frames d, Inl (Decode msg))
                                 | Inl e \<Rightarrow> (d, Inl e)))"

section \<open>Complete and partial frames\<close>

lemma version_bytes: "encode_varint_u32 RMUX_WIRE_VERSION = [8]"
  by (subst encode_varint_u32.simps) (simp add: RMUX_WIRE_VERSION_def Let_def)

lemma decode_version: "decode_varint_u32 (8 # rest) = Inr (Some (8, 1))" "decode_varint_u32 [] = Inr None"
  using decode_encode_varint [of RMUX_WIRE_VERSION rest]
  by (simp_all add: version_bytes RMUX_WIRE_VERSION_def [symmetric] decode_varint_u32_def [of "[]"] decode_varint_loop.simps)

text \<open>A frame of a value that the deserialiser reads back, within the limit of the decoder.\<close>

definition frame_of :: "'a serializer \<Rightarrow> 'a deserializer \<Rightarrow> usize \<Rightarrow> 'a \<Rightarrow> u8 list \<Rightarrow> bool" where
  "frame_of ser des lim v f \<longleftrightarrow>
     (\<exists>payload. ser v = Inr payload \<and> des payload = Inr v \<and> length payload \<le> lim) \<and> encode_frame ser v = Inr f"

lemma frame_of_bytes:
  assumes "frame_of ser des lim v f"
  obtains payload where "f = [RMUX_FRAME_MAGIC, 8] @ le32 (length payload) @ payload" "des payload = Inr v" "payload \<noteq> []"
    "length payload \<le> lim" "length payload \<le> u32_max"
  using assms by (auto simp: frame_of_def encode_frame_def version_bytes split: if_splits)

text \<open>What the decoder does with a buffer that starts with the header of a supported frame.\<close>

lemma next_frame_header:
  assumes "fd_buffer d = [RMUX_FRAME_MAGIC, 8] @ h @ rest" "length h = 4"
  shows "next_frame des d =
    (if le_value h = 0 then (d\<lparr>fd_buffer := rest\<rparr>, Inl EmptyFrame)
     else if le_value h > fd_max_frame_length d then (clear_frames d, Inl (FrameTooLarge (le_value h) (fd_max_frame_length d)))
     else if length rest < le_value h then (d, Inr None)
     else case des (take (le_value h) rest) of
       Inr v \<Rightarrow> (d\<lparr>fd_buffer := drop (le_value h) rest\<rparr>, Inr (Some v))
     | Inl msg \<Rightarrow> (clear_frames d, Inl (Decode msg)))"
proof -
  have "drop 2 (fd_buffer d) = h @ rest" "drop 6 (fd_buffer d) = rest" "length (fd_buffer d) = 6 + length rest"
    "drop (6 + n) (fd_buffer d) = drop n rest" for n
    by (simp_all add: assms eval_nat_numeral)
  then show ?thesis
    using assms by (simp add: next_frame_def Let_def decode_version RMUX_WIRE_VERSION_def ensure_supported_version_def
        frame_length_def decode_payload_def eval_nat_numeral split: sum.splits)
qed

lemma decode_frame_header:
  assumes "length h = 4"
  shows "decode_frame des ([RMUX_FRAME_MAGIC, 8] @ h @ rest) =
    (if le_value h = 0 then Inl EmptyFrame
     else if le_value h > DEFAULT_MAX_DETACHED_FRAME_LENGTH then Inl (FrameTooLarge (le_value h) DEFAULT_MAX_DETACHED_FRAME_LENGTH)
     else if length rest < le_value h then Inl (IncompleteFrame (le_value h) (length rest))
     else if length rest > le_value h then Inl (Decode ''trailing bytes remain after the first frame'')
     else decode_payload des rest)"
  using assms by (simp add: decode_frame_def Let_def decode_version RMUX_WIRE_VERSION_def ensure_supported_version_def
      frame_length_def eval_nat_numeral)

lemma le32_frame_value: "n \<le> u32_max \<Longrightarrow> le_value (le32 n) = n"
  by (intro le32_value) (simp add: u32_max_def)

lemma strict_prefix_cases:
  assumes "strict_prefix p ([a, b] @ h @ q)" "length h = 4"
  shows "p = [] \<or> p = [a] \<or> (\<exists>t. p = [a, b] @ t \<and> length t < 4) \<or> (\<exists>r. p = [a, b] @ h @ r \<and> strict_prefix r q)"
proof -
  have p: "prefix p ([a, b] @ h @ q)" "p \<noteq> [a, b] @ h @ q" using assms(1) by (simp_all add: strict_prefix_def)
  consider "prefix p [a, b]" | t where "p = [a, b] @ t" "prefix t (h @ q)"
    using p(1) unfolding prefix_append [of p "[a, b]"] by blast
  then show ?thesis
  proof cases
    case 1
    then show ?thesis by (auto simp: prefix_Cons)
  next
    case 2
    then consider "prefix t h" "t \<noteq> h" | r where "t = h @ r" "prefix r q"
      by (cases "t = h") (auto simp: prefix_append)
    then show ?thesis
    proof cases
      case 1
      then have "length t < 4" using assms(2) prefix_length_less [of t h] by (simp add: strict_prefix_def)
      then show ?thesis using 2(1) by blast
    next
      case (2 r)
      then show ?thesis using p(2) \<open>p = [a, b] @ t\<close> by (auto simp: strict_prefix_def)
    qed
  qed
qed

lemma next_frame_partial:
  assumes f: "frame_of ser des (fd_max_frame_length d) v f" and p: "strict_prefix (fd_buffer d) f"
  shows "next_frame des d = (d, Inr None)"
proof -
  obtain payload where f': "f = [RMUX_FRAME_MAGIC, 8] @ le32 (length payload) @ payload" "payload \<noteq> []"
    "length payload \<le> fd_max_frame_length d" "length payload \<le> u32_max"
    using frame_of_bytes [OF f] by metis
  consider "fd_buffer d = []" | "fd_buffer d = [RMUX_FRAME_MAGIC]"
    | t where "fd_buffer d = [RMUX_FRAME_MAGIC, 8] @ t" "length t < 4"
    | r where "fd_buffer d = [RMUX_FRAME_MAGIC, 8] @ le32 (length payload) @ r" "strict_prefix r payload"
    using strict_prefix_cases [OF p [unfolded f'(1)]] by auto
  then show ?thesis
  proof cases
    case 4
    then have "length r < length payload" using prefix_length_less by blast
    then show ?thesis using next_frame_header [OF 4(1), of des] f'(2-4) by (simp add: le32_frame_value)
  qed (simp_all add: next_frame_def decode_version ensure_supported_version_def RMUX_WIRE_VERSION_def Let_def)
qed

interpretation detached: stream_decoder frame_push_bytes "next_frame des" fd_buffer "\<lambda>d. fd_max_frame_length d = lim"
  "frame_of ser des lim" for ser des lim
proof
  fix d :: frame_decoder and bs
  show "fd_max_frame_length d = lim \<Longrightarrow>
      fd_max_frame_length (frame_push_bytes bs d) = lim \<and> fd_buffer (frame_push_bytes bs d) = fd_buffer d @ bs"
    by (simp add: frame_push_bytes_def)
next
  fix d :: frame_decoder and m f rest
  assume d: "fd_max_frame_length d = lim" "frame_of ser des lim m f" "fd_buffer d = f @ rest"
  obtain payload where f: "f = [RMUX_FRAME_MAGIC, 8] @ le32 (length payload) @ payload" "des payload = Inr m" "payload \<noteq> []"
    "length payload \<le> lim" "length payload \<le> u32_max"
    using frame_of_bytes [OF d(2)] by metis
  have "next_frame des d = (d\<lparr>fd_buffer := rest\<rparr>, Inr (Some m))"
    using next_frame_header [of d "le32 (length payload)" "payload @ rest" des] d(1,3) f by (simp add: le32_frame_value)
  then show "\<exists>d'. next_frame des d = (d', Inr (Some m)) \<and> fd_max_frame_length d' = lim \<and> fd_buffer d' = rest"
    using d(1) by simp
next
  fix d :: frame_decoder and m f
  show "fd_max_frame_length d = lim \<Longrightarrow> frame_of ser des lim m f \<Longrightarrow> strict_prefix (fd_buffer d) f \<Longrightarrow> next_frame des d = (d, Inr None)"
    using next_frame_partial [of ser des d m f] by simp
next
  fix d :: frame_decoder and m f
  show "fd_buffer d = [] \<Longrightarrow> next_frame des d = (d, Inr None)" by (simp add: next_frame_def)
  show "frame_of ser des lim m f \<Longrightarrow> f \<noteq> []" using frame_of_bytes by fastforce
qed

section \<open>Every buffer\<close>

lemma decode_varint_none: "decode_varint_u32 bs = Inr None \<Longrightarrow> length bs < 5"
proof -
  have "decode_varint_loop all i acc cs = Inr None \<Longrightarrow> length all < 5" for all i acc cs
  proof (induction all i acc cs rule: decode_varint_loop.induct)
    case (1 all i acc cs)
    then show ?case by (subst (asm) decode_varint_loop.simps) (auto simp: Let_def split: if_splits)
  qed
  then show "decode_varint_u32 bs = Inr None \<Longrightarrow> length bs < 5" by (simp add: decode_varint_u32_def)
qed

lemma decode_varint_error: "decode_varint_u32 bs = Inl e \<Longrightarrow> \<exists>msg. e = Decode msg"
proof -
  have "decode_varint_loop all i acc cs = Inl e \<Longrightarrow> \<exists>msg. e = Decode msg" for all i acc cs
  proof (induction all i acc cs rule: decode_varint_loop.induct)
    case (1 all i acc cs)
    then show ?case by (subst (asm) decode_varint_loop.simps) (auto simp: Let_def split: if_splits)
  qed
  then show "decode_varint_u32 bs = Inl e \<Longrightarrow> \<exists>msg. e = Decode msg" by (simp add: decode_varint_u32_def)
qed

text \<open>The buffers a decoder can face, by how far the header goes.\<close>

lemma header_cases:
  obtains (empty) "b = []" | (magic) "b \<noteq> []" "hd b \<noteq> RMUX_FRAME_MAGIC"
  | (varint) msg where "b \<noteq> []" "hd b = RMUX_FRAME_MAGIC" "decode_varint_u32 (tl b) = Inl (Decode msg)"
  | (partial) "b \<noteq> []" "hd b = RMUX_FRAME_MAGIC" "decode_varint_u32 (tl b) = Inr None" "length b < 6"
  | (version) v n where "b \<noteq> []" "hd b = RMUX_FRAME_MAGIC" "decode_varint_u32 (tl b) = Inr (Some (v, n))" "v \<noteq> RMUX_WIRE_VERSION"
  | (short) t where "b = [RMUX_FRAME_MAGIC, 8] @ t" "length t < 4"
  | (header) h rest where "b = [RMUX_FRAME_MAGIC, 8] @ h @ rest" "length h = 4"
proof (cases b)
  case (Cons m t)
  show ?thesis
  proof (cases "m = RMUX_FRAME_MAGIC")
    case True
    consider e where "decode_varint_u32 t = Inl e" | "decode_varint_u32 t = Inr None"
      | v n where "decode_varint_u32 t = Inr (Some (v, n))"
      by (cases "decode_varint_u32 t") (auto, metis option.exhaust surj_pair)
    then show ?thesis
    proof cases
      case 1
      then show ?thesis using varint decode_varint_error [OF 1] Cons True by auto
    next
      case 2
      then show ?thesis using partial decode_varint_none [OF 2] Cons True by simp
    next
      case (3 v n)
      show ?thesis
      proof (cases "v = RMUX_WIRE_VERSION")
        case True
        then have t: "t = 8 # tl t" using decode_varint_canonical [OF 3] by (cases t) (simp_all add: version_bytes)
        show ?thesis
        proof (cases "length (tl t) < 4")
          case True
          then show ?thesis using short [of "tl t"] Cons \<open>m = RMUX_FRAME_MAGIC\<close> t by simp
        next
          case False
          then show ?thesis using header [of "take 4 (tl t)" "drop 4 (tl t)"] Cons \<open>m = RMUX_FRAME_MAGIC\<close> t by simp
        qed
      next
        case False
        then show ?thesis using version [of v n] 3 Cons True by simp
      qed
    qed
  qed (use magic Cons in simp)
qed (use empty in simp)

lemmas frame_step_defs = next_frame_def decode_frame_def decode_version ensure_supported_version_def RMUX_WIRE_VERSION_def

text \<open>While it waits, the decoder holds less than a header and a payload of the maximal length.\<close>

lemma next_frame_waiting:
  assumes "next_frame des d = (d', Inr None)"
  shows "d' = d \<and> length (fd_buffer d) < 6 + fd_max_frame_length d"
proof (cases "fd_buffer d" rule: header_cases)
  case (header h rest)
  then show ?thesis using assms next_frame_header [OF header, of des] by (auto split: if_splits sum.splits)
qed (use assms in \<open>auto simp: frame_step_defs\<close>)

text \<open>A value takes its header and at least one byte out of the buffer.\<close>

lemma next_frame_value:
  assumes "next_frame des d = (d', Inr (Some v))"
  shows "length (fd_buffer d') + 6 < length (fd_buffer d)"
proof (cases "fd_buffer d" rule: header_cases)
  case (header h rest)
  then show ?thesis using assms next_frame_header [OF header, of des] by (auto split: if_splits sum.splits)
qed (use assms in \<open>auto simp: frame_step_defs\<close>)

text \<open>An error drops the buffer, except that an empty frame drops only itself.\<close>

lemma next_frame_error:
  assumes "next_frame des d = (d', Inl e)"
  shows "if e = EmptyFrame then length (fd_buffer d) = 6 + length (fd_buffer d') else fd_buffer d' = []"
proof (cases "fd_buffer d" rule: header_cases)
  case (header h rest)
  then show ?thesis using assms next_frame_header [OF header, of des]
    by (auto simp: clear_frames_def split: if_splits sum.splits)
qed (use assms in \<open>auto simp: frame_step_defs clear_frames_def\<close>)

text \<open>The one-shot decoder accepts what a new decoder accepts and consumes to the last byte.\<close>

lemma decode_frame_iff:
  "decode_frame des f = Inr v \<longleftrightarrow>
     next_frame des (frame_push_bytes f new_frame_decoder) = (new_frame_decoder, Inr (Some v))"
proof (cases f rule: header_cases)
  case (header h rest)
  let ?d = "frame_push_bytes f new_frame_decoder"
  have d: "fd_buffer ?d = [RMUX_FRAME_MAGIC, 8] @ h @ rest"
    by (simp add: frame_push_bytes_def new_frame_decoder_def frame_decoder_with_max_def header)
  show ?thesis using next_frame_header [OF d header(2), of des] decode_frame_header [OF header(2), of des rest] header(1)
    by (auto simp: decode_payload_def frame_push_bytes_def new_frame_decoder_def frame_decoder_with_max_def clear_frames_def
        split: sum.splits)
qed (auto simp: frame_step_defs frame_push_bytes_def new_frame_decoder_def frame_decoder_with_max_def)

end
