(* ===== verification/Utf8_Bytes.thy ===== *)
theory Utf8_Bytes
  imports Varint
begin

text \<open>
  UTF-8 on bytes, as Rust's standard library decodes it: a \<open>String\<close> of the sources that travels over
  a byte stream is the list of its bytes, and \<open>String::from_utf8_lossy\<close> is a function on bytes that
  puts U+FFFD for every maximal ill-formed part.
\<close>

section \<open>Model\<close>

definition safe_get :: "u8 list \<Rightarrow> nat \<Rightarrow> u8" where
  "safe_get bs i = (if i < length bs then bs ! i else 0)"

definition is_continuation :: "u8 \<Rightarrow> bool" where
  "is_continuation b \<longleftrightarrow> 0x80 \<le> b \<and> b \<le> 0xBF"

text \<open>The second byte of the forms of three and four bytes: no overlong form, no surrogate, nothing past U+10FFFF.\<close>

definition second_of_three :: "u8 \<Rightarrow> u8 \<Rightarrow> bool" where
  "second_of_three b c \<longleftrightarrow> (if b = 0xE0 then 0xA0 \<le> c \<and> c \<le> 0xBF else if b = 0xED then 0x80 \<le> c \<and> c \<le> 0x9F else is_continuation c)"

definition second_of_four :: "u8 \<Rightarrow> u8 \<Rightarrow> bool" where
  "second_of_four b c \<longleftrightarrow> (if b = 0xF0 then 0x90 \<le> c \<and> c \<le> 0xBF else if b = 0xF4 then 0x80 \<le> c \<and> c \<le> 0x8F else is_continuation c)"

definition utf8_char_width :: "u8 \<Rightarrow> nat" where
  "utf8_char_width b =
     (if b < 0x80 then 1 else if 0xC2 \<le> b \<and> b \<le> 0xDF then 2 else if 0xE0 \<le> b \<and> b \<le> 0xEF then 3
      else if 0xF0 \<le> b \<and> b \<le> 0xF4 then 4 else 0)"

text \<open>Whether a character stands at the front, and how many bytes it or the ill-formed part has.\<close>

definition utf8_step :: "u8 list \<Rightarrow> bool \<times> nat" where
  "utf8_step bs =
     (let b = safe_get bs 0; w = utf8_char_width b
      in if w = 1 then (True, 1)
         else if w = 2 then (if is_continuation (safe_get bs 1) then (True, 2) else (False, 1))
         else if w = 3 then
           (if second_of_three b (safe_get bs 1)
            then if is_continuation (safe_get bs 2) then (True, 3) else (False, 2)
            else (False, 1))
         else if w = 4 then
           (if second_of_four b (safe_get bs 1)
            then if is_continuation (safe_get bs 2)
                 then if is_continuation (safe_get bs 3) then (True, 4) else (False, 3)
                 else (False, 2)
            else (False, 1))
         else (False, 1))"

lemma utf8_step_pos: "(ok, n) = utf8_step bs \<Longrightarrow> 0 < n"
  by (auto simp: utf8_step_def Let_def split: if_splits)

definition REPLACEMENT :: "u8 list" where
  "REPLACEMENT = [0xEF, 0xBF, 0xBD]"

function from_utf8_lossy :: "u8 list \<Rightarrow> u8 list" where
  "from_utf8_lossy bs =
     (if bs = [] then []
      else let (ok, n) = utf8_step bs in (if ok then take n bs else REPLACEMENT) @ from_utf8_lossy (drop n bs))"
  by pat_completeness auto
termination
  by (relation "measure length") (auto dest: utf8_step_pos)

declare from_utf8_lossy.simps [simp del]

function valid_utf8 :: "u8 list \<Rightarrow> bool" where
  "valid_utf8 bs \<longleftrightarrow> (if bs = [] then True else let (ok, n) = utf8_step bs in ok \<and> valid_utf8 (drop n bs))"
  by pat_completeness auto
termination
  by (relation "measure length") (auto dest: utf8_step_pos)

declare valid_utf8.simps [simp del]

section \<open>Properties\<close>

lemma safe_get_simps [simp]: "safe_get [] i = 0" "safe_get (b # bs) 0 = b" "safe_get (b # bs) (Suc i) = safe_get bs i"
  "safe_get (b # bs) (numeral k) = safe_get bs (pred_numeral k)"
  by (simp_all add: safe_get_def numeral_eq_Suc)

lemma not_continuation_0 [simp]: "\<not> is_continuation 0" "\<not> second_of_three b 0" "\<not> second_of_four b 0"
  by (simp_all add: is_continuation_def second_of_three_def second_of_four_def)

text \<open>A character is recognised by its own bytes, whatever follows.\<close>

lemma utf8_step_local:
  assumes "bs \<noteq> []" "utf8_step bs = (True, n)"
  shows "n \<le> length bs" "utf8_step (take n bs @ rest) = (True, n)"
proof -
  let ?w = "utf8_char_width (safe_get bs 0)"
  have in_range: "i < length bs" if "is_continuation (safe_get bs i) \<or> second_of_three b (safe_get bs i) \<or> second_of_four b (safe_get bs i)" for b i
    using that by (auto simp: safe_get_def split: if_split_asm)
  have same: "safe_get (take m bs @ rest) i = safe_get bs i" if "m \<le> length bs" "i < m" for i m
    using that by (simp add: safe_get_def nth_append)
  consider "?w = 1" | "?w = 2" | "?w = 3" | "?w = 4" using assms(2) by (fastforce simp: utf8_step_def Let_def split: if_split_asm)
  then have "n \<le> length bs \<and> utf8_step (take n bs @ rest) = (True, n)"
  proof cases
    case 1
    then have "n = 1" using assms(2) by (simp add: utf8_step_def)
    moreover have "1 \<le> length bs" using assms(1) by (simp add: Suc_le_eq)
    ultimately show ?thesis using 1 same [of 1 0] by (simp add: utf8_step_def)
  next
    case 2
    then have *: "n = 2" "is_continuation (safe_get bs 1)" using assms(2) by (simp_all add: utf8_step_def split: if_split_asm)
    then have "2 \<le> length bs" using in_range [of 1] by simp
    then show ?thesis using 2 * same [of 2 0] same [of 2 1] by (simp add: utf8_step_def)
  next
    case 3
    then have *: "n = 3" "second_of_three (safe_get bs 0) (safe_get bs 1)" "is_continuation (safe_get bs 2)"
      using assms(2) by (simp_all add: utf8_step_def split: if_split_asm)
    then have "3 \<le> length bs" using in_range [of 2] by simp
    then show ?thesis using 3 * same [of 3 0] same [of 3 1] same [of 3 2] by (simp add: utf8_step_def)
  next
    case 4
    then have *: "n = 4" "second_of_four (safe_get bs 0) (safe_get bs 1)" "is_continuation (safe_get bs 2)" "is_continuation (safe_get bs 3)"
      using assms(2) by (simp_all add: utf8_step_def split: if_split_asm)
    then have "4 \<le> length bs" using in_range [of 3] by simp
    then show ?thesis using 4 * same [of 4 0] same [of 4 1] same [of 4 2] same [of 4 3] by (simp add: utf8_step_def)
  qed
  then show "n \<le> length bs" "utf8_step (take n bs @ rest) = (True, n)" by simp_all
qed

lemma lossy_of_valid: "valid_utf8 bs \<Longrightarrow> from_utf8_lossy bs = bs"
proof (induction bs rule: from_utf8_lossy.induct)
  case (1 bs)
  then show ?case
    by (subst from_utf8_lossy.simps, subst (asm) (2) valid_utf8.simps) (auto split: prod.splits)
qed

lemma valid_utf8_append:
  assumes "bs \<noteq> []" "utf8_step bs = (True, n)" "valid_utf8 rest"
  shows "valid_utf8 (take n bs @ rest)"
  using utf8_step_local [OF assms(1,2)] utf8_step_pos [of True n bs] assms
  by (subst valid_utf8.simps) auto

lemma valid_replacement: "utf8_step REPLACEMENT = (True, 3)" 
  by (simp add: utf8_step_def REPLACEMENT_def second_of_three_def is_continuation_def utf8_char_width_def)

text \<open>Whatever the bytes, the result is well-formed.\<close>

lemma lossy_valid: "valid_utf8 (from_utf8_lossy bs)"
proof (induction bs rule: from_utf8_lossy.induct)
  case (1 bs)
  obtain ok n where s: "utf8_step bs = (ok, n)" by fastforce
  show ?case
  proof (cases "bs = []")
    case False
    then have "valid_utf8 (from_utf8_lossy (drop n bs))" using 1 s by simp
    then show ?thesis
      using False s valid_utf8_append [OF False, of n] valid_utf8_append [OF _ valid_replacement]
      by (subst from_utf8_lossy.simps) (auto simp: REPLACEMENT_def)
  qed (simp add: from_utf8_lossy.simps valid_utf8.simps)
qed

end
