(* ===== verification/Attach_Codec.thy ===== *)
theory Attach_Codec
  imports Frame_Codec Utf8_Bytes Layout_Tree
begin

text \<open>
  The attach stream (\<open>rmux-proto/src/attach.rs\<close>): tagged messages between an attached client and the
  server. Strings are the lists of their bytes. The \<open>bincode\<close> crate is the record of parameters
  \<open>attach_bincode\<close>, one pair of functions per type that the stream serialises.
\<close>

section \<open>Messages\<close>

record terminal_pixels =
  px_width :: u16
  px_height :: u16

record terminal_geometry =
  geo_size :: terminal_size
  geo_pixels :: "terminal_pixels option"

record windows_console_key =
  virtual_key_code :: u16
  virtual_scan_code :: u16
  unicode_char :: u16
  control_key_state :: u32
  repeat_count :: u16

record attached_keystroke =
  key_bytes :: "u8 list"
  key_windows :: "windows_console_key option"

definition new_keystroke :: "u8 list \<Rightarrow> attached_keystroke" where
  "new_keystroke bytes = \<lparr>key_bytes = bytes, key_windows = None\<rparr>"

definition with_windows_console_key :: "windows_console_key \<Rightarrow> attached_keystroke \<Rightarrow> attached_keystroke" where
  "with_windows_console_key key k = k\<lparr>key_windows := Some key\<rparr>"

record windows_console_keystroke =
  wck_bytes :: "u8 list"
  wck_key :: windows_console_key

definition from_keystroke :: "attached_keystroke \<Rightarrow> windows_console_key \<Rightarrow> windows_console_keystroke" where
  "from_keystroke k key = \<lparr>wck_bytes = key_bytes k, wck_key = key\<rparr>"

definition into_keystroke :: "windows_console_keystroke \<Rightarrow> attached_keystroke" where
  "into_keystroke k = with_windows_console_key (wck_key k) (new_keystroke (wck_bytes k))"

record key_dispatched =
  kd_byte_len :: u32
  kd_consumed :: bool

definition new_key_dispatched :: "u32 \<Rightarrow> key_dispatched" where
  "new_key_dispatched n = \<lparr>kd_byte_len = n, kd_consumed = True\<rparr>"

definition key_forwarded :: "u32 \<Rightarrow> key_dispatched" where
  "key_forwarded n = \<lparr>kd_byte_len = n, kd_consumed = False\<rparr>"

record attach_shell_command =
  sc_command :: "u8 list"
  sc_shell :: "u8 list"
  sc_cwd :: "u8 list"

datatype attach_message =
    Data "u8 list"
  | Render "u8 list"
  | Keystroke attached_keystroke
  | KeyDispatched key_dispatched
  | Resize terminal_size
  | ResizeGeometry terminal_geometry
  | Lock "u8 list"
  | LockShellCommand attach_shell_command
  | Unlock
  | Suspend
  | DetachKill
  | DetachExec "u8 list"
  | DetachExecShellCommand attach_shell_command

record attach_bincode =
  bc_bytes :: "(u8 list) serializer \<times> (u8 list) deserializer"
  bc_windows :: "windows_console_keystroke serializer \<times> windows_console_keystroke deserializer"
  bc_dispatched :: "key_dispatched serializer \<times> key_dispatched deserializer"
  bc_geometry :: "terminal_geometry serializer \<times> terminal_geometry deserializer"
  bc_command :: "attach_shell_command serializer \<times> attach_shell_command deserializer"

section \<open>Encoding\<close>

abbreviation (input) "DATA_TAG \<equiv> 1 :: u8"
abbreviation (input) "RESIZE_TAG \<equiv> 2 :: u8"
abbreviation (input) "LOCK_TAG \<equiv> 3 :: u8"
abbreviation (input) "UNLOCK_TAG \<equiv> 4 :: u8"
abbreviation (input) "SUSPEND_TAG \<equiv> 5 :: u8"
abbreviation (input) "DETACH_KILL_TAG \<equiv> 6 :: u8"
abbreviation (input) "DETACH_EXEC_TAG \<equiv> 7 :: u8"
abbreviation (input) "KEYSTROKE_TAG \<equiv> 8 :: u8"
abbreviation (input) "KEY_DISPATCHED_TAG \<equiv> 9 :: u8"
abbreviation (input) "LOCK_SHELL_COMMAND_TAG \<equiv> 10 :: u8"
abbreviation (input) "DETACH_EXEC_SHELL_COMMAND_TAG \<equiv> 11 :: u8"
abbreviation (input) "RESIZE_GEOMETRY_TAG \<equiv> 12 :: u8"
abbreviation (input) "RENDER_TAG \<equiv> 13 :: u8"
abbreviation (input) "WINDOWS_CONSOLE_KEYSTROKE_TAG \<equiv> 14 :: u8"

definition validate_data_like_payload :: "u8 list \<Rightarrow> unit result" where
  "validate_data_like_payload bytes =
     (if length bytes > DEFAULT_MAX_FRAME_LENGTH then Inl (FrameTooLarge (length bytes) DEFAULT_MAX_FRAME_LENGTH) else Inr ())"

definition encode_data_like_message :: "u8 \<Rightarrow> u8 list \<Rightarrow> (u8 list) result" where
  "encode_data_like_message tag bytes =
     res_bind (validate_data_like_payload bytes) (\<lambda>_.
       if length bytes > u32_max then Inl (FrameTooLarge (length bytes) u32_max)
       else Inr ([tag] @ le32 (length bytes) @ bytes))"

definition encode_data_message :: "u8 list \<Rightarrow> (u8 list) result" where
  "encode_data_message bytes = encode_data_like_message DATA_TAG bytes"

text \<open>The slice the caller passes comes back with the frame at its front.\<close>

definition encode_data_like_message_into_slice :: "u8 \<Rightarrow> u8 list \<Rightarrow> u8 list \<Rightarrow> u8 list \<times> usize result" where
  "encode_data_like_message_into_slice tag bytes frame =
     (case validate_data_like_payload bytes of
        Inl e \<Rightarrow> (frame, Inl e)
      | Inr _ \<Rightarrow>
          let frame_len = 5 + length bytes
          in if length frame < frame_len
             then (frame, Inl (Encode (''attach frame buffer too small: need '' @ decimal frame_len @ '', have '' @ decimal (length frame))))
             else if length bytes > u32_max then (frame, Inl (FrameTooLarge (length bytes) u32_max))
             else ([tag] @ le32 (length bytes) @ bytes @ drop frame_len frame, Inr frame_len))"

definition encode_attach_data :: "u8 list \<Rightarrow> (u8 list) result" where
  "encode_attach_data bytes = encode_data_message bytes"

definition encode_attach_data_into_slice :: "u8 list \<Rightarrow> u8 list \<Rightarrow> u8 list \<times> usize result" where
  "encode_attach_data_into_slice bytes frame = encode_data_like_message_into_slice DATA_TAG bytes frame"

definition encode_structured_message :: "'a serializer \<Rightarrow> u8 \<Rightarrow> 'a \<Rightarrow> (u8 list) result" where
  "encode_structured_message ser tag message =
     (case ser message of
        Inl msg \<Rightarrow> Inl (Encode (''invalid attach structured frame: '' @ msg))
      | Inr bytes \<Rightarrow> encode_data_like_message tag bytes)"

definition encode_keystroke_message :: "attach_bincode \<Rightarrow> attached_keystroke \<Rightarrow> (u8 list) result" where
  "encode_keystroke_message bc k =
     (case key_windows k of
        Some key \<Rightarrow> encode_structured_message (fst (bc_windows bc)) WINDOWS_CONSOLE_KEYSTROKE_TAG (from_keystroke k key)
      | None \<Rightarrow> encode_structured_message (fst (bc_bytes bc)) KEYSTROKE_TAG (key_bytes k))"

definition encode_resize_message :: "terminal_size \<Rightarrow> u8 list" where
  "encode_resize_message s = [RESIZE_TAG] @ le16 (cols s) @ le16 (rows s)"

fun encode_attach_message :: "attach_bincode \<Rightarrow> attach_message \<Rightarrow> (u8 list) result" where
  "encode_attach_message bc (Data bytes) = encode_data_message bytes"
| "encode_attach_message bc (Render bytes) = encode_data_like_message RENDER_TAG bytes"
| "encode_attach_message bc (Keystroke k) = encode_keystroke_message bc k"
| "encode_attach_message bc (KeyDispatched r) = encode_structured_message (fst (bc_dispatched bc)) KEY_DISPATCHED_TAG r"
| "encode_attach_message bc (Resize s) = Inr (encode_resize_message s)"
| "encode_attach_message bc (ResizeGeometry g) = encode_structured_message (fst (bc_geometry bc)) RESIZE_GEOMETRY_TAG g"
| "encode_attach_message bc (Lock command) = encode_data_like_message LOCK_TAG command"
| "encode_attach_message bc (LockShellCommand c) = encode_structured_message (fst (bc_command bc)) LOCK_SHELL_COMMAND_TAG c"
| "encode_attach_message bc Unlock = Inr [UNLOCK_TAG]"
| "encode_attach_message bc Suspend = Inr [SUSPEND_TAG]"
| "encode_attach_message bc DetachKill = Inr [DETACH_KILL_TAG]"
| "encode_attach_message bc (DetachExec command) = encode_data_like_message DETACH_EXEC_TAG command"
| "encode_attach_message bc (DetachExecShellCommand c) =
     encode_structured_message (fst (bc_command bc)) DETACH_EXEC_SHELL_COMMAND_TAG c"

section \<open>Decoding\<close>

definition decode_attach_data_frame_with_limit :: "u8 list \<Rightarrow> usize \<Rightarrow> ((u8 list \<times> usize) option) result" where
  "decode_attach_data_frame_with_limit input lim =
     (if input = [] \<or> hd input \<noteq> DATA_TAG then Inr None
      else if length input < 5 then Inr None
      else let len = le_value (take 4 (drop 1 input))
           in if len > lim then Inl (FrameTooLarge len lim)
              else let frame_len = 5 + len
                   in if length input < frame_len then Inr None
                      else Inr (Some (take len (drop 5 input), frame_len)))"

definition decode_attach_data_frame :: "u8 list \<Rightarrow> ((u8 list \<times> usize) option) result" where
  "decode_attach_data_frame input = decode_attach_data_frame_with_limit input DEFAULT_MAX_FRAME_LENGTH"

record attach_decoder =
  ad_max_data_length :: usize
  ad_buffer :: "u8 list"

definition attach_decoder_with_max :: "usize \<Rightarrow> attach_decoder" where
  "attach_decoder_with_max n = \<lparr>ad_max_data_length = n, ad_buffer = []\<rparr>"

definition new_attach_decoder :: attach_decoder where
  "new_attach_decoder = attach_decoder_with_max DEFAULT_MAX_FRAME_LENGTH"

definition attach_push_bytes :: "u8 list \<Rightarrow> attach_decoder \<Rightarrow> attach_decoder" where
  "attach_push_bytes bytes d = d\<lparr>ad_buffer := ad_buffer d @ bytes\<rparr>"

definition attach_clear :: "attach_decoder \<Rightarrow> attach_decoder" where
  "attach_clear d = d\<lparr>ad_buffer := []\<rparr>"

definition next_data_payload_into :: "u8 list \<Rightarrow> attach_decoder \<Rightarrow> attach_decoder \<times> u8 list \<times> (u8 list) option result" where
  "next_data_payload_into scratch d =
     (let buf = ad_buffer d
      in if buf = [] \<or> hd buf \<noteq> DATA_TAG then (d, scratch, Inr None)
         else if length buf < 5 then (d, scratch, Inr None)
         else let len = le_value (take 4 (drop 1 buf))
              in if len > ad_max_data_length d
                 then (attach_clear d, scratch, Inl (FrameTooLarge len (ad_max_data_length d)))
                 else let required = 5 + len
                      in if length buf < required \<or> len > length scratch then (d, scratch, Inr None)
                         else let payload = take len (drop 5 buf)
                              in (d\<lparr>ad_buffer := drop required buf\<rparr>, payload @ drop len scratch, Inr (Some payload)))"

definition next_data_message :: "attach_decoder \<Rightarrow> attach_decoder \<times> attach_message option result" where
  "next_data_message d =
     (let buf = ad_buffer d
      in if length buf < 5 then (d, Inr None)
         else let len = le_value (take 4 (drop 1 buf))
              in if len > ad_max_data_length d then (attach_clear d, Inl (FrameTooLarge len (ad_max_data_length d)))
                 else if length buf < 5 + len then (d, Inr None)
                 else (d\<lparr>ad_buffer := drop len (drop 5 buf)\<rparr>, Inr (Some (Data (take len (drop 5 buf))))))"

definition next_resize_message :: "attach_decoder \<Rightarrow> attach_decoder \<times> attach_message option result" where
  "next_resize_message d =
     (let buf = ad_buffer d
      in if length buf < 5 then (d, Inr None)
         else let frame = take 5 buf
              in (d\<lparr>ad_buffer := drop 5 buf\<rparr>,
                  Inr (Some (Resize \<lparr>cols = le_value (take 2 (drop 1 frame)), rows = le_value (take 2 (drop 3 frame))\<rparr>))))"

definition next_data_like_message :: "u8 \<Rightarrow> attach_decoder \<Rightarrow> attach_decoder \<times> (u8 list) option result" where
  "next_data_like_message tag d =
     (let buf = ad_buffer d
      in if length buf < 5 then (d, Inr None)
         else let len = le_value (take 4 (drop 1 buf))
              in if len > ad_max_data_length d then (attach_clear d, Inl (FrameTooLarge len (ad_max_data_length d)))
                 else if length buf < 5 + len then (d, Inr None)
                 else if hd buf \<noteq> tag then (attach_clear d, Inl (Decode ''invalid attach data-like frame''))
                 else (d\<lparr>ad_buffer := drop len (drop 5 buf)\<rparr>, Inr (Some (take len (drop 5 buf)))))"

definition next_structured_message :: "'a deserializer \<Rightarrow> u8 \<Rightarrow> attach_decoder \<Rightarrow> attach_decoder \<times> 'a option result" where
  "next_structured_message des tag d =
     (case next_data_like_message tag d of
        (d', Inl e) \<Rightarrow> (d', Inl e)
      | (d', Inr None) \<Rightarrow> (d', Inr None)
      | (d', Inr (Some bytes)) \<Rightarrow>
          (d', case des bytes of Inl msg \<Rightarrow> Inl (Decode (''invalid attach structured frame: '' @ msg)) | Inr v \<Rightarrow> Inr (Some v)))"

definition next_single_tag_message ::
  "u8 \<Rightarrow> attach_message \<Rightarrow> string \<Rightarrow> attach_decoder \<Rightarrow> attach_decoder \<times> attach_message option result" where
  "next_single_tag_message tag message invalid d =
     (let buf = ad_buffer d
      in if length buf < 1 then (d, Inr None)
         else if hd buf \<noteq> tag then (attach_clear d, Inl (Decode invalid))
         else (d\<lparr>ad_buffer := drop 1 buf\<rparr>, Inr (Some message)))"

definition map_message :: "('a \<Rightarrow> 'b) \<Rightarrow> attach_decoder \<times> 'a option result \<Rightarrow> attach_decoder \<times> 'b option result" where
  "map_message f r = (fst r, map_sum id (map_option f) (snd r))"

definition next_render_message :: "attach_decoder \<Rightarrow> attach_decoder \<times> attach_message option result" where
  "next_render_message d = map_message Render (next_data_like_message RENDER_TAG d)"

definition next_resize_geometry_message :: "attach_bincode \<Rightarrow> attach_decoder \<Rightarrow> attach_decoder \<times> attach_message option result" where
  "next_resize_geometry_message bc d = map_message ResizeGeometry (next_structured_message (snd (bc_geometry bc)) RESIZE_GEOMETRY_TAG d)"

definition next_lock_message :: "attach_decoder \<Rightarrow> attach_decoder \<times> attach_message option result" where
  "next_lock_message d = map_message (\<lambda>bytes. Lock (from_utf8_lossy bytes)) (next_data_like_message LOCK_TAG d)"

definition next_lock_shell_command_message :: "attach_bincode \<Rightarrow> attach_decoder \<Rightarrow> attach_decoder \<times> attach_message option result" where
  "next_lock_shell_command_message bc d = map_message LockShellCommand (next_structured_message (snd (bc_command bc)) LOCK_SHELL_COMMAND_TAG d)"

definition next_unlock_message :: "attach_decoder \<Rightarrow> attach_decoder \<times> attach_message option result" where
  "next_unlock_message d = next_single_tag_message UNLOCK_TAG Unlock ''invalid attach unlock frame'' d"

definition next_suspend_message :: "attach_decoder \<Rightarrow> attach_decoder \<times> attach_message option result" where
  "next_suspend_message d = next_single_tag_message SUSPEND_TAG Suspend ''invalid attach suspend frame'' d"

definition next_detach_kill_message :: "attach_decoder \<Rightarrow> attach_decoder \<times> attach_message option result" where
  "next_detach_kill_message d = next_single_tag_message DETACH_KILL_TAG DetachKill ''invalid attach detach-kill frame'' d"

definition next_detach_exec_message :: "attach_decoder \<Rightarrow> attach_decoder \<times> attach_message option result" where
  "next_detach_exec_message d = map_message (\<lambda>bytes. DetachExec (from_utf8_lossy bytes)) (next_data_like_message DETACH_EXEC_TAG d)"

definition next_detach_exec_shell_command_message :: "attach_bincode \<Rightarrow> attach_decoder \<Rightarrow> attach_decoder \<times> attach_message option result" where
  "next_detach_exec_shell_command_message bc d = 
     map_message DetachExecShellCommand (next_structured_message (snd (bc_command bc)) DETACH_EXEC_SHELL_COMMAND_TAG d)"

definition next_keystroke_message :: "attach_bincode \<Rightarrow> attach_decoder \<Rightarrow> attach_decoder \<times> attach_message option result" where
  "next_keystroke_message bc d = 
     map_message (\<lambda>bytes. Keystroke (new_keystroke bytes)) (next_structured_message (snd (bc_bytes bc)) KEYSTROKE_TAG d)"

definition next_windows_console_keystroke_message :: "attach_bincode \<Rightarrow> attach_decoder \<Rightarrow> attach_decoder \<times> attach_message option result" where
  "next_windows_console_keystroke_message bc d = 
     map_message (\<lambda>k. Keystroke (into_keystroke k))
       (next_structured_message (snd (bc_windows bc)) WINDOWS_CONSOLE_KEYSTROKE_TAG d)"

definition next_key_dispatched_message :: "attach_bincode \<Rightarrow> attach_decoder \<Rightarrow> attach_decoder \<times> attach_message option result" where
  "next_key_dispatched_message bc d = map_message KeyDispatched (next_structured_message (snd (bc_dispatched bc)) KEY_DISPATCHED_TAG d)"

definition next_message :: "attach_bincode \<Rightarrow> attach_decoder \<Rightarrow> attach_decoder \<times> attach_message option result" where
  "next_message bc d =
     (if ad_buffer d = [] then (d, Inr None)
      else let tag = hd (ad_buffer d)
      in if tag = DATA_TAG then next_data_message d
      else if tag = RESIZE_TAG then next_resize_message d
      else if tag = LOCK_TAG then next_lock_message d
      else if tag = UNLOCK_TAG then next_unlock_message d
      else if tag = SUSPEND_TAG then next_suspend_message d
      else if tag = DETACH_KILL_TAG then next_detach_kill_message d
      else if tag = DETACH_EXEC_TAG then next_detach_exec_message d
      else if tag = KEYSTROKE_TAG then next_keystroke_message bc d
      else if tag = KEY_DISPATCHED_TAG then next_key_dispatched_message bc d
      else if tag = LOCK_SHELL_COMMAND_TAG then next_lock_shell_command_message bc d
      else if tag = DETACH_EXEC_SHELL_COMMAND_TAG then next_detach_exec_shell_command_message bc d
      else if tag = RESIZE_GEOMETRY_TAG then next_resize_geometry_message bc d
      else if tag = RENDER_TAG then next_render_message d
      else if tag = WINDOWS_CONSOLE_KEYSTROKE_TAG then next_windows_console_keystroke_message bc d
      else (attach_clear d, Inl (Decode (''unknown attach-stream message tag '' @ decimal (unat tag)))))"

lemmas next_wrappers = next_render_message_def next_resize_geometry_message_def next_lock_message_def
  next_lock_shell_command_message_def next_unlock_message_def next_suspend_message_def next_detach_kill_message_def
  next_detach_exec_message_def next_detach_exec_shell_command_message_def next_keystroke_message_def
  next_windows_console_keystroke_message_def next_key_dispatched_message_def

section \<open>Complete and partial messages\<close>

lemma max_frame_lengths: "DEFAULT_MAX_FRAME_LENGTH \<le> u32_max"
  by (simp add: DEFAULT_MAX_FRAME_LENGTH_def u32_max_def)

lemma encode_data_like_iff:
  "encode_data_like_message tag p = Inr f \<longleftrightarrow> length p \<le> DEFAULT_MAX_FRAME_LENGTH \<and> f = tag # le32 (length p) @ p"
  using max_frame_lengths by (auto simp: encode_data_like_message_def validate_data_like_payload_def)

lemma next_data_like_complete:
  assumes "ad_buffer d = tag # le32 (length p) @ p @ rest" "length p \<le> DEFAULT_MAX_FRAME_LENGTH"
    "DEFAULT_MAX_FRAME_LENGTH \<le> ad_max_data_length d"
  shows "next_data_like_message tag d = (d\<lparr>ad_buffer := rest\<rparr>, Inr (Some p))"
proof -
  have "le_value (le32 (length p)) = length p" using assms(2) max_frame_lengths by (simp add: le32_frame_value)
  then show ?thesis using assms by (simp add: next_data_like_message_def eval_nat_numeral)
qed

lemma next_data_like_partial:
  assumes "strict_prefix (ad_buffer d) (tag # le32 (length p) @ p)" "length p \<le> DEFAULT_MAX_FRAME_LENGTH"
    "DEFAULT_MAX_FRAME_LENGTH \<le> ad_max_data_length d"
  shows "next_data_like_message tag d = (d, Inr None)"
proof (cases "length (ad_buffer d) < 5")
  case False
  obtain s where s: "tag # le32 (length p) @ p = ad_buffer d @ s" "s \<noteq> []" using assms(1) by (auto simp: strict_prefix_def prefix_def)
  have "take 4 (drop 1 (ad_buffer d)) = take 4 (drop 1 (ad_buffer d @ s))" using False by simp
  also have "\<dots> = le32 (length p)" by (simp flip: s(1))
  finally have "le_value (take 4 (drop 1 (ad_buffer d))) = length p"
    using assms(2) max_frame_lengths by (simp add: le32_frame_value)
  moreover have "length (ad_buffer d) < 5 + length p" using prefix_length_less [OF assms(1)] by simp
  ultimately show ?thesis using assms(2,3) False by (simp add: next_data_like_message_def)
qed (simp add: next_data_like_message_def)

lemma next_data_message_eq:
  "ad_buffer d \<noteq> [] \<Longrightarrow> hd (ad_buffer d) = DATA_TAG \<Longrightarrow> next_data_message d = map_message Data (next_data_like_message DATA_TAG d)"
  by (simp add: next_data_message_def next_data_like_message_def map_message_def Let_def)

text \<open>
  The messages the sender may send: \<open>u16\<close> sizes, strings of well-formed UTF-8, and serialised values
  that the deserialiser reads back.
\<close>

definition reads_back :: "'a serializer \<times> 'a deserializer \<Rightarrow> 'a \<Rightarrow> bool" where
  "reads_back sd v \<longleftrightarrow> (\<forall>p. fst sd v = Inr p \<longrightarrow> snd sd p = Inr v)"

fun attach_ok :: "attach_bincode \<Rightarrow> attach_message \<Rightarrow> bool" where
  "attach_ok bc (Keystroke k) \<longleftrightarrow>
     (case key_windows k of None \<Rightarrow> reads_back (bc_bytes bc) (key_bytes k)
      | Some key \<Rightarrow> reads_back (bc_windows bc) (from_keystroke k key))"
| "attach_ok bc (KeyDispatched r) \<longleftrightarrow> reads_back (bc_dispatched bc) r"
| "attach_ok bc (Resize s) \<longleftrightarrow> cols s < 65536 \<and> rows s < 65536"
| "attach_ok bc (ResizeGeometry g) \<longleftrightarrow> reads_back (bc_geometry bc) g"
| "attach_ok bc (Lock c) \<longleftrightarrow> valid_utf8 c"
| "attach_ok bc (LockShellCommand c) \<longleftrightarrow> reads_back (bc_command bc) c"
| "attach_ok bc (DetachExec c) \<longleftrightarrow> valid_utf8 c"
| "attach_ok bc (DetachExecShellCommand c) \<longleftrightarrow> reads_back (bc_command bc) c"
| "attach_ok bc _ \<longleftrightarrow> True"

definition attach_frame :: "attach_bincode \<Rightarrow> attach_message \<Rightarrow> u8 list \<Rightarrow> bool" where
  "attach_frame bc m f \<longleftrightarrow> attach_ok bc m \<and> encode_attach_message bc m = Inr f"

lemma encode_structured_iff:
  "encode_structured_message ser tag v = Inr f \<longleftrightarrow>
     (\<exists>p. ser v = Inr p \<and> length p \<le> DEFAULT_MAX_FRAME_LENGTH \<and> f = tag # le32 (length p) @ p)"
  by (auto simp: encode_structured_message_def encode_data_like_iff split: sum.splits)

lemma keystroke_of_windows:
  "key_windows k = Some key \<Longrightarrow> into_keystroke (from_keystroke k key) = k"
  "key_windows k = None \<Longrightarrow> new_keystroke (key_bytes k) = k"
  by (simp_all add: into_keystroke_def from_keystroke_def new_keystroke_def with_windows_console_key_def)

text \<open>What a payload of each tag with a length header means.\<close>

definition structured :: "'a deserializer \<Rightarrow> ('a \<Rightarrow> attach_message) \<Rightarrow> u8 list \<Rightarrow> attach_message option result" where
  "structured des f p =
     (case des p of Inl msg \<Rightarrow> Inl (Decode (''invalid attach structured frame: '' @ msg)) | Inr v \<Rightarrow> Inr (Some (f v)))"

definition payload_meaning :: "attach_bincode \<Rightarrow> (u8 \<times> (u8 list \<Rightarrow> attach_message option result)) list" where
  "payload_meaning bc =
     [(DATA_TAG, \<lambda>p. Inr (Some (Data p))), (RENDER_TAG, \<lambda>p. Inr (Some (Render p))),
      (LOCK_TAG, \<lambda>p. Inr (Some (Lock (from_utf8_lossy p)))), (DETACH_EXEC_TAG, \<lambda>p. Inr (Some (DetachExec (from_utf8_lossy p)))),
      (KEYSTROKE_TAG, structured (snd (bc_bytes bc)) (\<lambda>b. Keystroke (new_keystroke b))),
      (WINDOWS_CONSOLE_KEYSTROKE_TAG, structured (snd (bc_windows bc)) (\<lambda>k. Keystroke (into_keystroke k))),
      (KEY_DISPATCHED_TAG, structured (snd (bc_dispatched bc)) KeyDispatched),
      (RESIZE_GEOMETRY_TAG, structured (snd (bc_geometry bc)) ResizeGeometry),
      (LOCK_SHELL_COMMAND_TAG, structured (snd (bc_command bc)) LockShellCommand),
      (DETACH_EXEC_SHELL_COMMAND_TAG, structured (snd (bc_command bc)) DetachExecShellCommand)]"

definition with_payload :: "(u8 list \<Rightarrow> attach_message option result) \<Rightarrow> attach_decoder \<times> (u8 list) option result \<Rightarrow>
    attach_decoder \<times> attach_message option result" where
  "with_payload g r = (fst r, res_bind (snd r) (\<lambda>q. case q of None \<Rightarrow> Inr None | Some p \<Rightarrow> g p))"

lemma with_payload_simps:
  "with_payload (\<lambda>p. Inr (Some (h p))) r = map_message h r"
  "with_payload (structured des k) (next_data_like_message tag d) = map_message k (next_structured_message des tag d)"
  by (auto simp: with_payload_def map_message_def structured_def next_structured_message_def
      split: sum.splits option.splits prod.splits) (cases "snd r"; auto split: option.splits)+

lemma next_message_payload:
  assumes "ad_buffer d = tag # t" "map_of (payload_meaning bc) tag = Some g"
  shows "next_message bc d = with_payload g (next_data_like_message tag d)"
proof -
  have "(tag, g) \<in> set (payload_meaning bc)" using assms(2) by (rule map_of_SomeD)
  then show ?thesis
    unfolding payload_meaning_def list.set insert_iff empty_iff prod.inject
    by (elim disjE conjE FalseE) (simp_all only: with_payload_simps, simp_all add: assms(1) next_message_def next_data_message_eq next_wrappers)
qed

text \<open>The forms of a message on the wire.\<close>

lemma attach_frame_cases:
  assumes "attach_frame bc m f"
  obtains (payload) tag p g where "f = tag # le32 (length p) @ p" "length p \<le> DEFAULT_MAX_FRAME_LENGTH"
      "map_of (payload_meaning bc) tag = Some g" "g p = Inr (Some m)"
  | (resize) s where "m = Resize s" "f = encode_resize_message s" "cols s < 65536" "rows s < 65536"
  | (single) tag where "f = [tag]" "(tag, m) \<in> {(UNLOCK_TAG, Unlock), (SUSPEND_TAG, Suspend), (DETACH_KILL_TAG, DetachKill)}"
proof (cases m)
  case (Keystroke k)
  then show ?thesis
    using assms payload [of KEYSTROKE_TAG] payload [of WINDOWS_CONSOLE_KEYSTROKE_TAG]
    by (cases "key_windows k")
      (auto simp: attach_frame_def encode_keystroke_message_def encode_structured_iff payload_meaning_def structured_def
        reads_back_def keystroke_of_windows)
next
  case (KeyDispatched x)
  then show ?thesis using assms payload [of KEY_DISPATCHED_TAG]
    by (auto simp: attach_frame_def encode_structured_iff payload_meaning_def structured_def reads_back_def)
next
  case (ResizeGeometry x)
  then show ?thesis using assms payload [of RESIZE_GEOMETRY_TAG]
    by (auto simp: attach_frame_def encode_structured_iff payload_meaning_def structured_def reads_back_def)
next
  case (LockShellCommand x)
  then show ?thesis using assms payload [of LOCK_SHELL_COMMAND_TAG]
    by (auto simp: attach_frame_def encode_structured_iff payload_meaning_def structured_def reads_back_def)
next
  case (DetachExecShellCommand x)
  then show ?thesis using assms payload [of DETACH_EXEC_SHELL_COMMAND_TAG]
    by (auto simp: attach_frame_def encode_structured_iff payload_meaning_def structured_def reads_back_def)
next
  case (Data x)
  then show ?thesis using assms payload [of DATA_TAG]
    by (auto simp: attach_frame_def encode_data_message_def encode_data_like_iff payload_meaning_def)
next
  case (Render x)
  then show ?thesis using assms payload [of RENDER_TAG]
    by (auto simp: attach_frame_def encode_data_like_iff payload_meaning_def)
next
  case (Lock x)
  then show ?thesis using assms payload [of LOCK_TAG]
    by (auto simp: attach_frame_def encode_data_like_iff payload_meaning_def lossy_of_valid)
next
  case (DetachExec x)
  then show ?thesis using assms payload [of DETACH_EXEC_TAG]
    by (auto simp: attach_frame_def encode_data_like_iff payload_meaning_def lossy_of_valid)
qed (use assms resize single in \<open>auto simp: attach_frame_def\<close>)

lemma next_resize:
  assumes "ad_buffer d = encode_resize_message s @ rest" "cols s < 65536" "rows s < 65536"
  shows "next_message bc d = (d\<lparr>ad_buffer := rest\<rparr>, Inr (Some (Resize s)))"
proof -
  obtain a b c e where le: "le16 (cols s) = [a, b]" "le16 (rows s) = [c, e]" by (simp add: le16_def)
  then have "le_value [a, b] = cols s" "le_value [c, e] = rows s"
    using le16_value [of "cols s"] le16_value [of "rows s"] assms(2,3) by simp_all
  then show ?thesis using assms(1) by (simp add: next_message_def next_resize_message_def encode_resize_message_def le)
qed

lemma next_message_complete:
  assumes "attach_frame bc m f" "ad_buffer d = f @ rest" "DEFAULT_MAX_FRAME_LENGTH \<le> ad_max_data_length d"
  shows "next_message bc d = (d\<lparr>ad_buffer := rest\<rparr>, Inr (Some m))"
  using assms(1)
proof (cases rule: attach_frame_cases)
  case (payload tag p g)
  have "next_data_like_message tag d = (d\<lparr>ad_buffer := rest\<rparr>, Inr (Some p))"
    by (rule next_data_like_complete) (use assms payload in simp_all)
  moreover have "next_message bc d = with_payload g (next_data_like_message tag d)"
    by (rule next_message_payload) (use assms payload in simp_all)
  ultimately show ?thesis using payload(4) by (simp add: with_payload_def)
next
  case (resize s)
  then show ?thesis using next_resize [of d s rest bc] assms(2) by simp
next
  case (single tag)
  then show ?thesis using assms(2) by (auto simp: next_message_def next_wrappers next_single_tag_message_def)
qed

lemma next_message_partial:
  assumes "attach_frame bc m f" "strict_prefix (ad_buffer d) f" "DEFAULT_MAX_FRAME_LENGTH \<le> ad_max_data_length d"
  shows "next_message bc d = (d, Inr None)"
proof (cases "ad_buffer d")
  case (Cons b t)
  show ?thesis using assms(1)
  proof (cases rule: attach_frame_cases)
    case (payload tag p g)
    then have "b = tag" using assms(2) Cons by (simp add: strict_prefix_def)
    moreover have "next_data_like_message tag d = (d, Inr None)"
      by (rule next_data_like_partial) (use assms payload in simp_all)
    ultimately show ?thesis using next_message_payload [of d tag t bc g] Cons payload(3) by (simp add: with_payload_def)
  next
    case (resize s)
    then have "b = RESIZE_TAG" using assms(2) Cons by (simp add: strict_prefix_def encode_resize_message_def)
    moreover have "length (ad_buffer d) < 5"
      using prefix_length_less [OF assms(2)] resize by (simp add: encode_resize_message_def)
    ultimately show ?thesis using Cons by (simp add: next_message_def next_resize_message_def)
  next
    case (single tag)
    then show ?thesis using prefix_length_less [OF assms(2)] Cons by simp
  qed
qed (simp add: next_message_def)

interpretation attached: stream_decoder attach_push_bytes "next_message bc" ad_buffer
  "\<lambda>d. ad_max_data_length d = lim \<and> DEFAULT_MAX_FRAME_LENGTH \<le> lim" "attach_frame bc" for bc lim
proof
  fix d :: attach_decoder and m f rest bs
  assume ok: "ad_max_data_length d = lim \<and> DEFAULT_MAX_FRAME_LENGTH \<le> lim"
  show "(ad_max_data_length (attach_push_bytes bs d) = lim \<and> DEFAULT_MAX_FRAME_LENGTH \<le> lim)
      \<and> ad_buffer (attach_push_bytes bs d) = ad_buffer d @ bs"
    using ok by (simp add: attach_push_bytes_def)
  show "attach_frame bc m f \<Longrightarrow> ad_buffer d = f @ rest \<Longrightarrow>
      \<exists>d'. next_message bc d = (d', Inr (Some m)) \<and> (ad_max_data_length d' = lim \<and> DEFAULT_MAX_FRAME_LENGTH \<le> lim) \<and> ad_buffer d' = rest"
    using next_message_complete [of bc m f d rest] ok by simp
  show "attach_frame bc m f \<Longrightarrow> strict_prefix (ad_buffer d) f \<Longrightarrow> next_message bc d = (d, Inr None)"
    using next_message_partial [of bc m f d] ok by blast
  show "ad_buffer d = [] \<Longrightarrow> next_message bc d = (d, Inr None)" by (simp add: next_message_def)
next
  fix m f
  assume "attach_frame bc m f"
  then show "f \<noteq> []" by (cases rule: attach_frame_cases) (simp_all add: encode_resize_message_def)
qed

section \<open>Fast paths for raw data\<close>

lemma encode_into_slice_iff:
  "encode_attach_data_into_slice bytes frame = (frame', Inr n) \<longleftrightarrow>
     (\<exists>f. encode_attach_data bytes = Inr f \<and> n = length f \<and> n \<le> length frame \<and> frame' = f @ drop n frame)"
  using max_frame_lengths
  by (auto simp: encode_attach_data_into_slice_def encode_data_like_message_into_slice_def encode_attach_data_def encode_data_message_def
      encode_data_like_message_def validate_data_like_payload_def Let_def)

text \<open>Only a data frame gives a data message.\<close>

lemma map_message_not:
  "(\<And>x. h x \<noteq> m) \<Longrightarrow> map_message h r \<noteq> (d', Inr (Some m))"
  by (cases r; cases "snd r") (auto simp: map_message_def)

lemma next_message_data_iff:
  "next_message bc d = (d', Inr (Some (Data p))) \<longleftrightarrow>
     ad_buffer d \<noteq> [] \<and> hd (ad_buffer d) = DATA_TAG \<and> next_data_message d = (d', Inr (Some (Data p)))"
  by (simp add: next_message_def next_wrappers next_single_tag_message_def map_message_not next_resize_message_def Let_def)

lemma decode_data_frame_iff:
  "decode_attach_data_frame_with_limit (ad_buffer d) (ad_max_data_length d) = Inr (Some (p, n)) \<longleftrightarrow>
     next_message bc d = (d\<lparr>ad_buffer := drop n (ad_buffer d)\<rparr>, Inr (Some (Data p))) \<and> n = 5 + length p"
  by (auto simp: next_message_data_iff decode_attach_data_frame_with_limit_def next_data_message_def Let_def add.commute [of _ 5] split: if_splits)

lemma next_payload_into_iff:
  "next_data_payload_into scratch d = (d', scratch', Inr (Some p)) \<longleftrightarrow>
     next_message bc d = (d', Inr (Some (Data p))) \<and> length p \<le> length scratch \<and> scratch' = p @ drop (length p) scratch"
  by (auto simp: next_message_data_iff next_data_payload_into_def next_data_message_def Let_def add.commute [of _ 5] split: if_splits)

end
