(* ===== verification/Codec_Spec.thy ===== *)
theory Codec_Spec
  imports Attach_Codec
begin

text \<open>
  The properties of the wire formats: detached frames and the attach stream. Values are serialised by
  the \<open>bincode\<close> crate; what the formats need of it is that deserialising the bytes of a value gives
  the value back, a hypothesis of the round trips that the witnesses meet with concrete functions.
\<close>

text \<open>
  C29: Frames encoded one after the other and cut into pieces at arbitrary places: pushing the pieces
  into a new decoder, and taking out what is complete after each, gives the values in their order,
  without an error, and leaves the decoder as it was new.
\<close>

theorem detached_stream_round_trip:
  assumes bincode: "\<forall>v \<in> set vs. \<forall>p. ser v = Inr p \<longrightarrow> des p = Inr v"
    and frames: "list_all2 (\<lambda>v f. encode_frame ser v = Inr f) vs fs"
    and pieces: "concat chunks = concat fs"
  shows "feed frame_push_bytes (next_frame des) (Suc (length fs)) chunks new_frame_decoder = (new_frame_decoder, Inr vs)"
proof -
  have "frame_of ser des DEFAULT_MAX_DETACHED_FRAME_LENGTH v f" if "encode_frame ser v = Inr f" "v \<in> set vs" for v f
    using that bincode by (auto simp: frame_of_def encode_frame_def split: sum.splits if_splits)
  then have "list_all2 (frame_of ser des DEFAULT_MAX_DETACHED_FRAME_LENGTH) vs fs"
    using frames by (auto simp: list_all2_conv_all_nth)
  then obtain d where "feed frame_push_bytes (next_frame des) (Suc (length fs)) chunks new_frame_decoder = (d, Inr vs)"
    "fd_max_frame_length d = DEFAULT_MAX_DETACHED_FRAME_LENGTH" "fd_buffer d = []"
    using detached.feed_frames [of new_frame_decoder DEFAULT_MAX_DETACHED_FRAME_LENGTH ser des vs fs chunks "Suc (length fs)"] pieces
    by (auto simp: new_frame_decoder_def frame_decoder_with_max_def)
  then show ?thesis by (cases d) (simp add: new_frame_decoder_def frame_decoder_with_max_def)
qed

text \<open>A serialiser of numbers for the witness: one byte, refusing larger numbers.\<close>

definition byte_ser :: "nat serializer" where
  "byte_ser n = (if n < 256 then Inr [of_nat n] else Inl ''too large'')"

definition byte_des :: "nat deserializer" where
  "byte_des bs = (case bs of [b] \<Rightarrow> Inr (unat b) | _ \<Rightarrow> Inl ''one byte expected'')"

theorem detached_stream_round_trip_witness:
  "feed frame_push_bytes (next_frame byte_des) (Suc (Suc (Suc 0))) [[0x52], [8, 1, 0, 0], [0, 7, 0x52, 8], [1, 0, 0, 0, 200]] new_frame_decoder
     = (new_frame_decoder, Inr [7, 200])"
proof -
  have bincode: "\<forall>v \<in> set [7, 200]. \<forall>p. byte_ser v = Inr p \<longrightarrow> byte_des p = Inr v"
    by (simp add: byte_ser_def byte_des_def)
  have frames: "list_all2 (\<lambda>v f. encode_frame byte_ser v = Inr f) [7, 200]
      [[0x52, 8, 1, 0, 0, 0, 7], [0x52, 8, 1, 0, 0, 0, 200]]"
    by (simp add: encode_frame_def byte_ser_def version_bytes RMUX_FRAME_MAGIC_def le32_def DEFAULT_MAX_DETACHED_FRAME_LENGTH_def
        DEFAULT_MAX_FRAME_LENGTH_def u32_max_def)
  show ?thesis
    using detached_stream_round_trip [OF bincode frames, of "[[0x52], [8, 1, 0, 0], [0, 7, 0x52, 8], [1, 0, 0, 0, 200]]"]
    by (simp del: feed.simps)
qed

text \<open>
  C31: The one-shot decoder of a frame and the incremental one agree: bytes are accepted in one shot
  with a value exactly when a new decoder that is given these bytes takes out the value and has no
  byte left.
\<close>

theorem one_shot_is_incremental:
  "decode_frame des f = Inr v \<longleftrightarrow>
     next_frame des (frame_push_bytes f new_frame_decoder) = (new_frame_decoder, Inr (Some v))"
  by (rule decode_frame_iff)

text \<open>
  C32: A detached decoder cannot be made to hold data without bound, and it never repeats an error:
  while it waits for more bytes it holds less than a header and a payload of the maximal length and
  is unchanged; after an error its buffer is empty, or only the header of an empty frame was dropped.
\<close>

theorem frame_decoder_bounded:
  "case next_frame des d of
     (d', Inr None) \<Rightarrow> d' = d \<and> length (fd_buffer d) < 6 + fd_max_frame_length d
   | (d', Inr (Some v)) \<Rightarrow> length (fd_buffer d') + 6 < length (fd_buffer d)
   | (d', Inl e) \<Rightarrow> if e = EmptyFrame then length (fd_buffer d) = 6 + length (fd_buffer d') else fd_buffer d' = []"
  using next_frame_waiting [of des d] next_frame_error [of des d] next_frame_value [of des d]
  by (auto split: prod.splits sum.splits option.splits)

text \<open>
  C30: Messages of the attach stream, encoded one after the other and cut into pieces at arbitrary
  places, come out of a new decoder in their order, without an error, and leave it empty. Strings
  have to be well-formed UTF-8 and sizes 16-bit numbers, as the types of the source guarantee.
\<close>

theorem attach_stream_round_trip:
  assumes frames: "list_all2 (\<lambda>m f. attach_ok bc m \<and> encode_attach_message bc m = Inr f) ms fs"
    and pieces: "concat chunks = concat fs"
  shows "feed attach_push_bytes (next_message bc) (Suc (length fs)) chunks new_attach_decoder = (new_attach_decoder, Inr ms)"
proof -
  have "list_all2 (attach_frame bc) ms fs" using frames by (simp add: attach_frame_def [abs_def])
  then obtain d where "feed attach_push_bytes (next_message bc) (Suc (length fs)) chunks new_attach_decoder = (d, Inr ms)"
    "ad_buffer d = []" "ad_max_data_length d = DEFAULT_MAX_FRAME_LENGTH"
    using attached.feed_frames [of new_attach_decoder DEFAULT_MAX_FRAME_LENGTH bc ms fs chunks "Suc (length fs)"] pieces
    by (auto simp: new_attach_decoder_def attach_decoder_with_max_def)
  then show ?thesis by (cases d) (simp add: new_attach_decoder_def attach_decoder_with_max_def)
qed

text \<open>
  Serialisers for the witness: the acknowledgement of a key as the number and the flag, every other
  structured type refused.
\<close>

definition refuse :: "'a serializer \<times> 'a deserializer" where
  "refuse = (\<lambda>_. Inl ''refused'', \<lambda>_. Inl ''refused'')"

definition dispatched_ser :: "key_dispatched serializer" where
  "dispatched_ser k = Inr (le32 (kd_byte_len k) @ [if kd_consumed k then 1 else 0])"

definition dispatched_des :: "key_dispatched deserializer" where
  "dispatched_des bs =
     (if length bs = 5 then Inr \<lparr>kd_byte_len = le_value (take 4 bs), kd_consumed = (bs ! 4 \<noteq> 0)\<rparr> else Inl ''five bytes expected'')"

definition witness_bincode :: attach_bincode where
  "witness_bincode = \<lparr>bc_bytes = refuse, bc_windows = refuse, bc_dispatched = (dispatched_ser, dispatched_des),
     bc_geometry = refuse, bc_command = refuse\<rparr>"

lemmas witness_bincode_defs = witness_bincode_def dispatched_ser_def dispatched_des_def reads_back_def new_key_dispatched_def

theorem attach_stream_round_trip_witness:
  "feed attach_push_bytes (next_message witness_bincode) (Suc (Suc (Suc (Suc (Suc (Suc 0))))))
     [[2, 80], [0, 24, 0, 4, 1, 2, 0, 0], [0, 104, 105, 9, 5, 0, 0, 0, 3, 0, 0, 0, 1, 3], [2, 0, 0, 0, 0xC3, 0xA9]] new_attach_decoder
   = (new_attach_decoder, Inr [Resize \<lparr>cols = 80, rows = 24\<rparr>, Unlock, Data [104, 105], KeyDispatched (new_key_dispatched 3), Lock [0xC3, 0xA9]])"
  (is "feed _ _ _ ?chunks _ = (_, Inr ?ms)")
proof -
  have "valid_utf8 [0xC3, 0xA9]"
    by (simp add: valid_utf8.simps utf8_step_def utf8_char_width_def is_continuation_def)
  then have "list_all2 (\<lambda>m f. attach_ok witness_bincode m \<and> encode_attach_message witness_bincode m = Inr f) ?ms
      [[2, 80, 0, 24, 0], [4], [1, 2, 0, 0, 0, 104, 105], [9, 5, 0, 0, 0, 3, 0, 0, 0, 1], [3, 2, 0, 0, 0, 0xC3, 0xA9]]"
    by (simp add: encode_resize_message_def encode_data_message_def encode_data_like_message_def validate_data_like_payload_def
        encode_structured_message_def witness_bincode_defs le16_def le32_def DEFAULT_MAX_FRAME_LENGTH_def u32_max_def)
  from attach_stream_round_trip [OF this, of ?chunks] show ?thesis by (simp del: feed.simps)
qed

text \<open>
  C33: The paths of raw data that avoid allocation agree with the general ones. Encoding into a slice
  writes exactly the frame of the general encoder at the front of the slice; decoding from a borrowed
  buffer and decoding into scratch memory give exactly the data messages of the general decoder, with
  the same number of bytes consumed, as far as they fit into the scratch memory.
\<close>

theorem attach_fast_paths_agree:
  "(encode_attach_data_into_slice bytes frame = (frame', Inr n) \<longleftrightarrow>
      (\<exists>f. encode_attach_message bc (Data bytes) = Inr f \<and> n = length f \<and> n \<le> length frame \<and> frame' = f @ drop n frame))
   \<and> (decode_attach_data_frame_with_limit (ad_buffer d) (ad_max_data_length d) = Inr (Some (p, n)) \<longleftrightarrow>
      next_message bc d = (d\<lparr>ad_buffer := drop n (ad_buffer d)\<rparr>, Inr (Some (Data p))) \<and> n = 5 + length p)
   \<and> (next_data_payload_into scratch d = (d', scratch', Inr (Some p)) \<longleftrightarrow>
      next_message bc d = (d', Inr (Some (Data p))) \<and> length p \<le> length scratch \<and> scratch' = p @ drop (length p) scratch)"
  using encode_into_slice_iff [of bytes frame frame' n] decode_data_frame_iff [of d p n bc]
    next_payload_into_iff [of scratch d d' scratch' p bc]
  by (simp add: encode_attach_data_def)

end
