(* ===== verification/Window_Numbered.thy ===== *)
theory Window_Numbered
  imports Window_Machine "HOL-Library.Multiset"
begin

text \<open>
  Windows as a session holds them: beside the invariant of a window, its panes are numbered by their
  position. Every operation that a session calls keeps this, and either keeps the panes of the window
  or changes them in the way stated.
\<close>

section \<open>Numbered windows\<close>

definition numbered :: "window \<Rightarrow> bool" where
  "numbered w \<longleftrightarrow> map p_index (w_panes w) = [0..<length (w_panes w)]"

definition window_ok :: "window \<Rightarrow> bool" where
  "window_ok w \<longleftrightarrow> window_inv w \<and> numbered w"

definition window_ids :: "window \<Rightarrow> u32 multiset" where
  "window_ids w = mset (map p_id (w_panes w))"

abbreviation keeps_panes :: "window \<Rightarrow> window \<Rightarrow> bool" where
  "keeps_panes w w' \<equiv> window_ok w' \<and> window_ids w' = window_ids w"

lemma window_okD: "window_ok w \<Longrightarrow> window_inv w" "window_ok w \<Longrightarrow> numbered w"
  by (simp_all add: window_ok_def)

lemma keys_keep: "window_ok w \<Longrightarrow> window_inv w' \<Longrightarrow> pane_keys w' = pane_keys w \<Longrightarrow> keeps_panes w w'"
  by (simp add: window_ok_def numbered_def window_ids_def keys_ids)

lemma roster_keep: "window_ok w \<Longrightarrow> keeps_roster w w' \<Longrightarrow> keeps_panes w w'"
  using keys_keep [of w w'] same_roster_keys [of w w'] by simp

lemma returns_keep:
  "window_ok w \<Longrightarrow> returns r (\<lambda>(w', x). keeps_roster w w') \<Longrightarrow> returns r (\<lambda>(w', x). keeps_panes w w')"
  by (erule returns_mono) (auto dest: roster_keep)

lemma window_ids_simps:
  "window_ids (w\<lparr>w_name := n\<rparr>) = window_ids w" "window_ids (w\<lparr>w_automatic_rename := r\<rparr>) = window_ids w"
  "window_ids (w\<lparr>w_old_layout := ol\<rparr>) = window_ids w" "numbered (w\<lparr>w_name := n\<rparr>) = numbered w"
  "numbered (w\<lparr>w_automatic_rename := r\<rparr>) = numbered w" "numbered (w\<lparr>w_old_layout := ol\<rparr>) = numbered w"
  by (simp_all add: window_ids_def numbered_def)

lemma plain_ok:
  assumes "window_ok w"
  shows "keeps_panes w (set_name w n)" "keeps_panes w (set_automatic_name w n)" "keeps_panes w (save_old_layout w)"
  using assms by (simp_all add: window_ok_def set_name_def set_automatic_name_def save_old_layout_def label_fields_inv
      window_inv_fields window_ids_simps)

text \<open>Numbers and positions are the same.\<close>

lemma numbered_nth: "numbered w \<Longrightarrow> i < length (w_panes w) \<Longrightarrow> p_index (w_panes w ! i) = i"
  unfolding numbered_def by (metis add_0 nth_map nth_upt)

lemma pane_at_numbered: "numbered w \<Longrightarrow> pane_at w k \<noteq> None \<longleftrightarrow> k < length (w_panes w)"
  unfolding numbered_def pane_at_index by simp

lemma position_numbered: "numbered w \<Longrightarrow> k < length (w_panes w) \<Longrightarrow> pane_position w k = Some k"
proof -
  assume n: "numbered w" and k: "k < length (w_panes w)"
  then have "\<exists>p \<in> set (w_panes w). p_index p = k" using numbered_nth [OF n k] nth_mem [OF k] by blast
  then obtain j where "pane_position w k = Some j"
    using position_None [of "\<lambda>p. p_index p = k" "w_panes w"] by (auto simp: pane_position_def)
  moreover from this have "j < length (w_panes w) \<and> p_index (w_panes w ! j) = k"
    using position_Some by (auto simp: pane_position_def)
  ultimately show ?thesis using numbered_nth [OF n, of j] by simp
qed

lemma pane_at_nth: "window_ok w \<Longrightarrow> k < length (w_panes w) \<Longrightarrow> pane_at w k = Some (w_panes w ! k)"
proof -
  assume w: "window_ok w" and k: "k < length (w_panes w)"
  then obtain p where p: "pane_at w k = Some p" using pane_at_numbered [OF window_okD(2) [OF w]] by auto
  then obtain j where j: "j < length (w_panes w)" "w_panes w ! j = p" using pane_at_Some [OF p] by (auto simp: in_set_conv_nth)
  then have "j = k" using numbered_nth [OF window_okD(2) [OF w]] pane_at_Some [OF p] by auto
  then show ?thesis using p j(2) by simp
qed

lemma fold_max_upt: "fold max [0..<Suc n] 0 = n" for n :: nat
  by (induction n) auto

section \<open>Selecting and zooming\<close>

lemma mark_active_keys: "pane_keys (mark_pane_active now w i) = pane_keys w"
  by (simp add: mark_pane_active_def pane_mut_def pane_keys_def keys_update_first Let_def)

lemma pane_mut_keys: "pane_keys (pane_mut w i (p_activity_at_update f)) = pane_keys w"
  by (simp add: pane_mut_def pane_keys_def keys_update_first)

lemma zoom_geometry_keys: "pane_keys (apply_zoom_geometry w) = pane_keys w"
  by (simp add: apply_zoom_geometry_def pane_mut_def pane_keys_def keys_update_first)

lemma pane_keys_fields [simp]:
  "pane_keys (w\<lparr>w_zoomed := z\<rparr>) = pane_keys w" "pane_keys (w\<lparr>w_zoom_restore_pending := z\<rparr>) = pane_keys w"
  "pane_keys (w\<lparr>w_active_pane := a\<rparr>) = pane_keys w" "pane_keys (w\<lparr>w_last_pane := l\<rparr>) = pane_keys w"
  by (simp_all add: pane_keys_def)

lemma pop_zoom_ok: "window_ok w \<Longrightarrow> keeps_panes w (pop_zoom w)"
  using pop_zoom_inv [of w] by (intro keys_keep) (simp_all add: window_ok_def pop_zoom_def zoom_geometry_keys Let_def)

lemma push_zoom_ok: "window_ok w \<Longrightarrow> returns (push_zoom w r) (\<lambda>(w', z). keeps_panes w w' \<and> same_roster w w')"
  by (rule returns_mono [OF push_zoom_inv]) (blast dest: window_okD roster_keep)+

lemma select_pane_keys:
  assumes "window_inv w" "select_pane now w i = Some (w', ok)"
  shows "pane_keys w' = pane_keys w"
proof -
  obtain w1 where w1: "unzoom w = Some w1" "relaid w w1" using unzoom_inv [OF assms(1)] by (auto elim: returnsE)
  show ?thesis using assms(2) w1(1) relaid_same(1) [OF w1(2)]
    by (auto simp: select_pane_def mark_active_keys pane_mut_keys Let_def split: if_splits)
qed

lemma select_pane_ok:
  assumes "window_ok w"
  shows "returns (select_pane now w i) (\<lambda>(w', ok). keeps_panes w w' \<and> (ok \<longleftrightarrow> i \<in> set (map p_index (w_panes w)))
    \<and> w_active_pane w' = (if ok then i else w_active_pane w))"
  using select_pane_inv [OF window_okD(1) [OF assms], of now i] select_pane_keys [OF window_okD(1) [OF assms]] keys_keep [OF assms]
  by (auto elim!: returnsE)

lemma select_pane_by_id_ok: "window_ok w \<Longrightarrow> returns (select_pane_by_id now w i) (\<lambda>(w', ok). keeps_panes w w')"
  using select_pane_ok by (fastforce simp: select_pane_by_id_def split: option.splits elim!: returns_mono)

lemma toggle_zoom_ok:
  assumes "window_ok w"
  shows "returns (toggle_zoom now w i) (\<lambda>(w', z). keeps_panes w w')"
proof -
  obtain w1 where w1: "unzoom w = Some w1" "relaid w w1" "window_inv w1"
    using unzoom_inv [OF window_okD(1) [OF assms]] by (auto elim: returnsE)
  obtain w2 ok where w2: "select_pane now w i = Some (w2, ok)" "keeps_panes w w2"
    using select_pane_ok [OF assms, of now i] by (auto elim!: returnsE)
  have "keeps_panes w2 (apply_zoom_geometry (w2\<lparr>w_zoomed := True\<rparr>))"
    using w2(2) by (intro keys_keep) (simp_all add: window_ok_def apply_zoom_geometry_inv window_inv_fields zoom_geometry_keys)
  then show ?thesis
    using assms w1(1) w2 keys_keep [OF assms w1(3) relaid_same(1) [OF w1(2)]] by (simp add: toggle_zoom_def)
qed

lemma select_adjacent_keys:
  assumes "window_inv w" "select_adjacent_pane now w i d = Some (w', r)"
  shows "pane_keys w' = pane_keys w"
  using assms select_pane_keys [OF assms(1)]
  by (auto simp: select_adjacent_pane_def bind_eq_Some_conv split: option.splits)

lemma select_adjacent_ok:
  assumes "window_ok w" "pane_at w i \<noteq> None"
  shows "returns (select_adjacent_pane now w i d) (\<lambda>(w', r). keeps_panes w w' \<and> r = Some (w_active_pane w'))"
proof -
  obtain s where "pane_at w i = Some s" using assms(2) by blast
  then show ?thesis
    using select_adjacent_pane_Some [OF window_okD(1) [OF assms(1)], of i s now d]
      select_adjacent_keys [OF window_okD(1) [OF assms(1)]] keys_keep [OF assms(1)]
    by (auto elim!: returnsE)
qed

section \<open>Creating and resizing\<close>

lemma new_window_ok: "returns (new_with_initial_pane now sz i wid) (\<lambda>w. window_ok w \<and> window_ids w = {#i#} \<and> w_id w = wid)"
proof -
  obtain w where w: "new_with_initial_pane now sz i wid = Some w" "window_inv w"
    using new_window_inv [of now sz i wid] by (auto elim: returnsE)
  let ?w0 = "\<lparr>w_id = wid, w_panes = [pane_new_with_id now i 0 (full_rect sz)], w_next_pane_index = 1,
        w_active_pane = 0, w_last_pane = None, w_layout = MainVertical, w_last_layout = None,
        w_layout_tree = Some (single sz), w_custom_layout = False, w_old_layout = None, w_size = sz,
        w_name = None, w_automatic_rename = True, w_zoomed = False, w_zoom_restore_pending = False,
        w_alert_flags = 0, w_alerts_queued = False, w_created_at = now, w_activity_at = now,
        w_requested_main_width = None, w_requested_main_height = None\<rparr>"
  have "pane_keys w = [(i, 0)] \<and> w_id w = wid"
    using w(1) by (auto simp: new_with_initial_pane_def recalculate_geometry_def pane_keys_def pane_new_with_id_def
        apply_to_panes_def bind_eq_Some_conv Let_def split: if_splits)
  then show ?thesis using w by (simp add: window_ok_def numbered_def window_ids_def keys_ids)
qed

lemma set_size_ok: "window_ok w \<Longrightarrow> returns (set_size w sz) (keeps_panes w)"
proof -
  assume w: "window_ok w"
  let ?w = "w\<lparr>w_size := sz\<rparr>"
  have "tree_inv ?w" "pane_keys ?w = pane_keys w" using w by (simp_all add: window_ok_def window_inv_def tree_inv_def pane_keys_def)
  then obtain w1 where w1: "recalculate_geometry ?w = Some w1" "pane_keys w1 = pane_keys w"
    using recalculate_geometry_returns [of ?w] relaid_same(1) by (auto elim!: returnsE)
  then have "pane_keys w' = pane_keys w" if "set_size w sz = Some w'" for w'
    using that by (auto simp: set_size_def zoom_geometry_keys)
  then show ?thesis using set_size_inv [OF window_okD(1) [OF w], of sz] keys_keep [OF w] by (auto elim!: returnsE)
qed

lemma respawn_ok: "window_ok (fst (respawn now w i)) \<and> window_ids (fst (respawn now w i)) = {#i#}"
  using respawn_inv [of now w i] by (simp add: window_ok_def numbered_def window_ids_def respawn_def pane_new_with_id_def)

section \<open>Splitting, removing, rotating and swapping\<close>

lemma mset_take_drop: "mset (take k xs) + mset (drop k xs) = mset xs"
  by (simp flip: mset_append)

lemma mset_list_insert: "mset (list_insert xs k x) = add_mset x (mset xs)"
  by (simp add: list_insert_def mset_take_drop)

lemma mset_list_remove: "k < length xs \<Longrightarrow> add_mset (xs ! k) (mset (list_remove xs k)) = mset xs"
  using mset_take_drop [of k xs] by (simp add: list_remove_def Cons_nth_drop_Suc [symmetric])

lemma mset_two_updates: "i < length xs \<Longrightarrow> j < length xs \<Longrightarrow> mset (xs[i := xs ! j, j := xs ! i]) = mset xs"
  by (simp add: mset_swap)

lemma fresh_id: "i \<notin># window_ids w \<longleftrightarrow> i \<notin> set (map p_id (w_panes w))"
  by (simp add: window_ids_def)

lemma split_ok:
  assumes "window_ok w" "pos < length (w_panes w)" "i \<notin># window_ids w" "Suc (length (w_panes w)) < u32_max"
  shows "returns (split_at_position_detached now w pos i d ahead detached)
    (\<lambda>(w', index). window_ok w' \<and> window_ids w' = add_mset i (window_ids w))"
proof -
  have "mset (list_insert (map p_id (w_panes w)) (if ahead then pos else pos + 1) i) = add_mset i (window_ids w)"
    using assms(2) by (simp add: mset_list_insert window_ids_def del: mset_map)
  then show ?thesis
    using split_inv [OF window_okD(1) [OF assms(1)] assms(2) _ assms(4), of i now d ahead detached] assms(3)
    by (auto simp: window_ok_def numbered_def window_ids_def fresh_id simp del: mset_map elim!: returns_mono)
qed

lemma mset_rotated: "xs \<noteq> [] \<Longrightarrow> mset (rotated d xs) = mset xs"
  by (cases d; cases xs rule: rev_cases) (auto simp: rotated_def hd_append tl_append split: list.splits)

lemma rotate_ok:
  assumes w: "window_ok w"
  shows "returns (rotate_panes_with_zoom now w d restore) (keeps_panes w)"
proof (cases "length (w_panes w) \<le> 1")
  case True
  then show ?thesis using w by (simp add: rotate_panes_with_zoom_def)
next
  case False
  note inv = window_okD(1) [OF w]
  obtain w1 w3 a l where w1: "window_inv w1" "same_roster w w1"
    and w3: "apply_layout_tree (w1\<lparr>w_panes := number_panes 0 (rotated d (w_panes w1))\<rparr>) = Some w3"
    and ids: "map p_id (w_panes w3) = rotated d (map p_id (w_panes w1))"
    and inv4: "window_inv (w3\<lparr>w_active_pane := a, w_last_pane := l\<rparr>)"
    and run: "rotate_panes_with_zoom now w d restore
       = Some (pop_zoom (mark_pane_active now (w3\<lparr>w_active_pane := a, w_last_pane := l\<rparr>) a))"
    using rotate_steps [OF inv False] by metis
  let ?w4 = "w3\<lparr>w_active_pane := a, w_last_pane := l\<rparr>"
  have "map p_index (w_panes w3) = [0..<length (w_panes w1)]" using rotate_applies [OF w1(1), of d] w3 by auto
  moreover have "length (w_panes w3) = length (w_panes w1)" using arg_cong [OF calculation, of length] by simp
  moreover have "window_ids w3 = window_ids w"
    using ids same_roster_ids(1) [OF w1(2)] mset_rotated [of "map p_id (w_panes w)" d] inv
    by (simp add: window_ids_def window_inv_def ids_inv_def del: mset_map)
  ultimately have "keeps_panes w ?w4" using inv4 by (simp add: window_ok_def numbered_def window_ids_def)
  moreover from this have "keeps_panes ?w4 (mark_pane_active now ?w4 a)"
    by (intro keys_keep) (simp_all add: window_ok_def mark_pane_active_inv mark_active_keys)
  ultimately show ?thesis using run pop_zoom_ok [of "mark_pane_active now ?w4 a"] by simp
qed

lemma swap_ok:
  assumes w: "window_ok w"
  shows "returns (swap_panes w a b) (\<lambda>(w', ok). keeps_panes w w')"
proof (cases "pane_position w a \<noteq> None \<and> pane_position w b \<noteq> None \<and> pane_position w a \<noteq> pane_position w b")
  case False
  then show ?thesis using w by (auto simp: swap_panes_def split: option.splits)
next
  case True
  then obtain i j where ij: "pane_position w a = Some i" "pane_position w b = Some j" "i \<noteq> j" by auto
  then have "i < length (w_panes w)" "j < length (w_panes w)" using position_Some by (auto simp: pane_position_def)
  then have "mset ((map p_id (w_panes w))[i := map p_id (w_panes w) ! j, j := map p_id (w_panes w) ! i]) = window_ids w"
    using mset_two_updates [of i "map p_id (w_panes w)" j] by (simp add: window_ids_def del: mset_map)
  then show ?thesis using swap_two_panes [OF window_okD(1) [OF w] ij]
    by (auto simp: window_ok_def numbered_def window_ids_def simp del: mset_map elim!: returns_mono)
qed

lemma extract_ok:
  assumes w: "window_ok w" and k: "k < length (w_panes w)" and two: "2 \<le> length (w_panes w)"
  shows "returns (extract_pane w k) (\<lambda>(w', r). window_ok w' \<and> (\<exists>p. r = Some p \<and> p_id p = p_id (w_panes w ! k)
    \<and> p_index p = k \<and> add_mset (p_id p) (window_ids w') = window_ids w \<and> length (w_panes w') = length (w_panes w) - 1))"
proof -
  obtain w' p where w': "extract_pane w k = Some (w', Some p)" "window_inv w'"
    "map p_id (w_panes w') = list_remove (map p_id (w_panes w)) k" "map p_index (w_panes w') = [0..<length (w_panes w')]"
    "p_id p = p_id (w_panes w ! k)" "p_index p = k"
    using extract_pane_inv [OF window_okD(1) [OF w] position_numbered [OF window_okD(2) [OF w] k] two] by (auto elim!: returnsE)
  have "add_mset (p_id p) (window_ids w') = window_ids w"
    using mset_list_remove [of k "map p_id (w_panes w)"] k w'(3,5) by (simp add: window_ids_def del: mset_map)
  moreover have "length (w_panes w') = length (list_remove (map p_id (w_panes w)) k)" using w'(3) by (metis length_map)
  ultimately show ?thesis using w' k by (simp add: window_ok_def numbered_def list_remove_def)
qed

text \<open>Taking the only pane leaves a window without panes, which the session then drops.\<close>

lemma extract_only:
  assumes "window_ok w" "length (w_panes w) = 1"
  shows "\<exists>w' p. extract_pane w 0 = Some (w', Some p) \<and> p_id p = p_id (w_panes w ! 0) \<and> p_index p = 0 \<and> w_panes w' = []"
proof -
  obtain w1 where w1: "unzoom w = Some w1" "relaid w w1"
    using unzoom_inv [OF window_okD(1) [OF assms(1)]] by (auto elim: returnsE)
  note same = same_roster_keys [OF relaid_roster [OF w1(2)]] same_roster_ids [OF relaid_roster [OF w1(2)]]
  obtain p where p: "w_panes w1 = [p]" using assms(2) same(3) by (metis length_Suc_conv length_0_conv One_nat_def)
  obtain q where q: "w_panes w = [q]" using assms(2) by (metis length_Suc_conv length_0_conv One_nat_def)
  have "p_id p = p_id q" "p_index p = 0" using same(1) p q window_okD(2) [OF assms(1)]
    by (simp_all add: pane_keys_def numbered_def)
  moreover obtain r where "active_pane w1 = Some r"
    using active_id [OF window_okD(1) [OF assms(1)]] roster_active(1) [OF relaid_roster [OF w1(2)]] by (metis map_option_eq_Some)
  ultimately show ?thesis
    using position_numbered [OF window_okD(2) [OF assms(1)], of 0] assms(2) w1(1) p q
    by (simp add: extract_pane_def list_get_def list_remove_def settle_extraction_def Let_def)
qed

end
