(* ===== verification/Session_State.thy ===== *)
theory Session_State
  imports Window_Machine Ordered_Map
begin

text \<open>
  Sessions (\<open>session.rs\<close>, \<open>session/types.rs\<close>, \<open>session/target_error.rs\<close>,
  \<open>session/window_ops.rs\<close>, \<open>session/window_ops/navigation.rs\<close> and the alert flags of
  \<open>session/accessors.rs\<close>): the windows of a session under their indexes, the current and the last
  window, and the operations that create, link, move, swap, renumber, select and remove windows.

  An operation returns the new session with a result; \<open>None\<close> is a panic. The two maps are the sorted
  lists of their entries. The counter of window ids is an \<open>Arc<AtomicU32>\<close> that sessions share
  through their store; the field of the session is the number in it when the operation starts. The
  clock and the token of \<open>SessionRecency::next\<close> are parameters.
\<close>

section \<open>State\<close>

record session =
  ss_id :: u32
  ss_name :: string
  ss_group_name :: "string option"
  ss_terminal_size :: terminal_size
  ss_windows :: "(u32 \<times> window) list"
  ss_winlink_alert_flags :: "(u32 \<times> alert_flags) list"
  ss_active_window :: u32
  ss_last_window :: "u32 option"
  ss_group_initial_window_id :: "u32 option"
  ss_next_pane_id :: u32
  ss_next_window_id :: u32
  ss_created_at :: i64
  ss_activity_at :: i64
  ss_last_attached_at :: "i64 option"
  ss_recency :: u64
  ss_cwd :: "string option"

type_synonym 'a session_result = "(session \<times> 'a result) option"

text \<open>The \<open>?\<close> operator between two operations on a session.\<close>

definition ss_bind :: "'a session_result \<Rightarrow> (session \<Rightarrow> 'a \<Rightarrow> 'b session_result) \<Rightarrow> 'b session_result" where
  "ss_bind m f = (case m of None \<Rightarrow> None | Some (s, Inl e) \<Rightarrow> Some (s, Inl e) | Some (s, Inr a) \<Rightarrow> f s a)"

definition WINLINK_ALERTFLAGS :: alert_flags where
  "WINLINK_ALERTFLAGS = 1 OR 2 OR 4"

definition new_with_initial_window ::
  "i64 \<Rightarrow> u64 \<Rightarrow> string \<Rightarrow> terminal_size \<Rightarrow> u32 \<Rightarrow> u32 \<Rightarrow> u32 \<Rightarrow> session option" where
  "new_with_initial_window now token name sz window_index pane_id window_id =
     do {
       w \<leftarrow> new_with_initial_pane now sz pane_id window_id;
       Some \<lparr>ss_id = 0, ss_name = name, ss_group_name = None, ss_terminal_size = sz, ss_windows = [(window_index, w)],
         ss_winlink_alert_flags = [(window_index, 0)], ss_active_window = window_index, ss_last_window = None,
         ss_group_initial_window_id = None, ss_next_pane_id = u32_sat_add pane_id 1,
         ss_next_window_id = u32_sat_add window_id 1, ss_created_at = now, ss_activity_at = now,
         ss_last_attached_at = None, ss_recency = token, ss_cwd = None\<rparr>
     }"

definition new_session :: "i64 \<Rightarrow> u64 \<Rightarrow> string \<Rightarrow> terminal_size \<Rightarrow> session option" where
  "new_session now token name sz = new_with_initial_window now token name sz 0 0 0"

section \<open>Errors\<close>

definition window_target_text :: "string \<Rightarrow> u32 \<Rightarrow> string" where
  "window_target_text name window_index = name @ '':'' @ decimal window_index"

definition pane_target_text :: "string \<Rightarrow> u32 \<Rightarrow> u32 \<Rightarrow> string" where
  "pane_target_text name window_index pane_index = name @ '':'' @ decimal window_index @ ''.'' @ decimal pane_index"

definition invalid_window_target_with_reason :: "string \<Rightarrow> u32 \<Rightarrow> string \<Rightarrow> rmux_error" where
  "invalid_window_target_with_reason name window_index reason = InvalidTarget (window_target_text name window_index) reason"

definition invalid_window_target :: "string \<Rightarrow> u32 \<Rightarrow> rmux_error" where
  "invalid_window_target name window_index =
     invalid_window_target_with_reason name window_index ''window index does not exist in session''"

definition invalid_pane_target :: "string \<Rightarrow> u32 \<Rightarrow> u32 \<Rightarrow> string \<Rightarrow> rmux_error" where
  "invalid_pane_target name window_index pane_index reason =
     InvalidTarget (pane_target_text name window_index pane_index) reason"

definition window_taken :: "session \<Rightarrow> u32 \<Rightarrow> rmux_error" where
  "window_taken s window_index =
     invalid_window_target_with_reason (ss_name s) window_index ''window index already exists in session''"

definition indexes_exhausted :: "session \<Rightarrow> rmux_error" where
  "indexes_exhausted s = Server (''window index space exhausted for session '' @ ss_name s)"

section \<open>Windows and alert flags\<close>

definition window_at :: "session \<Rightarrow> u32 \<Rightarrow> window option" where
  "window_at s window_index = map_of (ss_windows s) window_index"

definition put_window :: "u32 \<Rightarrow> window \<Rightarrow> session \<Rightarrow> session" where
  "put_window window_index w s = s\<lparr>ss_windows := bm_insert window_index w (ss_windows s)\<rparr>"

definition put_flags :: "u32 \<Rightarrow> alert_flags \<Rightarrow> session \<Rightarrow> session" where
  "put_flags window_index flags s =
     s\<lparr>ss_winlink_alert_flags := bm_insert window_index flags (ss_winlink_alert_flags s)\<rparr>"

definition winlink_alert_flags :: "session \<Rightarrow> u32 \<Rightarrow> alert_flags" where
  "winlink_alert_flags s window_index =
     (case map_of (ss_winlink_alert_flags s) window_index of None \<Rightarrow> 0 | Some flags \<Rightarrow> flags)"

definition session_alert_flags :: "session \<Rightarrow> alert_flags" where
  "session_alert_flags s = fold (\<lambda>(_, flags) acc. flags_insert acc flags) (ss_winlink_alert_flags s) 0"

definition alerted_window_indexes :: "session \<Rightarrow> u32 list" where
  "alerted_window_indexes s =
     map fst (filter (\<lambda>(_, flags). flags_intersects flags WINLINK_ALERTFLAGS) (ss_winlink_alert_flags s))"

definition has_alerts :: "session \<Rightarrow> bool" where
  "has_alerts s \<longleftrightarrow> list_ex (\<lambda>(_, flags). flags_intersects flags WINLINK_ALERTFLAGS) (ss_winlink_alert_flags s)"

definition add_winlink_alert_flags :: "u32 \<Rightarrow> alert_flags \<Rightarrow> session \<Rightarrow> session \<times> bool" where
  "add_winlink_alert_flags window_index flags s =
     (if window_at s window_index = None then (s, False)
      else let entry = winlink_alert_flags s window_index
           in (put_flags window_index (flags_insert entry flags) s, \<not> flags_contains entry flags))"

definition clear_winlink_alert_flags :: "u32 \<Rightarrow> alert_flags \<Rightarrow> session \<Rightarrow> session \<times> bool" where
  "clear_winlink_alert_flags window_index flags s =
     (case map_of (ss_winlink_alert_flags s) window_index of
        None \<Rightarrow> (s, False)
      | Some entry \<Rightarrow>
          if \<not> flags_intersects entry flags then (s, False)
          else (put_flags window_index (flags_remove entry flags) s, True))"

definition clear_all_winlink_alert_flags :: "u32 \<Rightarrow> session \<Rightarrow> session \<times> bool" where
  "clear_all_winlink_alert_flags window_index s = clear_winlink_alert_flags window_index WINLINK_ALERTFLAGS s"

section \<open>Allocating\<close>

definition contains_pane_id :: "session \<Rightarrow> u32 \<Rightarrow> bool" where
  "contains_pane_id s pane_id \<longleftrightarrow> list_ex (\<lambda>(_, w). list_ex (\<lambda>p. p_id p = pane_id) (w_panes w)) (ss_windows s)"

definition window_index_for_pane_id :: "session \<Rightarrow> u32 \<Rightarrow> u32 option" where
  "window_index_for_pane_id s pane_id =
     map_option fst (List.find (\<lambda>(_, w). list_ex (\<lambda>p. p_id p = pane_id) (w_panes w)) (ss_windows s))"

text \<open>The loop of \<open>allocate_pane_id\<close>; the assertion fails when every number up to the last is taken.\<close>

function free_pane_id :: "session \<Rightarrow> u32 \<Rightarrow> u32 option" where
  "free_pane_id s n =
     (if \<not> contains_pane_id s n then Some n else if n \<ge> u32_max then None else free_pane_id s (n + 1))"
  by pat_completeness auto
termination
  by (relation "measure (\<lambda>(s, n). u32_max - n)") auto

declare free_pane_id.simps [simp del]

definition allocate_pane_id :: "session \<Rightarrow> (session \<times> u32) option" where
  "allocate_pane_id s =
     do { pane_id \<leftarrow> free_pane_id s (ss_next_pane_id s); Some (s\<lparr>ss_next_pane_id := u32_sat_add pane_id 1\<rparr>, pane_id) }"

definition allocate_window_id :: "session \<Rightarrow> (session \<times> u32) option" where
  "allocate_window_id s =
     (if ss_next_window_id s = u32_max then None
      else Some (s\<lparr>ss_next_window_id := ss_next_window_id s + 1\<rparr>, ss_next_window_id s))"

definition bump_to :: "u32 \<Rightarrow> u32 \<Rightarrow> u32" where
  "bump_to n current = (if current < n then n else current)"

definition bump_allocators_for_window :: "window \<Rightarrow> session \<Rightarrow> session" where
  "bump_allocators_for_window w s =
     s\<lparr>ss_next_window_id := bump_to (u32_sat_add (w_id w) 1) (ss_next_window_id s),
       ss_next_pane_id := fold max (map (\<lambda>p. u32_sat_add (p_id p) 1) (w_panes w)) (ss_next_pane_id s)\<rparr>"

text \<open>The loop over the indexes in order; \<open>None\<close> when the numbers run out.\<close>

fun lowest_available :: "u32 list \<Rightarrow> u32 \<Rightarrow> u32 option" where
  "lowest_available [] n = Some n"
| "lowest_available (k # ks) n =
     (if k < n then lowest_available ks n
      else if k > n then Some n
      else if n = u32_max then None
      else lowest_available ks (n + 1))"

definition lowest_available_window_index_at_or_above :: "session \<Rightarrow> u32 \<Rightarrow> u32 result" where
  "lowest_available_window_index_at_or_above s minimum_index =
     (case lowest_available (map fst (ss_windows s)) minimum_index of
        None \<Rightarrow> Inl (indexes_exhausted s)
      | Some k \<Rightarrow> Inr k)"

section \<open>Selecting\<close>

definition select_window :: "u32 \<Rightarrow> session \<Rightarrow> session \<times> unit result" where
  "select_window window_index s =
     (if window_at s window_index = None then (s, Inl (invalid_window_target (ss_name s) window_index))
      else if ss_active_window s \<noteq> window_index then
        (fst (clear_all_winlink_alert_flags window_index
               (s\<lparr>ss_last_window := Some (ss_active_window s), ss_active_window := window_index,
                  ss_group_initial_window_id := None\<rparr>)), Inr ())
      else (s, Inr ()))"

definition ordered_window_indexes_after :: "session \<Rightarrow> u32 \<Rightarrow> bool \<Rightarrow> u32 list" where
  "ordered_window_indexes_after s start_window forward =
     (let ordered = map fst (ss_windows s); len = length ordered
      in case position (\<lambda>k. k = start_window) ordered of
           None \<Rightarrow> []
         | Some i \<Rightarrow>
             map (\<lambda>offset. ordered ! (if forward then (i + offset) mod len else (i + len - offset) mod len)) [1..<len])"

definition step_window :: "string \<Rightarrow> bool \<Rightarrow> bool \<Rightarrow> session \<Rightarrow> session \<times> u32 result" where
  "step_window missing forward alerts_only s =
     (if length (ss_windows s) \<le> 1 then (s, Inl (Message missing))
      else case List.find
             (\<lambda>k. \<not> alerts_only \<or> flags_intersects (winlink_alert_flags s k) WINLINK_ALERTFLAGS)
             (ordered_window_indexes_after s (ss_active_window s) forward) of
        None \<Rightarrow> (s, Inl (Message missing))
      | Some k \<Rightarrow> (case select_window k s of (s', r) \<Rightarrow> (s', res_bind r (\<lambda>_. Inr k))))"

definition next_window_alert_mode :: "bool \<Rightarrow> session \<Rightarrow> session \<times> u32 result" where
  "next_window_alert_mode alerts_only s = step_window ''no next window'' True alerts_only s"

definition previous_window_alert_mode :: "bool \<Rightarrow> session \<Rightarrow> session \<times> u32 result" where
  "previous_window_alert_mode alerts_only s = step_window ''no previous window'' False alerts_only s"

definition last_window :: "session \<Rightarrow> session \<times> u32 result" where
  "last_window s =
     (case ss_last_window s of
        None \<Rightarrow> (s, Inl (Message ''no last window''))
      | Some k \<Rightarrow> (case select_window k s of (s', r) \<Rightarrow> (s', res_bind r (\<lambda>_. Inr k))))"

definition restore_last_window_after_active_unlink :: "session \<Rightarrow> session" where
  "restore_last_window_after_active_unlink s =
     (if ss_last_window s \<noteq> None then s
      else s\<lparr>ss_last_window :=
               (case ordered_window_indexes_after s (ss_active_window s) True of [] \<Rightarrow> None | k # _ \<Rightarrow> Some k)\<rparr>)"

definition cyclic_previous_window_index :: "(u32 \<times> window) list \<Rightarrow> u32 \<Rightarrow> u32 option" where
  "cyclic_previous_window_index windows removed_index =
     (let below = filter (\<lambda>k. k < removed_index) (map fst windows);
          above = filter (\<lambda>k. removed_index < k) (map fst windows)
      in if below \<noteq> [] then Some (last below) else if above \<noteq> [] then Some (last above) else None)"

text \<open>The last two choices of \<open>next_active_window_after_removal\<close>: the first window of the group, the previous window.\<close>

definition after_group_window :: "session \<Rightarrow> u32 \<Rightarrow> u32 option" where
  "after_group_window s removed_index =
     (case Option.bind (ss_group_initial_window_id s)
             (\<lambda>i. List.find (\<lambda>(k, w). k \<noteq> removed_index \<and> w_id w = i) (ss_windows s)) of
        Some (k, _) \<Rightarrow> Some k
      | None \<Rightarrow> cyclic_previous_window_index (ss_windows s) removed_index)"

definition next_active_window_after_removal :: "session \<Rightarrow> u32 \<Rightarrow> u32 option" where
  "next_active_window_after_removal s removed_index =
     (case ss_last_window s of
        Some l \<Rightarrow>
          if l \<noteq> removed_index \<and> window_at s l \<noteq> None then Some l else after_group_window s removed_index
      | None \<Rightarrow> after_group_window s removed_index)"

section \<open>Creating and linking\<close>

definition add_window :: "u32 \<Rightarrow> window \<Rightarrow> session \<Rightarrow> session" where
  "add_window window_index w s = put_flags window_index 0 (put_window window_index w s)"

definition create_window_at_or_above_with_pane_id ::
  "i64 \<Rightarrow> terminal_size \<Rightarrow> u32 \<Rightarrow> u32 \<Rightarrow> session \<Rightarrow> (u32 \<times> u32) session_result" where
  "create_window_at_or_above_with_pane_id now sz minimum_index pane_id s =
     (case lowest_available_window_index_at_or_above s minimum_index of
        Inl e \<Rightarrow> Some (s, Inl e)
      | Inr window_index \<Rightarrow>
          do {
            (s1, window_id) \<leftarrow> allocate_window_id s;
            w \<leftarrow> new_with_initial_pane now sz pane_id window_id;
            Some (add_window window_index w s1, Inr (window_index, pane_id))
          })"

definition create_window_at_or_above :: "i64 \<Rightarrow> terminal_size \<Rightarrow> u32 \<Rightarrow> session \<Rightarrow> (u32 \<times> u32) session_result" where
  "create_window_at_or_above now sz minimum_index s =
     do { (s1, pane_id) \<leftarrow> allocate_pane_id s; create_window_at_or_above_with_pane_id now sz minimum_index pane_id s1 }"

definition create_window :: "i64 \<Rightarrow> terminal_size \<Rightarrow> session \<Rightarrow> (u32 \<times> u32) session_result" where
  "create_window now sz s = create_window_at_or_above now sz 0 s"

definition insert_window_with_initial_pane_with_id ::
  "i64 \<Rightarrow> u32 \<Rightarrow> terminal_size \<Rightarrow> u32 \<Rightarrow> session \<Rightarrow> unit session_result" where
  "insert_window_with_initial_pane_with_id now window_index sz pane_id s =
     (if window_at s window_index \<noteq> None then Some (s, Inl (window_taken s window_index))
      else do {
        (s1, window_id) \<leftarrow> allocate_window_id s;
        w \<leftarrow> new_with_initial_pane now sz pane_id window_id;
        Some (add_window window_index w s1, Inr ())
      })"

definition insert_window_with_initial_pane :: "i64 \<Rightarrow> u32 \<Rightarrow> terminal_size \<Rightarrow> session \<Rightarrow> unit session_result" where
  "insert_window_with_initial_pane now window_index sz s =
     do { (s1, pane_id) \<leftarrow> allocate_pane_id s; insert_window_with_initial_pane_with_id now window_index sz pane_id s1 }"

definition insert_existing_window :: "u32 \<Rightarrow> window \<Rightarrow> session \<Rightarrow> session \<times> unit result" where
  "insert_existing_window window_index w s =
     (if window_at s window_index \<noteq> None then (s, Inl (window_taken s window_index))
      else (add_window window_index w (bump_allocators_for_window w s), Inr ()))"

definition replace_window :: "u32 \<Rightarrow> window \<Rightarrow> session \<Rightarrow> session \<times> window result" where
  "replace_window window_index w s =
     (case window_at s window_index of
        None \<Rightarrow> (s, Inl (invalid_window_target (ss_name s) window_index))
      | Some old \<Rightarrow> (put_window window_index w (bump_allocators_for_window w s), Inr old))"

definition link_window :: "u32 \<Rightarrow> window \<Rightarrow> bool \<Rightarrow> bool \<Rightarrow> session \<Rightarrow> session \<times> window option result" where
  "link_window window_index w kill_destination select_destination s =
     (if window_at s window_index \<noteq> None \<and> \<not> kill_destination then (s, Inl (window_taken s window_index))
      else case (if kill_destination
                 then (case replace_window window_index w s of
                         (s1, Inl e) \<Rightarrow> (s1, Inl e)
                       | (s1, Inr old) \<Rightarrow> (fst (clear_all_winlink_alert_flags window_index s1), Inr (Some old)))
                 else (case insert_existing_window window_index w s of (s1, r) \<Rightarrow> (s1, res_bind r (\<lambda>_. Inr None)))) of
        (s2, Inl e) \<Rightarrow> (s2, Inl e)
      | (s2, Inr removed) \<Rightarrow>
          if select_destination
          then (case select_window window_index s2 of (s3, r) \<Rightarrow> (s3, res_bind r (\<lambda>_. Inr removed)))
          else (s2, Inr removed))"

section \<open>Removing\<close>

definition drop_window :: "u32 \<Rightarrow> session \<Rightarrow> session" where
  "drop_window window_index s =
     s\<lparr>ss_windows := bm_remove window_index (ss_windows s),
       ss_winlink_alert_flags := bm_remove window_index (ss_winlink_alert_flags s)\<rparr>"

definition forget_last :: "u32 \<Rightarrow> session \<Rightarrow> session" where
  "forget_last window_index s = (if ss_last_window s = Some window_index then s\<lparr>ss_last_window := None\<rparr> else s)"

definition remove_window_allowing_empty :: "u32 \<Rightarrow> session \<Rightarrow> window session_result" where
  "remove_window_allowing_empty window_index s =
     (case window_at s window_index of
        None \<Rightarrow> Some (s, Inl (invalid_window_target (ss_name s) window_index))
      | Some removed \<Rightarrow>
          if ss_active_window s = window_index \<and> length (ss_windows s) > 1 then
            do {
              next_active \<leftarrow> next_active_window_after_removal s window_index;
              (case select_window next_active (drop_window window_index s) of
                 (s1, Inl e) \<Rightarrow> None
               | (s1, Inr _) \<Rightarrow> Some (forget_last window_index s1, Inr removed))
            }
          else Some (forget_last window_index (drop_window window_index s), Inr removed))"

definition remove_window :: "u32 \<Rightarrow> session \<Rightarrow> window session_result" where
  "remove_window window_index s =
     (if window_at s window_index = None then Some (s, Inl (invalid_window_target (ss_name s) window_index))
      else if length (ss_windows s) = 1
      then Some (s, Inl (Server (''cannot kill the only window in session '' @ ss_name s)))
      else remove_window_allowing_empty window_index s)"

section \<open>Renaming and other operations on one window\<close>

text \<open>\<open>resolve_window_target_mut\<close> followed by an operation on the window.\<close>

definition in_window :: "u32 \<Rightarrow> (window \<Rightarrow> (window \<times> 'a result) option) \<Rightarrow> session \<Rightarrow> 'a session_result" where
  "in_window window_index f s =
     (case window_at s window_index of
        None \<Rightarrow> Some (s, Inl (invalid_window_target (ss_name s) window_index))
      | Some w \<Rightarrow> do { (w', r) \<leftarrow> f w; Some (put_window window_index w' s, r) })"

definition rename_window :: "u32 \<Rightarrow> string \<Rightarrow> session \<Rightarrow> unit session_result" where
  "rename_window window_index name s = in_window window_index (\<lambda>w. Some (set_name w name, Inr ())) s"

definition set_automatic_window_name :: "u32 \<Rightarrow> string \<Rightarrow> session \<Rightarrow> unit session_result" where
  "set_automatic_window_name window_index name s =
     in_window window_index
       (\<lambda>w. Some (if w_automatic_rename w then set_automatic_name w name else w, Inr ())) s"

definition rotate_window_with_zoom :: "i64 \<Rightarrow> u32 \<Rightarrow> rotate_direction \<Rightarrow> bool \<Rightarrow> session \<Rightarrow> unit session_result" where
  "rotate_window_with_zoom now window_index d restore_zoom s =
     in_window window_index (\<lambda>w. do { w' \<leftarrow> rotate_panes_with_zoom now w d restore_zoom; Some (w', Inr ()) }) s"

definition resize_window :: "u32 \<Rightarrow> terminal_size \<Rightarrow> session \<Rightarrow> unit session_result" where
  "resize_window window_index sz s = in_window window_index (\<lambda>w. do { w' \<leftarrow> set_size w sz; Some (w', Inr ()) }) s"

definition respawn_window_with_pane_id :: "i64 \<Rightarrow> u32 \<Rightarrow> u32 \<Rightarrow> session \<Rightarrow> u32 session_result" where
  "respawn_window_with_pane_id now window_index pane_id s =
     in_window window_index (\<lambda>w. Some (fst (respawn now w pane_id), Inr pane_id)) s"

definition respawn_window :: "i64 \<Rightarrow> u32 \<Rightarrow> session \<Rightarrow> u32 session_result" where
  "respawn_window now window_index s =
     (case window_at s window_index of
        None \<Rightarrow> Some (s, Inl (invalid_window_target (ss_name s) window_index))
      | Some w \<Rightarrow>
          (case w_panes w of
             [] \<Rightarrow> Some (s, Inl (Server ''window has no panes''))
           | p # _ \<Rightarrow> respawn_window_with_pane_id now window_index (p_id p) s))"

section \<open>Moving, swapping and renumbering\<close>

definition next_active_window_after_detach :: "session \<Rightarrow> u32 \<Rightarrow> u32 option \<Rightarrow> u32 option" where
  "next_active_window_after_detach s removed_index previous_last =
     (case previous_last of
        Some l \<Rightarrow>
          if l \<noteq> removed_index \<and> window_at s l \<noteq> None then Some l
          else cyclic_previous_window_index (ss_windows s) removed_index
      | None \<Rightarrow> cyclic_previous_window_index (ss_windows s) removed_index)"

definition keep_if :: "('a \<Rightarrow> bool) \<Rightarrow> 'a option \<Rightarrow> 'a option" where
  "keep_if P x = (case x of None \<Rightarrow> None | Some a \<Rightarrow> if P a then Some a else None)"

definition preserved_last_after_selecting_destination :: "session \<Rightarrow> u32 \<Rightarrow> u32 \<Rightarrow> u32 option \<Rightarrow> u32 option" where
  "preserved_last_after_selecting_destination s source_index destination_index previous_last =
     keep_if (\<lambda>k. k \<noteq> source_index \<and> k \<noteq> destination_index \<and> window_at s k \<noteq> None) previous_last"

definition apply_move_tracking :: "u32 \<Rightarrow> u32 \<Rightarrow> u32 \<Rightarrow> u32 option \<Rightarrow> bool \<Rightarrow> session \<Rightarrow> session option" where
  "apply_move_tracking source_index destination_index previous_active previous_last select_destination s =
     do {
       active \<leftarrow>
         (if previous_active = source_index
          then if select_destination then Some destination_index
               else next_active_window_after_detach s source_index previous_last
          else if select_destination then Some destination_index else Some previous_active);
       let last =
         (if previous_active = source_index
          then if select_destination
               then preserved_last_after_selecting_destination s source_index destination_index previous_last
               else None
          else if select_destination
          then if previous_active = destination_index
               then preserved_last_after_selecting_destination s source_index destination_index previous_last
               else Some previous_active
          else if previous_last = Some source_index then None
          else keep_if (\<lambda>k. window_at s k \<noteq> None) previous_last);
       Some (s\<lparr>ss_active_window := active, ss_last_window := (if last = Some active then None else last)\<rparr>)
     }"

definition move_window :: "u32 \<Rightarrow> u32 \<Rightarrow> bool \<Rightarrow> bool \<Rightarrow> session \<Rightarrow> window option session_result" where
  "move_window source_index destination_index kill_destination select_destination s =
     (case window_at s source_index of
        None \<Rightarrow> Some (s, Inl (invalid_window_target (ss_name s) source_index))
      | Some moved \<Rightarrow>
          if source_index = destination_index then Some (s, Inr None)
          else if window_at s destination_index \<noteq> None \<and> \<not> kill_destination
          then Some (s, Inl (window_taken s destination_index))
          else
            let flags = winlink_alert_flags s source_index;
                removed = (if kill_destination then window_at s destination_index else None);
                s1 = drop_window source_index s;
                s2 = (if kill_destination then drop_window destination_index s1 else s1);
                s3 = put_flags destination_index flags (put_window destination_index moved s2)
            in do {
                 s4 \<leftarrow> apply_move_tracking source_index destination_index (ss_active_window s) (ss_last_window s)
                         select_destination s3;
                 Some (s4, Inr removed)
               })"

definition swap_windows :: "u32 \<Rightarrow> u32 \<Rightarrow> session \<Rightarrow> session \<times> unit result" where
  "swap_windows source_index destination_index s =
     (case window_at s source_index of
        None \<Rightarrow> (s, Inl (invalid_window_target (ss_name s) source_index))
      | Some source_window \<Rightarrow>
          (case window_at s destination_index of
             None \<Rightarrow> (s, Inl (invalid_window_target (ss_name s) destination_index))
           | Some destination_window \<Rightarrow>
               if source_index = destination_index then (s, Inr ())
               else
                 let source_flags = winlink_alert_flags s source_index;
                     destination_flags = winlink_alert_flags s destination_index;
                     s1 = drop_window destination_index (drop_window source_index s)
                 in (put_flags destination_index source_flags (put_flags source_index destination_flags
                       (put_window destination_index source_window (put_window source_index destination_window s1))),
                     Inr ())))"

text \<open>The loop of \<open>make_room_for_window\<close> over the indexes to shift, from the highest down.\<close>

fun make_room_loop :: "u32 list \<Rightarrow> (u32 \<times> u32) list \<Rightarrow> session \<Rightarrow> (u32 \<times> u32) list session_result" where
  "make_room_loop [] index_map s = Some (s, Inr index_map)"
| "make_room_loop (k # ks) index_map s =
     (if k = u32_max then Some (s, Inl (indexes_exhausted s))
      else ss_bind (move_window k (k + 1) False False s) (\<lambda>s1 _. make_room_loop ks (bm_insert k (k + 1) index_map) s1))"

definition make_room_for_window :: "u32 \<Rightarrow> session \<Rightarrow> (u32 \<times> u32) list session_result" where
  "make_room_for_window window_index s =
     (case lowest_available_window_index_at_or_above s window_index of
        Inl e \<Rightarrow> Some (s, Inl e)
      | Inr first_gap \<Rightarrow>
          if first_gap = window_index then Some (s, Inr [])
          else make_room_loop (rev [window_index..<first_gap]) [] s)"

text \<open>The loop of \<open>reindex_windows_from\<close>: the windows under their new indexes, and the map of indexes.\<close>

fun reindex_loop :: "u32 \<Rightarrow> (u32 \<times> window) list \<Rightarrow> ((u32 \<times> window) list \<times> (u32 \<times> u32) list) option" where
  "reindex_loop n [] = Some ([], [])"
| "reindex_loop n ((k, w) # rest) =
     (if rest = [] then Some ([(n, w)], [(k, n)])
      else if n = u32_max then None
      else do { (ws, m) \<leftarrow> reindex_loop (n + 1) rest; Some ((n, w) # ws, (k, n) # m) })"

definition bm_of_list :: "('k::linorder \<times> 'v) list \<Rightarrow> ('k \<times> 'v) list" where
  "bm_of_list xs = fold (\<lambda>(k, v) m. bm_insert k v m) xs []"

definition reindex_windows_from :: "u32 \<Rightarrow> session \<Rightarrow> (u32 \<times> u32) list session_result" where
  "reindex_windows_from first_index s =
     (if ss_windows s \<noteq> [] \<and> first_index + u32_wrap (length (ss_windows s) - 1) > u32_max
      then Some (s, Inl (indexes_exhausted s))
      else case reindex_loop first_index (ss_windows s) of
        None \<Rightarrow> Some (s\<lparr>ss_windows := []\<rparr>, Inl (indexes_exhausted s))
      | Some (reindexed, index_map) \<Rightarrow>
          do {
            active \<leftarrow> map_of index_map (ss_active_window s);
            Some (s\<lparr>ss_windows := reindexed,
                    ss_winlink_alert_flags := bm_of_list (List.map_filter
                      (\<lambda>(k, flags). map_option (\<lambda>n. (n, flags)) (map_of index_map k)) (ss_winlink_alert_flags s)),
                    ss_active_window := active,
                    ss_last_window := Option.bind (ss_last_window s) (map_of index_map)\<rparr>, Inr index_map)
          })"

definition reindex_windows :: "session \<Rightarrow> (u32 \<times> u32) list session_result" where
  "reindex_windows s = reindex_windows_from 0 s"

end
