(* ===== verification/Session_Panes.thy ===== *)
theory Session_Panes
  imports Session_State
begin

text \<open>
  The operations of a session on its panes (\<open>session.rs\<close>, \<open>session/resize.rs\<close>,
  \<open>session/layout_cycle.rs\<close>, \<open>session/pane_transfer.rs\<close>, \<open>session/pane_transfer_shared.rs\<close>,
  \<open>session/pane_transfer/break_window.rs\<close>): splitting, killing, selecting and resizing panes of a
  window, choosing its layout, swapping two panes, joining a pane to a window and breaking a pane out
  into a window of its own.
\<close>

section \<open>Splitting and killing\<close>

definition no_pane :: "session \<Rightarrow> u32 \<Rightarrow> u32 \<Rightarrow> rmux_error" where
  "no_pane s window_index pane_index =
     invalid_pane_target (ss_name s) window_index pane_index ''pane index does not exist in session''"

text \<open>The check that the addressed window and pane exist, then an operation on the window.\<close>

definition in_pane :: "u32 \<Rightarrow> u32 \<Rightarrow> (window \<Rightarrow> (window \<times> 'a result) option) \<Rightarrow> session \<Rightarrow> 'a session_result" where
  "in_pane window_index pane_index f s =
     in_window window_index
       (\<lambda>w. if pane_at w pane_index = None then Some (w, Inl (no_pane s window_index pane_index)) else f w) s"

definition split_pane_in_window_detached ::
  "i64 \<Rightarrow> u32 \<Rightarrow> u32 \<Rightarrow> u32 \<Rightarrow> split_direction \<Rightarrow> bool \<Rightarrow> bool \<Rightarrow> session \<Rightarrow> u32 session_result" where
  "split_pane_in_window_detached now window_index pane_index pane_id d ahead detached s =
     in_window window_index
       (\<lambda>w. case pane_position w pane_index of
              None \<Rightarrow> Some (w, Inl (no_pane s window_index pane_index))
            | Some pos \<Rightarrow>
                if \<not> can_split_pane w pane_index d then Some (w, Inl (Message ''no space for new pane''))
                else do {
                  (w', new_index) \<leftarrow> split_at_position_detached now w pos pane_id d ahead detached;
                  Some (w', Inr new_index)
                }) s"

definition split_pane_in_window_before ::
  "i64 \<Rightarrow> u32 \<Rightarrow> u32 \<Rightarrow> split_direction \<Rightarrow> bool \<Rightarrow> session \<Rightarrow> u32 session_result" where
  "split_pane_in_window_before now window_index pane_index d ahead s =
     do {
       (s1, pane_id) \<leftarrow> allocate_pane_id s;
       split_pane_in_window_detached now window_index pane_index pane_id d ahead False s1
     }"

definition split_active_pane_with_direction :: "i64 \<Rightarrow> split_direction \<Rightarrow> session \<Rightarrow> u32 session_result" where
  "split_active_pane_with_direction now d s =
     do {
       w \<leftarrow> window_at s (ss_active_window s);
       split_pane_in_window_before now (ss_active_window s) (w_active_pane w) d False s
     }"

text \<open>The number after the greatest number of a pane.\<close>

definition transient_index :: "window \<Rightarrow> u32" where
  "transient_index w = u32_sat_add (fold max (map p_index (w_panes w)) 0) 1"

definition split_pane_full_size_detached ::
  "i64 \<Rightarrow> u32 \<Rightarrow> u32 \<Rightarrow> u32 \<Rightarrow> split_direction \<Rightarrow> bool \<Rightarrow> bool \<Rightarrow> session \<Rightarrow> u32 session_result" where
  "split_pane_full_size_detached now window_index pane_index pane_id d ahead detached s =
     in_pane window_index pane_index
       (\<lambda>w. do {
          (w1, r) \<leftarrow> insert_pane_full_size w
             (pane_new_with_id now pane_id (transient_index w) (new_pane_geometry 0 0 0 0)) d ahead;
          (case r of
             Inl e \<Rightarrow> Some (w1, Inl e)
           | Inr _ \<Rightarrow> do {
               w2 \<leftarrow> commit_split_renumber now w1 pane_id (map_option p_id (active_pane w)) (last_pane_id w) detached;
               Some (w2, case pane_index_for_id w2 pane_id of
                           Some k \<Rightarrow> Inr k
                         | None \<Rightarrow> Inl (Server (''pane id '' @ decimal pane_id @ '' disappeared after full-size split'')))
             })
        }) s"

record kill_pane_outcome =
  removed_pane_ids :: "u32 list"
  window_destroyed :: bool

definition kill_pane_in_window :: "u32 \<Rightarrow> u32 \<Rightarrow> session \<Rightarrow> kill_pane_outcome session_result" where
  "kill_pane_in_window window_index pane_index s =
     (case window_at s window_index of
        None \<Rightarrow> Some (s, Inl (invalid_window_target (ss_name s) window_index))
      | Some w \<Rightarrow>
          if pane_at w pane_index = None then Some (s, Inl (no_pane s window_index pane_index))
          else if length (w_panes w) = 1 then
            ss_bind (remove_window window_index s)
              (\<lambda>s1 removed. Some (s1, Inr \<lparr>removed_pane_ids = map p_id (w_panes removed), window_destroyed = True\<rparr>))
          else do {
            (w', removed) \<leftarrow> remove_pane w pane_index;
            p \<leftarrow> removed;
            Some (put_window window_index w' s, Inr \<lparr>removed_pane_ids = [p_id p], window_destroyed = False\<rparr>)
          })"

definition kill_other_panes_in_window :: "i64 \<Rightarrow> u32 \<Rightarrow> u32 \<Rightarrow> session \<Rightarrow> kill_pane_outcome session_result" where
  "kill_other_panes_in_window now window_index pane_index s =
     in_pane window_index pane_index
       (\<lambda>w. do {
          (w', removed) \<leftarrow> remove_other_panes now w pane_index;
          ids \<leftarrow> removed;
          Some (w', Inr \<lparr>removed_pane_ids = ids, window_destroyed = False\<rparr>)
        }) s"

section \<open>Selecting\<close>

definition select_keeping_zoom :: "i64 \<Rightarrow> u32 \<Rightarrow> bool \<Rightarrow> window \<Rightarrow> window option" where
  "select_keeping_zoom now pane_index preserve_zoom w =
     do {
       w1 \<leftarrow> (if preserve_zoom then map_option fst (push_zoom w True) else Some w);
       (w2, _) \<leftarrow> select_pane now w1 pane_index;
       Some (if preserve_zoom then pop_zoom w2 else w2)
     }"

definition select_pane_in_window_with_zoom :: "i64 \<Rightarrow> u32 \<Rightarrow> u32 \<Rightarrow> bool \<Rightarrow> session \<Rightarrow> unit session_result" where
  "select_pane_in_window_with_zoom now window_index pane_index preserve_zoom s =
     in_pane window_index pane_index
       (\<lambda>w. do { w' \<leftarrow> select_keeping_zoom now pane_index preserve_zoom w; Some (w', Inr ()) }) s"

definition last_pane_in_window_with_zoom :: "i64 \<Rightarrow> u32 \<Rightarrow> bool \<Rightarrow> session \<Rightarrow> u32 session_result" where
  "last_pane_in_window_with_zoom now window_index preserve_zoom s =
     in_window window_index
       (\<lambda>w. case w_last_pane w of
              None \<Rightarrow> Some (w, Inl (Server ''no last pane''))
            | Some last_pane \<Rightarrow>
                do { w' \<leftarrow> select_keeping_zoom now last_pane preserve_zoom w; Some (w', Inr last_pane) }) s"

definition select_adjacent_pane_in_window_with_zoom ::
  "i64 \<Rightarrow> u32 \<Rightarrow> u32 \<Rightarrow> select_direction \<Rightarrow> bool \<Rightarrow> session \<Rightarrow> u32 session_result" where
  "select_adjacent_pane_in_window_with_zoom now window_index pane_index d preserve_zoom s =
     in_pane window_index pane_index
       (\<lambda>w. do {
          w1 \<leftarrow> (if w_zoomed w then map_option fst (push_zoom w False) else Some w);
          (w2, r) \<leftarrow> select_adjacent_pane now w1 pane_index d;
          selected \<leftarrow> r;
          w3 \<leftarrow> (if w_zoomed w \<and> (preserve_zoom \<or> selected = w_active_pane w)
                 then map_option fst (toggle_zoom now w2 (w_active_pane w2)) else Some w2);
          Some (w3, Inr selected)
        }) s"

section \<open>Sizes\<close>

text \<open>\<open>set_size\<close> on every window in turn.\<close>

fun resize_all :: "terminal_size \<Rightarrow> (u32 \<times> window) list \<Rightarrow> (u32 \<times> window) list option" where
  "resize_all sz [] = Some []"
| "resize_all sz ((k, w) # rest) = do { w' \<leftarrow> set_size w sz; rest' \<leftarrow> resize_all sz rest; Some ((k, w') # rest') }"

definition resize_terminal :: "terminal_size \<Rightarrow> session \<Rightarrow> session option" where
  "resize_terminal sz s =
     do { windows \<leftarrow> resize_all sz (ss_windows s); Some (s\<lparr>ss_terminal_size := sz, ss_windows := windows\<rparr>) }"

definition set_terminal_size :: "terminal_size \<Rightarrow> session \<Rightarrow> session" where
  "set_terminal_size sz s = s\<lparr>ss_terminal_size := sz\<rparr>"

definition resize_active_window_geometry :: "terminal_size \<Rightarrow> terminal_size \<Rightarrow> session \<Rightarrow> session option" where
  "resize_active_window_geometry terminal_sz content_sz s =
     do {
       w \<leftarrow> window_at s (ss_active_window s);
       w' \<leftarrow> set_size w content_sz;
       Some (put_window (ss_active_window s) w' (s\<lparr>ss_terminal_size := terminal_sz\<rparr>))
     }"

definition toggle_zoom_in_window :: "i64 \<Rightarrow> u32 \<Rightarrow> u32 \<Rightarrow> session \<Rightarrow> unit session_result" where
  "toggle_zoom_in_window now window_index pane_index s =
     in_pane window_index pane_index (\<lambda>w. do { (w', _) \<leftarrow> toggle_zoom now w pane_index; Some (w', Inr ()) }) s"

text \<open>The branches of \<open>resize_pane_in_window\<close> on the window; the results of the calls are ignored.\<close>

definition adjust_pane :: "u32 \<Rightarrow> resize_adjustment \<Rightarrow> window \<Rightarrow> window option" where
  "adjust_pane pane_index adjustment w =
     (case adjustment of
        AbsoluteWidth columns \<Rightarrow> map_option fst (resize_pane_width w pane_index columns)
      | AbsoluteHeight n \<Rightarrow> map_option fst (resize_pane_height w pane_index n)
      | AbsoluteSize columns n \<Rightarrow>
          do { (w1, _) \<leftarrow> resize_pane_width w pane_index columns; map_option fst (resize_pane_height w1 pane_index n) }
      | Composite columns n relative cells \<Rightarrow>
          do {
            w1 \<leftarrow> if_given columns (\<lambda>c w. map_option fst (resize_pane_width w pane_index c)) w;
            w2 \<leftarrow> if_given n (\<lambda>r w. map_option fst (resize_pane_height w pane_index r)) w1;
            if_given relative (\<lambda>d w. map_option fst (resize_pane_by w pane_index (to_adjustment d cells))) w2
          }
      | ResizeUp cells \<Rightarrow> map_option fst (resize_pane_by w pane_index adjustment)
      | ResizeDown cells \<Rightarrow> map_option fst (resize_pane_by w pane_index adjustment)
      | ResizeLeft cells \<Rightarrow> map_option fst (resize_pane_by w pane_index adjustment)
      | ResizeRight cells \<Rightarrow> map_option fst (resize_pane_by w pane_index adjustment)
      | NoOp \<Rightarrow> Some w
      | TrimBelow \<Rightarrow> Some w
      | Zoom \<Rightarrow> Some w)"

definition resize_pane_in_window :: "i64 \<Rightarrow> u32 \<Rightarrow> u32 \<Rightarrow> resize_adjustment \<Rightarrow> session \<Rightarrow> unit session_result" where
  "resize_pane_in_window now window_index pane_index adjustment s =
     (if adjustment = Zoom then toggle_zoom_in_window now window_index pane_index s
      else in_pane window_index pane_index (\<lambda>w. do { w' \<leftarrow> adjust_pane pane_index adjustment w; Some (w', Inr ()) }) s)"

definition resize_pane_to_in_window :: "u32 \<Rightarrow> u32 \<Rightarrow> split_direction \<Rightarrow> u32 \<Rightarrow> session \<Rightarrow> unit session_result" where
  "resize_pane_to_in_window window_index pane_index d new_size s =
     in_pane window_index pane_index
       (\<lambda>w. do { (w', _) \<leftarrow> resize_pane_to w pane_index d (max new_size 1); Some (w', Inr ()) }) s"

definition resize_new_split_pane_to_in_window ::
  "u32 \<Rightarrow> u32 \<Rightarrow> split_direction \<Rightarrow> u32 \<Rightarrow> bool \<Rightarrow> session \<Rightarrow> unit session_result" where
  "resize_new_split_pane_to_in_window window_index new_pane_index d new_size inserted_before_target s =
     in_pane window_index new_pane_index
       (\<lambda>w. do {
          (w', _) \<leftarrow> resize_new_split_pane_to w new_pane_index d new_size inserted_before_target;
          Some (w', Inr ())
        }) s"

section \<open>Layouts\<close>

definition select_layout_in_window_with_main_pane_size ::
  "u32 \<Rightarrow> layout_name \<Rightarrow> u16 option \<Rightarrow> u16 option \<Rightarrow> session \<Rightarrow> unit session_result" where
  "select_layout_in_window_with_main_pane_size window_index layout main_width main_height s =
     in_window window_index
       (\<lambda>w. do { w' \<leftarrow> set_layout_with_main_pane_size w layout main_width main_height; Some (w', Inr ()) }) s"

definition select_custom_layout_in_window :: "u32 \<Rightarrow> string \<Rightarrow> session \<Rightarrow> unit session_result" where
  "select_custom_layout_in_window window_index layout s = in_window window_index (\<lambda>w. apply_custom_layout w layout) s"

definition reapply_old_layout_in_window :: "u32 \<Rightarrow> session \<Rightarrow> bool session_result" where
  "reapply_old_layout_in_window window_index s = in_window window_index reapply_old_layout s"

definition save_old_layout_in_window :: "u32 \<Rightarrow> session \<Rightarrow> unit session_result" where
  "save_old_layout_in_window window_index s = in_window window_index (\<lambda>w. Some (save_old_layout w, Inr ())) s"

definition spread_layout_in_window :: "u32 \<Rightarrow> session \<Rightarrow> bool session_result" where
  "spread_layout_in_window window_index s =
     in_window window_index (\<lambda>w. do { (w', changed) \<leftarrow> spread_layout w (w_active_pane w); Some (w', Inr changed) }) s"

definition next_layout_in_window_with_main_pane_size ::
  "u32 \<Rightarrow> u16 option \<Rightarrow> u16 option \<Rightarrow> session \<Rightarrow> layout_name session_result" where
  "next_layout_in_window_with_main_pane_size window_index main_width main_height s =
     in_window window_index
       (\<lambda>w. do { (w', l) \<leftarrow> next_layout_with_main_pane_size w main_width main_height; Some (w', Inr l) }) s"

definition previous_layout_in_window_with_main_pane_size ::
  "u32 \<Rightarrow> u16 option \<Rightarrow> u16 option \<Rightarrow> session \<Rightarrow> layout_name session_result" where
  "previous_layout_in_window_with_main_pane_size window_index main_width main_height s =
     in_window window_index
       (\<lambda>w. do { (w', l) \<leftarrow> previous_layout_with_main_pane_size w main_width main_height; Some (w', Inr l) }) s"

section \<open>Swapping panes\<close>

record session_pane_target =
  t_window :: u32
  t_pane :: u32

record pane_swap_options =
  swap_detached :: bool
  swap_preserve_zoom :: bool

definition validate_swap_destination :: "window \<Rightarrow> pane \<Rightarrow> u32 \<Rightarrow> unit result option" where
  "validate_swap_destination w incoming replaced_pane_index =
     do {
       replaced \<leftarrow> pane_position w replaced_pane_index;
       Some (if list_ex (\<lambda>(i, p). i \<noteq> replaced \<and> p_id p = p_id incoming) (zip [0..<length (w_panes w)] (w_panes w))
             then Inl (Server (''pane id '' @ decimal (p_id incoming) @ '' already exists in window '' @ window_label w))
             else Inr ())
     }"

definition swapped_window_last_pane_id :: "u32 \<Rightarrow> u32 option \<Rightarrow> u32 \<Rightarrow> bool \<Rightarrow> u32 option" where
  "swapped_window_last_pane_id active_before last_before outgoing selects_incoming =
     (if selects_incoming
      then if active_before = outgoing then keep_if (\<lambda>i. i \<noteq> outgoing) last_before else Some active_before
      else if last_before = Some outgoing then None else last_before)"

definition renumber_swapped :: "i64 \<Rightarrow> bool \<Rightarrow> u32 \<Rightarrow> u32 \<Rightarrow> u32 option \<Rightarrow> window \<Rightarrow> window option" where
  "renumber_swapped now selects_incoming incoming active_before last_after w =
     (if selects_incoming
      then renumber_panes_by_position_stamping now w incoming last_after (Some active_before)
      else renumber_panes_by_position w active_before last_after)"

definition apply_swap_between_windows ::
  "i64 \<Rightarrow> pane_swap_options \<Rightarrow> u32 \<Rightarrow> pane \<Rightarrow> window \<Rightarrow> u32 \<Rightarrow> pane \<Rightarrow> window \<Rightarrow> ((window \<times> window) \<times> unit result) option" where
  "apply_swap_between_windows now opts source_index source_pane source_window target_index target_pane target_window =
     do {
       source_active \<leftarrow> active_pane source_window;
       target_active \<leftarrow> active_pane target_window;
       let in_source = (\<not> swap_detached opts \<or> w_active_pane source_window = source_index);
       let in_target = (\<not> swap_detached opts \<or> w_active_pane target_window = target_index);
       let source_last = swapped_window_last_pane_id (p_id source_active) (last_pane_id source_window) (p_id source_pane) in_source;
       let target_last = swapped_window_last_pane_id (p_id target_active) (last_pane_id target_window) (p_id target_pane) in_target;
       (sw1, _) \<leftarrow> push_zoom source_window (swap_preserve_zoom opts);
       (tw1, _) \<leftarrow> push_zoom target_window (swap_preserve_zoom opts);
       (sw2, r1) \<leftarrow> replace_pane_for_swap sw1 source_index target_pane;
       (case r1 of
          Inl e \<Rightarrow> Some ((sw2, tw1), Inl e)
        | Inr _ \<Rightarrow> do {
            (tw2, r2) \<leftarrow> replace_pane_for_swap tw1 target_index source_pane;
            (case r2 of
               Inl e \<Rightarrow> Some ((sw2, tw2), Inl e)
             | Inr _ \<Rightarrow> do {
                 sw3 \<leftarrow> renumber_swapped now in_source (p_id target_pane) (p_id source_active) source_last sw2;
                 tw3 \<leftarrow> renumber_swapped now in_target (p_id source_pane) (p_id target_active) target_last tw2;
                 sw4 \<leftarrow> recalculate_geometry sw3;
                 tw4 \<leftarrow> recalculate_geometry tw3;
                 Some ((pop_zoom sw4, pop_zoom tw4), Inr ())
               })
          })
     }"

text \<open>The pane a target names, or the error for it.\<close>

definition pane_of_target :: "session \<Rightarrow> session_pane_target \<Rightarrow> (window \<times> pane) result" where
  "pane_of_target s t =
     (case window_at s (t_window t) of
        None \<Rightarrow> Inl (invalid_window_target (ss_name s) (t_window t))
      | Some w \<Rightarrow>
          (case pane_at w (t_pane t) of
             None \<Rightarrow> Inl (no_pane s (t_window t) (t_pane t))
           | Some p \<Rightarrow> Inr (w, p)))"

definition swap_panes_in :: "i64 \<Rightarrow> u32 \<Rightarrow> u32 \<Rightarrow> pane_swap_options \<Rightarrow> window \<Rightarrow> window option" where
  "swap_panes_in now source_pane_index target_pane_index opts w =
     do {
       (w1, _) \<leftarrow> push_zoom w (swap_preserve_zoom opts);
       active_before \<leftarrow> active_pane w1;
       source_pane \<leftarrow> pane_at w1 source_pane_index;
       target_pane \<leftarrow> pane_at w1 target_pane_index;
       (w2, _) \<leftarrow> swap_panes w1 source_pane_index target_pane_index;
       (w3, _) \<leftarrow> select_pane_by_id now w2
         (if swap_detached opts
          then if p_id active_before = p_id source_pane \<or> p_id active_before = p_id target_pane
               then p_id source_pane else p_id active_before
          else p_id target_pane);
       Some (pop_zoom w3)
     }"

definition swap_panes_within_window ::
  "i64 \<Rightarrow> u32 \<Rightarrow> u32 \<Rightarrow> u32 \<Rightarrow> pane_swap_options \<Rightarrow> session \<Rightarrow> unit session_result" where
  "swap_panes_within_window now window_index source_pane_index target_pane_index opts s =
     in_pane window_index source_pane_index
       (\<lambda>w. if source_pane_index = target_pane_index then Some (w, Inr ())
            else if pane_at w target_pane_index = None then Some (w, Inl (no_pane s window_index target_pane_index))
            else do { w' \<leftarrow> swap_panes_in now source_pane_index target_pane_index opts w; Some (w', Inr ()) }) s"

definition session_swap_panes ::
  "i64 \<Rightarrow> session_pane_target \<Rightarrow> session_pane_target \<Rightarrow> pane_swap_options \<Rightarrow> session \<Rightarrow> unit session_result" where
  "session_swap_panes now source target opts s =
     (if t_window source = t_window target
      then swap_panes_within_window now (t_window source) (t_pane source) (t_pane target) opts s
      else case pane_of_target s source of
        Inl e \<Rightarrow> Some (s, Inl e)
      | Inr (source_window, source_pane) \<Rightarrow>
          (case pane_of_target s target of
             Inl e \<Rightarrow> Some (s, Inl e)
           | Inr (target_window, target_pane) \<Rightarrow>
               do {
                 v1 \<leftarrow> validate_swap_destination source_window target_pane (t_pane source);
                 v2 \<leftarrow> validate_swap_destination target_window source_pane (t_pane target);
                 (case res_bind v1 (\<lambda>_. v2) of
                    Inl e \<Rightarrow> Some (s, Inl e)
                  | Inr _ \<Rightarrow> do {
                      ((sw, tw), r) \<leftarrow> apply_swap_between_windows now opts (t_pane source) source_pane source_window
                                       (t_pane target) target_pane target_window;
                      let s1 = s\<lparr>ss_windows := bm_remove (t_window target) (bm_remove (t_window source) (ss_windows s))\<rparr>;
                      Some (case r of
                              Inl e \<Rightarrow> (s1, Inl e)
                            | Inr _ \<Rightarrow> (put_window (t_window target) tw (put_window (t_window source) sw s1), Inr ()))
                    })
               }))"

section \<open>Joining\<close>

datatype pane_split_size = Absolute u32 | Percentage nat

record pane_join_options =
  join_direction :: split_direction
  join_detached :: bool
  join_before :: bool
  join_full_size :: bool
  join_size :: "pane_split_size option"

fun join_axis_for_size :: "u16 \<Rightarrow> u16 \<Rightarrow> split_direction \<Rightarrow> u32" where
  "join_axis_for_size columns n Vertical = columns"
| "join_axis_for_size columns n Horizontal = n"

definition join_requested_size ::
  "window \<Rightarrow> u32 \<Rightarrow> split_direction \<Rightarrow> bool \<Rightarrow> pane_split_size option \<Rightarrow> u32 option result" where
  "join_requested_size w target_pane_index d full_size given =
     (case given of
        None \<Rightarrow> Inr None
      | Some sz \<Rightarrow>
          res_bind
            (if full_size then Inr (join_axis_for_size (cols (w_size w)) (rows (w_size w)) d)
             else case pane_at w target_pane_index of
               None \<Rightarrow> Inl (Server (''cannot size missing target pane index '' @ decimal target_pane_index))
             | Some p \<Rightarrow> Inr (join_axis_for_size (pg_cols (p_geometry p)) (pg_rows (p_geometry p)) d))
            (\<lambda>base. Inr (Some (case sz of
                                Absolute n \<Rightarrow> max n 1
                              | Percentage n \<Rightarrow> max (u32_sat_mul base n div 100) 1))))"

fun same_axis_source_after_target :: "pane_geometry \<Rightarrow> pane_geometry \<Rightarrow> split_direction \<Rightarrow> bool" where
  "same_axis_source_after_target a b Vertical \<longleftrightarrow> pg_y a = pg_y b \<and> pg_rows a = pg_rows b \<and> pg_x a > pg_x b"
| "same_axis_source_after_target a b Horizontal \<longleftrightarrow> pg_x a = pg_x b \<and> pg_cols a = pg_cols b \<and> pg_y a > pg_y b"

definition adjusted_insert_position :: "usize \<Rightarrow> usize \<Rightarrow> usize" where
  "adjusted_insert_position source_position target_position =
     (if source_position < target_position then target_position else target_position + 1)"

definition adjusted_insert_position_before :: "usize \<Rightarrow> usize \<Rightarrow> usize" where
  "adjusted_insert_position_before source_position target_position =
     (if source_position < target_position then target_position - 1 else target_position)"

text \<open>
  The part of a join that changes the target window: the pane comes in, the panes are numbered again
  and the pane that came in gets its size. The code has it twice, for one session and for two.
\<close>

definition receive_joined ::
  "i64 \<Rightarrow> pane_join_options \<Rightarrow> usize \<Rightarrow> u32 option \<Rightarrow> u32 \<Rightarrow> u32 option \<Rightarrow> pane \<Rightarrow> window \<Rightarrow> (window \<times> u32 result) option" where
  "receive_joined now opts target_position requested_size active_before last_before moved w =
     do {
       (w1, r) \<leftarrow> (if join_full_size opts then insert_pane_full_size w moved (join_direction opts) (join_before opts)
                  else insert_pane_at_position w (if join_before opts then target_position else target_position + 1)
                         moved (join_direction opts));
       (case r of
          Inl e \<Rightarrow> Some (w1, Inl e)
        | Inr _ \<Rightarrow> do {
            w2 \<leftarrow> (if join_detached opts then renumber_panes_by_position w1 active_before last_before
                   else renumber_panes_by_position_stamping now w1 (p_id moved)
                          (if active_before \<noteq> p_id moved then Some active_before else None) (Some active_before));
            moved_index \<leftarrow> pane_index_for_id w2 (p_id moved);
            w3 \<leftarrow> (case requested_size of
                     None \<Rightarrow> Some w2
                   | Some n \<Rightarrow>
                       map_option fst
                         (if join_full_size opts then resize_pane_to w2 moved_index (join_direction opts) n
                          else resize_new_split_pane_to w2 moved_index (join_direction opts) n (join_before opts)));
            Some (w3, Inr moved_index)
          })
     }"

text \<open>What the target has to allow: the position, the size and the number the pane gets for the time being.\<close>

definition prepare_join ::
  "session \<Rightarrow> session_pane_target \<Rightarrow> pane_join_options \<Rightarrow> pane \<Rightarrow> (window \<times> usize \<times> u32 option \<times> pane) result" where
  "prepare_join s target opts source_pane =
     (case window_at s (t_window target) of
        None \<Rightarrow> Inl (invalid_window_target (ss_name s) (t_window target))
      | Some w \<Rightarrow>
          (case pane_position w (t_pane target) of
             None \<Rightarrow> Inl (no_pane s (t_window target) (t_pane target))
           | Some pos \<Rightarrow>
               res_bind (join_requested_size w (t_pane target) (join_direction opts) (join_full_size opts) (join_size opts))
                 (\<lambda>requested_size.
                    let moved = source_pane\<lparr>p_index := transient_index w\<rparr>
                    in res_bind (ensure_accepts_pane w moved None) (\<lambda>_. Inr (w, pos, requested_size, moved)))))"

text \<open>The source window has lost its last pane and goes.\<close>

definition drop_emptied_window :: "u32 \<Rightarrow> session \<Rightarrow> session option" where
  "drop_emptied_window window_index s =
     do {
       let s1 = s\<lparr>ss_winlink_alert_flags := bm_remove window_index (ss_winlink_alert_flags s)\<rparr>;
       s2 \<leftarrow> (if ss_active_window s1 = window_index
              then do {
                next_active \<leftarrow> next_active_window_after_removal s1 window_index;
                Some (s1\<lparr>ss_active_window := next_active, ss_group_initial_window_id := None\<rparr>)
              }
              else Some s1);
       Some (forget_last window_index s2)
     }"

text \<open>The pane that is active after a detached move of the active pane, and the last pane then.\<close>

definition active_after_detached_move :: "window \<Rightarrow> usize \<Rightarrow> u32 \<Rightarrow> u32 \<Rightarrow> u32 option" where
  "active_after_detached_move w source_position source_id active_before =
     (if active_before = source_id
      then (case keep_if (\<lambda>i. i \<noteq> source_id) (last_pane_id w) of
              Some i \<Rightarrow> Some i
            | None \<Rightarrow>
                map_option p_id (list_get (w_panes w) (if source_position > 0 then source_position - 1 else source_position + 1)))
      else Some active_before)"

definition last_after_detached_move :: "window \<Rightarrow> u32 \<Rightarrow> u32 \<Rightarrow> u32 \<Rightarrow> u32 option \<Rightarrow> u32 option" where
  "last_after_detached_move w source_id target_id active_before active_after =
     (if active_before = source_id
      then (case active_after of Some i \<Rightarrow> if i \<noteq> target_id then Some target_id else None | None \<Rightarrow> None)
      else keep_if (\<lambda>i. i \<noteq> source_id) (last_pane_id w))"

text \<open>The move itself: the pane leaves and comes in at the root, or splits the target.\<close>

definition move_joined :: "pane_join_options \<Rightarrow> u32 \<Rightarrow> usize \<Rightarrow> usize \<Rightarrow> window \<Rightarrow> (window \<times> u32 result) option" where
  "move_joined opts source_pane_index source_position target_position w =
     (if join_full_size opts
      then do {
        (w1, _) \<leftarrow> auto_unzoom w;
        (w2, extracted) \<leftarrow> extract_pane w1 source_pane_index;
        moved \<leftarrow> extracted;
        (w3, r) \<leftarrow> insert_pane_full_size w2 (moved\<lparr>p_index := transient_index w2\<rparr>) (join_direction opts) (join_before opts);
        Some (w3, res_bind r (\<lambda>_. Inr (p_id moved)))
      }
      else move_pane_by_splitting_target w source_position target_position
             (if join_before opts then adjusted_insert_position_before source_position target_position
              else adjusted_insert_position source_position target_position)
             (join_direction opts) (join_before opts))"

definition size_joined ::
  "pane_join_options \<Rightarrow> pane \<Rightarrow> pane \<Rightarrow> u32 \<Rightarrow> u32 option \<Rightarrow> window \<Rightarrow> window option" where
  "size_joined opts source_pane target_pane moved_index requested_size w =
     (case requested_size of
        None \<Rightarrow> Some w
      | Some n \<Rightarrow>
          do {
            (sized_index, cells) \<leftarrow>
              (if \<not> join_full_size opts \<and> \<not> join_before opts
                  \<and> same_axis_source_after_target (p_geometry source_pane) (p_geometry target_pane) (join_direction opts)
               then do {
                 k \<leftarrow> pane_index_for_id w (p_id target_pane);
                 Some (k, max (join_axis_for_size (pg_cols (p_geometry source_pane)) (pg_rows (p_geometry source_pane))
                                 (join_direction opts) - n) 1)
               }
               else Some (moved_index, n));
            map_option fst (resize_pane_to w sized_index (join_direction opts) cells)
          })"

definition join_within :: "i64 \<Rightarrow> pane_join_options \<Rightarrow> usize \<Rightarrow> pane \<Rightarrow> usize \<Rightarrow> pane \<Rightarrow> window \<Rightarrow> (window \<times> unit result) option" where
  "join_within now opts source_position source_pane target_position target_pane w =
     (case res_bind (ensure_accepts_pane w source_pane (Some source_position))
             (\<lambda>_. join_requested_size w (p_index target_pane) (join_direction opts) (join_full_size opts) (join_size opts)) of
        Inl e \<Rightarrow> Some (w, Inl e)
      | Inr requested_size \<Rightarrow>
          do {
            active \<leftarrow> active_pane w;
            let active_after = active_after_detached_move w source_position (p_id source_pane) (p_id active);
            let last_after = last_after_detached_move w (p_id source_pane) (p_id target_pane) (p_id active) active_after;
            (w1, r) \<leftarrow> move_joined opts (p_index source_pane) source_position target_position w;
            (case r of
               Inl e \<Rightarrow> Some (w1, Inl e)
             | Inr moved_id \<Rightarrow> do {
                 w2 \<leftarrow> (if join_detached opts
                        then do { i \<leftarrow> active_after; renumber_panes_by_position w1 i last_after }
                        else renumber_panes_by_position_stamping now w1 moved_id
                               (if p_id active = moved_id then last_pane_id w else Some (p_id active)) (Some (p_id active)));
                 moved_index \<leftarrow> pane_index_for_id w2 moved_id;
                 w3 \<leftarrow> size_joined opts source_pane target_pane moved_index requested_size w2;
                 Some (w3, Inr ())
               })
          })"

definition join_pane_within_window ::
  "i64 \<Rightarrow> session_pane_target \<Rightarrow> session_pane_target \<Rightarrow> pane_join_options \<Rightarrow> session \<Rightarrow> unit session_result" where
  "join_pane_within_window now source target opts s =
     (if t_pane source = t_pane target then Some (s, Inl (Server ''source and target panes must be different''))
      else in_window (t_window source)
        (\<lambda>w. case pane_position w (t_pane source) of
               None \<Rightarrow> Some (w, Inl (no_pane s (t_window source) (t_pane source)))
             | Some i \<Rightarrow>
                 (case pane_position w (t_pane target) of
                    None \<Rightarrow> Some (w, Inl (no_pane s (t_window target) (t_pane target)))
                  | Some j \<Rightarrow> join_within now opts i (w_panes w ! i) j (w_panes w ! j) w)) s)"

definition join_pane ::
  "i64 \<Rightarrow> session_pane_target \<Rightarrow> session_pane_target \<Rightarrow> pane_join_options \<Rightarrow> session \<Rightarrow> unit session_result" where
  "join_pane now source target opts s =
     (if t_window source = t_window target then join_pane_within_window now source target opts s
      else case pane_of_target s source of
        Inl e \<Rightarrow> Some (s, Inl e)
      | Inr (source_window, source_pane) \<Rightarrow>
          (case prepare_join s target opts source_pane of
             Inl e \<Rightarrow> Some (s, Inl e)
           | Inr (target_window, target_position, requested_size, transient) \<Rightarrow>
               do {
                 active_before \<leftarrow> active_pane target_window;
                 let s1 = s\<lparr>ss_windows := bm_remove (t_window target) (bm_remove (t_window source) (ss_windows s))\<rparr>;
                 (sw1, _) \<leftarrow> auto_unzoom source_window;
                 (tw1, _) \<leftarrow> auto_unzoom target_window;
                 (sw2, extracted) \<leftarrow> extract_pane sw1 (t_pane source);
                 moved \<leftarrow> extracted;
                 (tw2, r) \<leftarrow> receive_joined now opts target_position requested_size (p_id active_before) (last_pane_id target_window)
                              (moved\<lparr>p_index := p_index transient\<rparr>) tw1;
                 (case r of
                    Inl e \<Rightarrow> Some (s1, Inl e)
                  | Inr _ \<Rightarrow> do {
                      let s2 = put_window (t_window target) tw2 s1;
                      s3 \<leftarrow> (if w_panes sw2 = [] then drop_emptied_window (t_window source) s2
                             else Some (put_window (t_window source) sw2 s2));
                      Some (if join_detached opts then (s3, Inr ()) else select_window (t_window target) s3)
                    })
               }))"

section \<open>Breaking a pane out\<close>

record break_pane_options =
  break_target_window :: "u32 option"
  break_name :: "string option"
  break_detached :: bool
  break_after :: bool
  break_before :: bool

definition resolve_break_destination_index :: "session \<Rightarrow> u32 option \<Rightarrow> u32 option \<Rightarrow> u32 result" where
  "resolve_break_destination_index s target_window_index allowed_occupied_index =
     (case target_window_index of
        Some k \<Rightarrow>
          if window_at s k \<noteq> None \<and> allowed_occupied_index \<noteq> Some k then Inl (window_taken s k) else Inr k
      | None \<Rightarrow> lowest_available_window_index_at_or_above s 0)"

text \<open>The loop over the indexes from the highest down: the window and its flags move up by one.\<close>

fun shift_loop :: "u32 list \<Rightarrow> session \<Rightarrow> unit session_result" where
  "shift_loop [] s = Some (s, Inr ())"
| "shift_loop (k # ks) s =
     (if k = u32_max then Some (s, Inl (Server ''window index space exhausted''))
      else do {
        w \<leftarrow> window_at s k;
        shift_loop ks (put_flags (k + 1) (winlink_alert_flags s k) (put_window (k + 1) w (drop_window k s)))
      })"

definition shift_windows_up_from :: "u32 \<Rightarrow> session \<Rightarrow> unit session_result" where
  "shift_windows_up_from start_index s =
     (if ss_windows s \<noteq> [] \<and> fst (last (ss_windows s)) = u32_max
      then Some (s, Inl (Server ''window index space exhausted''))
      else ss_bind (shift_loop (rev (filter (\<lambda>k. start_index \<le> k) (map fst (ss_windows s)))) s)
        (\<lambda>s1 _. Some (s1\<lparr>ss_active_window := (if start_index \<le> ss_active_window s1 then u32_sat_add (ss_active_window s1) 1
                                              else ss_active_window s1),
                        ss_last_window := map_option (\<lambda>l. if start_index \<le> l then u32_sat_add l 1 else l)
                                            (ss_last_window s1)\<rparr>, Inr ())))"

text \<open>\<open>prepare_break_destination\<close> of both files: the slot next to the anchor, or the resolved index.\<close>

definition open_break_slot :: "u32 option \<Rightarrow> bool \<Rightarrow> session \<Rightarrow> u32 session_result" where
  "open_break_slot target_window_index ahead s =
     (let anchor_index = (case target_window_index of Some k \<Rightarrow> k | None \<Rightarrow> ss_active_window s)
      in if target_window_index \<noteq> None \<and> window_at s anchor_index = None
         then Some (s, Inl (invalid_window_target (ss_name s) anchor_index))
         else if \<not> ahead \<and> anchor_index = u32_max then Some (s, Inl (Server ''window index space exhausted''))
         else let destination_index = (if ahead then anchor_index else anchor_index + 1)
              in ss_bind (shift_windows_up_from destination_index s) (\<lambda>s1 _. Some (s1, Inr destination_index)))"

definition prepare_break_destination :: "u32 \<Rightarrow> u32 option \<Rightarrow> bool \<Rightarrow> bool \<Rightarrow> session \<Rightarrow> (u32 \<times> u32) session_result" where
  "prepare_break_destination source_window_index target_window_index after ahead s =
     (if \<not> (after \<or> ahead)
      then Some (s, res_bind (resolve_break_destination_index s target_window_index (Some source_window_index))
                      (\<lambda>k. Inr (k, source_window_index)))
      else ss_bind (open_break_slot target_window_index ahead s)
        (\<lambda>s1 destination_index.
           if source_window_index < destination_index then Some (s1, Inr (destination_index, source_window_index))
           else if source_window_index = u32_max then Some (s1, Inl (Server ''window index space exhausted''))
           else Some (s1, Inr (destination_index, source_window_index + 1))))"

text \<open>A new window for the pane that was extracted, at its place.\<close>

definition place_broken_pane :: "i64 \<Rightarrow> terminal_size \<Rightarrow> u32 \<Rightarrow> u32 \<Rightarrow> break_pane_options \<Rightarrow> session \<Rightarrow> u32 session_result" where
  "place_broken_pane now sz pane_id destination_index opts s =
     do {
       (s1, window_id) \<leftarrow> allocate_window_id s;
       w \<leftarrow> new_with_initial_pane now sz pane_id window_id;
       let w1 = (case break_name opts of None \<Rightarrow> w | Some name \<Rightarrow> set_name w name);
       (case insert_existing_window destination_index w1 s1 of
          (s2, Inl e) \<Rightarrow> Some (s2, Inl e)
        | (s2, Inr _) \<Rightarrow>
            if break_detached opts then Some (s2, Inr destination_index)
            else case select_window destination_index s2 of (s3, r) \<Rightarrow> Some (s3, res_bind r (\<lambda>_. Inr destination_index)))
     }"

definition break_pane :: "i64 \<Rightarrow> session_pane_target \<Rightarrow> break_pane_options \<Rightarrow> session \<Rightarrow> u32 session_result" where
  "break_pane now source opts s =
     (case pane_of_target s source of
        Inl e \<Rightarrow> Some (s, Inl e)
      | Inr (original, _) \<Rightarrow>
          ss_bind (prepare_break_destination (t_window source) (break_target_window opts) (break_after opts) (break_before opts) s)
            (\<lambda>s1 (destination_index, source_index).
               do {
                 w \<leftarrow> window_at s1 source_index;
                 (if length (w_panes original) = 1
                  then do {
                    w' \<leftarrow> renumber_single_pane_to_zero w;
                    ss_bind (move_window source_index destination_index False (\<not> break_detached opts) (put_window source_index w' s1))
                      (\<lambda>s2 _.
                         case break_name opts of
                           None \<Rightarrow> Some (s2, Inr destination_index)
                         | Some name \<Rightarrow>
                             ss_bind (rename_window destination_index name s2) (\<lambda>s3 _. Some (s3, Inr destination_index)))
                  }
                  else do {
                    (w1, _) \<leftarrow> auto_unzoom w;
                    (w2, extracted) \<leftarrow> extract_pane w1 (t_pane source);
                    moved \<leftarrow> extracted;
                    place_broken_pane now (w_size w) (p_id moved) destination_index opts (put_window source_index w2 s1)
                  })
               }))"

end
