(* ===== verification/Window_Transfers.thy ===== *)
theory Window_Transfers
  imports Window_Numbered Session_Panes
begin

text \<open>
  What the operations of a session on panes do to one window or to two: they keep the windows numbered
  and consistent, return, and only move the panes that they should.
\<close>

section \<open>Numbering the panes again\<close>

lemma renumber_ok:
  assumes "ids_inv w" "tree_inv w" "a \<in># window_ids w"
  shows "returns (renumber_panes_by_position w a l) (\<lambda>w'. keeps_panes w w')"
  using assms renumber_window_inv [OF assms(1,2), of a l]
  by (auto simp: window_ok_def numbered_def window_ids_def simp del: mset_map elim!: returns_mono)

lemma stamping_ok:
  assumes "ids_inv w" "tree_inv w" "a \<in># window_ids w"
  shows "returns (renumber_panes_by_position_stamping now w a l b) (\<lambda>w'. keeps_panes w w')"
proof -
  obtain w1 where w1: "renumber_panes_by_position w a l = Some w1" "keeps_panes w w1"
    using renumber_ok [OF assms, of l] by (auto elim: returnsE)
  then have "keeps_panes w1 (mark_pane_active now w1 (w_active_pane w1))"
    by (intro keys_keep) (simp_all add: window_ok_def mark_pane_active_inv mark_active_keys)
  then show ?thesis using w1 by (simp add: renumber_panes_by_position_stamping_def)
qed

lemma transient_numbered: "window_ok w \<Longrightarrow> transient_index w = length (w_panes w)"
proof -
  assume w: "window_ok w"
  then obtain n where n: "length (w_panes w) = Suc n" "Suc n < u32_max"
    by (auto simp: window_ok_def window_inv_def ids_inv_def neq_Nil_conv)
  then show ?thesis using window_okD(2) [OF w]
    by (simp add: transient_index_def numbered_def fold_max_upt machine_defs del: upt_Suc)
qed

lemma active_ids: "window_ok w \<Longrightarrow> \<exists>p. active_pane w = Some p \<and> p \<in> set (w_panes w) \<and> p_index p = w_active_pane w"
  using active_pane_exists by (auto simp: window_ok_def window_inv_def)

lemma member_ids: "p \<in> set (w_panes w) \<Longrightarrow> p_id p \<in># window_ids w"
  by (simp add: window_ids_def)

lemma last_ids: "last_pane_id w = Some i \<Longrightarrow> i \<in># window_ids w"
  by (auto simp: last_pane_id_def window_ids_def bind_eq_Some_conv find_Some_iff pane_at_def)

lemma index_for_id: "i \<in># window_ids w \<Longrightarrow> \<exists>k. pane_index_for_id w i = Some k"
  using find_None_iff [of "\<lambda>p. p_id p = i" "w_panes w"] by (auto simp: window_ids_def pane_index_for_id_def)

section \<open>Selecting and resizing\<close>

lemma select_keeping_zoom_ok:
  assumes "window_ok w"
  shows "returns (select_keeping_zoom now k preserve w) (keeps_panes w)"
proof -
  obtain w1 where w1: "(if preserve then map_option fst (push_zoom w True) else Some w) = Some w1" "keeps_panes w w1"
    using push_zoom_ok [OF assms, of True] assms by (cases preserve) (auto elim!: returnsE)
  obtain w2 ok where "select_pane now w1 k = Some (w2, ok)" "keeps_panes w1 w2"
    using select_pane_ok [of w1 now k] w1(2) by (auto elim!: returnsE)
  then show ?thesis using w1 pop_zoom_ok [of w2] by (simp add: select_keeping_zoom_def)
qed

lemma adjust_pane_ok:
  assumes "window_ok w"
  shows "returns (adjust_pane k adj w) (keeps_panes w)"
proof -
  note inv = window_okD(1) [OF assms]
  have width: "window_inv v \<Longrightarrow> returns (map_option fst (resize_pane_width v k c)) (keeps_roster v)" for v c
    using resize_pane_width_inv [of v k c] by (auto elim!: returns_mono)
  have height: "window_inv v \<Longrightarrow> returns (map_option fst (resize_pane_height v k c)) (keeps_roster v)" for v c
    using resize_pane_height_inv [of v k c] by (auto elim!: returns_mono)
  have rel: "window_inv v \<Longrightarrow> returns (map_option fst (resize_pane_by v k a)) (keeps_roster v)" for v a
    using resize_pane_by_inv [of v k a] by (auto elim!: returns_mono)
  have "returns (adjust_pane k adj w) (keeps_roster w)"
  proof (cases adj)
    case (AbsoluteSize c n)
    obtain w1 b where w1: "resize_pane_width w k c = Some (w1, b)" "keeps_roster w w1"
      using resize_pane_width_inv [OF inv, of k c] by (auto elim!: returnsE)
    have "returns (map_option fst (resize_pane_height w1 k n)) (keeps_roster w)"
      by (rule returns_mono [OF height]) (use w1(2) keeps_roster_trans [OF w1(2)] in blast)+
    then show ?thesis using AbsoluteSize w1(1) by (simp add: adjust_pane_def)
  next
    case (Composite c n rd cells)
    have "returns (if_given c (\<lambda>c w. map_option fst (resize_pane_width w k c)) w) (keeps_roster w)"
      "window_inv v \<Longrightarrow> returns (if_given n (\<lambda>c w. map_option fst (resize_pane_height w k c)) v) (keeps_roster v)"
      "window_inv v \<Longrightarrow> returns (if_given rd (\<lambda>d w. map_option fst (resize_pane_by w k (to_adjustment d cells))) v) (keeps_roster v)" for v
      by (intro if_given_inv width height rel inv; assumption)+
    then show ?thesis unfolding Composite adjust_pane_def
      by (auto intro!: keeps_roster_bind simp del: returns_map)
  qed (use width [OF inv] height [OF inv] rel [OF inv] inv in \<open>simp_all add: adjust_pane_def\<close>)
  then show ?thesis using roster_keep [OF assms] by (auto elim!: returnsE)
qed

section \<open>Swapping\<close>

lemma swap_panes_in_ok:
  assumes w: "window_ok w" and "pane_at w i \<noteq> None" "pane_at w j \<noteq> None"
  shows "returns (swap_panes_in now i j opts w) (keeps_panes w)"
proof -
  obtain w1 z where w1: "push_zoom w (swap_preserve_zoom opts) = Some (w1, z)" "keeps_panes w w1" "same_roster w w1"
    using push_zoom_ok [OF w, of "swap_preserve_zoom opts"] by (auto elim!: returnsE)
  obtain a where a: "active_pane w1 = Some a" using active_ids w1(2) by blast
  obtain p q where pq: "pane_at w1 i = Some p" "pane_at w1 j = Some q"
    using assms(2,3) same_roster_ids(3) [OF w1(3)] pane_at_index [of w] pane_at_index [of w1] by (metis option.exhaust)
  obtain w2 ok where w2: "swap_panes w1 i j = Some (w2, ok)" "keeps_panes w1 w2"
    using swap_ok [of w1 i j] w1(2) by (auto elim!: returnsE)
  obtain w3 ok' where w3: "select_pane_by_id now w2 (if swap_detached opts
        then if p_id a = p_id p \<or> p_id a = p_id q then p_id p else p_id a else p_id q) = Some (w3, ok')" "keeps_panes w2 w3"
    using select_pane_by_id_ok [of w2 now] w2(2) by (blast elim!: returnsE)
  show ?thesis using w1 a pq w2 w3 pop_zoom_ok [of w3] by (simp add: swap_panes_in_def)
qed

text \<open>A pane takes the place of another.\<close>

lemma replace_ok:
  assumes w: "window_ok w" and k: "k < length (w_panes w)"
    and fresh: "\<And>j. j < length (w_panes w) \<Longrightarrow> j \<noteq> k \<Longrightarrow> p_id (w_panes w ! j) \<noteq> p_id p"
  obtains w' where "replace_pane_for_swap w k p = Some (w', Inr ())" "ids_inv w'" "tree_inv w'"
    "map p_id (w_panes w') = (map p_id (w_panes w))[k := p_id p]"
proof -
  note inv = window_okD(1) [OF w]
  let ?w1 = "bump_next_pane_index w (p_index p)\<lparr>w_panes := (w_panes w)[k := p]\<rparr>"
  have "tree_inv ?w1" using inv by (simp add: window_inv_def tree_inv_def bump_next_pane_index_def)
  then obtain w2 where w2: "apply_layout_tree ?w1 = Some w2" "relaid ?w1 w2" "tree_inv w2"
    using apply_layout_tree_returns by (auto elim!: returnsE)
  have ids: "map p_id (w_panes w2) = (map p_id (w_panes w))[k := p_id p]"
    using same_roster_ids(1) [OF relaid_roster [OF w2(2)]] by (simp add: map_update)
  have "distinct ((map p_id (w_panes w))[k := p_id p])"
    using inv k by (auto simp: window_inv_def ids_inv_def distinct_conv_nth nth_list_update dest: fresh fresh [OF _ not_sym])
  then have "ids_inv w2"
    using ids inv same_roster_ids(2) [OF relaid_roster [OF w2(2)]] by (auto simp: ids_inv_def window_inv_def)
  moreover have "\<not> list_ex (\<lambda>(j, q). j \<noteq> k \<and> p_id q = p_id p) (zip [0..<length (w_panes w)] (w_panes w))"
    using fresh by (auto simp: list_ex_iff set_zip)
  ultimately show ?thesis
    using that w2 ids position_numbered [OF window_okD(2) [OF w] k]
    by (simp add: replace_pane_for_swap_def Let_def bump_next_pane_index_def)
qed

lemma mset_replaced: "k < length xs \<Longrightarrow> add_mset (xs ! k) (mset (xs[k := x])) = add_mset x (mset xs)"
  by (simp add: mset_update)

text \<open>One side of a swap between two windows.\<close>

lemma swap_side:
  assumes w: "window_ok w" and k: "k < length (w_panes w)"
    and fresh: "\<And>j. j < length (w_panes w) \<Longrightarrow> j \<noteq> k \<Longrightarrow> p_id (w_panes w ! j) \<noteq> p_id p"
    and a: "active_pane w = Some a" and sel: "w_active_pane w = k \<longrightarrow> sel"
  obtains w1 z w2 w3 w4 where "push_zoom w r = Some (w1, z)" "replace_pane_for_swap w1 k p = Some (w2, Inr ())"
    "renumber_swapped now sel (p_id p) (p_id a) l w2 = Some w3" "recalculate_geometry w3 = Some w4"
    "window_ok (pop_zoom w4)"
    "add_mset (p_id (w_panes w ! k)) (window_ids (pop_zoom w4)) = add_mset (p_id p) (window_ids w)"
proof -
  obtain w1 z where w1: "push_zoom w r = Some (w1, z)" "keeps_panes w w1" "same_roster w w1"
    using push_zoom_ok [OF w, of r] by (auto elim!: returnsE)
  note same = same_roster_ids [OF w1(3)]
  have nth: "p_id (w_panes w1 ! j) = p_id (w_panes w ! j)" if "j < length (w_panes w)" for j
    using that same(1,2) by (metis nth_map)
  obtain w2 where w2: "replace_pane_for_swap w1 k p = Some (w2, Inr ())" "ids_inv w2" "tree_inv w2"
    "map p_id (w_panes w2) = (map p_id (w_panes w))[k := p_id p]"
    using replace_ok [of w1 k p] w1(2) k same(1,2) fresh nth by auto
  have ids: "add_mset (p_id (w_panes w ! k)) (window_ids w2) = add_mset (p_id p) (window_ids w)"
    using mset_replaced [of k "map p_id (w_panes w)" "p_id p"] w2(4) k by (simp add: window_ids_def del: mset_map)
  have "p_id p \<in># window_ids w2" using w2(4) k by (simp add: window_ids_def del: mset_map set_map) (simp add: set_update_memI)
  moreover have "p_id a \<in># window_ids w2" if "\<not> sel"
  proof -
    obtain j where j: "j < length (w_panes w)" "w_panes w ! j = a" "p_index a = w_active_pane w"
      using active_ids [OF w] a by (auto simp: in_set_conv_nth)
    then have "j \<noteq> k" using sel that numbered_nth [OF window_okD(2) [OF w]] by auto
    then have "p_id a = (map p_id (w_panes w))[k := p_id p] ! j" using j by simp
    then show ?thesis using w2(4) j(1) by (metis length_list_update length_map nth_mem set_mset_mset window_ids_def)
  qed
  ultimately obtain w3 where w3: "renumber_swapped now sel (p_id p) (p_id a) l w2 = Some w3" "keeps_panes w2 w3"
    using renumber_ok [OF w2(2,3), of "p_id a" l] stamping_ok [OF w2(2,3), of "p_id p" now l "Some (p_id a)"]
    by (cases sel) (auto simp: renumber_swapped_def elim!: returnsE)
  then have "tree_inv w3" by (simp add: window_ok_def window_inv_def)
  then obtain w4 where w4: "recalculate_geometry w3 = Some w4" "relaid w3 w4" "tree_inv w4"
    using recalculate_geometry_returns by (auto elim!: returnsE)
  have "keeps_panes w3 w4" using w3(2) w4
    by (intro keys_keep) (auto simp: window_ok_def window_inv_relaid relaid_same(1))
  then have "keeps_panes w2 (pop_zoom w4)" using w3(2) pop_zoom_ok [of w4] by simp
  then show ?thesis using that w1(1) w2(1) w3(1) w4(1) ids by simp
qed

lemma swap_between_ok:
  assumes sw: "window_ok sw" "i < length (w_panes sw)" and tw: "window_ok tw" "j < length (w_panes tw)"
    and fresh: "\<And>m. m < length (w_panes sw) \<Longrightarrow> m \<noteq> i \<Longrightarrow> p_id (w_panes sw ! m) \<noteq> p_id (w_panes tw ! j)"
      "\<And>m. m < length (w_panes tw) \<Longrightarrow> m \<noteq> j \<Longrightarrow> p_id (w_panes tw ! m) \<noteq> p_id (w_panes sw ! i)"
  shows "returns (apply_swap_between_windows now opts i (w_panes sw ! i) sw j (w_panes tw ! j) tw) (\<lambda>((sw', tw'), r).
    r = Inr () \<and> window_ok sw' \<and> window_ok tw' \<and> window_ids sw' + window_ids tw' = window_ids sw + window_ids tw)"
proof -
  obtain sa ta where a: "active_pane sw = Some sa" "active_pane tw = Some ta"
    using active_ids [OF sw(1)] active_ids [OF tw(1)] by blast
  define ins where "ins \<longleftrightarrow> \<not> swap_detached opts \<or> w_active_pane sw = i"
  define int where "int \<longleftrightarrow> \<not> swap_detached opts \<or> w_active_pane tw = j"
  have sel: "w_active_pane sw = i \<longrightarrow> ins" "w_active_pane tw = j \<longrightarrow> int" by (simp_all add: ins_def int_def)
  define sl where "sl = swapped_window_last_pane_id (p_id sa) (last_pane_id sw) (p_id (w_panes sw ! i)) ins"
  define tl where "tl = swapped_window_last_pane_id (p_id ta) (last_pane_id tw) (p_id (w_panes tw ! j)) int"
  obtain sw1 sz sw2 sw3 sw4 where s: "push_zoom sw (swap_preserve_zoom opts) = Some (sw1, sz)"
    "replace_pane_for_swap sw1 i (w_panes tw ! j) = Some (sw2, Inr ())"
    "renumber_swapped now ins (p_id (w_panes tw ! j)) (p_id sa) sl sw2 = Some sw3" "recalculate_geometry sw3 = Some sw4"
    "window_ok (pop_zoom sw4)"
    "add_mset (p_id (w_panes sw ! i)) (window_ids (pop_zoom sw4)) = add_mset (p_id (w_panes tw ! j)) (window_ids sw)"
    using swap_side [OF sw fresh(1) a(1) sel(1), where r = "swap_preserve_zoom opts" and now = now and l = sl] .
  obtain tw1 tz tw2 tw3 tw4 where t: "push_zoom tw (swap_preserve_zoom opts) = Some (tw1, tz)"
    "replace_pane_for_swap tw1 j (w_panes sw ! i) = Some (tw2, Inr ())"
    "renumber_swapped now int (p_id (w_panes sw ! i)) (p_id ta) tl tw2 = Some tw3" "recalculate_geometry tw3 = Some tw4"
    "window_ok (pop_zoom tw4)"
    "add_mset (p_id (w_panes tw ! j)) (window_ids (pop_zoom tw4)) = add_mset (p_id (w_panes sw ! i)) (window_ids tw)"
    using swap_side [OF tw fresh(2) a(2) sel(2), where r = "swap_preserve_zoom opts" and now = now and l = tl] .
  have "window_ids (pop_zoom sw4) + window_ids (pop_zoom tw4) = window_ids sw + window_ids tw"
  proof -
    have "add_mset x (add_mset y (A + B)) = add_mset x (add_mset y (C + D))"
      if "add_mset x A = add_mset y C" "add_mset y B = add_mset x D" for x y and A B C D :: "u32 multiset"
      using that by (metis add_mset_add_mset_same_iff add_mset_commute union_mset_add_mset_left union_mset_add_mset_right)
    from this [OF s(6) t(6)] show ?thesis by simp
  qed
  moreover have "apply_swap_between_windows now opts i (w_panes sw ! i) sw j (w_panes tw ! j) tw
      = Some ((pop_zoom sw4, pop_zoom tw4), Inr ())"
    using a s(1-4) t(1-4)
    by (simp add: apply_swap_between_windows_def Let_def ins_def int_def sl_def tl_def)
  ultimately show ?thesis using s(5) t(5) by simp
qed

section \<open>Joining\<close>

text \<open>A pane comes in, at a position or at the root.\<close>

lemma insert_joined:
  assumes w: "window_ok w" and room: "Suc (length (w_panes w)) < u32_max"
    and p: "p_index p = length (w_panes w)" "p_id p \<notin># window_ids w" and pos: "pos \<le> length (w_panes w)"
  shows "returns (if full then insert_pane_full_size w p d ahead else insert_pane_at_position w pos p d)
    (\<lambda>(w', r). r = Inr () \<and> window_inv w' \<and> window_ids w' = add_mset (p_id p) (window_ids w))"
proof -
  note inv = window_okD(1) [OF w]
  have idx: "p_index p \<notin> set (map p_index (w_panes w))" "Suc (p_index p) < u32_max"
    using p(1) room window_okD(2) [OF w] by (simp_all add: numbered_def del: set_map)
  show ?thesis
    using insert_full_inv [OF inv idx(2) room, of d ahead] insert_pane_inv [OF inv idx(2) room, of pos d] idx(1) p(2) pos
    by (cases full) (auto simp: window_ids_def fresh_id mset_list_insert simp del: mset_map set_map elim!: returns_mono)
qed

lemma resize_joined:
  assumes "window_ok w"
  shows "returns (case n of None \<Rightarrow> Some w | Some n \<Rightarrow> map_option fst
      (if full then resize_pane_to w k d n else resize_new_split_pane_to w k d n ahead)) (keeps_panes w)"
  using assms returns_keep [OF assms resize_pane_to_inv [OF window_okD(1) [OF assms]]]
    returns_keep [OF assms resize_new_split_pane_to_inv [OF window_okD(1) [OF assms]]]
  by (cases n; cases full) (auto simp: case_prod_beta')

lemma receive_joined_ok:
  assumes w: "window_ok w" and room: "Suc (length (w_panes w)) < u32_max"
    and p: "p_index p = length (w_panes w)" "p_id p \<notin># window_ids w" and pos: "pos < length (w_panes w)"
    and a: "a \<in># window_ids w"
  shows "returns (receive_joined now opts pos n a l p w)
    (\<lambda>(w', r). (\<exists>k. r = Inr k) \<and> window_ok w' \<and> window_ids w' = add_mset (p_id p) (window_ids w))"
proof -
  let ?pos = "if join_before opts then pos else pos + 1"
  have pos': "?pos \<le> length (w_panes w)" using pos by simp
  obtain w1 where w1: "(if join_full_size opts then insert_pane_full_size w p (join_direction opts) (join_before opts)
      else insert_pane_at_position w ?pos p (join_direction opts)) = Some (w1, Inr ())"
    "window_inv w1" "window_ids w1 = add_mset (p_id p) (window_ids w)"
    by (rule returnsE [OF insert_joined [OF w room p pos', of "join_full_size opts" "join_direction opts" "join_before opts"]])
      (simp add: case_prod_beta prod_eq_iff)
  then have inv: "ids_inv w1" "tree_inv w1" by (simp_all add: window_inv_def)
  have "returns (if join_detached opts then renumber_panes_by_position w1 a l
      else renumber_panes_by_position_stamping now w1 (p_id p) (if a \<noteq> p_id p then Some a else None) (Some a)) (keeps_panes w1)"
    using renumber_ok [OF inv] stamping_ok [OF inv] a w1(3) by simp
  then obtain w2 where w2: "(if join_detached opts then renumber_panes_by_position w1 a l
      else renumber_panes_by_position_stamping now w1 (p_id p) (if a \<noteq> p_id p then Some a else None) (Some a)) = Some w2"
    "keeps_panes w1 w2" by (auto elim: returnsE)
  then obtain k where k: "pane_index_for_id w2 (p_id p) = Some k" using index_for_id [of "p_id p" w2] w1(3) by auto
  obtain w3 where w3: "(case n of None \<Rightarrow> Some w2 | Some n \<Rightarrow> map_option fst
      (if join_full_size opts then resize_pane_to w2 k (join_direction opts) n
       else resize_new_split_pane_to w2 k (join_direction opts) n (join_before opts))) = Some w3" "keeps_panes w2 w3"
    using resize_joined [of w2 "join_full_size opts" k "join_direction opts" "join_before opts" n] w2(2) by (auto elim: returnsE)
  show ?thesis unfolding receive_joined_def w1(1)
    using w2 k w3 w1(3) by simp
qed

lemma distinct_ids: "window_ok w \<Longrightarrow> count (window_ids w) i \<le> 1"
  using distinct_count_atmost_1 [of "map p_id (w_panes w)"]
  by (simp add: window_ok_def window_inv_def ids_inv_def window_ids_def del: mset_map set_map)

lemma once_removed: "add_mset x A = B \<Longrightarrow> count B x \<le> 1 \<Longrightarrow> x \<notin># A"
  by (auto simp: not_in_iff)

lemma auto_unzoom_keeps:
  assumes "window_ok w"
  obtains w1 z where "auto_unzoom w = Some (w1, z)" "keeps_panes w w1" "same_roster w w1"
proof -
  obtain w1 where w1: "unzoom w = Some w1" "relaid w w1" "window_inv w1"
    using unzoom_inv [OF window_okD(1) [OF assms]] by (auto elim: returnsE)
  have roster: "same_roster w w1" by (rule relaid_roster [OF w1(2)])
  then have "keeps_panes w w1" using roster_keep [OF assms] w1(3) by blast
  then show ?thesis using that w1(1) roster by (auto simp: unzoom_def)
qed

lemma move_joined_ok:
  assumes w: "window_ok w" and ij: "i < length (w_panes w)" "j < length (w_panes w)" "i \<noteq> j"
  shows "returns (move_joined opts i i j w) (\<lambda>(w', r). case r of
      Inl _ \<Rightarrow> keeps_panes w w'
    | Inr m \<Rightarrow> m = p_id (w_panes w ! i) \<and> window_inv w' \<and> window_ids w' = window_ids w)"
proof (cases "join_full_size opts")
  case False
  let ?k = "if join_before opts then adjusted_insert_position_before i j else adjusted_insert_position i j"
  have "mset (list_insert (list_remove (map p_id (w_panes w)) i) ?k (p_id (w_panes w ! i))) = window_ids w"
    using mset_list_remove [of i "map p_id (w_panes w)"] ij(1)
    by (simp add: mset_list_insert window_ids_def del: mset_map)
  then show ?thesis
    using False roster_keep [OF w] move_pane_inv [OF window_okD(1) [OF w], of i j ?k "join_direction opts" "join_before opts"]
    by (auto simp: move_joined_def window_ids_def simp del: mset_map elim!: returns_mono split: sum.splits)
next
  case True
  obtain w1 z where w1: "auto_unzoom w = Some (w1, z)" "keeps_panes w w1" "same_roster w w1"
    using auto_unzoom_keeps [OF w] .
  note same = same_roster_ids [OF w1(3)]
  have two: "2 \<le> length (w_panes w1)" "i < length (w_panes w1)" using ij same(2) by auto
  obtain w2 p where w2: "extract_pane w1 i = Some (w2, Some p)" "window_ok w2" "p_id p = p_id (w_panes w1 ! i)"
    "add_mset (p_id p) (window_ids w2) = window_ids w1" "length (w_panes w2) = length (w_panes w1) - 1"
    using extract_ok [of w1 i] w1(2) two by (auto elim!: returnsE)
  have id: "p_id p = p_id (w_panes w ! i)" using w2(3) same(1,2) ij(1) by (metis nth_map)
  have len: "Suc (length (w_panes w2)) < u32_max" using w2(5) two w1(2) by (simp add: window_ok_def window_inv_def ids_inv_def)
  have "p_id p \<notin># window_ids w2" using distinct_ids [of w1] w1(2) w2(4) by (simp add: once_removed)
  then obtain w3 where w3: "insert_pane_full_size w2 (p\<lparr>p_index := transient_index w2\<rparr>) (join_direction opts) (join_before opts)
      = Some (w3, Inr ())" "window_inv w3" "window_ids w3 = add_mset (p_id p) (window_ids w2)"
    using insert_joined [OF w2(2) len, of "p\<lparr>p_index := transient_index w2\<rparr>" 0 True "join_direction opts" "join_before opts"]
      transient_numbered [OF w2(2)] by (auto elim!: returnsE)
  then show ?thesis using True w1(1,2) w2(1,4) id by (simp add: move_joined_def)
qed

text \<open>The pane that becomes active after a detached move is a pane of the window.\<close>

lemma active_after_ok:
  assumes w: "window_ok w" and ij: "i < length (w_panes w)" "j < length (w_panes w)" "i \<noteq> j" and a: "a \<in># window_ids w"
  obtains b where "active_after_detached_move w i m a = Some b" "b \<in># window_ids w"
proof -
  have nth: "k < length (w_panes w) \<Longrightarrow> p_id (w_panes w ! k) \<in># window_ids w" for k by (simp add: member_ids)
  let ?k = "if i > 0 then i - 1 else i + 1"
  have "?k < length (w_panes w)" using ij by auto
  then have "map_option p_id (list_get (w_panes w) ?k) = Some (p_id (w_panes w ! ?k))" by (simp add: list_get_def)
  then have "\<exists>b. active_after_detached_move w i m a = Some b \<and> b \<in># window_ids w"
    using a nth [of ?k] last_ids [of w] \<open>?k < length (w_panes w)\<close>
    by (simp add: active_after_detached_move_def keep_if_def split del: if_split split: option.split)
      (auto split: if_splits)
  then show ?thesis using that by blast
qed

lemma size_joined_ok:
  assumes w: "window_ok w" and "p_id tp \<in># window_ids w"
  shows "returns (size_joined opts sp tp k n w) (keeps_panes w)"
proof -
  have r: "returns (map_option fst (resize_pane_to w m d c)) (keeps_panes w)" for m d c
    using returns_keep [OF w resize_pane_to_inv [OF window_okD(1) [OF w]]] by (simp add: case_prod_beta')
  obtain m where "pane_index_for_id w (p_id tp) = Some m" using index_for_id [OF assms(2)] by blast
  then show ?thesis using r w by (simp add: size_joined_def split: option.splits del: returns_map)
qed

lemma join_within_ok:
  assumes w: "window_ok w" and ij: "i < length (w_panes w)" "j < length (w_panes w)" "i \<noteq> j"
  shows "returns (join_within now opts i (w_panes w ! i) j (w_panes w ! j) w) (\<lambda>(w', r). keeps_panes w w')"
proof (cases "res_bind (ensure_accepts_pane w (w_panes w ! i) (Some i))
     (\<lambda>_. join_requested_size w (p_index (w_panes w ! j)) (join_direction opts) (join_full_size opts) (join_size opts))")
  case (Inl e)
  then show ?thesis using w by (simp add: join_within_def)
next
  case (Inr n)
  obtain a where a: "active_pane w = Some a" "p_id a \<in># window_ids w" using active_ids [OF w] member_ids by blast
  obtain b where b: "active_after_detached_move w i (p_id (w_panes w ! i)) (p_id a) = Some b" "b \<in># window_ids w"
    using active_after_ok [OF w ij a(2)] .
  define l where "l = last_after_detached_move w (p_id (w_panes w ! i)) (p_id (w_panes w ! j)) (p_id a) (Some b)"
  have idx: "p_index (w_panes w ! i) = i" using numbered_nth [OF window_okD(2) [OF w] ij(1)] .
  obtain w1 r where w1: "move_joined opts i i j w = Some (w1, r)" "case r of Inl _ \<Rightarrow> keeps_panes w w1
    | Inr m \<Rightarrow> m = p_id (w_panes w ! i) \<and> window_inv w1 \<and> window_ids w1 = window_ids w"
    using move_joined_ok [OF w ij, of opts] by (auto elim!: returnsE)
  show ?thesis
  proof (cases r)
    case Inl
    then show ?thesis using w1 Inr a(1) idx by (simp add: join_within_def)
  next
    case (Inr m)
    then have m: "m = p_id (w_panes w ! i)" "ids_inv w1" "tree_inv w1" "window_ids w1 = window_ids w"
      using w1(2) by (simp_all add: window_inv_def)
    have ids: "p_id (w_panes w ! i) \<in># window_ids w" "p_id (w_panes w ! j) \<in># window_ids w" using ij by (simp_all add: member_ids)
    let ?last = "if p_id a = m then last_pane_id w else Some (p_id a)"
    have "returns (if join_detached opts then renumber_panes_by_position w1 b l
        else renumber_panes_by_position_stamping now w1 m ?last (Some (p_id a))) (keeps_panes w1)"
      using renumber_ok [OF m(2,3)] stamping_ok [OF m(2,3)] b(2) ids(1) m(1,4) by simp
    then obtain w2 where w2: "(if join_detached opts then renumber_panes_by_position w1 b l
        else renumber_panes_by_position_stamping now w1 m ?last (Some (p_id a))) = Some w2" "keeps_panes w1 w2"
      by (auto elim: returnsE)
    obtain k where k: "pane_index_for_id w2 m = Some k" using index_for_id [of m w2] ids(1) w2(2) m by auto
    obtain w3 where w3: "size_joined opts (w_panes w ! i) (w_panes w ! j) k n w2 = Some w3" "keeps_panes w2 w3"
      using size_joined_ok [of w2 "w_panes w ! j" opts "w_panes w ! i" k n] w2(2) ids(2) m(4) by (auto elim: returnsE)
    have "join_within now opts i (w_panes w ! i) j (w_panes w ! j) w = Some (w3, Inr ())"
      using \<open>res_bind _ _ = Inr n\<close> a(1) b(1) w1(1) Inr w2(1) k w3(1) idx
      by (simp add: join_within_def Let_def l_def split del: if_split)
        (cases "join_detached opts"; simp add: l_def)
    then show ?thesis using w2(2) w3(2) m(4) by simp
  qed
qed

section \<open>Splitting at full size and killing\<close>

lemma commit_split_ok:
  assumes "window_inv w" "i \<in># window_ids w" "a \<in># window_ids w"
  shows "returns (commit_split_renumber now w i (Some a) l detached) (keeps_panes w)"
  using commit_split_inv [of w i a now l detached] assms
  by (auto simp: window_ok_def numbered_def window_ids_def window_inv_def simp del: mset_map elim!: returns_mono)

lemma remove_ok:
  assumes w: "window_ok w" and k: "k < length (w_panes w)" and two: "2 \<le> length (w_panes w)"
  obtains w' p where "remove_pane w k = Some (w', Some p)" "window_ok w'" "p_id p = p_id (w_panes w ! k)"
    "add_mset (p_id p) (window_ids w') = window_ids w"
  using extract_ok [OF assms] two by (auto simp: remove_pane_def elim!: returnsE)

lemma remove_others_ok:
  assumes w: "window_ok w" and k: "pane_at w k = Some p"
  obtains w' ids where "remove_other_panes now w k = Some (w', Some ids)" "window_ok w'" "window_ids w' = {#p_id p#}"
proof -
  obtain w' ids where w': "remove_other_panes now w k = Some (w', Some ids)" "window_inv w'" "map p_id (w_panes w') = [p_id p]"
    and idx: "1 < length (w_panes w) \<Longrightarrow> map p_index (w_panes w') = [0]"
    using remove_other_panes_inv [OF window_okD(1) [OF w] k, of now] by (auto elim!: returnsE)
  show ?thesis
  proof (cases "1 < length (w_panes w)")
    case True
    then have "numbered w'" using w'(3) idx by (cases "w_panes w'") (auto simp: numbered_def)
    then show ?thesis using that w' by (simp add: window_ok_def window_ids_def del: mset_map)
  next
    case False
    then obtain q where q: "w_panes w = [q]" using pane_at_Some [OF k] by (cases "w_panes w") auto
    then have "window_ids w' = window_ids w" "window_ok w'"
      using select_pane_ok [OF w, of now k] w'(1) k pane_at_Some [OF k] by (auto simp: remove_other_panes_def elim!: returnsE)
    then show ?thesis using that w' q pane_at_Some [OF k] by (auto simp: window_ids_def)
  qed
qed

end
