(* ===== verification/Session_Inv.thy ===== *)
theory Session_Inv
  imports Window_Transfers
begin

text \<open>
  The invariant of a session and the operations on its windows: the two maps have the same keys, every
  window is consistent, and the current and the last window exist. Operations that only move windows
  keep the panes of the session, counted as a multiset of their ids.
\<close>

section \<open>The invariant\<close>

definition windows_inv :: "session \<Rightarrow> bool" where
  "windows_inv s \<longleftrightarrow> bm_sorted (ss_windows s) \<and> bm_sorted (ss_winlink_alert_flags s)
     \<and> (\<forall>k. map_of (ss_winlink_alert_flags s) k = None \<longleftrightarrow> window_at s k = None)
     \<and> (\<forall>k w. window_at s k = Some w \<longrightarrow> window_ok w \<and> k \<le> u32_max)
     \<and> ss_next_pane_id s \<le> u32_max"

definition current_inv :: "session \<Rightarrow> bool" where
  "current_inv s \<longleftrightarrow> window_at s (ss_active_window s) \<noteq> None \<and> pred_option (\<lambda>l. window_at s l \<noteq> None) (ss_last_window s)"

definition session_inv :: "session \<Rightarrow> bool" where
  "session_inv s \<longleftrightarrow> windows_inv s \<and> current_inv s"

definition ids_of :: "(u32 \<times> window) list \<Rightarrow> u32 multiset" where
  "ids_of m = sum_list (map (\<lambda>(k, w). window_ids w) m)"

definition session_ids :: "session \<Rightarrow> u32 multiset" where
  "session_ids s = ids_of (ss_windows s)"

abbreviation keeps_session :: "session \<Rightarrow> session \<Rightarrow> bool" where
  "keeps_session s s' \<equiv> session_inv s' \<and> session_ids s' = session_ids s"

lemma session_invD:
  assumes "session_inv s"
  shows "windows_inv s" "current_inv s" "bm_sorted (ss_windows s)" "bm_sorted (ss_winlink_alert_flags s)"
    "window_at s (ss_active_window s) \<noteq> None" "window_at s k = Some w \<Longrightarrow> window_ok w" "window_at s k = Some w \<Longrightarrow> k \<le> u32_max"
    "ss_next_pane_id s \<le> u32_max"
  using assms by (simp_all add: session_inv_def windows_inv_def current_inv_def)

lemma bm_remove_absent: "map_of m k = None \<Longrightarrow> bm_remove k m = m"
  by (induction m) (auto simp: bm_remove_def split: if_splits)

lemma ids_of_remove:
  "bm_sorted m \<Longrightarrow> map_of m k = Some w \<Longrightarrow> ids_of m = window_ids w + ids_of (bm_remove k m)"
proof (induction m)
  case (Cons x m)
  show ?case
  proof (cases "fst x = k")
    case True
    then have "map_of m k = None" using Cons.prems(1) by (cases x) (auto simp: map_of_eq_None_iff)
    then show ?thesis using True Cons.prems bm_remove_absent [of m k]
      by (cases x) (simp add: ids_of_def bm_remove_def)
  next
    case False
    then show ?thesis using Cons by (cases x) (simp add: ids_of_def bm_remove_def)
  qed
qed simp

lemma ids_of_insert: "bm_sorted m \<Longrightarrow> ids_of (bm_insert k w m) = window_ids w + ids_of (bm_remove k m)"
proof (induction k w m rule: bm_insert.induct)
  case (2 k w k' w' m)
  then have "map_of m k = None" if "k \<le> k'" using that by (force simp: map_of_eq_None_iff)
  then show ?case using 2 bm_remove_absent [of m k] by (auto simp: ids_of_def bm_remove_def)
qed (simp add: ids_of_def bm_remove_def)

lemma ids_of_replace:
  "bm_sorted m \<Longrightarrow> map_of m k = Some w \<Longrightarrow> window_ids w + ids_of (bm_insert k w' m) = window_ids w' + ids_of m"
  using ids_of_remove [of m k w] ids_of_insert [of m k w'] by simp

section \<open>The parts of the operations\<close>

lemma window_at_put: "bm_sorted (ss_windows s) \<Longrightarrow> window_at (put_window k w s) j = (if j = k then Some w else window_at s j)"
  by (simp add: window_at_def put_window_def map_of_bm_insert)

lemma window_at_drop: "window_at (drop_window k s) j = (if j = k then None else window_at s j)"
  by (simp add: window_at_def drop_window_def map_of_bm_remove)

lemma window_at_frames [simp]:
  "window_at (put_flags k f s) = window_at s" "window_at (forget_last k s) = window_at s"
  "window_at (bump_allocators_for_window w s) = window_at s"
  "window_at (s\<lparr>ss_active_window := a\<rparr>) = window_at s" "window_at (s\<lparr>ss_last_window := l\<rparr>) = window_at s"
  "window_at (s\<lparr>ss_group_initial_window_id := g\<rparr>) = window_at s" "window_at (s\<lparr>ss_next_pane_id := n\<rparr>) = window_at s"
  "window_at (s\<lparr>ss_next_window_id := n\<rparr>) = window_at s" "window_at (s\<lparr>ss_terminal_size := sz\<rparr>) = window_at s"
  by (simp_all add: window_at_def put_flags_def forget_last_def bump_allocators_for_window_def fun_eq_iff)

lemma session_ids_frames [simp]:
  "session_ids (put_flags k f s) = session_ids s" "session_ids (forget_last k s) = session_ids s"
  "session_ids (bump_allocators_for_window w s) = session_ids s"
  "session_ids (s\<lparr>ss_active_window := a\<rparr>) = session_ids s" "session_ids (s\<lparr>ss_last_window := l\<rparr>) = session_ids s"
  "session_ids (s\<lparr>ss_group_initial_window_id := g\<rparr>) = session_ids s" "session_ids (s\<lparr>ss_next_pane_id := n\<rparr>) = session_ids s"
  "session_ids (s\<lparr>ss_next_window_id := n\<rparr>) = session_ids s" "session_ids (s\<lparr>ss_terminal_size := sz\<rparr>) = session_ids s"
  by (simp_all add: session_ids_def put_flags_def forget_last_def bump_allocators_for_window_def)

lemma windows_inv_frames [simp]:
  "windows_inv (forget_last k s) = windows_inv s" "windows_inv (s\<lparr>ss_active_window := a\<rparr>) = windows_inv s"
  "windows_inv (s\<lparr>ss_last_window := l\<rparr>) = windows_inv s" "windows_inv (s\<lparr>ss_group_initial_window_id := g\<rparr>) = windows_inv s"
  "windows_inv (s\<lparr>ss_next_window_id := n\<rparr>) = windows_inv s" "windows_inv (s\<lparr>ss_terminal_size := sz\<rparr>) = windows_inv s"
  by (simp_all add: windows_inv_def forget_last_def)

lemma current_inv_frames [simp]:
  "current_inv (put_flags k f s) = current_inv s" "current_inv (s\<lparr>ss_group_initial_window_id := g\<rparr>) = current_inv s"
  "current_inv (s\<lparr>ss_next_window_id := n\<rparr>) = current_inv s" "current_inv (s\<lparr>ss_terminal_size := sz\<rparr>) = current_inv s"
  "current_inv (s\<lparr>ss_next_pane_id := n\<rparr>) = current_inv s" "current_inv (bump_allocators_for_window w s) = current_inv s"
  by (simp_all add: current_inv_def) (simp_all add: put_flags_def bump_allocators_for_window_def)

lemma fold_max_le: "a \<le> b \<Longrightarrow> (\<And>x. x \<in> set xs \<Longrightarrow> x \<le> b) \<Longrightarrow> fold max xs a \<le> b" for b :: nat
  by (induction xs arbitrary: a) auto

lemma sat_add_le: "u32_sat_add a b \<le> u32_max"
  by (simp add: machine_defs)

lemma windows_inv_next [simp]: "n \<le> u32_max \<Longrightarrow> windows_inv s \<Longrightarrow> windows_inv (s\<lparr>ss_next_pane_id := n\<rparr>)"
  by (simp add: windows_inv_def)

lemma windows_inv_bump: "windows_inv s \<Longrightarrow> windows_inv (bump_allocators_for_window w s)"
  by (auto simp: windows_inv_def)
    (auto simp: bump_allocators_for_window_def sat_add_le intro!: fold_max_le)

lemma windows_inv_put:
  "windows_inv s \<Longrightarrow> window_at s k \<noteq> None \<Longrightarrow> window_ok w \<Longrightarrow> windows_inv (put_window k w s)"
  by (simp add: windows_inv_def window_at_put del: not_None_eq) (auto simp: put_window_def bm_sorted_insert simp del: not_None_eq)

lemma windows_inv_add:
  "windows_inv s \<Longrightarrow> k \<le> u32_max \<Longrightarrow> window_ok w \<Longrightarrow> windows_inv (put_flags k f (put_window k w s))"
  by (auto simp: windows_inv_def window_at_put)
    (simp_all add: put_window_def put_flags_def bm_sorted_insert map_of_bm_insert split: if_splits)

lemma windows_inv_flags: "windows_inv s \<Longrightarrow> window_at s k \<noteq> None \<Longrightarrow> windows_inv (put_flags k f s)"
  by (auto simp: windows_inv_def) (auto simp: put_flags_def bm_sorted_insert map_of_bm_insert split: if_splits)

lemma windows_inv_drop: "windows_inv s \<Longrightarrow> windows_inv (drop_window k s)"
  by (auto simp: windows_inv_def window_at_drop split: if_splits)
    (auto simp: drop_window_def bm_sorted_remove map_of_bm_remove)

lemma current_inv_put: "bm_sorted (ss_windows s) \<Longrightarrow> current_inv s \<Longrightarrow> current_inv (put_window k w s)"
  by (auto simp: current_inv_def window_at_put pred_option_def) (auto simp: put_window_def)

lemma session_ids_put:
  "bm_sorted (ss_windows s) \<Longrightarrow> window_at s k = Some w \<Longrightarrow>
     window_ids w + session_ids (put_window k w' s) = window_ids w' + session_ids s"
  by (simp add: session_ids_def put_window_def window_at_def ids_of_replace)

lemma session_ids_new:
  "bm_sorted (ss_windows s) \<Longrightarrow> window_at s k = None \<Longrightarrow> session_ids (put_window k w s) = window_ids w + session_ids s"
  by (simp add: session_ids_def put_window_def window_at_def ids_of_insert bm_remove_absent)

lemma session_ids_drop:
  "bm_sorted (ss_windows s) \<Longrightarrow> window_at s k = Some w \<Longrightarrow> window_ids w + session_ids (drop_window k s) = session_ids s"
  using ids_of_remove [of "ss_windows s" k w] by (simp add: session_ids_def drop_window_def window_at_def)

lemma drop_absent: "windows_inv s \<Longrightarrow> window_at s k = None \<Longrightarrow> drop_window k s = s"
  by (simp add: drop_window_def windows_inv_def window_at_def bm_remove_absent)

lemma drop_sorted [simp]: "bm_sorted (ss_windows s) \<Longrightarrow> bm_sorted (ss_windows (drop_window k s))"
  by (simp add: drop_window_def bm_sorted_remove)

section \<open>Operations on one window\<close>

lemma put_window_inv:
  "session_inv s \<Longrightarrow> window_at s k \<noteq> None \<Longrightarrow> window_ok w \<Longrightarrow> session_inv (put_window k w s)"
  using windows_inv_put [of s k w] current_inv_put [of s k w] session_invD(3) [of s] by (simp add: session_inv_def)

lemma put_window_keeps:
  "session_inv s \<Longrightarrow> window_at s k = Some w \<Longrightarrow> keeps_panes w w' \<Longrightarrow> keeps_session s (put_window k w' s)"
  using put_window_inv [of s k w'] session_ids_put [of s k w w'] session_invD(3) [of s] by simp

text \<open>What holds of the window after the operation holds of the session.\<close>

lemma in_window_inv:
  assumes "session_inv s"
    and "\<And>w. window_at s k = Some w \<Longrightarrow> window_ok w \<Longrightarrow> returns (f w) (\<lambda>(w', r). window_ok w')"
  shows "returns (in_window k f s) (\<lambda>(s', r). session_inv s')"
proof (cases "window_at s k")
  case None
  then show ?thesis using assms(1) by (simp add: in_window_def)
next
  case (Some w)
  then obtain w' r where "f w = Some (w', r)" "window_ok w'"
    using assms(2) [OF Some session_invD(6) [OF assms(1) Some]] by (auto elim!: returnsE)
  then show ?thesis using Some put_window_inv [OF assms(1)] by (simp add: in_window_def)
qed

lemma in_window_keeps:
  assumes "session_inv s"
    and "\<And>w. window_at s k = Some w \<Longrightarrow> window_ok w \<Longrightarrow> returns (f w) (\<lambda>(w', r). keeps_panes w w')"
  shows "returns (in_window k f s) (\<lambda>(s', r). keeps_session s s')"
proof (cases "window_at s k")
  case None
  then show ?thesis using assms(1) by (simp add: in_window_def)
next
  case (Some w)
  then obtain w' r where "f w = Some (w', r)" "keeps_panes w w'"
    using assms(2) [OF Some session_invD(6) [OF assms(1) Some]] by (auto elim!: returnsE)
  then show ?thesis using Some put_window_keeps [OF assms(1) Some] by (simp add: in_window_def)
qed

lemma in_pane_inv:
  assumes "session_inv s"
    and "\<And>w. window_at s k = Some w \<Longrightarrow> window_ok w \<Longrightarrow> i < length (w_panes w) \<Longrightarrow> returns (f w) (\<lambda>(w', r). window_ok w')"
  shows "returns (in_pane k i f s) (\<lambda>(s', r). session_inv s')"
  unfolding in_pane_def using assms pane_at_numbered window_okD(2) by (intro in_window_inv) fastforce+

lemma in_pane_keeps:
  assumes "session_inv s"
    and "\<And>w. window_at s k = Some w \<Longrightarrow> window_ok w \<Longrightarrow> i < length (w_panes w) \<Longrightarrow> returns (f w) (\<lambda>(w', r). keeps_panes w w')"
  shows "returns (in_pane k i f s) (\<lambda>(s', r). keeps_session s s')"
  unfolding in_pane_def using assms pane_at_numbered window_okD(2) by (intro in_window_keeps) fastforce+

lemma returns_pair: "returns r P \<Longrightarrow> returns (Option.bind r (\<lambda>w. Some (w, x))) (\<lambda>(w, x). P w)"
  by (cases r) simp_all

lemma window_ops_keep:
  assumes "session_inv s"
  shows "returns (rename_window k n s) (\<lambda>(s', r). keeps_session s s')"
    "returns (set_automatic_window_name k n s) (\<lambda>(s', r). keeps_session s s')"
    "returns (rotate_window_with_zoom now k d z s) (\<lambda>(s', r). keeps_session s s')"
    "returns (resize_window k sz s) (\<lambda>(s', r). keeps_session s s')"
  unfolding rename_window_def set_automatic_window_name_def rotate_window_with_zoom_def resize_window_def
  by (rule in_window_keeps [OF assms], simp add: plain_ok rotate_ok set_size_ok)+

lemma respawn_keeps_inv:
  assumes "session_inv s"
  shows "returns (respawn_window_with_pane_id now k i s) (\<lambda>(s', r). session_inv s')"
    "returns (respawn_window now k s) (\<lambda>(s', r). session_inv s')"
proof -
  show id: "returns (respawn_window_with_pane_id now k i s) (\<lambda>(s', r). session_inv s')" for i
    unfolding respawn_window_with_pane_id_def by (rule in_window_inv [OF assms]) (simp add: respawn_ok)
  show "returns (respawn_window now k s) (\<lambda>(s', r). session_inv s')"
    using assms id by (simp add: respawn_window_def split: option.split list.split)
qed

section \<open>Selecting\<close>

lemma clear_frames [simp]:
  fixes s f k
  defines "s' \<equiv> fst (clear_winlink_alert_flags k f s)"
  shows "window_at s' = window_at s" "session_ids s' = session_ids s" "ss_active_window s' = ss_active_window s"
    "ss_last_window s' = ss_last_window s" "ss_windows s' = ss_windows s" "ss_next_window_id s' = ss_next_window_id s"
  by (simp_all add: s'_def clear_winlink_alert_flags_def split: option.split) (simp_all add: put_flags_def)

lemma flags_key: "windows_inv s \<Longrightarrow> map_of (ss_winlink_alert_flags s) k = None \<longleftrightarrow> window_at s k = None"
  by (simp add: windows_inv_def)

lemma windows_inv_clear: "windows_inv s \<Longrightarrow> windows_inv (fst (clear_winlink_alert_flags k f s))"
  using windows_inv_flags [of s k] flags_key [of s k] by (auto simp: clear_winlink_alert_flags_def split: option.split)

lemma select_window_eq:
  assumes "window_at s k \<noteq> None"
  obtains s' where "select_window k s = (s', Inr ())" "window_at s' = window_at s" "session_ids s' = session_ids s"
    "ss_active_window s' = k" "ss_last_window s' = (if ss_active_window s = k then ss_last_window s else Some (ss_active_window s))"
    "windows_inv s \<Longrightarrow> windows_inv s'" "ss_windows s' = ss_windows s" "ss_next_window_id s' = ss_next_window_id s"
proof (cases "ss_active_window s = k")
  case True
  then show ?thesis using that assms by (auto simp: select_window_def)
next
  case False
  let ?s = "s\<lparr>ss_last_window := Some (ss_active_window s), ss_active_window := k, ss_group_initial_window_id := None\<rparr>"
  show ?thesis
    by (rule that [of "fst (clear_all_winlink_alert_flags k ?s)"])
      (use assms False windows_inv_clear [of ?s k] in \<open>simp_all add: select_window_def clear_all_winlink_alert_flags_def\<close>)
qed

lemma select_window_keeps: "session_inv s \<Longrightarrow> keeps_session s (fst (select_window k s))"
proof (cases "window_at s k = None")
  case True
  then show "session_inv s \<Longrightarrow> keeps_session s (fst (select_window k s))" by (simp add: select_window_def)
next
  case False
  assume inv: "session_inv s"
  obtain s' where "select_window k s = (s', Inr ())" "window_at s' = window_at s" "session_ids s' = session_ids s"
    "ss_active_window s' = k" "ss_last_window s' = (if ss_active_window s = k then ss_last_window s else Some (ss_active_window s))"
    "windows_inv s \<Longrightarrow> windows_inv s'"
    using select_window_eq [OF False] by metis
  then show ?thesis using inv False by (simp add: session_inv_def current_inv_def)
qed

lemma step_window_keeps: "session_inv s \<Longrightarrow> keeps_session s (fst (step_window m forward alerts s))"
  using select_window_keeps [of s] by (auto simp: step_window_def split: option.splits prod.splits) (metis fst_conv)+

lemma last_window_keeps: "session_inv s \<Longrightarrow> keeps_session s (fst (last_window s))"
  using select_window_keeps [of s] by (auto simp: last_window_def split: option.splits prod.splits) (metis fst_conv)+

lemma flag_ops_keep:
  assumes "session_inv s"
  shows "keeps_session s (fst (add_winlink_alert_flags k f s))" "keeps_session s (fst (clear_winlink_alert_flags k f s))"
  using assms windows_inv_flags [of s k] windows_inv_clear [of s k f]
  by (simp_all add: session_inv_def add_winlink_alert_flags_def current_inv_def Let_def) (auto simp: put_flags_def)

end
