(* ===== verification/Session_Windows_Inv.thy ===== *)
theory Session_Windows_Inv
  imports Session_Inv
begin

text \<open>
  Creating, linking, removing, moving, swapping and renumbering the windows of a session: the
  operations return, keep the invariant of the session, and do to the map of windows what is stated.
\<close>

section \<open>Allocating\<close>

lemma contains_ids: "contains_pane_id s i \<longleftrightarrow> i \<in># session_ids s"
proof -
  have "list_ex (\<lambda>p. p_id p = i) (w_panes w) \<longleftrightarrow> i \<in># window_ids w" for w
    by (auto simp: window_ids_def list_ex_iff)
  then have "list_ex (\<lambda>(_, w). list_ex (\<lambda>p. p_id p = i) (w_panes w)) m \<longleftrightarrow> i \<in># ids_of m" for m
    by (induction m) (auto simp: ids_of_def)
  then show ?thesis by (simp add: contains_pane_id_def session_ids_def)
qed

lemma free_pane_id_Some:
  "free_pane_id s n = Some i \<Longrightarrow> n \<le> i \<and> i \<notin># session_ids s \<and> (\<forall>j. n \<le> j \<and> j < i \<longrightarrow> j \<in># session_ids s)"
proof (induction s n rule: free_pane_id.induct)
  case (1 s n)
  show ?case
  proof (cases "contains_pane_id s n \<and> n < u32_max")
    case True
    then have "n + 1 \<le> i \<and> i \<notin># session_ids s \<and> (\<forall>j. n + 1 \<le> j \<and> j < i \<longrightarrow> j \<in># session_ids s)"
      using 1 by (simp add: free_pane_id.simps [of s n])
    then show ?thesis using True by (auto simp: contains_ids) (metis Suc_leI le_neq_implies_less)
  next
    case False
    then show ?thesis using 1(2) by (auto simp: free_pane_id.simps [of s n] contains_ids split: if_splits)
  qed
qed

lemma allocate_pane_id_inv:
  assumes "session_inv s" "allocate_pane_id s = Some (s1, i)"
  shows "session_inv s1" "session_ids s1 = session_ids s" "i \<notin># session_ids s" "window_at s1 = window_at s"
    "ss_next_window_id s1 = ss_next_window_id s" "ss_active_window s1 = ss_active_window s"
  using assms free_pane_id_Some [of s "ss_next_pane_id s" i]
  by (auto simp: allocate_pane_id_def session_inv_def bind_eq_Some_conv sat_add_le)

lemma lowest_available_Some:
  assumes "sorted_wrt (<) ks" "lowest_available ks n = Some g" "n \<le> u32_max"
  shows "n \<le> g \<and> g \<le> u32_max \<and> g \<notin> set ks \<and> {n..<g} \<subseteq> set ks"
  using assms
proof (induction ks n rule: lowest_available.induct)
  case (2 k ks n)
  consider "k < n" | "k > n" | "k = n" by linarith
  then show ?case
  proof cases
    case 3
    then have "n + 1 \<le> g \<and> g \<le> u32_max \<and> g \<notin> set ks \<and> {n + 1..<g} \<subseteq> set ks" using 2 by (auto split: if_splits)
    moreover have "{n..<g} \<subseteq> insert n {n + 1..<g}" by auto
    ultimately show ?thesis using 3 by auto
  qed (use 2 in auto)
qed auto

lemma lowest_available_None: "lowest_available ks n = None \<Longrightarrow> n \<le> u32_max \<Longrightarrow> {n..u32_max} \<subseteq> set ks"
proof (induction ks n rule: lowest_available.induct)
  case (2 k ks n)
  show ?case
  proof (cases "k = n \<and> n < u32_max")
    case True
    then have "{n + 1..u32_max} \<subseteq> set ks" using 2 by (simp split: if_splits)
    moreover have "{n..u32_max} \<subseteq> insert n {n + 1..u32_max}" by auto
    ultimately show ?thesis using True by auto
  qed (use 2 in \<open>auto split: if_splits\<close>)
qed simp

lemma keys_window_at: "k \<in> fst ` set (ss_windows s) \<longleftrightarrow> window_at s k \<noteq> None"
  by (simp add: window_at_def map_of_eq_None_iff)

lemma lowest_available_window:
  assumes "session_inv s" "lowest_available_window_index_at_or_above s n = Inr g" "n \<le> u32_max"
  shows "n \<le> g" "g \<le> u32_max" "window_at s g = None" "\<And>k. n \<le> k \<Longrightarrow> k < g \<Longrightarrow> window_at s k \<noteq> None"
proof -
  have "n \<le> g \<and> g \<le> u32_max \<and> g \<notin> set (map fst (ss_windows s)) \<and> {n..<g} \<subseteq> set (map fst (ss_windows s))"
    using assms session_invD(3) [OF assms(1)]
    by (intro lowest_available_Some) (auto simp: lowest_available_window_index_at_or_above_def bm_sorted_def split: option.splits)
  then show "n \<le> g" "g \<le> u32_max" "window_at s g = None" "\<And>k. n \<le> k \<Longrightarrow> k < g \<Longrightarrow> window_at s k \<noteq> None"
    using keys_window_at [of g s] keys_window_at [of _ s] unfolding set_map by (blast, blast, blast, metis atLeastLessThan_iff subsetD)
qed

section \<open>Creating and linking\<close>

lemma add_window_inv:
  assumes "session_inv s" "k \<le> u32_max" "window_ok w"
  shows "session_inv (add_window k w s)" "window_at s k = None \<Longrightarrow> session_ids (add_window k w s) = window_ids w + session_ids s"
    "window_at (add_window k w s) = (window_at s)(k \<mapsto> w)"
  using assms windows_inv_add [of s k w 0] current_inv_put [of s k w] session_invD(3) [OF assms(1)] session_ids_new [of s k w]
  by (simp_all add: add_window_def session_inv_def fun_eq_iff window_at_put)

definition created :: "session \<Rightarrow> u32 \<Rightarrow> u32 \<Rightarrow> session \<Rightarrow> bool" where
  "created s k i s' \<longleftrightarrow> session_inv s' \<and> session_ids s' = add_mset i (session_ids s)
     \<and> window_at s k = None \<and> (\<exists>w. window_at s' = (window_at s)(k \<mapsto> w) \<and> window_ids w = {#i#})"

lemma create_at:
  assumes inv: "session_inv s" and k: "k \<le> u32_max" "window_at s k = None" and room: "ss_next_window_id s \<noteq> u32_max"
  obtains s1 wid w where "allocate_window_id s = Some (s1, wid)" "new_with_initial_pane now sz i wid = Some w"
    "created s k i (add_window k w s1)"
proof -
  let ?s1 = "s\<lparr>ss_next_window_id := ss_next_window_id s + 1\<rparr>"
  obtain w where w: "new_with_initial_pane now sz i (ss_next_window_id s) = Some w" "window_ok w" "window_ids w = {#i#}"
    using new_window_ok [of now sz i "ss_next_window_id s"] by (auto elim!: returnsE)
  have "session_inv ?s1" using inv by (simp add: session_inv_def)
  then have "created s k i (add_window k w ?s1)"
    using add_window_inv [of ?s1 k w] w(2,3) k by (auto simp: created_def)
  then show ?thesis using that w(1) room by (simp add: allocate_window_id_def)
qed

lemma create_window_with_pane_inv:
  assumes inv: "session_inv s" and n: "n \<le> u32_max" and room: "ss_next_window_id s \<noteq> u32_max"
  shows "returns (create_window_at_or_above_with_pane_id now sz n i s) (\<lambda>(s', r). session_inv s'
    \<and> (case r of Inl _ \<Rightarrow> s' = s | Inr (k, j) \<Rightarrow> j = i \<and> n \<le> k \<and> created s k i s'))"
proof (cases "lowest_available_window_index_at_or_above s n")
  case (Inl e)
  then show ?thesis using inv by (simp add: create_window_at_or_above_with_pane_id_def)
next
  case (Inr k)
  note k = lowest_available_window [OF inv Inr n]
  obtain s1 wid w where "allocate_window_id s = Some (s1, wid)" "new_with_initial_pane now sz i wid = Some w"
    "created s k i (add_window k w s1)"
    using create_at [OF inv k(2,3) room] .
  then show ?thesis using Inr k(1) by (simp add: create_window_at_or_above_with_pane_id_def created_def)
qed

lemma insert_window_with_pane_inv:
  assumes inv: "session_inv s" and k: "k \<le> u32_max" and room: "ss_next_window_id s \<noteq> u32_max"
  shows "returns (insert_window_with_initial_pane_with_id now k sz i s) (\<lambda>(s', r). session_inv s'
    \<and> (case r of Inl _ \<Rightarrow> s' = s | Inr _ \<Rightarrow> created s k i s'))"
proof (cases "window_at s k = None")
  case False
  then show ?thesis using inv by (simp add: insert_window_with_initial_pane_with_id_def)
next
  case True
  obtain s1 wid w where "allocate_window_id s = Some (s1, wid)" "new_with_initial_pane now sz i wid = Some w"
    "created s k i (add_window k w s1)"
    using create_at [OF inv k True room] .
  then show ?thesis using True by (simp add: insert_window_with_initial_pane_with_id_def created_def)
qed

lemma insert_existing_inv:
  assumes "session_inv s" "k \<le> u32_max" "window_ok w"
  shows "session_inv (fst (insert_existing_window k w s))"
    "window_at s k = None \<Longrightarrow> snd (insert_existing_window k w s) = Inr ()
       \<and> session_ids (fst (insert_existing_window k w s)) = window_ids w + session_ids s"
    "window_at s k = None \<Longrightarrow> window_at (fst (insert_existing_window k w s)) = (window_at s)(k \<mapsto> w)"
proof -
  have "session_inv (bump_allocators_for_window w s)" using assms windows_inv_bump by (simp add: session_inv_def)
  from add_window_inv [OF this assms(2,3)]
  show "session_inv (fst (insert_existing_window k w s))"
    "window_at s k = None \<Longrightarrow> snd (insert_existing_window k w s) = Inr ()
       \<and> session_ids (fst (insert_existing_window k w s)) = window_ids w + session_ids s"
    "window_at s k = None \<Longrightarrow> window_at (fst (insert_existing_window k w s)) = (window_at s)(k \<mapsto> w)"
    using assms(1) by (simp_all add: insert_existing_window_def)
qed

lemma replace_window_inv:
  assumes "session_inv s" "window_ok w"
  shows "session_inv (fst (replace_window k w s))"
proof (cases "window_at s k")
  case (Some v)
  have "session_inv (bump_allocators_for_window w s)" using assms windows_inv_bump by (simp add: session_inv_def)
  then show ?thesis using Some put_window_inv [of "bump_allocators_for_window w s" k w] assms(2) by (simp add: replace_window_def)
qed (use assms in \<open>simp add: replace_window_def\<close>)

lemma link_window_inv:
  assumes "session_inv s" "k \<le> u32_max" "window_ok w"
  shows "session_inv (fst (link_window k w kill sel s))"
proof -
  let ?mid = "if kill
    then (case replace_window k w s of
            (s1, Inl e) \<Rightarrow> (s1, Inl e)
          | (s1, Inr old) \<Rightarrow> (fst (clear_all_winlink_alert_flags k s1), Inr (Some old)))
    else (case insert_existing_window k w s of (s1, r) \<Rightarrow> (s1, res_bind r (\<lambda>_. Inr None)))"
  have sel: "session_inv s' \<Longrightarrow> session_inv (fst (select_window k s'))" for s' using select_window_keeps by blast
  have clr: "session_inv s' \<Longrightarrow> session_inv (fst (clear_all_winlink_alert_flags k s'))" for s'
    unfolding clear_all_winlink_alert_flags_def using flag_ops_keep(2) by blast
  obtain s1 r1 s2 r2 where e: "replace_window k w s = (s1, r1)" "insert_existing_window k w s = (s2, r2)" by fastforce
  then have "session_inv s1" "session_inv s2"
    using replace_window_inv [OF assms(1,3), of k] insert_existing_inv(1) [OF assms] by simp_all
  then have mid: "session_inv (fst ?mid)" using clr by (cases r1; cases kill) (simp_all add: e)
  obtain s3 r3 where m: "?mid = (s3, r3)" by fastforce
  obtain s4 r4 where "select_window k s3 = (s4, r4)" by fastforce
  then show ?thesis using mid sel [of s3] assms(1) unfolding link_window_def m by (cases r3) simp_all
qed

end
