(* ===== verification/Session_Moves_Inv.thy ===== *)
theory Session_Moves_Inv
  imports Session_Windows_Inv
begin

text \<open>
  Removing, moving, swapping, shifting and renumbering the windows of a session.
\<close>

section \<open>Removing\<close>

lemma cyclic_previous_Some:
  assumes "j \<in> fst ` set m" "j \<noteq> k"
  obtains a where "cyclic_previous_window_index m k = Some a" "a \<in> fst ` set m" "a \<noteq> k"
proof -
  let ?below = "filter (\<lambda>x. x < k) (map fst m)" and ?above = "filter (\<lambda>x. k < x) (map fst m)"
  have "j \<in> set ?below \<or> j \<in> set ?above" using assms by auto
  then have ne: "?below \<noteq> [] \<or> ?above \<noteq> []" by (metis empty_iff list.set(1))
  have mem: "xs \<noteq> [] \<Longrightarrow> last xs \<in> set xs" for xs :: "'a list" by simp
  show ?thesis
  proof (cases "?below = []")
    case True
    then show ?thesis using that [of "last ?above"] ne mem [of ?above] by (auto simp: cyclic_previous_window_index_def Let_def)
  next
    case False
    then show ?thesis using that [of "last ?below"] mem [of ?below] by (auto simp: cyclic_previous_window_index_def Let_def)
  qed
qed

lemma next_active_Some:
  assumes "window_at s j \<noteq> None" "j \<noteq> k"
  obtains a where "next_active_window_after_removal s k = Some a" "window_at s a \<noteq> None" "a \<noteq> k"
proof -
  obtain c where c: "cyclic_previous_window_index (ss_windows s) k = Some c" "window_at s c \<noteq> None" "c \<noteq> k"
    using cyclic_previous_Some [of j "ss_windows s" k] assms keys_window_at by metis
  have found: "window_at s a \<noteq> None \<and> a \<noteq> k"
    if "Option.bind g (\<lambda>i. List.find (\<lambda>(x, w). x \<noteq> k \<and> w_id w = i) (ss_windows s)) = Some (a, w)" for g a w
  proof -
    from that obtain i where "List.find (\<lambda>(x, w). x \<noteq> k \<and> w_id w = i) (ss_windows s) = Some (a, w)" by (auto simp: bind_eq_Some_conv)
    then have "(a, w) \<in> set (ss_windows s)" "a \<noteq> k" by (auto simp: find_Some_iff) (metis nth_mem)
    then show ?thesis using keys_window_at [of a s] image_eqI [of a fst "(a, w)"] by auto
  qed
  have "\<exists>a. after_group_window s k = Some a \<and> window_at s a \<noteq> None \<and> a \<noteq> k"
    using c found by (auto simp: after_group_window_def simp del: not_None_eq split: option.splits)
  then have "\<exists>a. next_active_window_after_removal s k = Some a \<and> window_at s a \<noteq> None \<and> a \<noteq> k"
    by (simp add: next_active_window_after_removal_def split: option.split)
  then show ?thesis using that by blast
qed

lemma several_windows: "length (ss_windows s) > 1 \<Longrightarrow> bm_sorted (ss_windows s) \<Longrightarrow> \<exists>j. j \<noteq> k \<and> window_at s j \<noteq> None"
proof -
  assume "length (ss_windows s) > 1" and s: "bm_sorted (ss_windows s)"
  then obtain a b m where m: "ss_windows s = a # b # m" by (cases "ss_windows s"; cases "tl (ss_windows s)") auto
  then have "fst a \<noteq> fst b" using bm_sorted_distinct [OF s] by auto
  then obtain x where "x \<in> {a, b}" "fst x \<noteq> k" by (metis insert_iff)
  then show ?thesis using m keys_window_at [of "fst x" s] by auto
qed

lemma forget_last_current:
  "window_at s (ss_active_window s) \<noteq> None \<Longrightarrow> pred_option (\<lambda>l. l = k \<or> window_at s l \<noteq> None) (ss_last_window s) \<Longrightarrow>
     current_inv (forget_last k s)"
  by (cases "ss_last_window s"; simp add: current_inv_def) (auto simp: forget_last_def)

lemma forget_active: "ss_active_window (forget_last k s) = ss_active_window s"
  by (simp add: forget_last_def)

text \<open>What is removed, and which window is current afterwards.\<close>

lemma remove_allowing_empty_inv:
  assumes inv: "session_inv s" and w: "window_at s k = Some w" and several: "length (ss_windows s) > 1"
  obtains s' where "remove_window_allowing_empty k s = Some (s', Inr w)" "session_inv s'"
    "window_at s' = (window_at s)(k := None)" "window_ids w + session_ids s' = session_ids s"
    "ss_active_window s' = (if ss_active_window s = k then the (next_active_window_after_removal s k) else ss_active_window s)"
    "ss_active_window s = k \<Longrightarrow> next_active_window_after_removal s k = Some (ss_active_window s')"
proof -
  let ?d = "drop_window k s"
  have d: "windows_inv ?d" "window_at ?d = (window_at s)(k := None)" "window_ids w + session_ids ?d = session_ids s"
    using windows_inv_drop [OF session_invD(1) [OF inv]] session_ids_drop [OF session_invD(3) [OF inv] w]
    by (simp_all add: fun_eq_iff window_at_drop)
  have last: "pred_option (\<lambda>l. window_at s l \<noteq> None) (ss_last_window s)" using inv by (simp add: session_inv_def current_inv_def)
  have dl: "ss_last_window ?d = ss_last_window s" "ss_active_window ?d = ss_active_window s" by (simp_all add: drop_window_def)
  show ?thesis
  proof (cases "ss_active_window s = k")
    case True
    obtain j where "window_at s j \<noteq> None" "j \<noteq> k" using several_windows [OF several session_invD(3) [OF inv]] by blast
    then obtain a where a: "next_active_window_after_removal s k = Some a" "window_at s a \<noteq> None" "a \<noteq> k"
      using next_active_Some by blast
    then have "window_at ?d a \<noteq> None" using d(2) by simp
    then obtain s1 where s1: "select_window a ?d = (s1, Inr ())" "window_at s1 = window_at ?d" "session_ids s1 = session_ids ?d"
      "ss_active_window s1 = a" "ss_last_window s1 = (if ss_active_window ?d = a then ss_last_window ?d else Some (ss_active_window ?d))"
      "windows_inv ?d \<Longrightarrow> windows_inv s1" using select_window_eq by metis
    have "current_inv (forget_last k s1)" using s1 a d(2) True dl by (intro forget_last_current) simp_all
    then show ?thesis
      by (intro that [of "forget_last k s1"])
        (use True several w a s1 d in \<open>simp_all add: remove_window_allowing_empty_def session_inv_def forget_active\<close>)
  next
    case False
    have "current_inv (forget_last k ?d)"
      using False d(2) inv last dl by (intro forget_last_current) (auto simp: pred_option_def session_inv_def current_inv_def)
    then show ?thesis
      by (intro that [of "forget_last k ?d"])
        (use False several w d in \<open>simp_all add: remove_window_allowing_empty_def session_inv_def forget_active dl\<close>)
  qed
qed

lemma remove_window_inv:
  assumes inv: "session_inv s"
  shows "returns (remove_window k s) (\<lambda>(s', r). session_inv s'
    \<and> (case r of Inl _ \<Rightarrow> s' = s | Inr w \<Rightarrow> window_at s k = Some w \<and> window_ids w + session_ids s' = session_ids s))"
proof (cases "window_at s k = None \<or> length (ss_windows s) = 1")
  case True
  then show ?thesis using inv by (auto simp: remove_window_def)
next
  case False
  then obtain w where w: "window_at s k = Some w" by auto
  then have "ss_windows s \<noteq> []" by (auto simp: window_at_def)
  then have "length (ss_windows s) > 1" using False by (cases "ss_windows s") auto
  then obtain s' where "remove_window_allowing_empty k s = Some (s', Inr w)" "session_inv s'"
    "window_ids w + session_ids s' = session_ids s"
    using remove_allowing_empty_inv [OF inv w] by metis
  then show ?thesis using False w by (simp add: remove_window_def)
qed

section \<open>Moving and swapping\<close>

lemma next_after_detach_Some:
  assumes "window_at s j \<noteq> None" "j \<noteq> k"
  obtains a where "next_active_window_after_detach s k l = Some a" "window_at s a \<noteq> None" "a \<noteq> k"
proof -
  obtain c where "cyclic_previous_window_index (ss_windows s) k = Some c" "window_at s c \<noteq> None" "c \<noteq> k"
    using cyclic_previous_Some [of j "ss_windows s" k] assms keys_window_at by metis
  then have "\<exists>a. next_active_window_after_detach s k l = Some a \<and> window_at s a \<noteq> None \<and> a \<noteq> k"
    by (simp add: next_active_window_after_detach_def split: option.split)
  then show ?thesis using that by blast
qed

text \<open>Where the current window is after a move.\<close>

definition current_after_move :: "u32 \<Rightarrow> u32 \<Rightarrow> bool \<Rightarrow> session \<Rightarrow> session \<Rightarrow> bool" where
  "current_after_move i j sel s s' \<longleftrightarrow>
     (if sel then ss_active_window s' = j
      else if ss_active_window s = i then ss_active_window s' \<noteq> i
      else ss_active_window s' = ss_active_window s)"

lemma move_tracking:
  assumes s3: "windows_inv s3" "window_at s3 j \<noteq> None" "i \<noteq> j" "window_at s3 i = None"
    and a: "ss_active_window s \<noteq> i \<Longrightarrow> window_at s3 (ss_active_window s) \<noteq> None"
  obtains s4 where "apply_move_tracking i j (ss_active_window s) (ss_last_window s) sel s3 = Some s4" "session_inv s4"
    "window_at s4 = window_at s3" "session_ids s4 = session_ids s3" "current_after_move i j sel s s4"
    "ss_last_window s4 \<noteq> Some (ss_active_window s4)" "ss_next_window_id s4 = ss_next_window_id s3"
    "ss_windows s4 = ss_windows s3"
proof -
  let ?a = "ss_active_window s" and ?l = "ss_last_window s"
  obtain n where n: "next_active_window_after_detach s3 i ?l = Some n" "window_at s3 n \<noteq> None" "n \<noteq> i"
    using next_after_detach_Some [OF s3(2), of i] s3(3) by metis
  define act where "act = (if sel then j else if ?a = i then n else ?a)"
  define lst where "lst = (if ?a = i
          then if sel then preserved_last_after_selecting_destination s3 i j ?l else None
          else if sel
          then if ?a = j then preserved_last_after_selecting_destination s3 i j ?l else Some ?a
          else if ?l = Some i then None
          else keep_if (\<lambda>k. window_at s3 k \<noteq> None) ?l)"
  have "window_at s3 act \<noteq> None" using s3(2) n(2) a by (simp add: act_def)
  moreover have "pred_option (\<lambda>l. window_at s3 l \<noteq> None) lst"
    using a by (auto simp: lst_def keep_if_def preserved_last_after_selecting_destination_def split: option.splits)
  ultimately have "current_inv (s3\<lparr>ss_active_window := act, ss_last_window := (if lst = Some act then None else lst)\<rparr>)"
    by (simp add: current_inv_def)
  then show ?thesis
    by (intro that [of "s3\<lparr>ss_active_window := act, ss_last_window := (if lst = Some act then None else lst)\<rparr>"])
      (use n s3 in \<open>simp_all add: session_inv_def current_after_move_def act_def apply_move_tracking_def lst_def Let_def\<close>)
qed

lemma move_window_inv:
  assumes inv: "session_inv s" and w: "window_at s i = Some w" and ij: "i \<noteq> j" "j \<le> u32_max"
    and free: "window_at s j = None \<or> kill"
  obtains s' where "move_window i j kill sel s = Some (s', Inr (window_at s j))" "session_inv s'"
    "window_at s' = (window_at s)(i := None, j \<mapsto> w)"
    "session_ids s = session_ids s' + (case window_at s j of None \<Rightarrow> {#} | Some v \<Rightarrow> window_ids v)"
    "current_after_move i j sel s s'" "ss_last_window s' \<noteq> Some (ss_active_window s')"
proof -
  define s1 where "s1 = drop_window i s"
  define s2 where "s2 = (if kill then drop_window j s1 else s1)"
  define s3 where "s3 = put_flags j (winlink_alert_flags s i) (put_window j w s2)"
  have s1: "windows_inv s1" "window_ids w + session_ids s1 = session_ids s" "window_at s1 = (window_at s)(i := None)"
    using windows_inv_drop session_invD(1,3) [OF inv] session_ids_drop w by (simp_all add: s1_def fun_eq_iff window_at_drop)
  have s2e: "s2 = drop_window j s1" using free drop_absent [OF s1(1), of j] s1(3) by (auto simp: s2_def)
  then have s2: "windows_inv s2" "window_at s2 = (window_at s)(i := None, j := None)"
    using windows_inv_drop [OF s1(1)] s1(3) by (simp_all add: fun_eq_iff window_at_drop)
  have ids2: "session_ids s1 = session_ids s2 + (case window_at s j of None \<Rightarrow> {#} | Some v \<Rightarrow> window_ids v)"
    using s1 s2e drop_absent [OF s1(1), of j] session_ids_drop [of s1 j] ij(1)
    by (auto simp: windows_inv_def add.commute split: option.splits)
  have sorted2: "bm_sorted (ss_windows s2)" using s2(1) by (simp add: windows_inv_def)
  have ok: "window_ok w" using session_invD(6) [OF inv w] .
  have s3: "windows_inv s3" "window_at s3 = (window_at s)(i := None, j \<mapsto> w)" "session_ids s3 = window_ids w + session_ids s2"
    using windows_inv_add [OF s2(1) ij(2) ok] session_ids_new [OF sorted2, of j w] s2(2) sorted2
    by (simp_all add: s3_def fun_eq_iff window_at_put)
  obtain s4 where s4: "apply_move_tracking i j (ss_active_window s) (ss_last_window s) sel s3 = Some s4" "session_inv s4"
    "window_at s4 = window_at s3" "session_ids s4 = session_ids s3" "current_after_move i j sel s s4"
    "ss_last_window s4 \<noteq> Some (ss_active_window s4)"
    by (rule move_tracking [OF s3(1) _ ij(1), of s sel]) (use s3(2) ij(1) session_invD(5) [OF inv] in auto)
  have "move_window i j kill sel s = Some (s4, Inr (window_at s j))"
    using w ij free s4(1) by (auto simp: move_window_def Let_def s1_def s2_def s3_def)
  then show ?thesis using that [of s4] s4 s3 s1(2) ids2 by (simp add: ac_simps)
qed

lemma move_window_keeps:
  assumes "session_inv s" "j \<le> u32_max"
  shows "returns (move_window i j kill sel s) (\<lambda>(s', r). session_inv s' \<and> (\<not> kill \<longrightarrow> session_ids s' = session_ids s))"
proof (cases "window_at s i = None \<or> i = j \<or> window_at s j \<noteq> None \<and> \<not> kill")
  case True
  then show ?thesis using assms by (auto simp: move_window_def split: option.splits)
next
  case False
  then obtain w where w: "window_at s i = Some w" "i \<noteq> j" "window_at s j = None \<or> kill" by auto
  obtain s' where "move_window i j kill sel s = Some (s', Inr (window_at s j))" "session_inv s'"
    "session_ids s = session_ids s' + (case window_at s j of None \<Rightarrow> {#} | Some v \<Rightarrow> window_ids v)"
    using move_window_inv [OF assms(1) w(1,2) assms(2) w(3)] by metis
  then show ?thesis using w(3) by auto
qed

lemma swap_windows_inv:
  assumes inv: "session_inv s" and w: "window_at s i = Some v" "window_at s j = Some w" "i \<noteq> j"
  obtains s' where "swap_windows i j s = (s', Inr ())" "keeps_session s s'" "window_at s' = (window_at s)(i \<mapsto> w, j \<mapsto> v)"
    "ss_active_window s' = ss_active_window s" "ss_last_window s' = ss_last_window s"
proof -
  define s1 where "s1 = drop_window j (drop_window i s)"
  define s2 where "s2 = put_window j v (put_window i w s1)"
  define s3 where "s3 = put_flags j (winlink_alert_flags s i) (put_flags i (winlink_alert_flags s j) s2)"
  have d: "windows_inv (drop_window i s)" "window_at (drop_window i s) = (window_at s)(i := None)"
    using windows_inv_drop session_invD(1) [OF inv] by (simp_all add: fun_eq_iff window_at_drop)
  have s1: "windows_inv s1" "window_at s1 = (window_at s)(i := None, j := None)"
    using windows_inv_drop [OF d(1)] d(2) by (simp_all add: s1_def fun_eq_iff window_at_drop)
  have ids1: "window_ids v + (window_ids w + session_ids s1) = session_ids s"
    using session_ids_drop [OF session_invD(3) [OF inv] w(1)] session_ids_drop [of "drop_window i s" j w] d w
    by (simp add: s1_def windows_inv_def)
  have sorted: "bm_sorted (ss_windows s1)" "bm_sorted (ss_windows (put_window i w s1))"
    using s1(1) by (simp_all add: windows_inv_def put_window_def bm_sorted_insert)
  have at2: "window_at s2 = (window_at s)(i \<mapsto> w, j \<mapsto> v)"
    using s1(2) sorted by (simp add: s2_def fun_eq_iff window_at_put)
  have "session_ids s2 = window_ids v + (window_ids w + session_ids s1)"
    using session_ids_new [OF sorted(2), of j v] session_ids_new [OF sorted(1), of i w] s1(2) sorted w(3)
    by (simp add: s2_def window_at_put)
  then have ids3: "session_ids s3 = session_ids s" using ids1 by (simp add: s3_def)
  have e3: "s3 = put_flags j (winlink_alert_flags s i) (put_window j v (put_flags i (winlink_alert_flags s j) (put_window i w s1)))"
    by (simp add: s3_def s2_def put_flags_def put_window_def)
  have ok: "window_ok v" "i \<le> u32_max" "window_ok w" "j \<le> u32_max"
    using session_invD(6,7) [OF inv w(1)] session_invD(6,7) [OF inv w(2)] by simp_all
  have "windows_inv s3" unfolding e3
    by (intro windows_inv_add s1 ok)
  moreover have cur: "ss_active_window s3 = ss_active_window s" "ss_last_window s3 = ss_last_window s"
    by (simp_all add: s3_def s2_def s1_def put_flags_def put_window_def drop_window_def)
  moreover have at3: "window_at s3 = (window_at s)(i \<mapsto> w, j \<mapsto> v)" using at2 by (simp add: s3_def)
  ultimately have "session_inv s3" using inv w by (auto simp: session_inv_def current_inv_def pred_option_def)
  moreover have "swap_windows i j s = (s3, Inr ())" using w by (simp add: swap_windows_def Let_def s1_def s2_def s3_def)
  ultimately show ?thesis using that cur at3 ids3 by blast
qed

lemma swap_windows_keeps: "session_inv s \<Longrightarrow> keeps_session s (fst (swap_windows i j s))"
proof -
  assume inv: "session_inv s"
  show ?thesis
  proof (cases "window_at s i = None \<or> window_at s j = None \<or> i = j")
    case True
    then show ?thesis using inv by (auto simp: swap_windows_def split: option.splits)
  next
    case False
    then obtain v w where "window_at s i = Some v" "window_at s j = Some w" "i \<noteq> j" by auto
    from swap_windows_inv [OF inv this] show ?thesis by (metis fst_conv)
  qed
qed

section \<open>Making room and renumbering\<close>

text \<open>A block of windows moves up by one, from the highest down.\<close>

definition moved_up :: "u32 \<Rightarrow> u32 \<Rightarrow> (u32 \<Rightarrow> window option) \<Rightarrow> u32 \<Rightarrow> window option" where
  "moved_up a g f k = (if k = a \<and> a < g then None else if a < k \<and> k \<le> g then f (k - 1) else f k)"

lemma make_room_loop_inv:
  assumes "session_inv s" "a \<le> g" "g \<le> u32_max" "window_at s g = None" "\<And>k. a \<le> k \<Longrightarrow> k < g \<Longrightarrow> window_at s k \<noteq> None"
  shows "\<exists>s' m'. make_room_loop (rev [a..<g]) m s = Some (s', Inr m') \<and> keeps_session s s'
    \<and> window_at s' = moved_up a g (window_at s)"
  using assms
proof (induction "g - a" arbitrary: g s m)
  case 0
  then show ?case by (auto simp: moved_up_def fun_eq_iff)
next
  case (Suc n)
  then obtain g' where g': "g = Suc g'" "a \<le> g'" by (cases g) auto
  obtain w where w: "window_at s g' = Some w" using Suc.prems(5) [of g'] g' by auto
  obtain s1 where s1: "move_window g' g False False s = Some (s1, Inr None)" "session_inv s1"
    "window_at s1 = (window_at s)(g' := None, g \<mapsto> w)" "session_ids s1 = session_ids s"
    by (rule move_window_inv [OF Suc.prems(1) w, of g False False]) (use Suc.prems(3,4) g'(1) in simp_all)
  have "\<exists>s' m'. make_room_loop (rev [a..<g']) (bm_insert g' g m) s1 = Some (s', Inr m') \<and> keeps_session s1 s'
      \<and> window_at s' = moved_up a g' (window_at s1)"
    by (rule Suc.hyps(1)) (use Suc.hyps(2) Suc.prems(3,5) g' s1 in auto)
  then obtain s' m' where "make_room_loop (rev [a..<g']) (bm_insert g' g m) s1 = Some (s', Inr m')" "keeps_session s1 s'"
    "window_at s' = moved_up a g' (window_at s1)" by blast
  moreover have "moved_up a g' (window_at s1) = moved_up a g (window_at s)"
    using s1(3) g' w by (auto simp: moved_up_def fun_eq_iff)
  ultimately show ?case using s1 g' Suc.prems(3) by (simp add: ss_bind_def)
qed

lemma make_room_inv:
  assumes "session_inv s" "k \<le> u32_max"
  shows "returns (make_room_for_window k s) (\<lambda>(s', r). keeps_session s s' \<and> (case r of Inl _ \<Rightarrow> s' = s | Inr _ \<Rightarrow> window_at s' k = None))"
proof (cases "lowest_available_window_index_at_or_above s k")
  case (Inl e)
  then show ?thesis using assms by (simp add: make_room_for_window_def)
next
  case (Inr g)
  note g = lowest_available_window [OF assms(1) Inr assms(2)]
  show ?thesis
  proof (cases "g = k")
    case True
    then show ?thesis using assms Inr g(3) by (simp add: make_room_for_window_def)
  next
    case False
    then show ?thesis using make_room_loop_inv [OF assms(1) g(1,2,3,4), of "[]"] Inr g(1)
      by (auto simp: make_room_for_window_def moved_up_def)
  qed
qed

lemma reindex_loop_Some:
  "ws \<noteq> [] \<Longrightarrow> n + (length ws - 1) \<le> u32_max \<Longrightarrow>
     reindex_loop n ws = Some (zip [n..<n + length ws] (map snd ws), zip (map fst ws) [n..<n + length ws])"
proof (induction n ws rule: reindex_loop.induct)
  case (2 n k w rest)
  show ?case
  proof (cases "rest = []")
    case False
    then have "reindex_loop (n + 1) rest
        = Some (zip [n + 1..<n + 1 + length rest] (map snd rest), zip (map fst rest) [n + 1..<n + 1 + length rest])"
      using 2 by (cases rest) simp_all
    moreover have "n < u32_max" using 2(3) False by (cases rest) simp_all
    ultimately show ?thesis using False by (simp add: upt_conv_Cons del: upt_Suc)
  qed simp
qed simp

lemma fold_bm_insert:
  "bm_sorted m \<Longrightarrow> bm_sorted (fold (\<lambda>(k, v) m. bm_insert k v m) xs m)
     \<and> (map_of (fold (\<lambda>(k, v) m. bm_insert k v m) xs m) k = None \<longleftrightarrow> k \<notin> fst ` set xs \<and> map_of m k = None)"
proof (induction xs arbitrary: m)
  case (Cons x xs)
  obtain a v where x: "x = (a, v)" by (cases x)
  from Cons.IH [OF bm_sorted_insert [OF Cons.prems], of a v] show ?case
    using Cons.prems by (auto simp: x map_of_bm_insert)
qed simp

lemma bm_of_list_map: "bm_sorted (bm_of_list xs)" "map_of (bm_of_list xs) k = None \<longleftrightarrow> k \<notin> fst ` set xs"
  using fold_bm_insert [of "[]" xs k] by (simp_all add: bm_of_list_def)

lemma map_of_sorted_nth: "bm_sorted m \<Longrightarrow> map_of m k = Some w \<longleftrightarrow> (\<exists>i < length m. m ! i = (k, w))"
  using bm_member [of m k w] by (simp add: in_set_conv_nth)

lemma map_of_zip_upt:
  "map_of (zip [n..<n + length vs] vs) k = (if n \<le> k \<and> k < n + length vs then Some (vs ! (k - n)) else None)"
proof (induction vs arbitrary: n)
  case (Cons v vs)
  show ?case using Cons [of "Suc n"] by (auto simp: upt_conv_Cons nth_Cons' simp del: upt_Suc)
qed simp

lemma map_of_zip_keys:
  "distinct ks \<Longrightarrow> map_of (zip ks [n..<n + length ks]) k = Some k' \<longleftrightarrow> (\<exists>i < length ks. ks ! i = k \<and> k' = n + i)"
  by (auto simp: map_of_eq_Some_iff in_set_zip)

lemma bounded_keys: "session_inv s \<Longrightarrow> length (ss_windows s) - 1 \<le> u32_max"
proof -
  assume inv: "session_inv s"
  have "set (map fst (ss_windows s)) \<subseteq> {..u32_max}"
    using session_invD(7) [OF inv] keys_window_at [of _ s] by fastforce
  then have "card (set (map fst (ss_windows s))) \<le> card {..u32_max}" by (intro card_mono) simp_all
  then show ?thesis using distinct_card [OF bm_sorted_distinct [OF session_invD(3) [OF inv]]] by simp
qed

text \<open>The windows under the new indexes, and the indexes of the alert flags.\<close>

lemma reindexed_inv:
  assumes inv: "session_inv s" and fits: "n + (length (ss_windows s) - 1) \<le> u32_max"
    and m: "m = zip (map fst (ss_windows s)) [n..<n + length (ss_windows s)]"
    and s': "ss_windows s' = zip [n..<n + length (ss_windows s)] (map snd (ss_windows s))"
      "ss_winlink_alert_flags s' = bm_of_list (List.map_filter (\<lambda>(k, f). map_option (\<lambda>n. (n, f)) (map_of m k)) (ss_winlink_alert_flags s))"
      "ss_next_pane_id s' = ss_next_pane_id s"
  shows "windows_inv s'" "map_of m k = Some k' \<Longrightarrow> window_at s' k' = window_at s k" "map_of m k = None \<longleftrightarrow> window_at s k = None"
proof -
  let ?ws = "ss_windows s"
  note sorted = session_invD(3) [OF inv]
  have new: "window_at s' k' = (if n \<le> k' \<and> k' < n + length ?ws then Some (snd (?ws ! (k' - n))) else None)" for k'
    using map_of_zip_upt [of n "map snd ?ws" k'] nth_map [of "k' - n" ?ws snd] by (auto simp: window_at_def s'(1))
  have key: "map_of m k = Some k' \<longleftrightarrow> (\<exists>i < length ?ws. fst (?ws ! i) = k \<and> k' = n + i)" for k k'
    using map_of_zip_keys [OF bm_sorted_distinct [OF sorted], of n k k'] unfolding m length_map by (metis nth_map)
  have old: "window_at s k = Some w \<longleftrightarrow> (\<exists>i < length ?ws. ?ws ! i = (k, w))" for k w
    using map_of_sorted_nth [OF sorted] by (simp add: window_at_def)
  show at: "window_at s' k' = window_at s k" if "map_of m k = Some k'" for k k'
    using that new [of k'] old [of k] by (auto simp: key) (metis prod.collapse)
  show none: "map_of m k = None \<longleftrightarrow> window_at s k = None" for k
    using key [of k] old [of k] by (metis not_Some_eq prod.collapse fst_conv)
  have range: "k' \<in> ran (map_of m) \<longleftrightarrow> n \<le> k' \<and> k' < n + length ?ws" for k'
    by (auto simp: ran_def key) (metis add_less_cancel_left le_add_diff_inverse)
  have flags: "map_of (ss_winlink_alert_flags s') k' = None \<longleftrightarrow> k' \<notin> ran (map_of m)" for k'
  proof -
    have "map_of m k \<noteq> None \<Longrightarrow> \<exists>f. (k, f) \<in> set (ss_winlink_alert_flags s)" for k
      using none [of k] flags_key [OF session_invD(1) [OF inv], of k] map_of_SomeD by fastforce
    then show ?thesis unfolding s'(2) bm_of_list_map
      by (force simp: List.map_filter_def ran_def image_iff)
  qed
  have "window_ok w \<and> k' \<le> u32_max" if "window_at s' k' = Some w" for k' w
  proof -
    from that have r: "n \<le> k'" "k' < n + length ?ws" using new [of k'] by (auto split: if_splits)
    then obtain k where "map_of m k = Some k'" using range [of k'] by (auto simp: ran_def)
    then have "window_at s k = Some w" using at [of k k'] that by simp
    then show ?thesis using session_invD(6) [OF inv] r fits by auto
  qed
  moreover have "bm_sorted (ss_windows s')" by (simp add: s'(1) bm_sorted_def)
  ultimately show "windows_inv s'"
    using bm_of_list_map(1) flags range new session_invD(8) [OF inv] unfolding windows_inv_def
    by (simp add: s'(2,3)) 
qed

text \<open>The windows keep their order, and the current and the last window stay the same windows.\<close>

lemma ids_of_snd: "ids_of m = sum_list (map window_ids (map snd m))"
  by (induction m) (auto simp: ids_of_def)

lemma pred_option_via:
  "map_option f x = map_option g y \<Longrightarrow> pred_option (\<lambda>l. g l \<noteq> None) y \<Longrightarrow> pred_option (\<lambda>l. f l \<noteq> None) x"
  by (cases x; cases y) simp_all

lemma retarget_inv:
  "windows_inv s \<Longrightarrow> window_at s a \<noteq> None \<Longrightarrow> pred_option (\<lambda>l. window_at s l \<noteq> None) l \<Longrightarrow>
     session_inv (s\<lparr>ss_active_window := a, ss_last_window := l\<rparr>)"
  by (simp add: session_inv_def current_inv_def)

lemma reindex_inv:
  assumes inv: "session_inv s" and fits: "n + (length (ss_windows s) - 1) \<le> u32_max"
  obtains s' where "reindex_windows_from n s = Some (s', Inr (zip (map fst (ss_windows s)) [n..<n + length (ss_windows s)]))"
    "keeps_session s s'" "ss_windows s' = zip [n..<n + length (ss_windows s)] (map snd (ss_windows s))"
    "window_at s' (ss_active_window s') = window_at s (ss_active_window s)"
    "map_option (window_at s') (ss_last_window s') = map_option (window_at s) (ss_last_window s)"
proof -
  let ?ws = "ss_windows s"
  let ?new = "zip [n..<n + length ?ws] (map snd ?ws)" and ?m = "zip (map fst ?ws) [n..<n + length ?ws]"
  define s1 where "s1 = s\<lparr>ss_windows := ?new, ss_winlink_alert_flags := bm_of_list (List.map_filter
      (\<lambda>(k, f). map_option (\<lambda>n. (n, f)) (map_of ?m k)) (ss_winlink_alert_flags s))\<rparr>"
  have ne: "?ws \<noteq> []" using session_invD(5) [OF inv] by (auto simp: window_at_def)
  have r: "windows_inv s1" "map_of ?m k = Some k' \<Longrightarrow> window_at s1 k' = window_at s k" "map_of ?m k = None \<longleftrightarrow> window_at s k = None" for k k'
    by (rule reindexed_inv [OF inv fits refl, of s1]; simp add: s1_def)+
  obtain a where a: "map_of ?m (ss_active_window s) = Some a" using r(3) session_invD(5) [OF inv] by (metis not_None_eq)
  let ?s2 = "s1\<lparr>ss_active_window := a, ss_last_window := Option.bind (ss_last_window s) (map_of ?m)\<rparr>"
  have last: "map_option (window_at s1) (Option.bind (ss_last_window s) (map_of ?m)) = map_option (window_at s) (ss_last_window s)"
  proof (cases "ss_last_window s")
    case (Some l)
    then have "window_at s l \<noteq> None" using inv by (simp add: session_inv_def current_inv_def)
    then obtain l' where l': "map_of ?m l = Some l'" using r(3) [of l] by (metis not_None_eq)
    then show ?thesis using r(2) [OF l'] by (simp add: Some)
  qed simp
  have "pred_option (\<lambda>l. window_at s1 l \<noteq> None) (Option.bind (ss_last_window s) (map_of ?m))"
    by (rule pred_option_via [OF last]) (use inv in \<open>simp add: session_inv_def current_inv_def\<close>)
  moreover have "window_at s1 a \<noteq> None" unfolding r(2) [OF a] by (rule session_invD(5) [OF inv])
  ultimately have "session_inv ?s2" by (intro retarget_inv r(1))
  moreover have "session_ids ?s2 = session_ids s"
    by (simp add: session_ids_def ids_of_snd s1_def del: map_map)
  moreover have "reindex_windows_from n s = Some (?s2, Inr ?m)"
    using reindex_loop_Some [OF ne fits] fits bounded_keys [OF inv] a by (simp add: reindex_windows_from_def u32_wrap_id s1_def)
  ultimately show ?thesis using that [of ?s2] r(2) [OF a] last by (simp add: s1_def)
qed

lemma reindex_keeps: "session_inv s \<Longrightarrow> returns (reindex_windows_from n s) (\<lambda>(s', r). keeps_session s s')"
proof -
  assume inv: "session_inv s"
  show ?thesis
  proof (cases "n + (length (ss_windows s) - 1) \<le> u32_max")
    case True
    from reindex_inv [OF inv this] obtain s' m where "reindex_windows_from n s = Some (s', m)" "keeps_session s s'" by metis
    then show ?thesis by simp
  next
    case False
    moreover have "ss_windows s \<noteq> []" using session_invD(5) [OF inv] by (auto simp: window_at_def)
    ultimately show ?thesis using inv bounded_keys [OF inv] by (simp add: reindex_windows_from_def u32_wrap_id)
  qed
qed

end
