(* ===== verification/Session_Panes_Inv.thy ===== *)
theory Session_Panes_Inv
  imports Session_Moves_Inv
begin

text \<open>
  The operations of a session on panes return and keep its invariant; swapping, joining and breaking
  out keep the panes of the session.
\<close>

section \<open>Sorted maps are equal when their lookups are\<close>

lemma bm_entries: "bm_sorted m \<Longrightarrow> m = map (\<lambda>k. (k, the (map_of m k))) (map fst m)"
proof -
  assume s: "bm_sorted m"
  have "\<And>x. x \<in> set m \<Longrightarrow> (fst x, the (map_of m (fst x))) = x"
    using bm_member [OF s] by (metis option.sel prod.collapse)
  then show ?thesis by (simp add: map_idI)
qed

lemma bm_ext:
  assumes "bm_sorted m" "bm_sorted m'" "map_of m = map_of m'"
  shows "m = m'"
proof -
  have "set m = set m'" using bm_member [OF assms(1)] bm_member [OF assms(2)] assms(3) by auto
  then have "map fst m = map fst m'"
    using assms(1,2) strict_sorted_equal [of "map fst m" "map fst m'"] by (simp add: bm_sorted_def)
  then show ?thesis using bm_entries [OF assms(1)] bm_entries [OF assms(2)] assms(3) by metis
qed

lemma put_two_removed:
  assumes "bm_sorted (ss_windows s)" "i \<noteq> j"
  shows "put_window j w (put_window i v (s\<lparr>ss_windows := bm_remove j (bm_remove i (ss_windows s))\<rparr>)) = put_window j w (put_window i v s)"
proof -
  have "bm_insert j w (bm_insert i v (bm_remove j (bm_remove i (ss_windows s)))) = bm_insert j w (bm_insert i v (ss_windows s))"
    using assms by (intro bm_ext) (auto simp: bm_sorted_insert bm_sorted_remove map_of_bm_insert map_of_bm_remove)
  then show ?thesis by (simp add: put_window_def)
qed

lemma put_one_removed:
  assumes "bm_sorted (ss_windows s)" "i \<noteq> j"
  shows "put_window j w (s\<lparr>ss_windows := bm_remove j (bm_remove i (ss_windows s))\<rparr>)
    = (put_window j w s)\<lparr>ss_windows := bm_remove i (bm_insert j w (ss_windows s))\<rparr>"
proof -
  have "bm_insert j w (bm_remove j (bm_remove i (ss_windows s))) = bm_remove i (bm_insert j w (ss_windows s))"
    using assms by (intro bm_ext) (auto simp: bm_sorted_insert bm_sorted_remove map_of_bm_insert map_of_bm_remove)
  then show ?thesis by (simp add: put_window_def)
qed

section \<open>Operations on one window\<close>

definition has_room :: "session \<Rightarrow> bool" where
  "has_room s \<longleftrightarrow> list_all (\<lambda>(k, w). Suc (length (w_panes w)) < u32_max) (ss_windows s)"

lemma has_roomD: "has_room s \<Longrightarrow> window_at s k = Some w \<Longrightarrow> Suc (length (w_panes w)) < u32_max"
  using map_of_SomeD by (fastforce simp: has_room_def list_all_iff window_at_def)

lemma window_ids_session:
  assumes "session_inv s" "window_at s k = Some w"
  shows "window_ids w \<subseteq># session_ids s"
  using ids_of_remove [OF session_invD(3) [OF assms(1)], of k w] assms(2) by (simp add: session_ids_def window_at_def)

lemma fresh_in_window:
  "session_inv s \<Longrightarrow> window_at s k = Some w \<Longrightarrow> i \<notin># session_ids s \<Longrightarrow> i \<notin># window_ids w"
  using window_ids_session [of s k w] by (meson mset_subset_eqD)

text \<open>The outcome of a split: a new pane, or an error that changes nothing.\<close>

definition session_split_outcome :: "session \<Rightarrow> u32 \<Rightarrow> session \<times> u32 result \<Rightarrow> bool" where
  "session_split_outcome s i = (\<lambda>(s', r). session_inv s'
     \<and> (case r of Inl _ \<Rightarrow> session_ids s' = session_ids s | Inr _ \<Rightarrow> session_ids s' = add_mset i (session_ids s)))"

lemma in_window_split:
  assumes inv: "session_inv s"
    and f: "\<And>w. window_at s k = Some w \<Longrightarrow> window_ok w \<Longrightarrow> returns (f w) (\<lambda>(w', r). window_ok w'
      \<and> window_ids w' = (case r of Inl _ \<Rightarrow> window_ids w | Inr _ \<Rightarrow> add_mset i (window_ids w)))"
  shows "returns (in_window k f s) (session_split_outcome s i)"
proof (cases "window_at s k")
  case None
  then show ?thesis using inv by (simp add: in_window_def session_split_outcome_def)
next
  case (Some w)
  then obtain w' r where w': "f w = Some (w', r)" "window_ok w'"
    "window_ids w' = (case r of Inl _ \<Rightarrow> window_ids w | Inr _ \<Rightarrow> add_mset i (window_ids w))"
    using f [OF Some session_invD(6) [OF inv Some]] by (auto elim!: returnsE)
  then show ?thesis using Some put_window_inv [OF inv, of k w'] session_ids_put [OF session_invD(3) [OF inv] Some, of w']
    by (cases r) (simp_all add: in_window_def session_split_outcome_def)
qed

lemma split_detached_inv:
  assumes inv: "session_inv s" and fresh: "i \<notin># session_ids s" and room: "has_room s"
  shows "returns (split_pane_in_window_detached now k p i d ahead detached s) (session_split_outcome s i)"
  unfolding split_pane_in_window_detached_def
proof (rule in_window_split [OF inv])
  fix w assume w: "window_at s k = Some w" "window_ok w"
  have r: "Suc (length (w_panes w)) < u32_max" "i \<notin># window_ids w" using has_roomD [OF room w(1)] fresh_in_window [OF inv w(1) fresh] .
  show "returns (case pane_position w p of None \<Rightarrow> Some (w, Inl (no_pane s k p))
     | Some pos \<Rightarrow> if \<not> can_split_pane w p d then Some (w, Inl (Message ''no space for new pane''))
       else split_at_position_detached now w pos i d ahead detached \<bind> (\<lambda>(w', new_index). Some (w', Inr new_index)))
     (\<lambda>(w', r). window_ok w' \<and> window_ids w' = (case r of Inl _ \<Rightarrow> window_ids w | Inr _ \<Rightarrow> add_mset i (window_ids w)))"
  proof (cases "pane_position w p")
    case (Some pos)
    then have "pos < length (w_panes w)" using position_Some by (auto simp: pane_position_def)
    from split_ok [OF w(2) this r(2,1), of now d ahead detached] show ?thesis using Some w(2) by (auto elim!: returnsE)
  qed (use w in simp)
qed

lemma split_full_inv:
  assumes inv: "session_inv s" and fresh: "i \<notin># session_ids s" and room: "has_room s"
  shows "returns (split_pane_full_size_detached now k p i d ahead detached s) (session_split_outcome s i)"
  unfolding split_pane_full_size_detached_def in_pane_def
proof (rule in_window_split [OF inv])
  fix w assume w: "window_at s k = Some w" "window_ok w"
  have r: "Suc (length (w_panes w)) < u32_max" "i \<notin># window_ids w" using has_roomD [OF room w(1)] fresh_in_window [OF inv w(1) fresh] .
  let ?p = "pane_new_with_id now i (transient_index w) (new_pane_geometry 0 0 0 0)"
  obtain w1 where w1: "insert_pane_full_size w ?p d ahead = Some (w1, Inr ())" "window_inv w1" "window_ids w1 = add_mset i (window_ids w)"
    using insert_joined [OF w(2) r(1), of ?p 0 True d ahead] r(2) transient_numbered [OF w(2)]
    by (auto simp: pane_new_with_id_def elim!: returnsE)
  obtain a where a: "active_pane w = Some a" "p_id a \<in># window_ids w" using active_ids [OF w(2)] member_ids by blast
  obtain w2 where w2: "commit_split_renumber now w1 i (Some (p_id a)) (last_pane_id w) detached = Some w2" "keeps_panes w1 w2"
    using commit_split_ok [OF w1(2), of i "p_id a" now "last_pane_id w" detached] w1(3) a(2) by (auto elim: returnsE)
  obtain m where "pane_index_for_id w2 i = Some m" using index_for_id [of i w2] w2(2) w1(3) by auto
  then show "returns (if pane_at w p = None then Some (w, Inl (no_pane s k p))
      else insert_pane_full_size w ?p d ahead \<bind> (\<lambda>(w1, r). case r of Inl e \<Rightarrow> Some (w1, Inl e)
        | Inr _ \<Rightarrow> commit_split_renumber now w1 i (map_option p_id (active_pane w)) (last_pane_id w) detached \<bind>
            (\<lambda>w2. Some (w2, case pane_index_for_id w2 i of
               None \<Rightarrow> Inl (Server (''pane id '' @ decimal i @ '' disappeared after full-size split''))
             | Some k \<Rightarrow> Inr k))))
     (\<lambda>(w', r). window_ok w' \<and> window_ids w' = (case r of Inl _ \<Rightarrow> window_ids w | Inr _ \<Rightarrow> add_mset i (window_ids w)))"
    using w(2) w1 a(1) w2 by simp
qed

lemma split_before_inv:
  assumes inv: "session_inv s" and room: "has_room s" and free: "allocate_pane_id s \<noteq> None"
  shows "returns (split_pane_in_window_before now k p d ahead s) (\<lambda>(s', r). session_inv s')"
proof -
  obtain s1 i where a: "allocate_pane_id s = Some (s1, i)" using free by auto
  note s1 = allocate_pane_id_inv [OF inv a]
  have "has_room s1" using room a by (auto simp: has_room_def allocate_pane_id_def bind_eq_Some_conv)
  then have "returns (split_pane_in_window_detached now k p i d ahead False s1) (session_split_outcome s1 i)"
    using split_detached_inv [OF s1(1)] s1(2,3) by simp
  then show ?thesis using a by (auto simp: split_pane_in_window_before_def session_split_outcome_def elim!: returns_mono)
qed

lemma split_active_inv:
  assumes inv: "session_inv s" and room: "has_room s" and free: "allocate_pane_id s \<noteq> None"
  shows "returns (split_active_pane_with_direction now d s) (\<lambda>(s', r). session_inv s')"
  using split_before_inv [OF assms] session_invD(5) [OF inv] by (auto simp: split_active_pane_with_direction_def)

text \<open>A kill removes the pane, or the window with its only pane, and reports what is gone.\<close>

lemma kill_pane_inv:
  assumes inv: "session_inv s"
  shows "returns (kill_pane_in_window k p s) (\<lambda>(s', r). session_inv s'
    \<and> (case r of Inl _ \<Rightarrow> s' = s | Inr out \<Rightarrow> mset (removed_pane_ids out) + session_ids s' = session_ids s))"
proof (cases "window_at s k")
  case None
  then show ?thesis using inv by (simp add: kill_pane_in_window_def)
next
  case (Some w)
  note w = session_invD(6) [OF inv Some]
  have at: "pane_at w p = None \<longleftrightarrow> \<not> p < length (w_panes w)" using pane_at_numbered [OF window_okD(2) [OF w], of p] by blast
  consider "\<not> p < length (w_panes w)" | "p < length (w_panes w)" "length (w_panes w) = 1"
    | "p < length (w_panes w)" "length (w_panes w) \<noteq> 1" by blast
  then show ?thesis
  proof cases
    case 1
    then show ?thesis using inv Some at by (simp add: kill_pane_in_window_def)
  next
    case 2
    obtain s' r where s': "remove_window k s = Some (s', r)" "session_inv s'"
      "case r of Inl _ \<Rightarrow> s' = s | Inr v \<Rightarrow> window_at s k = Some v \<and> window_ids v + session_ids s' = session_ids s"
      using remove_window_inv [OF inv, of k] by (auto elim!: returnsE)
    then show ?thesis using 2 Some at by (cases r) (auto simp: kill_pane_in_window_def ss_bind_def window_ids_def)
  next
    case 3
    then have two: "2 \<le> length (w_panes w)" by linarith
    obtain w' q where w': "remove_pane w p = Some (w', Some q)" "window_ok w'" "add_mset (p_id q) (window_ids w') = window_ids w"
      using remove_ok [OF w 3(1) two] by metis
    have "add_mset (p_id q) (session_ids (put_window k w' s)) = session_ids s"
      using session_ids_put [OF session_invD(3) [OF inv] Some, of w'] w'(3)
      by (metis add_left_cancel union_mset_add_mset_left union_mset_add_mset_right)
    then show ?thesis using 3 Some at w' put_window_inv [OF inv, of k w'] by (auto simp: kill_pane_in_window_def)
  qed
qed

lemma kill_others_inv:
  assumes inv: "session_inv s"
  shows "returns (kill_other_panes_in_window now k p s) (\<lambda>(s', r). session_inv s')"
  unfolding kill_other_panes_in_window_def
proof (rule in_pane_inv [OF inv])
  fix w assume w: "window_at s k = Some w" "window_ok w" "p < length (w_panes w)"
  obtain w' ids where "remove_other_panes now w p = Some (w', Some ids)" "window_ok w'"
    using remove_others_ok [OF w(2) pane_at_nth [OF w(2,3)]] by metis
  then show "returns (remove_other_panes now w p \<bind> (\<lambda>(w', removed). removed \<bind>
      (\<lambda>ids. Some (w', Inr \<lparr>removed_pane_ids = ids, window_destroyed = False\<rparr>)))) (\<lambda>(w', r). window_ok w')" by simp
qed

section \<open>Selecting, resizing and choosing layouts\<close>

lemma select_in_window_keeps:
  assumes "session_inv s"
  shows "returns (select_pane_in_window_with_zoom now k p z s) (\<lambda>(s', r). keeps_session s s')"
    "returns (last_pane_in_window_with_zoom now k z s) (\<lambda>(s', r). keeps_session s s')"
  unfolding select_pane_in_window_with_zoom_def last_pane_in_window_with_zoom_def
  by (rule in_pane_keeps [OF assms] in_window_keeps [OF assms]; simp add: select_keeping_zoom_ok split: option.split)+

lemma select_adjacent_body:
  assumes w: "window_ok w" and p: "p < length (w_panes w)"
  shows "returns (do {
      w1 \<leftarrow> (if w_zoomed w then map_option fst (push_zoom w False) else Some w);
      (w2, r) \<leftarrow> select_adjacent_pane now w1 p d;
      selected \<leftarrow> r;
      w3 \<leftarrow> (if w_zoomed w \<and> (z \<or> selected = w_active_pane w) then map_option fst (toggle_zoom now w2 (w_active_pane w2)) else Some w2);
      Some (w3, Inr selected :: u32 result) }) (\<lambda>(w', r). keeps_panes w w')"
proof -
  obtain w1 where w1: "(if w_zoomed w then map_option fst (push_zoom w False) else Some w) = Some w1" "keeps_panes w w1"
    "length (w_panes w1) = length (w_panes w)"
    using push_zoom_ok [OF w, of False] w by (cases "w_zoomed w") (auto elim!: returnsE dest: same_roster_ids(2))
  then have "pane_at w1 p \<noteq> None" using pane_at_numbered [of w1 p] p window_okD(2) by auto
  then obtain w2 where w2: "select_adjacent_pane now w1 p d = Some (w2, Some (w_active_pane w2))" "keeps_panes w1 w2"
    using select_adjacent_ok [of w1 p now d] w1(2) by (auto elim!: returnsE)
  obtain w3 v where w3: "toggle_zoom now w2 (w_active_pane w2) = Some (w3, v)" "keeps_panes w2 w3"
    using toggle_zoom_ok [of w2 now "w_active_pane w2"] w2(2) by (auto elim!: returnsE)
  show ?thesis unfolding w1(1) using w1(2) w2 w3 by simp
qed

lemma select_adjacent_keeps:
  "session_inv s \<Longrightarrow> returns (select_adjacent_pane_in_window_with_zoom now k p d z s) (\<lambda>(s', r). keeps_session s s')"
  unfolding select_adjacent_pane_in_window_with_zoom_def
  by (rule in_pane_keeps) (assumption, rule select_adjacent_body)

lemma first_result:
  "window_ok w \<Longrightarrow> returns r (\<lambda>(w', x). keeps_roster w w') \<Longrightarrow>
     returns (Option.bind r (\<lambda>(w', x). Some (w', f x))) (\<lambda>(w', x). keeps_panes w w')"
  by (drule (1) returns_keep) (auto elim!: returnsE)

lemma resizing_keeps:
  assumes "session_inv s"
  shows "returns (toggle_zoom_in_window now k p s) (\<lambda>(s', r). keeps_session s s')"
    "returns (resize_pane_to_in_window k p d n s) (\<lambda>(s', r). keeps_session s s')"
    "returns (resize_new_split_pane_to_in_window k p d n b s) (\<lambda>(s', r). keeps_session s s')"
    "returns (in_pane k p (\<lambda>w. do { w' \<leftarrow> adjust_pane p adj w; Some (w', Inr () :: unit result) }) s) (\<lambda>(s', r). keeps_session s s')"
proof -
  show "returns (toggle_zoom_in_window now k p s) (\<lambda>(s', r). keeps_session s s')"
    unfolding toggle_zoom_in_window_def
    by (rule in_pane_keeps [OF assms]) (auto intro: returns_mono [OF toggle_zoom_ok] simp: case_prod_beta')
  show "returns (resize_pane_to_in_window k p d n s) (\<lambda>(s', r). keeps_session s s')"
    unfolding resize_pane_to_in_window_def
    by (rule in_pane_keeps [OF assms]) (rule first_result, assumption, rule resize_pane_to_inv, erule window_okD)
  show "returns (resize_new_split_pane_to_in_window k p d n b s) (\<lambda>(s', r). keeps_session s s')"
    unfolding resize_new_split_pane_to_in_window_def
    by (rule in_pane_keeps [OF assms]) (rule first_result, assumption, rule resize_new_split_pane_to_inv, erule window_okD)
  show "returns (in_pane k p (\<lambda>w. do { w' \<leftarrow> adjust_pane p adj w; Some (w', Inr () :: unit result) }) s) (\<lambda>(s', r). keeps_session s s')"
    by (rule in_pane_keeps [OF assms]) (simp add: adjust_pane_ok)
qed

lemma resize_pane_keeps: "session_inv s \<Longrightarrow> returns (resize_pane_in_window now k p adj s) (\<lambda>(s', r). keeps_session s s')"
  using resizing_keeps(1,4) by (simp add: resize_pane_in_window_def)

lemma layout_keeps:
  assumes "session_inv s"
  shows "returns (select_layout_in_window_with_main_pane_size k l mw mh s) (\<lambda>(s', r). keeps_session s s')"
    "returns (select_custom_layout_in_window k str s) (\<lambda>(s', r). keeps_session s s')"
    "returns (reapply_old_layout_in_window k s) (\<lambda>(s', r). keeps_session s s')"
    "returns (save_old_layout_in_window k s) (\<lambda>(s', r). keeps_session s s')"
    "returns (spread_layout_in_window k s) (\<lambda>(s', r). keeps_session s s')"
    "returns (next_layout_in_window_with_main_pane_size k mw mh s) (\<lambda>(s', r). keeps_session s s')"
    "returns (previous_layout_in_window_with_main_pane_size k mw mh s) (\<lambda>(s', r). keeps_session s s')"
proof -
  have roster: "window_ok w \<Longrightarrow> returns r (\<lambda>(w', x). keeps_roster w w' \<and> Q w' x) \<Longrightarrow> returns r (\<lambda>(w', x). keeps_panes w w')" for w r Q
    by (rule returns_keep) (auto elim!: returns_mono)
  show "returns (select_layout_in_window_with_main_pane_size k l mw mh s) (\<lambda>(s', r). keeps_session s s')"
    unfolding select_layout_in_window_with_main_pane_size_def
    by (rule in_window_keeps [OF assms]) (auto intro!: returns_mono [OF set_layout_inv] dest: window_okD roster_keep)
  show "returns (select_custom_layout_in_window k str s) (\<lambda>(s', r). keeps_session s s')"
    unfolding select_custom_layout_in_window_def
    by (rule in_window_keeps [OF assms]) (rule roster, assumption, rule apply_custom_layout_inv, erule window_okD)
  show "returns (reapply_old_layout_in_window k s) (\<lambda>(s', r). keeps_session s s')"
    unfolding reapply_old_layout_in_window_def
    by (rule in_window_keeps [OF assms]) (rule returns_keep, assumption, rule reapply_old_layout_inv, erule window_okD)
  show "returns (save_old_layout_in_window k s) (\<lambda>(s', r). keeps_session s s')"
    unfolding save_old_layout_in_window_def by (rule in_window_keeps [OF assms]) (simp add: plain_ok)
  show "returns (spread_layout_in_window k s) (\<lambda>(s', r). keeps_session s s')"
    unfolding spread_layout_in_window_def
    by (rule in_window_keeps [OF assms]) (rule first_result, assumption, rule spread_layout_inv, erule window_okD)
  show "returns (next_layout_in_window_with_main_pane_size k mw mh s) (\<lambda>(s', r). keeps_session s s')"
    unfolding next_layout_in_window_with_main_pane_size_def
    by (rule in_window_keeps [OF assms]) (rule first_result, assumption, rule next_layout_inv, erule window_okD)
  show "returns (previous_layout_in_window_with_main_pane_size k mw mh s) (\<lambda>(s', r). keeps_session s s')"
    unfolding previous_layout_in_window_with_main_pane_size_def
    by (rule in_window_keeps [OF assms]) (rule first_result, assumption, rule previous_layout_inv, erule window_okD)
qed

section \<open>Sizes of the session\<close>

lemma resize_all_ok:
  "(\<And>k w. (k, w) \<in> set m \<Longrightarrow> window_ok w) \<Longrightarrow>
     returns (resize_all sz m) (\<lambda>m'. list_all2 (\<lambda>(k, w) (k', w'). k' = k \<and> keeps_panes w w') m m')"
proof (induction m)
  case (Cons x m)
  obtain k w where x: "x = (k, w)" by (cases x)
  obtain w' where "set_size w sz = Some w'" "keeps_panes w w'" using set_size_ok [of w sz] Cons.prems x by (auto elim!: returnsE)
  moreover obtain m' where "resize_all sz m = Some m'" "list_all2 (\<lambda>(k, w) (k', w'). k' = k \<and> keeps_panes w w') m m'"
    using Cons by (auto elim!: returnsE)
  ultimately show ?case by (simp add: x)
qed simp

lemma resized_maps:
  assumes "list_all2 (\<lambda>(k, w) (k', w'). k' = k \<and> keeps_panes w w') m m'"
  shows "map fst m' = map fst m" "ids_of m' = ids_of m" "map_of m' k = Some w' \<Longrightarrow> window_ok w'"
  using assms by (induction rule: list_all2_induct) (auto simp: ids_of_def split: if_splits)

lemma resize_terminal_keeps: "session_inv s \<Longrightarrow> returns (resize_terminal sz s) (keeps_session s)"
proof -
  assume inv: "session_inv s"
  have "window_ok w" if "(k, w) \<in> set (ss_windows s)" for k w
    using that session_invD(6) [OF inv, of k w] bm_member [OF session_invD(3) [OF inv]] by (simp add: window_at_def)
  then obtain m where m: "resize_all sz (ss_windows s) = Some m"
    "list_all2 (\<lambda>(k, w) (k', w'). k' = k \<and> keeps_panes w w') (ss_windows s) m"
    using resize_all_ok [of "ss_windows s" sz] by (auto elim!: returnsE)
  let ?s = "s\<lparr>ss_terminal_size := sz, ss_windows := m\<rparr>"
  have none: "window_at ?s k = None \<longleftrightarrow> window_at s k = None" for k
    using resized_maps(1) [OF m(2)] by (simp add: window_at_def map_of_eq_None_iff flip: set_map)
  have "window_ok w \<and> k \<le> u32_max" if "window_at ?s k = Some w" for k w
    using that none [of k] resized_maps(3) [OF m(2), of k w] session_invD(7) [OF inv, of k] by (auto simp: window_at_def)
  then have "windows_inv ?s"
    using session_invD(1) [OF inv] resized_maps(1) [OF m(2)] none
    unfolding windows_inv_def bm_sorted_def by simp
  moreover have "current_inv ?s"
    using session_invD(2) [OF inv] none unfolding current_inv_def pred_option_def by simp
  ultimately show ?thesis using m(1) resized_maps(2) [OF m(2)]
    by (simp add: resize_terminal_def session_inv_def session_ids_def)
qed

lemma resize_active_keeps: "session_inv s \<Longrightarrow> returns (resize_active_window_geometry tsz csz s) (keeps_session s)"
proof -
  assume inv: "session_inv s"
  let ?s = "s\<lparr>ss_terminal_size := tsz\<rparr>"
  have inv': "session_inv ?s" using inv by (simp add: session_inv_def)
  obtain w where w: "window_at s (ss_active_window s) = Some w" using session_invD(5) [OF inv] by auto
  obtain w' where "set_size w csz = Some w'" "keeps_panes w w'"
    using set_size_ok [OF session_invD(6) [OF inv w], of csz] by (auto elim!: returnsE)
  then show ?thesis using put_window_keeps [OF inv', of "ss_active_window s" w w'] w
    by (simp add: resize_active_window_geometry_def)
qed

section \<open>Swapping two panes\<close>

lemma pane_of_target_Inr:
  assumes "session_inv s" "pane_of_target s t = Inr (w, p)"
  shows "window_at s (t_window t) = Some w" "window_ok w" "t_pane t < length (w_panes w)" "p = w_panes w ! t_pane t"
proof -
  show w: "window_at s (t_window t) = Some w" using assms(2) by (auto simp: pane_of_target_def split: option.splits)
  show ok: "window_ok w" by (rule session_invD(6) [OF assms(1) w])
  have p: "pane_at w (t_pane t) = Some p" using assms(2) w by (auto simp: pane_of_target_def split: option.splits)
  then show len: "t_pane t < length (w_panes w)" using pane_at_numbered [OF window_okD(2) [OF ok]] by (metis option.distinct(1))
  show "p = w_panes w ! t_pane t" using pane_at_nth [OF ok len] p by simp
qed

lemma validate_swap:
  assumes w: "window_ok w" and k: "k < length (w_panes w)"
  obtains (taken) e where "validate_swap_destination w p k = Some (Inl e)"
  | (accepted) "validate_swap_destination w p k = Some (Inr ())"
    "\<forall>m < length (w_panes w). m \<noteq> k \<longrightarrow> p_id (w_panes w ! m) \<noteq> p_id p"
proof -
  let ?bad = "list_ex (\<lambda>(i, q). i \<noteq> k \<and> p_id q = p_id p) (zip [0..<length (w_panes w)] (w_panes w))"
  have "\<not> ?bad \<Longrightarrow> \<forall>m < length (w_panes w). m \<noteq> k \<longrightarrow> p_id (w_panes w ! m) \<noteq> p_id p"
    by (force simp: list_ex_iff set_zip)
  then show ?thesis using taken accepted position_numbered [OF window_okD(2) [OF w] k]
    by (cases ?bad) (auto simp: validate_swap_destination_def)
qed

text \<open>Two windows change together.\<close>

lemma put_two_keeps:
  assumes inv: "session_inv s" and w: "window_at s i = Some v" "window_at s j = Some w" "i \<noteq> j"
    and ok: "window_ok v'" "window_ok w'" and ids: "window_ids v' + window_ids w' = window_ids v + window_ids w"
  shows "keeps_session s (put_window j w' (put_window i v' s))"
proof -
  note sorted = session_invD(3) [OF inv]
  have inv1: "session_inv (put_window i v' s)" using put_window_inv [OF inv, of i v'] w ok by simp
  have w1: "window_at (put_window i v' s) j = Some w" using w sorted by (simp add: window_at_put)
  have "window_ids v + session_ids (put_window i v' s) = window_ids v' + session_ids s"
    using session_ids_put [OF sorted w(1)] by simp
  moreover have "window_ids w + session_ids (put_window j w' (put_window i v' s)) = window_ids w' + session_ids (put_window i v' s)"
    using session_ids_put [OF session_invD(3) [OF inv1] w1] by simp
  ultimately have "(window_ids v + window_ids w) + session_ids (put_window j w' (put_window i v' s))
      = (window_ids v' + window_ids w') + session_ids s"
    by (metis add.assoc add.left_commute)
  then show ?thesis using ids put_window_inv [OF inv1, of j w'] w1 ok by simp
qed

lemma swap_within_keeps:
  assumes inv: "session_inv s"
  shows "returns (swap_panes_within_window now k i j opts s) (\<lambda>(s', r). keeps_session s s')"
  unfolding swap_panes_within_window_def
proof (rule in_pane_keeps [OF inv])
  fix w assume w: "window_at s k = Some w" "window_ok w" "i < length (w_panes w)"
  then have "pane_at w i \<noteq> None" using pane_at_numbered window_okD(2) by blast
  then show "returns (if i = j then Some (w, Inr ()) else if pane_at w j = None then Some (w, Inl (no_pane s k j))
      else do { w' \<leftarrow> swap_panes_in now i j opts w; Some (w', Inr ()) }) (\<lambda>(w', r). keeps_panes w w')"
    using swap_panes_in_ok [OF w(2)] w(2) by simp
qed

lemma swap_between_keeps:
  assumes inv: "session_inv s" and ne: "t_window src \<noteq> t_window tgt"
    and t: "pane_of_target s src = Inr (sw, sp)" "pane_of_target s tgt = Inr (tw, tp)"
  shows "returns (session_swap_panes now src tgt opts s) (\<lambda>(s', r). keeps_session s s')"
proof -
  note sw = pane_of_target_Inr [OF inv t(1)] and tw = pane_of_target_Inr [OF inv t(2)]
  consider (taken) r1 r2 e where "validate_swap_destination sw tp (t_pane src) = Some r1"
      "validate_swap_destination tw sp (t_pane tgt) = Some r2" "res_bind r1 (\<lambda>_. r2) = Inl e"
    | (accepted) "validate_swap_destination sw tp (t_pane src) = Some (Inr ())"
      "\<forall>m < length (w_panes sw). m \<noteq> t_pane src \<longrightarrow> p_id (w_panes sw ! m) \<noteq> p_id tp"
      "validate_swap_destination tw sp (t_pane tgt) = Some (Inr ())"
      "\<forall>m < length (w_panes tw). m \<noteq> t_pane tgt \<longrightarrow> p_id (w_panes tw ! m) \<noteq> p_id sp"
    by (rule validate_swap [OF sw(2,3), of tp]; rule validate_swap [OF tw(2,3), of sp]) simp_all
  then show ?thesis
  proof cases
    case taken
    then show ?thesis using ne t inv by (simp add: session_swap_panes_def)
  next
    case accepted
    have fresh: "m < length (w_panes sw) \<Longrightarrow> m \<noteq> t_pane src \<Longrightarrow> p_id (w_panes sw ! m) \<noteq> p_id (w_panes tw ! t_pane tgt)"
      "m < length (w_panes tw) \<Longrightarrow> m \<noteq> t_pane tgt \<Longrightarrow> p_id (w_panes tw ! m) \<noteq> p_id (w_panes sw ! t_pane src)" for m
      using accepted(2,4) sw(4) tw(4) by blast+
    obtain sw' tw' where n: "apply_swap_between_windows now opts (t_pane src) sp sw (t_pane tgt) tp tw = Some ((sw', tw'), Inr ())"
      "window_ok sw'" "window_ok tw'" "window_ids sw' + window_ids tw' = window_ids sw + window_ids tw"
      using swap_between_ok [OF sw(2,3) tw(2,3) fresh, of now opts] sw(4) tw(4) by (auto elim!: returnsE)
    then show ?thesis
      using ne t accepted(1,3) put_two_removed [OF session_invD(3) [OF inv] ne, of tw' sw']
        put_two_keeps [OF inv sw(1) tw(1) ne n(2,3,4)]
      by (simp add: session_swap_panes_def)
  qed
qed

lemma session_swap_keeps:
  assumes inv: "session_inv s"
  shows "returns (session_swap_panes now src tgt opts s) (\<lambda>(s', r). keeps_session s s')"
proof (cases "t_window src = t_window tgt")
  case True
  then show ?thesis using swap_within_keeps [OF inv] by (simp add: session_swap_panes_def)
next
  case False
  then show ?thesis using swap_between_keeps [OF inv False, of _ _ _ _ now opts] inv
    by (cases "pane_of_target s src"; cases "pane_of_target s tgt") (auto simp: session_swap_panes_def)
qed

end
