(* ===== verification/Session_Transfers_Inv.thy ===== *)
theory Session_Transfers_Inv
  imports Session_Panes_Inv
begin

text \<open>
  Joining a pane to another window of the session and breaking a pane out into a window of its own.
\<close>

section \<open>Joining\<close>

lemma put_two_crossed:
  assumes "bm_sorted (ss_windows s)" "i \<noteq> j"
  shows "put_window i v (put_window j w (s\<lparr>ss_windows := bm_remove j (bm_remove i (ss_windows s))\<rparr>)) = put_window i v (put_window j w s)"
proof -
  have "bm_insert i v (bm_insert j w (bm_remove j (bm_remove i (ss_windows s)))) = bm_insert i v (bm_insert j w (ss_windows s))"
    using assms by (intro bm_ext) (auto simp: bm_sorted_insert bm_sorted_remove map_of_bm_insert map_of_bm_remove)
  then show ?thesis by (simp add: put_window_def)
qed

lemma prepare_join_Inr:
  assumes inv: "session_inv s" and p: "prepare_join s tgt opts sp = Inr (tw, pos, req, q)"
  shows "window_at s (t_window tgt) = Some tw" "window_ok tw" "pos < length (w_panes tw)"
    "p_index q = length (w_panes tw)" "p_id q = p_id sp" "p_id sp \<notin># window_ids tw"
proof -
  show w: "window_at s (t_window tgt) = Some tw"
    using p by (auto simp: prepare_join_def res_bind_Inr_iff Let_def split: option.splits)
  show ok: "window_ok tw" by (rule session_invD(6) [OF inv w])
  obtain req' where "pane_position tw (t_pane tgt) = Some pos" "q = sp\<lparr>p_index := transient_index tw\<rparr>"
    "ensure_accepts_pane tw q None = Inr ()"
    using p w by (auto simp: prepare_join_def res_bind_Inr_iff Let_def split: option.splits)
  then show "pos < length (w_panes tw)" "p_index q = length (w_panes tw)" "p_id q = p_id sp" "p_id sp \<notin># window_ids tw"
    using position_Some transient_numbered [OF ok] ensure_accepts_iff [of tw q]
    by (auto simp: pane_position_def fresh_id simp del: set_map)
qed

text \<open>The source window is left without panes and goes.\<close>

lemma drop_emptied_inv:
  assumes inv: "session_inv s" and at: "window_at s i \<noteq> None" "window_at s j \<noteq> None" "i \<noteq> j"
  shows "returns (drop_emptied_window i (s\<lparr>ss_windows := bm_remove i (ss_windows s)\<rparr>))
    (\<lambda>s'. session_inv s' \<and> session_ids s' = session_ids (drop_window i s) \<and> window_at s' j = window_at s j)"
proof -
  let ?d = "drop_window i s"
  have d: "windows_inv ?d" "window_at ?d = (window_at s)(i := None)"
    using windows_inv_drop [OF session_invD(1) [OF inv]] by (simp_all add: fun_eq_iff window_at_drop)
  have f: "ss_active_window ?d = ss_active_window s" "ss_last_window ?d = ss_last_window s" by (simp_all add: drop_window_def)
  have last: "pred_option (\<lambda>l. l = i \<or> window_at ?d l \<noteq> None) (ss_last_window s)"
    using inv d(2) by (auto simp: session_inv_def current_inv_def pred_option_def)
  obtain a where a: "next_active_window_after_removal ?d i = Some a" "window_at ?d a \<noteq> None"
    by (rule next_active_Some [of ?d j i]) (use d(2) at in auto)
  define s2 where "s2 = (if ss_active_window s = i then ?d\<lparr>ss_active_window := a, ss_group_initial_window_id := None\<rparr> else ?d)"
  have "window_at s2 = window_at ?d" "windows_inv s2" "ss_last_window s2 = ss_last_window s" "session_ids s2 = session_ids ?d"
    using d f by (simp_all add: s2_def)
  moreover from this have "current_inv (forget_last i s2)"
    using a(2) last f d(2) session_invD(5) [OF inv] by (intro forget_last_current) (auto simp: s2_def)
  moreover have "drop_emptied_window i (s\<lparr>ss_windows := bm_remove i (ss_windows s)\<rparr>) = Some (forget_last i s2)"
  proof -
    have "s\<lparr>ss_windows := bm_remove i (ss_windows s), ss_winlink_alert_flags := bm_remove i (ss_winlink_alert_flags s)\<rparr> = ?d"
      by (simp add: drop_window_def)
    then show ?thesis using a(1) f by (simp add: drop_emptied_window_def s2_def)
  qed
  ultimately show ?thesis using d(2) at(3) by (simp add: session_inv_def)
qed

text \<open>The windows after the pane has left one and entered the other.\<close>

lemma settle_join:
  assumes inv: "session_inv s" and w: "window_at s i = Some sw" "window_at s j = Some tw" "i \<noteq> j"
    and tw': "window_ok tw'" "window_ids tw' = add_mset m (window_ids tw)"
    and sw': "w_panes sw' = [] \<Longrightarrow> window_ids sw = {#m#}"
      "w_panes sw' \<noteq> [] \<Longrightarrow> window_ok sw' \<and> add_mset m (window_ids sw') = window_ids sw"
  defines "s2 \<equiv> put_window j tw' (s\<lparr>ss_windows := bm_remove j (bm_remove i (ss_windows s))\<rparr>)"
  shows "returns (if w_panes sw' = [] then drop_emptied_window i s2 else Some (put_window i sw' s2))
    (\<lambda>s'. keeps_session s s' \<and> window_at s' j \<noteq> None)"
proof (cases "w_panes sw' = []")
  case True
  note sorted = session_invD(3) [OF inv]
  let ?s0 = "put_window j tw' s"
  have inv0: "session_inv ?s0" using put_window_inv [OF inv, of j tw'] w tw' by simp
  have at0: "window_at ?s0 i = Some sw" "window_at ?s0 j = Some tw'" using w sorted by (simp_all add: window_at_put)
  have "window_ids sw + session_ids (drop_window i ?s0) = session_ids ?s0"
    using session_ids_drop [OF session_invD(3) [OF inv0] at0(1)] .
  moreover have "window_ids tw + session_ids ?s0 = window_ids tw' + session_ids s" using session_ids_put [OF sorted w(2)] .
  ultimately have "session_ids (drop_window i ?s0) = session_ids s" using sw'(1) [OF True] tw'(2) by simp
  moreover have "s2 = ?s0\<lparr>ss_windows := bm_remove i (ss_windows ?s0)\<rparr>"
    using put_one_removed [OF sorted w(3), of tw'] by (simp add: s2_def put_window_def)
  ultimately show ?thesis
    using drop_emptied_inv [OF inv0, of i j] at0 w(3) True by (auto elim!: returns_mono)
next
  case False
  have "keeps_session s (put_window i sw' (put_window j tw' s))"
  proof (rule put_two_keeps [OF inv w(2,1) w(3) [symmetric] tw'(1)])
    show "window_ok sw'" using sw'(2) [OF False] by simp
    have "window_ids tw' + window_ids sw' = window_ids tw + add_mset m (window_ids sw')" using tw'(2) by simp
    then show "window_ids tw' + window_ids sw' = window_ids tw + window_ids sw" using sw'(2) [OF False] by metis
  qed
  moreover have "window_at (put_window i sw' (put_window j tw' s)) j = Some tw'"
    using w(3) session_invD(3) [OF inv] by (simp add: window_at_def put_window_def bm_sorted_insert map_of_bm_insert)
  ultimately show ?thesis using put_two_crossed [OF session_invD(3) [OF inv] w(3), of sw' tw'] False by (simp add: s2_def)
qed

text \<open>The pane that leaves its window.\<close>

lemma extract_leaving:
  assumes sw: "window_ok sw" and k: "k < length (w_panes sw)"
  obtains sw1 z sw' q where "auto_unzoom sw = Some (sw1, z)" "extract_pane sw1 k = Some (sw', Some q)"
    "p_id q = p_id (w_panes sw ! k)" "w_panes sw' = [] \<Longrightarrow> window_ids sw = {#p_id q#}"
    "w_panes sw' \<noteq> [] \<Longrightarrow> window_ok sw' \<and> add_mset (p_id q) (window_ids sw') = window_ids sw"
    "w_panes sw' = [] \<longleftrightarrow> length (w_panes sw) = 1"
proof -
  obtain sw1 z where sw1: "auto_unzoom sw = Some (sw1, z)" "keeps_panes sw sw1" "same_roster sw sw1"
    using auto_unzoom_keeps [OF sw] .
  note same = same_roster_ids [OF sw1(3)]
  have id: "p_id (w_panes sw1 ! k) = p_id (w_panes sw ! k)" using same(1,2) k by (metis nth_map)
  show ?thesis
  proof (cases "length (w_panes sw) = 1")
    case True
    then have one: "length (w_panes sw1) = 1" "k = 0" using same(2) k by simp_all
    obtain sw' q where q: "extract_pane sw1 0 = Some (sw', Some q)" "p_id q = p_id (w_panes sw1 ! 0)" "w_panes sw' = []"
      using extract_only [of sw1] sw1(2) one(1) by blast
    have "window_ids sw = {#p_id q#}" using True id q(2) one(2) by (cases "w_panes sw") (auto simp: window_ids_def)
    then show ?thesis using that [OF sw1(1)] q id one(2) True by simp
  next
    case False
    then have two: "2 \<le> length (w_panes sw1)" "k < length (w_panes sw1)" using same(2) k by simp_all
    obtain sw' q where q: "extract_pane sw1 k = Some (sw', Some q)" "window_ok sw'" "p_id q = p_id (w_panes sw1 ! k)"
      "add_mset (p_id q) (window_ids sw') = window_ids sw1"
      using extract_ok [of sw1 k] sw1(2) two by (auto elim!: returnsE)
    have "w_panes sw' \<noteq> []" using q(2) by (simp add: window_ok_def window_inv_def ids_inv_def)
    then show ?thesis using that [OF sw1(1) q(1)] q id sw1(2) False by simp
  qed
qed

definition without_two :: "u32 \<Rightarrow> u32 \<Rightarrow> session \<Rightarrow> session" where
  "without_two i j s = s\<lparr>ss_windows := bm_remove j (bm_remove i (ss_windows s))\<rparr>"

lemma join_between_steps:
  assumes inv: "session_inv s" and room: "has_room s" and ne: "t_window src \<noteq> t_window tgt"
    and t: "pane_of_target s src = Inr (sw, sp)" "prepare_join s tgt opts sp = Inr (tw, pos, req, tp)"
  obtains sw' tw' where "window_ok tw'" "window_ids tw' = add_mset (p_id sp) (window_ids tw)"
    "w_panes sw' = [] \<Longrightarrow> window_ids sw = {#p_id sp#}" "w_panes sw' = [] \<longleftrightarrow> length (w_panes sw) = 1"
    "w_panes sw' \<noteq> [] \<Longrightarrow> window_ok sw' \<and> add_mset (p_id sp) (window_ids sw') = window_ids sw"
    "join_pane now src tgt opts s = do {
       let s2 = put_window (t_window tgt) tw' (without_two (t_window src) (t_window tgt) s);
       s3 \<leftarrow> (if w_panes sw' = [] then drop_emptied_window (t_window src) s2 else Some (put_window (t_window src) sw' s2));
       Some (if join_detached opts then (s3, Inr ()) else select_window (t_window tgt) s3) }"
proof -
  note sw = pane_of_target_Inr [OF inv t(1)] and tw = prepare_join_Inr [OF inv t(2)]
  obtain a where a: "active_pane tw = Some a" "p_id a \<in># window_ids tw" using active_ids [OF tw(2)] member_ids by blast
  obtain sw1 z1 sw' q where q: "auto_unzoom sw = Some (sw1, z1)" "extract_pane sw1 (t_pane src) = Some (sw', Some q)"
    "p_id q = p_id sp" "w_panes sw' = [] \<Longrightarrow> window_ids sw = {#p_id q#}"
    "w_panes sw' \<noteq> [] \<Longrightarrow> window_ok sw' \<and> add_mset (p_id q) (window_ids sw') = window_ids sw"
    "w_panes sw' = [] \<longleftrightarrow> length (w_panes sw) = 1"
    using extract_leaving [OF sw(2,3)] sw(4) by metis
  obtain tw1 z2 where tw1: "auto_unzoom tw = Some (tw1, z2)" "keeps_panes tw tw1" "same_roster tw tw1"
    using auto_unzoom_keeps [OF tw(2)] .
  have len: "length (w_panes tw1) = length (w_panes tw)" by (rule same_roster_ids(2) [OF tw1(3)])
  let ?q = "q\<lparr>p_index := p_index tp\<rparr>"
  obtain tw' k where tw': "receive_joined now opts pos req (p_id a) (last_pane_id tw) ?q tw1 = Some (tw', Inr k)"
    "window_ok tw'" "window_ids tw' = add_mset (p_id q) (window_ids tw)"
    using receive_joined_ok [of tw1 ?q pos "p_id a" now opts req "last_pane_id tw"] tw1(2) len has_roomD [OF room tw(1)] tw a(2) q(3)
    by (auto elim!: returnsE)
  have "join_pane now src tgt opts s = do {
       let s2 = put_window (t_window tgt) tw' (without_two (t_window src) (t_window tgt) s);
       s3 \<leftarrow> (if w_panes sw' = [] then drop_emptied_window (t_window src) s2 else Some (put_window (t_window src) sw' s2));
       Some (if join_detached opts then (s3, Inr ()) else select_window (t_window tgt) s3) }"
    using ne t a(1) q(1,2) tw1(1) tw'(1) by (simp add: join_pane_def without_two_def Let_def)
  then show ?thesis using that [OF tw'(2)] tw'(3) q(3-6) by simp
qed

lemma join_between_keeps:
  assumes inv: "session_inv s" and room: "has_room s" and ne: "t_window src \<noteq> t_window tgt"
    and t: "pane_of_target s src = Inr (sw, sp)" "prepare_join s tgt opts sp = Inr (tw, pos, req, tp)"
  shows "returns (join_pane now src tgt opts s) (\<lambda>(s', r). r = Inr () \<and> keeps_session s s')"
proof -
  note sw = pane_of_target_Inr [OF inv t(1)] and tw = prepare_join_Inr [OF inv t(2)]
  obtain sw' tw' where w: "window_ok tw'" "window_ids tw' = add_mset (p_id sp) (window_ids tw)"
    "w_panes sw' = [] \<Longrightarrow> window_ids sw = {#p_id sp#}" "w_panes sw' = [] \<longleftrightarrow> length (w_panes sw) = 1"
    "w_panes sw' \<noteq> [] \<Longrightarrow> window_ok sw' \<and> add_mset (p_id sp) (window_ids sw') = window_ids sw"
    and run: "join_pane now src tgt opts s = do {
       let s2 = put_window (t_window tgt) tw' (without_two (t_window src) (t_window tgt) s);
       s3 \<leftarrow> (if w_panes sw' = [] then drop_emptied_window (t_window src) s2 else Some (put_window (t_window src) sw' s2));
       Some (if join_detached opts then (s3, Inr ()) else select_window (t_window tgt) s3) }"
    by (rule join_between_steps [OF assms, of now]) (rule that)
  let ?s2 = "put_window (t_window tgt) tw' (without_two (t_window src) (t_window tgt) s)"
  obtain s3 where s3: "(if w_panes sw' = [] then drop_emptied_window (t_window src) ?s2 else Some (put_window (t_window src) sw' ?s2)) = Some s3"
    "keeps_session s s3" "window_at s3 (t_window tgt) \<noteq> None"
    using settle_join [OF inv sw(1) tw(1) ne w(1,2,3,5)] unfolding without_two_def by (auto elim: returnsE)
  obtain s4 where s4: "select_window (t_window tgt) s3 = (s4, Inr ())" using select_window_eq [OF s3(3)] by metis
  then have "keeps_session s3 s4" using select_window_keeps [of s3 "t_window tgt"] s3(2) by simp
  then show ?thesis unfolding run Let_def s3(1) using s3(2) s4 by simp
qed

lemma join_pane_keeps:
  assumes inv: "session_inv s" and room: "has_room s"
  shows "returns (join_pane now src tgt opts s) (\<lambda>(s', r). keeps_session s s')"
proof (cases "t_window src = t_window tgt")
  case True
  have "returns (join_pane_within_window now src tgt opts s) (\<lambda>(s', r). keeps_session s s')"
  proof (cases "t_pane src = t_pane tgt")
    case ne: False
    have body: "returns (case pane_position w (t_pane src) of
          None \<Rightarrow> Some (w, Inl (no_pane s (t_window src) (t_pane src)))
        | Some i \<Rightarrow> (case pane_position w (t_pane tgt) of
            None \<Rightarrow> Some (w, Inl (no_pane s (t_window tgt) (t_pane tgt)))
          | Some j \<Rightarrow> join_within now opts i (w_panes w ! i) j (w_panes w ! j) w)) (\<lambda>(w', r). keeps_panes w w')"
      if w: "window_ok w" for w
    proof (cases "pane_position w (t_pane src) = None \<or> pane_position w (t_pane tgt) = None")
      case False
      then obtain i j where ij: "pane_position w (t_pane src) = Some i" "pane_position w (t_pane tgt) = Some j" by auto
      then have "i < length (w_panes w)" "j < length (w_panes w)" "i \<noteq> j"
        using ne position_Some [OF ij(1) [unfolded pane_position_def]] position_Some [OF ij(2) [unfolded pane_position_def]] by auto
      then show ?thesis using join_within_ok [OF w, of i j now opts] ij by simp
    qed (use w in \<open>auto split: option.split\<close>)
    show ?thesis using ne in_window_keeps [OF inv, OF body] by (simp add: join_pane_within_window_def)
  qed (use inv in \<open>simp add: join_pane_within_window_def\<close>)
  then show ?thesis using True by (simp add: join_pane_def)
next
  case False
  show ?thesis
  proof (cases "pane_of_target s src")
    case (Inr x)
    then obtain sw sp where x: "pane_of_target s src = Inr (sw, sp)" by (cases x) simp
    show ?thesis
    proof (cases "prepare_join s tgt opts sp")
      case (Inr y)
      then obtain tw pos req tp where "prepare_join s tgt opts sp = Inr (tw, pos, req, tp)" by (cases y) auto
      from join_between_keeps [OF inv room False x this, of now] show ?thesis by (rule returns_mono) auto
    qed (use False x inv in \<open>simp add: join_pane_def\<close>)
  qed (use False inv in \<open>simp add: join_pane_def\<close>)
qed

section \<open>Breaking a pane out\<close>

text \<open>A set of windows moves up by one.\<close>

definition shifted_by :: "u32 list \<Rightarrow> (u32 \<Rightarrow> window option) \<Rightarrow> u32 \<Rightarrow> window option" where
  "shifted_by ks f j = (if 0 < j \<and> j - 1 \<in> set ks then f (j - 1) else if j \<in> set ks then None else f j)"

lemma shift_loop_inv:
  assumes "windows_inv s" "sorted_wrt (\<lambda>a b. b < a) ks"
    and "\<And>k. k \<in> set ks \<Longrightarrow> k < u32_max \<and> window_at s k \<noteq> None \<and> (window_at s (k + 1) = None \<or> k + 1 \<in> set ks)"
  shows "\<exists>s'. shift_loop ks s = Some (s', Inr ()) \<and> windows_inv s' \<and> session_ids s' = session_ids s
    \<and> window_at s' = shifted_by ks (window_at s) \<and> ss_active_window s' = ss_active_window s \<and> ss_last_window s' = ss_last_window s
    \<and> ss_next_window_id s' = ss_next_window_id s"
  using assms
proof (induction ks arbitrary: s)
  case Nil
  then show ?case by (simp add: shifted_by_def fun_eq_iff)
next
  case (Cons k ks)
  obtain w where w: "window_at s k = Some w" "k < u32_max" using Cons.prems(3) [of k] by auto
  have below: "\<And>j. j \<in> set ks \<Longrightarrow> j < k" using Cons.prems(2) by simp
  have free: "window_at s (k + 1) = None" using Cons.prems(3) [of k] below [of "k + 1"] by auto
  have ok: "window_ok w" using Cons.prems(1) w(1) by (simp add: windows_inv_def)
  let ?d = "drop_window k s"
  define s1 where "s1 = put_flags (k + 1) (winlink_alert_flags s k) (put_window (k + 1) w ?d)"
  have d: "windows_inv ?d" "bm_sorted (ss_windows ?d)" using windows_inv_drop [OF Cons.prems(1)] by (simp_all add: windows_inv_def)
  have s1: "windows_inv s1" "window_at s1 = (window_at s)(k := None, k + 1 \<mapsto> w)" "session_ids s1 = session_ids s"
    "ss_active_window s1 = ss_active_window s" "ss_last_window s1 = ss_last_window s" "ss_next_window_id s1 = ss_next_window_id s"
  proof -
    show "windows_inv s1" unfolding s1_def by (rule windows_inv_add [OF d(1)]) (use w(2) ok in simp_all)
    show "window_at s1 = (window_at s)(k := None, k + 1 \<mapsto> w)" using d(2) by (simp add: s1_def fun_eq_iff window_at_put window_at_drop)
    have "window_at ?d (k + 1) = None" using free by (simp add: window_at_drop)
    from session_ids_new [OF d(2) this, of w] session_ids_drop [of s k w] w(1) Cons.prems(1)
    show "session_ids s1 = session_ids s" by (simp add: s1_def windows_inv_def)
  qed (simp_all add: s1_def put_flags_def put_window_def drop_window_def)
  have "j < u32_max \<and> window_at s1 j \<noteq> None \<and> (window_at s1 (j + 1) = None \<or> j + 1 \<in> set ks)" if "j \<in> set ks" for j
    using that below [of j] Cons.prems(3) [of j] s1(2) by auto
  from Cons.IH [OF s1(1) _ this] obtain s' where "shift_loop ks s1 = Some (s', Inr ())" "windows_inv s'" "session_ids s' = session_ids s1"
    "window_at s' = shifted_by ks (window_at s1)" "ss_active_window s' = ss_active_window s1" "ss_last_window s' = ss_last_window s1"
    "ss_next_window_id s' = ss_next_window_id s1"
    using Cons.prems(2) by auto
  moreover have "shifted_by ks (window_at s1) = shifted_by (k # ks) (window_at s)"
    using s1(2) below w(1) by (fastforce simp: shifted_by_def fun_eq_iff)
  ultimately show ?case using w s1 by (simp add: s1_def)
qed

text \<open>All windows from an index on move up; the current and the last window move with them.\<close>

definition shifted_from :: "u32 \<Rightarrow> (u32 \<Rightarrow> window option) \<Rightarrow> u32 \<Rightarrow> window option" where
  "shifted_from n f j = (if j < n then f j else if j = n then None else f (j - 1))"

definition raised :: "u32 \<Rightarrow> u32 \<Rightarrow> u32" where
  "raised n k = (if n \<le> k then k + 1 else k)"

lemma shifted_raised: "shifted_from n f (raised n k) = f k"
  by (simp add: shifted_from_def raised_def)

lemma shifted_by_from:
  assumes "\<And>k. k \<in> set ks \<longleftrightarrow> n \<le> k \<and> f k \<noteq> None"
  shows "shifted_by ks f = shifted_from n f"
proof
  fix j
  consider "j < n" | "j = n" | "n < j" by linarith
  then show "shifted_by ks f j = shifted_from n f j"
    using assms [of j] assms [of "j - 1"] by cases (auto simp: shifted_by_def shifted_from_def)
qed

lemma last_key_max:
  assumes "bm_sorted m" "m \<noteq> []" "k \<in> fst ` set m"
  shows "k \<le> fst (last m)"
proof -
  obtain m' x where m: "m = m' @ [x]" using assms(2) by (cases m rule: rev_cases) auto
  then have "\<forall>y \<in> set m'. fst y < fst x" using assms(1) by (auto simp: bm_sorted_def sorted_wrt_append)
  then show ?thesis using assms(3) m by auto
qed

lemma shift_up_inv:
  assumes inv: "session_inv s"
  shows "shift_windows_up_from n s = Some (s, Inl (Server ''window index space exhausted''))
    \<or> (\<exists>s'. shift_windows_up_from n s = Some (s', Inr ()) \<and> keeps_session s s' \<and> window_at s' = shifted_from n (window_at s)
        \<and> ss_active_window s' = raised n (ss_active_window s) \<and> (\<forall>k. window_at s k \<noteq> None \<longrightarrow> k < u32_max)
        \<and> ss_next_window_id s' = ss_next_window_id s)"
proof (cases "ss_windows s \<noteq> [] \<and> fst (last (ss_windows s)) = u32_max")
  case True
  then show ?thesis by (simp add: shift_windows_up_from_def)
next
  case False
  have ne: "ss_windows s \<noteq> []" using session_invD(5) [OF inv] by (auto simp: window_at_def)
  have small: "k < u32_max" if "window_at s k \<noteq> None" for k
  proof -
    have "k \<le> fst (last (ss_windows s))" using last_key_max [OF session_invD(3) [OF inv] ne] that keys_window_at [of k s] by blast
    moreover have "fst (last (ss_windows s)) \<le> u32_max"
      using session_invD(7) [OF inv] keys_window_at [of "fst (last (ss_windows s))" s] ne last_in_set [OF ne] by fastforce
    ultimately show ?thesis using False ne by linarith
  qed
  let ?ks = "rev (filter (\<lambda>k. n \<le> k) (map fst (ss_windows s)))"
  have ks: "k \<in> set ?ks \<longleftrightarrow> n \<le> k \<and> window_at s k \<noteq> None" for k
    using keys_window_at [of k s] by auto
  have sorted: "sorted_wrt (\<lambda>a b. b < a) ?ks"
    using session_invD(3) [OF inv] sorted_wrt_filter [of "(<)"] unfolding bm_sorted_def sorted_wrt_rev by blast
  have step: "k < u32_max \<and> window_at s k \<noteq> None \<and> (window_at s (k + 1) = None \<or> k + 1 \<in> set ?ks)" if "k \<in> set ?ks" for k
    using that ks small [of k] by (metis add.commute trans_le_add2)
  obtain s1 where s1: "shift_loop ?ks s = Some (s1, Inr ())" "windows_inv s1" "session_ids s1 = session_ids s"
    "window_at s1 = shifted_from n (window_at s)" "ss_active_window s1 = ss_active_window s" "ss_last_window s1 = ss_last_window s"
    "ss_next_window_id s1 = ss_next_window_id s"
    using shift_loop_inv [OF session_invD(1) [OF inv] sorted step] shifted_by_from [OF ks] by metis
  have sat: "window_at s k \<noteq> None \<Longrightarrow> (if n \<le> k then u32_sat_add k 1 else k) = raised n k" for k
    using small [of k] by (simp add: raised_def machine_defs)
  let ?l = "map_option (\<lambda>l. if n \<le> l then u32_sat_add l 1 else l) (ss_last_window s)"
  let ?s2 = "s1\<lparr>ss_active_window := raised n (ss_active_window s), ss_last_window := ?l\<rparr>"
  have "pred_option (\<lambda>l. window_at s1 l \<noteq> None) ?l"
    using session_invD(2) [OF inv] s1(4) sat shifted_raised by (cases "ss_last_window s") (simp_all add: current_inv_def)
  then have "session_inv ?s2"
    using s1(2,4) session_invD(5) [OF inv] shifted_raised by (intro retarget_inv) simp_all
  moreover have "shift_windows_up_from n s = Some (?s2, Inr ())"
    unfolding shift_windows_up_from_def if_not_P [OF False] s1(1) ss_bind_def option.case prod.case sum.case s1(5,6)
      sat [OF session_invD(5) [OF inv]] ..
  ultimately show ?thesis using s1 small by (intro disjI2 exI [of _ ?s2]) simp
qed

text \<open>The free index for the new window, and where the window of the pane is by then.\<close>

lemma open_slot_inv:
  assumes inv: "session_inv s" and w: "window_at s i \<noteq> None"
  shows "(\<exists>e. open_break_slot t ahead s = Some (s, Inl e))
    \<or> (\<exists>s1 k. open_break_slot t ahead s = Some (s1, Inr k) \<and> keeps_session s s1 \<and> ss_next_window_id s1 = ss_next_window_id s
        \<and> k \<le> u32_max \<and> window_at s1 k = None \<and> window_at s1 (raised k i) = window_at s i \<and> i < u32_max)"
proof -
  define a where "a = (case t of Some k \<Rightarrow> k | None \<Rightarrow> ss_active_window s)"
  show ?thesis
  proof (cases "t \<noteq> None \<and> window_at s a = None \<or> \<not> ahead \<and> a = u32_max")
    case True
    then show ?thesis by (auto simp: open_break_slot_def Let_def a_def split: option.splits)
  next
    case False
    have "window_at s a \<noteq> None" using False session_invD(5) [OF inv] by (cases t) (auto simp: a_def)
    then have "a \<le> u32_max" using session_invD(7) [OF inv] by blast
    define k where "k = (if ahead then a else a + 1)"
    have k: "k \<le> u32_max" using \<open>a \<le> u32_max\<close> False by (auto simp: k_def)
    have run: "open_break_slot t ahead s = ss_bind (shift_windows_up_from k s) (\<lambda>s1 _. Some (s1, Inr k))"
      using False by (auto simp: open_break_slot_def Let_def a_def k_def split: option.splits)
    from shift_up_inv [OF inv, of k] show ?thesis
    proof
      assume "shift_windows_up_from k s = Some (s, Inl (Server ''window index space exhausted''))"
      then show ?thesis using run by (simp add: ss_bind_def)
    next
      assume "\<exists>s'. shift_windows_up_from k s = Some (s', Inr ()) \<and> keeps_session s s' \<and> window_at s' = shifted_from k (window_at s)
        \<and> ss_active_window s' = raised k (ss_active_window s) \<and> (\<forall>k. window_at s k \<noteq> None \<longrightarrow> k < u32_max)
        \<and> ss_next_window_id s' = ss_next_window_id s"
      then obtain s' where "shift_windows_up_from k s = Some (s', Inr ())" "keeps_session s s'"
        "window_at s' = shifted_from k (window_at s)" "\<forall>k. window_at s k \<noteq> None \<longrightarrow> k < u32_max"
        "ss_next_window_id s' = ss_next_window_id s" by blast
      moreover from this(3) have "window_at s' k = None" "window_at s' (raised k i) = window_at s i"
        by (simp_all add: shifted_raised) (simp add: shifted_from_def)
      ultimately show ?thesis using run w k by (simp add: ss_bind_def)
    qed
  qed
qed

lemma prepare_break_inv:
  assumes inv: "session_inv s" and w: "window_at s i \<noteq> None" and t: "pred_option (\<lambda>k. k \<le> u32_max) t"
  shows "returns (prepare_break_destination i t after ahead s) (\<lambda>(s1, r). keeps_session s s1
    \<and> ss_next_window_id s1 = ss_next_window_id s \<and> (case r of Inl _ \<Rightarrow> True | Inr (k, i') \<Rightarrow>
      k \<le> u32_max \<and> window_at s1 i' = window_at s i \<and> (window_at s1 k = None \<or> k = i')))"
proof (cases "after \<or> ahead")
  case False
  show ?thesis
  proof (cases t)
    case None
    then show ?thesis using False inv lowest_available_window [OF inv, of 0]
      by (cases "lowest_available_window_index_at_or_above s 0")
        (auto simp: prepare_break_destination_def resolve_break_destination_index_def)
  next
    case (Some k)
    then show ?thesis using False inv t
      by (auto simp: prepare_break_destination_def resolve_break_destination_index_def)
  qed
next
  case True
  from open_slot_inv [OF inv w, of t ahead] show ?thesis
  proof (elim disjE exE conjE)
    fix e assume "open_break_slot t ahead s = Some (s, Inl e)"
    then show ?thesis using True inv by (simp add: prepare_break_destination_def ss_bind_def)
  next
    fix s1 k assume "open_break_slot t ahead s = Some (s1, Inr k)" "session_inv s1" "session_ids s1 = session_ids s"
      "ss_next_window_id s1 = ss_next_window_id s" "k \<le> u32_max" "window_at s1 k = None" "window_at s1 (raised k i) = window_at s i" "i < u32_max"
    then show ?thesis using True by (simp add: prepare_break_destination_def ss_bind_def raised_def not_less split: if_splits)
  qed
qed

lemma single_pane_renumbered:
  assumes w: "window_ok w" and one: "length (w_panes w) = 1"
  obtains w' where "renumber_single_pane_to_zero w = Some w'" "keeps_panes w w'"
proof -
  obtain p where p: "w_panes w = [p]" using one by (cases "w_panes w") auto
  obtain w' where w': "renumber_single_pane_to_zero w = Some w'" "window_inv w'" "map p_id (w_panes w') = [p_id p]"
    "map p_index (w_panes w') = [0]"
    using renumber_single_inv [OF p] by (auto elim!: returnsE)
  then show ?thesis using that p by (auto simp: window_ok_def numbered_def window_ids_def)
qed

text \<open>
  A pane that breaks out keeps its place in the session, unless its window has other panes and is itself
  the destination.
\<close>

lemma break_single:
  assumes inv: "session_inv s1" and w: "window_at s1 i = Some w" "length (w_panes w) = 1"
    and k: "k \<le> u32_max" "window_at s1 k = None \<or> k = i"
  shows "returns (do {
      w' \<leftarrow> renumber_single_pane_to_zero w;
      ss_bind (move_window i k False sel (put_window i w' s1))
        (\<lambda>s2 _. case name of None \<Rightarrow> Some (s2, Inr k)
           | Some n \<Rightarrow> ss_bind (rename_window k n s2) (\<lambda>s3 _. Some (s3, Inr k))) })
    (\<lambda>(s', r). keeps_session s1 s' \<and> r = Inr k)"
proof -
  obtain w' where w': "renumber_single_pane_to_zero w = Some w'" "keeps_panes w w'"
    using single_pane_renumbered [OF session_invD(6) [OF inv w(1)] w(2)] .
  let ?s = "put_window i w' s1"
  have s: "keeps_session s1 ?s" by (rule put_window_keeps [OF inv w(1) w'(2)])
  have at: "window_at ?s j = (if j = i then Some w' else window_at s1 j)" for j using session_invD(3) [OF inv] by (rule window_at_put)
  obtain s2 x where s2: "move_window i k False sel ?s = Some (s2, Inr x)" "keeps_session ?s s2" "window_at s2 k \<noteq> None"
  proof (cases "k = i")
    case True
    then show ?thesis using that [of ?s] s at by (auto simp: move_window_def)
  next
    case False
    have free: "window_at ?s k = None" using k(2) at False by simp
    obtain s2 where "move_window i k False sel ?s = Some (s2, Inr (window_at ?s k))" "session_inv s2"
      "window_at s2 = (window_at ?s)(i := None, k \<mapsto> w')"
      "session_ids ?s = session_ids s2 + (case window_at ?s k of None \<Rightarrow> {#} | Some v \<Rightarrow> window_ids v)"
      using move_window_inv [of ?s i w' k False sel] s at [of i] False k(1) free by metis
    then show ?thesis using that free by auto
  qed
  show ?thesis
  proof (cases name)
    case None
    then show ?thesis using w'(1) s s2 by (simp add: ss_bind_def)
  next
    case (Some n)
    obtain v where v: "window_at s2 k = Some v" using s2(3) by blast
    have "keeps_session s2 (put_window k (set_name v n) s2)"
      using put_window_keeps [of s2 k v] plain_ok(1) [of v n] v s2(2) session_invD(6) [of s2 k v] by blast
    then show ?thesis using w'(1) s s2 v Some by (simp add: ss_bind_def rename_window_def in_window_def)
  qed
qed

lemma place_broken_inv:
  assumes inv: "session_inv s" and k: "k \<le> u32_max" and room: "ss_next_window_id s \<noteq> u32_max"
  shows "returns (place_broken_pane now sz i k opts s) (\<lambda>(s', r). session_inv s'
    \<and> (window_at s k = None \<longrightarrow> r = Inr k \<and> session_ids s' = add_mset i (session_ids s))
    \<and> (window_at s k \<noteq> None \<longrightarrow> (\<exists>e. r = Inl e) \<and> session_ids s' = session_ids s))"
proof -
  let ?s1 = "s\<lparr>ss_next_window_id := ss_next_window_id s + 1\<rparr>"
  have inv1: "session_inv ?s1" using inv by (simp add: session_inv_def)
  obtain w where w: "new_with_initial_pane now sz i (ss_next_window_id s) = Some w" "window_ok w" "window_ids w = {#i#}"
    using new_window_ok [of now sz i "ss_next_window_id s"] by (auto elim!: returnsE)
  define w1 where "w1 = (case break_name opts of None \<Rightarrow> w | Some name \<Rightarrow> set_name w name)"
  have w1: "window_ok w1" "window_ids w1 = {#i#}" using w plain_ok(1) [OF w(2)] by (auto simp: w1_def split: option.split)
  note ins = insert_existing_inv [OF inv1 k w1(1)]
  obtain s2 r where s2: "insert_existing_window k w1 ?s1 = (s2, r)" by fastforce
  have run: "place_broken_pane now sz i k opts s = (case (s2, r) of (s2, Inl e) \<Rightarrow> Some (s2, Inl e)
      | (s2, Inr _) \<Rightarrow> if break_detached opts then Some (s2, Inr k)
          else case select_window k s2 of (s3, r) \<Rightarrow> Some (s3, res_bind r (\<lambda>_. Inr k)))"
    using room w(1) s2 by (simp add: place_broken_pane_def allocate_window_id_def w1_def [symmetric])
  show ?thesis
  proof (cases "window_at s k")
    case None
    then have r: "r = Inr ()" "session_inv s2" "session_ids s2 = add_mset i (session_ids s)" "window_at s2 k \<noteq> None"
      using ins s2 w1(2) by simp_all
    obtain s3 where "select_window k s2 = (s3, Inr ())" using select_window_eq [OF r(4)] by metis
    then show ?thesis using run r select_window_keeps [OF r(2), of k] None by simp
  next
    case (Some v)
    then have "r = Inl (window_taken ?s1 k)" "s2 = ?s1" using s2 by (auto simp: insert_existing_window_def)
    then show ?thesis using run Some inv1 by simp
  qed
qed

lemma break_multiple:
  assumes inv: "session_inv s1" and w: "window_at s1 i = Some w" "p < length (w_panes w)" "length (w_panes w) \<noteq> 1"
    and k: "k \<le> u32_max" "window_at s1 k = None \<or> k = i" and room: "ss_next_window_id s1 \<noteq> u32_max"
  shows "returns (do {
      (w1, _) \<leftarrow> auto_unzoom w;
      (w2, extracted) \<leftarrow> extract_pane w1 p;
      moved \<leftarrow> extracted;
      place_broken_pane now (w_size w) (p_id moved) k opts (put_window i w2 s1) })
    (\<lambda>(s', r). session_inv s' \<and> (k \<noteq> i \<longrightarrow> r = Inr k \<and> session_ids s' = session_ids s1)
      \<and> (k = i \<longrightarrow> (\<exists>e. r = Inl e) \<and> add_mset (p_id (w_panes w ! p)) (session_ids s') = session_ids s1))"
proof -
  note ok = session_invD(6) [OF inv w(1)] and sorted = session_invD(3) [OF inv]
  obtain w1 z w2 q where q: "auto_unzoom w = Some (w1, z)" "extract_pane w1 p = Some (w2, Some q)" "p_id q = p_id (w_panes w ! p)"
    "window_ok w2" "add_mset (p_id q) (window_ids w2) = window_ids w"
    using extract_leaving [OF ok w(2)] w(3) by metis
  let ?s = "put_window i w2 s1"
  have s: "session_inv ?s" using put_window_inv [OF inv, of i w2] w(1) q(4) by simp
  have ids: "add_mset (p_id q) (session_ids ?s) = session_ids s1"
    using session_ids_put [OF sorted w(1), of w2] q(5)
    by (metis add_left_cancel union_mset_add_mset_left union_mset_add_mset_right)
  have at: "window_at ?s k = (if k = i then Some w2 else window_at s1 k)" using sorted by (rule window_at_put)
  have "ss_next_window_id ?s \<noteq> u32_max" using room by (simp add: put_window_def)
  from place_broken_inv [OF s k(1) this, of now "w_size w" "p_id q" opts]
  show ?thesis using q(1,2,3) at k(2) ids by (auto elim!: returns_mono)
qed

lemma break_pane_inv:
  assumes inv: "session_inv s" and t: "pred_option (\<lambda>k. k \<le> u32_max) (break_target_window opts)"
    and room: "ss_next_window_id s \<noteq> u32_max"
  shows "returns (break_pane now src opts s) (\<lambda>(s', r). session_inv s'
    \<and> (case r of Inl _ \<Rightarrow> True | Inr _ \<Rightarrow> session_ids s' = session_ids s))"
proof (cases "pane_of_target s src")
  case (Inl e)
  then show ?thesis using inv by (simp add: break_pane_def)
next
  case (Inr x)
  then obtain w p where x: "pane_of_target s src = Inr (w, p)" by (cases x) simp
  note w = pane_of_target_Inr [OF inv x]
  have "window_at s (t_window src) \<noteq> None" using w(1) by simp
  then obtain s1 r where s1: "prepare_break_destination (t_window src) (break_target_window opts) (break_after opts) (break_before opts) s
      = Some (s1, r)" "keeps_session s s1" "ss_next_window_id s1 = ss_next_window_id s"
    "case r of Inl _ \<Rightarrow> True | Inr (k, i') \<Rightarrow> k \<le> u32_max \<and> window_at s1 i' = window_at s (t_window src) \<and> (window_at s1 k = None \<or> k = i')"
    using prepare_break_inv [OF inv _ t, of "t_window src" "break_after opts" "break_before opts"] by (auto elim!: returnsE)
  show ?thesis
  proof (cases r)
    case (Inl e)
    then show ?thesis using x s1(1,2) by (simp add: break_pane_def ss_bind_def)
  next
    case (Inr y)
    obtain k i where y: "y = (k, i)" by (cases y)
    have k: "k \<le> u32_max" "window_at s1 i = Some w" "window_at s1 k = None \<or> k = i" using s1(4) Inr y w(1) by simp_all
    have inv1: "session_inv s1" using s1(2) by simp
    show ?thesis
    proof (cases "length (w_panes w) = 1")
      case True
      from break_single [OF inv1 k(2) True k(1,3), of "\<not> break_detached opts" "break_name opts"]
      show ?thesis using x s1(1,2) Inr y k(2) True by (simp add: break_pane_def ss_bind_def [of "Some (s1, Inr (k, i))"]) (auto elim!: returns_mono)
    next
      case False
      from break_multiple [OF inv1 k(2) w(3) False k(1,3), of now opts] s1(3) room
      show ?thesis using x s1(1,2) Inr y k(2) False by (cases "k = i") (auto simp: break_pane_def ss_bind_def elim!: returns_mono)
    qed
  qed
qed

end
