(* ===== verification/Session_Calls.thy ===== *)
theory Session_Calls
  imports Session_Panes
begin

text \<open>
  The public calls of a session that fill in arguments of the operations of \<open>Session_State\<close> and
  \<open>Session_Panes\<close>: the current window, a vertical split, no zoom, no sizes of the main pane.
\<close>

section \<open>Splits\<close>

definition split_pane_in_window_with_direction ::
  "i64 \<Rightarrow> u32 \<Rightarrow> u32 \<Rightarrow> split_direction \<Rightarrow> session \<Rightarrow> u32 session_result" where
  "split_pane_in_window_with_direction now window_index pane_index d s =
     split_pane_in_window_before now window_index pane_index d False s"

definition split_pane_in_window :: "i64 \<Rightarrow> u32 \<Rightarrow> u32 \<Rightarrow> session \<Rightarrow> u32 session_result" where
  "split_pane_in_window now window_index pane_index s =
     split_pane_in_window_with_direction now window_index pane_index Vertical s"

definition split_pane_with_direction :: "i64 \<Rightarrow> u32 \<Rightarrow> split_direction \<Rightarrow> session \<Rightarrow> u32 session_result" where
  "split_pane_with_direction now pane_index d s =
     split_pane_in_window_with_direction now (ss_active_window s) pane_index d s"

definition split_pane :: "i64 \<Rightarrow> u32 \<Rightarrow> session \<Rightarrow> u32 session_result" where
  "split_pane now pane_index s = split_pane_with_direction now pane_index Vertical s"

definition split_active_pane :: "i64 \<Rightarrow> session \<Rightarrow> u32 session_result" where
  "split_active_pane now s = split_active_pane_with_direction now Vertical s"

definition split_pane_in_window_with_id_before ::
  "i64 \<Rightarrow> u32 \<Rightarrow> u32 \<Rightarrow> u32 \<Rightarrow> split_direction \<Rightarrow> bool \<Rightarrow> session \<Rightarrow> u32 session_result" where
  "split_pane_in_window_with_id_before now window_index pane_index pane_id d ahead s =
     split_pane_in_window_detached now window_index pane_index pane_id d ahead False s"

definition split_pane_in_window_with_id ::
  "i64 \<Rightarrow> u32 \<Rightarrow> u32 \<Rightarrow> u32 \<Rightarrow> split_direction \<Rightarrow> session \<Rightarrow> u32 session_result" where
  "split_pane_in_window_with_id now window_index pane_index pane_id d s =
     split_pane_in_window_with_id_before now window_index pane_index pane_id d False s"

definition split_pane_full_size_before ::
  "i64 \<Rightarrow> u32 \<Rightarrow> u32 \<Rightarrow> u32 \<Rightarrow> split_direction \<Rightarrow> bool \<Rightarrow> session \<Rightarrow> u32 session_result" where
  "split_pane_full_size_before now window_index pane_index pane_id d ahead s =
     split_pane_full_size_detached now window_index pane_index pane_id d ahead False s"

section \<open>Panes of a window\<close>

definition kill_pane :: "u32 \<Rightarrow> session \<Rightarrow> kill_pane_outcome session_result" where
  "kill_pane pane_index s = kill_pane_in_window (ss_active_window s) pane_index s"

definition select_pane_in_window :: "i64 \<Rightarrow> u32 \<Rightarrow> u32 \<Rightarrow> session \<Rightarrow> unit session_result" where
  "select_pane_in_window now window_index pane_index s =
     select_pane_in_window_with_zoom now window_index pane_index False s"

definition session_select_pane :: "i64 \<Rightarrow> u32 \<Rightarrow> session \<Rightarrow> unit session_result" where
  "session_select_pane now pane_index s = select_pane_in_window now (ss_active_window s) pane_index s"

definition select_adjacent_pane_in_window :: "i64 \<Rightarrow> u32 \<Rightarrow> u32 \<Rightarrow> select_direction \<Rightarrow> session \<Rightarrow> u32 session_result" where
  "select_adjacent_pane_in_window now window_index pane_index d s =
     select_adjacent_pane_in_window_with_zoom now window_index pane_index d False s"

definition last_pane_in_window :: "i64 \<Rightarrow> u32 \<Rightarrow> session \<Rightarrow> u32 session_result" where
  "last_pane_in_window now window_index s = last_pane_in_window_with_zoom now window_index False s"

definition resize_pane :: "i64 \<Rightarrow> u32 \<Rightarrow> resize_adjustment \<Rightarrow> session \<Rightarrow> unit session_result" where
  "resize_pane now pane_index adjustment s = resize_pane_in_window now (ss_active_window s) pane_index adjustment s"

section \<open>Windows\<close>

definition rotate_window :: "i64 \<Rightarrow> u32 \<Rightarrow> rotate_direction \<Rightarrow> session \<Rightarrow> unit session_result" where
  "rotate_window now window_index d s = rotate_window_with_zoom now window_index d False s"

definition next_window :: "session \<Rightarrow> session \<times> u32 result" where
  "next_window s = next_window_alert_mode False s"

definition next_window_with_alerts :: "session \<Rightarrow> session \<times> u32 result" where
  "next_window_with_alerts s = next_window_alert_mode True s"

definition previous_window :: "session \<Rightarrow> session \<times> u32 result" where
  "previous_window s = previous_window_alert_mode False s"

definition previous_window_with_alerts :: "session \<Rightarrow> session \<times> u32 result" where
  "previous_window_with_alerts s = previous_window_alert_mode True s"

definition select_layout_in_window :: "u32 \<Rightarrow> layout_name \<Rightarrow> session \<Rightarrow> unit session_result" where
  "select_layout_in_window window_index layout s =
     select_layout_in_window_with_main_pane_size window_index layout None None s"

definition select_layout :: "layout_name \<Rightarrow> session \<Rightarrow> session option" where
  "select_layout layout s =
     do {
       (s', r) \<leftarrow> select_layout_in_window (ss_active_window s) layout s;
       (case r of Inl e \<Rightarrow> None | Inr _ \<Rightarrow> Some s')
     }"

definition next_layout_in_window :: "u32 \<Rightarrow> session \<Rightarrow> layout_name session_result" where
  "next_layout_in_window window_index s = next_layout_in_window_with_main_pane_size window_index None None s"

definition previous_layout_in_window :: "u32 \<Rightarrow> session \<Rightarrow> layout_name session_result" where
  "previous_layout_in_window window_index s = previous_layout_in_window_with_main_pane_size window_index None None s"

section \<open>Attributes\<close>

definition session_rename :: "string \<Rightarrow> session \<Rightarrow> session" where
  "session_rename new_name s = s\<lparr>ss_name := new_name\<rparr>"

definition set_group_name :: "string option \<Rightarrow> session \<Rightarrow> session" where
  "set_group_name group_name s = s\<lparr>ss_group_name := group_name\<rparr>"

definition set_cwd :: "string option \<Rightarrow> session \<Rightarrow> session" where
  "set_cwd cwd s = s\<lparr>ss_cwd := cwd\<rparr>"

definition set_id :: "u32 \<Rightarrow> session \<Rightarrow> session" where
  "set_id i s = s\<lparr>ss_id := i\<rparr>"

definition touch_attached :: "i64 \<Rightarrow> u64 \<Rightarrow> session \<Rightarrow> session" where
  "touch_attached now token s = s\<lparr>ss_activity_at := now, ss_last_attached_at := Some now, ss_recency := token\<rparr>"

definition touch_activity :: "i64 \<Rightarrow> u64 \<Rightarrow> session \<Rightarrow> session" where
  "touch_activity now token s = s\<lparr>ss_activity_at := now, ss_recency := token\<rparr>"

definition renew_recency :: "u64 \<Rightarrow> session \<Rightarrow> session" where
  "renew_recency token s = s\<lparr>ss_recency := token\<rparr>"

end
