(* ===== verification/Session_Group.thy ===== *)
theory Session_Group
  imports Session_Calls
begin

text \<open>
  Session groups (\<open>session/accessors.rs\<close>, \<open>session.rs\<close>): a member of a group takes over the windows of
  another member and keeps its own current window and its own alert flags, which follow the windows to
  their new indexes. A map of indexes that the caller gives is the sorted list of its entries.
\<close>

section \<open>Finding windows again\<close>

definition has_id_at :: "(u32 \<times> window) list \<Rightarrow> u32 \<Rightarrow> u32 \<Rightarrow> bool" where
  "has_id_at windows k i = (case map_of windows k of None \<Rightarrow> False | Some w \<Rightarrow> w_id w = i)"

definition window_index_for_id :: "(u32 \<times> window) list \<Rightarrow> u32 \<Rightarrow> u32 \<Rightarrow> u32 option" where
  "window_index_for_id windows window_id preferred_index =
     (if has_id_at windows preferred_index window_id then Some preferred_index
      else case filter (\<lambda>(_, w). w_id w = window_id) windows of [(k, _)] \<Rightarrow> Some k | _ \<Rightarrow> None)"

definition synchronized_active_window :: "(u32 \<times> window) list \<Rightarrow> u32 \<Rightarrow> u32 option \<Rightarrow> u32 option" where
  "synchronized_active_window windows previous_active previous_last =
     (if map_of windows previous_active \<noteq> None then Some previous_active
      else case keep_if (\<lambda>l. l \<noteq> previous_active \<and> map_of windows l \<noteq> None) previous_last of
        Some l \<Rightarrow> Some l
      | None \<Rightarrow> cyclic_previous_window_index windows previous_active)"

section \<open>Alert flags\<close>

text \<open>
  The map from the previous to the next index of a window and the set of the indexes that are taken,
  as a list. An index is claimed once.
\<close>

type_synonym claims = "(u32 \<times> u32) list \<times> u32 list"

definition claim :: "u32 \<Rightarrow> u32 \<Rightarrow> claims \<Rightarrow> claims" where
  "claim previous_index next_index st =
     (if next_index \<in> set (snd st) then st
      else (bm_insert previous_index next_index (fst st), next_index # snd st))"

text \<open>The three loops: the indexes the caller gives, the windows that stay in place, the others by their id.\<close>

definition claim_listed :: "(u32 \<times> u32) list \<Rightarrow> (u32 \<times> window) list \<Rightarrow> u32 \<times> window \<Rightarrow> claims \<Rightarrow> claims" where
  "claim_listed index_map windows = (\<lambda>(k, w) st.
     case map_of index_map k of
       None \<Rightarrow> st
     | Some n \<Rightarrow> if has_id_at windows n (w_id w) then claim k n st else st)"

definition claim_in_place :: "(u32 \<times> window) list \<Rightarrow> u32 \<times> window \<Rightarrow> claims \<Rightarrow> claims" where
  "claim_in_place windows = (\<lambda>(k, w) st.
     if map_of (fst st) k \<noteq> None then st
     else if has_id_at windows k (w_id w) then claim k k st
     else st)"

definition claim_by_id :: "(u32 \<times> window) list \<Rightarrow> u32 \<times> window \<Rightarrow> claims \<Rightarrow> claims" where
  "claim_by_id windows = (\<lambda>(k, w) st.
     if map_of (fst st) k \<noteq> None then st
     else case List.find (\<lambda>(n, w'). w_id w' = w_id w \<and> n \<notin> set (snd st)) windows of
            None \<Rightarrow> st
          | Some (n, _) \<Rightarrow> claim k n st)"

definition synchronized_indices ::
  "(u32 \<times> window) list \<Rightarrow> (u32 \<times> window) list \<Rightarrow> (u32 \<times> u32) list option \<Rightarrow> (u32 \<times> u32) list" where
  "synchronized_indices previous_windows windows winlink_alert_map =
     (let st1 = (case winlink_alert_map of
                   None \<Rightarrow> ([], [])
                 | Some index_map \<Rightarrow> fold (claim_listed index_map windows) previous_windows ([], []));
          st2 = fold (claim_in_place windows) previous_windows st1
      in fst (fold (claim_by_id windows) previous_windows st2))"

definition remap_local_winlink_alert_flags ::
  "(u32 \<times> window) list \<Rightarrow> (u32 \<times> alert_flags) list \<Rightarrow> (u32 \<times> window) list \<Rightarrow> (u32 \<times> alert_flags) list
     \<Rightarrow> (u32 \<times> u32) list option \<Rightarrow> (u32 \<times> alert_flags) list" where
  "remap_local_winlink_alert_flags previous_windows previous_flags windows source_flags winlink_alert_map =
     (let indices = synchronized_indices previous_windows windows winlink_alert_map;
          remapped = bm_of_list (List.map_filter
            (\<lambda>(k, flags). map_option (\<lambda>n. (n, flags)) (map_of indices k)) previous_flags)
      in fold (\<lambda>(k, _) m. if map_of m k \<noteq> None then m
                         else bm_insert k (case map_of source_flags k of None \<Rightarrow> 0 | Some f \<Rightarrow> f) m) windows remapped)"

section \<open>Synchronizing\<close>

definition synchronize_group_windows ::
  "session \<Rightarrow> u32 \<Rightarrow> u32 option \<Rightarrow> (u32 \<times> u32) list option \<Rightarrow> session \<Rightarrow> session" where
  "synchronize_group_windows source active last_index winlink_alert_map s =
     s\<lparr>ss_windows := ss_windows source,
       ss_winlink_alert_flags := remap_local_winlink_alert_flags (ss_windows s) (ss_winlink_alert_flags s)
         (ss_windows source) (ss_winlink_alert_flags source) winlink_alert_map,
       ss_next_pane_id := ss_next_pane_id source, ss_cwd := ss_cwd source,
       ss_active_window := active, ss_last_window := last_index\<rparr>"

definition synchronize_group_from_with_optional_map ::
  "session \<Rightarrow> (u32 \<times> u32) list option \<Rightarrow> session \<Rightarrow> session option" where
  "synchronize_group_from_with_optional_map source winlink_alert_map s =
     do {
       let previous_active = ss_active_window s;
       let previous_last = ss_last_window s;
       let active_id = map_option w_id (window_at s previous_active);
       let last_id = Option.bind previous_last (\<lambda>l. map_option (\<lambda>w. (l, w_id w)) (window_at s l));
       active \<leftarrow>
         (case Option.bind active_id (\<lambda>i. window_index_for_id (ss_windows source) i previous_active) of
            Some k \<Rightarrow> Some k
          | None \<Rightarrow> synchronized_active_window (ss_windows source) previous_active previous_last);
       let last_index =
         (case keep_if (\<lambda>k. k \<noteq> active)
                 (Option.bind last_id (\<lambda>(l, i). window_index_for_id (ss_windows source) i l)) of
            Some k \<Rightarrow> Some k
          | None \<Rightarrow>
              if previous_active \<noteq> active \<and> window_at source previous_active \<noteq> None then Some previous_active else None);
       Some (synchronize_group_windows source active last_index winlink_alert_map s)
     }"

definition synchronize_group_from :: "session \<Rightarrow> session \<Rightarrow> session option" where
  "synchronize_group_from source s = synchronize_group_from_with_optional_map source None s"

definition synchronize_group_from_with_winlink_alert_map :: "session \<Rightarrow> (u32 \<times> u32) list \<Rightarrow> session \<Rightarrow> session option" where
  "synchronize_group_from_with_winlink_alert_map source winlink_alert_map s =
     synchronize_group_from_with_optional_map source (Some winlink_alert_map) s"

definition mapped_index :: "(u32 \<times> u32) list \<Rightarrow> u32 \<Rightarrow> u32" where
  "mapped_index index_map k = (case map_of index_map k of None \<Rightarrow> k | Some n \<Rightarrow> n)"

definition synchronize_group_from_with_maps ::
  "session \<Rightarrow> (u32 \<times> u32) list \<Rightarrow> (u32 \<times> u32) list \<Rightarrow> session \<Rightarrow> session option" where
  "synchronize_group_from_with_maps source window_selection_map winlink_alert_map s =
     do {
       let mapped = mapped_index window_selection_map (ss_active_window s);
       active \<leftarrow>
         (if window_at source mapped \<noteq> None then Some mapped
          else synchronized_active_window (ss_windows source) (ss_active_window s) (ss_last_window s));
       let last_index = keep_if (\<lambda>k. k \<noteq> active \<and> window_at source k \<noteq> None)
                    (map_option (mapped_index window_selection_map) (ss_last_window s));
       Some (synchronize_group_windows source active last_index (Some winlink_alert_map) s)
     }"

definition synchronize_group_from_with_window_selection_map ::
  "session \<Rightarrow> (u32 \<times> u32) list \<Rightarrow> session \<Rightarrow> session option" where
  "synchronize_group_from_with_window_selection_map source index_map s =
     synchronize_group_from_with_maps source index_map index_map s"

section \<open>Joining a group and a store\<close>

definition clone_as_group_member :: "i64 \<Rightarrow> u64 \<Rightarrow> string \<Rightarrow> string \<Rightarrow> u32 \<Rightarrow> session \<Rightarrow> session" where
  "clone_as_group_member now token name group_name session_id s =
     s\<lparr>ss_id := session_id, ss_name := name, ss_group_name := Some group_name,
       ss_group_initial_window_id := (case ss_windows s of [] \<Rightarrow> None | (_, w) # _ \<Rightarrow> Some (w_id w)),
       ss_created_at := now, ss_activity_at := now, ss_last_attached_at := None, ss_recency := token\<rparr>"

text \<open>The session shares the counter of the store from now on; \<open>peek\<close> is the number in it.\<close>

definition rebind_window_id_allocator :: "u32 \<Rightarrow> session \<Rightarrow> session" where
  "rebind_window_id_allocator peek s =
     (let next_after_windows =
        (case map (\<lambda>(_, w). u32_sat_add (w_id w) 1) (ss_windows s) of [] \<Rightarrow> peek | n # ns \<Rightarrow> fold max ns n)
      in s\<lparr>ss_next_window_id := bump_to next_after_windows peek\<rparr>)"

end
