(* ===== verification/Session_Group_Inv.thy ===== *)
theory Session_Group_Inv
  imports Session_Group Session_Moves_Inv
begin

text \<open>
  Group synchronization keeps the invariant of sessions, and windows keep their identity through it: the
  current window and the alert flags of a session follow its windows to their new indexes.
\<close>

section \<open>The claims on indexes\<close>

text \<open>
  A previous index is mapped to an index of the new windows with the same window id; an index is claimed by
  one window only, and only by a window of its id.
\<close>

definition same_id :: "(u32 \<times> window) list \<Rightarrow> (u32 \<times> window) list \<Rightarrow> u32 \<Rightarrow> u32 \<Rightarrow> bool" where
  "same_id previous windows k n \<longleftrightarrow> (\<exists>w w'. map_of previous k = Some w \<and> map_of windows n = Some w' \<and> w_id w = w_id w')"

definition claims_ok :: "(u32 \<times> window) list \<Rightarrow> (u32 \<times> window) list \<Rightarrow> claims \<Rightarrow> bool" where
  "claims_ok previous windows st \<longleftrightarrow> bm_sorted (fst st)
     \<and> (\<forall>k n. map_of (fst st) k = Some n \<longrightarrow> same_id previous windows k n \<and> n \<in> set (snd st))
     \<and> (\<forall>k k' n. map_of (fst st) k = Some n \<longrightarrow> map_of (fst st) k' = Some n \<longrightarrow> k = k')
     \<and> (\<forall>n \<in> set (snd st). \<exists>k. same_id previous windows k n \<and> map_of (fst st) k \<noteq> None)"

lemma claim_ok: "claims_ok previous windows st \<Longrightarrow> same_id previous windows k n \<Longrightarrow> claims_ok previous windows (claim k n st)"
proof (cases "n \<in> set (snd st)")
  case False
  assume ok: "claims_ok previous windows st" and same: "same_id previous windows k n"
  have kept: "map_of (fst st) j \<noteq> None \<Longrightarrow> map_of (fst (claim k n st)) j \<noteq> None" for j
    using False ok by (auto simp: claim_def map_of_bm_insert claims_ok_def)
  have new: "map_of (fst (claim k n st)) k \<noteq> None" using False ok by (simp add: claim_def map_of_bm_insert claims_ok_def)
  have "\<forall>j \<in> set (snd (claim k n st)). \<exists>k'. same_id previous windows k' j \<and> map_of (fst (claim k n st)) k' \<noteq> None"
  proof
    fix j assume "j \<in> set (snd (claim k n st))"
    then consider "j = n" | "j \<in> set (snd st)" using False by (auto simp: claim_def)
    then show "\<exists>k'. same_id previous windows k' j \<and> map_of (fst (claim k n st)) k' \<noteq> None"
    proof cases
      case 2
      then obtain k' where "same_id previous windows k' j" "map_of (fst st) k' \<noteq> None" using ok unfolding claims_ok_def by blast
      then show ?thesis using kept by blast
    qed (use same new in blast)
  qed
  then show ?thesis using ok same False
    by (auto simp: claims_ok_def claim_def map_of_bm_insert bm_sorted_insert simp del: not_None_eq split: if_splits)
qed (simp add: claim_def)

lemma claim_step_ok:
  assumes "claims_ok previous windows st" and "map_of previous k = Some w" and "bm_sorted windows"
  shows "claims_ok previous windows (claim_listed m windows (k, w) st)" "claims_ok previous windows (claim_in_place windows (k, w) st)"
    "claims_ok previous windows (claim_by_id windows (k, w) st)"
proof -
  have at: "same_id previous windows k n" if "has_id_at windows n (w_id w)" for n
    using that assms(2) by (auto simp: has_id_at_def same_id_def split: option.splits)
  show "claims_ok previous windows (claim_listed m windows (k, w) st)" "claims_ok previous windows (claim_in_place windows (k, w) st)"
    using assms(1) claim_ok [OF assms(1) at] by (auto simp: claim_listed_def claim_in_place_def split: option.splits)
  have "same_id previous windows k n" if "List.find P windows = Some (n, w')" "\<And>n w'. P (n, w') \<Longrightarrow> w_id w' = w_id w" for P n w'
  proof -
    have "(n, w') \<in> set windows" "P (n, w')" using that(1) by (auto simp: find_Some_iff in_set_conv_nth)
    then show ?thesis using that(2) assms(2,3) bm_member [of windows n w'] by (auto simp: same_id_def)
  qed
  then show "claims_ok previous windows (claim_by_id windows (k, w) st)"
    using assms(1) by (auto simp: claim_by_id_def split: option.splits intro!: claim_ok)
qed

lemma claim_fold_ok:
  assumes "\<And>k w st. claims_ok previous windows st \<Longrightarrow> map_of previous k = Some w \<Longrightarrow> claims_ok previous windows (f (k, w) st)"
    and "bm_sorted previous" and "set xs \<subseteq> set previous" and "claims_ok previous windows st"
  shows "claims_ok previous windows (fold f xs st)"
  using assms(3,4)
proof (induction xs arbitrary: st)
  case (Cons x xs)
  obtain k w where "x = (k, w)" by (cases x)
  then show ?case using Cons assms(1) bm_member [OF assms(2), of k w] by simp
qed simp

lemma claim_folds_ok:
  assumes "bm_sorted previous" and "bm_sorted windows" and "set xs \<subseteq> set previous" and "claims_ok previous windows st"
  shows "claims_ok previous windows (fold (claim_listed m windows) xs st)" "claims_ok previous windows (fold (claim_in_place windows) xs st)"
    "claims_ok previous windows (fold (claim_by_id windows) xs st)"
  by (rule claim_fold_ok [OF _ assms(1,3,4)]; rule claim_step_ok [OF _ _ assms(2)]; assumption)+

definition last_claims :: "(u32 \<times> window) list \<Rightarrow> (u32 \<times> window) list \<Rightarrow> (u32 \<times> u32) list option \<Rightarrow> claims" where
  "last_claims previous windows m = fold (claim_in_place windows) previous
     (case m of None \<Rightarrow> ([], []) | Some m \<Rightarrow> fold (claim_listed m windows) previous ([], []))"

lemma indices_last: "synchronized_indices previous windows m = fst (fold (claim_by_id windows) previous (last_claims previous windows m))"
  by (simp add: synchronized_indices_def last_claims_def Let_def)

lemma last_claims_ok:
  assumes "bm_sorted previous" and "bm_sorted windows"
  shows "claims_ok previous windows (last_claims previous windows m)"
proof -
  have start: "claims_ok previous windows ([], [])" by (simp add: claims_ok_def)
  have "claims_ok previous windows (case m of None \<Rightarrow> ([], []) | Some m \<Rightarrow> fold (claim_listed m windows) previous ([], []))"
    using start claim_folds_ok(1) [OF assms subset_refl start] by (auto split: option.split)
  then show ?thesis unfolding last_claims_def by (rule claim_folds_ok(2) [OF assms subset_refl])
qed

lemma indices_ok:
  assumes "bm_sorted previous" and "bm_sorted windows"
  shows "\<exists>claimed. claims_ok previous windows (synchronized_indices previous windows m, claimed)"
  unfolding indices_last
  using claim_folds_ok(3) [OF assms subset_refl last_claims_ok [OF assms, of m]] by (metis prod.collapse)

text \<open>When window ids are not shared within a session, every window that is still there is found again.\<close>

definition distinct_ids :: "(u32 \<times> window) list \<Rightarrow> bool" where
  "distinct_ids m \<longleftrightarrow> distinct (map (\<lambda>(_, w). w_id w) m)"

lemma distinct_idsD:
  assumes "distinct_ids m" "map_of m k = Some w" "map_of m k' = Some w'" "w_id w = w_id w'"
  shows "k = k'"
proof -
  have "(k, w) \<in> set m" "(k', w') \<in> set m" using assms(2,3) by (auto dest: map_of_SomeD)
  then show ?thesis using assms(1,4) unfolding distinct_ids_def distinct_map inj_on_def by fastforce
qed

lemma claim_by_id_keeps: "map_of (fst st) k = Some n \<Longrightarrow> bm_sorted (fst st) \<Longrightarrow> map_of (fst (claim_by_id windows x st)) k = Some n"
  by (cases x) (auto simp: claim_by_id_def claim_def map_of_bm_insert split: option.splits prod.splits)

lemma claim_by_id_finds:
  assumes ok: "claims_ok previous windows st" and same: "same_id previous windows k n" and w: "map_of previous k = Some w"
    and ids: "distinct_ids previous"
  shows "map_of (fst (claim_by_id windows (k, w) st)) k \<noteq> None"
proof (cases "map_of (fst st) k")
  case None
  have "n \<notin> set (snd st)"
  proof
    assume "n \<in> set (snd st)"
    then obtain k' where "same_id previous windows k' n" "map_of (fst st) k' \<noteq> None" using ok by (auto simp: claims_ok_def)
    moreover from this(1) same have "k' = k" using ids by (auto simp: same_id_def intro: distinct_idsD [OF ids])
    ultimately show False using None by simp
  qed
  then obtain w' where w': "(n, w') \<in> set windows" "w_id w' = w_id w \<and> n \<notin> set (snd st)"
    using same w by (auto simp: same_id_def dest: map_of_SomeD)
  then obtain n' w'' where f: "List.find (\<lambda>(n, w'). w_id w' = w_id w \<and> n \<notin> set (snd st)) windows = Some (n', w'')"
    by (cases "List.find (\<lambda>(n, w'). w_id w' = w_id w \<and> n \<notin> set (snd st)) windows") (auto simp: find_None_iff)
  then have "n' \<notin> set (snd st)" by (auto simp: find_Some_iff)
  then show ?thesis using ok None f by (simp add: claim_by_id_def claim_def map_of_bm_insert claims_ok_def)
qed (simp add: claim_by_id_def)

lemma indices_find:
  assumes prev: "bm_sorted previous" and win: "bm_sorted windows" and ids: "distinct_ids previous" "distinct_ids windows"
    and same: "same_id previous windows k n"
  shows "map_of (synchronized_indices previous windows m) k = Some n"
proof -
  obtain w where w: "map_of previous k = Some w" using same by (auto simp: same_id_def)
  then obtain xs ys where xs: "previous = xs @ (k, w) # ys" using map_of_SomeD split_list by metis
  define st where "st = fold (claim_by_id windows) xs (last_claims previous windows m)"
  have "claims_ok previous windows st"
    unfolding st_def by (rule claim_folds_ok(3) [OF prev win _ last_claims_ok [OF prev win]]) (auto simp: xs)
  then have found: "map_of (fst (claim_by_id windows (k, w) st)) k \<noteq> None" and ok: "claims_ok previous windows (claim_by_id windows (k, w) st)"
    using claim_by_id_finds [OF _ same w ids(1)] claim_step_ok(3) [OF _ w win] by blast+
  have keeps: "map_of (fst (fold (claim_by_id windows) zs st')) k \<noteq> None"
    if "map_of (fst st') k \<noteq> None" "claims_ok previous windows st'" "set zs \<subseteq> set previous" for zs st'
    using that
  proof (induction zs arbitrary: st')
    case (Cons z zs)
    obtain j v where z: "z = (j, v)" by (cases z)
    then have "map_of previous j = Some v" using Cons.prems(3) bm_member [OF prev] by auto
    note ok = claim_step_ok(3) [OF Cons.prems(2) this win]
    obtain n' where "map_of (fst st') k = Some n'" using Cons.prems(1) by blast
    from claim_by_id_keeps [OF this, of windows z] Cons.prems(2)
    have "map_of (fst (claim_by_id windows z st')) k \<noteq> None" by (simp add: claims_ok_def)
    from Cons.IH [OF this] ok Cons.prems(3) show ?case by (simp add: z)
  qed simp
  have "set ys \<subseteq> set previous" by (auto simp: xs)
  from keeps [OF found ok this] have "map_of (synchronized_indices previous windows m) k \<noteq> None"
    unfolding indices_last by (simp add: st_def xs)
  then obtain n' where n': "map_of (synchronized_indices previous windows m) k = Some n'" by blast
  then have "same_id previous windows k n'" using indices_ok [OF prev win, of m] by (auto simp: claims_ok_def)
  then have "n' = n" using same ids(2) by (auto simp: same_id_def intro: distinct_idsD [OF ids(2)])
  then show ?thesis using n' by simp
qed

section \<open>Alert flags\<close>

lemma fold_or_insert:
  assumes "bm_sorted m"
  shows "bm_sorted (fold (\<lambda>(k, _) m. if map_of m k \<noteq> None then m else bm_insert k (f k) m) windows m)
    \<and> map_of (fold (\<lambda>(k, _) m. if map_of m k \<noteq> None then m else bm_insert k (f k) m) windows m) j
      = (case map_of m j of Some v \<Rightarrow> Some v | None \<Rightarrow> if j \<in> fst ` set windows then Some (f j) else None)"
  using assms
proof (induction windows arbitrary: m)
  case Nil
  then show ?case by (simp split: option.split)
next
  case (Cons x windows)
  obtain k w where x: "x = (k, w)" by (cases x)
  show ?case
  proof (cases "map_of m k")
    case None
    then show ?thesis using Cons.IH [of "bm_insert k (f k) m"] Cons.prems
      by (auto simp: x bm_sorted_insert map_of_bm_insert split: option.splits)
  next
    case (Some v)
    then show ?thesis using Cons.IH [of m] Cons.prems by (auto simp: x split: option.splits)
  qed
qed

lemma map_of_bm_of_list: "distinct (map fst xs) \<Longrightarrow> map_of (bm_of_list xs) k = map_of xs k"
proof -
  have "bm_sorted m \<Longrightarrow> distinct (map fst xs) \<Longrightarrow>
      map_of (fold (\<lambda>(k, v) m. bm_insert k v m) xs m) k = (case map_of xs k of Some v \<Rightarrow> Some v | None \<Rightarrow> map_of m k)" for m
  proof (induction xs arbitrary: m)
    case (Cons x xs)
    obtain a v where x: "x = (a, v)" by (cases x)
    have "map_of xs a = None" using Cons.prems(2) by (simp add: x map_of_eq_None_iff image_iff)
    then show ?case using Cons.IH [OF bm_sorted_insert [OF Cons.prems(1)], of a v] Cons.prems
      by (auto simp: x map_of_bm_insert split: option.splits)
  qed simp
  then show "distinct (map fst xs) \<Longrightarrow> ?thesis" by (simp add: bm_of_list_def split: option.split)
qed

text \<open>The flags of a previous index arrive at the index it is mapped to.\<close>

lemma moved_flags:
  assumes "bm_sorted flags" and inj: "\<And>k k' n. map_of ix k = Some n \<Longrightarrow> map_of ix k' = Some n \<Longrightarrow> k = k'"
  shows "map_of (bm_of_list (List.map_filter (\<lambda>(k, f). map_option (\<lambda>n. (n, f)) (map_of ix k)) flags)) n = Some f
    \<longleftrightarrow> (\<exists>k. map_of ix k = Some n \<and> map_of flags k = Some f)"
proof -
  let ?xs = "List.map_filter (\<lambda>(k, f). map_option (\<lambda>n. (n, f)) (map_of ix k)) flags"
  have mem: "(n, f) \<in> set ?xs \<longleftrightarrow> (\<exists>k. map_of ix k = Some n \<and> map_of flags k = Some f)" for n f
    using bm_member [OF assms(1)] by (force simp: map_filter_def)
  have "distinct (map fst ?xs)"
    using bm_sorted_distinct [OF assms(1)]
  proof (induction flags)
    case (Cons x flags)
    obtain k f where x: "x = (k, f)" by (cases x)
    show ?case
    proof (cases "map_of ix k")
      case (Some n)
      have "n \<notin> fst ` set (List.map_filter (\<lambda>(k, f). map_option (\<lambda>n. (n, f)) (map_of ix k)) flags)"
        using Cons.prems inj [OF Some] by (force simp: x map_filter_def)
      then show ?thesis using Cons Some by (simp add: x map_filter_simps)
    qed (use Cons in \<open>simp add: x map_filter_simps\<close>)
  qed (simp add: map_filter_simps)
  then show ?thesis using mem map_of_bm_of_list [of ?xs n] map_of_eq_Some_iff [of ?xs n f] by simp
qed

lemma remap_flags:
  assumes prev: "bm_sorted previous" and win: "bm_sorted windows" and flags: "bm_sorted flags"
  shows "bm_sorted (remap_local_winlink_alert_flags previous flags windows source_flags m)"
    and "map_of (remap_local_winlink_alert_flags previous flags windows source_flags m) n = None \<longleftrightarrow> map_of windows n = None"
    and "distinct_ids previous \<Longrightarrow> distinct_ids windows \<Longrightarrow> same_id previous windows k n \<Longrightarrow> map_of flags k = Some f \<Longrightarrow>
      map_of (remap_local_winlink_alert_flags previous flags windows source_flags m) n = Some f"
proof -
  let ?ix = "synchronized_indices previous windows m"
  let ?moved = "bm_of_list (List.map_filter (\<lambda>(k, f). map_option (\<lambda>n. (n, f)) (map_of ?ix k)) flags)"
  let ?f = "\<lambda>k. case map_of source_flags k of None \<Rightarrow> 0 | Some f \<Rightarrow> f"
  have eq: "remap_local_winlink_alert_flags previous flags windows source_flags m
      = fold (\<lambda>(k, _) m. if map_of m k \<noteq> None then m else bm_insert k (?f k) m) windows ?moved"
    by (simp add: remap_local_winlink_alert_flags_def Let_def)
  obtain claimed where ok: "claims_ok previous windows (?ix, claimed)" using indices_ok [OF prev win] by blast
  then have inj: "map_of ?ix k = Some n \<Longrightarrow> map_of ?ix k' = Some n \<Longrightarrow> k = k'"
    and sound: "map_of ?ix k = Some n \<Longrightarrow> map_of windows n \<noteq> None" for k k' n
    by (auto simp: claims_ok_def same_id_def)
  have moved: "map_of ?moved n = Some f \<longleftrightarrow> (\<exists>k. map_of ?ix k = Some n \<and> map_of flags k = Some f)" for n f
    by (rule moved_flags [OF flags]) (rule inj)
  note res = fold_or_insert [OF bm_of_list_map(1), of ?f windows _ n]
  show "bm_sorted (remap_local_winlink_alert_flags previous flags windows source_flags m)" using res unfolding eq by blast
  have "map_of ?moved n = Some f \<Longrightarrow> map_of windows n \<noteq> None" for f using moved sound by blast
  then show "map_of (remap_local_winlink_alert_flags previous flags windows source_flags m) n = None \<longleftrightarrow> map_of windows n = None"
    using res unfolding eq by (auto simp: map_of_eq_None_iff split: option.splits)
  assume "distinct_ids previous" "distinct_ids windows" "same_id previous windows k n" "map_of flags k = Some f"
  then have "map_of ?moved n = Some f" using indices_find [OF prev win] moved by blast
  then show "map_of (remap_local_winlink_alert_flags previous flags windows source_flags m) n = Some f"
    using res unfolding eq by simp
qed

section \<open>Synchronizing\<close>

lemma window_index_for_id_at:
  assumes "bm_sorted windows" and "window_index_for_id windows i k = Some n"
  shows "has_id_at windows n i"
proof (cases "has_id_at windows k i")
  case False
  then obtain w where "filter (\<lambda>(_, w). w_id w = i) windows = [(n, w)]"
    using assms(2) by (auto simp: window_index_for_id_def split: list.splits)
  then have "(n, w) \<in> set (filter (\<lambda>(_, w). w_id w = i) windows)" by simp
  then have "(n, w) \<in> set windows" "w_id w = i" by auto
  then show ?thesis using bm_member [OF assms(1)] by (simp add: has_id_at_def)
qed (use assms(2) in \<open>simp add: window_index_for_id_def\<close>)

lemma window_index_for_id_unique:
  assumes "bm_sorted windows" and "distinct_ids windows" and "has_id_at windows n i"
  shows "window_index_for_id windows i k = Some n"
proof -
  obtain w where w: "(n, w) \<in> set windows" "w_id w = i" using assms(3) by (auto simp: has_id_at_def dest: map_of_SomeD split: option.splits)
  have "filter (\<lambda>(_, w). w_id w = i) windows = [(n, w)]"
    using w assms(2) unfolding distinct_ids_def
  proof (induction windows)
    case (Cons x windows)
    then show ?case by (cases x) (force simp: filter_empty_conv image_iff)
  qed simp
  moreover have "n = k" if "has_id_at windows k i"
    using that assms(3) distinct_idsD [OF assms(2)] by (auto simp: has_id_at_def split: option.splits)
  ultimately show ?thesis by (auto simp: window_index_for_id_def)
qed

lemma synchronized_active_Some:
  assumes "windows \<noteq> []"
  shows "returns (synchronized_active_window windows k l) (\<lambda>a. map_of windows a \<noteq> None)"
proof (cases "map_of windows k")
  case None
  obtain j where j: "j \<in> fst ` set windows" using assms by (cases windows) auto
  then have "j \<noteq> k" using None by (auto simp: map_of_eq_None_iff)
  from cyclic_previous_Some [OF j this] obtain a where "cyclic_previous_window_index windows k = Some a" "map_of windows a \<noteq> None"
    by (metis map_of_eq_None_iff)
  then show ?thesis using None
    by (auto simp: synchronized_active_window_def keep_if_def simp del: not_None_eq split: option.split)
qed (simp add: synchronized_active_window_def)

text \<open>What every way of synchronizing does: the windows are those of the source and the flags follow the window ids.\<close>

definition synchronized :: "session \<Rightarrow> session \<Rightarrow> session \<Rightarrow> bool" where
  "synchronized source s s' \<longleftrightarrow> session_inv s' \<and> ss_windows s' = ss_windows source \<and> ss_next_pane_id s' = ss_next_pane_id source
     \<and> ss_name s' = ss_name s
     \<and> (distinct_ids (ss_windows s) \<longrightarrow> distinct_ids (ss_windows source) \<longrightarrow>
          (\<forall>k n. same_id (ss_windows s) (ss_windows source) k n \<longrightarrow>
             map_of (ss_winlink_alert_flags s') n = map_of (ss_winlink_alert_flags s) k))"

lemma synchronize_windows:
  assumes inv: "session_inv s" and src: "session_inv source"
    and cur: "window_at source a \<noteq> None" "pred_option (\<lambda>l. window_at source l \<noteq> None) l"
  shows "synchronized source s (synchronize_group_windows source a l m s)"
proof -
  note inv' = session_invD [OF inv] and src' = session_invD [OF src]
  note flags = remap_flags [OF inv'(3) src'(3) inv'(4)]
  let ?s = "synchronize_group_windows source a l m s"
  have at: "window_at ?s k = window_at source k" for k by (simp add: synchronize_group_windows_def window_at_def)
  have "windows_inv ?s" using src'(1) flags(1,2) unfolding windows_inv_def at
    by (simp add: synchronize_group_windows_def window_at_def)
  moreover have "current_inv ?s" using cur unfolding current_inv_def at by (simp add: synchronize_group_windows_def)
  moreover have "map_of (ss_winlink_alert_flags ?s) n = map_of (ss_winlink_alert_flags s) k"
    if "distinct_ids (ss_windows s)" "distinct_ids (ss_windows source)" "same_id (ss_windows s) (ss_windows source) k n" for k n
  proof -
    have "window_at s k \<noteq> None" using that(3) by (auto simp: same_id_def window_at_def)
    then obtain f where "map_of (ss_winlink_alert_flags s) k = Some f" using inv'(1) unfolding windows_inv_def by (metis not_None_eq)
    then show ?thesis using flags(3) [OF that] by (simp add: synchronize_group_windows_def)
  qed
  ultimately show ?thesis by (simp add: synchronized_def session_inv_def synchronize_group_windows_def)
qed

lemma has_id_at_window: "has_id_at (ss_windows s) k i \<Longrightarrow> window_at s k \<noteq> None"
  by (auto simp: has_id_at_def window_at_def split: option.splits)

lemma windows_nonempty: "session_inv s \<Longrightarrow> ss_windows s \<noteq> []"
  using session_invD(5) [of s] by (auto simp: window_at_def)

lemma synchronize_optional:
  assumes inv: "session_inv s" and src: "session_inv source"
  shows "returns (synchronize_group_from_with_optional_map source m s) (\<lambda>s'. synchronized source s s'
    \<and> (distinct_ids (ss_windows source) \<longrightarrow> (\<forall>n. same_id (ss_windows s) (ss_windows source) (ss_active_window s) n \<longrightarrow> ss_active_window s' = n)))"
proof -
  note found = window_index_for_id_at [OF session_invD(3) [OF src], THEN has_id_at_window]
  obtain w where w: "window_at s (ss_active_window s) = Some w" using session_invD(5) [OF inv] by blast
  obtain a where a: "synchronized_active_window (ss_windows source) (ss_active_window s) (ss_last_window s) = Some a" "window_at source a \<noteq> None"
    using synchronized_active_Some [OF windows_nonempty [OF src], of "ss_active_window s" "ss_last_window s"]
    by (auto simp: window_at_def elim!: returnsE simp del: not_None_eq)
  let ?idx = "window_index_for_id (ss_windows source) (w_id w) (ss_active_window s)"
  define b where "b = (case ?idx of Some k \<Rightarrow> k | None \<Rightarrow> a)"
  have b: "window_at source b \<noteq> None" using found a by (auto simp: b_def split: option.split)
  define l where "l = (case keep_if (\<lambda>k. k \<noteq> b) (Option.bind (Option.bind (ss_last_window s) (\<lambda>l. map_option (\<lambda>w. (l, w_id w)) (window_at s l)))
      (\<lambda>(l, i). window_index_for_id (ss_windows source) i l)) of
    Some k \<Rightarrow> Some k | None \<Rightarrow> if ss_active_window s \<noteq> b \<and> window_at source (ss_active_window s) \<noteq> None then Some (ss_active_window s) else None)"
  have l: "pred_option (\<lambda>l. window_at source l \<noteq> None) l" using found
    by (auto simp: l_def keep_if_def bind_eq_Some_conv split: option.splits if_splits)
  have "synchronize_group_from_with_optional_map source m s = Some (synchronize_group_windows source b l m s)"
  proof -
    have "(case Option.bind (Some (w_id w)) (\<lambda>i. window_index_for_id (ss_windows source) i (ss_active_window s)) of Some k \<Rightarrow> Some k
        | None \<Rightarrow> synchronized_active_window (ss_windows source) (ss_active_window s) (ss_last_window s)) = Some b"
      by (simp add: b_def a(1) split: option.split)
    then show ?thesis
      unfolding synchronize_group_from_with_optional_map_def Let_def w option.map(2) by (simp only: bind.bind_lunit l_def)
  qed
  moreover have "b = n" if "distinct_ids (ss_windows source)" "same_id (ss_windows s) (ss_windows source) (ss_active_window s) n" for n
  proof -
    have "has_id_at (ss_windows source) n (w_id w)" using that(2) w by (auto simp: same_id_def has_id_at_def window_at_def)
    from window_index_for_id_unique [OF session_invD(3) [OF src] that(1) this] show ?thesis by (simp add: b_def)
  qed
  ultimately show ?thesis using synchronize_windows [OF inv src b l, of m] by (simp add: synchronize_group_windows_def)
qed

lemma synchronize_maps:
  assumes inv: "session_inv s" and src: "session_inv source"
  shows "returns (synchronize_group_from_with_maps source wm m s) (synchronized source s)"
proof -
  let ?mapped = "mapped_index wm (ss_active_window s)"
  obtain a where a: "(if window_at source ?mapped \<noteq> None then Some ?mapped
      else synchronized_active_window (ss_windows source) (ss_active_window s) (ss_last_window s)) = Some a" "window_at source a \<noteq> None"
    using synchronized_active_Some [OF windows_nonempty [OF src], of "ss_active_window s" "ss_last_window s"]
    by (cases "window_at source ?mapped = None") (auto simp: window_at_def elim!: returnsE simp del: not_None_eq)
  have l: "pred_option (\<lambda>l. window_at source l \<noteq> None) (keep_if (\<lambda>k. k \<noteq> a \<and> window_at source k \<noteq> None) x)" for x
    by (cases x) (simp_all add: keep_if_def)
  show ?thesis using synchronize_windows [OF inv src a(2) l]
    unfolding synchronize_group_from_with_maps_def Let_def a(1) by (simp del: not_None_eq)
qed

section \<open>Joining a group and a store\<close>

lemma member_ops_inv:
  assumes "session_inv s"
  shows "session_inv (clone_as_group_member now token name g i s)" "session_inv (rebind_window_id_allocator peek s)"
    "session_inv (session_rename name s)" "session_inv (set_group_name gn s)" "session_inv (set_cwd c s)" "session_inv (set_id i s)"
    "session_inv (touch_attached now token s)" "session_inv (touch_activity now token s)" "session_inv (renew_recency token s)"
  using assms by (simp_all add: session_inv_def windows_inv_def current_inv_def window_at_def clone_as_group_member_def
      rebind_window_id_allocator_def Let_def session_rename_def set_group_name_def set_cwd_def set_id_def touch_attached_def
      touch_activity_def renew_recency_def)

end
