(* ===== verification/Session_Machine.thy ===== *)
theory Session_Machine
  imports Session_Transfers_Inv Session_Group_Inv
begin

text \<open>
  A session as a state machine: an event for every operation of \<open>Session\<close> that changes one session (the
  operations with default arguments are instances of them), the condition under which the code calls the
  operation, and the sessions that can be reached. The transfers of panes between two sessions are no
  events; a window they put into a session is one that \<open>InsertExistingWindow\<close> and
  \<open>ReplaceWindow\<close> may put there.
\<close>

section \<open>Events\<close>

datatype (plugins only: code) session_event =
    CreateWindow terminal_size u32
  | CreateWindowWithPane terminal_size u32 u32
  | InsertWindow u32 terminal_size
  | InsertWindowWithPane u32 terminal_size u32
  | InsertExistingWindow u32 window
  | ReplaceWindow u32 window
  | LinkWindow u32 window bool bool
  | RemoveWindow u32
  | RemoveWindowAllowingEmpty u32
  | RenameWindow u32 string
  | SetAutomaticName u32 string
  | RotateWindow u32 rotate_direction bool
  | ResizeWindow u32 terminal_size
  | RespawnWindow u32
  | RespawnWindowWithPane u32 u32
  | MoveWindow u32 u32 bool bool
  | SwapWindows u32 u32
  | MakeRoom u32
  | ReindexFrom u32
  | SelectWindow u32
  | NextWindow bool
  | PreviousWindow bool
  | LastWindow
  | RestoreLastWindow
  | AddFlags u32 alert_flags
  | ClearFlags u32 alert_flags
  | SplitPane u32 u32 u32 split_direction bool bool
  | SplitBefore u32 u32 split_direction bool
  | SplitActive split_direction
  | SplitFullSize u32 u32 u32 split_direction bool bool
  | KillPane u32 u32
  | KillOtherPanes u32 u32
  | SelectPane u32 u32 bool
  | LastPane u32 bool
  | SelectAdjacent u32 u32 select_direction bool
  | ResizeTerminal terminal_size
  | SetTerminalSize terminal_size
  | ResizeActive terminal_size terminal_size
  | ToggleZoom u32 u32
  | ResizePane u32 u32 resize_adjustment
  | ResizePaneTo u32 u32 split_direction u32
  | ResizeNewSplit u32 u32 split_direction u32 bool
  | SelectLayout u32 layout_name "u16 option" "u16 option"
  | SelectCustomLayout u32 string
  | ReapplyOldLayout u32
  | SaveOldLayout u32
  | SpreadLayout u32
  | NextLayout u32 "u16 option" "u16 option"
  | PreviousLayout u32 "u16 option" "u16 option"
  | SwapPanes session_pane_target session_pane_target pane_swap_options
  | JoinPane session_pane_target session_pane_target pane_join_options
  | BreakPane session_pane_target break_pane_options
  | SynchronizeGroup session "(u32 \<times> u32) list option"
  | SynchronizeGroupMapped session "(u32 \<times> u32) list" "(u32 \<times> u32) list"
  | CloneAsGroupMember u64 string string u32
  | RebindWindowIds u32
  | SetName string
  | SetGroupName "string option"
  | SetCwd "string option"
  | SetId u32
  | TouchAttached u64
  | TouchActivity u64
  | RenewRecency u64

abbreviation new_state :: "'a session_result \<Rightarrow> session option" where
  "new_state r \<equiv> map_option fst r"

primrec session_run :: "i64 \<Rightarrow> session \<Rightarrow> session_event \<Rightarrow> session option" where
  "session_run now s (CreateWindow sz n) = new_state (create_window_at_or_above now sz n s)"
| "session_run now s (CreateWindowWithPane sz n i) = new_state (create_window_at_or_above_with_pane_id now sz n i s)"
| "session_run now s (InsertWindow k sz) = new_state (insert_window_with_initial_pane now k sz s)"
| "session_run now s (InsertWindowWithPane k sz i) = new_state (insert_window_with_initial_pane_with_id now k sz i s)"
| "session_run now s (InsertExistingWindow k w) = Some (fst (insert_existing_window k w s))"
| "session_run now s (ReplaceWindow k w) = Some (fst (replace_window k w s))"
| "session_run now s (LinkWindow k w kill sel) = Some (fst (link_window k w kill sel s))"
| "session_run now s (RemoveWindow k) = new_state (remove_window k s)"
| "session_run now s (RemoveWindowAllowingEmpty k) = new_state (remove_window_allowing_empty k s)"
| "session_run now s (RenameWindow k n) = new_state (rename_window k n s)"
| "session_run now s (SetAutomaticName k n) = new_state (set_automatic_window_name k n s)"
| "session_run now s (RotateWindow k d z) = new_state (rotate_window_with_zoom now k d z s)"
| "session_run now s (ResizeWindow k sz) = new_state (resize_window k sz s)"
| "session_run now s (RespawnWindow k) = new_state (respawn_window now k s)"
| "session_run now s (RespawnWindowWithPane k i) = new_state (respawn_window_with_pane_id now k i s)"
| "session_run now s (MoveWindow i j kill sel) = new_state (move_window i j kill sel s)"
| "session_run now s (SwapWindows i j) = Some (fst (swap_windows i j s))"
| "session_run now s (MakeRoom k) = new_state (make_room_for_window k s)"
| "session_run now s (ReindexFrom n) = new_state (reindex_windows_from n s)"
| "session_run now s (SelectWindow k) = Some (fst (select_window k s))"
| "session_run now s (NextWindow a) = Some (fst (next_window_alert_mode a s))"
| "session_run now s (PreviousWindow a) = Some (fst (previous_window_alert_mode a s))"
| "session_run now s LastWindow = Some (fst (last_window s))"
| "session_run now s RestoreLastWindow = Some (restore_last_window_after_active_unlink s)"
| "session_run now s (AddFlags k f) = Some (fst (add_winlink_alert_flags k f s))"
| "session_run now s (ClearFlags k f) = Some (fst (clear_winlink_alert_flags k f s))"
| "session_run now s (SplitPane k p i d ahead det) = new_state (split_pane_in_window_detached now k p i d ahead det s)"
| "session_run now s (SplitBefore k p d ahead) = new_state (split_pane_in_window_before now k p d ahead s)"
| "session_run now s (SplitActive d) = new_state (split_active_pane_with_direction now d s)"
| "session_run now s (SplitFullSize k p i d ahead det) = new_state (split_pane_full_size_detached now k p i d ahead det s)"
| "session_run now s (KillPane k p) = new_state (kill_pane_in_window k p s)"
| "session_run now s (KillOtherPanes k p) = new_state (kill_other_panes_in_window now k p s)"
| "session_run now s (SelectPane k p z) = new_state (select_pane_in_window_with_zoom now k p z s)"
| "session_run now s (LastPane k z) = new_state (last_pane_in_window_with_zoom now k z s)"
| "session_run now s (SelectAdjacent k p d z) = new_state (select_adjacent_pane_in_window_with_zoom now k p d z s)"
| "session_run now s (ResizeTerminal sz) = resize_terminal sz s"
| "session_run now s (SetTerminalSize sz) = Some (set_terminal_size sz s)"
| "session_run now s (ResizeActive tsz csz) = resize_active_window_geometry tsz csz s"
| "session_run now s (ToggleZoom k p) = new_state (toggle_zoom_in_window now k p s)"
| "session_run now s (ResizePane k p adj) = new_state (resize_pane_in_window now k p adj s)"
| "session_run now s (ResizePaneTo k p d n) = new_state (resize_pane_to_in_window k p d n s)"
| "session_run now s (ResizeNewSplit k p d n b) = new_state (resize_new_split_pane_to_in_window k p d n b s)"
| "session_run now s (SelectLayout k l mw mh) = new_state (select_layout_in_window_with_main_pane_size k l mw mh s)"
| "session_run now s (SelectCustomLayout k str) = new_state (select_custom_layout_in_window k str s)"
| "session_run now s (ReapplyOldLayout k) = new_state (reapply_old_layout_in_window k s)"
| "session_run now s (SaveOldLayout k) = new_state (save_old_layout_in_window k s)"
| "session_run now s (SpreadLayout k) = new_state (spread_layout_in_window k s)"
| "session_run now s (NextLayout k mw mh) = new_state (next_layout_in_window_with_main_pane_size k mw mh s)"
| "session_run now s (PreviousLayout k mw mh) = new_state (previous_layout_in_window_with_main_pane_size k mw mh s)"
| "session_run now s (SwapPanes src tgt opts) = new_state (session_swap_panes now src tgt opts s)"
| "session_run now s (JoinPane src tgt opts) = new_state (join_pane now src tgt opts s)"
| "session_run now s (BreakPane src opts) = new_state (break_pane now src opts s)"
| "session_run now s (SynchronizeGroup source m) = synchronize_group_from_with_optional_map source m s"
| "session_run now s (SynchronizeGroupMapped source wm m) = synchronize_group_from_with_maps source wm m s"
| "session_run now s (CloneAsGroupMember token name g i) = Some (clone_as_group_member now token name g i s)"
| "session_run now s (RebindWindowIds peek) = Some (rebind_window_id_allocator peek s)"
| "session_run now s (SetName name) = Some (session_rename name s)"
| "session_run now s (SetGroupName g) = Some (set_group_name g s)"
| "session_run now s (SetCwd c) = Some (set_cwd c s)"
| "session_run now s (SetId i) = Some (set_id i s)"
| "session_run now s (TouchAttached token) = Some (touch_attached now token s)"
| "session_run now s (TouchActivity token) = Some (touch_activity now token s)"
| "session_run now s (RenewRecency token) = Some (renew_recency token s)"

text \<open>
  What holds when the code calls an operation: a number of a window is a \<open>u32\<close>, a window that comes
  from elsewhere is consistent, so is the session of the group that is copied, a pane id that is handed in is fresh, and the numbers have not run out.
\<close>

definition session_admits :: "session \<Rightarrow> session_event \<Rightarrow> bool" where
  "session_admits s ev \<longleftrightarrow>
     (case ev of
        CreateWindow sz n \<Rightarrow> n \<le> u32_max \<and> allocate_pane_id s \<noteq> None \<and> ss_next_window_id s \<noteq> u32_max
      | CreateWindowWithPane sz n i \<Rightarrow> n \<le> u32_max \<and> ss_next_window_id s \<noteq> u32_max
      | InsertWindow k sz \<Rightarrow> k \<le> u32_max \<and> allocate_pane_id s \<noteq> None \<and> ss_next_window_id s \<noteq> u32_max
      | InsertWindowWithPane k sz i \<Rightarrow> k \<le> u32_max \<and> ss_next_window_id s \<noteq> u32_max
      | InsertExistingWindow k w \<Rightarrow> k \<le> u32_max \<and> window_ok w
      | ReplaceWindow k w \<Rightarrow> window_ok w
      | LinkWindow k w kill sel \<Rightarrow> k \<le> u32_max \<and> window_ok w
      | RemoveWindowAllowingEmpty k \<Rightarrow> length (ss_windows s) > 1
      | MoveWindow i j kill sel \<Rightarrow> j \<le> u32_max
      | MakeRoom k \<Rightarrow> k \<le> u32_max
      | SplitPane k p i d ahead det \<Rightarrow> i \<notin># session_ids s \<and> has_room s
      | SplitBefore k p d ahead \<Rightarrow> has_room s \<and> allocate_pane_id s \<noteq> None
      | SplitActive d \<Rightarrow> has_room s \<and> allocate_pane_id s \<noteq> None
      | SplitFullSize k p i d ahead det \<Rightarrow> i \<notin># session_ids s \<and> has_room s
      | JoinPane src tgt opts \<Rightarrow> has_room s
      | BreakPane src opts \<Rightarrow> pred_option (\<lambda>k. k \<le> u32_max) (break_target_window opts) \<and> ss_next_window_id s \<noteq> u32_max
      | SynchronizeGroup source m \<Rightarrow> session_inv source
      | SynchronizeGroupMapped source wm m \<Rightarrow> session_inv source
      | _ \<Rightarrow> True)"

inductive session_reachable :: "session \<Rightarrow> bool" where
  start: "new_with_initial_window now token name sz k i wid = Some s \<Longrightarrow> k \<le> u32_max \<Longrightarrow> session_reachable s"
| step: "session_reachable s \<Longrightarrow> session_admits s ev \<Longrightarrow> session_run now s ev = Some s' \<Longrightarrow> session_reachable s'"

section \<open>Every event keeps the invariant\<close>

lemma new_session_inv:
  assumes "k \<le> u32_max"
  shows "returns (new_with_initial_window now token name sz k i wid)
    (\<lambda>s. session_inv s \<and> session_ids s = {#i#} \<and> ss_active_window s = k)"
proof -
  obtain w where w: "new_with_initial_pane now sz i wid = Some w" "window_ok w" "window_ids w = {#i#}"
    using new_window_ok [of now sz i wid] by (auto elim!: returnsE)
  then show ?thesis using assms
    by (simp add: new_with_initial_window_def session_inv_def windows_inv_def current_inv_def window_at_def
        session_ids_def ids_of_def sat_add_le)
qed

lemma allocated_events:
  assumes inv: "session_inv s" and free: "allocate_pane_id s \<noteq> None" and room: "ss_next_window_id s \<noteq> u32_max" and n: "n \<le> u32_max"
  shows "returns (create_window_at_or_above now sz n s) (\<lambda>(s', r). session_inv s')"
    "returns (insert_window_with_initial_pane now n sz s) (\<lambda>(s', r). session_inv s')"
proof -
  obtain s1 i where a: "allocate_pane_id s = Some (s1, i)" using free by auto
  note s1 = allocate_pane_id_inv [OF inv a]
  have "ss_next_window_id s1 \<noteq> u32_max" using room s1(5) by simp
  from create_window_with_pane_inv [OF s1(1) n this, of now sz i] insert_window_with_pane_inv [OF s1(1) n this, of now sz i]
  show "returns (create_window_at_or_above now sz n s) (\<lambda>(s', r). session_inv s')"
    "returns (insert_window_with_initial_pane now n sz s) (\<lambda>(s', r). session_inv s')"
    using a by (auto simp: create_window_at_or_above_def insert_window_with_initial_pane_def elim!: returns_mono)
qed

lemma ordered_indexes_exist:
  assumes "k \<in> set (ordered_window_indexes_after s a forward)"
  shows "window_at s k \<noteq> None"
proof -
  let ?ks = "map fst (ss_windows s)"
  let ?at = "\<lambda>i x. if forward then (i + x) mod length ?ks else (i + length ?ks - x) mod length ?ks"
  obtain i where i: "position (\<lambda>k. k = a) ?ks = Some i"
    using assms by (cases "position (\<lambda>k. k = a) ?ks") (simp_all add: ordered_window_indexes_after_def)
  have "k \<in> (\<lambda>x. ?ks ! ?at i x) ` set [1..<length ?ks]"
    using assms unfolding ordered_window_indexes_after_def Let_def i option.case set_map .
  then obtain x where x: "k = ?ks ! ?at i x" "x \<in> set [1..<length ?ks]" by blast
  then have "0 < length ?ks" by (auto simp del: length_map)
  then have "?at i x < length ?ks" by (cases forward) (simp_all only: if_True if_False mod_less_divisor)
  then have "k \<in> set ?ks" using x(1) nth_mem by blast
  then show ?thesis using keys_window_at [of k s] by (simp del: not_None_eq)
qed

lemma restore_last_inv: "session_inv s \<Longrightarrow> session_inv (restore_last_window_after_active_unlink s)"
proof -
  assume inv: "session_inv s"
  have "window_at s k \<noteq> None" if "ordered_window_indexes_after s a True = k # ks" for a k ks
    using ordered_indexes_exist [of k s a True] that by simp
  then show ?thesis using inv
    by (auto simp: restore_last_window_after_active_unlink_def session_inv_def current_inv_def simp del: not_None_eq split: list.split)
qed

lemma remove_allowing_empty_returns:
  assumes "session_inv s" "length (ss_windows s) > 1"
  shows "returns (remove_window_allowing_empty k s) (\<lambda>(s', r). session_inv s')"
proof (cases "window_at s k")
  case None
  then show ?thesis using assms by (simp add: remove_window_allowing_empty_def)
next
  case (Some w)
  then show ?thesis using remove_allowing_empty_inv [OF assms(1) Some assms(2)] by (metis case_prodI returns_simps(1))
qed

lemma returns_first: "returns r (\<lambda>(s', x). session_inv s' \<and> Q s' x) \<Longrightarrow> returns (map_option fst r) session_inv"
  "returns r (\<lambda>(s', x). session_inv s') \<Longrightarrow> returns (map_option fst r) session_inv"
  by (cases r; auto)+

lemmas kept_events =
  window_ops_keep [THEN returns_first(1)] reindex_keeps [THEN returns_first(1)] select_in_window_keeps [THEN returns_first(1)]
  select_adjacent_keeps [THEN returns_first(1)] resizing_keeps [THEN returns_first(1)] resize_pane_keeps [THEN returns_first(1)]
  layout_keeps [THEN returns_first(1)] session_swap_keeps [THEN returns_first(1)] join_pane_keeps [THEN returns_first(1)]
  move_window_keeps [THEN returns_first(1)] remove_window_inv [THEN returns_first(1)] kill_pane_inv [THEN returns_first(1)]
  break_pane_inv [THEN returns_first(1)] create_window_with_pane_inv [THEN returns_first(1)]
  insert_window_with_pane_inv [THEN returns_first(1)] respawn_keeps_inv [THEN returns_first(2)]
  allocated_events [THEN returns_first(2)] split_before_inv [THEN returns_first(2)] split_active_inv [THEN returns_first(2)]
  kill_others_inv [THEN returns_first(2)] remove_allowing_empty_returns [THEN returns_first(2)]

lemma session_run_inv:
  assumes inv: "session_inv s" and ok: "session_admits s ev"
  shows "returns (session_run now s ev) session_inv"
proof -
  have fst: "session_inv (fst (select_window k s))" "session_inv (fst (next_window_alert_mode a s))"
    "session_inv (fst (previous_window_alert_mode a s))" "session_inv (fst (last_window s))" "session_inv (fst (swap_windows i j s))"
    "session_inv (fst (add_winlink_alert_flags k f s))" "session_inv (fst (clear_winlink_alert_flags k f s))" for k a i j f
    using select_window_keeps [OF inv] step_window_keeps [OF inv] last_window_keeps [OF inv] swap_windows_keeps [OF inv] flag_ops_keep [OF inv]
    by (simp_all add: next_window_alert_mode_def previous_window_alert_mode_def)
  have outcome: "returns (map_option fst (split_pane_in_window_detached now k p i d ahead det s)) session_inv"
    "returns (map_option fst (split_pane_full_size_detached now k p i d ahead det s)) session_inv"
    if "i \<notin># session_ids s" "has_room s" for k p i d ahead det
    using split_detached_inv [OF inv that, of now k p d ahead det] split_full_inv [OF inv that, of now k p d ahead det]
    by (auto simp: session_split_outcome_def elim!: returns_mono)
  have sizes: "returns (resize_terminal sz s) session_inv" "returns (resize_active_window_geometry sz sz' s) session_inv"
    "session_inv (set_terminal_size sz s)" for sz sz'
    using returns_mono [OF resize_terminal_keeps [OF inv, of sz]] returns_mono [OF resize_active_keeps [OF inv, of sz sz']] inv
    by (blast, blast, simp add: set_terminal_size_def session_inv_def)
  have room: "k \<le> u32_max \<Longrightarrow> returns (map_option fst (make_room_for_window k s)) session_inv" for k
    using make_room_inv [OF inv, of k] by (auto elim!: returns_mono)
  have group: "returns (synchronize_group_from_with_optional_map source m s) session_inv"
    "returns (synchronize_group_from_with_maps source wm m' s) session_inv" if "session_inv source" for source m wm m'
    using returns_mono [OF synchronize_optional [OF inv that, of m]] returns_mono [OF synchronize_maps [OF inv that, of wm m']]
    by (auto simp: synchronized_def)
  show ?thesis using ok
    unfolding session_admits_def by (cases ev) (simp_all add: inv kept_events fst outcome sizes room group member_ops_inv [OF inv] insert_existing_inv(1) replace_window_inv link_window_inv
        restore_last_inv del: returns_map)
qed

lemma session_reachable_inv: "session_reachable s \<Longrightarrow> session_inv s"
proof (induction rule: session_reachable.induct)
  case (start now token name sz k i wid s)
  then show ?case using new_session_inv [of k now token name sz i wid] by simp
next
  case (step s ev now s')
  then show ?case using session_run_inv [of s ev now] by simp
qed

end
