(* ===== verification/Session_Spec.thy ===== *)
theory Session_Spec
  imports Session_Machine Window_Spec
begin

text \<open>
  The contract of a session, stated over the operations of \<open>session.rs\<close> and \<open>session/*.rs\<close>: no
  sequence of operations panics or breaks the invariant, panes are not lost or doubled when they move,
  and which window is current after each operation.
\<close>

section \<open>Sample sessions\<close>

definition lone_window :: window where
  "lone_window = one_pane_window\<lparr>w_id := 4, w_panes := [sample_pane 12 0 (new_pane_geometry 0 0 11 5)]\<rparr>"

definition base_session :: session where
  "base_session =
     \<lparr>ss_id = 0, ss_name = ''a'', ss_group_name = None, ss_terminal_size = \<lparr>cols = 11, rows = 5\<rparr>,
      ss_windows = [(0, one_pane_window)], ss_winlink_alert_flags = [(0, 0)], ss_active_window = 0, ss_last_window = None,
      ss_group_initial_window_id = None, ss_next_pane_id = 11, ss_next_window_id = 4, ss_created_at = 0, ss_activity_at = 0,
      ss_last_attached_at = None, ss_recency = 0, ss_cwd = None\<rparr>"

text \<open>Two windows, the second one current.\<close>

definition sample_session :: session where
  "sample_session = base_session\<lparr>ss_windows := [(0, two_pane_window two_panes), (1, lone_window)],
     ss_winlink_alert_flags := [(0, 0), (1, 0)], ss_active_window := 1, ss_last_window := Some 0,
     ss_next_pane_id := 13, ss_next_window_id := 5\<rparr>"

lemmas session_samples = sample_session_def base_session_def

lemma base_reachable: "session_reachable base_session"
proof (rule session_reachable.start)
  show "new_with_initial_window 0 0 ''a'' \<lparr>cols = 11, rows = 5\<rparr> 0 10 3 = Some base_session"
    by (simp add: new_with_initial_window_def one_pane_new base_session_def machine_defs)
qed simp

lemma sample_windows_ok [simp]: "window_ok (two_pane_window two_panes)" "window_ok lone_window"
proof -
  show "window_ok (two_pane_window two_panes)"
    unfolding window_ok_def by (intro conjI two_pane_inv) (simp add: numbered_def sample_defs)
  have "fits_panes (single \<lparr>cols = 11, rows = 5\<rparr>) (Suc 0)"
    by (simp add: fits_panes_def single_def tree_leaf_count_def new_geometry_def)
  then show "window_ok lone_window"
    by (simp add: window_ok_def numbered_def window_inv_def tree_inv_def ids_inv_def index_inv_def u32_max_def lone_window_def
        sample_defs)
qed

lemma sample_at [simp]: "window_at sample_session 0 = Some (two_pane_window two_panes)" "window_at sample_session 1 = Some lone_window"
  "window_at sample_session (Suc 0) = Some lone_window"
  by (simp_all add: window_at_def session_samples)

lemma sample_inv [simp]: "session_inv sample_session"
  by (auto simp: session_inv_def windows_inv_def current_inv_def window_at_def session_samples machine_defs)

lemma sample_room [simp]: "has_room sample_session"
  by (simp add: has_room_def session_samples lone_window_def sample_defs u32_max_def)

section \<open>Safety\<close>

text \<open>
  C1: no panic. On every session that the events of \<^typ>\<open>session_event\<close> reach from a new one, every
  event that its condition admits returns, and the result satisfies the invariant: the maps of windows and of alert flags have the same
  indexes, every window is consistent and its panes are numbered by position, and the current and the last
  window exist.
\<close>

theorem reachable_sessions_never_panic:
  assumes "session_reachable s" and "session_admits s ev"
  shows "\<exists>s'. session_run now s ev = Some s' \<and> session_reachable s' \<and> session_inv s'"
proof -
  obtain s' where "session_run now s ev = Some s'" "session_inv s'"
    using session_run_inv [OF session_reachable_inv [OF assms(1)] assms(2)] by (auto elim: returnsE)
  then show ?thesis using session_reachable.step [OF assms] by blast
qed

theorem reachable_sessions_never_panic_witness:
  "\<exists>s'. session_run 0 base_session (SplitActive Vertical) = Some s' \<and> session_reachable s' \<and> session_inv s'"
  by (rule reachable_sessions_never_panic [OF base_reachable])
    (simp add: session_admits_def has_room_def allocate_pane_id_def free_pane_id.simps contains_pane_id_def base_session_def
      sample_defs u32_max_def)

section \<open>Panes are conserved\<close>

text \<open>The operations that move panes or windows and should lose none.\<close>

definition moves_only :: "session_event \<Rightarrow> bool" where
  "moves_only ev \<longleftrightarrow>
     (case ev of
        SwapPanes _ _ _ \<Rightarrow> True
      | JoinPane _ _ _ \<Rightarrow> True
      | MoveWindow _ _ kill _ \<Rightarrow> \<not> kill
      | SwapWindows _ _ \<Rightarrow> True
      | MakeRoom _ \<Rightarrow> True
      | ReindexFrom _ \<Rightarrow> True
      | RotateWindow _ _ _ \<Rightarrow> True
      | _ \<Rightarrow> False)"

text \<open>
  C2: swapping two panes, joining a pane to a window, rotating a window, and moving, swapping, shifting and
  renumbering windows neither lose nor double a pane, whether the operation succeeds or fails: the pane ids
  of the session, with their multiplicities, are the same afterwards.
\<close>

theorem moves_keep_panes:
  assumes "session_inv s" and "session_admits s ev" and "moves_only ev"
  shows "\<exists>s'. session_run now s ev = Some s' \<and> session_inv s' \<and> session_ids s' = session_ids s"
proof -
  note keeps = window_ops_keep [OF assms(1)] session_swap_keeps [OF assms(1)] join_pane_keeps [OF assms(1)]
    move_window_keeps [OF assms(1)] make_room_inv [OF assms(1)] reindex_keeps [OF assms(1)] swap_windows_keeps [OF assms(1)]
  have first: "returns r (\<lambda>(s', x). keeps_session s s' \<and> Q s' x) \<Longrightarrow> returns (map_option fst r) (keeps_session s)"
    "returns r (\<lambda>(s', x). keeps_session s s') \<Longrightarrow> returns (map_option fst r) (keeps_session s)" for r :: "'b session_result" and Q
    by (cases r; auto)+
  have "returns (session_run now s ev) (keeps_session s)"
  proof (cases ev)
    case (MoveWindow i j kill sel)
    then show ?thesis using assms(2,3) keeps(7) [of j i kill sel] by (auto simp: session_admits_def moves_only_def elim!: returns_mono)
  qed (use assms(2,3) in \<open>simp_all add: session_admits_def moves_only_def first(2) [OF keeps(3)] first(2) [OF keeps(5)]
      first(2) [OF keeps(6)] first(1) [OF keeps(8)] first(2) [OF keeps(9)] keeps(10) del: returns_map\<close>)
  then show ?thesis by (auto elim: returnsE)
qed

theorem moves_keep_panes_witness:
  "\<exists>s'. session_run 0 sample_session (JoinPane \<lparr>t_window = 1, t_pane = 0\<rparr> \<lparr>t_window = 0, t_pane = 1\<rparr>
        \<lparr>join_direction = Vertical, join_detached = False, join_before = False, join_full_size = False, join_size = None\<rparr>)
      = Some s' \<and> session_inv s' \<and> session_ids s' = session_ids sample_session"
  by (rule moves_keep_panes [OF sample_inv]) (simp_all add: session_admits_def moves_only_def)

text \<open>
  C34: breaking a pane out into a window of its own returns, keeps the invariant, and when it succeeds the
  session has the same panes as before.
\<close>

theorem break_pane_spec:
  assumes "session_inv s" and "pred_option (\<lambda>k. k \<le> u32_max) (break_target_window opts)" and "ss_next_window_id s \<noteq> u32_max"
  shows "\<exists>s' r. break_pane now src opts s = Some (s', r) \<and> session_inv s'
    \<and> (case r of Inl _ \<Rightarrow> True | Inr _ \<Rightarrow> session_ids s' = session_ids s)"
  using break_pane_inv [OF assms, of now src] by (auto elim!: returnsE)

theorem break_pane_spec_witness:
  "\<exists>s' r. break_pane 0 \<lparr>t_window = 0, t_pane = 1\<rparr> \<lparr>break_target_window = None, break_name = None, break_detached = False,
        break_after = False, break_before = False\<rparr> sample_session = Some (s', r) \<and> session_inv s'
    \<and> (case r of Inl _ \<Rightarrow> True | Inr _ \<Rightarrow> session_ids s' = session_ids sample_session)"
  by (rule break_pane_spec [OF sample_inv]) (simp_all add: session_samples u32_max_def)

text \<open>
  C38: a pane is lost. When a window with several panes is named as the destination of a break of one of its
  own panes, the pane is taken out of the window before the destination is found to be taken: the call
  returns an error, and the session has lost that pane: of the pane ids of its windows, with their
  multiplicities, one copy of the id is gone. A copy of the pane stays only where the window is linked at
  another index as well.
\<close>

theorem break_to_own_window_loses_pane:
  assumes "session_inv s" and "pane_of_target s src = Inr (w, p)" and "length (w_panes w) \<noteq> 1"
    and "break_target_window opts = Some (t_window src)" and "\<not> break_after opts" and "\<not> break_before opts"
    and "ss_next_window_id s \<noteq> u32_max"
  shows "\<exists>s' e. break_pane now src opts s = Some (s', Inl e) \<and> add_mset (p_id p) (session_ids s') = session_ids s"
proof -
  note w = pane_of_target_Inr [OF assms(1,2)]
  have k: "t_window src \<le> u32_max" by (rule session_invD(7) [OF assms(1) w(1)])
  have dest: "prepare_break_destination (t_window src) (break_target_window opts) (break_after opts) (break_before opts) s
      = Some (s, Inr (t_window src, t_window src))"
    using assms(4,5,6) by (simp add: prepare_break_destination_def resolve_break_destination_index_def)
  from break_multiple [OF assms(1) w(1,3) assms(3) k _ assms(7), of now opts]
  show ?thesis using assms(2,3) dest w(1,4) by (auto simp: break_pane_def ss_bind_def elim!: returnsE)
qed

theorem break_to_own_window_loses_pane_witness:
  "\<exists>s' e. break_pane 0 \<lparr>t_window = 0, t_pane = 1\<rparr> \<lparr>break_target_window = Some 0, break_name = None, break_detached = False,
        break_after = False, break_before = False\<rparr> sample_session = Some (s', Inl e)
    \<and> add_mset 11 (session_ids s') = session_ids sample_session"
proof -
  have t: "pane_of_target sample_session \<lparr>t_window = 0, t_pane = 1\<rparr>
      = Inr (two_pane_window two_panes, sample_pane 11 1 (new_pane_geometry 6 0 5 5))"
    by (simp add: pane_of_target_def) (simp add: pane_at_def sample_defs)
  from break_to_own_window_loses_pane [OF sample_inv t, where now = 0 and opts = "\<lparr>break_target_window = Some 0, break_name = None,
      break_detached = False, break_after = False, break_before = False\<rparr>"]
  show ?thesis by (simp add: session_samples u32_max_def) (simp add: sample_defs)
qed

section \<open>Which window is current\<close>

text \<open>
  C35: removing a window removes exactly that window and its panes. The current window changes only when it
  is the one removed: then it is the last window, if there is one.
\<close>

theorem remove_window_spec:
  assumes "session_inv s" and "window_at s k = Some w" and "length (ss_windows s) > 1"
  shows "\<exists>s'. remove_window k s = Some (s', Inr w) \<and> session_inv s' \<and> window_at s' = (window_at s)(k := None)
    \<and> window_ids w + session_ids s' = session_ids s
    \<and> (ss_active_window s \<noteq> k \<longrightarrow> ss_active_window s' = ss_active_window s)
    \<and> (ss_active_window s = k \<longrightarrow> pred_option (\<lambda>l. l \<noteq> k \<longrightarrow> ss_active_window s' = l) (ss_last_window s))"
proof -
  obtain s' where s': "remove_window_allowing_empty k s = Some (s', Inr w)" "session_inv s'"
    "window_at s' = (window_at s)(k := None)" "window_ids w + session_ids s' = session_ids s"
    "ss_active_window s' = (if ss_active_window s = k then the (next_active_window_after_removal s k) else ss_active_window s)"
    using remove_allowing_empty_inv [OF assms] by metis
  have "next_active_window_after_removal s k = Some l" if "ss_last_window s = Some l" "l \<noteq> k" for l
    using that assms(1) by (simp add: next_active_window_after_removal_def session_inv_def current_inv_def)
  then show ?thesis using s' assms(2,3) by (auto simp: remove_window_def pred_option_def)
qed

theorem remove_window_spec_witness:
  "\<exists>s'. remove_window 1 sample_session = Some (s', Inr lone_window) \<and> ss_active_window s' = 0 \<and> session_inv s'"
proof -
  have len: "length (ss_windows sample_session) > 1" by (simp add: session_samples)
  have "ss_active_window sample_session = 1" "ss_last_window sample_session = Some 0" by (simp_all add: session_samples)
  then show ?thesis using remove_window_spec [OF sample_inv sample_at(2) len] by auto
qed

text \<open>
  C36: renumbering the windows from a first index, when the indexes suffice, gives them consecutive indexes in
  the order they had; the current and the last window are the same windows as before, and the result maps
  each old index to its new one.
\<close>

theorem reindex_spec:
  assumes "session_inv s" and "n + (length (ss_windows s) - 1) \<le> u32_max"
  shows "\<exists>s'. reindex_windows_from n s = Some (s', Inr (zip (map fst (ss_windows s)) [n..<n + length (ss_windows s)]))
    \<and> session_inv s' \<and> map fst (ss_windows s') = [n..<n + length (ss_windows s)]
    \<and> map snd (ss_windows s') = map snd (ss_windows s)
    \<and> window_at s' (ss_active_window s') = window_at s (ss_active_window s)
    \<and> map_option (window_at s') (ss_last_window s') = map_option (window_at s) (ss_last_window s)"
proof -
  obtain s' where "reindex_windows_from n s = Some (s', Inr (zip (map fst (ss_windows s)) [n..<n + length (ss_windows s)]))"
    "keeps_session s s'" "ss_windows s' = zip [n..<n + length (ss_windows s)] (map snd (ss_windows s))"
    "window_at s' (ss_active_window s') = window_at s (ss_active_window s)"
    "map_option (window_at s') (ss_last_window s') = map_option (window_at s) (ss_last_window s)"
    using reindex_inv [OF assms] .
  then show ?thesis by (intro exI [of _ s']) (simp del: map_map)
qed

theorem reindex_spec_witness:
  "\<exists>s'. reindex_windows_from 5 sample_session = Some (s', Inr [(0, 5), (1, 6)]) \<and> session_inv s'
    \<and> window_at s' (ss_active_window s') = Some lone_window"
proof -
  have "map fst (ss_windows sample_session) = [0, 1]" "length (ss_windows sample_session) = 2" "ss_active_window sample_session = 1"
    by (simp_all add: session_samples)
  then show ?thesis using reindex_spec [OF sample_inv, of 5] by (auto simp: u32_max_def upt_rec)
qed

text \<open>The window that a step without alerts selects.\<close>

lemma position_nth: "distinct xs \<Longrightarrow> i < length xs \<Longrightarrow> position (\<lambda>k. k = xs ! i) xs = Some i"
proof -
  assume d: "distinct xs" and i: "i < length xs"
  obtain j where j: "position (\<lambda>k. k = xs ! i) xs = Some j"
    using i nth_mem [OF i] position_None [of "\<lambda>k. k = xs ! i" xs] by auto
  then have "j < length xs" "xs ! j = xs ! i" using position_Some [OF j] by auto
  then show ?thesis using j d i by (simp add: nth_eq_iff_index_eq)
qed

lemma around:
  fixes i n :: nat
  assumes "i < n" "1 < n"
  shows "((i + 1) mod n + n - 1) mod n = i" "(i + 1) mod n \<noteq> i" "(i + 1) mod n < n"
proof -
  consider (top) "i + 1 = n" "(i + 1) mod n = 0" | (below) "i + 1 < n" "(i + 1) mod n = i + 1"
    using assms(1) by (cases "i + 1 = n") auto
  then have "((i + 1) mod n + n - 1) mod n = i \<and> (i + 1) mod n \<noteq> i \<and> (i + 1) mod n < n"
  proof cases
    case top
    then have "n - 1 = i" by simp
    then show ?thesis using top(2) assms by simp
  next
    case below
    then show ?thesis using assms by simp
  qed
  then show "((i + 1) mod n + n - 1) mod n = i" "(i + 1) mod n \<noteq> i" "(i + 1) mod n < n" by blast+
qed

lemma step_without_alerts:
  fixes forward :: bool
  assumes inv: "session_inv s" and several: "length (ss_windows s) > 1"
    and i: "i < length (ss_windows s)" "ss_active_window s = map fst (ss_windows s) ! i"
  defines "j \<equiv> if forward then (i + 1) mod length (ss_windows s) else (i + length (ss_windows s) - 1) mod length (ss_windows s)"
  obtains s' where "step_window m forward False s = (s', Inr (map fst (ss_windows s) ! j))" "session_inv s'"
    "ss_windows s' = ss_windows s" "ss_active_window s' = map fst (ss_windows s) ! j"
proof -
  let ?ks = "map fst (ss_windows s)"
  have pos: "position (\<lambda>k. k = ss_active_window s) ?ks = Some i"
    using position_nth [OF bm_sorted_distinct [OF session_invD(3) [OF inv]], of i] i by simp
  have up: "[1..<length ?ks] = 1 # [2..<length ?ks]" using several by (simp add: upt_conv_Cons numeral_2_eq_2)
  obtain rest where first: "ordered_window_indexes_after s (ss_active_window s) forward = ?ks ! j # rest"
    unfolding ordered_window_indexes_after_def Let_def pos option.case up list.map unfolding j_def length_map by blast
  then have at: "window_at s (?ks ! j) \<noteq> None" using ordered_indexes_exist [of "?ks ! j" s "ss_active_window s" forward] by simp
  obtain s' where s': "select_window (?ks ! j) s = (s', Inr ())" "ss_active_window s' = ?ks ! j" "ss_windows s' = ss_windows s"
    using select_window_eq [OF at] by metis
  then have "session_inv s'" using select_window_keeps [OF inv, of "?ks ! j"] by simp
  then show ?thesis using that s' several first by (simp add: step_window_def)
qed

text \<open>
  the next window after the current one is another window, and the previous window of that one is the
  window that was current at first; the windows of the session stay as they are.
\<close>

theorem next_then_previous_window:
  assumes "session_inv s" and "length (ss_windows s) > 1"
  shows "\<exists>s1 k s2. next_window_alert_mode False s = (s1, Inr k) \<and> k \<noteq> ss_active_window s
    \<and> previous_window_alert_mode False s1 = (s2, Inr (ss_active_window s))
    \<and> ss_active_window s2 = ss_active_window s \<and> ss_windows s2 = ss_windows s \<and> session_inv s2"
proof -
  let ?ks = "map fst (ss_windows s)" and ?n = "length (ss_windows s)"
  have "ss_active_window s \<in> set ?ks" using session_invD(5) [OF assms(1)] keys_window_at [of "ss_active_window s" s] by simp
  then obtain i where i: "i < ?n" "ss_active_window s = ?ks ! i" by (metis in_set_conv_nth length_map)
  obtain s1 where s1: "step_window ''no next window'' True False s = (s1, Inr (?ks ! ((i + 1) mod ?n)))" "session_inv s1"
    "ss_windows s1 = ss_windows s" "ss_active_window s1 = ?ks ! ((i + 1) mod ?n)"
    using step_without_alerts [OF assms i, of "''no next window''" True] by auto
  note again = around(1) [OF i(1) assms(2)] and other = around(2,3) [OF i(1) assms(2)]
  obtain s2 where s2: "step_window ''no previous window'' False False s1 = (s2, Inr (?ks ! i))" "session_inv s2"
    "ss_windows s2 = ss_windows s" "ss_active_window s2 = ?ks ! i"
    by (rule step_without_alerts [OF s1(2), of "(i + 1) mod ?n" "''no previous window''" False])
      (use s1(3,4) assms(2) other(2) again in simp_all)
  have "?ks ! ((i + 1) mod ?n) \<noteq> ?ks ! i"
    using bm_sorted_distinct [OF session_invD(3) [OF assms(1)]] other i(1) by (simp add: nth_eq_iff_index_eq del: nth_map)
  then show ?thesis using s1 s2 i(2) by (simp add: next_window_alert_mode_def previous_window_alert_mode_def)
qed

theorem next_then_previous_window_witness:
  "\<exists>s1 k s2. next_window_alert_mode False sample_session = (s1, Inr k) \<and> k \<noteq> 1
    \<and> previous_window_alert_mode False s1 = (s2, Inr 1) \<and> ss_active_window s2 = 1"
proof -
  have "length (ss_windows sample_session) > 1" "ss_active_window sample_session = 1" by (simp_all add: session_samples)
  then show ?thesis using next_then_previous_window [OF sample_inv] by auto
qed

section \<open>Session groups\<close>

text \<open>
  C37: synchronizing a session with another one of its group returns and keeps the invariant, and its windows
  are those of the other session then. When no session has the same window at two indexes, identity is kept:
  every window of the session that the other one has, at whatever index, keeps its alert flags, and if it was
  the current window, it still is.
\<close>

theorem synchronize_group_spec:
  assumes "session_inv s" and "session_inv source"
  shows "\<exists>s'. synchronize_group_from source s = Some s' \<and> session_inv s' \<and> ss_windows s' = ss_windows source
    \<and> (distinct_ids (ss_windows s) \<and> distinct_ids (ss_windows source) \<longrightarrow>
        (\<forall>k n w w'. window_at s k = Some w \<longrightarrow> window_at source n = Some w' \<longrightarrow> w_id w = w_id w' \<longrightarrow>
           winlink_alert_flags s' n = winlink_alert_flags s k \<and> (ss_active_window s = k \<longrightarrow> ss_active_window s' = n)))"
proof -
  obtain s' where s': "synchronize_group_from source s = Some s'" "synchronized source s s'"
    "distinct_ids (ss_windows source) \<Longrightarrow> same_id (ss_windows s) (ss_windows source) (ss_active_window s) n \<Longrightarrow> ss_active_window s' = n" for n
    using synchronize_optional [OF assms, of None] by (auto simp: synchronize_group_from_def elim!: returnsE)
  have same: "window_at s k = Some w \<Longrightarrow> window_at source n = Some w' \<Longrightarrow> w_id w = w_id w' \<Longrightarrow>
      same_id (ss_windows s) (ss_windows source) k n" for k n w w' by (auto simp: same_id_def window_at_def)
  have "winlink_alert_flags s' n = winlink_alert_flags s k \<and> (ss_active_window s = k \<longrightarrow> ss_active_window s' = n)"
    if "distinct_ids (ss_windows s)" "distinct_ids (ss_windows source)" "same_id (ss_windows s) (ss_windows source) k n" for k n
    using s'(2) s'(3) that by (simp add: synchronized_def winlink_alert_flags_def)
  then show ?thesis using s'(1,2) same unfolding synchronized_def by blast
qed

text \<open>The second window, which is current and has a flag, sits at index 5 in the other session.\<close>

theorem synchronize_group_spec_witness:
  "\<exists>s'. synchronize_group_from (sample_session\<lparr>ss_windows := [(0, two_pane_window two_panes), (5, lone_window)],
        ss_winlink_alert_flags := [(0, 0), (5, 0)], ss_active_window := 0, ss_last_window := None\<rparr>)
      (sample_session\<lparr>ss_winlink_alert_flags := [(0, 0), (1, 2)]\<rparr>) = Some s'
    \<and> winlink_alert_flags s' 5 = 2 \<and> ss_active_window s' = 5"
proof -
  let ?src = "sample_session\<lparr>ss_windows := [(0, two_pane_window two_panes), (5, lone_window)],
        ss_winlink_alert_flags := [(0, 0), (5, 0)], ss_active_window := 0, ss_last_window := None\<rparr>"
  let ?s = "sample_session\<lparr>ss_winlink_alert_flags := [(0, 0), (1, 2)]\<rparr>"
  have inv: "session_inv ?src" "session_inv ?s"
    by (auto simp: session_inv_def windows_inv_def current_inv_def window_at_def session_samples machine_defs)
  have "distinct_ids (ss_windows ?s)" "distinct_ids (ss_windows ?src)"
    by (simp_all add: distinct_ids_def session_samples) (simp_all add: lone_window_def sample_defs)
  moreover have "window_at ?s 1 = Some lone_window" "window_at ?src 5 = Some lone_window" "ss_active_window ?s = 1"
    "winlink_alert_flags ?s 1 = 2"
    by (simp_all add: window_at_def winlink_alert_flags_def session_samples)
  ultimately show ?thesis using synchronize_group_spec [OF inv(2,1)] by metis
qed

section \<open>The current window gets lost\<close>

text \<open>The current window steps up by one index and is not selected there.\<close>

lemma shifted_current:
  assumes inv: "session_inv s" and a: "ss_active_window s = k" "k < u32_max" "window_at s (k + 1) = None"
    and below: "window_at s j \<noteq> None" "j < k"
  shows "\<exists>s'. move_window k (k + 1) False False s = Some (s', Inr None) \<and> ss_active_window s' \<noteq> k + 1"
proof -
  obtain w where w: "window_at s k = Some w" using session_invD(5) [OF inv] a(1) by auto
  define s3 where "s3 = put_flags (k + 1) (winlink_alert_flags s k) (put_window (k + 1) w (drop_window k s))"
  have at: "window_at s3 = (window_at s)(k := None, k + 1 \<mapsto> w)"
    using session_invD(3) [OF inv] by (simp add: s3_def fun_eq_iff window_at_put window_at_drop)
  have "j \<in> set (filter (\<lambda>x. x < k) (map fst (ss_windows s3)))" using below at keys_window_at [of j s3] by simp
  then have ne: "filter (\<lambda>x. x < k) (map fst (ss_windows s3)) \<noteq> []" by (metis empty_iff list.set(1))
  then have "last (filter (\<lambda>x. x < k) (map fst (ss_windows s3))) < k" using last_in_set [OF ne] by simp
  then obtain c where c: "cyclic_previous_window_index (ss_windows s3) k = Some c" "c < k"
    using ne by (simp add: cyclic_previous_window_index_def)
  have "l \<noteq> k + 1" if "ss_last_window s = Some l" for l
    using that inv a(3) by (auto simp: session_inv_def current_inv_def)
  then have "\<exists>n. next_active_window_after_detach s3 k (ss_last_window s) = Some n \<and> n \<noteq> k + 1"
    using c by (auto simp: next_active_window_after_detach_def split: option.split)
  then obtain n where n: "next_active_window_after_detach s3 k (ss_last_window s) = Some n" "n \<noteq> k + 1" by blast
  have "move_window k (k + 1) False False s
      = Some (s3\<lparr>ss_active_window := n, ss_last_window := None\<rparr>, Inr None)"
    using w a n(1) by (simp add: move_window_def Let_def s3_def apply_move_tracking_def)
  then show ?thesis using n(2) by simp
qed

lemma make_room_current:
  assumes "session_inv s" "a < g" "g \<le> u32_max" "window_at s g = None" "\<And>k. a \<le> k \<Longrightarrow> k < g \<Longrightarrow> window_at s k \<noteq> None"
    and "ss_active_window s = a" "window_at s j \<noteq> None" "j < a"
  shows "\<exists>s' r. make_room_loop (rev [a..<g]) m s = Some (s', r) \<and> ss_active_window s' \<noteq> a + 1"
  using assms
proof (induction "g - a" arbitrary: g s m)
  case (Suc n)
  then obtain g' where g': "g = Suc g'" "a \<le> g'" by (cases g) auto
  obtain w where w: "window_at s g' = Some w" using Suc.prems(5) [of g'] g' by auto
  obtain s1 where s1: "move_window g' g False False s = Some (s1, Inr None)" "session_inv s1"
    "window_at s1 = (window_at s)(g' := None, g \<mapsto> w)" "current_after_move g' g False s s1"
    by (rule move_window_inv [OF Suc.prems(1) w, of g False False]) (use Suc.prems(3,4) g'(1) in simp_all)
  show ?case
  proof (cases "g' = a")
    case True
    obtain s' where "move_window a (a + 1) False False s = Some (s', Inr None)" "ss_active_window s' \<noteq> a + 1"
      using shifted_current [of s a j] Suc.prems g' True by auto
    then show ?thesis using Suc.prems(3) g' True by (simp add: ss_bind_def)
  next
    case False
    have "\<exists>s' r. make_room_loop (rev [a..<g']) (bm_insert g' g m) s1 = Some (s', r) \<and> ss_active_window s' \<noteq> a + 1"
    proof (rule Suc.hyps(1))
      show "n = g' - a" "a < g'" "g' \<le> u32_max" using Suc.hyps(2) g' False Suc.prems(3) by simp_all
      show "window_at s1 g' = None" "window_at s1 j \<noteq> None" using s1(3) g' Suc.prems(7,8) by auto
      show "window_at s1 k \<noteq> None" if "a \<le> k" "k < g'" for k using that s1(3) g' Suc.prems(5) [of k] by auto
      show "ss_active_window s1 = a" using s1(4) Suc.prems(6) False by (auto simp: current_after_move_def)
    qed (use s1 Suc.prems(8) in simp_all)
    then show ?thesis using s1(1) g' Suc.prems(3) by (simp add: ss_bind_def)
  qed
qed simp

text \<open>
  C39: making room at the index of the current window moves that window up by one, and another window becomes
  current, whenever the session has a window at a lower index.
\<close>

theorem make_room_changes_current_window:
  assumes "session_inv s" and "ss_active_window s = k" and "window_at s j \<noteq> None" and "j < k"
    and "lowest_available_window_index_at_or_above s k = Inr g"
  shows "\<exists>s' m. make_room_for_window k s = Some (s', Inr m) \<and> window_at s' (k + 1) = window_at s k
    \<and> ss_active_window s' \<noteq> k + 1"
proof -
  have k: "window_at s k \<noteq> None" using session_invD(5) [OF assms(1)] assms(2) by simp
  then have "k \<le> u32_max" using session_invD(7) [OF assms(1)] by blast
  note g = lowest_available_window [OF assms(1,5) this]
  have "k < g" using g(1,3) k by (metis le_neq_implies_less)
  obtain s' m where s': "make_room_loop (rev [k..<g]) [] s = Some (s', Inr m)" "window_at s' = moved_up k g (window_at s)"
    using make_room_loop_inv [OF assms(1) g(1,2,3,4), of "[]"] by blast
  moreover have "ss_active_window s' \<noteq> k + 1"
    using make_room_current [OF assms(1) \<open>k < g\<close> g(2,3,4) assms(2,3,4), of "[]"] s'(1) by auto
  ultimately show ?thesis using assms(5) \<open>k < g\<close> by (simp add: make_room_for_window_def moved_up_def)
qed

theorem make_room_changes_current_window_witness:
  "\<exists>s' m. make_room_for_window 1 sample_session = Some (s', Inr m) \<and> window_at s' 2 = Some lone_window
    \<and> ss_active_window s' \<noteq> 2"
proof -
  have "ss_active_window sample_session = 1" "lowest_available_window_index_at_or_above sample_session 1 = Inr 2"
    by (simp_all add: session_samples lowest_available_window_index_at_or_above_def u32_max_def)
  then show ?thesis using make_room_changes_current_window [OF sample_inv, of 1 0 2] by (simp add: numeral_2_eq_2)
qed

text \<open>
  C40: joining the only pane of the current window to another window, detached, leaves a session whose last
  window is its current window: the window that becomes current is the last window, and it stays recorded as
  the last one.
\<close>

theorem join_leaves_last_window_current:
  assumes "session_inv s" and "has_room s" and "t_window src \<noteq> t_window tgt"
    and "pane_of_target s src = Inr (sw, sp)" and "prepare_join s tgt opts sp = Inr (tw, pos, req, tp)"
    and "length (w_panes sw) = 1" and "join_detached opts"
    and "ss_active_window s = t_window src" and "ss_last_window s = Some l" and "l \<noteq> t_window src"
  shows "\<exists>s'. join_pane now src tgt opts s = Some (s', Inr ()) \<and> ss_active_window s' = l \<and> ss_last_window s' = Some l"
proof -
  obtain sw' tw' where empty: "w_panes sw' = [] \<longleftrightarrow> length (w_panes sw) = 1"
    and run: "join_pane now src tgt opts s = do {
       let s2 = put_window (t_window tgt) tw' (without_two (t_window src) (t_window tgt) s);
       s3 \<leftarrow> (if w_panes sw' = [] then drop_emptied_window (t_window src) s2 else Some (put_window (t_window src) sw' s2));
       Some (if join_detached opts then (s3, Inr ()) else select_window (t_window tgt) s3) }"
    by (rule join_between_steps [OF assms(1-5), of now]) blast
  let ?s2 = "put_window (t_window tgt) tw' (without_two (t_window src) (t_window tgt) s)"
  have f: "ss_active_window ?s2 = t_window src" "ss_last_window ?s2 = Some l"
    using assms(8,9) by (simp_all add: put_window_def without_two_def)
  have "bm_sorted (ss_windows (without_two (t_window src) (t_window tgt) s))"
    using session_invD(3) [OF assms(1)] by (simp add: without_two_def bm_sorted_remove)
  moreover have "window_at s l \<noteq> None" using assms(1,9) by (simp add: session_inv_def current_inv_def)
  ultimately have at: "window_at ?s2 l \<noteq> None"
    using assms(10) by (auto simp: window_at_put) (auto simp: window_at_def without_two_def map_of_bm_remove)
  define s3 where "s3 = forget_last (t_window src) (?s2\<lparr>ss_winlink_alert_flags := bm_remove (t_window src) (ss_winlink_alert_flags ?s2),
    ss_active_window := l, ss_group_initial_window_id := None\<rparr>)"
  have "drop_emptied_window (t_window src) ?s2 = Some s3"
    using f at assms(10)
    by (simp add: drop_emptied_window_def next_active_window_after_removal_def s3_def) (simp add: window_at_def)
  moreover have "ss_active_window s3 = l" "ss_last_window s3 = Some l" using f assms(10) by (simp_all add: s3_def forget_last_def)
  ultimately show ?thesis using run empty assms(6,7) by simp
qed

theorem join_leaves_last_window_current_witness:
  "\<exists>s'. join_pane 0 \<lparr>t_window = 1, t_pane = 0\<rparr> \<lparr>t_window = 0, t_pane = 1\<rparr>
      \<lparr>join_direction = Vertical, join_detached = True, join_before = False, join_full_size = False, join_size = None\<rparr> sample_session
      = Some (s', Inr ()) \<and> ss_active_window s' = 0 \<and> ss_last_window s' = Some 0"
proof -
  have t: "pane_of_target sample_session \<lparr>t_window = 1, t_pane = 0\<rparr> = Inr (lone_window, sample_pane 12 0 (new_pane_geometry 0 0 11 5))"
    by (simp add: pane_of_target_def) (simp add: pane_at_def lone_window_def sample_defs)
  have p: "prepare_join sample_session \<lparr>t_window = 0, t_pane = 1\<rparr> \<lparr>join_direction = Vertical, join_detached = True, join_before = False,
        join_full_size = False, join_size = None\<rparr> (sample_pane 12 0 (new_pane_geometry 0 0 11 5))
      = Inr (two_pane_window two_panes, 1, None, sample_pane 12 2 (new_pane_geometry 0 0 11 5))"
    by (simp add: prepare_join_def)
      (simp add: pane_position_def join_requested_size_def transient_index_def ensure_accepts_pane_def machine_defs sample_defs)
  show ?thesis
    by (rule join_leaves_last_window_current [OF sample_inv sample_room _ t p]) (simp_all add: session_samples lone_window_def sample_defs)
qed

end
