(* ===== verification/Spec2Isabelle.thy ===== *)
theory Spec2Isabelle
  imports Layout_Spec Window_Spec Buffers_Spec Text_Spec Output_Ring_Spec Coalescer_Spec Subscriptions_Spec Sdk_Waits Codec_Spec Session_Spec
begin

text \<open>
  A verification library for the core of \<open>rmux\<close>, a terminal multiplexer that is compatible with tmux.

  \<^bold>\<open>The program.\<close> A session holds windows, a window holds panes and a layout tree. The tree (a cell is a
  pane or a split with children) says where each pane is drawn; the window keeps the panes, their numbers,
  the active and the last pane, the zoom state and the choice of layout, and calls the layout engine
  whenever the panes or the size change. The session keeps the current and the last window and moves panes
  between its windows; the sessions of a group share their windows. Around this the core has the paste
  buffers, the escaping and matching of text, and the delivery of the output of panes to subscribers. All of
  it is in the crate \<open>rmux-core\<close> (\<open>src/crates/rmux-core/src\<close>). The shared types and the wire formats are in
  \<open>rmux-proto\<close> (\<open>src/crates/rmux-proto/src\<close>).

  \<^bold>\<open>Foundations.\<close> \<open>Rmux_Prelude\<close> has the machine integers and the generic lemmas, \<open>Rmux_Text\<close> the
  errors and the printing of numbers. \<open>Ordered_Map\<close> reads a \<open>BTreeMap\<close> as the list of its entries in key order
  and states what every map promises as the locale \<open>map_interface\<close>; \<open>Index_Map\<close> has \<open>HashMap\<close> as a list of
  entries with distinct keys, the second interpretation of that locale, and the indexes of registries.

  \<^bold>\<open>The layout engine\<close> (\<open>layout.rs\<close>, \<open>layout/*.rs\<close>).
  \<^item> \<open>Layout_Cell\<close>: cells, their geometry, counting, offsets, the size check and \<open>resize_adjust\<close>
    (\<open>layout/cell.rs\<close>).
  \<^item> \<open>Layout_Tree\<close>: splitting and removing leaves, splitting the root, spreading (\<open>layout/mutation.rs\<close>);
    \<open>Layout_Resize\<close>: resizing (\<open>layout/resize.rs\<close>); \<open>Layout_Named\<close>: the preset layouts (\<open>layout/named.rs\<close>);
    \<open>Layout_Text\<close>: printing, checksum and parser of layout strings (\<open>layout.rs\<close>, \<open>layout/parser.rs\<close>).
  \<^item> \<open>Layout_Tiling\<close> defines the invariant of a layout: the children of a split fill it exactly, with one
    border cell between neighbours, and every pane has at least one cell. With correct offsets and a correct
    leaf map this is \<open>wf_tree\<close> (\<open>Layout_Tree_Props\<close>). \<open>Layout_Shape\<close>, \<open>Layout_Offsets\<close>, \<open>Layout_Paths\<close>,
    \<open>Layout_Resize_Cell\<close>, \<open>Layout_Resize_Props\<close>, \<open>Layout_Border\<close>, \<open>Layout_Border_Pane\<close>, \<open>Layout_Spread\<close>,
    \<open>Layout_Named_Props\<close>, \<open>Layout_Tiled_Props\<close> and \<open>Layout_Text_Props\<close> prove what each operation does with a
    well-formed layout.
  \<^item> \<open>Layout_Fits\<close> is the interface between the layout engine and the window: the locales \<open>tree_op\<close> (an
    operation reports success and then changes the number of cells in a known way) and \<open>wf_tree_op\<close> (it also
    keeps a layout well-formed and its size), interpreted on every operation of the layout engine that a
    window calls, except that spreading is no instance of \<open>wf_tree_op\<close>: it does not keep layouts
    well-formed.
  \<^item> \<open>Layout_Spec\<close> states the contract: what splitting, removing, resizing, parsing and printing do, and
    exactly when spreading and splitting the root leave a proper layout.

  \<^bold>\<open>The window\<close> (\<open>pane.rs\<close>, \<open>window.rs\<close>, \<open>window/*.rs\<close>).
  \<^item> \<open>Window_State\<close>: the records of panes and windows, applying a layout, creation, names, alerts,
    activity; \<open>Window_Ops\<close>: zoom, numbering, splitting, removing, selecting, rotating, swapping and moving
    panes; \<open>Window_Layout\<close>: resizing, named layouts, layout strings.
  \<^item> \<open>Window_Inv\<close> defines the invariant \<open>window_inv\<close>; \<open>Window_Ops_Inv\<close>, \<open>Window_Moves_Inv\<close> and
    \<open>Window_Layout_Inv\<close> show that every operation returns (no panic) and keeps it. \<open>Window_Machine\<close> is the
    state machine of a window, with the invariant for all reachable windows.
  \<^item> \<open>Window_Screen\<close>, \<open>Window_Screen_Layout\<close>: the rectangles of the panes agree with a well-formed layout in
    every window reached by operations that keep layouts proper.
  \<^item> \<open>Window_Numbered\<close>: the panes of a window in a session are numbered by position.
  \<^item> \<open>Window_Spec\<close> states the contract, with three defects of the source as theorems.

  \<^bold>\<open>The session\<close> (\<open>session.rs\<close>, \<open>session/*.rs\<close>).
  \<^item> \<open>Session_State\<close>: the record of a session and the operations on its windows (\<open>window_ops.rs\<close>,
    \<open>window_ops/navigation.rs\<close>, \<open>accessors.rs\<close>); \<open>Session_Panes\<close>: the operations on panes (\<open>session.rs\<close>,
    \<open>resize.rs\<close>, \<open>layout_cycle.rs\<close>, \<open>pane_transfer.rs\<close>, \<open>pane_transfer_shared.rs\<close>,
    \<open>pane_transfer/break_window.rs\<close>); \<open>Session_Calls\<close>: the calls that fill in arguments of these, and the
    attributes of a session; \<open>Session_Group\<close>: synchronizing with a session of the group, cloning a
    member, taking part in the window ids of a store (\<open>accessors.rs\<close>).
  \<^item> \<open>Session_Inv\<close> defines the invariant \<open>session_inv\<close> and the panes of a session as a multiset of ids;
    \<open>Window_Transfers\<close>, \<open>Session_Windows_Inv\<close>, \<open>Session_Moves_Inv\<close>, \<open>Session_Panes_Inv\<close>,
    \<open>Session_Transfers_Inv\<close> and \<open>Session_Group_Inv\<close> show that the operations return, keep the invariant, and
    which of them keep the panes.
  \<^item> \<open>Session_Machine\<close> is the state machine of a session. Its events cover the operations that change one
    session; a window or a session that is handed in has to satisfy its invariant. A session is reachable
    when these events lead to it.
  \<^item> \<open>Session_Spec\<close> states the contract: no panic, no pane lost or doubled by a move, which window is current,
    what group synchronization keeps, and three defects of the source.

  \<^bold>\<open>Paste buffers and text\<close> (\<open>buffers.rs\<close>, \<open>vis.rs\<close>, \<open>glob.rs\<close>). \<open>Buffers\<close> is the store and
  \<open>Buffers_Spec\<close> its contract (no panic, the effect of adding an automatic buffer, eviction, renaming). \<open>Vis\<close>
  is the escaping of bytes and \<open>Glob\<close> the matcher; \<open>Text_Spec\<close> shows that escapes can be read back and that
  the matcher agrees with a reference semantics of patterns.

  \<^bold>\<open>Delivery of output\<close> (\<open>events/*.rs\<close>).
  \<^item> \<open>Output_Ring\<close> (\<open>ring.rs\<close>, \<open>cursor.rs\<close>): the output kept for subscribers. \<open>Output_Ring_Props\<close> relates it to
    the log of everything written; \<open>Output_Ring_Spec\<close> states the refinement and that a subscriber gets every
    sequence number once, as an event or inside a reported gap.
  \<^item> \<open>Coalescer\<close> (\<open>coalescing.rs\<close>): the rate limit of notifications. \<open>Coalescer_Spec\<close> states what is sent when,
    for revisions of any values, and the two places where the code and its documentation differ.
  \<^item> \<open>Subscriptions\<close> (\<open>registry.rs\<close>) and \<open>Sdk_Waits\<close> (\<open>wait.rs\<close>): the registries. \<open>Subscriptions_Spec\<close> states
    that the indexes agree with the records and which limits hold.

  \<^bold>\<open>Wire formats\<close> (\<open>rmux-proto\<close>: \<open>envelope.rs\<close>, \<open>codec.rs\<close>, \<open>attach.rs\<close>). \<open>Varint\<close> has the envelope, \<open>Frame_Codec\<close>
  the detached frames, \<open>Attach_Codec\<close> the attach stream, \<open>Utf8_Bytes\<close> the decoding of strings. \<open>Stream_Decoder\<close>
  is the locale of an incremental decoder, interpreted on both decoders: how the bytes are cut into pieces
  does not matter. \<open>Codec_Spec\<close> states round trips, the bound on the memory of a decoder, and that the
  shortcuts agree with the general functions. The \<open>bincode\<close> crate is a parameter; that it reads back what it
  wrote is a hypothesis of the round trips, which their witnesses meet with concrete functions.

  \<^bold>\<open>Conventions.\<close> \<open>u16\<close>, \<open>u32\<close>, \<open>u64\<close> and \<open>usize\<close> values are natural numbers, \<open>i32\<close> and \<open>i64\<close> values
  integers; where the source can wrap or saturate, the function that does so is written out (\<open>u32_add\<close>,
  \<open>u32_sat_add\<close>, \<open>usize_sub\<close>, \<open>i32_wrap\<close> and others), and the invariants bound the sizes so that the proofs need no
  overflow assumption. Bytes and alert flags are 8-bit words or numbers below 256. A \<open>Result\<close> is a sum with the error on the
  left. A method that changes a value and returns another is a function to the new state and the result. A
  panic is the value \<open>None\<close>, and the theorems state that the result is \<open>Some\<close>. The system clock, the recency token
  of a session and the number in a shared counter are arguments. A \<open>HashMap\<close> is iterated in no particular
  order, and no theorem depends on the order of the list that stands for it.

  \<^bold>\<open>Bounds.\<close> The recursion of \<open>resize_adjust\<close> and of the parser is bounded by the depth of the tree;
  \<open>Layout_Shape\<close> shows that the depth is always enough, and the parser has the source's own limit
  \<open>MAX_LAYOUT_PARSE_DEPTH\<close>. Taking all messages out of a decoder (\<open>drain\<close> of \<open>Stream_Decoder\<close>) has a bound that
  the round trips show to be enough. All other loops are structural or carry a termination proof.

  \<^bold>\<open>Not modelled.\<close> The store of all sessions and the transfers of panes between two sessions
  (\<open>session/store.rs\<close>, \<open>session/pane_transfer_cross.rs\<close>); \<open>debug_assert!\<close> (absent from release builds); trait
  implementations generated by \<open>derive\<close>; options, formats, commands, keys and targets; the terminal emulation,
  the server, the client, the pseudo-terminals and the layers of the operating system.
\<close>

end
